(* ===== verification/Prelude.thy ===== *)
theory Prelude
  imports Complex_Main
begin

text \<open>
  Shared vocabulary of the development: the result type of operations that may
  throw (\<open>'e + 'a\<close>, the thrown error on the left), its sequencing operators, the
  insertion-ordered association lists that stand for JavaScript \<open>Map\<close> objects where the
  enumeration order matters, and the generic list lemmas the components use.
\<close>

named_theorems result_simps "unfolding the sequencing of fallible operations"
named_theorems model_defs "definitions a component's proofs unfold together"

section \<open>Fallible operations\<close>

type_synonym ('e, 'a) result = "'e + 'a"

abbreviation throw :: "'e \<Rightarrow> 'e + 'a" where
  "throw e \<equiv> Inl e"

abbreviation ok :: "'a \<Rightarrow> 'e + 'a" where
  "ok x \<equiv> Inr x"

fun rbind :: "'e + 'a \<Rightarrow> ('a \<Rightarrow> 'e + 'b) \<Rightarrow> 'e + 'b" where
  "rbind (Inl e) f = Inl e"
| "rbind (Inr x) f = f x"

fun rmapM :: "('a \<Rightarrow> 'e + 'b) \<Rightarrow> 'a list \<Rightarrow> 'e + 'b list" where
  "rmapM f [] = Inr []"
| "rmapM f (x # xs) = rbind (f x) (\<lambda>y. rbind (rmapM f xs) (\<lambda>ys. Inr (y # ys)))"

fun_cases rbind_InrE: "rbind m f = Inr y"
fun_cases rmapM_ConsE: "rmapM f (x # xs) = r"

lemma rbind_Inr_iff [result_simps]: "rbind m f = Inr y \<longleftrightarrow> (\<exists>x. m = Inr x \<and> f x = Inr y)"
  by (cases m) auto

lemma rbind_Inl_iff [result_simps]:
  "rbind m f = Inl e \<longleftrightarrow> m = Inl e \<or> (\<exists>x. m = Inr x \<and> f x = Inl e)"
  by (cases m) auto

lemma rmapM_Inr_iff: "rmapM f xs = Inr ys \<longleftrightarrow> list_all2 (\<lambda>x y. f x = Inr y) xs ys"
proof (induction xs arbitrary: ys)
  case (Cons x xs)
  then show ?case by (auto simp: result_simps list_all2_Cons1)
qed auto

lemma rmapM_length: "rmapM f xs = Inr ys \<Longrightarrow> length ys = length xs"
  by (auto simp: rmapM_Inr_iff dest: list_all2_lengthD)

lemma rmapM_nth: "rmapM f xs = Inr ys \<Longrightarrow> i < length xs \<Longrightarrow> f (xs ! i) = Inr (ys ! i)"
  by (auto simp: rmapM_Inr_iff list_all2_conv_all_nth)

lemma rmapM_ok_iff: "(\<exists>ys. rmapM f xs = Inr ys) \<longleftrightarrow> (\<forall>x \<in> set xs. \<exists>y. f x = Inr y)"
  by (induction xs) (auto simp: result_simps)

lemma rmapM_Inl: "rmapM f xs = Inl e \<Longrightarrow> \<exists>x \<in> set xs. f x = Inl e"
  by (induction xs) (auto simp: result_simps)

lemma rmapM_cong [fundef_cong]: "xs = ys \<Longrightarrow> (\<And>x. x \<in> set ys \<Longrightarrow> f x = g x) \<Longrightarrow> rmapM f xs = rmapM g ys"
  by (induction xs arbitrary: ys) auto

section \<open>Operations on a world\<close>

text \<open>
  An asynchronous function of the source: it changes the world it runs in and returns or throws.
  \<open>ibind\<close> is \<open>await\<close>, \<open>itry\<close> a \<open>try ... catch\<close> whose handler sees the world the body left.
\<close>

type_synonym ('w, 'e, 'a) io = "'w \<Rightarrow> 'w \<times> ('e + 'a)"

definition iret :: "'a \<Rightarrow> ('w, 'e, 'a) io" where
  "iret x w = (w, Inr x)"

definition ithrow :: "'e \<Rightarrow> ('w, 'e, 'a) io" where
  "ithrow e w = (w, Inl e)"

definition ibind :: "('w, 'e, 'a) io \<Rightarrow> ('a \<Rightarrow> ('w, 'e, 'b) io) \<Rightarrow> ('w, 'e, 'b) io" where
  "ibind m f w = (case m w of (w', Inl e) \<Rightarrow> (w', Inl e) | (w', Inr x) \<Rightarrow> f x w')"

definition itry :: "('w, 'e, 'a) io \<Rightarrow> ('e \<Rightarrow> ('w, 'f, 'a) io) \<Rightarrow> ('w, 'f, 'a) io" where
  "itry m h w = (case m w of (w', Inl e) \<Rightarrow> h e w' | (w', Inr x) \<Rightarrow> (w', Inr x))"

definition ilift :: "'e + 'a \<Rightarrow> ('w, 'e, 'a) io" where
  "ilift r w = (w, r)"

fun iforM :: "('a \<Rightarrow> ('w, 'e, 'b) io) \<Rightarrow> 'a list \<Rightarrow> ('w, 'e, 'b list) io" where
  "iforM f [] = iret []"
| "iforM f (x # xs) = ibind (f x) (\<lambda>y. ibind (iforM f xs) (\<lambda>ys. iret (y # ys)))"

lemma io_apply [simp]: "iret x w = (w, Inr x)" "ithrow e w = (w, Inl e)" "ilift r w = (w, r)"
  by (simp_all add: iret_def ithrow_def ilift_def)

lemma ibind_Inr [simp]: "m w = (w', Inr x) \<Longrightarrow> ibind m f w = f x w'"
  by (simp add: ibind_def)

lemma ibind_Inl [simp]: "m w = (w', Inl e) \<Longrightarrow> ibind m f w = (w', Inl e)"
  by (simp add: ibind_def)

lemma ibind_ilift [simp]: "ibind (ilift (Inr x)) f = f x" "ibind (iret x) f = f x"
  by (simp_all add: fun_eq_iff)

lemma itry_Inr [simp]: "m w = (w', Inr x) \<Longrightarrow> itry m h w = (w', Inr x)"
  by (simp add: itry_def)

lemma itry_Inl [simp]: "m w = (w', Inl e) \<Longrightarrow> itry m h w = h e w'"
  by (simp add: itry_def)

lemma ibind_cases:
  obtains w' e where "m w = (w', Inl e)" "ibind m f w = (w', Inl e)"
  | w' x where "m w = (w', Inr x)" "ibind m f w = f x w'"
proof (cases "m w")
  case (Pair w' r)
  then show ?thesis using that by (cases r) simp_all
qed

lemma ibind_ok_iff [result_simps]:
  "ibind m f w = (w'', Inr y) \<longleftrightarrow> (\<exists>w' x. m w = (w', Inr x) \<and> f x w' = (w'', Inr y))"
  by (rule ibind_cases [of m w f]) auto

text \<open>A part of the world that neither the operation nor its continuation changes.\<close>

definition keeps :: "('w \<Rightarrow> 'p) \<Rightarrow> ('w, 'e, 'a) io \<Rightarrow> bool" where
  "keeps view m \<longleftrightarrow> (\<forall>w. view (fst (m w)) = view w)"

lemma keepsD: "keeps view m \<Longrightarrow> m w = (w', r) \<Longrightarrow> view w' = view w"
  unfolding keeps_def by (metis fst_conv)

lemma keeps_intros [intro, simp]: "keeps view (iret x)" "keeps view (ithrow e)" "keeps view (ilift r)"
  by (simp_all add: keeps_def)

lemma keeps_ibind: "keeps view m \<Longrightarrow> (\<And>x. keeps view (f x)) \<Longrightarrow> keeps view (ibind m f)"
  unfolding keeps_def by (metis fst_conv ibind_cases)

lemma keeps_itry:
  assumes "keeps view m" "\<And>e. keeps view (h e)"
  shows "keeps view (itry m h)"
  unfolding keeps_def
proof
  fix w
  show "view (fst (itry m h w)) = view w"
  proof (cases "m w")
    case (Pair w' r)
    then show ?thesis using assms unfolding keeps_def by (cases r) (metis fst_conv itry_Inl itry_Inr)+
  qed
qed

lemma keeps_iforM: "(\<And>x. keeps view (f x)) \<Longrightarrow> keeps view (iforM f xs)"
  by (induction xs) (auto intro!: keeps_ibind)

text \<open>A relation between the world before and after, whatever the outcome.\<close>

definition always :: "('w \<Rightarrow> 'w \<Rightarrow> bool) \<Rightarrow> ('w, 'e, 'a) io \<Rightarrow> bool" where
  "always R m \<longleftrightarrow> (\<forall>w. R w (fst (m w)))"

lemma alwaysD: "always R m \<Longrightarrow> m w = (w', r) \<Longrightarrow> R w w'"
  unfolding always_def by (metis fst_conv)

lemma always_pure: "reflp R \<Longrightarrow> always R (iret x)" "reflp R \<Longrightarrow> always R (ithrow e)" "reflp R \<Longrightarrow> always R (ilift r)"
  by (simp_all add: always_def reflpD)

lemma always_ibind: "transp R \<Longrightarrow> always R m \<Longrightarrow> (\<And>x. always R (f x)) \<Longrightarrow> always R (ibind m f)"
  unfolding always_def
proof
  fix w
  assume a: "transp R" "\<forall>w. R w (fst (m w))" "\<And>x. \<forall>w. R w (fst (f x w))"
  show "R w (fst (ibind m f w))"
    by (rule ibind_cases [of m w f]) (use a in \<open>metis fst_conv transpD\<close>)+
qed

lemma always_itry:
  assumes "transp R" "always R m" "\<And>e. always R (h e)"
  shows "always R (itry m h)"
  unfolding always_def
proof
  fix w
  show "R w (fst (itry m h w))"
  proof (cases "m w")
    case (Pair w' r)
    then have "R w w'" using alwaysD [OF assms(2)] by blast
    then show ?thesis
    proof (cases r)
      case (Inl e)
      have "R w' (fst (h e w'))" using assms(3) by (simp add: always_def)
      with \<open>R w w'\<close> Inl Pair show ?thesis using transpD [OF assms(1)] by simp
    qed (use Pair in simp)
  qed
qed

lemma always_iforM: "reflp R \<Longrightarrow> transp R \<Longrightarrow> (\<And>x. always R (f x)) \<Longrightarrow> always R (iforM f xs)"
  by (induction xs) (auto intro!: always_ibind always_pure)

section \<open>Optional values\<close>

text \<open>JavaScript's \<open>a ?? b\<close> on a value that is either present or \<open>undefined\<close>.\<close>

fun or_else :: "'a option \<Rightarrow> 'a \<Rightarrow> 'a" where
  "or_else (Some x) d = x"
| "or_else None d = d"

lemma or_else_eq [simp]: "m = Some x \<Longrightarrow> or_else m d = x" "m = None \<Longrightarrow> or_else m d = d"
  by simp_all

section \<open>Insertion-ordered maps\<close>

text \<open>
  \<open>Map.set\<close> and assignment to an object property: overwrite in place when the key is
  present, append otherwise.
\<close>

fun alist_set :: "'k \<Rightarrow> 'v \<Rightarrow> ('k \<times> 'v) list \<Rightarrow> ('k \<times> 'v) list" where
  "alist_set k v [] = [(k, v)]"
| "alist_set k v ((k', v') # m) = (if k' = k then (k, v) # m else (k', v') # alist_set k v m)"

lemma map_of_alist_set [simp]: "map_of (alist_set k v m) = (map_of m)(k \<mapsto> v)"
  by (induction k v m rule: alist_set.induct) auto

lemma keys_alist_set: "fst ` set (alist_set k v m) = insert k (fst ` set m)"
  by (induction k v m rule: alist_set.induct) auto

lemma alist_set_values: "snd ` set (alist_set k v xs) \<subseteq> insert v (snd ` set xs)"
  by (induction k v xs rule: alist_set.induct) auto

lemma distinct_alist_set: "distinct (map fst m) \<Longrightarrow> distinct (map fst (alist_set k v m))"
  using keys_alist_set [of k v] by (induction k v m rule: alist_set.induct) auto

section \<open>Lists\<close>

fun index_of :: "'a list \<Rightarrow> 'a \<Rightarrow> nat option" where
  "index_of [] x = None"
| "index_of (y # ys) x = (if y = x then Some 0 else map_option Suc (index_of ys x))"

lemma index_of_None_iff: "index_of xs x = None \<longleftrightarrow> x \<notin> set xs"
  by (induction xs) auto

lemma index_of_bound: "index_of xs x = Some i \<Longrightarrow> i < length xs \<and> xs ! i = x"
  by (induction xs arbitrary: i) (auto split: if_splits)

lemma index_of_nth: "distinct xs \<Longrightarrow> i < length xs \<Longrightarrow> index_of xs (xs ! i) = Some i"
proof (induction xs arbitrary: i)
  case (Cons y ys)
  then show ?case by (cases i) auto
qed simp

lemma index_of_Some_iff:
  "distinct xs \<Longrightarrow> index_of xs x = Some i \<longleftrightarrow> i < length xs \<and> xs ! i = x"
  using index_of_bound [of xs x i] index_of_nth [of xs i] by auto

lemma index_of_in: "x \<in> set xs \<Longrightarrow> \<exists>i. index_of xs x = Some i"
  using index_of_None_iff [of xs x] by (cases "index_of xs x") auto

lemma find_Some_in: "List.find P xs = Some x \<Longrightarrow> x \<in> set xs \<and> P x"
  by (auto simp: find_Some_iff)

lemma find_append: "List.find P (xs @ ys) = (case List.find P xs of None \<Rightarrow> List.find P ys | Some x \<Rightarrow> Some x)"
  by (induction xs) simp_all

lemma takeWhile_all_id: "\<forall>x \<in> set xs. P x \<Longrightarrow> takeWhile P (xs @ ys) = xs @ takeWhile P ys"
  by (induction xs) auto

lemma dropWhile_all_id: "\<forall>x \<in> set xs. P x \<Longrightarrow> dropWhile P (xs @ ys) = dropWhile P ys"
  by (induction xs) auto

section \<open>Keyed maps\<close>

text \<open>\<open>new Map(xs.map((x) => [key(x), x]))\<close>: a later element replaces an earlier one of its key.\<close>

definition by_key :: "('a \<Rightarrow> 'k) \<Rightarrow> 'a list \<Rightarrow> ('k \<rightharpoonup> 'a)" where
  "by_key key xs = fold (\<lambda>x m. m(key x \<mapsto> x)) xs Map.empty"

lemma by_key_Nil [simp]: "by_key key [] = Map.empty"
  by (simp add: by_key_def)

lemma by_key_snoc [simp]: "by_key key (xs @ [x]) = (by_key key xs)(key x \<mapsto> x)"
  by (simp add: by_key_def)

lemma by_key_Some: "by_key key xs k = Some x \<Longrightarrow> x \<in> set xs \<and> key x = k"
  by (induction xs rule: rev_induct) (auto split: if_splits)

lemma by_key_None: "by_key key xs k = None \<longleftrightarrow> k \<notin> key ` set xs"
  by (induction xs rule: rev_induct) auto

lemma by_key_distinct: "distinct (map key xs) \<Longrightarrow> x \<in> set xs \<Longrightarrow> by_key key xs (key x) = Some x"
proof (induction xs rule: rev_induct)
  case (snoc y xs)
  show ?case
  proof (cases "x = y")
    case False
    with snoc.prems have "x \<in> set xs" by simp
    moreover from this snoc.prems have "key x \<noteq> key y" by (metis distinct_append distinct.simps(2)
          imageI list.set_map map_append list.map(2) not_distinct_conv_prefix)
    ultimately show ?thesis using snoc by simp
  qed simp
qed simp

end
