(* ===== verification/JsValues.thy ===== *)
theory JsValues
  imports JsLib
begin

text \<open>
  JavaScript values of unknown type (\<open>unknown\<close> in the TypeScript sources) and the
  conversions the code applies to them. Only own properties of objects are modelled; the
  properties every object inherits from \<open>Object.prototype\<close> are not.
\<close>

section \<open>Values\<close>

datatype jsnum = Fin rat | NaN | PInf | NInf

datatype jsval =
    JUndef
  | JNull
  | JBool bool
  | JNum jsnum
  | JBig int
  | JStr string
  | JArr "jsval list"
  | JObj "(string \<times> jsval) list"

type_synonym params = "string \<rightharpoonup> jsval"

definition getp :: "params \<Rightarrow> string \<Rightarrow> jsval" where
  "getp ps k = (case ps k of None \<Rightarrow> JUndef | Some v \<Rightarrow> v)"

fun str_of :: "jsval \<Rightarrow> string option" where
  "str_of (JStr s) = Some s"
| "str_of _ = None"

lemma str_of_Some_iff: "str_of v = Some s \<longleftrightarrow> v = JStr s"
  by (cases v) auto

text \<open>The largest magnitude that still rounds to a finite double; beyond it a literal is infinite.\<close>

definition num_limit :: rat where
  "num_limit = 2 ^ 1024 - 2 ^ 970"

definition num_fin :: "rat \<Rightarrow> jsnum" where
  "num_fin q = (if num_limit \<le> q then PInf else if q \<le> - num_limit then NInf else Fin q)"

fun is_finite_num :: "jsnum \<Rightarrow> bool" where
  "is_finite_num (Fin q) = True"
| "is_finite_num _ = False"

fun is_integer_num :: "jsnum \<Rightarrow> bool" where
  "is_integer_num (Fin q) \<longleftrightarrow> of_int \<lfloor>q\<rfloor> = q"
| "is_integer_num _ = False"

fun num_less :: "jsnum \<Rightarrow> jsnum \<Rightarrow> bool" where
  "num_less (Fin a) (Fin b) \<longleftrightarrow> a < b"
| "num_less NaN _ = False"
| "num_less _ NaN = False"
| "num_less a b \<longleftrightarrow> a \<noteq> b \<and> (a = NInf \<or> b = PInf)"

fun num_le :: "jsnum \<Rightarrow> jsnum \<Rightarrow> bool" where
  "num_le (Fin a) (Fin b) \<longleftrightarrow> a \<le> b"
| "num_le NaN _ = False"
| "num_le _ NaN = False"
| "num_le a b \<longleftrightarrow> a = b \<or> a = NInf \<or> b = PInf"

text \<open>\<open>===\<close> on numbers: \<open>NaN\<close> equals nothing.\<close>

definition num_eq :: "jsnum \<Rightarrow> jsnum \<Rightarrow> bool" where
  "num_eq a b \<longleftrightarrow> a = b \<and> a \<noteq> NaN"

section \<open>Reading numbers\<close>

fun strip_sign :: "string \<Rightarrow> bool \<times> string" where
  "strip_sign [] = (False, [])"
| "strip_sign (c # s) = (if c = CHR ''-'' then (True, s) else if c = CHR ''+'' then (False, s) else (False, c # s))"

definition radix_value :: "nat \<Rightarrow> string \<Rightarrow> nat" where
  "radix_value b s = foldl (\<lambda>a c. b * a + hex_val c) 0 s"

text \<open>The prefixed literals \<open>0x\<close>, \<open>0o\<close> and \<open>0b\<close>.\<close>

fun prefixed_literal :: "string \<Rightarrow> nat option" where
  "prefixed_literal (z # p # ds) =
     (if z = CHR ''0'' \<and> ds \<noteq> [] then
        if p \<in> {CHR ''x'', CHR ''X''} \<and> list_all is_hex ds then Some (radix_value 16 ds)
        else if p \<in> {CHR ''o'', CHR ''O''} \<and> list_all (\<lambda>c. is_digit c \<and> digit_val c < 8) ds
          then Some (radix_value 8 ds)
        else if p \<in> {CHR ''b'', CHR ''B''} \<and> list_all (\<lambda>c. is_digit c \<and> digit_val c < 2) ds
          then Some (radix_value 2 ds)
        else None
      else None)"
| "prefixed_literal _ = None"

text \<open>\<open>BigInt(s)\<close>; \<open>None\<close> is the thrown \<open>SyntaxError\<close>.\<close>

definition bigint_of_string :: "string \<Rightarrow> int option" where
  "bigint_of_string s =
     (let t = js_trim s in
      if t = [] then Some 0
      else case prefixed_literal t of
        Some n \<Rightarrow> Some (int n)
      | None \<Rightarrow>
          (case strip_sign t of (neg, ds) \<Rightarrow>
             if ds \<noteq> [] \<and> list_all is_digit ds
             then Some (if neg then - int (dec_val ds) else int (dec_val ds)) else None))"

definition exponent_part :: "string \<Rightarrow> (bool \<times> nat) option" where
  "exponent_part s =
     (case s of
        [] \<Rightarrow> Some (False, 0)
      | e # r \<Rightarrow>
          if e \<in> {CHR ''e'', CHR ''E''} then
            (case strip_sign r of (neg, ds) \<Rightarrow>
               if ds \<noteq> [] \<and> list_all is_digit ds then Some (neg, dec_val ds) else None)
          else None)"

definition fraction_part :: "string \<Rightarrow> string \<times> string" where
  "fraction_part s =
     (case s of
        [] \<Rightarrow> ([], [])
      | c # r \<Rightarrow> if c = CHR ''.'' then (takeWhile is_digit r, dropWhile is_digit r) else ([], s))"

definition parse_decimal :: "string \<Rightarrow> rat option" where
  "parse_decimal s =
     (let ip = takeWhile is_digit s; (fp, r) = fraction_part (dropWhile is_digit s) in
      if ip = [] \<and> fp = [] then None
      else case exponent_part r of
        None \<Rightarrow> None
      | Some (neg, k) \<Rightarrow>
          (let m = of_nat (dec_val (ip @ fp)) / 10 ^ length fp in
           Some (if neg then m / 10 ^ k else m * 10 ^ k)))"

definition signed_num :: "bool \<Rightarrow> rat \<Rightarrow> jsnum" where
  "signed_num neg q = num_fin (if neg then - q else q)"

text \<open>\<open>Number(s)\<close>.\<close>

definition num_of_string :: "string \<Rightarrow> jsnum" where
  "num_of_string s =
     (let t = js_trim s in
      if t = [] then Fin 0
      else case prefixed_literal t of
        Some n \<Rightarrow> num_fin (of_nat n)
      | None \<Rightarrow>
          (case strip_sign t of (neg, u) \<Rightarrow>
             if u = ''Infinity'' then (if neg then NInf else PInf)
             else case parse_decimal u of None \<Rightarrow> NaN | Some q \<Rightarrow> signed_num neg q))"

text \<open>\<open>parseInt(s, 10)\<close>.\<close>

definition parse_int10 :: "string \<Rightarrow> jsnum" where
  "parse_int10 s =
     (case strip_sign (dropWhile js_ws s) of (neg, u) \<Rightarrow>
        (let ds = takeWhile is_digit u in
         if ds = [] then NaN else signed_num neg (of_nat (dec_val ds))))"

section \<open>Printing values\<close>

text \<open>How many decimal places a terminating fraction needs (a double has at most 1074).\<close>

fun decimal_places :: "nat \<Rightarrow> rat \<Rightarrow> nat" where
  "decimal_places 0 q = 0"
| "decimal_places (Suc f) q = (if of_int \<lfloor>q\<rfloor> = q then 0 else Suc (decimal_places f (10 * q)))"

definition show_frac :: "rat \<Rightarrow> string" where
  "show_frac q =
     (let m = decimal_places 1074 q;
          ds = show_nat (nat \<lfloor>q * 10 ^ m\<rfloor>);
          n = int (length ds) - int m;
          s = rev (dropWhile (\<lambda>c. c = CHR ''0'') (rev ds));
          k = int (length s)
      in if k \<le> n \<and> n \<le> 21 then s @ replicate (nat (n - k)) CHR ''0''
         else if 0 < n \<and> n \<le> 21 then take (nat n) s @ [CHR ''.''] @ drop (nat n) s
         else if -6 < n \<and> n \<le> 0 then ''0.'' @ replicate (nat (- n)) CHR ''0'' @ s
         else take 1 s @ (if k = 1 then [] else CHR ''.'' # drop 1 s)
           @ [CHR ''e'', if n - 1 < 0 then CHR ''-'' else CHR ''+''] @ show_nat (nat \<bar>n - 1\<bar>))"

fun num_to_string :: "jsnum \<Rightarrow> string" where
  "num_to_string NaN = ''NaN''"
| "num_to_string PInf = ''Infinity''"
| "num_to_string NInf = ''-Infinity''"
| "num_to_string (Fin q) =
     (if of_int \<lfloor>q\<rfloor> = q \<and> \<bar>q\<bar> < 10 ^ 21 then show_int \<lfloor>q\<rfloor>
      else if q < 0 then CHR ''-'' # show_frac (- q) else show_frac q)"

fun join :: "string \<Rightarrow> string list \<Rightarrow> string" where
  "join sep [] = []"
| "join sep [s] = s"
| "join sep (s # t # ts) = s @ sep @ join sep (t # ts)"

text \<open>\<open>String(v)\<close>.\<close>

fun js_string :: "jsval \<Rightarrow> string" where
  "js_string JUndef = ''undefined''"
| "js_string JNull = ''null''"
| "js_string (JBool b) = (if b then ''true'' else ''false'')"
| "js_string (JNum n) = num_to_string n"
| "js_string (JBig i) = show_int i"
| "js_string (JStr s) = s"
| "js_string (JArr xs) = join '','' (map (\<lambda>x. if x = JUndef \<or> x = JNull then [] else js_string x) xs)"
| "js_string (JObj m) = ''[object Object]''"

text \<open>\<open>Number(v)\<close>.\<close>

fun to_number :: "jsval \<Rightarrow> jsnum" where
  "to_number JUndef = NaN"
| "to_number JNull = Fin 0"
| "to_number (JBool b) = Fin (if b then 1 else 0)"
| "to_number (JNum n) = n"
| "to_number (JBig i) = num_fin (of_int i)"
| "to_number (JStr s) = num_of_string s"
| "to_number (JArr xs) = num_of_string (js_string (JArr xs))"
| "to_number (JObj m) = NaN"

section \<open>Reading back what was printed\<close>

lemma digit_not_ws: "is_digit c \<Longrightarrow> \<not> js_ws c"
  by (auto simp: is_digit_def js_ws_def)

lemma digits_trim: "list_all is_digit s \<Longrightarrow> js_trim s = s"
  by (rule js_trim_id) (auto simp: list_all_iff digit_not_ws)

lemma is_digit_chars: "\<not> is_digit CHR ''-''" "\<not> is_digit CHR ''+''" "\<not> is_digit CHR ''.''"
  "\<not> is_digit CHR ''x''" "\<not> is_digit CHR ''X''" "\<not> is_digit CHR ''o''" "\<not> is_digit CHR ''O''"
  "\<not> is_digit CHR ''b''" "\<not> is_digit CHR ''B''" "\<not> is_digit CHR ''e''" "\<not> is_digit CHR ''E''"
  by code_simp+

lemma strip_sign_digits: "list_all is_digit s \<Longrightarrow> strip_sign s = (False, s)"
  by (cases s) (auto simp: is_digit_chars)

lemma prefixed_digits: "list_all is_digit s \<Longrightarrow> prefixed_literal s = None"
proof (cases s rule: prefixed_literal.cases)
  case (1 z p ds)
  assume "list_all is_digit s"
  then have "is_digit p" using 1 by simp
  then have "p \<notin> {CHR ''x'', CHR ''X''}" "p \<notin> {CHR ''o'', CHR ''O''}" "p \<notin> {CHR ''b'', CHR ''B''}"
    using is_digit_chars by blast+
  then show ?thesis by (simp only: 1 prefixed_literal.simps simp_thms if_False if_True if_cancel)
qed simp_all

lemma bigint_of_digits:
  "s \<noteq> [] \<Longrightarrow> list_all is_digit s \<Longrightarrow> bigint_of_string s = Some (int (dec_val s))"
  by (simp add: bigint_of_string_def digits_trim prefixed_digits strip_sign_digits)

lemma show_nat_all_digits: "list_all is_digit (show_nat n)"
  by (auto simp: list_all_iff dest: show_nat_digits)

lemma bigint_show_nat [simp]: "bigint_of_string (show_nat n) = Some (int n)"
  by (simp add: bigint_of_digits show_nat_all_digits)

lemma bigint_show_int [simp]: "bigint_of_string (show_int i) = Some i"
proof (cases "i < 0")
  case True
  have ws: "\<not> js_ws CHR ''-''" by code_simp
  have "js_trim (CHR ''-'' # show_nat (nat (- i))) = CHR ''-'' # show_nat (nat (- i))"
    by (rule js_trim_id) (auto simp: ws dest: show_nat_digits digit_not_ws)
  moreover have "prefixed_literal (CHR ''-'' # s) = None" for s by (cases s) auto
  ultimately show ?thesis
    using True by (simp add: bigint_of_string_def show_int_def show_nat_all_digits)
qed (simp add: show_int_def)

lemma takeWhile_digits: "list_all is_digit s \<Longrightarrow> takeWhile is_digit s = s"
  by (simp add: takeWhile_eq_all_conv list_all_iff)

lemma dropWhile_digits: "list_all is_digit s \<Longrightarrow> dropWhile is_digit s = []"
  by (simp add: list_all_iff)

lemma digits_not_Infinity: "list_all is_digit s \<Longrightarrow> s \<noteq> ''Infinity''"
proof
  assume "list_all is_digit s" "s = ''Infinity''"
  then have "is_digit CHR ''I''" by simp
  moreover have "\<not> is_digit CHR ''I''" by code_simp
  ultimately show False by simp
qed

lemma num_of_digits:
  "s \<noteq> [] \<Longrightarrow> list_all is_digit s \<Longrightarrow> num_of_string s = num_fin (of_nat (dec_val s))"
  using digits_not_Infinity [of s]
  by (simp add: num_of_string_def digits_trim prefixed_digits strip_sign_digits parse_decimal_def
      takeWhile_digits dropWhile_digits fraction_part_def exponent_part_def signed_num_def)

lemma num_show_nat [simp]: "num_of_string (show_nat n) = num_fin (of_nat n)"
  by (simp add: num_of_digits show_nat_all_digits)

lemma parse_int_show_nat [simp]: "parse_int10 (show_nat n) = num_fin (of_nat n)"
proof -
  have "dropWhile js_ws (show_nat n) = show_nat n"
    by (rule dropWhile_none) (auto dest: show_nat_digits digit_not_ws)
  then show ?thesis
    by (simp add: parse_int10_def strip_sign_digits show_nat_all_digits takeWhile_digits signed_num_def)
qed

lemma num_fin_small: "\<bar>q\<bar> < num_limit \<Longrightarrow> num_fin q = Fin q"
  by (auto simp: num_fin_def)

lemma num_string_int: "\<bar>i\<bar> < 10 ^ 21 \<Longrightarrow> num_to_string (Fin (of_int i)) = show_int i"
proof -
  assume "\<bar>i\<bar> < 10 ^ 21"
  then have "\<bar>of_int i :: rat\<bar> < 10 ^ 21"
    by (metis of_int_abs of_int_less_iff of_int_numeral of_int_power)
  then show ?thesis by simp
qed

end
