(* ===== verification/Amounts.thy ===== *)
theory Amounts
  imports JsValues
begin

text \<open>
  The unit conversions of the \<open>shared\<close> package (amount.ts, duration.ts, timestamp.ts):
  human token amounts to and from base units, durations to and from seconds, and the
  ABI word of a timestamp. Lemmas: each conversion keeps the value, the inverse functions
  are inverses, and every thrown error is characterised.
\<close>

section \<open>Token amounts (amount.ts)\<close>

datatype amount_error =
    BadDecimals jsnum
  | InvalidAmount string
  | TooPrecise string nat
  | BadBigInt string

text \<open>The regular expression \<open>^\d+(\.\d+)?$\<close>.\<close>

definition amount_re :: "string \<Rightarrow> bool" where
  "amount_re s =
     (let r = dropWhile is_digit s in
      takeWhile is_digit s \<noteq> [] \<and>
      (r = [] \<or> (hd r = CHR ''.'' \<and> tl r \<noteq> [] \<and> list_all is_digit (tl r))))"

text \<open>A number that \<open>Number.isInteger\<close> accepts and that is not negative, as a natural number.\<close>

fun num_nat :: "jsnum \<Rightarrow> nat" where
  "num_nat (Fin q) = nat \<lfloor>q\<rfloor>"
| "num_nat _ = 0"

definition whole_part :: "string \<Rightarrow> string" where
  "whole_part t = hd (js_split CHR ''.'' t)"

definition frac_part :: "string \<Rightarrow> string" where
  "frac_part t = (case js_split CHR ''.'' t of _ # f # _ \<Rightarrow> f | _ \<Rightarrow> [])"

definition check_decimals :: "jsnum \<Rightarrow> amount_error + nat" where
  "check_decimals decimals =
     (if \<not> is_integer_num decimals \<or> num_less decimals (Fin 0) then Inl (BadDecimals decimals)
      else Inr (num_nat decimals))"

definition toBaseUnits :: "string \<Rightarrow> jsnum \<Rightarrow> amount_error + string" where
  "toBaseUnits v decimals =
     rbind (check_decimals decimals) (\<lambda>d.
       let t = js_trim v in
       if \<not> amount_re t then Inl (InvalidAmount v)
       else let whole = whole_part t; frac = frac_part t in
         if d < length frac then Inl (TooPrecise v d)
         else let z = dropWhile (\<lambda>c. c = CHR ''0'') (whole @ pad_end d CHR ''0'' frac);
                  combined = (if z = [] then ''0'' else z)
           in case bigint_of_string combined of
                None \<Rightarrow> Inl (BadBigInt combined)
              | Some n \<Rightarrow> Inr (show_int n))"

definition strip_zeros :: "string \<Rightarrow> string" where
  "strip_zeros s = rev (dropWhile (\<lambda>c. c = CHR ''0'') (rev s))"

definition fromBaseUnits :: "string \<Rightarrow> jsnum \<Rightarrow> amount_error + string" where
  "fromBaseUnits base decimals =
     rbind (check_decimals decimals) (\<lambda>d.
       case bigint_of_string base of
         None \<Rightarrow> Inl (BadBigInt base)
       | Some n \<Rightarrow>
           if d = 0 then Inr (show_int n)
           else let digits = pad_start (d + 1) CHR ''0'' (show_int n);
                    whole = take (length digits - d) digits;
                    frac = strip_zeros (drop (length digits - d) digits)
             in Inr (if frac \<noteq> [] then whole @ CHR ''.'' # frac else whole))"

subsection \<open>The shape of an amount\<close>

lemma amount_re_iff:
  "amount_re t \<longleftrightarrow> (\<exists>w. w \<noteq> [] \<and> list_all is_digit w \<and>
     (t = w \<or> (\<exists>f. f \<noteq> [] \<and> list_all is_digit f \<and> t = w @ CHR ''.'' # f)))" (is "_ \<longleftrightarrow> ?R")
proof
  assume re: "amount_re t"
  have t: "t = takeWhile is_digit t @ dropWhile is_digit t" by simp
  have w: "list_all is_digit (takeWhile is_digit t)" by (auto simp: list_all_iff dest: set_takeWhileD)
  show ?R
  proof (cases "dropWhile is_digit t")
    case Nil
    with re t w show ?thesis by (metis amount_re_def append_Nil2)
  next
    case (Cons c f)
    with re have "takeWhile is_digit t \<noteq> []" "c = CHR ''.''" "f \<noteq> []" "list_all is_digit f"
      by (auto simp: amount_re_def Let_def)
    with t w Cons show ?thesis by metis
  qed
next
  assume ?R
  then obtain w where w: "w \<noteq> []" "list_all is_digit w"
    and t: "t = w \<or> (\<exists>f. f \<noteq> [] \<and> list_all is_digit f \<and> t = w @ CHR ''.'' # f)" by blast
  from t show "amount_re t"
  proof
    assume "t = w"
    with w show ?thesis by (simp add: amount_re_def takeWhile_digits dropWhile_digits)
  next
    assume "\<exists>f. f \<noteq> [] \<and> list_all is_digit f \<and> t = w @ CHR ''.'' # f"
    with w show ?thesis
      by (auto simp: amount_re_def list_all_iff takeWhile_all_id dropWhile_all_id is_digit_chars)
  qed
qed

lemma no_dot: "list_all is_digit s \<Longrightarrow> CHR ''.'' \<notin> set s"
  using is_digit_chars by (auto simp: list_all_iff)

lemma amount_parts:
  assumes "amount_re t"
  shows "whole_part t \<noteq> []" "list_all is_digit (whole_part t)" "list_all is_digit (frac_part t)"
    "t = whole_part t @ (if frac_part t = [] then [] else CHR ''.'' # frac_part t)"
proof -
  from assms obtain w where w: "w \<noteq> []" "list_all is_digit w"
    and t: "t = w \<or> (\<exists>f. f \<noteq> [] \<and> list_all is_digit f \<and> t = w @ CHR ''.'' # f)"
    by (auto simp: amount_re_iff)
  have "whole_part t = w \<and> list_all is_digit (frac_part t) \<and>
     t = w @ (if frac_part t = [] then [] else CHR ''.'' # frac_part t)"
    using t w by (auto simp: whole_part_def frac_part_def js_split_none js_split_append no_dot)
  with w show "whole_part t \<noteq> []" "list_all is_digit (whole_part t)" "list_all is_digit (frac_part t)"
    "t = whole_part t @ (if frac_part t = [] then [] else CHR ''.'' # frac_part t)" by simp_all
qed

lemma amount_parse:
  assumes "amount_re t"
  shows "parse_decimal t = Some (of_nat (dec_val (whole_part t @ frac_part t)) / 10 ^ length (frac_part t))"
proof -
  note p = amount_parts [OF assms]
  define w f where "w = whole_part t" and "f = frac_part t"
  have t: "t = w @ (if f = [] then [] else CHR ''.'' # f)" unfolding w_def f_def by (rule p(4))
  have w: "w \<noteq> []" "\<forall>c \<in> set w. is_digit c" and f: "list_all is_digit f"
    using p by (simp_all add: w_def f_def list_all_iff)
  have "parse_decimal (w @ (if f = [] then [] else CHR ''.'' # f)) = Some (of_nat (dec_val (w @ f)) / 10 ^ length f)"
    using w f by (auto simp: parse_decimal_def takeWhile_all_id dropWhile_all_id is_digit_chars
        fraction_part_def takeWhile_digits dropWhile_digits exponent_part_def)
  moreover have "parse_decimal t = parse_decimal (w @ (if f = [] then [] else CHR ''.'' # f))"
    using t by (rule arg_cong)
  ultimately show ?thesis by (simp add: w_def f_def)
qed

text \<open>\<open>Number(s)\<close> on a decimal text is its value.\<close>

lemma prefixed_not_letter:
  "p \<notin> {CHR ''x'', CHR ''X''} \<Longrightarrow> p \<notin> {CHR ''o'', CHR ''O''} \<Longrightarrow> p \<notin> {CHR ''b'', CHR ''B''} \<Longrightarrow>
   prefixed_literal (z # p # ds) = None"
  by (simp only: prefixed_literal.simps simp_thms if_False if_True if_cancel)

lemma num_of_amount:
  assumes re: "amount_re (js_trim v)" and q: "parse_decimal (js_trim v) = Some q"
  shows "num_of_string v = num_fin q"
proof -
  define t where "t = js_trim v"
  obtain c r where c: "t = c # r" "is_digit c" and r: "\<And>p ds. r = p # ds \<Longrightarrow> is_digit p \<or> p = CHR ''.''"
  proof -
    obtain w where w: "w \<noteq> []" "list_all is_digit w"
      and t: "t = w \<or> (\<exists>f. f \<noteq> [] \<and> list_all is_digit f \<and> t = w @ CHR ''.'' # f)"
      using re by (auto simp: amount_re_iff t_def)
    from w obtain c w' where "w = c # w'" "is_digit c" "list_all is_digit w'" by (cases w) auto
    with t that show thesis by (cases w') auto
  qed
  have "prefixed_literal t = None"
  proof (cases r)
    case (Cons p ds)
    then have "is_digit p \<or> p = CHR ''.''" by (rule r)
    then have "p \<notin> {CHR ''x'', CHR ''X''}" "p \<notin> {CHR ''o'', CHR ''O''}" "p \<notin> {CHR ''b'', CHR ''B''}"
      using is_digit_chars by auto
    then show ?thesis using c Cons prefixed_not_letter by simp
  qed (simp add: c)
  moreover have "strip_sign t = (False, t)" using c is_digit_chars by auto
  moreover have "t \<noteq> ''Infinity''"
  proof
    assume "t = ''Infinity''"
    with c have "is_digit CHR ''I''" by simp
    moreover have "\<not> is_digit CHR ''I''" by code_simp
    ultimately show False by blast
  qed
  moreover have "t \<noteq> []" using c by simp
  ultimately show ?thesis using q by (simp add: num_of_string_def signed_num_def flip: t_def)
qed

subsection \<open>Base units keep the value\<close>

lemma check_decimals_nat [simp]: "check_decimals (Fin (of_nat d)) = Inr d"
  by (simp add: check_decimals_def)

lemma check_decimals_numeral [simp]:
  "check_decimals (Fin 0) = Inr 0" "check_decimals (Fin 1) = Inr 1"
  "check_decimals (Fin (numeral k)) = Inr (numeral k)"
  by (simp_all add: check_decimals_def)

lemma check_decimals_Inr_iff: "check_decimals dec = Inr d \<longleftrightarrow> dec = Fin (of_nat d)"
proof
  assume eq: "check_decimals dec = Inr d"
  show "dec = Fin (of_nat d)"
  proof (cases dec)
    case (Fin q)
    with eq have "of_int \<lfloor>q\<rfloor> = q" "0 \<le> q" "d = nat \<lfloor>q\<rfloor>"
      by (auto simp: check_decimals_def split: if_splits)
    then have "q = of_nat d" by (metis of_int_0_le_iff of_nat_nat)
    with Fin show ?thesis by simp
  qed (use eq in \<open>auto simp: check_decimals_def\<close>)
qed simp

definition base_units :: "string \<Rightarrow> nat \<Rightarrow> nat" where
  "base_units t d = dec_val (whole_part t @ frac_part t) * 10 ^ (d - length (frac_part t))"

lemma toBaseUnits_ok:
  assumes re: "amount_re (js_trim v)" and len: "length (frac_part (js_trim v)) \<le> d"
  shows "toBaseUnits v (Fin (of_nat d)) = Inr (show_nat (base_units (js_trim v) d))"
proof -
  define w f where "w = whole_part (js_trim v)" and "f = frac_part (js_trim v)"
  note p = amount_parts [OF re, folded w_def f_def]
  define z where "z = dropWhile (\<lambda>c. c = CHR ''0'') (w @ pad_end d CHR ''0'' f)"
  have digits: "list_all is_digit (w @ pad_end d CHR ''0'' f)"
    using p by (auto simp: pad_end_def list_all_iff)
  have val: "dec_val (w @ pad_end d CHR ''0'' f) = base_units (js_trim v) d"
    using len by (simp add: pad_end_def base_units_def dec_val_append algebra_simps
        flip: w_def f_def power_add append_assoc)
  have zd: "list_all is_digit z" using digits unfolding z_def by (metis list_all_append takeWhile_dropWhile_id)
  have zv: "dec_val z = base_units (js_trim v) d" by (simp add: z_def dec_val_dropWhile_zeros val)
  have "bigint_of_string (if z = [] then ''0'' else z) = Some (int (base_units (js_trim v) d))"
    using zd zv by (auto simp: bigint_of_digits)
  moreover have "length f \<le> d" using len by (simp add: f_def)
  ultimately show ?thesis using re
    by (simp add: toBaseUnits_def Let_def show_int_def del: dropWhile_eq_Nil_conv flip: w_def f_def z_def split: if_split_asm)
qed

lemma toBaseUnits_Inr_iff:
  "toBaseUnits v dec = Inr b \<longleftrightarrow>
     (\<exists>d. dec = Fin (of_nat d) \<and> amount_re (js_trim v) \<and> length (frac_part (js_trim v)) \<le> d
        \<and> b = show_nat (base_units (js_trim v) d))" (is "_ \<longleftrightarrow> ?R")
proof
  assume eq: "toBaseUnits v dec = Inr b"
  then obtain d where d: "dec = Fin (of_nat d)"
    by (auto simp: toBaseUnits_def result_simps check_decimals_Inr_iff)
  with eq have re: "amount_re (js_trim v)" and len: "length (frac_part (js_trim v)) \<le> d"
    by (auto simp: toBaseUnits_def Let_def split: if_splits)
  with toBaseUnits_ok [OF re len] eq d show ?R by auto
next
  assume ?R
  then show "toBaseUnits v dec = Inr b" by (auto simp: toBaseUnits_ok)
qed

lemma base_units_value:
  assumes "amount_re t" "length (frac_part t) \<le> d"
  shows "parse_decimal t = Some (of_nat (base_units t d) / 10 ^ d)"
proof -
  have "(10::rat) ^ d = 10 ^ (d - length (frac_part t)) * 10 ^ length (frac_part t)"
    using assms(2) by (simp flip: power_add)
  then show ?thesis using amount_parse [OF assms(1)] by (simp add: base_units_def)
qed

subsection \<open>Printing base units back\<close>

lemma strip_zeros_split: "\<exists>k. s = strip_zeros s @ replicate k CHR ''0''"
proof -
  have "\<forall>c \<in> set (takeWhile (\<lambda>c. c = CHR ''0'') (rev s)). c = CHR ''0''"
    by (auto dest: set_takeWhileD)
  then have "takeWhile (\<lambda>c. c = CHR ''0'') (rev s) = replicate (length (takeWhile (\<lambda>c. c = CHR ''0'') (rev s))) CHR ''0''"
    by (simp add: replicate_eqI)
  moreover have "rev s = takeWhile (\<lambda>c. c = CHR ''0'') (rev s) @ dropWhile (\<lambda>c. c = CHR ''0'') (rev s)" by simp
  ultimately have "s = strip_zeros s @ rev (replicate (length (takeWhile (\<lambda>c. c = CHR ''0'') (rev s))) CHR ''0'')"
    unfolding strip_zeros_def by (metis rev_append rev_rev_ident)
  then show ?thesis by (metis rev_replicate)
qed

lemma fromBaseUnits_nat:
  fixes n d :: nat
  defines "ds \<equiv> pad_start (d + 1) CHR ''0'' (show_nat n)"
  shows "fromBaseUnits (show_nat n) (Fin (of_nat d)) =
    Inr (let w = take (length ds - d) ds; f = strip_zeros (drop (length ds - d) ds)
         in if f = [] then w else w @ CHR ''.'' # f)"
proof (cases "d = 0")
  case True
  then show ?thesis
    by (simp add: fromBaseUnits_def ds_def pad_start_def strip_zeros_def show_int_def Suc_leI)
qed (simp add: fromBaseUnits_def ds_def show_int_def Let_def)

text \<open>Reading back the printed amount with the same decimals gives the base units again.\<close>

lemma toBaseUnits_of_printed:
  "\<exists>s. fromBaseUnits (show_nat n) (Fin (of_nat d)) = Inr s \<and> toBaseUnits s (Fin (of_nat d)) = Inr (show_nat n)"
proof -
  define ds where "ds = pad_start (d + 1) CHR ''0'' (show_nat n)"
  define w f0 where "w = take (length ds - d) ds" and "f0 = drop (length ds - d) ds"
  define f where "f = strip_zeros f0"
  define s where "s = w @ (if f = [] then [] else CHR ''.'' # f)"
  obtain k where k: "f0 = f @ replicate k CHR ''0''" using strip_zeros_split unfolding f_def by blast
  have dsd: "list_all is_digit ds"
    using show_nat_all_digits by (auto simp: ds_def pad_start_def list_all_iff)
  have len: "d + 1 \<le> length ds" by (simp add: ds_def pad_start_def)
  have wf: "ds = w @ f0" "length f0 = d" "w \<noteq> []" using len by (auto simp: w_def f0_def)
  have dig: "list_all is_digit w" "list_all is_digit f" using dsd wf k by simp_all
  have re: "amount_re s" using dig wf by (auto simp: amount_re_iff s_def)
  have ws: "\<not> js_ws CHR ''.''" by code_simp
  have trim: "js_trim s = s"
    using dig by (intro js_trim_id) (auto simp: s_def list_all_iff digit_not_ws ws)
  have parts: "whole_part s = w" "frac_part s = f"
    using dig by (auto simp: s_def whole_part_def frac_part_def js_split_none js_split_append no_dot)
  have lf: "length f \<le> d" "k = d - length f" using wf(2) k by auto
  have "base_units s d = dec_val ds"
    using lf by (simp add: base_units_def parts wf k dec_val_append power_add algebra_simps flip: append_assoc)
  also have "\<dots> = n" by (simp add: ds_def pad_start_def dec_val_append)
  finally have "toBaseUnits s (Fin (of_nat d)) = Inr (show_nat n)"
    using toBaseUnits_ok [of s d] re lf by (simp add: trim parts)
  moreover have "fromBaseUnits (show_nat n) (Fin (of_nat d)) = Inr s"
    by (simp add: fromBaseUnits_nat Let_def s_def w_def f_def f0_def ds_def)
  ultimately show ?thesis by blast
qed

lemma toBaseUnits_value:
  "toBaseUnits v dec = Inr b \<longleftrightarrow>
     (\<exists>d n. dec = Fin (of_nat d) \<and> amount_re (js_trim v) \<and> length (frac_part (js_trim v)) \<le> d
        \<and> parse_decimal (js_trim v) = Some (of_nat n / 10 ^ d) \<and> b = show_nat n)"
proof -
  have "base_units (js_trim v) d = n"
    if "amount_re (js_trim v)" "length (frac_part (js_trim v)) \<le> d"
      "parse_decimal (js_trim v) = Some (of_nat n / 10 ^ d)" for d n
    using base_units_value [OF that(1,2)] that(3) by simp
  then show ?thesis unfolding toBaseUnits_Inr_iff using base_units_value by blast
qed

text \<open>Converting a human token amount succeeds exactly when the decimals are a natural number,
  the trimmed text is a plain decimal and it has at most that many decimal places; the result
  prints the integer that is the amount's value times \<open>10 ^ decimals\<close>, with no rounding.\<close>

theorem toBaseUnits_exact:
  "toBaseUnits v dec = Inr b \<longleftrightarrow>
     (\<exists>d n. dec = Fin (of_nat d) \<and> amount_re (js_trim v) \<and> length (frac_part (js_trim v)) \<le> d
        \<and> parse_decimal (js_trim v) = Some (of_nat n / 10 ^ d) \<and> b = show_nat n)"
  by (rule toBaseUnits_value)

text \<open>C36. Printing base units as a human amount and converting the text back with the same decimals
  returns the same base units, for every amount and every number of decimals.\<close>

theorem base_units_roundtrip:
  "rbind (fromBaseUnits (show_nat n) (Fin (of_nat d))) (\<lambda>s. toBaseUnits s (Fin (of_nat d))) = Inr (show_nat n)"
  using toBaseUnits_of_printed [of n d] by (auto simp: result_simps)

lemma printed_amount_value:
  assumes "toBaseUnits v (Fin (of_nat d)) = Inr b" "fromBaseUnits b (Fin (of_nat d)) = Inr s"
  shows "parse_decimal (js_trim s) = parse_decimal (js_trim v)"
proof -
  from assms(1) obtain n where n: "b = show_nat n" "parse_decimal (js_trim v) = Some (of_nat n / 10 ^ d)"
    by (auto simp: toBaseUnits_value)
  from toBaseUnits_of_printed [of n d] assms(2) n have "toBaseUnits s (Fin (of_nat d)) = Inr (show_nat n)" by auto
  then obtain m where "show_nat m = show_nat n" "parse_decimal (js_trim s) = Some (of_nat m / 10 ^ d)"
    by (auto simp: toBaseUnits_value)
  moreover from this(1) have "m = n" by (metis dec_val_show_nat)
  ultimately show ?thesis by (simp add: n)
qed

section \<open>Durations (duration.ts)\<close>

datatype duration_unit = Minutes | Hours | Days | Weeks

fun unit_name :: "duration_unit \<Rightarrow> string" where
  "unit_name Minutes = ''minutes''"
| "unit_name Hours = ''hours''"
| "unit_name Days = ''days''"
| "unit_name Weeks = ''weeks''"

fun unit_seconds :: "duration_unit \<Rightarrow> nat" where
  "unit_seconds Minutes = 60"
| "unit_seconds Hours = 60 * 60"
| "unit_seconds Days = 60 * 60 * 24"
| "unit_seconds Weeks = 60 * 60 * 24 * 7"

definition unit_of_name :: "string \<Rightarrow> duration_unit option" where
  "unit_of_name s = List.find (\<lambda>u. unit_name u = s) [Minutes, Hours, Days, Weeks]"

text \<open>Units are ordered by their length.\<close>

instantiation duration_unit :: linorder
begin

definition less_eq_duration_unit :: "duration_unit \<Rightarrow> duration_unit \<Rightarrow> bool" where
  "less_eq_duration_unit u v \<longleftrightarrow> unit_seconds u \<le> unit_seconds v"

definition less_duration_unit :: "duration_unit \<Rightarrow> duration_unit \<Rightarrow> bool" where
  "less_duration_unit u v \<longleftrightarrow> unit_seconds u < unit_seconds v"

instance
proof
  fix u v w :: duration_unit
  show "u < v \<longleftrightarrow> u \<le> v \<and> \<not> v \<le> u" "u \<le> u" "u \<le> v \<or> v \<le> u"
    "u \<le> v \<Longrightarrow> v \<le> w \<Longrightarrow> u \<le> w"
    by (auto simp: less_eq_duration_unit_def less_duration_unit_def)
  show "u \<le> v \<Longrightarrow> v \<le> u \<Longrightarrow> u = v"
    by (cases u; cases v) (auto simp: less_eq_duration_unit_def)
qed

end

datatype duration_error = UnknownUnit jsval | ValueNotFinite jsval

text \<open>The index expression \<open>SECONDS_PER_UNIT[unit]\<close> converts its key to a string.\<close>

definition per_unit :: "jsval \<Rightarrow> nat option" where
  "per_unit unit = map_option unit_seconds (unit_of_name (js_string unit))"

fun finite_number :: "jsval \<Rightarrow> rat option" where
  "finite_number (JNum (Fin q)) = Some q"
| "finite_number _ = None"

definition toSeconds :: "jsval \<Rightarrow> jsval \<Rightarrow> duration_error + jsnum" where
  "toSeconds value unit =
     (case per_unit unit of
        None \<Rightarrow> Inl (UnknownUnit unit)
      | Some p \<Rightarrow>
          (case finite_number value of
             None \<Rightarrow> Inl (ValueNotFinite value)
           | Some q \<Rightarrow> Inr (num_fin (q * of_nat p))))"

definition fromSeconds :: "jsval \<Rightarrow> jsval \<Rightarrow> duration_error + (jsnum \<times> jsval)" where
  "fromSeconds seconds unit =
     (case per_unit unit of
        None \<Rightarrow> Inl (UnknownUnit unit)
      | Some p \<Rightarrow>
          (case finite_number seconds of
             None \<Rightarrow> Inl (ValueNotFinite seconds)
           | Some q \<Rightarrow> Inr (num_fin (q / of_nat p), unit)))"

lemma unit_of_name_unit [simp]: "unit_of_name (unit_name u) = Some u"
  by (cases u) (simp_all add: unit_of_name_def)

lemma unit_of_name_Some_iff: "unit_of_name s = Some u \<longleftrightarrow> s = unit_name u"
  by (cases u) (auto simp: unit_of_name_def split: if_splits)

lemma unit_seconds_pos [simp]: "0 < unit_seconds u"
  by (cases u) simp_all

lemma toSeconds_unit [simp]:
  "toSeconds (JNum (Fin q)) (JStr (unit_name u)) = Inr (num_fin (q * of_nat (unit_seconds u)))"
  by (simp add: toSeconds_def per_unit_def)

lemma toSeconds_whole:
  "int k * int (unit_seconds u) < 2 ^ 1023 \<Longrightarrow>
   toSeconds (JNum (Fin (of_nat k))) (JStr (unit_name u)) = Inr (Fin (of_nat (k * unit_seconds u)))"
proof -
  assume "int k * int (unit_seconds u) < 2 ^ 1023"
  then have "k * unit_seconds u < 2 ^ 1023"
    by (metis of_nat_less_iff of_nat_mult of_nat_numeral of_nat_power)
  then have "(of_nat (k * unit_seconds u) :: rat) < 2 ^ 1023"
    by (metis of_nat_less_iff of_nat_numeral of_nat_power)
  moreover have "(2::rat) ^ 1023 < num_limit" by (simp add: num_limit_def)
  ultimately show ?thesis by (simp add: num_fin_small)
qed

text \<open>Converting seconds to a unit and back gives the same number of seconds, for every unit.\<close>

theorem seconds_roundtrip:
  assumes "\<bar>q\<bar> < num_limit" and "fromSeconds (JNum (Fin q)) (JStr (unit_name u)) = Inr (v, w)"
  shows "toSeconds (JNum v) w = Inr (Fin q)"
proof -
  have "1 \<le> (of_nat (unit_seconds u) :: rat)" using unit_seconds_pos [of u]
    by (metis One_nat_def Suc_leI of_nat_1 of_nat_le_iff)
  then have "\<bar>q / of_nat (unit_seconds u)\<bar> \<le> \<bar>q\<bar>"
    by (simp add: divide_le_eq mult_le_cancel_left1 abs_divide)
  then have "num_fin (q / of_nat (unit_seconds u)) = Fin (q / of_nat (unit_seconds u))"
    using assms(1) by (intro num_fin_small) simp
  with assms(2) have "v = Fin (q / of_nat (unit_seconds u))" "w = JStr (unit_name u)"
    by (simp_all add: fromSeconds_def per_unit_def)
  moreover have "unit_seconds u \<noteq> 0" using unit_seconds_pos [of u] by linarith
  ultimately show ?thesis using assms(1) by (simp add: num_fin_small)
qed

theorem seconds_roundtrip_witness:
  "\<exists>v w. fromSeconds (JNum (Fin 5400)) (JStr (unit_name Hours)) = Inr (v, w) \<and> toSeconds (JNum v) w = Inr (Fin 5400)"
proof -
  have lim: "\<bar>5400::rat\<bar> < num_limit" by (simp add: num_limit_def)
  obtain v w where vw: "fromSeconds (JNum (Fin 5400)) (JStr (unit_name Hours)) = Inr (v, w)"
    by (simp add: fromSeconds_def per_unit_def unit_of_name_def)
  from seconds_roundtrip [OF lim vw] vw show ?thesis by blast
qed

section \<open>Timestamps (timestamp.ts)\<close>

datatype timestamp_error = NotAnInteger jsnum | NegativeTimestamp jsnum

definition encodeTimestamp :: "jsnum \<Rightarrow> timestamp_error + string" where
  "encodeTimestamp unixSeconds =
     (if \<not> is_integer_num unixSeconds then Inl (NotAnInteger unixSeconds)
      else if num_less unixSeconds (Fin 0) then Inl (NegativeTimestamp unixSeconds)
      else Inr (''0x'' @ pad_start 64 CHR ''0'' (show_hex (num_nat unixSeconds))))"

lemma encodeTimestamp_nat [simp]:
  "encodeTimestamp (Fin (of_nat n)) = Inr (''0x'' @ pad_start 64 CHR ''0'' (show_hex n))"
  by (simp add: encodeTimestamp_def)

text \<open>Every timestamp below \<open>2 ^ 256\<close> is encoded as \<open>0x\<close> and exactly 64 hexadecimal digits that
  read back as the timestamp: one ABI word, with no truncation and no lost digit.\<close>

theorem encodeTimestamp_word:
  assumes "n < 2 ^ 256"
  shows "\<exists>w. encodeTimestamp (Fin (of_nat n)) = Inr (''0x'' @ w) \<and> length w = 64
    \<and> list_all is_hex w \<and> hex_value w = n"
proof -
  define w where "w = pad_start 64 CHR ''0'' (show_hex n)"
  have "(2::nat) ^ 256 = 16 ^ 64" by simp
  with assms have "length (show_hex n) \<le> 64" using show_hex_length [of n 64] by simp
  then have "length w = 64" by (simp add: w_def pad_start_def)
  moreover have "is_hex CHR ''0''" by (simp add: is_hex_def)
  then have "list_all is_hex w" by (auto simp: w_def pad_start_def list_all_iff dest: show_hex_is_hex)
  moreover have "hex_value w = n" by (simp add: w_def pad_start_def hex_value_append)
  ultimately show ?thesis by (auto simp: w_def)
qed

theorem encodeTimestamp_word_witness:
  "\<exists>w. encodeTimestamp (Fin (of_nat 1700000000)) = Inr (''0x'' @ w) \<and> length w = 64
    \<and> list_all is_hex w \<and> hex_value w = 1700000000"
  by (rule encodeTimestamp_word) simp

end
