(* ===== verification/Validation.thy ===== *)
theory Validation
  imports Amounts
begin

text \<open>
  The schema-driven parameter validation of the \<open>shared\<close> package (validation.ts), in its
  two modes: \<open>Friendly\<close> (the editor's human values) and \<open>Raw\<close> (the values the backend
  ABI-encodes). A field schema is a record with the annotations the code reads; an annotation
  that is absent is \<open>None\<close> or \<open>JUndef\<close>. The properties of a schema are listed in the order
  \<open>Object.entries\<close> enumerates them. Error texts are constructors of \<open>message\<close>.
\<close>

section \<open>Schemas, options and errors\<close>

record field_schema =
  f_title :: "string option"
  f_default :: jsval
  f_widget :: "string option"
  f_slot_access :: "string option"
  f_zero_toggle :: jsval
  f_amount_token_field :: "string option"
  f_target_hf_field :: "string option"
  f_tick_lower_field :: "string option"
  f_tick_upper_field :: "string option"
  f_time_slot_field :: "string option"
  f_role :: jsval

definition plain_field :: field_schema where
  "plain_field = \<lparr>f_title = None, f_default = JUndef, f_widget = None, f_slot_access = None,
     f_zero_toggle = JUndef, f_amount_token_field = None, f_target_hf_field = None,
     f_tick_lower_field = None, f_tick_upper_field = None, f_time_slot_field = None, f_role = JUndef\<rparr>"

record param_schema =
  ps_properties :: "(string \<times> field_schema) list"
  ps_required :: "string list"

datatype validation_mode = Friendly | Raw

type_synonym token_decimals = "string \<rightharpoonup> jsnum"

record validate_options =
  opt_mode :: validation_mode
  opt_decimals :: token_decimals

datatype message =
    IsRequired string
  | NotBaseUnits string
  | BelowZero string
  | TooLarge string
  | NotAnAmount string
  | NotPositive string
  | TooManyPlaces string jsnum
  | NotTokenAddress string
  | IsZeroAddress string
  | TargetHfTooLow
  | UpperNotAboveLower
  | BadFeeTier string
  | BadPercent string
  | NotADuration string
  | NotANumber string
  | BadUnit string
  | NotWholeSeconds string

type_synonym param_error = "string \<times> message"

section \<open>Field helpers\<close>

definition fieldLabel :: "field_schema \<Rightarrow> string \<Rightarrow> string" where
  "fieldLabel fs field = or_else (f_title fs) field"

definition isEmpty :: "jsval \<Rightarrow> bool" where
  "isEmpty v \<longleftrightarrow> v = JUndef \<or> v = JNull \<or> v = JStr []"

text \<open>An object with both keys, as its value and its unit.\<close>

fun as_duration :: "jsval \<Rightarrow> (jsval \<times> jsval) option" where
  "as_duration (JObj m) =
     (case (map_of m ''value'', map_of m ''unit'') of (Some v, Some u) \<Rightarrow> Some (v, u) | _ \<Rightarrow> None)"
| "as_duration _ = None"

definition isDuration :: "jsval \<Rightarrow> bool" where
  "isDuration v \<longleftrightarrow> as_duration v \<noteq> None"

definition zeroToggleField :: "string \<Rightarrow> string" where
  "zeroToggleField field = field @ ''_useZero''"

definition hasZeroToggle :: "field_schema \<Rightarrow> bool" where
  "hasZeroToggle fs \<longleftrightarrow> f_zero_toggle fs \<noteq> JUndef \<and> f_zero_toggle fs \<noteq> JNull"

definition isZeroToggleOn :: "string \<Rightarrow> field_schema \<Rightarrow> params \<Rightarrow> bool" where
  "isZeroToggleOn field fs ps \<longleftrightarrow> hasZeroToggle fs \<and> getp ps (zeroToggleField field) = JBool True"

text \<open>An annotation that names another field; the empty string counts as absent.\<close>

definition named_field :: "string option \<Rightarrow> string option" where
  "named_field a = (case a of Some (c # s) \<Rightarrow> Some (c # s) | _ \<Rightarrow> None)"

definition sibling :: "string option \<Rightarrow> params \<Rightarrow> jsval" where
  "sibling a ps = (case named_field a of None \<Rightarrow> JUndef | Some f \<Rightarrow> getp ps f)"

definition decimals_for :: "token_decimals \<Rightarrow> jsval \<Rightarrow> jsnum option" where
  "decimals_for tds v = (case str_of v of None \<Rightarrow> None | Some a \<Rightarrow> tds (lower a))"

definition MAX_UINT256 :: int where
  "MAX_UINT256 = 2 ^ 256"

definition ZERO_ADDRESS :: string where
  "ZERO_ADDRESS = ''0x'' @ replicate 40 CHR ''0''"

definition zero_amount_re :: "string \<Rightarrow> bool" where
  "zero_amount_re s =
     (let z = (\<lambda>c. c = CHR ''0''); r = dropWhile z s in
      takeWhile z s \<noteq> [] \<and> (r = [] \<or> (hd r = CHR ''.'' \<and> tl r \<noteq> [] \<and> list_all z (tl r))))"

definition address_re :: "string \<Rightarrow> bool" where
  "address_re s \<longleftrightarrow> take 2 s = ''0x'' \<and> length s = 42 \<and> list_all is_hex (drop 2 s)"

section \<open>The widget rules\<close>

definition decimal_places_of :: "string \<Rightarrow> nat" where
  "decimal_places_of s = (case index_of s CHR ''.'' of None \<Rightarrow> 0 | Some dot \<Rightarrow> length s - dot - 1)"

definition validateTokenAmount ::
  "string \<Rightarrow> field_schema \<Rightarrow> jsval \<Rightarrow> validation_mode \<Rightarrow> params \<Rightarrow> token_decimals \<Rightarrow> param_error list" where
  "validateTokenAmount field fs value mode ps tds =
     (let label = fieldLabel fs field in
      case mode of
        Raw \<Rightarrow>
          (case bigint_of_string (js_string value) of
             None \<Rightarrow> [(field, NotBaseUnits label)]
           | Some n \<Rightarrow>
               if n < 0 then [(field, BelowZero label)]
               else if MAX_UINT256 \<le> n then [(field, TooLarge label)]
               else [])
      | Friendly \<Rightarrow>
          (let toggled = hasZeroToggle fs in
           if toggled \<and> isZeroToggleOn field fs ps then []
           else if isEmpty value then [(field, IsRequired label)]
           else let str = js_trim (js_string value) in
             if \<not> amount_re str then [(field, NotAnAmount label)]
             else if toggled \<and> zero_amount_re str then [(field, NotPositive label)]
             else case decimals_for tds (sibling (f_amount_token_field fs) ps) of
                 None \<Rightarrow> []
               | Some decimals \<Rightarrow>
                   if num_less decimals (Fin (of_nat (decimal_places_of str)))
                   then [(field, TooManyPlaces label decimals)] else []))"

definition validateTokenSelector ::
  "string \<Rightarrow> field_schema \<Rightarrow> jsval \<Rightarrow> validation_mode \<Rightarrow> param_error list" where
  "validateTokenSelector field fs value mode =
     (if mode \<noteq> Raw then []
      else let label = fieldLabel fs field; str = or_else (str_of value) [] in
        if \<not> address_re str then [(field, NotTokenAddress label)]
        else if lower str = ZERO_ADDRESS then [(field, IsZeroAddress label)]
        else [])"

definition MIN_TARGET_HF_WAD :: int where
  "MIN_TARGET_HF_WAD = 1050000000000000000"

definition MIN_TARGET_HF :: rat where
  "MIN_TARGET_HF = 105 / 100"

definition validateAaveAmountMode ::
  "field_schema \<Rightarrow> jsval \<Rightarrow> validation_mode \<Rightarrow> params \<Rightarrow> param_error list" where
  "validateAaveAmountMode fs value mode ps =
     (if \<not> num_eq (to_number value) (Fin 3) then []
      else case named_field (f_target_hf_field fs) of
        None \<Rightarrow> []
      | Some hfField \<Rightarrow>
          (let hf = getp ps hfField in
           case mode of
             Raw \<Rightarrow>
               (case bigint_of_string (js_string hf) of
                  None \<Rightarrow> [(hfField, TargetHfTooLow)]
                | Some n \<Rightarrow> if n \<le> MIN_TARGET_HF_WAD then [(hfField, TargetHfTooLow)] else [])
           | Friendly \<Rightarrow>
               (let num = to_number hf in
                if \<not> is_finite_num num \<or> num_le num (Fin MIN_TARGET_HF)
                then [(hfField, TargetHfTooLow)] else [])))"

definition validateTickRange :: "field_schema \<Rightarrow> jsval \<Rightarrow> params \<Rightarrow> param_error list" where
  "validateTickRange fs value ps =
     (if \<not> num_eq (to_number value) (Fin 0) then []
      else case (named_field (f_tick_lower_field fs), named_field (f_tick_upper_field fs)) of
        (Some lowerField, Some upperField) \<Rightarrow>
          (let l = to_number (getp ps lowerField); u = to_number (getp ps upperField) in
           if \<not> is_finite_num l \<or> \<not> is_finite_num u \<or> num_le u l
           then [(upperField, UpperNotAboveLower)] else [])
      | _ \<Rightarrow> [])"

definition VALID_FEE_TIERS :: "jsnum set" where
  "VALID_FEE_TIERS = {Fin 100, Fin 500, Fin 2500, Fin 10000}"

definition validateFeeTier ::
  "string \<Rightarrow> field_schema \<Rightarrow> jsval \<Rightarrow> validation_mode \<Rightarrow> param_error list" where
  "validateFeeTier field fs value mode =
     (if mode \<noteq> Raw then []
      else if to_number value \<in> VALID_FEE_TIERS then []
      else [(field, BadFeeTier (fieldLabel fs field))])"

definition validatePercent :: "string \<Rightarrow> field_schema \<Rightarrow> jsval \<Rightarrow> param_error list" where
  "validatePercent field fs value =
     (let n = to_number value in
      if \<not> is_integer_num n \<or> num_less n (Fin 1) \<or> num_less (Fin 100) n
      then [(field, BadPercent (fieldLabel fs field))] else [])"

definition validateDuration ::
  "string \<Rightarrow> field_schema \<Rightarrow> jsval \<Rightarrow> validation_mode \<Rightarrow> param_error list" where
  "validateDuration field fs value mode =
     (let label = fieldLabel fs field in
      case mode of
        Friendly \<Rightarrow>
          (case as_duration value of
             None \<Rightarrow> [(field, NotADuration label)]
           | Some (amount, unit) \<Rightarrow>
               (case finite_number amount of
                  None \<Rightarrow> [(field, NotANumber label)]
                | Some q \<Rightarrow>
                    if q \<le> 0 then [(field, NotPositive label)]
                    else if str_of unit \<notin> Some ` unit_name ` {Minutes, Hours, Days, Weeks}
                      then [(field, BadUnit label)]
                    else []))
      | Raw \<Rightarrow>
          (let seconds = to_number value in
           if \<not> is_finite_num seconds \<or> \<not> is_integer_num seconds then [(field, NotWholeSeconds label)]
           else if num_le seconds (Fin 0) then [(field, NotPositive label)]
           else []))"

section \<open>validateParams\<close>

text \<open>The body of the loop over \<open>Object.entries(properties)\<close>.\<close>

definition widget_is :: "field_schema \<Rightarrow> string \<Rightarrow> bool" where
  "widget_is fs w \<longleftrightarrow> f_widget fs = Some w"

definition validateField ::
  "string list \<Rightarrow> params \<Rightarrow> validate_options \<Rightarrow> string \<times> field_schema \<Rightarrow> param_error list" where
  "validateField required ps opts entry =
     (case entry of (field, fs) \<Rightarrow>
        (let value = getp ps field;
             isAutoManaged = widget_is fs ''context-slot'';
             zeroToggled = (widget_is fs ''token-amount'' \<and> hasZeroToggle fs)
         in if field \<in> set required \<and> \<not> isAutoManaged \<and> \<not> zeroToggled \<and> isEmpty value
            then [(field, IsRequired (fieldLabel fs field))]
            else if isEmpty value \<and> \<not> zeroToggled then []
            else if widget_is fs ''aave-amount-mode'' then validateAaveAmountMode fs value (opt_mode opts) ps
            else if widget_is fs ''fee-tier'' then validateFeeTier field fs value (opt_mode opts)
            else if widget_is fs ''tick-range'' then validateTickRange fs value ps
            else if widget_is fs ''percent'' then validatePercent field fs value
            else if widget_is fs ''duration'' then validateDuration field fs value (opt_mode opts)
            else if widget_is fs ''token-selector'' then validateTokenSelector field fs value (opt_mode opts)
            else if widget_is fs ''token-amount''
              then validateTokenAmount field fs value (opt_mode opts) ps (opt_decimals opts)
            else []))"

definition validateParams :: "param_schema \<Rightarrow> params \<Rightarrow> validate_options \<Rightarrow> param_error list" where
  "validateParams schema ps opts =
     concat (map (validateField (ps_required schema) ps opts) (ps_properties schema))"

section \<open>What the rules accept\<close>

lemma validateParams_Nil_iff:
  "validateParams schema ps opts = [] \<longleftrightarrow>
     (\<forall>entry \<in> set (ps_properties schema). validateField (ps_required schema) ps opts entry = [])"
  by (auto simp: validateParams_def)

lemma raw_token_amount_Nil:
  "validateTokenAmount field fs v Raw ps tds = [] \<longleftrightarrow>
     (\<exists>n. bigint_of_string (js_string v) = Some n \<and> 0 \<le> n \<and> n < 2 ^ 256)"
  by (auto simp: validateTokenAmount_def MAX_UINT256_def Let_def split: option.splits)

lemma raw_token_selector_Nil:
  "validateTokenSelector field fs v Raw = [] \<longleftrightarrow>
     (\<exists>a. v = JStr a \<and> address_re a \<and> lower a \<noteq> ZERO_ADDRESS)"
  by (cases v) (auto simp: validateTokenSelector_def Let_def address_re_def)

lemma integer_num_cases: "is_integer_num n \<Longrightarrow> \<exists>i. n = Fin (of_int i)"
  by (cases n) (auto intro: sym)

lemma raw_duration_Nil:
  "validateDuration field fs v Raw = [] \<longleftrightarrow> (\<exists>n. 0 < n \<and> to_number v = Fin (of_nat n))"
proof
  assume "validateDuration field fs v Raw = []"
  then have "is_integer_num (to_number v)" "\<not> num_le (to_number v) (Fin 0)"
    by (auto simp: validateDuration_def Let_def split: if_splits)
  with integer_num_cases obtain i where "to_number v = Fin (of_int i)" "0 < i" by fastforce
  then have "0 < nat i \<and> to_number v = Fin (of_nat (nat i))" by simp
  then show "\<exists>n. 0 < n \<and> to_number v = Fin (of_nat n)" by blast
qed (auto simp: validateDuration_def)

lemma raw_fee_tier_Nil:
  "validateFeeTier field fs v Raw = [] \<longleftrightarrow> to_number v \<in> {Fin 100, Fin 500, Fin 2500, Fin 10000}"
  by (simp add: validateFeeTier_def VALID_FEE_TIERS_def)

lemma percent_Nil:
  "validatePercent field fs v = [] \<longleftrightarrow> (\<exists>n \<in> {1..100::int}. to_number v = Fin (of_int n))"
proof
  assume "validatePercent field fs v = []"
  then have int: "is_integer_num (to_number v)"
    and le: "\<not> num_less (to_number v) (Fin 1)" "\<not> num_less (Fin 100) (to_number v)"
    by (auto simp: validatePercent_def Let_def split: if_splits)
  from integer_num_cases [OF int] obtain i where i: "to_number v = Fin (of_int i)" by blast
  have "\<not> of_int i < (of_int 1 :: rat)" "\<not> (of_int 100 :: rat) < of_int i" using le by (simp_all add: i)
  then have "1 \<le> i" "i \<le> 100" unfolding of_int_less_iff by simp_all
  then show "\<exists>n \<in> {1..100}. to_number v = Fin (of_int n)" using i by auto
next
  assume "\<exists>n \<in> {1..100::int}. to_number v = Fin (of_int n)"
  then obtain n :: int where n: "1 \<le> n" "n \<le> 100" "to_number v = Fin (of_int n)" by auto
  then have "\<not> of_int n < (1::rat)" "\<not> (100::rat) < of_int n"
    by (simp_all add: not_less)
  with n show "validatePercent field fs v = []" by (simp add: validatePercent_def)
qed

text \<open>Precision and zero of a well-formed amount.\<close>

lemma index_of_append: "x \<notin> set xs \<Longrightarrow> index_of (xs @ x # ys) x = Some (length xs)"
  by (induction xs) auto

lemma decimal_places_amount:
  assumes "amount_re t"
  shows "decimal_places_of t = length (frac_part t)"
proof -
  note p = amount_parts [OF assms]
  define w f where "w = whole_part t" and "f = frac_part t"
  have t: "t = w @ (if f = [] then [] else CHR ''.'' # f)" unfolding w_def f_def by (rule p(4))
  have nd: "CHR ''.'' \<notin> set w" "CHR ''.'' \<notin> set f" using p(2,3) by (auto simp: w_def f_def dest: no_dot)
  have "decimal_places_of (w @ (if f = [] then [] else CHR ''.'' # f)) = length f"
    using nd index_of_None_iff [of w "CHR ''.''"] by (simp add: decimal_places_of_def index_of_append)
  with t show ?thesis unfolding f_def by (metis f_def w_def)
qed

lemma dec_val_0_iff: "list_all is_digit s \<Longrightarrow> dec_val s = 0 \<longleftrightarrow> (\<forall>c \<in> set s. c = CHR ''0'')"
proof (induction s)
  case (Cons c s)
  have "digit_val c = 0 \<longleftrightarrow> c = CHR ''0''"
    using Cons.prems digit_char_digit_val [of c] digit_char_digit_val [of "CHR ''0''"] by (auto simp del: digit_char_digit_val)
  with Cons show ?case by (simp add: dec_val_Cons)
qed simp

lemma zero_amount_iff:
  assumes "amount_re t"
  shows "zero_amount_re t \<longleftrightarrow> dec_val (whole_part t @ frac_part t) = 0"
proof -
  note p = amount_parts [OF assms]
  define w f where "w = whole_part t" and "f = frac_part t"
  have t: "t = w @ (if f = [] then [] else CHR ''.'' # f)" unfolding w_def f_def by (rule p(4))
  have w: "w \<noteq> []" "CHR ''.'' \<notin> set w" "CHR ''.'' \<notin> set f" using p by (auto simp: w_def f_def dest: no_dot)
  have d: "list_all is_digit (w @ f)" using p by (simp add: w_def f_def)
  let ?z = "\<lambda>c. c = CHR ''0''"
  have "zero_amount_re (w @ (if f = [] then [] else CHR ''.'' # f)) \<longleftrightarrow> (\<forall>c \<in> set (w @ f). ?z c)"
  proof (cases "\<forall>c \<in> set w. ?z c")
    case True
    then have "takeWhile ?z (w @ r) = w @ takeWhile ?z r" "dropWhile ?z (w @ r) = dropWhile ?z r" for r
      by (simp_all add: takeWhile_all_id dropWhile_all_id)
    with True w show ?thesis by (auto simp: zero_amount_re_def list_all_iff)
  next
    case False
    define r where "r = dropWhile ?z w"
    from False have "r \<noteq> []" by (auto simp: r_def)
    then obtain c r' where r: "r = c # r'" by (cases r) auto
    then have "c \<noteq> CHR ''0''" "c \<in> set w" unfolding r_def
      by (auto dest: dropWhile_eq_Cons_conv [THEN iffD1] simp: set_dropWhileD [of c ?z w])
    moreover have "dropWhile ?z (w @ x) = r @ x" for x using False by (auto simp: r_def dropWhile_append)
    moreover have "c \<noteq> CHR ''.''" using \<open>c \<in> set w\<close> w by blast
    ultimately show ?thesis using False r by (auto simp: zero_amount_re_def Let_def)
  qed
  then show ?thesis using t dec_val_0_iff [OF d] by (metis f_def w_def)
qed

lemma num_less_of_nat [simp]: "num_less (Fin (of_nat a)) (Fin (of_nat b)) \<longleftrightarrow> a < b"
  by simp

lemma friendly_amount_Nil:
  assumes "decimals_for tds (sibling (f_amount_token_field fs) ps) = Some (Fin (of_nat d))"
    and "\<not> isZeroToggleOn field fs ps"
  shows "validateTokenAmount field fs v Friendly ps tds = [] \<longleftrightarrow>
     amount_re (js_trim (js_string v)) \<and> length (frac_part (js_trim (js_string v))) \<le> d \<and>
     (hasZeroToggle fs \<longrightarrow> base_units (js_trim (js_string v)) d \<noteq> 0)"
proof -
  let ?t = "js_trim (js_string v)"
  have empty: "isEmpty v \<Longrightarrow> \<not> amount_re ?t"
    unfolding isEmpty_def by (elim disjE) (simp_all, code_simp+)
  have nz: "amount_re ?t \<Longrightarrow> base_units ?t d = 0 \<longleftrightarrow> zero_amount_re ?t"
    by (simp add: zero_amount_iff base_units_def)
  show ?thesis
  proof (cases "amount_re ?t")
    case True
    with empty have "\<not> isEmpty v" by blast
    with True assms nz show ?thesis
      by (auto simp: validateTokenAmount_def Let_def decimal_places_amount simp del: num_less.simps)
  next
    case False
    with assms show ?thesis by (auto simp: validateTokenAmount_def Let_def)
  qed
qed

text \<open>In the editor, for an amount whose token has known decimals and whose zero toggle is
  off, the friendly validator accepts exactly the texts that the converter turns into base units
  (and, for a field with a toggle, into a positive number of them): no accepted amount fails to
  convert and no convertible one is rejected.\<close>

theorem friendly_amount_converts:
  assumes "decimals_for tds (sibling (f_amount_token_field fs) ps) = Some (Fin (of_nat d))"
    and "\<not> isZeroToggleOn field fs ps"
  shows "validateTokenAmount field fs v Friendly ps tds = [] \<longleftrightarrow>
     (\<exists>n. toBaseUnits (js_string v) (Fin (of_nat d)) = Inr (show_nat n) \<and> (hasZeroToggle fs \<longrightarrow> 0 < n))"
proof -
  have "show_nat m = show_nat n \<Longrightarrow> m = n" for m n by (metis dec_val_show_nat)
  then show ?thesis
    unfolding friendly_amount_Nil [OF assms] by (auto simp: toBaseUnits_Inr_iff)
qed

definition usdt_field :: field_schema where
  "usdt_field = plain_field\<lparr>f_widget := Some ''token-amount'', f_amount_token_field := Some ''token'',
     f_zero_toggle := JObj []\<rparr>"

theorem friendly_amount_converts_witness:
  "validateTokenAmount ''amount'' usdt_field (JStr ''1.5'') Friendly [''token'' \<mapsto> JStr ''0xAB''] [''0xab'' \<mapsto> Fin 6] = [] \<longleftrightarrow>
     (\<exists>n. toBaseUnits (js_string (JStr ''1.5'')) (Fin (of_nat 6)) = Inr (show_nat n) \<and> (hasZeroToggle usdt_field \<longrightarrow> 0 < n))"
proof (rule friendly_amount_converts)
  have "lower ''0xAB'' = ''0xab''" by code_simp
  then show "decimals_for [''0xab'' \<mapsto> Fin 6]
      (sibling (f_amount_token_field usdt_field) [''token'' \<mapsto> JStr ''0xAB'']) = Some (Fin (of_nat 6))"
    by (simp add: decimals_for_def sibling_def named_field_def usdt_field_def getp_def)
  show "\<not> isZeroToggleOn ''amount'' usdt_field [''token'' \<mapsto> JStr ''0xAB'']"
    by (simp add: isZeroToggleOn_def zeroToggleField_def getp_def)
qed

definition raw_field_safe :: "field_schema \<Rightarrow> jsval \<Rightarrow> bool" where
  "raw_field_safe fs v \<longleftrightarrow>
     (widget_is fs ''token-selector'' \<longrightarrow> (\<exists>a. v = JStr a \<and> address_re a \<and> lower a \<noteq> ZERO_ADDRESS)) \<and>
     (widget_is fs ''token-amount'' \<longrightarrow>
        (\<exists>n. bigint_of_string (js_string v) = Some n \<and> 0 \<le> n \<and> n < 2 ^ 256)) \<and>
     (widget_is fs ''duration'' \<longrightarrow> (\<exists>n. 0 < n \<and> to_number v = Fin (of_nat n))) \<and>
     (widget_is fs ''fee-tier'' \<longrightarrow> to_number v \<in> {Fin 100, Fin 500, Fin 2500, Fin 10000}) \<and>
     (widget_is fs ''percent'' \<longrightarrow> (\<exists>n \<in> {1..100::int}. to_number v = Fin (of_int n)))"

text \<open>C28. Whatever the defensive backend guard lets through is structurally safe: in every required
  field, a token is a well-formed non-zero address, an amount is a 256-bit unsigned integer, a
  duration is a positive whole number of seconds, a fee tier is one of the four PancakeSwap
  tiers and a percentage is a whole number from 1 to 100.\<close>

theorem raw_params_safe:
  assumes "validateParams schema ps opts = []" and "opt_mode opts = Raw"
    and "(field, fs) \<in> set (ps_properties schema)" and "field \<in> set (ps_required schema)"
  shows "raw_field_safe fs (getp ps field)"
proof -
  have nil: "validateField (ps_required schema) ps opts (field, fs) = []"
    using assms(1,3) by (simp add: validateParams_Nil_iff)
  show ?thesis unfolding raw_field_safe_def
  proof (intro conjI impI)
    assume w: "widget_is fs ''token-selector''"
    with nil assms(2,4) show "\<exists>a. getp ps field = JStr a \<and> address_re a \<and> lower a \<noteq> ZERO_ADDRESS"
      by (simp add: validateField_def widget_is_def Let_def raw_token_selector_Nil split: if_split_asm)
  next
    assume w: "widget_is fs ''token-amount''"
    with nil assms(2,4) show "\<exists>n. bigint_of_string (js_string (getp ps field)) = Some n \<and> 0 \<le> n \<and> n < 2 ^ 256"
      by (simp add: validateField_def widget_is_def Let_def raw_token_amount_Nil split: if_split_asm)
  next
    assume w: "widget_is fs ''duration''"
    with nil assms(2,4) show "\<exists>n. 0 < n \<and> to_number (getp ps field) = Fin (of_nat n)"
      by (simp add: validateField_def widget_is_def Let_def raw_duration_Nil split: if_split_asm)
  next
    assume w: "widget_is fs ''fee-tier''"
    with nil assms(2,4) show "to_number (getp ps field) \<in> {Fin 100, Fin 500, Fin 2500, Fin 10000}"
      by (simp add: validateField_def widget_is_def Let_def raw_fee_tier_Nil split: if_split_asm)
  next
    assume w: "widget_is fs ''percent''"
    with nil assms(2,4) show "\<exists>n \<in> {1..100::int}. to_number (getp ps field) = Fin (of_int n)"
      by (simp add: validateField_def widget_is_def Let_def percent_Nil split: if_split_asm)
  qed
qed

theorem raw_params_safe_witness:
  "raw_field_safe (plain_field\<lparr>f_widget := Some ''percent''\<rparr>) (JStr ''50'')"
proof -
  let ?fs = "plain_field\<lparr>f_widget := Some ''percent''\<rparr>"
  let ?schema = "\<lparr>ps_properties = [(''pct'', ?fs)], ps_required = [''pct'']\<rparr>"
  let ?opts = "\<lparr>opt_mode = Raw, opt_decimals = Map.empty\<rparr>"
  have num: "to_number (JStr ''50'') = Fin 50" 
  proof -
    have "show_nat 50 = ''50''" by code_simp
    then show ?thesis using num_show_nat [of 50] by (simp add: num_fin_def num_limit_def)
  qed
  have "raw_field_safe ?fs (getp [''pct'' \<mapsto> JStr ''50''] ''pct'')"
  proof (rule raw_params_safe [where schema = ?schema and opts = ?opts])
    show "validateParams ?schema [''pct'' \<mapsto> JStr ''50''] ?opts = []"
      using num by (simp add: validateParams_def validateField_def widget_is_def getp_def isEmpty_def
          validatePercent_def Let_def)
  qed simp_all
  then show ?thesis by (simp add: getp_def)
qed

end
