(* ===== verification/Graphs.thy ===== *)
theory Graphs
  imports Prelude
begin

text \<open>
  The automation graph and the graph routines that occur, with the same text, in the backend
  encoder (encoding.service.ts), the editor (graph-to-steps.ts, validate-graph.ts,
  editor-store.ts) and the MCP server: grouping edges by their source, counting incoming edges
  and the breadth-first traversal. Lemmas: the traversal terminates and lists each node that is
  reachable from its start exactly once, the start first.
\<close>

section \<open>Edges\<close>

record gedge =
  e_source :: string
  e_target :: string
  e_handle :: string

text \<open>
  \<open>edgesBySource\<close>: a map from a source to its edges, in the order of the edge list. The
  functions are polymorphic in the record extension, because the editor's edges carry an id.
\<close>

definition add_edge :: "'a gedge_scheme \<Rightarrow> (string \<rightharpoonup> 'a gedge_scheme list) \<Rightarrow> (string \<rightharpoonup> 'a gedge_scheme list)" where
  "add_edge e m = m(e_source e \<mapsto> or_else (m (e_source e)) [] @ [e])"

definition group_edges :: "'a gedge_scheme list \<Rightarrow> (string \<rightharpoonup> 'a gedge_scheme list)" where
  "group_edges es = fold add_edge es Map.empty"

definition out_edges :: "'a gedge_scheme list \<Rightarrow> string \<Rightarrow> 'a gedge_scheme list" where
  "out_edges es x = or_else (group_edges es x) []"

lemma fold_add_edge:
  "or_else (fold add_edge es m x) [] = or_else (m x) [] @ filter (\<lambda>e. e_source e = x) es"
  by (induction es arbitrary: m) (auto simp: add_edge_def)

lemma out_edges_filter: "out_edges es x = filter (\<lambda>e. e_source e = x) es"
  by (simp add: out_edges_def group_edges_def fold_add_edge)

section \<open>Incoming edges\<close>

definition count_edge :: "'a gedge_scheme \<Rightarrow> (string \<rightharpoonup> nat) \<Rightarrow> (string \<rightharpoonup> nat)" where
  "count_edge e m = m(e_target e \<mapsto> or_else (m (e_target e)) 0 + 1)"

definition incomingCount :: "string list \<Rightarrow> 'a gedge_scheme list \<Rightarrow> (string \<rightharpoonup> nat)" where
  "incomingCount ids es = fold count_edge es (fold (\<lambda>i m. m(i \<mapsto> 0)) ids Map.empty)"

definition is_start :: "string list \<Rightarrow> 'a gedge_scheme list \<Rightarrow> string \<Rightarrow> bool" where
  "is_start ids es x \<longleftrightarrow> incomingCount ids es x = Some 0"

lemma fold_zero: "fold (\<lambda>i m. m(i \<mapsto> 0)) ids m x = (if x \<in> set ids then Some (0::nat) else m x)"
  by (induction ids arbitrary: m) auto

lemma fold_count_edge:
  "fold count_edge es m x =
     (let k = length (filter (\<lambda>e. e_target e = x) es) in
      if k = 0 then m x else Some (or_else (m x) 0 + k))"
proof (induction es arbitrary: m)
  case (Cons e es)
  have "or_else (m x) 0 = 0 \<or> m x = Some (or_else (m x) 0)" by (cases "m x") auto
  with Cons show ?case by (auto simp: count_edge_def Let_def)
qed simp

lemma is_start_iff:
  "x \<in> set ids \<Longrightarrow> is_start ids es x \<longleftrightarrow> (\<forall>e \<in> set es. e_target e \<noteq> x)"
  by (auto simp: is_start_def incomingCount_def fold_count_edge fold_zero Let_def filter_empty_conv)

section \<open>Reachability\<close>

definition edge_rel :: "'a gedge_scheme list \<Rightarrow> string \<Rightarrow> string \<Rightarrow> bool" where
  "edge_rel es a b \<longleftrightarrow> (\<exists>e \<in> set es. e_source e = a \<and> e_target e = b)"

inductive reaches :: "'a gedge_scheme list \<Rightarrow> string \<Rightarrow> string \<Rightarrow> bool" for es where
  reaches_refl: "reaches es a a"
| reaches_step: "reaches es a b \<Longrightarrow> edge_rel es b c \<Longrightarrow> reaches es a c"

inductive_cases reaches_stepE: "reaches es a c"
inductive_simps reaches_self: "reaches es a a"

lemma reaches_trans: "reaches es b c \<Longrightarrow> reaches es a b \<Longrightarrow> reaches es a c"
  by (induction rule: reaches.induct) (auto intro: reaches.intros)

lemma reaches_edge: "edge_rel es a b \<Longrightarrow> reaches es b c \<Longrightarrow> reaches es a c"
  using reaches_trans reaches_step [OF reaches_refl] by blast

lemma reaches_closed:
  "reaches es a b \<Longrightarrow> a \<in> S \<Longrightarrow> (\<And>x y. x \<in> S \<Longrightarrow> edge_rel es x y \<Longrightarrow> y \<in> S) \<Longrightarrow> b \<in> S"
  by (induction rule: reaches.induct) auto

lemma edge_rel_out: "edge_rel es a b \<longleftrightarrow> b \<in> e_target ` set (out_edges es a)"
  by (auto simp: edge_rel_def out_edges_filter)

section \<open>The contract of a traversal\<close>

text \<open>
  What the callers of a traversal rely on: an order without repetitions that starts with the
  start node, contains only nodes reachable from it and is closed under the edges.
\<close>

locale traversal =
  fixes es :: "'a gedge_scheme list" and start :: string and order :: "string list"
  assumes order_distinct: "distinct order"
    and order_start: "\<exists>rest. order = start # rest"
    and order_sound: "x \<in> set order \<Longrightarrow> reaches es start x"
    and order_closed: "x \<in> set order \<Longrightarrow> edge_rel es x y \<Longrightarrow> y \<in> set order"
begin

lemma order_iff: "x \<in> set order \<longleftrightarrow> reaches es start x"
proof
  assume "reaches es start x"
  moreover have "start \<in> set order" using order_start by auto
  ultimately show "x \<in> set order" by (rule reaches_closed) (rule order_closed)
qed (rule order_sound)

lemma target_indexed:
  assumes "i < length order" and "e \<in> set es" and "e_source e = order ! i"
  shows "\<exists>j. index_of order (e_target e) = Some j \<and> j < length order \<and> order ! j = e_target e"
proof -
  have "edge_rel es (order ! i) (e_target e)" using assms by (auto simp: edge_rel_def)
  then have "e_target e \<in> set order" using assms(1) order_closed nth_mem by blast
  then obtain j where "index_of order (e_target e) = Some j" using index_of_in by metis
  then show ?thesis by (auto dest: index_of_bound)
qed

lemma start_index: "index_of order start = Some 0"
  using order_start by auto

end

section \<open>Breadth-first traversal\<close>

text \<open>The inner loop: unvisited targets are marked and queued.\<close>

fun enqueue_targets :: "string list \<Rightarrow> string list \<times> string set \<Rightarrow> string list \<times> string set" where
  "enqueue_targets [] (q, vis) = (q, vis)"
| "enqueue_targets (t # ts) (q, vis) =
     (if t \<in> vis then enqueue_targets ts (q, vis) else enqueue_targets ts (q @ [t], insert t vis))"

lemma enqueue_targets_card:
  "enqueue_targets ts (q, vis) = (q', vis') \<Longrightarrow> set ts \<subseteq> T \<Longrightarrow> finite T \<Longrightarrow>
   length q' + card (T - vis') = length q + card (T - vis)"
proof (induction ts "(q, vis)" arbitrary: q vis rule: enqueue_targets.induct)
  case (2 t ts q vis)
  show ?case
  proof (cases "t \<in> vis")
    case False
    with "2.prems" have "card (T - vis) = Suc (card (T - vis - {t}))"
      by (intro card_Suc_Diff1 [symmetric]) auto
    moreover have "T - insert t vis = T - vis - {t}" by auto
    ultimately have "card (T - vis) = Suc (card (T - insert t vis))" by simp
    with "2.hyps"(2) [OF False] "2.prems" False show ?thesis by auto
  qed (use 2 in auto)
qed auto

lemma enqueue_targets_spec:
  "enqueue_targets ts (q, vis) = (q', vis') \<Longrightarrow>
   vis' = vis \<union> set ts \<and> (\<exists>new. q' = q @ new \<and> set new = set ts - vis \<and> distinct new)"
proof (induction ts "(q, vis)" arbitrary: q vis rule: enqueue_targets.induct)
  case (2 t ts q vis)
  show ?case
  proof (cases "t \<in> vis")
    case False
    with "2.prems" have run: "enqueue_targets ts (q @ [t], insert t vis) = (q', vis')" by simp
    from "2.hyps"(2) [OF False this] obtain new where
      "vis' = insert t vis \<union> set ts" "q' = (q @ [t]) @ new" "set new = set ts - insert t vis" "distinct new"
      by blast
    with False show ?thesis by (intro conjI exI [of _ "t # new"]) auto
  qed (use 2 in auto)
qed auto

function bfs_loop :: "'a gedge_scheme list \<Rightarrow> string list \<Rightarrow> string set \<Rightarrow> string list \<Rightarrow> string list" where
  "bfs_loop es [] vis order = order"
| "bfs_loop es (x # q) vis order =
     (case enqueue_targets (map e_target (out_edges es x)) (q, vis) of
        (q', vis') \<Rightarrow> bfs_loop es q' vis' (order @ [x]))"
  by pat_completeness auto

termination
proof (relation "measure (\<lambda>(es, q, vis, order). length q + card (e_target ` set es - vis))")
  fix es :: "'a gedge_scheme list" and x q vis order q' vis'
  assume p: "(q', vis') = enqueue_targets (map e_target (out_edges es x)) (q, vis)"
  have "set (map e_target (out_edges es x)) \<subseteq> e_target ` set es" by (auto simp: out_edges_filter)
  then have "length q' + card (e_target ` set es - vis') = length q + card (e_target ` set es - vis)"
    by (intro enqueue_targets_card [OF p [symmetric]]) auto
  then show "((es, q', vis', order @ [x]), es, x # q, vis, order)
      \<in> measure (\<lambda>(es, q, vis, order). length q + card (e_target ` set es - vis))" by simp
qed simp

definition bfs_order :: "'a gedge_scheme list \<Rightarrow> string \<Rightarrow> string list" where
  "bfs_order es start = bfs_loop es [start] {start} []"

text \<open>The invariant of the loop.\<close>

definition bfs_inv :: "'a gedge_scheme list \<Rightarrow> string \<Rightarrow> string list \<Rightarrow> string set \<Rightarrow> string list \<Rightarrow> bool" where
  "bfs_inv es start q vis order \<longleftrightarrow>
     distinct (order @ q) \<and> set (order @ q) = vis \<and> (\<exists>rest. order @ q = start # rest) \<and>
     (\<forall>x \<in> vis. reaches es start x) \<and> (\<forall>x \<in> set order. \<forall>y. edge_rel es x y \<longrightarrow> y \<in> vis)"

lemma bfs_inv_step:
  assumes inv: "bfs_inv es start (x # q) vis order"
    and run: "enqueue_targets (map e_target (out_edges es x)) (q, vis) = (q', vis')"
  shows "bfs_inv es start q' vis' (order @ [x])"
proof -
  from enqueue_targets_spec [OF run] obtain new where
    vis': "vis' = vis \<union> e_target ` set (out_edges es x)" and q': "q' = q @ new" and
    new: "set new = e_target ` set (out_edges es x) - vis" "distinct new" by auto
  have x: "reaches es start x" "x \<in> vis" using inv by (auto simp: bfs_inv_def)
  then have "\<forall>y \<in> e_target ` set (out_edges es x). reaches es start y"
    using reaches_step by (metis edge_rel_out)
  moreover have "\<exists>rest. order @ x # q @ new = start # rest" using inv by (cases order) (auto simp: bfs_inv_def)
  ultimately show ?thesis using inv new x
    unfolding bfs_inv_def vis' q' by (auto simp: edge_rel_out)
qed

lemma bfs_loop_inv:
  "bfs_inv es start q vis order \<Longrightarrow> \<exists>vis'. bfs_inv es start [] vis' (bfs_loop es q vis order)"
proof (induction es q vis order rule: bfs_loop.induct)
  case (2 es x q vis order)
  obtain q' vis' where run: "enqueue_targets (map e_target (out_edges es x)) (q, vis) = (q', vis')"
    by (cases "enqueue_targets (map e_target (out_edges es x)) (q, vis)")
  from bfs_inv_step [OF "2.prems" run] "2.IH" [OF run [symmetric]] run show ?case by simp
qed auto

lemma bfs_order_inv: "\<exists>vis. bfs_inv es start [] vis (bfs_order es start)"
  unfolding bfs_order_def
  by (rule bfs_loop_inv) (simp add: bfs_inv_def reaches_refl)

interpretation bfs: traversal es start "bfs_order es start" for es start
proof -
  obtain vis where inv: "bfs_inv es start [] vis (bfs_order es start)" using bfs_order_inv by blast
  show "traversal es start (bfs_order es start)"
    by unfold_locales (use inv in \<open>auto simp: bfs_inv_def\<close>)
qed

end
