(* ===== verification/Boundary.thy ===== *)
theory Boundary
  imports Validation Graphs
begin

text \<open>
  The encode boundary of the \<open>shared\<close> package: encode-boundary.ts, which turns the friendly
  parameters of a graph into the raw values that \<open>POST /encode\<close> receives, and step-roles.ts,
  which resolves what a field means (token, amount, recipient, direction). Lemmas: only keys of
  the ABI fragment survive, a converted field is a decimal string, and what the friendly
  validator accepts is what the raw validator accepts after the conversion, field by field, with
  the exact side conditions.
\<close>

section \<open>Data\<close>

record abi_component =
  c_name :: string
  c_type :: string

record step_schema =
  ss_paramSchema :: "param_schema option"
  ss_components :: "abi_component list"

type_synonym step_schemas = "string \<rightharpoonup> step_schema"

text \<open>A node as the editor and the MCP agent send it; its type and its handle may be missing.\<close>

record friendly_node =
  fn_id :: string
  fn_type :: "string option"
  fn_stepTypeId :: string
  fn_params :: params

record friendly_edge =
  fe_source :: string
  fe_target :: string
  fe_handle :: "string option"

record raw_node =
  n_id :: string
  n_type :: string
  n_stepTypeId :: string
  n_params :: params

record raw_graph =
  g_nodes :: "raw_node list"
  g_edges :: "gedge list"

datatype boundary_error =
    DurationFailed duration_error
  | AmountFailed amount_error
  | UnknownDecimals jsval
  | TimestampFailed timestamp_error

definition schema_properties :: "step_schema option \<Rightarrow> (string \<times> field_schema) list" where
  "schema_properties s =
     (case s of None \<Rightarrow> []
      | Some st \<Rightarrow> (case ss_paramSchema st of None \<Rightarrow> [] | Some ps \<Rightarrow> ps_properties ps))"

section \<open>Friendly to raw\<close>

fun lift_amount :: "amount_error + string \<Rightarrow> boundary_error + jsval" where
  "lift_amount (Inl e) = Inl (AmountFailed e)"
| "lift_amount (Inr s) = Inr (JStr s)"

fun lift_duration :: "duration_error + jsnum \<Rightarrow> boundary_error + jsval" where
  "lift_duration (Inl e) = Inl (DurationFailed e)"
| "lift_duration (Inr n) = Inr (JStr (num_to_string n))"

definition toggle_on :: "string \<Rightarrow> field_schema option \<Rightarrow> params \<Rightarrow> bool" where
  "toggle_on field fs ps \<longleftrightarrow> (case fs of None \<Rightarrow> False | Some s \<Rightarrow> isZeroToggleOn field s ps)"

definition mapFieldToRaw ::
  "string \<Rightarrow> string option \<Rightarrow> jsval \<Rightarrow> field_schema option \<Rightarrow> params \<Rightarrow> token_decimals
     \<Rightarrow> boundary_error + jsval" where
  "mapFieldToRaw field widget value fs ps tds =
     (if widget = Some ''duration'' then
        (case as_duration value of Some (v, u) \<Rightarrow> lift_duration (toSeconds v u) | None \<Rightarrow> Inr value)
      else if widget = Some ''health-factor'' then
        lift_amount (toBaseUnits (if isEmpty value then ''0'' else js_string value) (Fin 18))
      else if widget = Some ''token-amount'' then
        (if toggle_on field fs ps then Inr (JStr ''0'')
         else let tokenAddr = sibling (Option.bind fs f_amount_token_field) ps in
           case decimals_for tds tokenAddr of
             None \<Rightarrow> Inl (UnknownDecimals tokenAddr)
           | Some decimals \<Rightarrow> lift_amount (toBaseUnits (js_string value) decimals))
      else Inr value)"

text \<open>One round of the loop over the ABI components, and the loop.\<close>

definition mapComponent ::
  "params \<Rightarrow> (string \<times> field_schema) list \<Rightarrow> token_decimals \<Rightarrow> string \<Rightarrow> params \<Rightarrow> boundary_error + params" where
  "mapComponent ps properties tds name raw =
     (let fs = map_of properties name;
          widget = Option.bind fs f_widget;
          value = getp ps name;
          zeroToggleOn = (widget = Some ''token-amount'' \<and> toggle_on name fs ps)
      in if value = JUndef \<and> \<not> zeroToggleOn then Inr raw
         else rbind (mapFieldToRaw name widget value fs ps tds) (\<lambda>r. Inr (raw(name \<mapsto> r))))"

fun mapComponents ::
  "params \<Rightarrow> (string \<times> field_schema) list \<Rightarrow> token_decimals \<Rightarrow> abi_component list \<Rightarrow> params \<Rightarrow> boundary_error + params" where
  "mapComponents ps properties tds [] raw = Inr raw"
| "mapComponents ps properties tds (c # cs) raw =
     rbind (mapComponent ps properties tds (c_name c) raw) (mapComponents ps properties tds cs)"

definition mapParamsToRaw ::
  "params \<Rightarrow> step_schema option \<Rightarrow> token_decimals \<Rightarrow> boundary_error + params" where
  "mapParamsToRaw ps schema tds =
     mapComponents ps (schema_properties schema) tds
       (case schema of None \<Rightarrow> [] | Some s \<Rightarrow> ss_components s) Map.empty"

text \<open>The overrides are an object: a name that is set again keeps its place.\<close>

type_synonym overrides = "(string \<times> string) list"

definition overrideOfField ::
  "params \<Rightarrow> string \<times> field_schema \<Rightarrow> overrides \<Rightarrow> boundary_error + overrides" where
  "overrideOfField ps entry ov =
     (case entry of (field, fs) \<Rightarrow>
        if \<not> widget_is fs ''start-time'' then Inr ov
        else case named_field (f_time_slot_field fs) of
          None \<Rightarrow> Inr ov
        | Some slotField \<Rightarrow>
            (case str_of (getp ps slotField) of
               None \<Rightarrow> Inr ov
             | Some slotName \<Rightarrow>
                 let startTime = getp ps field in
                 if slotName = [] \<or> isEmpty startTime then Inr ov
                 else case encodeTimestamp (to_number startTime) of
                   Inl e \<Rightarrow> Inl (TimestampFailed e)
                 | Inr w \<Rightarrow> Inr (alist_set slotName w ov)))"

fun overridesOfFields ::
  "params \<Rightarrow> (string \<times> field_schema) list \<Rightarrow> overrides \<Rightarrow> boundary_error + overrides" where
  "overridesOfFields ps [] ov = Inr ov"
| "overridesOfFields ps (e # es) ov = rbind (overrideOfField ps e ov) (overridesOfFields ps es)"

fun overridesOfNodes :: "friendly_node list \<Rightarrow> step_schemas \<Rightarrow> overrides \<Rightarrow> boundary_error + overrides" where
  "overridesOfNodes [] schemas ov = Inr ov"
| "overridesOfNodes (n # ns) schemas ov =
     rbind (overridesOfFields (fn_params n) (schema_properties (schemas (fn_stepTypeId n))) ov)
       (overridesOfNodes ns schemas)"

definition buildContextOverrides :: "friendly_node list \<Rightarrow> step_schemas \<Rightarrow> boundary_error + overrides" where
  "buildContextOverrides nodes schemas = overridesOfNodes nodes schemas []"

definition mapNodeToRaw :: "step_schemas \<Rightarrow> token_decimals \<Rightarrow> friendly_node \<Rightarrow> boundary_error + raw_node" where
  "mapNodeToRaw schemas tds n =
     rbind (mapParamsToRaw (fn_params n) (schemas (fn_stepTypeId n)) tds) (\<lambda>ps.
       Inr \<lparr>n_id = fn_id n, n_type = or_else (fn_type n) ''ACTION'',
            n_stepTypeId = fn_stepTypeId n, n_params = ps\<rparr>)"

definition mapEdgeToRaw :: "friendly_edge \<Rightarrow> gedge" where
  "mapEdgeToRaw e = \<lparr>e_source = fe_source e, e_target = fe_target e, e_handle = or_else (fe_handle e) ''out''\<rparr>"

definition mapGraphToRaw ::
  "friendly_node list \<Rightarrow> friendly_edge list \<Rightarrow> step_schemas \<Rightarrow> token_decimals \<Rightarrow> boundary_error + raw_graph" where
  "mapGraphToRaw nodes edges schemas tds =
     rbind (rmapM (mapNodeToRaw schemas tds) nodes) (\<lambda>ns.
       Inr \<lparr>g_nodes = ns, g_edges = map mapEdgeToRaw edges\<rparr>)"

section \<open>Field roles (step-roles.ts)\<close>

datatype field_role = TokenRole | AmountRole | RecipientRole | DirectionRole

fun role_name :: "field_role \<Rightarrow> string" where
  "role_name TokenRole = ''token''"
| "role_name AmountRole = ''amount''"
| "role_name RecipientRole = ''recipient''"
| "role_name DirectionRole = ''direction''"

definition FIELD_ROLES :: "field_role list" where
  "FIELD_ROLES = [TokenRole, AmountRole, RecipientRole, DirectionRole]"

text \<open>\<open>isFieldRole\<close>, with the role a value names.\<close>

definition fieldRole_of :: "jsval \<Rightarrow> field_role option" where
  "fieldRole_of v = List.find (\<lambda>r. v = JStr (role_name r)) FIELD_ROLES"

definition WIDGET_ROLE :: "string \<rightharpoonup> field_role" where
  "WIDGET_ROLE = [''token-selector'' \<mapsto> TokenRole, ''token-amount'' \<mapsto> AmountRole,
     ''aave-amount-mode'' \<mapsto> DirectionRole]"

definition resolveFieldRole :: "field_schema option \<Rightarrow> field_role option" where
  "resolveFieldRole field =
     (case field of
        None \<Rightarrow> None
      | Some fs \<Rightarrow>
          (case fieldRole_of (f_role fs) of
             Some r \<Rightarrow> Some r
           | None \<Rightarrow> (case f_widget fs of None \<Rightarrow> None | Some w \<Rightarrow> WIDGET_ROLE w)))"

record catalog_step =
  cs_name :: "string option"
  cs_schema :: step_schema

definition RECIPIENT_FIELD_NAMES :: "string set" where
  "RECIPIENT_FIELD_NAMES = {''recipient'', ''to'', ''receiver'', ''destination''}"

definition is_gap :: "catalog_step \<Rightarrow> abi_component \<Rightarrow> bool" where
  "is_gap st c \<longleftrightarrow> c_type c = ''address'' \<and> lower (c_name c) \<in> RECIPIENT_FIELD_NAMES \<and>
     resolveFieldRole (map_of (schema_properties (Some (cs_schema st))) (c_name c)) \<noteq> Some RecipientRole"

definition findUnannotatedRecipients :: "catalog_step list \<Rightarrow> (string \<times> string) list" where
  "findUnannotatedRecipients steps =
     concat (map (\<lambda>st. map (\<lambda>c. (or_else (cs_name st) ''(unbenannt)'', c_name c))
       (filter (is_gap st) (ss_components (cs_schema st)))) steps)"

section \<open>Only ABI keys survive\<close>

definition converted :: "params \<Rightarrow> step_schema option \<Rightarrow> token_decimals \<Rightarrow> string \<Rightarrow> boundary_error + jsval" where
  "converted ps schema tds name =
     (let fs = map_of (schema_properties schema) name in
      mapFieldToRaw name (Option.bind fs f_widget) (getp ps name) fs ps tds)"

definition is_sent :: "params \<Rightarrow> step_schema option \<Rightarrow> string \<Rightarrow> bool" where
  "is_sent ps schema name \<longleftrightarrow>
     (let fs = map_of (schema_properties schema) name in
      getp ps name \<noteq> JUndef \<or> (Option.bind fs f_widget = Some ''token-amount'' \<and> toggle_on name fs ps))"

definition abi_names :: "step_schema option \<Rightarrow> string set" where
  "abi_names schema = (case schema of None \<Rightarrow> {} | Some s \<Rightarrow> c_name ` set (ss_components s))"

lemma mapComponent_eq:
  "mapComponent ps (schema_properties schema) tds name raw =
     (if is_sent ps schema name
      then rbind (converted ps schema tds name) (\<lambda>r. Inr (raw(name \<mapsto> r))) else Inr raw)"
  by (auto simp: mapComponent_def is_sent_def converted_def Let_def)

lemma mapComponents_spec:
  "mapComponents ps (schema_properties schema) tds cs raw = Inr raw' \<Longrightarrow>
     raw' name = (if name \<in> c_name ` set cs \<and> is_sent ps schema name
       then (case converted ps schema tds name of Inr r \<Rightarrow> Some r | Inl e \<Rightarrow> None) else raw name)
     \<and> (name \<in> c_name ` set cs \<and> is_sent ps schema name \<longrightarrow> (\<exists>r. converted ps schema tds name = Inr r))"
proof (induction cs arbitrary: raw)
  case (Cons c cs)
  from Cons.prems obtain raw1 where
    step: "mapComponent ps (schema_properties schema) tds (c_name c) raw = Inr raw1" and
    rest: "mapComponents ps (schema_properties schema) tds cs raw1 = Inr raw'"
    by (auto simp: result_simps)
  note IH = Cons.IH [OF rest]
  show ?case
  proof (cases "name = c_name c \<and> is_sent ps schema name")
    case True
    with step obtain r where "converted ps schema tds name = Inr r" "raw1 = raw(name \<mapsto> r)"
      by (auto simp: mapComponent_eq result_simps)
    with True IH show ?thesis by (auto split: if_splits)
  next
    case False
    with step have "raw1 name = raw name" by (auto simp: mapComponent_eq result_simps split: if_splits)
    with False IH show ?thesis by auto
  qed
qed simp

text \<open>The raw parameters of a node hold a key exactly when the ABI fragment names it and the node
  sets it (or its zero toggle is on), and then hold the converted value of that field: every
  friendly-only field is stripped, and no set ABI field is lost.\<close>

theorem mapParamsToRaw_keys:
  assumes "mapParamsToRaw ps schema tds = Inr raw"
  shows "dom raw = {name \<in> abi_names schema. is_sent ps schema name} \<and>
    (\<forall>name r. raw name = Some r \<longrightarrow> converted ps schema tds name = Inr r)"
proof -
  let ?cs = "case schema of None \<Rightarrow> [] | Some s \<Rightarrow> ss_components s"
  have cs: "abi_names schema = c_name ` set ?cs" by (cases schema) (auto simp: abi_names_def)
  have run: "mapComponents ps (schema_properties schema) tds ?cs Map.empty = Inr raw"
    using assms by (simp add: mapParamsToRaw_def)
  note spec = mapComponents_spec [OF run, folded cs]
  have "dom raw = {name \<in> abi_names schema. is_sent ps schema name}"
  proof (rule set_eqI)
    fix name
    show "name \<in> dom raw \<longleftrightarrow> name \<in> {name \<in> abi_names schema. is_sent ps schema name}"
      using spec [of name] by (auto simp: dom_def split: if_splits sum.splits)
  qed
  moreover have "converted ps schema tds name = Inr r" if "raw name = Some r" for name r
    using spec [of name] that by (auto split: if_splits sum.splits)
  ultimately show ?thesis by blast
qed

definition percent_step :: step_schema where
  "percent_step = \<lparr>ss_paramSchema = Some \<lparr>ps_properties = [(''pct'', plain_field\<lparr>f_widget := Some ''percent''\<rparr>)],
     ps_required = []\<rparr>, ss_components = [\<lparr>c_name = ''pct'', c_type = ''uint256''\<rparr>]\<rparr>"

theorem mapParamsToRaw_keys_witness:
  "dom [''pct'' \<mapsto> JStr ''5''] = {name \<in> abi_names (Some percent_step).
      is_sent [''pct'' \<mapsto> JStr ''5'', ''note'' \<mapsto> JNull] (Some percent_step) name}"
proof -
  have "mapParamsToRaw [''pct'' \<mapsto> JStr ''5'', ''note'' \<mapsto> JNull] (Some percent_step) Map.empty
      = Inr [''pct'' \<mapsto> JStr ''5'']"
    by (simp add: mapParamsToRaw_def percent_step_def schema_properties_def mapComponent_def mapFieldToRaw_def
        toggle_on_def getp_def)
  from mapParamsToRaw_keys [OF this] show ?thesis by blast
qed

section \<open>From the friendly to the raw validator\<close>

lemma js_string_digits_raw:
  "validateTokenAmount field fs (JStr (show_nat n)) Raw ps tds = [] \<longleftrightarrow> n < 2 ^ 256"
proof -
  have "int n < 2 ^ 256 \<longleftrightarrow> n < 2 ^ 256" by (metis of_nat_less_iff of_nat_numeral of_nat_power)
  then show ?thesis by (simp add: raw_token_amount_Nil)
qed

lemma show_nat_inj: "show_nat m = show_nat n \<longleftrightarrow> m = n"
  by (metis dec_val_show_nat)

text \<open>A token amount that the editor accepts is converted without an error, and the backend's raw
  guard then accepts it exactly when its base units fit in 256 bits: the only amounts that pass
  the editor and fail at encoding are those too large for a \<open>uint256\<close>.\<close>

theorem accepted_amount_encodes:
  assumes dec: "decimals_for tds (sibling (f_amount_token_field fs) ps) = Some (Fin (of_nat d))"
    and friendly: "validateTokenAmount field fs v Friendly ps tds = []"
  shows "\<exists>n. mapFieldToRaw field (Some ''token-amount'') v (Some fs) ps tds = Inr (JStr (show_nat n))
     \<and> (validateTokenAmount field fs (JStr (show_nat n)) Raw ps tds = [] \<longleftrightarrow> n < 2 ^ 256)
     \<and> (isZeroToggleOn field fs ps \<longrightarrow> n = 0)
     \<and> (hasZeroToggle fs \<and> \<not> isZeroToggleOn field fs ps \<longrightarrow> 0 < n)"
proof (cases "isZeroToggleOn field fs ps")
  case True
  then show ?thesis
    by (intro exI [of _ 0]) (simp add: mapFieldToRaw_def toggle_on_def js_string_digits_raw, simp add: show_nat_0)
next
  case False
  with friendly obtain n where n: "toBaseUnits (js_string v) (Fin (of_nat d)) = Inr (show_nat n)"
    "hasZeroToggle fs \<longrightarrow> 0 < n"
    unfolding friendly_amount_Nil [OF dec False] by (auto simp: toBaseUnits_ok)
  with dec False show ?thesis
    by (intro exI [of _ n]) (simp add: mapFieldToRaw_def toggle_on_def js_string_digits_raw)
qed

definition demo_params :: params where
  "demo_params = [''token'' \<mapsto> JStr ''0xab'', ''amount'' \<mapsto> JStr ''1.5'']"

theorem accepted_amount_encodes_witness:
  "\<exists>n. mapFieldToRaw ''amount'' (Some ''token-amount'') (JStr ''1.5'') (Some usdt_field) demo_params
        [''0xab'' \<mapsto> Fin (of_nat 6)] = Inr (JStr (show_nat n)) \<and> 0 < n"
proof -
  have low: "lower ''0xab'' = ''0xab''" by code_simp
  have re: "amount_re (js_trim ''1.5'')" "\<not> zero_amount_re (js_trim ''1.5'')" "decimal_places_of (js_trim ''1.5'') = 1"
    by code_simp+
  have off: "\<not> isZeroToggleOn ''amount'' usdt_field demo_params"
    by (simp add: isZeroToggleOn_def zeroToggleField_def getp_def demo_params_def)
  have has: "hasZeroToggle usdt_field" by (simp add: hasZeroToggle_def usdt_field_def)
  have dec: "decimals_for [''0xab'' \<mapsto> Fin (of_nat 6)] (sibling (f_amount_token_field usdt_field) demo_params)
      = Some (Fin (of_nat 6))"
    by (simp add: decimals_for_def sibling_def named_field_def usdt_field_def getp_def demo_params_def low)
  have "validateTokenAmount ''amount'' usdt_field (JStr ''1.5'') Friendly demo_params [''0xab'' \<mapsto> Fin (of_nat 6)] = []"
    using re off dec by (simp add: validateTokenAmount_def isEmpty_def)
  from accepted_amount_encodes [OF dec this] off has show ?thesis by blast
qed

text \<open>Durations.\<close>

lemma friendly_duration_Nil:
  "validateDuration field fs v Friendly = [] \<longleftrightarrow>
     (\<exists>q u. as_duration v = Some (JNum (Fin q), JStr (unit_name u)) \<and> 0 < q)"
proof
  assume nil: "validateDuration field fs v Friendly = []"
  then obtain amount unit q where d: "as_duration v = Some (amount, unit)" "finite_number amount = Some q" "0 < q"
    and u: "str_of unit \<in> Some ` unit_name ` {Minutes, Hours, Days, Weeks}"
    by (auto simp: validateDuration_def Let_def split: option.splits prod.splits if_splits)
  from d(2) have "amount = JNum (Fin q)" by (cases amount rule: finite_number.cases) auto
  moreover from u obtain w where "str_of unit = Some (unit_name w)" by (auto simp del: unit_name.simps)
  then have "unit = JStr (unit_name w)" by (simp add: str_of_Some_iff)
  ultimately show "\<exists>q u. as_duration v = Some (JNum (Fin q), JStr (unit_name u)) \<and> 0 < q" using d by blast
next
  assume "\<exists>q u. as_duration v = Some (JNum (Fin q), JStr (unit_name u)) \<and> 0 < q"
  then obtain q u where "as_duration v = Some (JNum (Fin q), JStr (unit_name u))" "0 < q" by blast
  then show "validateDuration field fs v Friendly = []" by (cases u) (auto simp: validateDuration_def)
qed

lemma small_nat_num: "n < 10 ^ 21 \<Longrightarrow> num_fin (of_nat n) = Fin (of_nat n)"
proof -
  assume "n < 10 ^ 21"
  then have "(of_nat n :: rat) < 10 ^ 21" by (metis of_nat_less_iff of_nat_numeral of_nat_power)
  moreover have "(10::rat) ^ 21 < num_limit" by (simp add: num_limit_def)
  ultimately show ?thesis by (simp add: num_fin_small)
qed

lemma small_nat_string: "n < 10 ^ 21 \<Longrightarrow> num_to_string (Fin (of_nat n)) = show_nat n"
proof -
  assume "n < 10 ^ 21"
  then have "\<bar>int n\<bar> < 10 ^ 21" by (metis abs_of_nat of_nat_less_iff of_nat_numeral of_nat_power)
  from num_string_int [OF this] show ?thesis by (simp add: show_int_def)
qed

text \<open>A duration that the editor accepts is converted to its number of seconds, and when that is a
  whole number (below \<open>10 ^ 21\<close>, where numbers print without an exponent) the raw guard accepts the
  converted text.\<close>

theorem accepted_duration_encodes:
  assumes friendly: "validateDuration field fs v Friendly = []"
    and dur: "as_duration v = Some (JNum (Fin q), JStr (unit_name u))"
    and whole: "q * of_nat (unit_seconds u) = of_nat n" and small: "n < 10 ^ 21"
  shows "mapFieldToRaw field (Some ''duration'') v fs' ps tds = Inr (JStr (show_nat n))
    \<and> validateDuration field fs (JStr (show_nat n)) Raw = []"
proof -
  from friendly dur have "0 < q" by (auto simp: friendly_duration_Nil)
  with whole have "0 < (of_nat n :: rat)" by (metis mult_pos_pos of_nat_0_less_iff unit_seconds_pos)
  then have "0 < n" by simp
  with small show ?thesis
    by (simp add: mapFieldToRaw_def dur whole small_nat_num small_nat_string raw_duration_Nil)
qed

definition demo_duration :: jsval where
  "demo_duration = JObj [(''value'', JNum (Fin (3 / 2))), (''unit'', JStr ''hours'')]"

theorem accepted_duration_encodes_witness:
  "mapFieldToRaw ''interval'' (Some ''duration'') demo_duration None Map.empty Map.empty = Inr (JStr (show_nat 5400))
    \<and> validateDuration ''interval'' plain_field (JStr (show_nat 5400)) Raw = []"
proof (rule accepted_duration_encodes [where u = Hours and q = "3 / 2"])
  show dur: "as_duration demo_duration = Some (JNum (Fin (3 / 2)), JStr (unit_name Hours))"
    by (simp add: demo_duration_def)
  show "validateDuration ''interval'' plain_field demo_duration Friendly = []"
    unfolding friendly_duration_Nil dur by (intro exI [of _ "3 / 2"] exI [of _ Hours]) simp
qed simp_all

text \<open>
  The condition is needed: \<open>0.01 minutes\<close> passes the editor, is converted to the text \<open>0.6\<close>, and
  is then rejected as not a whole number of seconds.
\<close>

definition fractional_duration :: jsval where
  "fractional_duration = JObj [(''value'', JNum (Fin (1 / 100))), (''unit'', JStr ''minutes'')]"

lemma fractional_seconds_rejected:
  "validateDuration f fs fractional_duration Friendly = []"
  "mapFieldToRaw f (Some ''duration'') fractional_duration fs' ps tds = Inr (JStr ''0.6'')"
  "validateDuration f fs (JStr ''0.6'') Raw = [(f, NotWholeSeconds (fieldLabel fs f))]"
proof -
  have dur: "as_duration fractional_duration = Some (JNum (Fin (1 / 100)), JStr (unit_name Minutes))"
    by (simp add: fractional_duration_def)
  then show "validateDuration f fs fractional_duration Friendly = []"
    unfolding friendly_duration_Nil by (intro exI [of _ "1 / 100"] exI [of _ Minutes]) simp
  have out: "num_to_string (Fin (3 / 5)) = ''0.6''" by code_simp
  show "mapFieldToRaw f (Some ''duration'') fractional_duration fs' ps tds = Inr (JStr ''0.6'')"
    using dur out by (simp add: mapFieldToRaw_def num_fin_def num_limit_def del: num_to_string.simps unit_name.simps)
  have re: "amount_re (js_trim ''0.6'')" by code_simp
  have "parse_decimal (js_trim ''0.6'') = Some (3 / 5)" by code_simp
  from num_of_amount [OF re this] have "num_of_string ''0.6'' = Fin (3 / 5)"
    by (simp add: num_fin_def num_limit_def)
  moreover have "\<lfloor>3 / 5 :: rat\<rfloor> = 0" by (simp add: floor_eq_iff)
  ultimately show "validateDuration f fs (JStr ''0.6'') Raw = [(f, NotWholeSeconds (fieldLabel fs f))]"
    by (simp add: validateDuration_def Let_def)
qed

text \<open>Target health factors.\<close>

lemma target_hf_modes_agree:
  assumes hf: "named_field (f_target_hf_field fs) = Some hfField"
    and sel: "num_eq (to_number value) (Fin 3)"
    and hft: "getp ps hfField = JStr s"
    and conv: "toBaseUnits s (Fin 18) = Inr b"
    and finite: "dec_val b < 2 ^ 256"
  shows "validateAaveAmountMode fs value Friendly ps = [] \<longleftrightarrow>
     validateAaveAmountMode fs value Raw (ps(hfField \<mapsto> JStr b)) = []"
proof -
  from conv have "toBaseUnits s (Fin (of_nat 18)) = Inr b" by simp
  then obtain d n where d: "Fin (of_nat 18) = Fin (of_nat d)" and n: "amount_re (js_trim s)" "b = show_nat n"
    "parse_decimal (js_trim s) = Some (of_nat n / 10 ^ d)"
    unfolding toBaseUnits_value by blast
  from d have "d = 18" by (metis jsnum.inject of_nat_eq_iff)
  note n = n [unfolded this]
  from n(2) finite have "(of_nat n :: rat) < 2 ^ 256"
    by (metis dec_val_show_nat of_nat_less_iff of_nat_numeral of_nat_power)
  then have "(of_nat n / 10 ^ 18 :: rat) < 2 ^ 256" by simp
  also have "\<dots> < num_limit" by (simp add: num_limit_def)
  finally have "num_of_string s = Fin (of_nat n / 10 ^ 18)"
    using num_of_amount [OF n(1,3)] by (simp add: num_fin_small)
  moreover have "(of_nat n / 10 ^ 18 :: rat) \<le> 105 / 100 \<longleftrightarrow> int n \<le> 1050000000000000000"
  proof -
    have "(of_nat n / 10 ^ 18 :: rat) \<le> 105 / 100 \<longleftrightarrow> of_int (int n) \<le> (of_int 1050000000000000000 :: rat)"
      by (simp add: divide_le_eq)
    then show ?thesis unfolding of_int_le_iff .
  qed
  ultimately show ?thesis using hf sel hft n(2)
    by (simp add: validateAaveAmountMode_def Let_def getp_def MIN_TARGET_HF_def MIN_TARGET_HF_WAD_def)
qed

text \<open>The two checks of the Aave target health factor agree: the editor accepts a factor (above
  1.05) exactly when the raw guard accepts the same factor after its conversion to an 18-decimal
  integer, for every factor that converts to a 256-bit value.\<close>

theorem target_hf_boundary:
  assumes "named_field (f_target_hf_field fs) = Some hfField"
    and "num_eq (to_number value) (Fin 3)"
    and "getp ps hfField = JStr s"
    and "mapFieldToRaw hfField (Some ''health-factor'') (JStr s) fs' ps tds = Inr (JStr b)"
    and "s \<noteq> []" and "dec_val b < 2 ^ 256"
  shows "validateAaveAmountMode fs value Friendly ps = [] \<longleftrightarrow>
     validateAaveAmountMode fs value Raw (ps(hfField \<mapsto> JStr b)) = []"
proof (rule target_hf_modes_agree [OF assms(1-3) _ assms(6)])
  have "lift_amount (toBaseUnits s (Fin 18)) = Inr (JStr b)"
    using assms(4,5) by (simp add: mapFieldToRaw_def isEmpty_def)
  then show "toBaseUnits s (Fin 18) = Inr b" by (cases "toBaseUnits s (Fin 18)") auto
qed

theorem target_hf_boundary_witness:
  "\<exists>b. validateAaveAmountMode (plain_field\<lparr>f_target_hf_field := Some ''hf''\<rparr>) (JNum (Fin 3)) Friendly
         [''hf'' \<mapsto> JStr ''1.5''] = []
     \<longleftrightarrow> validateAaveAmountMode (plain_field\<lparr>f_target_hf_field := Some ''hf''\<rparr>) (JNum (Fin 3)) Raw
         [''hf'' \<mapsto> JStr b] = []"
proof -
  let ?fs = "plain_field\<lparr>f_target_hf_field := Some ''hf''\<rparr>"
  let ?ps = "[''hf'' \<mapsto> JStr ''1.5'']"
  have re: "amount_re (js_trim ''1.5'')" "length (frac_part (js_trim ''1.5'')) \<le> 18" by code_simp+
  have "whole_part (js_trim ''1.5'') = ''1''" "frac_part (js_trim ''1.5'') = ''5''" "dec_val ''15'' = 15" by code_simp+
  then have bu: "base_units (js_trim ''1.5'') 18 = 1500000000000000000" by (simp add: base_units_def)
  have "toBaseUnits ''1.5'' (Fin 18) = Inr (show_nat 1500000000000000000)"
    using toBaseUnits_ok [OF re] bu by simp
  then have map: "mapFieldToRaw ''hf'' (Some ''health-factor'') (JStr ''1.5'') None ?ps Map.empty
      = Inr (JStr (show_nat 1500000000000000000))"
    by (simp add: mapFieldToRaw_def isEmpty_def)
  have "validateAaveAmountMode ?fs (JNum (Fin 3)) Friendly ?ps = [] \<longleftrightarrow>
      validateAaveAmountMode ?fs (JNum (Fin 3)) Raw (?ps(''hf'' \<mapsto> JStr (show_nat 1500000000000000000))) = []"
    by (rule target_hf_boundary [OF _ _ _ map]) (simp_all add: named_field_def num_eq_def getp_def)
  then show ?thesis by auto
qed

section \<open>Money destinations are visible\<close>

text \<open>The annotation pass reports nothing exactly when every address component of a step whose
  name is one of recipient, to, receiver, destination (in any case) carries the recipient role:
  no such money destination can be invisible to the summary decoder and the allowlist.\<close>

theorem no_unannotated_recipient:
  "findUnannotatedRecipients steps = [] \<longleftrightarrow>
     (\<forall>st \<in> set steps. \<forall>c \<in> set (ss_components (cs_schema st)).
        c_type c = ''address'' \<and> lower (c_name c) \<in> {''recipient'', ''to'', ''receiver'', ''destination''} \<longrightarrow>
        resolveFieldRole (map_of (schema_properties (Some (cs_schema st))) (c_name c)) = Some RecipientRole)"
  by (auto simp: findUnannotatedRecipients_def filter_empty_conv is_gap_def RECIPIENT_FIELD_NAMES_def)

definition transfer_step :: catalog_step where
  "transfer_step = \<lparr>cs_name = Some ''Transfer'', cs_schema =
     \<lparr>ss_paramSchema = Some \<lparr>ps_properties = [(''to'', plain_field\<lparr>f_role := JStr ''recipient''\<rparr>)], ps_required = []\<rparr>,
      ss_components = [\<lparr>c_name = ''to'', c_type = ''address''\<rparr>]\<rparr>\<rparr>"

theorem no_unannotated_recipient_witness:
  "findUnannotatedRecipients [transfer_step] = []"
proof -
  have "resolveFieldRole (map_of (schema_properties (Some (cs_schema transfer_step))) ''to'') = Some RecipientRole"
    by (simp add: transfer_step_def schema_properties_def resolveFieldRole_def fieldRole_of_def FIELD_ROLES_def)
  then show ?thesis unfolding no_unannotated_recipient by (simp add: transfer_step_def)
qed

end
