(* ===== verification/Slots.thy ===== *)
theory Slots
  imports Prelude
begin

text \<open>
  The context-slot directory of a vault (backend, context.service.ts): a persistent JSON object
  from slot indices to slot descriptions, which names the words of the vault's on-chain context.
  \<open>allocateSlots\<close> resolves names to indices and appends the missing ones; \<open>buildExpandedContext\<close>
  computes the context array the deployment writes. The object is a list of index/description
  pairs in ascending index order, the order in which JavaScript enumerates integer keys. Lemmas:
  the directory stays well formed, allocation is stable and injective over any history of calls,
  and the expanded context never loses an on-chain word.
\<close>

section \<open>State\<close>

record slot_meta =
  sm_name :: string
  sm_type :: string
  sm_description :: string
  sm_createdBy :: string

type_synonym slots = "(nat \<times> slot_meta) list"

text \<open>The rows of the vault table, by id; a vault with no slots yet has the empty list.\<close>

type_synonym slot_db = "string \<rightharpoonup> slots"

type_synonym slot_mapping = "(string \<times> nat) list"

text \<open>The optional descriptions a caller may pass for the names it allocates.\<close>

type_synonym slot_hints = "string \<rightharpoonup> (string option \<times> string option)"

section \<open>allocateSlots\<close>

definition existingByName :: "slots \<Rightarrow> (string \<rightharpoonup> nat)" where
  "existingByName ss = fold (\<lambda>(i, m) f. f(sm_name m \<mapsto> i)) ss Map.empty"

definition nextIndex :: "slots \<Rightarrow> nat" where
  "nextIndex ss = (if ss = [] then 0 else Max (set (map fst ss)) + 1)"

definition new_meta :: "slot_hints \<Rightarrow> string \<Rightarrow> string \<Rightarrow> slot_meta" where
  "new_meta hints automationId name =
     (case hints name of
        None \<Rightarrow> \<lparr>sm_name = name, sm_type = ''uint256'', sm_description = [], sm_createdBy = automationId\<rparr>
      | Some (t, d) \<Rightarrow> \<lparr>sm_name = name, sm_type = or_else t ''uint256'', sm_description = or_else d [],
          sm_createdBy = automationId\<rparr>)"

fun allocate_names ::
  "slot_hints \<Rightarrow> string \<Rightarrow> string list \<Rightarrow> slots \<Rightarrow> (string \<rightharpoonup> nat) \<Rightarrow> nat \<Rightarrow> slot_mapping
     \<Rightarrow> slots \<times> slot_mapping" where
  "allocate_names hints aid [] ss byName next m = (ss, m)"
| "allocate_names hints aid (name # names) ss byName next m =
     (case byName name of
        Some i \<Rightarrow> allocate_names hints aid names ss byName next (alist_set name i m)
      | None \<Rightarrow> allocate_names hints aid names (ss @ [(next, new_meta hints aid name)])
          (byName(name \<mapsto> next)) (next + 1) (alist_set name next m))"

definition allocate :: "slot_hints \<Rightarrow> string \<Rightarrow> string list \<Rightarrow> slots \<Rightarrow> slots \<times> slot_mapping" where
  "allocate hints aid names ss = allocate_names hints aid names ss (existingByName ss) (nextIndex ss) []"

datatype slot_error = VaultNotFound string

definition allocateSlots ::
  "slot_db \<Rightarrow> string \<Rightarrow> string list \<Rightarrow> string \<Rightarrow> slot_hints \<Rightarrow> slot_error + slot_db \<times> slot_mapping" where
  "allocateSlots db vaultId slotNames automationId hints =
     (case db vaultId of
        None \<Rightarrow> Inl (VaultNotFound vaultId)
      | Some ss \<Rightarrow>
          (case allocate hints automationId slotNames ss of
             (ss', m) \<Rightarrow> Inr (db(vaultId \<mapsto> ss'), m)))"

section \<open>buildExpandedContext\<close>

definition indexOverrides :: "(string \<times> string) list \<Rightarrow> slot_mapping \<Rightarrow> (nat \<times> string) list" where
  "indexOverrides overrides m =
     fold (\<lambda>(name, value) acc. case map_of m name of None \<Rightarrow> acc | Some i \<Rightarrow> alist_set i value acc) overrides []"

definition maxIndex :: "string list \<Rightarrow> (nat \<times> string) list \<Rightarrow> (nat \<times> string) list \<Rightarrow> int" where
  "maxIndex currentCtx newSlots ov =
     Max (set ((int (length currentCtx) - 1) # -1 # map (int \<circ> fst) newSlots @ map (int \<circ> fst) ov))"

definition expandedWord :: "string list \<Rightarrow> (nat \<times> string) list \<Rightarrow> (nat \<times> string) list \<Rightarrow> nat \<Rightarrow> string" where
  "expandedWord currentCtx newSlots ov i =
     (case map_of ov i of
        Some v \<Rightarrow> v
      | None \<Rightarrow> if i < length currentCtx then currentCtx ! i else or_else (map_of newSlots i) ''0x'')"

definition buildExpandedContext ::
  "string list \<Rightarrow> (nat \<times> string) list \<Rightarrow> (string \<times> string) list \<Rightarrow> slot_mapping \<Rightarrow> string list" where
  "buildExpandedContext currentCtx newSlots overrides m =
     (let ov = indexOverrides overrides m; top = maxIndex currentCtx newSlots ov in
      if top < 0 then [] else map (expandedWord currentCtx newSlots ov) [0..<nat top + 1])"

section \<open>A well-formed directory\<close>

text \<open>Indices ascend, so they are distinct and new ones go to the end; names are distinct.\<close>

definition slots_ok :: "slots \<Rightarrow> bool" where
  "slots_ok ss \<longleftrightarrow> sorted_wrt (<) (map fst ss) \<and> distinct (map (sm_name \<circ> snd) ss)"

definition slot_lookup :: "slots \<Rightarrow> string \<Rightarrow> nat option" where
  "slot_lookup ss name = map_of (map (\<lambda>(i, m). (sm_name m, i)) ss) name"

lemma slots_ok_Nil [simp]: "slots_ok []"
  by (simp add: slots_ok_def)

lemma existingByName_notin: "name \<notin> (sm_name \<circ> snd) ` set ss \<Longrightarrow>
    fold (\<lambda>(i, m) f. f(sm_name m \<mapsto> i)) ss f name = f name"
  by (induction ss arbitrary: f) auto

lemma existingByName_lookup: "slots_ok ss \<Longrightarrow> existingByName ss = slot_lookup ss"
proof -
  have "distinct (map (sm_name \<circ> snd) ss) \<Longrightarrow>
      fold (\<lambda>(i, m) f. f(sm_name m \<mapsto> i)) ss f name
        = (case slot_lookup ss name of None \<Rightarrow> f name | Some i \<Rightarrow> Some i)" for name f
  proof (induction ss arbitrary: f)
    case (Cons s ss)
    obtain i m where s: "s = (i, m)" by (cases s)
    show ?case
    proof (cases "sm_name m = name")
      case True
      with Cons.prems have "name \<notin> (sm_name \<circ> snd) ` set ss" by (auto simp: s)
      from existingByName_notin [OF this, of "f(name \<mapsto> i)"] show ?thesis
        by (simp add: s slot_lookup_def True del: fun_upd_apply) simp
    next
      case False
      with Cons show ?thesis by (simp add: s slot_lookup_def)
    qed
  qed (simp add: slot_lookup_def)
  then show "slots_ok ss \<Longrightarrow> existingByName ss = slot_lookup ss"
    by (auto simp: existingByName_def slots_ok_def split: option.splits)
qed

lemma nextIndex_above: "i \<in> fst ` set ss \<Longrightarrow> i < nextIndex ss"
  by (auto simp: nextIndex_def less_Suc_eq_le)

lemma slot_lookup_None: "slot_lookup ss name = None \<longleftrightarrow> name \<notin> (sm_name \<circ> snd) ` set ss"
  by (force simp: slot_lookup_def map_of_eq_None_iff)

lemma slot_lookup_append:
  "slot_lookup (ss @ [(i, m)]) name =
     (case slot_lookup ss name of Some j \<Rightarrow> Some j | None \<Rightarrow> if sm_name m = name then Some i else None)"
  by (auto simp: slot_lookup_def map_add_def split: option.splits)

lemma new_meta_name [simp]: "sm_name (new_meta hints aid name) = name"
  by (auto simp: new_meta_def split: option.splits)

lemma slots_ok_snoc:
  assumes "slots_ok ss" and "\<forall>i \<in> fst ` set ss. i < k" and "slot_lookup ss (sm_name m) = None"
  shows "slots_ok (ss @ [(k, m)])"
  using assms by (auto simp: slots_ok_def sorted_wrt_append slot_lookup_None)

lemma slot_lookup_inj:
  assumes "slots_ok ss" "slot_lookup ss a = Some i" "slot_lookup ss b = Some i"
  shows "a = b"
proof -
  obtain ma mb where m: "(i, ma) \<in> set ss" "sm_name ma = a" "(i, mb) \<in> set ss" "sm_name mb = b"
    using assms(2,3) by (fastforce simp: slot_lookup_def dest!: map_of_SomeD)
  have "distinct (map fst ss)" using assms(1) by (auto simp: slots_ok_def strict_sorted_iff)
  with m show ?thesis by (metis eq_key_imp_eq_value)
qed

section \<open>Allocation keeps the directory well formed\<close>

text \<open>The loop invariant: the name index is the lookup function and the counter is fresh.\<close>

definition alloc_inv :: "slots \<Rightarrow> (string \<rightharpoonup> nat) \<Rightarrow> nat \<Rightarrow> bool" where
  "alloc_inv ss byName next \<longleftrightarrow> slots_ok ss \<and> byName = slot_lookup ss \<and> (\<forall>i \<in> fst ` set ss. i < next)"

lemma alloc_inv_init: "slots_ok ss \<Longrightarrow> alloc_inv ss (existingByName ss) (nextIndex ss)"
  by (simp add: alloc_inv_def existingByName_lookup nextIndex_above del: Max_less_iff)

lemma alloc_inv_new:
  assumes "alloc_inv ss byName next" and "byName name = None"
  shows "alloc_inv (ss @ [(next, new_meta hints aid name)]) (byName(name \<mapsto> next)) (next + 1)"
proof -
  have "slots_ok (ss @ [(next, new_meta hints aid name)])"
    using assms by (intro slots_ok_snoc) (auto simp: alloc_inv_def)
  moreover have "byName(name \<mapsto> next) = slot_lookup (ss @ [(next, new_meta hints aid name)])"
    using assms by (auto simp: alloc_inv_def slot_lookup_append fun_eq_iff split: option.splits)
  ultimately show ?thesis using assms by (auto simp: alloc_inv_def less_Suc_eq)
qed

text \<open>What one run of the loop does to the directory and to the mapping.\<close>

lemma allocate_names_spec:
  assumes "allocate_names hints aid names ss byName next m = (ss', m')" and "alloc_inv ss byName next"
  shows "slots_ok ss' \<and> (\<exists>new. ss' = ss @ new \<and> set (map (sm_name \<circ> snd) new) \<subseteq> set names) \<and>
    (\<forall>n. map_of m' n = (if n \<in> set names then slot_lookup ss' n else map_of m n)) \<and>
    (\<forall>n \<in> set names. slot_lookup ss' n \<noteq> None) \<and>
    (\<forall>n i. slot_lookup ss n = Some i \<longrightarrow> slot_lookup ss' n = Some i)"
  using assms
proof (induction names arbitrary: ss byName "next" m)
  case Nil
  then show ?case by (auto simp: alloc_inv_def)
next
  case (Cons name names)
  show ?case
  proof (cases "byName name")
    case (Some i)
    then have look: "slot_lookup ss name = Some i" using Cons.prems(2) by (simp add: alloc_inv_def)
    from Some Cons.prems(1) have "allocate_names hints aid names ss byName next (alist_set name i m) = (ss', m')"
      by simp
    from Cons.IH [OF this Cons.prems(2)] look show ?thesis
      by (elim conjE exE) (auto simp: map_of_alist_set)
  next
    case None
    let ?ss = "ss @ [(next, new_meta hints aid name)]"
    from None Cons.prems(2) have fresh: "slot_lookup ss name = None" by (simp add: alloc_inv_def)
    have look: "slot_lookup ?ss name = Some next" by (simp add: slot_lookup_append fresh)
    have old: "slot_lookup ss n = Some i \<Longrightarrow> slot_lookup ?ss n = Some i" for n i
      by (simp add: slot_lookup_append)
    from None Cons.prems(1) have
      "allocate_names hints aid names ?ss (byName(name \<mapsto> next)) (next + 1) (alist_set name next m) = (ss', m')"
      by simp
    from Cons.IH [OF this alloc_inv_new [OF Cons.prems(2) None]] obtain new where
      ih: "slots_ok ss'" "ss' = ?ss @ new" "set (map (sm_name \<circ> snd) new) \<subseteq> set names"
      "\<forall>n. map_of m' n = (if n \<in> set names then slot_lookup ss' n else map_of (alist_set name next m) n)"
      "\<forall>n \<in> set names. slot_lookup ss' n \<noteq> None"
      "\<forall>n i. slot_lookup ?ss n = Some i \<longrightarrow> slot_lookup ss' n = Some i" by blast
    have "slot_lookup ss' name = Some next" using ih(6) look by blast
    moreover have "ss' = ss @ (next, new_meta hints aid name) # new" using ih(2) by simp
    ultimately show ?thesis using ih(1,3,4,5) ih(6) old
      by (intro conjI exI [of _ "(next, new_meta hints aid name) # new"]) (auto simp: map_of_alist_set)
  qed
qed

lemma allocate_spec:
  assumes "allocate hints aid names ss = (ss', m)" and "slots_ok ss"
  shows "slots_ok ss'" and "\<exists>new. ss' = ss @ new \<and> set (map (sm_name \<circ> snd) new) \<subseteq> set names"
    and "\<And>n. map_of m n = (if n \<in> set names then slot_lookup ss' n else None)"
    and "\<And>n. n \<in> set names \<Longrightarrow> slot_lookup ss' n \<noteq> None"
    and "\<And>n i. slot_lookup ss n = Some i \<Longrightarrow> slot_lookup ss' n = Some i"
  using allocate_names_spec [OF assms(1) [unfolded allocate_def] alloc_inv_init [OF assms(2)]] by auto

lemma allocate_names_keys:
  "allocate_names hints aid names ss byName next m = (ss', m') \<Longrightarrow> distinct (map fst m) \<Longrightarrow>
   distinct (map fst m')"
  by (induction names arbitrary: ss byName "next" m) (auto simp: distinct_alist_set split: option.splits)

lemma allocate_distinct: "allocate hints aid names ss = (ss', m) \<Longrightarrow> distinct (map fst m)"
  unfolding allocate_def by (drule allocate_names_keys) auto

lemma allocate_names_stays:
  "set names \<subseteq> dom byName \<Longrightarrow> fst (allocate_names hints aid names ss byName next m) = ss"
  by (induction names arbitrary: m) (auto simp: dom_def)

lemma allocate_known:
  "slots_ok ss \<Longrightarrow> (\<And>n. n \<in> set names \<Longrightarrow> slot_lookup ss n \<noteq> None) \<Longrightarrow> fst (allocate hints aid names ss) = ss"
  unfolding allocate_def by (rule allocate_names_stays) (auto simp: existingByName_lookup)

section \<open>The contract of an allocator\<close>

text \<open>
  What the encoder relies on, over any history of calls: the directory stays well formed, the
  answer names exactly the requested names and gives their indices in the new directory, an index
  once given never changes, and two names never share one.
\<close>

fun run_calls :: "('r \<Rightarrow> 's \<Rightarrow> 's \<times> 'm) \<Rightarrow> 'r list \<Rightarrow> 's \<Rightarrow> 's \<times> 'm list" where
  "run_calls f [] s = (s, [])"
| "run_calls f (r # rs) s = (case f r s of (s', m) \<Rightarrow> case run_calls f rs s' of (s'', ms) \<Rightarrow> (s'', m # ms))"

locale slot_allocator =
  fixes alloc :: "'r \<Rightarrow> 's \<Rightarrow> 's \<times> (string \<times> nat) list"
    and names :: "'r \<Rightarrow> string list"
    and look :: "'s \<Rightarrow> string \<Rightarrow> nat option"
    and inv :: "'s \<Rightarrow> bool"
  assumes inv_keep: "inv s \<Longrightarrow> alloc r s = (s', m) \<Longrightarrow> inv s'"
    and answers: "inv s \<Longrightarrow> alloc r s = (s', m) \<Longrightarrow>
      map_of m n = (if n \<in> set (names r) then look s' n else None)"
    and resolves: "inv s \<Longrightarrow> alloc r s = (s', m) \<Longrightarrow> n \<in> set (names r) \<Longrightarrow> look s' n \<noteq> None"
    and stable: "inv s \<Longrightarrow> alloc r s = (s', m) \<Longrightarrow> look s n = Some i \<Longrightarrow> look s' n = Some i"
    and injective: "inv s \<Longrightarrow> look s a = Some i \<Longrightarrow> look s b = Some i \<Longrightarrow> a = b"
begin

lemma run_inv: "inv s \<Longrightarrow> run_calls alloc rs s = (s', ms) \<Longrightarrow> inv s'"
  by (induction rs arbitrary: s s' ms) (auto split: prod.splits dest: inv_keep)

lemma run_stable: "inv s \<Longrightarrow> run_calls alloc rs s = (s', ms) \<Longrightarrow> look s n = Some i \<Longrightarrow> look s' n = Some i"
  by (induction rs arbitrary: s s' ms) (auto split: prod.splits dest: inv_keep stable)

lemma run_answer:
  "inv s \<Longrightarrow> run_calls alloc rs s = (s', ms) \<Longrightarrow> m \<in> set ms \<Longrightarrow> map_of m n = Some i \<Longrightarrow> look s' n = Some i"
proof (induction rs arbitrary: s s' ms)
  case (Cons r rs)
  obtain s1 m1 ms1 where run: "alloc r s = (s1, m1)" "run_calls alloc rs s1 = (s', ms1)" "ms = m1 # ms1"
    using Cons.prems(2) by (auto split: prod.splits)
  have inv1: "inv s1" using inv_keep [OF Cons.prems(1) run(1)] .
  show ?case
  proof (cases "m \<in> set ms1")
    case True
    then show ?thesis using Cons.IH [OF inv1 run(2)] Cons.prems(4) by blast
  next
    case False
    with Cons.prems(3) run(3) have "m = m1" by simp
    with answers [OF Cons.prems(1) run(1), of n] Cons.prems(4) have "look s1 n = Some i"
      by (auto split: if_splits)
    then show ?thesis by (rule run_stable [OF inv1 run(2)])
  qed
qed simp

lemma run_consistent:
  assumes "inv s" "run_calls alloc rs s = (s', ms)" "m \<in> set ms" "m' \<in> set ms"
    and "map_of m a = Some i" "map_of m' b = Some j"
  shows "a = b \<longleftrightarrow> i = j"
  using run_answer [OF assms(1-3,5)] run_answer [OF assms(1,2,4,6)]
    injective [OF run_inv [OF assms(1,2)]] by fastforce

lemma answer_total:
  assumes "inv s" "alloc r s = (s', m)"
  shows "dom (map_of m) = set (names r)"
  using answers [OF assms] resolves [OF assms] by (auto simp: dom_def)

end

text \<open>The model of \<open>allocateSlots\<close> meets the contract; a request is its optional arguments.\<close>

interpretation slot_dir: slot_allocator "\<lambda>(hints, aid, names). allocate hints aid names"
    "\<lambda>(hints, aid, names). names" slot_lookup slots_ok
proof unfold_locales
  fix s s' m r n i a b
  let ?run = "\<lambda>r. (\<lambda>(hints, aid, names). allocate hints aid names) r s = (s', m)"
  show "slots_ok s \<Longrightarrow> ?run r \<Longrightarrow> slots_ok s'"
    by (cases r) (auto dest: allocate_spec(1))
  show "slots_ok s \<Longrightarrow> ?run r \<Longrightarrow>
      map_of m n = (if n \<in> set ((\<lambda>(hints, aid, names). names) r) then slot_lookup s' n else None)"
    by (cases r) (simp add: allocate_spec(3))
  show "slots_ok s \<Longrightarrow> ?run r \<Longrightarrow> n \<in> set ((\<lambda>(hints, aid, names). names) r) \<Longrightarrow> slot_lookup s' n \<noteq> None"
    by (cases r) (auto dest: allocate_spec(4))
  show "slots_ok s \<Longrightarrow> ?run r \<Longrightarrow> slot_lookup s n = Some i \<Longrightarrow> slot_lookup s' n = Some i"
    by (cases r) (auto dest: allocate_spec(5))
  show "slots_ok s \<Longrightarrow> slot_lookup s a = Some i \<Longrightarrow> slot_lookup s b = Some i \<Longrightarrow> a = b"
    by (rule slot_lookup_inj)
qed

text \<open>Over any history of allocation calls on a well-formed directory, whatever names, hints
  and automation ids are passed, two answers give the same index exactly when they name the same
  variable: an index is never reassigned and never shared.\<close>

theorem slot_history_consistent:
  assumes "slots_ok ss"
    and "run_calls (\<lambda>(hints, aid, names). allocate hints aid names) rs ss = (ss', ms)"
    and "m \<in> set ms" "m' \<in> set ms" "map_of m a = Some i" "map_of m' b = Some j"
  shows "a = b \<longleftrightarrow> i = j"
  using assms by (rule slot_dir.run_consistent)

definition demo_calls :: "(slot_hints \<times> string \<times> string list) list" where
  "demo_calls = [(Map.empty, ''a'', [''start'', ''count'']), (Map.empty, ''b'', [''count'', ''last''])]"

lemma slot_history_consistent_witness:
  "map_of [(''start'', 0), (''count'', 1)] ''count'' = Some (1::nat) \<and> (''count'' = ''count'' \<longleftrightarrow> (1::nat) = 1)"
proof -
  have run: "run_calls (\<lambda>(hints, aid, names). allocate hints aid names) demo_calls [] =
      ([(0, new_meta Map.empty ''a'' ''start''), (1, new_meta Map.empty ''a'' ''count''),
        (2, new_meta Map.empty ''b'' ''last'')],
       [[(''start'', 0), (''count'', 1)], [(''count'', 1), (''last'', 2)]])"
    by (simp add: demo_calls_def allocate_def existingByName_def nextIndex_def new_meta_def)
  show ?thesis
    using slot_history_consistent [OF slots_ok_Nil run, of "[(''start'', 0), (''count'', 1)]"
      "[(''count'', 1), (''last'', 2)]" "''count''" 1 "''count''" 1] by simp
qed

section \<open>A dense directory and the on-chain context\<close>

text \<open>A directory that only \<open>allocateSlots\<close> has written numbers its slots 0, 1, 2, ...\<close>

definition slots_dense :: "slots \<Rightarrow> bool" where
  "slots_dense ss \<longleftrightarrow> map fst ss = [0..<length ss] \<and> distinct (map (sm_name \<circ> snd) ss)"

lemma slots_dense_ok: "slots_dense ss \<Longrightarrow> slots_ok ss"
  by (simp add: slots_dense_def slots_ok_def)

lemma nextIndex_dense: "slots_dense ss \<Longrightarrow> nextIndex ss = length ss"
proof -
  assume "slots_dense ss"
  then have "set (map fst ss) = {0..<length ss}" by (simp add: slots_dense_def)
  moreover have "Max {0..<length ss} + 1 = length ss" if "ss \<noteq> []"
    using that by (cases "length ss") (auto intro!: Max_eqI)
  ultimately show ?thesis by (simp add: nextIndex_def)
qed

lemma allocate_names_dense:
  assumes "allocate_names hints aid names ss byName (length ss) m = (ss', m')"
    and "slots_dense ss" and "alloc_inv ss byName (length ss)"
  shows "slots_dense ss'"
  using assms
proof (induction names arbitrary: ss byName m)
  case (Cons name names)
  show ?case
  proof (cases "byName name")
    case None
    let ?ss = "ss @ [(length ss, new_meta hints aid name)]"
    have inv: "alloc_inv ?ss (byName(name \<mapsto> length ss)) (length ?ss)"
      using alloc_inv_new [OF Cons.prems(3) None] by simp
    have "slots_dense ?ss"
      using Cons.prems(2) inv by (auto simp: slots_dense_def alloc_inv_def slots_ok_def)
    moreover have "allocate_names hints aid names ?ss (byName(name \<mapsto> length ss)) (length ?ss)
        (alist_set name (length ss) m) = (ss', m')"
      using Cons.prems(1) None by simp
    ultimately show ?thesis using inv Cons.IH by blast
  qed (use Cons in auto)
qed simp

lemma allocate_dense:
  assumes "allocate hints aid names ss = (ss', m)" and "slots_dense ss"
  shows "slots_dense ss'"
  using assms alloc_inv_init [OF slots_dense_ok [OF assms(2)]]
  by (auto simp: allocate_def nextIndex_dense intro: allocate_names_dense)

section \<open>The expanded context\<close>

lemma indexOverrides_lookup:
  assumes "distinct (map fst ov)" and "\<And>a b i. map_of m a = Some i \<Longrightarrow> map_of m b = Some i \<Longrightarrow> a = b"
  shows "map_of (indexOverrides ov m) i = Some v \<longleftrightarrow> (\<exists>n. map_of ov n = Some v \<and> map_of m n = Some i)"
proof -
  let ?f = "\<lambda>(name, value) acc. case map_of m name of None \<Rightarrow> acc | Some i \<Rightarrow> alist_set i value acc"
  have "distinct (map fst ov) \<Longrightarrow> map_of (fold ?f ov acc) i = Some v \<longleftrightarrow>
      (\<exists>n. map_of ov n = Some v \<and> map_of m n = Some i) \<or>
      (map_of acc i = Some v \<and> (\<forall>n \<in> fst ` set ov. map_of m n \<noteq> Some i))" for acc
  proof (induction ov arbitrary: acc)
    case (Cons p ov)
    obtain a w where p: "p = (a, w)" by (cases p)
    have absent: "map_of ov a = None" using Cons.prems p by (simp add: map_of_eq_None_iff)
    show ?case
    proof (cases "map_of m a = Some i")
      case True
      have only: "map_of m n = Some i \<longleftrightarrow> n = a" for n using assms(2) True by blast
      have "fold ?f (p # ov) acc = fold ?f ov (alist_set i w acc)" by (simp add: p True)
      then show ?thesis using Cons.IH [of "alist_set i w acc"] Cons.prems absent
        by (simp add: p map_of_alist_set only map_of_eq_None_iff del: map_of_eq_Some_iff) (auto simp: image_iff)
    next
      case False
      have acc: "map_of (?f p acc) i = map_of acc i"
        using False by (cases "map_of m a") (auto simp: p map_of_alist_set)
      have "(\<exists>n. map_of (p # ov) n = Some v \<and> map_of m n = Some i) \<longleftrightarrow>
          (\<exists>n. map_of ov n = Some v \<and> map_of m n = Some i)"
        using False by (metis p map_of_Cons_code(2))
      moreover have "(\<forall>n \<in> fst ` set (p # ov). map_of m n \<noteq> Some i) \<longleftrightarrow> (\<forall>n \<in> fst ` set ov. map_of m n \<noteq> Some i)"
        using False by (simp add: p)
      ultimately show ?thesis using Cons.IH [of "?f p acc"] Cons.prems by (simp only: acc fold_simps) simp
    qed
  qed simp
  from this [of "[]"] assms(1) show ?thesis by (simp add: indexOverrides_def)
qed

lemma buildExpandedContext_length:
  "int (length (buildExpandedContext ctx new ov m)) = maxIndex ctx new (indexOverrides ov m) + 1"
proof -
  have "-1 \<le> maxIndex ctx new (indexOverrides ov m)" unfolding maxIndex_def by (rule Max_ge) auto
  then show ?thesis by (auto simp: buildExpandedContext_def Let_def)
qed

lemma buildExpandedContext_nth:
  "i < length (buildExpandedContext ctx new ov m) \<Longrightarrow>
   buildExpandedContext ctx new ov m ! i = expandedWord ctx new (indexOverrides ov m) i"
  by (auto simp: buildExpandedContext_def Let_def simp del: upt_Suc split: if_splits)

lemma maxIndex_ge:
  "int (length ctx) - 1 \<le> maxIndex ctx new ov"
  "i \<in> fst ` set new \<Longrightarrow> int i \<le> maxIndex ctx new ov"
  "i \<in> fst ` set ov \<Longrightarrow> int i \<le> maxIndex ctx new ov"
  unfolding maxIndex_def by (rule Max_ge; force)+

lemma maxIndex_le:
  assumes "int (length ctx) \<le> k" "0 \<le> k" "\<And>i. i \<in> fst ` set new \<Longrightarrow> int i < k"
    "\<And>i. i \<in> fst ` set ov \<Longrightarrow> int i < k"
  shows "maxIndex ctx new ov < k"
  unfolding maxIndex_def using assms by (subst Max_less_iff) auto

text \<open>The entries the encoder passes as new slots: every pair of the mapping.\<close>

definition slotEntries :: "slot_mapping \<Rightarrow> (string \<times> string) list \<Rightarrow> (nat \<times> string) list" where
  "slotEntries m overrides = map (\<lambda>(n, i). (i, or_else (map_of overrides n) ''0x'')) m"

lemma slotEntries_fst: "fst ` set (slotEntries m ov) = snd ` set m"
  by (force simp: slotEntries_def)

lemma allocate_injective:
  assumes "allocate hints aid names ss = (ss', m)" "slots_ok ss" "map_of m a = Some i" "map_of m b = Some i"
  shows "a = b"
proof (rule slot_lookup_inj [OF allocate_spec(1) [OF assms(1,2)]])
  show "slot_lookup ss' a = Some i" "slot_lookup ss' b = Some i"
    using assms(3,4) allocate_spec(3) [OF assms(1,2)] by (auto split: if_splits)
qed

text \<open>Expanding the on-chain context never shortens it and never loses a word: a word whose
  slot gets no start value stays, a start value passed for an allocated name is written to the
  slot of exactly that name.\<close>

theorem expanded_context_keeps:
  assumes "allocate hints aid names ss = (ss', m)" and "slots_ok ss" and "distinct (map fst ov)"
    and "ctx' = buildExpandedContext ctx (slotEntries m ov) ov m"
  shows "length ctx \<le> length ctx' \<and>
    (\<forall>i < length ctx. (\<forall>n v. map_of ov n = Some v \<longrightarrow> map_of m n \<noteq> Some i) \<longrightarrow> ctx' ! i = ctx ! i) \<and>
    (\<forall>n v i. map_of ov n = Some v \<and> map_of m n = Some i \<longrightarrow> i < length ctx' \<and> ctx' ! i = v)"
proof (intro conjI allI impI)
  have ovl: "map_of (indexOverrides ov m) i = Some v \<longleftrightarrow> (\<exists>n. map_of ov n = Some v \<and> map_of m n = Some i)" for i v
    by (rule indexOverrides_lookup [OF assms(3)]) (rule allocate_injective [OF assms(1,2)])
  have len: "int (length ctx') = maxIndex ctx (slotEntries m ov) (indexOverrides ov m) + 1"
    by (simp add: assms(4) buildExpandedContext_length)
  show le: "length ctx \<le> length ctx'" using len maxIndex_ge(1) [of ctx] by (smt (verit) of_nat_le_iff)
  show "ctx' ! i = ctx ! i"
    if "i < length ctx" "\<forall>n v. map_of ov n = Some v \<longrightarrow> map_of m n \<noteq> Some i" for i
  proof -
    have "map_of (indexOverrides ov m) i = None" using ovl [of i] that(2)
      by (cases "map_of (indexOverrides ov m) i") auto
    then show ?thesis using that(1) le assms(4) by (simp add: buildExpandedContext_nth expandedWord_def)
  qed
  fix n v i assume a: "map_of ov n = Some v \<and> map_of m n = Some i"
  then have set: "map_of (indexOverrides ov m) i = Some v" using ovl by blast
  then have "i \<in> fst ` set (indexOverrides ov m)" by (force dest: map_of_SomeD)
  from maxIndex_ge(3) [OF this] show lt: "i < length ctx'" using len by (smt (verit) of_nat_less_iff)
  show "ctx' ! i = v" using lt set by (simp add: assms(4) buildExpandedContext_nth expandedWord_def)
qed

text \<open>If the on-chain context and the directory have the same length, they have the same
  length again after a deployment writes the expanded context, whatever it allocated and
  overrode.\<close>

theorem deployment_keeps_sync:
  assumes "allocate hints aid names ss = (ss', m)" and "slots_dense ss" and "distinct (map fst ov)"
    and "length ctx = length ss"
  shows "length (buildExpandedContext ctx (slotEntries m ov) ov m) = length ss'"
proof -
  note ok = slots_dense_ok [OF assms(2)]
  note dense' = allocate_dense [OF assms(1,2)]
  have ovl: "map_of (indexOverrides ov m) i = Some v \<longleftrightarrow> (\<exists>n. map_of ov n = Some v \<and> map_of m n = Some i)" for i v
    by (rule indexOverrides_lookup [OF assms(3)]) (rule allocate_injective [OF assms(1) ok])
  obtain new where new: "ss' = ss @ new" "set (map (sm_name \<circ> snd) new) \<subseteq> set names"
    using allocate_spec(2) [OF assms(1) ok] by blast
  have inside: "i < length ss'" if "map_of m n = Some i" for n i
  proof -
    have "slot_lookup ss' n = Some i" using that allocate_spec(3) [OF assms(1) ok] by (auto split: if_splits)
    then have "i \<in> set (map fst ss')" by (force simp: slot_lookup_def dest!: map_of_SomeD)
    moreover have "map fst ss' = [0..<length ss']" using dense' by (simp add: slots_dense_def)
    ultimately have "i \<in> set [0..<length ss']" by (simp only:)
    then show ?thesis by simp
  qed
  have pairs: "map_of m n = Some i" if "(n, i) \<in> set m" for n i
    using that allocate_distinct [OF assms(1)] by simp
  have "maxIndex ctx (slotEntries m ov) (indexOverrides ov m) < int (length ss')"
  proof (rule maxIndex_le)
    show "int i < int (length ss')" if "i \<in> fst ` set (slotEntries m ov)" for i
      using that inside [OF pairs] by (auto simp: slotEntries_fst)
    show "int i < int (length ss')" if idx: "i \<in> fst ` set (indexOverrides ov m)" for i
    proof -
      obtain v where "map_of (indexOverrides ov m) i = Some v"
        using idx by (cases "map_of (indexOverrides ov m) i") (auto simp: map_of_eq_None_iff)
      then obtain n where "map_of m n = Some i" using ovl by blast
      then show ?thesis using inside by simp
    qed
  qed (simp_all add: new(1) assms(4))
  moreover have "int (length ss') - 1 \<le> maxIndex ctx (slotEntries m ov) (indexOverrides ov m)"
  proof (cases "new = []")
    case True
    then show ?thesis using maxIndex_ge(1) [of ctx] assms(4) new(1) by simp
  next
    case False
    then have l: "last ss' \<in> set new" "last ss' \<in> set ss'" "ss' \<noteq> []" by (auto simp: new(1))
    have "fst (last ss') = last [0..<length ss']"
      using last_map [OF l(3), of fst] dense' by (simp add: slots_dense_def)
    then have top: "fst (last ss') = length ss' - 1" using l(3) by simp
    then have "sm_name (snd (last ss')) \<in> set names" using new(2) l(1) by auto
    moreover have "slot_lookup ss' (sm_name (snd (last ss'))) = Some (fst (last ss'))"
      using l(2) dense' unfolding slot_lookup_def slots_dense_def
      by (intro map_of_is_SomeI) (auto simp: comp_def case_prod_beta image_iff)
    ultimately have "map_of m (sm_name (snd (last ss'))) = Some (fst (last ss'))"
      using allocate_spec(3) [OF assms(1) ok] by simp
    then have "fst (last ss') \<in> fst ` set (slotEntries m ov)"
      by (force simp: slotEntries_fst dest: map_of_SomeD)
    from maxIndex_ge(2) [OF this, of ctx "indexOverrides ov m"] show ?thesis
      unfolding top by linarith
  qed
  ultimately show ?thesis using buildExpandedContext_length [of ctx "slotEntries m ov" ov m] by linarith
qed

definition demo_slots :: slots where
  "demo_slots = [(0, new_meta Map.empty ''a'' ''start''), (1, new_meta Map.empty ''a'' ''count'')]"

lemma demo_dense: "slots_dense demo_slots"
  by (simp add: slots_dense_def demo_slots_def)

lemma demo_allocate:
  "allocate Map.empty ''b'' [''count'', ''last''] demo_slots =
     (demo_slots @ [(2, new_meta Map.empty ''b'' ''last'')], [(''count'', 1), (''last'', 2)])"
  by (simp add: allocate_def demo_slots_def existingByName_def nextIndex_def)

lemma expanded_context_keeps_witness:
  "buildExpandedContext [''0x01'', ''0x02''] (slotEntries [(''count'', 1), (''last'', 2)] [(''last'', ''0x09'')])
      [(''last'', ''0x09'')] [(''count'', 1), (''last'', 2)] ! 2 = ''0x09''"
proof -
  have "distinct (map fst [(''last'', ''0x09'')])" by simp
  from expanded_context_keeps [OF demo_allocate slots_dense_ok [OF demo_dense] this refl, of "[''0x01'', ''0x02'']"]
  have "map_of [(''last'', ''0x09'')] n = Some v \<and> map_of [(''count'', 1), (''last'', 2)] n = Some i \<Longrightarrow>
      buildExpandedContext [''0x01'', ''0x02''] (slotEntries [(''count'', 1), (''last'', 2)] [(''last'', ''0x09'')])
      [(''last'', ''0x09'')] [(''count'', 1), (''last'', 2)] ! i = v" for n v i
    by blast
  from this [of "''last''" "''0x09''" 2] show ?thesis by simp
qed

lemma deployment_keeps_sync_witness:
  "length (buildExpandedContext [''0x01'', ''0x02''] (slotEntries [(''count'', 1), (''last'', 2)] [])
      [] [(''count'', 1), (''last'', 2)]) = 3"
  using deployment_keeps_sync [OF demo_allocate demo_dense, of "[]" "[''0x01'', ''0x02'']"]
  by (simp add: demo_slots_def)

section \<open>getContextSlots\<close>

text \<open>The view the API returns; a failed chain read counts as an empty context.\<close>

record context_view =
  cv_slots :: "(nat \<times> slot_meta \<times> string) list"
  cv_contextLength :: nat
  cv_dbSlotCount :: nat
  cv_syncWarning :: bool

definition context_view_of :: "slots \<Rightarrow> string list option \<Rightarrow> context_view" where
  "context_view_of ss chain =
     (let ctx = or_else chain [] in
      \<lparr>cv_slots = map (\<lambda>(i, m). (i, m, if i < length ctx then ctx ! i else ''0x'')) ss,
       cv_contextLength = length ctx, cv_dbSlotCount = length ss,
       cv_syncWarning = (length ss \<noteq> length ctx)\<rparr>)"

definition getContextSlots :: "slot_db \<Rightarrow> string \<Rightarrow> string list option \<Rightarrow> slot_error + context_view" where
  "getContextSlots db vaultAddress chain =
     (case db vaultAddress of
        None \<Rightarrow> Inl (VaultNotFound vaultAddress)
      | Some ss \<Rightarrow> Inr (context_view_of ss chain))"

text \<open>On a directory written by allocation, an unset synchronisation warning means that the
  values shown are the on-chain words, each at its own index, and that none is missing.\<close>

theorem unwarned_view_is_chain:
  assumes "db vault = Some ss" and "slots_dense ss" and "getContextSlots db vault (Some ctx) = Inr v"
    and "\<not> cv_syncWarning v"
  shows "map (snd \<circ> snd) (cv_slots v) = ctx \<and> map fst (cv_slots v) = [0..<length ctx]"
proof -
  have len: "length ss = length ctx" and v: "v = context_view_of ss (Some ctx)"
    using assms by (auto simp: getContextSlots_def context_view_of_def Let_def)
  have fst: "map fst ss = [0..<length ctx]" using assms(2) len by (simp add: slots_dense_def)
  then have nth: "fst (ss ! i) = i" if "i < length ctx" for i
    using that len by (metis add_0 diff_zero length_upt nth_map nth_upt)
  have "map (\<lambda>x. if fst x < length ctx then ctx ! fst x else ''0x'') ss = ctx"
    by (intro list_eq_iff_nth_eq [THEN iffD2] conjI allI impI) (simp_all add: len nth case_prod_beta)
  with fst show ?thesis by (simp add: v context_view_of_def Let_def comp_def case_prod_beta)
qed

lemma unwarned_view_is_chain_witness:
  "\<exists>v. getContextSlots [''v'' \<mapsto> demo_slots] ''v'' (Some [''0x01'', ''0x02'']) = Inr v \<and>
     map (snd \<circ> snd) (cv_slots v) = [''0x01'', ''0x02'']"
  using unwarned_view_is_chain [of "[''v'' \<mapsto> demo_slots]" "''v''", OF _ demo_dense, of "[''0x01'', ''0x02'']"]
  by (simp add: getContextSlots_def context_view_of_def demo_slots_def)

text \<open>\<open>allocateSlots\<close> fails exactly when the vault has no row; otherwise it replaces that row
  only, keeps every slot the row had as a prefix, and a second call for the same names changes
  nothing and gives the same answer.\<close>

theorem allocateSlots_persistent:
  assumes "allocateSlots db vault names aid hints = Inr (db', m)" and "\<And>ss. db vault = Some ss \<Longrightarrow> slots_ok ss"
  shows "(\<forall>w. w \<noteq> vault \<longrightarrow> db' w = db w) \<and>
    (\<exists>ss new. db vault = Some ss \<and> db' vault = Some (ss @ new)) \<and>
    (\<exists>m2. allocateSlots db' vault names aid2 hints2 = Inr (db', m2) \<and> map_of m2 = map_of m)"
proof -
  obtain ss ss' where row: "db vault = Some ss" and run: "allocate hints aid names ss = (ss', m)"
    and db': "db' = db(vault \<mapsto> ss')"
    using assms(1) by (auto simp: allocateSlots_def split: option.splits prod.splits)
  note spec = allocate_spec [OF run assms(2) [OF row]]
  obtain new where new: "ss' = ss @ new" using spec(2) by blast
  obtain ss2 m2 where run2: "allocate hints2 aid2 names ss' = (ss2, m2)" by fastforce
  have "ss2 = ss'" using allocate_known [OF spec(1) spec(4), of names hints2 aid2] run2 by simp
  moreover have "map_of m2 = map_of m"
    using allocate_spec(3) [OF run2 spec(1)] spec(3) calculation by (auto simp: fun_eq_iff)
  ultimately show ?thesis using run2 row new by (auto simp: db' allocateSlots_def)
qed

lemma allocateSlots_persistent_witness:
  "\<exists>db' m. allocateSlots [''v'' \<mapsto> demo_slots] ''v'' [''last''] ''b'' Map.empty = Inr (db', m) \<and>
     (\<exists>ss new. [''v'' \<mapsto> demo_slots] ''v'' = Some ss \<and> db' ''v'' = Some (ss @ new))"
proof -
  obtain db' m where run: "allocateSlots [''v'' \<mapsto> demo_slots] ''v'' [''last''] ''b'' Map.empty = Inr (db', m)"
    by (cases "allocate Map.empty ''b'' [''last''] demo_slots") (simp add: allocateSlots_def)
  have "slots_ok ss" if "[''v'' \<mapsto> demo_slots] ''v'' = Some ss" for ss
    using that slots_dense_ok [OF demo_dense] by simp
  from allocateSlots_persistent [OF run this] run show ?thesis by blast
qed

end
