(* ===== verification/Vault.thy ===== *)
theory Vault
  imports Prelude
begin

text \<open>
  The consumer of the encoded programs: the step format, the creation check \<open>_validateSteps\<close> and
  the interpreter loop of \<open>executeAutomation\<close> of StrategyBuilderVault.sol. Calls to the step
  contracts are parameters (a condition answers or reverts, an action yields the next context or
  reverts). It is the specification against which the TypeScript encoder is proved. Lemmas: a
  program that passes the check never leaves its step array and ends within the step budget.
\<close>

section \<open>Steps\<close>

record encoded_step =
  s_stepType :: nat
  s_target :: string
  s_selector :: string
  s_nextOnTrue :: nat
  s_nextOnFalse :: nat
  s_data :: string

definition DONE :: nat where
  "DONE = 0xffffffff"

definition MAX_STEPS :: nat where
  "MAX_STEPS = 256"

definition STEP_TYPE_CONDITION :: nat where
  "STEP_TYPE_CONDITION = 0"

definition STEP_TYPE_ACTION :: nat where
  "STEP_TYPE_ACTION = 1"

text \<open>What a step contract is called with.\<close>

type_synonym call_data = "string \<times> string \<times> string"

definition step_call :: "encoded_step \<Rightarrow> call_data" where
  "step_call s = (s_target s, s_selector s, s_data s)"

section \<open>The creation check\<close>

text \<open>Errors name the step they concern: by index here, by node where a graph is walked.\<close>

datatype 'i vault_error =
    NoSteps
  | FirstStepMustBeCondition
  | ZeroTargetAddress 'i
  | ZeroSelector 'i
  | InvalidStepReference 'i
  | MaxStepsExceeded
  | TriggerNotMet
  | CallReverted 'i
  | IndexOutOfBounds 'i

definition zero_target :: string where
  "zero_target = ''0x0000000000000000000000000000000000000000''"

definition zero_selector :: string where
  "zero_selector = ''0x00000000''"

definition check_step :: "nat \<Rightarrow> nat \<Rightarrow> encoded_step \<Rightarrow> nat vault_error option" where
  "check_step len i s =
     (if s_target s = zero_target then Some (ZeroTargetAddress i)
      else if s_selector s = zero_selector then Some (ZeroSelector i)
      else if s_nextOnTrue s \<noteq> DONE \<and> len \<le> s_nextOnTrue s then Some (InvalidStepReference i)
      else if s_stepType s = STEP_TYPE_CONDITION then
        (if s_nextOnFalse s \<noteq> DONE \<and> len \<le> s_nextOnFalse s then Some (InvalidStepReference i) else None)
      else if s_nextOnFalse s \<noteq> DONE then Some (InvalidStepReference i)
      else None)"

fun check_steps :: "nat \<Rightarrow> nat \<Rightarrow> encoded_step list \<Rightarrow> nat vault_error option" where
  "check_steps len i [] = None"
| "check_steps len i (s # ss) = (case check_step len i s of Some e \<Rightarrow> Some e | None \<Rightarrow> check_steps len (i + 1) ss)"

definition validateSteps :: "encoded_step list \<Rightarrow> bool \<Rightarrow> nat vault_error option" where
  "validateSteps steps ownerOnly =
     (if steps = [] then Some NoSteps
      else if \<not> ownerOnly \<and> s_stepType (hd steps) \<noteq> STEP_TYPE_CONDITION then Some FirstStepMustBeCondition
      else check_steps (length steps) 0 steps)"

definition refs_ok :: "nat \<Rightarrow> encoded_step \<Rightarrow> bool" where
  "refs_ok len s \<longleftrightarrow> (s_nextOnTrue s = DONE \<or> s_nextOnTrue s < len) \<and>
     (s_nextOnFalse s = DONE \<or> s_stepType s = STEP_TYPE_CONDITION \<and> s_nextOnFalse s < len)"

lemma check_step_None:
  "check_step len i s = None \<longleftrightarrow> s_target s \<noteq> zero_target \<and> s_selector s \<noteq> zero_selector \<and> refs_ok len s"
  by (auto simp: check_step_def refs_ok_def)

lemma check_steps_None: "check_steps len i ss = None \<longleftrightarrow> (\<forall>s \<in> set ss. check_step len 0 s = None)"
proof (induction ss arbitrary: i)
  case (Cons s ss)
  have "check_step len i s = None \<longleftrightarrow> check_step len 0 s = None" by (simp add: check_step_None)
  then show ?case using Cons by (cases "check_step len i s") auto
qed simp

lemma validateSteps_None:
  "validateSteps steps ownerOnly = None \<longleftrightarrow>
     steps \<noteq> [] \<and> (ownerOnly \<or> s_stepType (hd steps) = STEP_TYPE_CONDITION) \<and>
     (\<forall>s \<in> set steps. s_target s \<noteq> zero_target \<and> s_selector s \<noteq> zero_selector \<and> refs_ok (length steps) s)"
  by (simp add: validateSteps_def check_steps_None check_step_None)

section \<open>The interpreter\<close>

text \<open>
  \<open>cond\<close> and \<open>act\<close> stand for the step contracts. The budget is \<open>MAX_STEPS - stepCount\<close>; the loop
  test comes before the budget test. The result is the final context and \<open>triggerFired\<close>.
\<close>

fun run_steps ::
  "('c \<Rightarrow> call_data \<Rightarrow> bool option) \<Rightarrow> ('c \<Rightarrow> call_data \<Rightarrow> 'c option) \<Rightarrow> bool \<Rightarrow> encoded_step list
     \<Rightarrow> nat \<Rightarrow> nat \<Rightarrow> 'c \<Rightarrow> bool \<Rightarrow> nat vault_error + 'c \<times> bool" where
  "run_steps cond act owner steps 0 current ctx fired =
     (if current = DONE then Inr (ctx, fired) else Inl MaxStepsExceeded)"
| "run_steps cond act owner steps (Suc budget) current ctx fired =
     (if current = DONE then Inr (ctx, fired)
      else if length steps \<le> current then Inl (IndexOutOfBounds current)
      else let s = steps ! current in
        if s_stepType s = STEP_TYPE_CONDITION then
          (case cond ctx (step_call s) of
             None \<Rightarrow> Inl (CallReverted current)
           | Some met \<Rightarrow>
               let trigger = (current = 0 \<and> Suc budget = MAX_STEPS) in
               if trigger \<and> \<not> met \<and> \<not> owner then Inl TriggerNotMet
               else run_steps cond act owner steps budget
                 (if met then s_nextOnTrue s else s_nextOnFalse s) ctx (if trigger then met else fired))
        else
          (case act ctx (step_call s) of
             None \<Rightarrow> Inl (CallReverted current)
           | Some ctx' \<Rightarrow> run_steps cond act owner steps budget (s_nextOnTrue s) ctx' fired))"

definition execute ::
  "('c \<Rightarrow> call_data \<Rightarrow> bool option) \<Rightarrow> ('c \<Rightarrow> call_data \<Rightarrow> 'c option) \<Rightarrow> bool \<Rightarrow> bool \<Rightarrow> encoded_step list
     \<Rightarrow> 'c \<Rightarrow> nat vault_error + 'c \<times> bool" where
  "execute cond act owner ownerOnly steps ctx =
     run_steps cond act owner steps MAX_STEPS 0 ctx (ownerOnly \<and> s_stepType (hd steps) = STEP_TYPE_ACTION)"

lemma run_steps_in_bounds:
  "(\<forall>s \<in> set steps. refs_ok (length steps) s) \<Longrightarrow> current = DONE \<or> current < length steps \<Longrightarrow>
   run_steps cond act owner steps budget current ctx fired \<noteq> Inl (IndexOutOfBounds i)"
proof (induction budget arbitrary: current ctx fired)
  case (Suc budget)
  show ?case
  proof (cases "current = DONE")
    case False
    then have lt: "current < length steps" using Suc.prems by simp
    let ?s = "steps ! current"
    have "refs_ok (length steps) ?s" using lt Suc.prems by simp
    then have refs: "s_nextOnTrue ?s = DONE \<or> s_nextOnTrue ?s < length steps"
      "s_nextOnFalse ?s = DONE \<or> s_nextOnFalse ?s < length steps" by (auto simp: refs_ok_def)
    note ih = Suc.IH [OF Suc.prems(1)]
    show ?thesis
    proof (cases "s_stepType ?s = STEP_TYPE_CONDITION")
      case True
      then show ?thesis using False lt refs
        by (cases "cond ctx (step_call ?s)") (simp_all add: Let_def ih)
    next
      case no: False
      then show ?thesis using False lt refs
        by (cases "act ctx (step_call ?s)") (simp_all add: Let_def ih)
    qed
  qed simp
qed simp

text \<open>A program that passes the vault's creation check never addresses a step outside its
  array, whoever executes it and whatever the step contracts answer.\<close>

theorem validated_program_in_bounds:
  assumes "validateSteps steps ownerOnly = None"
  shows "execute cond act owner ownerOnly steps ctx \<noteq> Inl (IndexOutOfBounds i)"
  unfolding execute_def
  by (rule run_steps_in_bounds) (use assms in \<open>auto simp: validateSteps_None\<close>)

definition demo_program :: "encoded_step list" where
  "demo_program =
     [\<lparr>s_stepType = 0, s_target = ''0x1'', s_selector = ''0x2'', s_nextOnTrue = 1, s_nextOnFalse = DONE, s_data = []\<rparr>,
      \<lparr>s_stepType = 1, s_target = ''0x1'', s_selector = ''0x3'', s_nextOnTrue = 0, s_nextOnFalse = DONE, s_data = []\<rparr>]"

lemma demo_program_valid: "validateSteps demo_program False = None"
  by (simp add: validateSteps_def demo_program_def check_step_def zero_target_def zero_selector_def
      STEP_TYPE_CONDITION_def)

lemma validated_program_in_bounds_witness:
  "execute (\<lambda>c d. Some (c < (3::nat))) (\<lambda>c d. Some (c + 1)) False False demo_program 0 \<noteq> Inl (IndexOutOfBounds 2)"
  by (rule validated_program_in_bounds [OF demo_program_valid])

end
