(* ===== verification/Encoding.thy ===== *)
theory Encoding
  imports Boundary Slots Vault
begin

text \<open>
  The backend encoder (encoding.service.ts): it turns a raw graph into the step program and the
  context write of a deployment. ethers' ABI coder and the RPC read are parameters: \<open>encode_lib\<close>
  holds the coder's functions (\<open>None\<close> when it throws) and \<open>chain\<close> the context words read, or
  \<open>None\<close> when the read fails. The slot table is threaded through, because allocation persists
  even when a later check throws. Lemmas: the encoded program passes the vault's creation check
  and running it is walking the graph; variables resolve to their directory index; the context
  write and its change list are consistent.
\<close>

section \<open>Inputs, results and errors\<close>

record step_row =
  st_id :: string
  st_contractAddress :: string
  st_selector :: string
  st_components :: "abi_component list"
  st_paramSchema :: "param_schema option"

record encode_lib =
  lib_abi :: "string list \<Rightarrow> jsval list \<Rightarrow> string option"
  lib_create :: "string \<Rightarrow> encoded_step list \<Rightarrow> string option"
  lib_update :: "nat \<Rightarrow> encoded_step list \<Rightarrow> string option"
  lib_context :: "string list \<Rightarrow> string option"
  lib_toggle :: "nat \<Rightarrow> bool \<Rightarrow> string"
  lib_execute :: "nat \<Rightarrow> string"

datatype encode_error =
    NoNodes
  | TooManySteps
  | InvalidParams "(string \<times> param_error) list"
  | SlotsFailed slot_error
  | NoStartNode
  | NodeMissing string
  | UnknownStepType string
  | UnknownVariable string string
  | CoderFailed

record context_change =
  cc_slotIndex :: nat
  cc_slotName :: string
  cc_isNew :: bool
  cc_currentValue :: "string option"
  cc_newValue :: string

record encode_result =
  r_automationCalldata :: string
  r_contextCalldata :: "string option"
  r_functionName :: string
  r_steps :: "encoded_step list"
  r_ownerOnly :: bool
  r_stepCount :: nat
  r_requiresContextTx :: bool
  r_contextChanges :: "context_change list"

section \<open>The checks before encoding\<close>

definition validateServerSide :: "raw_graph \<Rightarrow> encode_error option" where
  "validateServerSide g =
     (if length (g_nodes g) = 0 then Some NoNodes
      else if 256 < length (g_nodes g) then Some TooManySteps else None)"

definition stepTypeMap :: "step_row list \<Rightarrow> (string \<rightharpoonup> step_row)" where
  "stepTypeMap rows = by_key st_id rows"

definition nodeMap :: "raw_graph \<Rightarrow> (string \<rightharpoonup> raw_node)" where
  "nodeMap g = by_key n_id (g_nodes g)"

definition row_schema :: "(string \<rightharpoonup> step_row) \<Rightarrow> raw_node \<Rightarrow> param_schema option" where
  "row_schema stm n = Option.bind (stm (n_stepTypeId n)) st_paramSchema"

definition raw_options :: validate_options where
  "raw_options = \<lparr>opt_mode = Raw, opt_decimals = Map.empty\<rparr>"

definition node_violations :: "(string \<rightharpoonup> step_row) \<Rightarrow> raw_node \<Rightarrow> (string \<times> param_error) list" where
  "node_violations stm n =
     (case row_schema stm n of None \<Rightarrow> []
      | Some schema \<Rightarrow> map (Pair (n_id n)) (validateParams schema (n_params n) raw_options))"

definition validateRawParams :: "raw_graph \<Rightarrow> (string \<rightharpoonup> step_row) \<Rightarrow> encode_error option" where
  "validateRawParams g stm =
     (let violations = concat (map (node_violations stm) (g_nodes g)) in
      if 0 < length violations then Some (InvalidParams violations) else None)"

section \<open>Start node and order\<close>

definition node_ids :: "raw_graph \<Rightarrow> string list" where
  "node_ids g = map n_id (g_nodes g)"

definition startNodes :: "raw_graph \<Rightarrow> raw_node list" where
  "startNodes g = filter (\<lambda>n. is_start (node_ids g) (g_edges g) (n_id n)) (g_nodes g)"

definition inferOwnerOnly :: "raw_graph \<Rightarrow> bool" where
  "inferOwnerOnly g \<longleftrightarrow> length (startNodes g) = 1 \<and> n_type (hd (startNodes g)) = ''ACTION''"

definition startNode :: "raw_graph \<Rightarrow> raw_node option" where
  "startNode g = find (\<lambda>n. is_start (node_ids g) (g_edges g) (n_id n)) (g_nodes g)"

definition bfs :: "raw_graph \<Rightarrow> encode_error + string list" where
  "bfs g = (case startNode g of None \<Rightarrow> Inl NoStartNode | Some n \<Rightarrow> Inr (bfs_order (g_edges g) (n_id n)))"

definition indexMap :: "string list \<Rightarrow> (string \<rightharpoonup> nat)" where
  "indexMap order = fold (\<lambda>(i, x) m. m(x \<mapsto> i)) (List.enumerate 0 order) Map.empty"

section \<open>Context variables\<close>

text \<open>A string that is a variable name: not empty, not a hex literal, not a number.\<close>

definition is_variable :: "jsval \<Rightarrow> string option" where
  "is_variable v =
     (case str_of v of None \<Rightarrow> None
      | Some s \<Rightarrow> if s \<noteq> [] \<and> \<not> starts_with ''0x'' s \<and> to_number v = NaN then Some s else None)"

definition slot_name_of_field :: "raw_node \<Rightarrow> string \<times> field_schema \<Rightarrow> string list \<Rightarrow> string list" where
  "slot_name_of_field n entry names =
     (case entry of (field, fs) \<Rightarrow>
        if \<not> widget_is fs ''context-slot'' then names
        else case is_variable (getp (n_params n) field) of
          None \<Rightarrow> names
        | Some s \<Rightarrow> if s \<in> set names then names else names @ [s])"

definition slot_names_of_node :: "(string \<rightharpoonup> step_row) \<Rightarrow> raw_node \<Rightarrow> string list \<Rightarrow> string list" where
  "slot_names_of_node stm n names =
     fold (slot_name_of_field n) (case row_schema stm n of None \<Rightarrow> [] | Some ps \<Rightarrow> ps_properties ps) names"

definition extractSlotNames :: "raw_graph \<Rightarrow> (string \<rightharpoonup> step_row) \<Rightarrow> string list" where
  "extractSlotNames g stm = fold (slot_names_of_node stm) (g_nodes g) []"

section \<open>Parameter encoding\<close>

definition schema_default :: "param_schema option \<Rightarrow> string \<Rightarrow> jsval" where
  "schema_default ps name =
     (case ps of None \<Rightarrow> JUndef
      | Some s \<Rightarrow> (case map_of (ps_properties s) name of None \<Rightarrow> JUndef | Some fs \<Rightarrow> f_default fs))"

definition resolve_slot :: "slot_mapping \<Rightarrow> string \<Rightarrow> jsval \<Rightarrow> jsval" where
  "resolve_slot m type v =
     (case str_of v of None \<Rightarrow> v
      | Some s \<Rightarrow> (case map_of m s of None \<Rightarrow> v
          | Some i \<Rightarrow> if type = ''uint32'' then JNum (Fin (of_nat i)) else v))"

definition convert_value :: "abi_component \<Rightarrow> jsval \<Rightarrow> encode_error + jsval" where
  "convert_value c v =
     (if c_type c = ''uint32'' then
        (case v of
           JNum n \<Rightarrow> Inr v
         | _ \<Rightarrow> (let n = parse_int10 (js_string v) in
             if n = NaN then Inl (UnknownVariable (js_string v) (c_name c)) else Inr (JNum n)))
      else if c_type c = ''bool'' then
        (case str_of v of Some s \<Rightarrow> Inr (JBool (s = ''true'')) | None \<Rightarrow> Inr v)
      else Inr v)"

definition encodeValue ::
  "params \<Rightarrow> slot_mapping \<Rightarrow> param_schema option \<Rightarrow> abi_component \<Rightarrow> encode_error + jsval" where
  "encodeValue ps m schema c =
     (let v = resolve_slot m (c_type c) (getp ps (c_name c)) in
      if isEmpty v then
        (let d = schema_default schema (c_name c) in
         if d \<noteq> JUndef then convert_value c d
         else if c_type c = ''address'' then Inr (JStr zero_target)
         else if c_type c = ''uint256'' then Inr (JStr ''0'')
         else if c_type c = ''uint32'' then Inr (JNum (Fin 0))
         else if c_type c = ''bool'' then Inr (JBool False)
         else convert_value c v)
      else convert_value c v)"

definition encodeParams ::
  "encode_lib \<Rightarrow> params \<Rightarrow> abi_component list \<Rightarrow> slot_mapping \<Rightarrow> param_schema option \<Rightarrow> encode_error + string" where
  "encodeParams lib ps comps m schema =
     rbind (rmapM (encodeValue ps m schema) comps)
       (\<lambda>values. case lib_abi lib (map c_type comps) values of None \<Rightarrow> Inl CoderFailed | Some d \<Rightarrow> Inr d)"

section \<open>Steps\<close>

definition jump :: "(string \<rightharpoonup> nat) \<Rightarrow> gedge list \<Rightarrow> string \<Rightarrow> nat" where
  "jump idx outs handle =
     (case find (\<lambda>e. e_handle e = handle) outs of
        None \<Rightarrow> DONE
      | Some e \<Rightarrow> or_else (idx (e_target e)) DONE)"

definition compileStep ::
  "encode_lib \<Rightarrow> (string \<rightharpoonup> step_row) \<Rightarrow> slot_mapping \<Rightarrow> raw_graph \<Rightarrow> (string \<rightharpoonup> nat) \<Rightarrow> string
     \<Rightarrow> encode_error + encoded_step" where
  "compileStep lib stm m g idx x =
     (case nodeMap g x of
        None \<Rightarrow> Inl (NodeMissing x)
      | Some n \<Rightarrow>
          (case stm (n_stepTypeId n) of
             None \<Rightarrow> Inl (UnknownStepType (n_stepTypeId n))
           | Some row \<Rightarrow>
               let outs = out_edges (g_edges g) x;
                   condition = (n_type n = ''CONDITION'') in
               rbind (encodeParams lib (n_params n) (st_components row) m (st_paramSchema row))
                 (\<lambda>d. Inr
                   \<lparr>s_stepType = (if condition then STEP_TYPE_CONDITION else STEP_TYPE_ACTION),
                    s_target = st_contractAddress row, s_selector = st_selector row,
                    s_nextOnTrue = (if condition then jump idx outs ''true'' else jump idx outs ''out''),
                    s_nextOnFalse = (if condition then jump idx outs ''false'' else DONE),
                    s_data = d\<rparr>)))"

definition compileSteps ::
  "encode_lib \<Rightarrow> (string \<rightharpoonup> step_row) \<Rightarrow> slot_mapping \<Rightarrow> raw_graph \<Rightarrow> encode_error + encoded_step list" where
  "compileSteps lib stm m g =
     rbind (bfs g) (\<lambda>order. rmapM (compileStep lib stm m g (indexMap order)) order)"

section \<open>The context write\<close>

definition slotChange :: "string list \<Rightarrow> (string \<times> string) list \<Rightarrow> string \<times> nat \<Rightarrow> context_change" where
  "slotChange ctx ov entry =
     (case entry of (name, index) \<Rightarrow>
        (let isNew = (length ctx \<le> index);
             current = (if isNew then None else Some (ctx ! index)) in
         \<lparr>cc_slotIndex = index, cc_slotName = name, cc_isNew = isNew, cc_currentValue = current,
          cc_newValue = or_else (map_of ov name) (if isNew then ''0x'' else ctx ! index)\<rparr>))"

definition isExistingSlot :: "string \<Rightarrow> string \<Rightarrow> bool" where
  "isExistingSlot name vaultId = False"

text \<open>The part of \<open>encode\<close> and of \<open>encodeUpdate\<close> up to the compiled steps, which they share.\<close>

definition resolve_names :: "slot_db \<Rightarrow> string \<Rightarrow> string list \<Rightarrow> string \<Rightarrow> slot_db \<times> (encode_error + slot_mapping)" where
  "resolve_names db vaultId names automationId =
     (if 0 < length names then
        (case allocateSlots db vaultId names automationId Map.empty of
           Inl e \<Rightarrow> (db, Inl (SlotsFailed e))
         | Inr (db', m) \<Rightarrow> (db', Inr m))
      else (db, Inr []))"

definition front ::
  "encode_lib \<Rightarrow> step_row list \<Rightarrow> slot_db \<Rightarrow> string \<Rightarrow> string \<Rightarrow> raw_graph
     \<Rightarrow> slot_db \<times> (encode_error + slot_mapping \<times> encoded_step list)" where
  "front lib rows db vaultId automationId g =
     (case validateServerSide g of
        Some e \<Rightarrow> (db, Inl e)
      | None \<Rightarrow>
          (let stm = stepTypeMap rows in
           case validateRawParams g stm of
             Some e \<Rightarrow> (db, Inl e)
           | None \<Rightarrow>
               (case resolve_names db vaultId (extractSlotNames g stm) automationId of
                  (db', r) \<Rightarrow> (db', rbind r (\<lambda>m. rbind (compileSteps lib stm m g) (\<lambda>steps. Inr (m, steps)))))))"

definition from_coder :: "string option \<Rightarrow> encode_error + string" where
  "from_coder c = (case c of None \<Rightarrow> Inl CoderFailed | Some s \<Rightarrow> Inr s)"

definition encode_tail ::
  "encode_lib \<Rightarrow> string list option \<Rightarrow> string \<Rightarrow> raw_graph \<Rightarrow> (string \<times> string) list
     \<Rightarrow> slot_mapping \<Rightarrow> encoded_step list \<Rightarrow> encode_error + encode_result" where
  "encode_tail lib chain vaultId g ov m steps =
     (let ownerOnly = inferOwnerOnly g;
          functionName = (if ownerOnly then ''createOwnerAutomation'' else ''createAutomation'');
          newEntries = filter (\<lambda>(name, i). \<not> isExistingSlot name vaultId) m;
          write = (0 < length newEntries \<or> 0 < length ov);
          ctx = or_else chain [];
          expanded = buildExpandedContext ctx (slotEntries newEntries ov) ov m in
      rbind (from_coder (lib_create lib functionName steps)) (\<lambda>call.
      rbind (if write then map_sum id Some (from_coder (lib_context lib expanded)) else Inr None) (\<lambda>ctxCall.
      Inr \<lparr>r_automationCalldata = call, r_contextCalldata = ctxCall, r_functionName = functionName,
        r_steps = steps, r_ownerOnly = ownerOnly, r_stepCount = length steps,
        r_requiresContextTx = write,
        r_contextChanges = (if write then map (slotChange ctx ov) m else [])\<rparr>)))"

definition encode ::
  "encode_lib \<Rightarrow> step_row list \<Rightarrow> string list option \<Rightarrow> slot_db \<Rightarrow> string \<Rightarrow> string \<Rightarrow> raw_graph
     \<Rightarrow> (string \<times> string) list option \<Rightarrow> slot_db \<times> (encode_error + encode_result)" where
  "encode lib rows chain db vaultId automationId g overrides =
     (case front lib rows db vaultId automationId g of
        (db', r) \<Rightarrow> (db', rbind r (\<lambda>(m, steps). encode_tail lib chain vaultId g (or_else overrides []) m steps)))"

definition update_tail ::
  "encode_lib \<Rightarrow> string list option \<Rightarrow> nat \<Rightarrow> raw_graph \<Rightarrow> (string \<times> string) list
     \<Rightarrow> slot_mapping \<Rightarrow> encoded_step list \<Rightarrow> encode_error + encode_result" where
  "update_tail lib chain onChainId g ov m steps =
     (let look = (0 < length m \<or> 0 < length ov);
          ctx = or_else chain [];
          newEntries = filter (\<lambda>(name, i). length ctx \<le> i) m;
          write = (look \<and> (0 < length newEntries \<or> 0 < length ov));
          expanded = buildExpandedContext ctx (slotEntries newEntries ov) ov m in
      rbind (from_coder (lib_update lib onChainId steps)) (\<lambda>call.
      rbind (if write then map_sum id Some (from_coder (lib_context lib expanded)) else Inr None) (\<lambda>ctxCall.
      Inr \<lparr>r_automationCalldata = call, r_contextCalldata = ctxCall, r_functionName = ''updateAutomationSteps'',
        r_steps = steps, r_ownerOnly = inferOwnerOnly g, r_stepCount = length steps,
        r_requiresContextTx = write,
        r_contextChanges = (if look then map (slotChange ctx ov) m else [])\<rparr>)))"

definition encodeUpdate ::
  "encode_lib \<Rightarrow> step_row list \<Rightarrow> string list option \<Rightarrow> slot_db \<Rightarrow> string \<Rightarrow> string \<Rightarrow> nat \<Rightarrow> raw_graph
     \<Rightarrow> (string \<times> string) list option \<Rightarrow> slot_db \<times> (encode_error + encode_result)" where
  "encodeUpdate lib rows chain db vaultId automationId onChainId g overrides =
     (case front lib rows db vaultId automationId g of
        (db', r) \<Rightarrow> (db', rbind r (\<lambda>(m, steps). update_tail lib chain onChainId g (or_else overrides []) m steps)))"

definition encodeToggle :: "encode_lib \<Rightarrow> nat \<Rightarrow> bool \<Rightarrow> string" where
  "encodeToggle lib onChainId active = lib_toggle lib onChainId active"

definition encodeExecute :: "encode_lib \<Rightarrow> nat \<Rightarrow> string" where
  "encodeExecute lib onChainId = lib_execute lib onChainId"

section \<open>Lookups\<close>

lemma nodeMap_Some: "nodeMap g x = Some n \<Longrightarrow> n \<in> set (g_nodes g) \<and> n_id n = x"
  unfolding nodeMap_def by (rule by_key_Some)

lemma nodeMap_distinct: "distinct (node_ids g) \<Longrightarrow> n \<in> set (g_nodes g) \<Longrightarrow> nodeMap g (n_id n) = Some n"
  unfolding nodeMap_def node_ids_def by (rule by_key_distinct)

lemma stepTypeMap_Some: "stepTypeMap rows t = Some r \<Longrightarrow> r \<in> set rows \<and> st_id r = t"
  unfolding stepTypeMap_def by (rule by_key_Some)

lemma indexMap_fold:
  "distinct order \<Longrightarrow> fold (\<lambda>(i, x) m. m(x \<mapsto> i)) (List.enumerate k order) m x =
     (case index_of order x of None \<Rightarrow> m x | Some i \<Rightarrow> Some (k + i))"
proof (induction order arbitrary: k m)
  case (Cons y order)
  show ?case
  proof (cases "y = x")
    case True
    with Cons.prems have "index_of order x = None" by (simp add: index_of_None_iff)
    with Cons True show ?thesis by simp
  next
    case False
    with Cons show ?thesis by (cases "index_of order x") simp_all
  qed
qed simp

lemma indexMap_index_of: "distinct order \<Longrightarrow> indexMap order x = index_of order x"
  by (auto simp: indexMap_def indexMap_fold split: option.splits)

section \<open>The compiled steps\<close>

text \<open>What the step at an index of the order was compiled from.\<close>

lemma compileSteps_cases:
  assumes "compileSteps lib stm m g = Inr steps"
  obtains n order where "startNode g = Some n" "order = bfs_order (g_edges g) (n_id n)"
    "length steps = length order"
    "\<forall>i < length order. compileStep lib stm m g (index_of order) (order ! i) = Inr (steps ! i)"
proof -
  obtain n where n: "startNode g = Some n"
    and run: "rmapM (compileStep lib stm m g (indexMap (bfs_order (g_edges g) (n_id n))))
      (bfs_order (g_edges g) (n_id n)) = Inr steps"
    using assms by (auto simp: compileSteps_def bfs_def result_simps split: option.splits)
  have "indexMap (bfs_order (g_edges g) (n_id n)) = index_of (bfs_order (g_edges g) (n_id n))"
    by (rule ext) (rule indexMap_index_of [OF bfs.order_distinct])
  then show thesis using that [OF n refl] rmapM_length [OF run] rmapM_nth [OF run] by simp
qed

lemma compileStep_Inr:
  assumes "compileStep lib stm m g idx x = Inr s"
  obtains n row where "nodeMap g x = Some n" "stm (n_stepTypeId n) = Some row"
    "s_stepType s = (if n_type n = ''CONDITION'' then STEP_TYPE_CONDITION else STEP_TYPE_ACTION)"
    "s_target s = st_contractAddress row" "s_selector s = st_selector row"
    "encodeParams lib (n_params n) (st_components row) m (st_paramSchema row) = Inr (s_data s)"
    "s_nextOnTrue s = (if n_type n = ''CONDITION'' then jump idx (out_edges (g_edges g) x) ''true''
       else jump idx (out_edges (g_edges g) x) ''out'')"
    "s_nextOnFalse s = (if n_type n = ''CONDITION'' then jump idx (out_edges (g_edges g) x) ''false'' else DONE)"
  using assms by (auto simp: compileStep_def Let_def result_simps split: option.splits)

lemma find_out_edge:
  assumes "find (\<lambda>e. e_handle e = h) (out_edges es x) = Some e"
  shows "e \<in> set es \<and> e_source e = x"
  using find_Some_in [OF assms] by (auto simp: out_edges_filter)

lemma jump_refs:
  assumes "x \<in> set (bfs_order es start)"
  shows "jump (index_of (bfs_order es start)) (out_edges es x) h = DONE \<or>
    jump (index_of (bfs_order es start)) (out_edges es x) h < length (bfs_order es start)"
proof (cases "find (\<lambda>e. e_handle e = h) (out_edges es x)")
  case (Some e)
  obtain i where i: "i < length (bfs_order es start)" "bfs_order es start ! i = x"
    using assms by (metis in_set_conv_nth)
  from find_out_edge [OF Some] i bfs.target_indexed [of i es start e] show ?thesis
    by (auto simp: jump_def Some)
qed (simp add: jump_def)

lemma condition_not_action: "STEP_TYPE_ACTION \<noteq> STEP_TYPE_CONDITION"
  by (simp add: STEP_TYPE_CONDITION_def STEP_TYPE_ACTION_def)

lemma compiled_refs:
  assumes "compileSteps lib stm m g = Inr steps" and "s \<in> set steps"
  shows "refs_ok (length steps) s"
proof -
  from assms(1) obtain n order where o: "startNode g = Some n" "order = bfs_order (g_edges g) (n_id n)"
    "length steps = length order"
    "\<forall>i < length order. compileStep lib stm m g (index_of order) (order ! i) = Inr (steps ! i)"
    by (rule compileSteps_cases)
  obtain i where i: "i < length order" "s = steps ! i" using assms(2) o(3) by (metis in_set_conv_nth)
  then have x: "order ! i \<in> set order" by simp
  from o(4) [rule_format, OF i(1)] show ?thesis
    by (rule compileStep_Inr) (use jump_refs x in \<open>auto simp: o(2,3) i(2) refs_ok_def condition_not_action\<close>)
qed

lemma compiled_targets:
  assumes "compileSteps lib (stepTypeMap rows) m g = Inr steps" and "s \<in> set steps"
  shows "\<exists>row \<in> set rows. s_target s = st_contractAddress row \<and> s_selector s = st_selector row"
proof -
  from assms(1) obtain n order where o: "startNode g = Some n" "order = bfs_order (g_edges g) (n_id n)"
    "length steps = length order"
    "\<forall>i < length order. compileStep lib (stepTypeMap rows) m g (index_of order) (order ! i) = Inr (steps ! i)"
    by (rule compileSteps_cases)
  obtain i where i: "i < length order" "s = steps ! i" using assms(2) o(3) by (metis in_set_conv_nth)
  from o(4) [rule_format, OF i(1)] show ?thesis
    by (rule compileStep_Inr) (use i(2) in \<open>auto dest!: stepTypeMap_Some\<close>)
qed

lemma order_in_nodes:
  assumes "compileSteps lib stm m g = Inr steps"
  shows "steps \<noteq> [] \<and> length steps \<le> length (g_nodes g)"
proof -
  from assms obtain n order where o: "startNode g = Some n" "order = bfs_order (g_edges g) (n_id n)"
    "length steps = length order"
    "\<forall>i < length order. compileStep lib stm m g (index_of order) (order ! i) = Inr (steps ! i)"
    by (rule compileSteps_cases)
  have "order ! i \<in> set (node_ids g)" if "i < length order" for i
    by (rule compileStep_Inr [OF o(4) [rule_format, OF that]]) (use nodeMap_Some in \<open>force simp: node_ids_def\<close>)
  then have "set order \<subseteq> set (node_ids g)" by (auto simp: in_set_conv_nth)
  then have "card (set order) \<le> length (node_ids g)"
    by (meson card_length card_mono finite_set le_trans)
  then have "length order \<le> length (g_nodes g)"
    using distinct_card [OF bfs.order_distinct [of "g_edges g" "n_id n"]] by (simp add: o(2) node_ids_def)
  moreover have "order \<noteq> []" using bfs.order_start [of "g_edges g" "n_id n"] by (auto simp: o(2))
  ultimately show ?thesis using o(3) by auto
qed

lemma startNode_startNodes: "startNode g = Some n \<longleftrightarrow> (\<exists>rest. startNodes g = n # rest)"
proof -
  have "find P xs = Some y \<longleftrightarrow> (\<exists>ys. filter P xs = y # ys)" for P and xs :: "raw_node list" and y
    by (induction xs) auto
  then show ?thesis by (simp add: startNode_def startNodes_def)
qed

lemma compiled_first:
  assumes "compileSteps lib stm m g = Inr steps" and "distinct (node_ids g)"
  obtains n rest where "startNodes g = n # rest"
    "s_stepType (hd steps) = (if n_type n = ''CONDITION'' then STEP_TYPE_CONDITION else STEP_TYPE_ACTION)"
proof -
  from assms(1) obtain n order where o: "startNode g = Some n" "order = bfs_order (g_edges g) (n_id n)"
    "length steps = length order"
    "\<forall>i < length order. compileStep lib stm m g (index_of order) (order ! i) = Inr (steps ! i)"
    by (rule compileSteps_cases)
  have ne: "order \<noteq> []" "order ! 0 = n_id n" using bfs.order_start [of "g_edges g" "n_id n"] by (auto simp: o(2))
  obtain rest where rest: "startNodes g = n # rest" using o(1) by (auto simp: startNode_startNodes)
  then have "n \<in> set (startNodes g)" by simp
  then have "nodeMap g (n_id n) = Some n"
    by (intro nodeMap_distinct assms(2)) (simp add: startNodes_def)
  moreover have "compileStep lib stm m g (index_of order) (n_id n) = Inr (hd steps)"
    using o(4) [rule_format, of 0] ne order_in_nodes [OF assms(1)] by (simp add: hd_conv_nth)
  ultimately show thesis using that [OF rest] by (auto elim: compileStep_Inr)
qed

section \<open>Walking the graph\<close>

text \<open>
  The specification of execution: start at the start node, ask a condition or perform an action,
  and follow the edge whose handle is the answer; a missing edge ends the run. The rules on the
  trigger and on the step budget are the vault's.
\<close>

definition is_condition :: "raw_graph \<Rightarrow> string \<Rightarrow> bool" where
  "is_condition g x \<longleftrightarrow> (case nodeMap g x of None \<Rightarrow> False | Some n \<Rightarrow> n_type n = ''CONDITION'')"

definition node_call ::
  "encode_lib \<Rightarrow> (string \<rightharpoonup> step_row) \<Rightarrow> slot_mapping \<Rightarrow> raw_graph \<Rightarrow> string \<Rightarrow> call_data" where
  "node_call lib stm m g x =
     (case nodeMap g x of
        None \<Rightarrow> ([], [], [])
      | Some n \<Rightarrow> (case stm (n_stepTypeId n) of
          None \<Rightarrow> ([], [], [])
        | Some row \<Rightarrow>
            (case encodeParams lib (n_params n) (st_components row) m (st_paramSchema row) of
               Inl e \<Rightarrow> ([], [], [])
             | Inr d \<Rightarrow> (st_contractAddress row, st_selector row, d))))"

definition successor :: "raw_graph \<Rightarrow> string \<Rightarrow> string \<Rightarrow> string option" where
  "successor g x h = map_option e_target (find (\<lambda>e. e_handle e = h) (out_edges (g_edges g) x))"

fun walk ::
  "('c \<Rightarrow> call_data \<Rightarrow> bool option) \<Rightarrow> ('c \<Rightarrow> call_data \<Rightarrow> 'c option) \<Rightarrow> bool \<Rightarrow> raw_graph
     \<Rightarrow> (string \<Rightarrow> call_data) \<Rightarrow> string \<Rightarrow> nat \<Rightarrow> string option \<Rightarrow> 'c \<Rightarrow> bool \<Rightarrow> string vault_error + 'c \<times> bool" where
  "walk cond act owner g call start budget None ctx fired = Inr (ctx, fired)"
| "walk cond act owner g call start 0 (Some x) ctx fired = Inl MaxStepsExceeded"
| "walk cond act owner g call start (Suc budget) (Some x) ctx fired =
     (if is_condition g x then
        (case cond ctx (call x) of
           None \<Rightarrow> Inl (CallReverted x)
         | Some met \<Rightarrow>
             let trigger = (x = start \<and> Suc budget = MAX_STEPS) in
             if trigger \<and> \<not> met \<and> \<not> owner then Inl TriggerNotMet
             else walk cond act owner g call start budget
               (successor g x (if met then ''true'' else ''false'')) ctx (if trigger then met else fired))
      else
        (case act ctx (call x) of
           None \<Rightarrow> Inl (CallReverted x)
         | Some ctx' \<Rightarrow> walk cond act owner g call start budget (successor g x ''out'') ctx' fired))"

definition execute_graph ::
  "('c \<Rightarrow> call_data \<Rightarrow> bool option) \<Rightarrow> ('c \<Rightarrow> call_data \<Rightarrow> 'c option) \<Rightarrow> bool \<Rightarrow> raw_graph
     \<Rightarrow> (string \<Rightarrow> call_data) \<Rightarrow> raw_node \<Rightarrow> 'c \<Rightarrow> string vault_error + 'c \<times> bool" where
  "execute_graph cond act owner g call n ctx =
     walk cond act owner g call (n_id n) MAX_STEPS (Some (n_id n)) ctx
       (inferOwnerOnly g \<and> \<not> is_condition g (n_id n))"

text \<open>A program counter and a node correspond.\<close>

definition at_node :: "string list \<Rightarrow> nat \<Rightarrow> string option \<Rightarrow> bool" where
  "at_node order i x \<longleftrightarrow>
     (case x of None \<Rightarrow> i = DONE | Some y \<Rightarrow> i < length order \<and> order ! i = y)"

lemma jump_at_node:
  assumes "i < length (bfs_order (g_edges g) start)"
  shows "at_node (bfs_order (g_edges g) start)
    (jump (index_of (bfs_order (g_edges g) start)) (out_edges (g_edges g) (bfs_order (g_edges g) start ! i)) h)
    (successor g (bfs_order (g_edges g) start ! i) h)"
proof (cases "find (\<lambda>e. e_handle e = h) (out_edges (g_edges g) (bfs_order (g_edges g) start ! i))")
  case (Some e)
  from find_out_edge [OF Some] bfs.target_indexed [OF assms, of e] show ?thesis
    by (auto simp: jump_def successor_def at_node_def Some)
qed (simp add: jump_def successor_def at_node_def)

lemma compiled_step_at:
  assumes "compileStep lib stm m g idx x = Inr s"
  shows "s_stepType s = STEP_TYPE_CONDITION \<longleftrightarrow> is_condition g x" and "step_call s = node_call lib stm m g x"
    and "is_condition g x \<Longrightarrow> s_nextOnTrue s = jump idx (out_edges (g_edges g) x) ''true''"
    and "is_condition g x \<Longrightarrow> s_nextOnFalse s = jump idx (out_edges (g_edges g) x) ''false''"
    and "\<not> is_condition g x \<Longrightarrow> s_nextOnTrue s = jump idx (out_edges (g_edges g) x) ''out''"
  by (rule compileStep_Inr [OF assms];
      auto simp: is_condition_def step_call_def node_call_def condition_not_action)+

lemma run_is_walk:
  assumes order: "order = bfs_order (g_edges g) start" and len: "length steps = length order" "length order < DONE"
    and steps: "\<And>i. i < length order \<Longrightarrow> compileStep lib stm m g (index_of order) (order ! i) = Inr (steps ! i)"
  shows "at_node order cur x \<Longrightarrow>
    map_sum (map_vault_error ((!) order)) id (run_steps cond act owner steps budget cur ctx fired) =
      walk cond act owner g (node_call lib stm m g) start budget x ctx fired"
proof (induction budget arbitrary: cur x ctx fired)
  case 0
  then show ?case using len(2) by (cases x) (auto simp: at_node_def)
next
  case (Suc budget)
  show ?case
  proof (cases x)
    case None
    then show ?thesis using Suc.prems by (simp add: at_node_def)
  next
    case (Some y)
    with Suc.prems have cur: "cur < length order" "order ! cur = y" by (auto simp: at_node_def)
    then have nd: "cur \<noteq> DONE" "\<not> length steps \<le> cur" using len by auto
    note at = compiled_step_at [OF steps [OF cur(1)], unfolded cur(2)]
    note ih = Suc.IH [OF jump_at_node [of cur g start, folded order, OF cur(1), unfolded cur(2)]]
    have trigger: "cur = 0 \<longleftrightarrow> y = start"
      using bfs.start_index [of "g_edges g" start, folded order] cur bfs.order_distinct [of "g_edges g" start, folded order]
      by (metis index_of_bound index_of_nth option.inject)
    show ?thesis
    proof (cases "is_condition g y")
      case True
      define first where "first \<longleftrightarrow> y = start \<and> Suc budget = MAX_STEPS"
      have t: "(cur = 0 \<and> Suc budget = MAX_STEPS) = first" "(y = start \<and> Suc budget = MAX_STEPS) = first"
        using trigger by (auto simp: first_def)
      show ?thesis using nd Some cur(2) at(1-4) ih True
        by (cases "cond ctx (node_call lib stm m g y)"; cases first; cases owner) (simp_all add: Let_def t)
    next
      case False
      then show ?thesis using nd Some cur(2) at(1,2,5) ih
        by (cases "act ctx (node_call lib stm m g y)") (simp_all add: Let_def)
    qed
  qed
qed

section \<open>A small deployment\<close>

text \<open>An interval trigger that remembers its last run in a context slot, and a payment.\<close>

definition demo_lib :: encode_lib where
  "demo_lib = \<lparr>lib_abi = (\<lambda>types values. Some (concat (map js_string values))),
     lib_create = (\<lambda>f steps. Some f), lib_update = (\<lambda>i steps. Some (show_nat i)),
     lib_context = (\<lambda>words. Some (concat words)), lib_toggle = (\<lambda>i b. show_nat i), lib_execute = show_nat\<rparr>"

definition demo_rows :: "step_row list" where
  "demo_rows =
     [\<lparr>st_id = ''interval'', st_contractAddress = ''0xC1'', st_selector = ''0x11'',
       st_components = [\<lparr>c_name = ''timeSlot'', c_type = ''uint32''\<rparr>],
       st_paramSchema = Some \<lparr>ps_properties = [(''timeSlot'', plain_field\<lparr>f_widget := Some ''context-slot''\<rparr>)],
         ps_required = []\<rparr>\<rparr>,
      \<lparr>st_id = ''pay'', st_contractAddress = ''0xA1'', st_selector = ''0x22'',
       st_components = [\<lparr>c_name = ''on'', c_type = ''bool''\<rparr>], st_paramSchema = None\<rparr>]"

definition demo_graph :: raw_graph where
  "demo_graph = \<lparr>g_nodes =
       [\<lparr>n_id = ''t'', n_type = ''CONDITION'', n_stepTypeId = ''interval'', n_params = [''timeSlot'' \<mapsto> JStr ''last'']\<rparr>,
        \<lparr>n_id = ''p'', n_type = ''ACTION'', n_stepTypeId = ''pay'', n_params = [''on'' \<mapsto> JStr ''true'']\<rparr>],
     g_edges = [\<lparr>e_source = ''t'', e_target = ''p'', e_handle = ''true''\<rparr>]\<rparr>"

definition demo_steps :: "encoded_step list" where
  "demo_steps =
     [\<lparr>s_stepType = 0, s_target = ''0xC1'', s_selector = ''0x11'', s_nextOnTrue = 1, s_nextOnFalse = DONE, s_data = ''2''\<rparr>,
      \<lparr>s_stepType = 1, s_target = ''0xA1'', s_selector = ''0x22'', s_nextOnTrue = DONE, s_nextOnFalse = DONE, s_data = ''true''\<rparr>]"

lemma demo_start: "startNodes demo_graph = [hd (g_nodes demo_graph)]"
  by (simp add: startNodes_def demo_graph_def is_start_iff node_ids_def)

lemma demo_startNode: "startNode demo_graph = Some (hd (g_nodes demo_graph))"
  by (simp add: startNode_startNodes demo_start)

lemma demo_order: "bfs_order (g_edges demo_graph) ''t'' = [''t'', ''p'']"
  by (simp add: bfs_order_def demo_graph_def out_edges_filter)


lemma demo_nodeMap: "nodeMap demo_graph = [''t'' \<mapsto> hd (g_nodes demo_graph), ''p'' \<mapsto> hd (tl (g_nodes demo_graph))]"
  by (simp add: nodeMap_def by_key_def demo_graph_def)

lemma demo_stm: "stepTypeMap demo_rows = [''interval'' \<mapsto> hd demo_rows, ''pay'' \<mapsto> hd (tl demo_rows)]"
  by (simp add: stepTypeMap_def by_key_def demo_rows_def)

lemma demo_bfs: "bfs demo_graph = Inr [''t'', ''p'']"
  using demo_order by (simp add: bfs_def demo_startNode) (simp add: demo_graph_def)

lemma show_int_2: "show_int 2 = ''2''"
  by code_simp

lemma demo_step_t:
  "compileStep demo_lib (stepTypeMap demo_rows) [(''last'', 2)] demo_graph [''t'' \<mapsto> 0, ''p'' \<mapsto> 1] ''t'' = Inr (hd demo_steps)"
  unfolding compileStep_def demo_nodeMap demo_stm
  by (simp add: demo_graph_def demo_rows_def out_edges_filter encodeParams_def encodeValue_def
      resolve_slot_def convert_value_def isEmpty_def Let_def jump_def getp_def demo_steps_def demo_lib_def
      STEP_TYPE_CONDITION_def num_string_int [of 2, simplified] show_int_2)

lemma demo_step_p:
  "compileStep demo_lib (stepTypeMap demo_rows) [(''last'', 2)] demo_graph [''t'' \<mapsto> 0, ''p'' \<mapsto> 1] ''p'' = Inr (hd (tl demo_steps))"
  unfolding compileStep_def demo_nodeMap demo_stm
  by (simp add: demo_graph_def demo_rows_def out_edges_filter encodeParams_def encodeValue_def
      resolve_slot_def convert_value_def isEmpty_def Let_def jump_def getp_def demo_steps_def demo_lib_def
      STEP_TYPE_ACTION_def)

lemma demo_compile: "compileSteps demo_lib (stepTypeMap demo_rows) [(''last'', 2)] demo_graph = Inr demo_steps"
  by (simp add: compileSteps_def demo_bfs indexMap_def demo_step_t [simplified] demo_step_p [simplified]) (simp add: demo_steps_def)
lemma demo_raw: "validateRawParams demo_graph (stepTypeMap demo_rows) = None"
  unfolding validateRawParams_def node_violations_def row_schema_def demo_stm
  by (simp add: demo_graph_def demo_rows_def validateParams_Nil_iff validateField_def Let_def getp_def isEmpty_def widget_is_def plain_field_def raw_options_def)

lemma demo_variable: "is_variable (JStr ''last'') = Some ''last''"
  by code_simp

lemma demo_names: "extractSlotNames demo_graph (stepTypeMap demo_rows) = [''last'']"
  unfolding extractSlotNames_def slot_names_of_node_def row_schema_def demo_stm
  by (simp add: demo_graph_def slot_name_of_field_def demo_rows_def widget_is_def plain_field_def getp_def demo_variable)

definition demo_result :: encode_result where
  "demo_result = \<lparr>r_automationCalldata = ''createAutomation'', r_contextCalldata = Some ''0x010x020x'',
     r_functionName = ''createAutomation'', r_steps = demo_steps, r_ownerOnly = False, r_stepCount = 2,
     r_requiresContextTx = True,
     r_contextChanges = [\<lparr>cc_slotIndex = 2, cc_slotName = ''last'', cc_isNew = True, cc_currentValue = None,
       cc_newValue = ''0x''\<rparr>]\<rparr>"

definition demo_db :: slot_db where
  "demo_db = [''v'' \<mapsto> demo_slots @ [(2, new_meta Map.empty ''b'' ''last'')]]"

lemma demo_resolve:
  "resolve_names [''v'' \<mapsto> demo_slots] ''v'' [''last''] ''b'' = (demo_db, Inr [(''last'', 2)])"
  by (simp add: resolve_names_def allocateSlots_def allocate_def demo_slots_def existingByName_def
      nextIndex_def demo_db_def numeral_2_eq_2)

lemma demo_server: "validateServerSide demo_graph = None"
  by (simp add: validateServerSide_def demo_graph_def)

lemma demo_owner: "inferOwnerOnly demo_graph = False"
  by (simp add: inferOwnerOnly_def demo_start) (simp add: demo_graph_def)

lemma demo_front:
  "front demo_lib demo_rows [''v'' \<mapsto> demo_slots] ''v'' ''b'' demo_graph = (demo_db, Inr ([(''last'', 2)], demo_steps))"
  by (simp add: front_def demo_server demo_raw demo_names demo_resolve demo_compile)

lemma demo_expanded:
  "buildExpandedContext [''0x01'', ''0x02''] (slotEntries [(''last'', 2)] []) [] [(''last'', 2)] =
     [''0x01'', ''0x02'', ''0x'']"
  by (simp add: buildExpandedContext_def indexOverrides_def maxIndex_def expandedWord_def slotEntries_def upt_rec
      numeral_2_eq_2)

lemma demo_tail:
  "encode_tail demo_lib (Some [''0x01'', ''0x02'']) ''v'' demo_graph [] [(''last'', 2)] demo_steps = Inr demo_result"
  by (simp add: encode_tail_def demo_owner isExistingSlot_def demo_expanded)
    (simp add: demo_lib_def from_coder_def demo_result_def slotChange_def demo_steps_def Let_def)

lemma demo_encode:
  "encode demo_lib demo_rows (Some [''0x01'', ''0x02'']) [''v'' \<mapsto> demo_slots] ''v'' ''b'' demo_graph None =
     (demo_db, Inr demo_result)"
  unfolding encode_def demo_front by (simp add: demo_tail)

lemma demo_update:
  "\<exists>r. encodeUpdate demo_lib demo_rows (Some [''0x01'', ''0x02'', ''0x03'']) [''v'' \<mapsto> demo_slots] ''v'' ''b'' 7
     demo_graph None = (demo_db, Inr r) \<and> r_requiresContextTx r = False"
  unfolding encodeUpdate_def demo_front by (simp add: update_tail_def demo_lib_def from_coder_def Let_def)

section \<open>Correctness of the encoder\<close>

lemma encode_Inr:
  assumes "encode lib rows chain db v a g ov = (db', Inr r)"
  obtains m steps where "resolve_names db v (extractSlotNames g (stepTypeMap rows)) a = (db', Inr m)"
    "validateServerSide g = None" "validateRawParams g (stepTypeMap rows) = None"
    "compileSteps lib (stepTypeMap rows) m g = Inr steps"
    "encode_tail lib chain v g (or_else ov []) m steps = Inr r"
  using assms
  by (auto simp: encode_def front_def Let_def result_simps split: prod.splits option.splits)

lemma encode_tail_fields:
  assumes "encode_tail lib chain v g ov m steps = Inr r"
  shows "r_steps r = steps" "r_ownerOnly r = inferOwnerOnly g" "r_stepCount r = length steps"
  using assms by (auto simp: encode_tail_def Let_def result_simps)

lemma encodeUpdate_Inr:
  assumes "encodeUpdate lib rows chain db v a k g ov = (db', Inr r)"
  obtains m steps where "resolve_names db v (extractSlotNames g (stepTypeMap rows)) a = (db', Inr m)"
    "validateServerSide g = None" "validateRawParams g (stepTypeMap rows) = None"
    "compileSteps lib (stepTypeMap rows) m g = Inr steps"
    "update_tail lib chain k g (or_else ov []) m steps = Inr r"
  using assms
  by (auto simp: encodeUpdate_def front_def Let_def result_simps split: prod.splits option.splits)

lemma update_tail_fields:
  assumes "update_tail lib chain k g ov m steps = Inr r"
  shows "r_steps r = steps" "r_ownerOnly r = inferOwnerOnly g" "r_stepCount r = length steps"
  using assms by (auto simp: update_tail_def Let_def result_simps)

lemma server_side_bound: "validateServerSide g = None \<longleftrightarrow> 0 < length (g_nodes g) \<and> length (g_nodes g) \<le> 256"
  by (auto simp: validateServerSide_def)

lemma compile_execute:
  assumes "compileSteps lib stm m g = Inr steps" and "validateServerSide g = None"
  shows "\<exists>n. startNode g = Some n \<and>
    map_sum (map_vault_error ((!) (bfs_order (g_edges g) (n_id n)))) id
        (execute cond act owner (inferOwnerOnly g) steps ctx) =
      execute_graph cond act owner g (node_call lib stm m g) n ctx"
proof -
  from assms(1) obtain n order where o: "startNode g = Some n" "order = bfs_order (g_edges g) (n_id n)"
    "length steps = length order"
    "\<forall>i < length order. compileStep lib stm m g (index_of order) (order ! i) = Inr (steps ! i)"
    by (rule compileSteps_cases)
  have small: "length order < DONE"
    using order_in_nodes [OF assms(1)] assms(2) o(3) by (simp add: server_side_bound DONE_def)
  have start: "order ! 0 = n_id n" "0 < length order"
    using bfs.order_start [of "g_edges g" "n_id n"] by (auto simp: o(2))
  have "steps \<noteq> []" using order_in_nodes [OF assms(1)] by blast
  then have kind: "s_stepType (hd steps) = STEP_TYPE_ACTION \<longleftrightarrow> \<not> is_condition g (n_id n)"
    using o(4) [rule_format, of 0] start compileStep_Inr [of lib stm m g "index_of order" "n_id n" "hd steps"]
      compiled_step_at(1) [of lib stm m g "index_of order" "n_id n" "hd steps"] condition_not_action
    by (metis hd_conv_nth)
  have "at_node order 0 (Some (n_id n))" using start by (simp add: at_node_def)
  from run_is_walk [OF o(2,3) small o(4) [rule_format] this] show ?thesis
    using o(1) by (auto simp: execute_def execute_graph_def kind o(2))
qed

text \<open>C1. The program the backend encodes behaves as the graph the user drew: for every outcome of
  the step contracts, every caller and every context, executing the encoded steps on the vault
  gives the result of walking the graph from its start node along the edges the answers select,
  with errors at the corresponding node.\<close>

theorem encoded_program_walks_graph:
  assumes "encode lib rows chain db vault aid g overrides = (db', Inr r)"
  shows "\<exists>m n. snd (resolve_names db vault (extractSlotNames g (stepTypeMap rows)) aid) = Inr m \<and>
    startNode g = Some n \<and>
    map_sum (map_vault_error ((!) (bfs_order (g_edges g) (n_id n)))) id
        (execute cond act owner (r_ownerOnly r) (r_steps r) ctx) =
      execute_graph cond act owner g (node_call lib (stepTypeMap rows) m g) n ctx"
proof (rule encode_Inr [OF assms])
  fix m steps
  assume "resolve_names db vault (extractSlotNames g (stepTypeMap rows)) aid = (db', Inr m)"
    and v: "validateServerSide g = None" and c: "compileSteps lib (stepTypeMap rows) m g = Inr steps"
    and t: "encode_tail lib chain vault g (or_else overrides []) m steps = Inr r"
  then show ?thesis using compile_execute [OF c v] by (auto simp: encode_tail_fields [OF t])
qed

lemma encoded_program_walks_graph_witness:
  "\<exists>n. startNode demo_graph = Some n \<and>
    map_sum (map_vault_error ((!) (bfs_order (g_edges demo_graph) (n_id n)))) id
        (execute (\<lambda>c d. Some (c < (3::nat))) (\<lambda>c d. Some (c + 1)) False False demo_steps 0) =
      execute_graph (\<lambda>c d. Some (c < 3)) (\<lambda>c d. Some (c + 1)) False demo_graph
        (node_call demo_lib (stepTypeMap demo_rows) [(''last'', 2)] demo_graph) n 0"
  using encoded_program_walks_graph [OF demo_encode] by (auto simp: demo_result_def demo_names demo_resolve)

lemma encode_accepted:
  assumes "encode lib rows chain db vault aid g overrides = (db', Inr r)"
    and "distinct (node_ids g)" and "length (startNodes g) = 1"
    and "\<forall>n \<in> set (g_nodes g). n_type n = ''CONDITION'' \<or> n_type n = ''ACTION''"
    and "\<forall>row \<in> set rows. st_contractAddress row \<noteq> zero_target \<and> st_selector row \<noteq> zero_selector"
  shows "validateSteps (r_steps r) (r_ownerOnly r) = None \<and> r_stepCount r = length (r_steps r) \<and>
    r_stepCount r \<le> length (g_nodes g) \<and> r_stepCount r \<le> MAX_STEPS"
proof (rule encode_Inr [OF assms(1)])
  fix m steps
  assume v: "validateServerSide g = None" and c: "compileSteps lib (stepTypeMap rows) m g = Inr steps"
    and t: "encode_tail lib chain vault g (or_else overrides []) m steps = Inr r"
  note r = encode_tail_fields [OF t]
  obtain n rest where n: "startNodes g = n # rest"
    "s_stepType (hd steps) = (if n_type n = ''CONDITION'' then STEP_TYPE_CONDITION else STEP_TYPE_ACTION)"
    by (rule compiled_first [OF c assms(2)])
  then have "n \<in> set (startNodes g)" by simp
  then have "n_type n = ''CONDITION'' \<or> n_type n = ''ACTION''" using assms(4) by (auto simp: startNodes_def)
  then have "inferOwnerOnly g \<or> s_stepType (hd steps) = STEP_TYPE_CONDITION"
    using n assms(3) by (auto simp: inferOwnerOnly_def)
  then have "validateSteps steps (inferOwnerOnly g) = None"
    using order_in_nodes [OF c] compiled_refs [OF c] compiled_targets [OF c] assms(5)
    by (fastforce simp: validateSteps_None)
  then show ?thesis
    using order_in_nodes [OF c] v by (simp add: r server_side_bound MAX_STEPS_def)
qed



text \<open>Encoding an update gives the same step program, ownership and change of the slot table as
  encoding a creation: when both succeed on the same inputs, the results agree in all of them.\<close>

theorem update_encodes_same_program:
  assumes "encode lib rows chain db vault aid g overrides = (db1, Inr r1)"
    and "encodeUpdate lib rows chain2 db vault aid onChainId g overrides = (db2, Inr r2)"
  shows "db1 = db2 \<and> r_steps r1 = r_steps r2 \<and> r_ownerOnly r1 = r_ownerOnly r2 \<and> r_stepCount r1 = r_stepCount r2"
  using assms
  by (elim encode_Inr encodeUpdate_Inr) (auto simp: encode_tail_fields update_tail_fields)

lemma update_encodes_same_program_witness:
  "\<exists>r. encodeUpdate demo_lib demo_rows (Some [''0x01'', ''0x02'', ''0x03'']) [''v'' \<mapsto> demo_slots] ''v'' ''b'' 7
     demo_graph None = (demo_db, Inr r) \<and> r_steps r = demo_steps"
proof -
  obtain r where r: "encodeUpdate demo_lib demo_rows (Some [''0x01'', ''0x02'', ''0x03'']) [''v'' \<mapsto> demo_slots]
    ''v'' ''b'' 7 demo_graph None = (demo_db, Inr r)" using demo_update by blast
  from update_encodes_same_program [OF demo_encode r] r show ?thesis by (simp add: demo_result_def)
qed

section \<open>Variables, totality and the context write\<close>

lemma slot_name_of_field_mono: "set names \<subseteq> set (slot_name_of_field n entry names)"
  by (cases entry) (auto simp: slot_name_of_field_def split: option.splits)

lemma slot_names_fields_mono: "set names \<subseteq> set (fold (slot_name_of_field n) es names)"
  by (induction es arbitrary: names) (use slot_name_of_field_mono in \<open>auto simp: subset_iff\<close>)

lemma slot_names_nodes_mono: "set names \<subseteq> set (fold (slot_names_of_node stm) ns names)"
  by (induction ns arbitrary: names)
    (use slot_names_fields_mono in \<open>auto simp: subset_iff slot_names_of_node_def\<close>)

lemma slot_name_found:
  assumes "(f, fs) \<in> set es" "widget_is fs ''context-slot''" "is_variable (getp (n_params n) f) = Some v"
  shows "v \<in> set (fold (slot_name_of_field n) es names)"
  using assms(1)
proof (induction es arbitrary: names)
  case (Cons e es)
  show ?case
  proof (cases "e = (f, fs)")
    case True
    then have "v \<in> set (slot_name_of_field n e names)" using assms(2,3) by (simp add: slot_name_of_field_def)
    then show ?thesis using slot_names_fields_mono [of "slot_name_of_field n e names" n es] by auto
  qed (use Cons in auto)
qed simp

lemma extractSlotNames_found:
  assumes "n \<in> set (g_nodes g)" "row_schema stm n = Some ps" "(f, fs) \<in> set (ps_properties ps)"
    and "widget_is fs ''context-slot''" "is_variable (getp (n_params n) f) = Some v"
  shows "v \<in> set (extractSlotNames g stm)"
proof -
  have "v \<in> set (fold (slot_names_of_node stm) ns names)" if "n \<in> set ns" for ns names
    using that
  proof (induction ns arbitrary: names)
    case (Cons k ns)
    show ?case
    proof (cases "k = n")
      case True
      then have "v \<in> set (slot_names_of_node stm k names)"
        using slot_name_found [OF assms(3-5)] assms(2) by (simp add: slot_names_of_node_def)
      then show ?thesis using slot_names_nodes_mono [of "slot_names_of_node stm k names" stm ns] by auto
    qed (use Cons in auto)
  qed simp
  then show ?thesis using assms(1) by (simp add: extractSlotNames_def)
qed

lemma is_variable_JStr: "is_variable x = Some v \<Longrightarrow> x = JStr v"
  by (auto simp: is_variable_def str_of_Some_iff split: option.splits if_splits)

text \<open>After a successful encoding every variable that a context-slot field of the graph names
  has an entry in the vault's slot directory, and the value encoded for a \<open>uint32\<close> component of
  that field is the index of that entry.\<close>

theorem variable_encodes_its_index:
  assumes "encode lib rows chain db vault aid g overrides = (db', Inr r)"
    and "db vault = Some ss" and "slots_ok ss"
    and "n \<in> set (g_nodes g)" and "stepTypeMap rows (n_stepTypeId n) = Some row"
    and "st_paramSchema row = Some schema" and "(c_name c, fs) \<in> set (ps_properties schema)"
    and "widget_is fs ''context-slot''" and "is_variable (getp (n_params n) (c_name c)) = Some v"
    and "c_type c = ''uint32''"
  shows "\<exists>m ss' i. resolve_names db vault (extractSlotNames g (stepTypeMap rows)) aid = (db', Inr m) \<and>
    db' vault = Some ss' \<and> slot_lookup ss' v = Some i \<and>
    encodeValue (n_params n) m (st_paramSchema row) c = Inr (JNum (Fin (of_nat i)))"
proof (rule encode_Inr [OF assms(1)])
  fix m steps
  assume res: "resolve_names db vault (extractSlotNames g (stepTypeMap rows)) aid = (db', Inr m)"
  have "row_schema (stepTypeMap rows) n = Some schema" using assms(5,6) by (simp add: row_schema_def)
  then have v: "v \<in> set (extractSlotNames g (stepTypeMap rows))"
    using extractSlotNames_found assms(4,7-9) by blast
  then have "extractSlotNames g (stepTypeMap rows) \<noteq> []" by auto
  with res assms(2) obtain ss' where run: "allocate Map.empty aid (extractSlotNames g (stepTypeMap rows)) ss = (ss', m)"
    and db': "db' vault = Some ss'"
    by (cases "allocate Map.empty aid (extractSlotNames g (stepTypeMap rows)) ss")
      (auto simp: resolve_names_def allocateSlots_def)
  obtain i where i: "slot_lookup ss' v = Some i" using allocate_spec(4) [OF run assms(3) v] by blast
  then have "map_of m v = Some i" using allocate_spec(3) [OF run assms(3)] v by simp
  then have "encodeValue (n_params n) m (st_paramSchema row) c = Inr (JNum (Fin (of_nat i)))"
    using is_variable_JStr [OF assms(9)] assms(10)
    by (simp add: encodeValue_def resolve_slot_def convert_value_def isEmpty_def)
  with res db' i show ?thesis by blast
qed

lemma variable_encodes_its_index_witness:
  "\<exists>m ss' i. resolve_names [''v'' \<mapsto> demo_slots] ''v'' [''last''] ''b'' = (demo_db, Inr m) \<and>
    demo_db ''v'' = Some ss' \<and> slot_lookup ss' ''last'' = Some i \<and>
    encodeValue [''timeSlot'' \<mapsto> JStr ''last''] m (st_paramSchema (hd demo_rows)) \<lparr>c_name = ''timeSlot'', c_type = ''uint32''\<rparr>
      = Inr (JNum (Fin (of_nat i)))"
proof -
  let ?n = "hd (g_nodes demo_graph)" and ?fs = "plain_field\<lparr>f_widget := Some ''context-slot''\<rparr>"
  let ?c = "\<lparr>c_name = ''timeSlot'', c_type = ''uint32''\<rparr>"
  have "?n \<in> set (g_nodes demo_graph)" "stepTypeMap demo_rows (n_stepTypeId ?n) = Some (hd demo_rows)"
    by (simp_all add: demo_stm) (simp_all add: demo_graph_def)
  moreover have "st_paramSchema (hd demo_rows) = Some \<lparr>ps_properties = [(''timeSlot'', ?fs)], ps_required = []\<rparr>"
    by (simp add: demo_rows_def)
  moreover have "is_variable (getp (n_params ?n) (c_name ?c)) = Some ''last''"
    using demo_variable by (simp add: demo_graph_def getp_def)
  ultimately show ?thesis
    using variable_encodes_its_index [OF demo_encode _ slots_dense_ok [OF demo_dense], of ?n "hd demo_rows"
      "\<lparr>ps_properties = [(''timeSlot'', ?fs)], ps_required = []\<rparr>" ?c ?fs "''last''"]
    by (simp add: widget_is_def demo_names) (simp add: demo_graph_def)
qed

text \<open>Steps are encoded exactly when there is a start node and every node reachable from it
  exists, has a step type of the catalog and has parameters the coder accepts; there is then one
  step per reachable node, unreachable nodes being left out.\<close>

theorem encodable_graphs:
  "(\<exists>steps. compileSteps lib stm m g = Inr steps \<and> length steps = card {x. reaches (g_edges g) s x}) \<and>
     map_option n_id (startNode g) = Some s \<longleftrightarrow>
   map_option n_id (startNode g) = Some s \<and>
   {x. reaches (g_edges g) s x} \<subseteq>
     {x. \<exists>n row d. nodeMap g x = Some n \<and> stm (n_stepTypeId n) = Some row \<and>
       encodeParams lib (n_params n) (st_components row) m (st_paramSchema row) = Inr d}"
    (is "?l \<longleftrightarrow> ?r")
proof -
  let ?o = "bfs_order (g_edges g) s"
  have set: "set ?o = {x. reaches (g_edges g) s x}" using bfs.order_iff by blast
  have step: "(\<exists>st. compileStep lib stm m g idx x = Inr st) \<longleftrightarrow> (\<exists>n row d. nodeMap g x = Some n \<and>
      stm (n_stepTypeId n) = Some row \<and> encodeParams lib (n_params n) (st_components row) m (st_paramSchema row) = Inr d)"
    for idx x by (auto simp: compileStep_def Let_def result_simps split: option.splits)
  have run: "(\<exists>steps. rmapM (compileStep lib stm m g (indexMap ?o)) ?o = Inr steps) \<longleftrightarrow>
      (\<forall>x \<in> {x. reaches (g_edges g) s x}. \<exists>n row d. nodeMap g x = Some n \<and> stm (n_stepTypeId n) = Some row \<and>
       encodeParams lib (n_params n) (st_components row) m (st_paramSchema row) = Inr d)"
    unfolding rmapM_ok_iff set step ..
  have len: "length steps = card {x. reaches (g_edges g) s x}"
    if "rmapM (compileStep lib stm m g (indexMap ?o)) ?o = Inr steps" for steps
    using rmapM_length [OF that] distinct_card [OF bfs.order_distinct [of "g_edges g" s]] by (simp add: set)
  show ?thesis
  proof (cases "map_option n_id (startNode g) = Some s")
    case True
    then have "compileSteps lib stm m g = rmapM (compileStep lib stm m g (indexMap ?o)) ?o"
      by (auto simp: compileSteps_def bfs_def)
    with len have "(\<exists>steps. compileSteps lib stm m g = Inr steps \<and> length steps = card {x. reaches (g_edges g) s x}) \<longleftrightarrow>
        (\<exists>steps. rmapM (compileStep lib stm m g (indexMap ?o)) ?o = Inr steps)" by auto
    with run True show ?thesis by (simp only: subset_eq) simp
  qed blast
qed

lemma map_sum_Some_Inr: "map_sum id Some r = Inr x \<longleftrightarrow> (\<exists>y. x = Some y \<and> r = Inr y)"
  by (cases r) auto

text \<open>A creation asks for a context transaction exactly when the graph names a variable or an
  override is passed, an update exactly when a variable's index is not yet on the chain or an
  override is passed; each carries context calldata exactly when it asks for the transaction.\<close>

theorem context_transaction_conditions:
  assumes "encode lib rows chain db vault aid g overrides = (db1, Inr r1)"
    and "encodeUpdate lib rows chain db vault aid onChainId g overrides = (db1, Inr r2)"
  shows "\<exists>m. resolve_names db vault (extractSlotNames g (stepTypeMap rows)) aid = (db1, Inr m) \<and>
    (r_requiresContextTx r1 \<longleftrightarrow> m \<noteq> [] \<or> or_else overrides [] \<noteq> []) \<and>
    (r_requiresContextTx r2 \<longleftrightarrow> (\<exists>i \<in> snd ` set m. length (or_else chain []) \<le> i) \<or> or_else overrides [] \<noteq> []) \<and>
    (r_requiresContextTx r1 \<longleftrightarrow> r_contextCalldata r1 \<noteq> None) \<and>
    (r_requiresContextTx r2 \<longleftrightarrow> r_contextCalldata r2 \<noteq> None)"
proof -
  obtain m steps where m: "resolve_names db vault (extractSlotNames g (stepTypeMap rows)) aid = (db1, Inr m)"
    and t1: "encode_tail lib chain vault g (or_else overrides []) m steps = Inr r1"
    using assms(1) by (rule encode_Inr)
  obtain steps2 where t2: "update_tail lib chain onChainId g (or_else overrides []) m steps2 = Inr r2"
    using assms(2) by (rule encodeUpdate_Inr) (use m in auto)
  have "(r_requiresContextTx r1 \<longleftrightarrow> m \<noteq> [] \<or> or_else overrides [] \<noteq> []) \<and>
      (r_requiresContextTx r1 \<longleftrightarrow> r_contextCalldata r1 \<noteq> None)"
    using t1 by (auto simp: encode_tail_def Let_def result_simps isExistingSlot_def map_sum_Some_Inr split: if_splits)
  moreover have "(r_requiresContextTx r2 \<longleftrightarrow> (\<exists>i \<in> snd ` set m. length (or_else chain []) \<le> i) \<or> or_else overrides [] \<noteq> []) \<and>
      (r_requiresContextTx r2 \<longleftrightarrow> r_contextCalldata r2 \<noteq> None)"
    using t2 by (auto simp: update_tail_def Let_def result_simps filter_empty_conv map_sum_Some_Inr Ball_def Bex_def split: if_splits)
  ultimately show ?thesis using m by blast
qed

lemma context_transaction_conditions_witness:
  "\<exists>r2 (m :: slot_mapping). encodeUpdate demo_lib demo_rows (Some [''0x01'', ''0x02'']) [''v'' \<mapsto> demo_slots] ''v'' ''b'' 7
      demo_graph None = (demo_db, Inr r2) \<and>
    (r_requiresContextTx r2 \<longleftrightarrow> (\<exists>i \<in> snd ` set m. (2::nat) \<le> i) \<or> ([] :: (string \<times> string) list) \<noteq> [])"
proof -
  obtain r2 where r2: "encodeUpdate demo_lib demo_rows (Some [''0x01'', ''0x02'']) [''v'' \<mapsto> demo_slots] ''v'' ''b'' 7
      demo_graph None = (demo_db, Inr r2)"
    unfolding encodeUpdate_def demo_front by (simp add: update_tail_def demo_lib_def from_coder_def Let_def)
  from context_transaction_conditions [OF demo_encode r2] obtain m :: slot_mapping where
    "r_requiresContextTx r2 \<longleftrightarrow> (\<exists>i \<in> snd ` set m. length (or_else (Some [''0x01'', ''0x02'']) []) \<le> i) \<or>
      or_else None ([] :: (string \<times> string) list) \<noteq> []" by blast
  with r2 show ?thesis by (intro exI [of _ r2] exI [of _ m]) (simp add: numeral_2_eq_2)
qed

text \<open>When the chain read of a creation fails, the context it writes holds no word of the chain:
  each word is the unset value or a start value of this call, so the transaction resets every
  other slot it covers.\<close>

theorem failed_read_resets_context:
  assumes "encode lib rows None db vault aid g overrides = (db', Inr r)" and "r_contextCalldata r = Some call"
  shows "\<exists>ws. lib_context lib ws = Some call \<and> set ws \<subseteq> insert ''0x'' (snd ` set (or_else overrides []))"
proof (rule encode_Inr [OF assms(1)])
  fix m steps
  let ?ov = "or_else overrides []"
  assume t: "encode_tail lib None vault g ?ov m steps = Inr r"
  let ?ws = "buildExpandedContext [] (slotEntries m ?ov) ?ov m"
  have call: "lib_context lib ?ws = Some call" using t assms(2)
    by (auto simp: encode_tail_def Let_def result_simps isExistingSlot_def from_coder_def split: if_splits option.splits)
  have over: "snd ` set (indexOverrides ov m) \<subseteq> snd ` set ov" for ov
  proof -
    let ?f = "\<lambda>(name, value) acc. case map_of m name of None \<Rightarrow> acc | Some i \<Rightarrow> alist_set i value acc"
    have "snd ` set (fold ?f ov acc) \<subseteq> snd ` set acc \<union> snd ` set ov" for acc
    proof (induction ov arbitrary: acc)
      case (Cons p ov)
      obtain a w where p: "p = (a, w)" by (cases p)
      have "snd ` set (?f p acc) \<subseteq> insert w (snd ` set acc)"
        using alist_set_values [of _ w acc] by (cases "map_of m a") (auto simp: p)
      moreover have "snd ` set (fold ?f (p # ov) acc) \<subseteq> snd ` set (?f p acc) \<union> snd ` set ov"
        using Cons.IH [of "?f p acc"] by simp
      ultimately show ?case by (simp only: p list.set image_insert snd_conv) blast
    qed simp
    from this [of "[]"] show ?thesis by (simp add: indexOverrides_def)
  qed
  have entry: "or_else (map_of (slotEntries m ?ov) i) ''0x'' \<in> insert ''0x'' (snd ` set ?ov)" for i
  proof (cases "map_of (slotEntries m ?ov) i")
    case (Some w)
    then obtain n where "w = or_else (map_of ?ov n) ''0x''"
      by (auto simp: slotEntries_def dest!: map_of_SomeD)
    then show ?thesis using Some by (cases "map_of ?ov n") (force dest: map_of_SomeD)+
  qed simp
  have "expandedWord [] (slotEntries m ?ov) (indexOverrides ?ov m) i \<in> insert ''0x'' (snd ` set ?ov)" for i
    using entry [of i] over [of ?ov] by (cases "map_of (indexOverrides ?ov m) i") (force simp: expandedWord_def dest: map_of_SomeD)+
  then have "set ?ws \<subseteq> insert ''0x'' (snd ` set ?ov)"
    using buildExpandedContext_nth [of _ "[]" "slotEntries m ?ov" ?ov m] by (metis (no_types, lifting) in_set_conv_nth subsetI)
  with call show ?thesis by blast
qed

lemma failed_read_resets_context_witness:
  "\<exists>r call ws. encode demo_lib demo_rows None [''v'' \<mapsto> demo_slots] ''v'' ''b'' demo_graph None = (demo_db, Inr r) \<and>
    r_contextCalldata r = Some call \<and> concat ws = call \<and> set ws \<subseteq> {''0x''}"
proof -
  obtain r call where r: "encode demo_lib demo_rows None [''v'' \<mapsto> demo_slots] ''v'' ''b'' demo_graph None = (demo_db, Inr r)"
      "r_contextCalldata r = Some call"
    unfolding encode_def demo_front
    by (simp add: encode_tail_def demo_owner isExistingSlot_def Let_def) (simp add: demo_lib_def from_coder_def)
  from failed_read_resets_context [OF r] r show ?thesis by (auto simp: demo_lib_def)
qed

end
