(* ===== verification/GraphCheck.thy ===== *)
theory GraphCheck
  imports Graphs JsValues
begin

text \<open>
  The editor's graph checks: validate-graph.ts (the errors that block a deployment, with the
  three-colour cycle search) and is-valid-connection.ts (the search that refuses an edge which
  would close a cycle). Both build an adjacency map and throw when an edge leaves a node that
  does not exist. Lemmas: the cycle search ends within a depth of the number of nodes and
  decides whether the graph has a cycle; the connection search ends and keeps an acyclic graph
  acyclic; an empty error list is exactly the stated well-formedness.
\<close>

section \<open>The adjacency map\<close>

text \<open>A JavaScript \<open>Map\<close> in insertion order; \<open>get(...)!\<close> on a missing key throws.\<close>

datatype graph_error = NoSuchNode string | DepthExceeded

type_synonym adj_map = "(string \<times> string list) list"

fun fill_adj :: "'a gedge_scheme list \<Rightarrow> adj_map \<Rightarrow> graph_error + adj_map" where
  "fill_adj [] adj = Inr adj"
| "fill_adj (e # es) adj =
     (case map_of adj (e_source e) of
        None \<Rightarrow> Inl (NoSuchNode (e_source e))
      | Some ts \<Rightarrow> fill_adj es (alist_set (e_source e) (ts @ [e_target e]) adj))"

definition adjacency :: "string list \<Rightarrow> 'a gedge_scheme list \<Rightarrow> graph_error + adj_map" where
  "adjacency ids es = fill_adj es (fold (\<lambda>i adj. alist_set i [] adj) ids [])"

definition neighbours :: "adj_map \<Rightarrow> string \<Rightarrow> string list" where
  "neighbours adj x = or_else (map_of adj x) []"

lemma fold_empty_adj:
  "map_of (fold (\<lambda>i adj. alist_set i [] adj) ids adj) x = (if x \<in> set ids then Some [] else map_of adj x)"
  by (induction ids arbitrary: adj) (auto simp: map_of_alist_set)

lemma fill_adj_lookup:
  "fill_adj es adj = Inr adj' \<Longrightarrow> map_of adj' x =
     map_option (\<lambda>ts. ts @ map e_target (filter (\<lambda>e. e_source e = x) es)) (map_of adj x)"
proof (induction es arbitrary: adj)
  case Nil
  then show ?case by (cases "map_of adj x") auto
next
  case (Cons e es)
  then show ?case by (auto simp: map_of_alist_set split: option.splits)
qed

lemma fill_adj_ok: "(\<exists>adj'. fill_adj es adj = Inr adj') \<longleftrightarrow> (\<forall>e \<in> set es. map_of adj (e_source e) \<noteq> None)"
proof (induction es arbitrary: adj)
  case (Cons e es)
  show ?case
  proof (cases "map_of adj (e_source e)")
    case (Some ts)
    have same: "map_of (alist_set (e_source e) (ts @ [e_target e]) adj) k \<noteq> None \<longleftrightarrow> map_of adj k \<noteq> None" for k
      using Some by (auto simp: map_of_alist_set)
    have "(\<exists>adj'. fill_adj (e # es) adj = Inr adj') \<longleftrightarrow> (\<forall>f \<in> set es. map_of adj (e_source f) \<noteq> None)"
      using Cons [of "alist_set (e_source e) (ts @ [e_target e]) adj"] Some by (simp only: same fill_adj.simps option.case)
    then show ?thesis using Some by simp
  qed simp
qed simp

lemma adjacency_lookup:
  "adjacency ids es = Inr adj \<Longrightarrow>
   map_of adj x = (if x \<in> set ids then Some (map e_target (filter (\<lambda>e. e_source e = x) es)) else None)"
  by (auto simp: adjacency_def fold_empty_adj dest!: fill_adj_lookup [where x = x])

lemma adjacency_ok: "(\<exists>adj. adjacency ids es = Inr adj) \<longleftrightarrow> e_source ` set es \<subseteq> set ids"
  by (auto simp: adjacency_def fill_adj_ok fold_empty_adj)

lemma adjacency_neighbours:
  assumes "adjacency ids es = Inr adj"
  shows "y \<in> set (neighbours adj x) \<longleftrightarrow> edge_rel es x y"
proof -
  have "e_source ` set es \<subseteq> set ids" using assms adjacency_ok by metis
  then show ?thesis by (auto simp: neighbours_def adjacency_lookup [OF assms] edge_rel_def)
qed

section \<open>Cycles\<close>

text \<open>The edges between nodes, and a graph without a cycle.\<close>

definition arcs :: "string list \<Rightarrow> 'a gedge_scheme list \<Rightarrow> (string \<times> string) set" where
  "arcs ids es = {(a, b). edge_rel es a b \<and> a \<in> set ids \<and> b \<in> set ids}"

definition cyclic :: "string list \<Rightarrow> 'a gedge_scheme list \<Rightarrow> bool" where
  "cyclic ids es \<longleftrightarrow> (\<exists>x. (x, x) \<in> (arcs ids es)\<^sup>+)"

section \<open>hasCycle\<close>

datatype color = White | Gray | Black

type_synonym coloring = "string \<rightharpoonup> color"

text \<open>\<open>None\<close>: the depth bound is used up. \<open>Some (b, col)\<close>: the answer and the colours left.\<close>

fun dfs :: "nat \<Rightarrow> adj_map \<Rightarrow> coloring \<Rightarrow> string \<Rightarrow> (bool \<times> coloring) option"
  and visit :: "nat \<Rightarrow> adj_map \<Rightarrow> coloring \<Rightarrow> string list \<Rightarrow> (bool \<times> coloring) option" where
  "dfs 0 adj col x = None"
| "dfs (Suc depth) adj col x =
     (case visit depth adj (col(x \<mapsto> Gray)) (neighbours adj x) of
        None \<Rightarrow> None
      | Some (True, col') \<Rightarrow> Some (True, col')
      | Some (False, col') \<Rightarrow> Some (False, col'(x \<mapsto> Black)))"
| "visit depth adj col [] = Some (False, col)"
| "visit depth adj col (n # ns) =
     (if col n = Some Gray then Some (True, col)
      else if col n = Some White then
        (case dfs depth adj col n of
           None \<Rightarrow> None
         | Some (True, col') \<Rightarrow> Some (True, col')
         | Some (False, col') \<Rightarrow> visit depth adj col' ns)
      else visit depth adj col ns)"

fun search_all :: "nat \<Rightarrow> adj_map \<Rightarrow> coloring \<Rightarrow> string list \<Rightarrow> bool option" where
  "search_all depth adj col [] = Some False"
| "search_all depth adj col (x # xs) =
     (if col x = Some White then
        (case dfs depth adj col x of
           None \<Rightarrow> None
         | Some (True, col') \<Rightarrow> Some True
         | Some (False, col') \<Rightarrow> search_all depth adj col' xs)
      else search_all depth adj col xs)"

definition all_white :: "string list \<Rightarrow> coloring" where
  "all_white ids = fold (\<lambda>i c. c(i \<mapsto> White)) ids Map.empty"

text \<open>The depth of the recursion is bounded by the number of nodes; the theorem below shows that
  the bound is never reached.\<close>

definition hasCycle :: "string list \<Rightarrow> 'a gedge_scheme list \<Rightarrow> graph_error + bool" where
  "hasCycle ids es =
     rbind (adjacency ids es) (\<lambda>adj.
       case search_all (length ids) adj (all_white ids) ids of None \<Rightarrow> Inl DepthExceeded | Some b \<Rightarrow> Inr b)"

subsection \<open>Invariant of the search\<close>

definition with_color :: "coloring \<Rightarrow> color \<Rightarrow> string set" where
  "with_color col c = {x. col x = Some c}"

text \<open>Finished nodes have only finished successors and lie on no cycle.\<close>

definition search_inv :: "(string \<times> string) set \<Rightarrow> string set \<Rightarrow> coloring \<Rightarrow> bool" where
  "search_inv R V col \<longleftrightarrow> dom col = V \<and>
     (\<forall>x \<in> with_color col Black. \<forall>y. (x, y) \<in> R \<longrightarrow> y \<in> with_color col Black) \<and>
     (\<forall>x \<in> with_color col Black. (x, x) \<notin> R\<^sup>+)"

lemma black_closed:
  assumes "search_inv R V col" "(x, y) \<in> R\<^sup>*" "x \<in> with_color col Black"
  shows "y \<in> with_color col Black"
  using assms(2,1,3) by (induction rule: rtrancl_induct) (auto simp: search_inv_def)

lemma finish_node:
  assumes inv: "search_inv R V col" and x: "col x = Some Gray"
    and succ: "\<And>y. (x, y) \<in> R \<Longrightarrow> col y = Some Black"
  shows "search_inv R V (col(x \<mapsto> Black))"
proof -
  have "(x, x) \<notin> R\<^sup>+"
  proof
    assume "(x, x) \<in> R\<^sup>+"
    then obtain y where "(x, y) \<in> R" "(y, x) \<in> R\<^sup>*" by (meson tranclD)
    then have "x \<in> with_color col Black" using succ black_closed [OF inv] by (auto simp: with_color_def)
    then show False using x by (simp add: with_color_def)
  qed
  then show ?thesis using inv x succ by (auto simp: search_inv_def with_color_def)
qed

lemma start_node:
  assumes "search_inv R V col" "col x = Some White"
  shows "search_inv R V (col(x \<mapsto> Gray))"
  using assms by (auto simp: search_inv_def with_color_def)

text \<open>What a completed call guarantees.\<close>

definition search_post ::
  "(string \<times> string) set \<Rightarrow> string set \<Rightarrow> coloring \<Rightarrow> string set \<Rightarrow> (bool \<times> coloring) option \<Rightarrow> bool" where
  "search_post R V col done res \<longleftrightarrow>
     (\<exists>b col'. res = Some (b, col') \<and>
        (if b then \<exists>x. (x, x) \<in> R\<^sup>+
         else search_inv R V col' \<and> with_color col' Gray = with_color col Gray \<and>
           with_color col' White \<subseteq> with_color col White \<and>
           with_color col Black \<union> done \<subseteq> with_color col' Black))"

lemma search_postI:
  "(\<exists>x. (x, x) \<in> R\<^sup>+) \<Longrightarrow> search_post R V col done (Some (True, col'))"
  by (auto simp: search_post_def)

lemma search_post_False:
  "search_inv R V col' \<Longrightarrow> with_color col' Gray = with_color col Gray \<Longrightarrow>
   with_color col' White \<subseteq> with_color col White \<Longrightarrow> with_color col Black \<union> done \<subseteq> with_color col' Black \<Longrightarrow>
   search_post R V col done (Some (False, col'))"
  by (auto simp: search_post_def)

lemma search_postE:
  assumes "search_post R V col done res"
  obtains col' x where "res = Some (True, col')" "(x, x) \<in> R\<^sup>+"
  | col' where "res = Some (False, col')" "search_inv R V col'" "with_color col' Gray = with_color col Gray"
      "with_color col' White \<subseteq> with_color col White" "with_color col Black \<union> done \<subseteq> with_color col' Black"
  using assms by (auto simp: search_post_def split: if_splits)

lemma search_post_more:
  assumes "search_post R V col done res" "x \<in> with_color col Black"
  shows "search_post R V col (insert x done) res"
  using assms(1) by (rule search_postE) (use assms(2) in \<open>auto simp: search_post_def\<close>)

lemma search_post_trans:
  assumes post: "search_post R V col' done res"
    and sub: "with_color col' Gray = with_color col Gray" "with_color col' White \<subseteq> with_color col White"
      "with_color col Black \<union> {x} \<subseteq> with_color col' Black"
  shows "search_post R V col (insert x done) res"
  using post
proof (rule search_postE)
  fix col'' assume r: "res = Some (False, col'')" "search_inv R V col''"
    "with_color col'' Gray = with_color col' Gray" "with_color col'' White \<subseteq> with_color col' White"
    "with_color col' Black \<union> done \<subseteq> with_color col'' Black"
  show ?thesis unfolding r(1)
    by (rule search_post_False) (use r(2-) sub in \<open>simp_all, blast+\<close>)
qed (auto intro: search_postI)

lemma with_color_upd:
  "with_color (col(x \<mapsto> c)) d = (if c = d then insert x (with_color col d) else with_color col d - {x})"
  by (auto simp: with_color_def)

lemma search_correct:
  fixes R :: "(string \<times> string) set"
  assumes adj: "\<And>x y. x \<in> V \<Longrightarrow> y \<in> V \<Longrightarrow> y \<in> set (neighbours adj x) \<longleftrightarrow> (x, y) \<in> R"
    and RV: "R \<subseteq> V \<times> V" and fin: "finite V"
  shows dfs_correct: "search_inv R V col \<Longrightarrow> col x = Some White \<Longrightarrow> card (with_color col White) \<le> depth \<Longrightarrow>
      (\<And>g. g \<in> with_color col Gray \<Longrightarrow> (g, x) \<in> R\<^sup>*) \<Longrightarrow> search_post R V col {x} (dfs depth adj col x)"
    and visit_correct: "search_inv R V col \<Longrightarrow> card (with_color col White) \<le> depth \<Longrightarrow>
      (\<And>g n. g \<in> with_color col Gray \<Longrightarrow> n \<in> set ns \<inter> V \<Longrightarrow> (g, n) \<in> R\<^sup>+) \<Longrightarrow>
      search_post R V col (set ns \<inter> V) (visit depth adj col ns)"
  using adj
proof (induction depth adj col x and depth adj col ns rule: dfs_visit.induct)
  case (1 adj col x)
  have "with_color col White \<subseteq> V" using "1.prems"(1) by (auto simp: search_inv_def with_color_def)
  then have "finite (with_color col White)" using fin by (rule finite_subset)
  moreover have "x \<in> with_color col White" using "1.prems"(2) by (simp add: with_color_def)
  ultimately show ?case using "1.prems"(3) by auto
next
  case (2 depth adj col x)
  let ?col = "col(x \<mapsto> Gray)"
  have x: "x \<in> V" "x \<in> with_color col White"
    using "2.prems"(1,2) by (auto simp: search_inv_def with_color_def)
  have "with_color col White \<subseteq> V" using "2.prems"(1) by (auto simp: search_inv_def with_color_def)
  then have "finite (with_color col White)" using fin by (rule finite_subset)
  then have less: "card (with_color ?col White) \<le> depth"
    using "2.prems"(3) x(2) by (simp add: with_color_upd)
  have inv: "search_inv R V ?col" by (rule start_node) (use "2.prems" in auto)
  have path: "(g, n) \<in> R\<^sup>+" if "g \<in> with_color ?col Gray" "n \<in> set (neighbours adj x) \<inter> V" for g n
  proof -
    have "(x, n) \<in> R" using "2.prems"(5) [of x n] x(1) that(2) by blast
    moreover have "(g, x) \<in> R\<^sup>*" using that(1) "2.prems"(4) by (auto simp: with_color_upd)
    ultimately show ?thesis by (rule rtrancl_into_trancl1 [rotated])
  qed
  from "2.IH" [OF inv less path "2.prems"(5)]
  have post: "search_post R V ?col (set (neighbours adj x) \<inter> V) (visit depth adj ?col (neighbours adj x))" by blast
  then show ?case
  proof (cases rule: search_postE)
    case (1 col' y)
    then show ?thesis by (auto intro: search_postI)
  next
    case (2 col')
    have "x \<in> with_color col' Gray" unfolding 2(3) by (simp add: with_color_def)
    then have gray: "col' x = Some Gray" by (simp add: with_color_def)
    have succ: "col' y = Some Black" if "(x, y) \<in> R" for y
    proof -
      have y: "y \<in> V" using that RV by auto
      then have "y \<in> set (neighbours adj x) \<inter> V" using that "2.prems"(5) [OF x(1) y] by simp
      then show ?thesis using 2(5) by (auto simp: with_color_def)
    qed
    have "search_post R V col {x} (Some (False, col'(x \<mapsto> Black)))"
    proof (rule search_post_False)
      show "search_inv R V (col'(x \<mapsto> Black))" by (rule finish_node [OF 2(2) gray succ])
      have "x \<notin> with_color col Gray" using "2.prems"(2) by (simp add: with_color_def)
      then show "with_color (col'(x \<mapsto> Black)) Gray = with_color col Gray"
        using 2(3) by (auto simp: with_color_upd)
    qed (use 2(4,5) x(2) in \<open>auto simp: with_color_upd\<close>)
    then show ?thesis by (simp add: 2(1))
  qed
next
  case (3 depth adj col)
  then show ?case by (auto intro: search_post_False)
next
  case (4 depth adj col n ns)
  show ?case
  proof (cases "col n")
    case None
    then have "n \<notin> V" using "4.prems"(1) by (auto simp: search_inv_def)
    then have "search_post R V col (set ns \<inter> V) (visit depth adj col ns)" using "4.IH"(3) "4.prems" None by simp
    then show ?thesis using None \<open>n \<notin> V\<close> by simp
  next
    case (Some c)
    then have n: "n \<in> V" using "4.prems"(1) by (auto simp: search_inv_def)
    show ?thesis
    proof (cases c)
      case Gray
      then have "(n, n) \<in> R\<^sup>+" using "4.prems"(3) [of n n] Some n by (simp add: with_color_def)
      then show ?thesis using Some Gray by (auto intro: search_postI)
    next
      case Black
      then have "search_post R V col (set ns \<inter> V) (visit depth adj col ns)" using "4.IH"(3) "4.prems" Some by simp
      moreover have "n \<in> with_color col Black" using Some Black by (simp add: with_color_def)
      ultimately show ?thesis using Some Black n search_post_more by simp
    next
      case White
      then have w: "col n = Some White" using Some by simp
      have to_n: "(g, n) \<in> R\<^sup>*" if "g \<in> with_color col Gray" for g
        using "4.prems"(3) [OF that, of n] n by (simp add: trancl_into_rtrancl)
      have "search_post R V col {n} (dfs depth adj col n)"
        using "4.IH"(1) [OF _ w "4.prems"(1) w "4.prems"(2) to_n "4.prems"(4)] w by simp
      then show ?thesis
      proof (cases rule: search_postE)
        case (1 col' y)
        then show ?thesis using w by (auto intro: search_postI)
      next
        case (2 col')
        have "with_color col White \<subseteq> V" using "4.prems"(1) by (auto simp: search_inv_def with_color_def)
        then have "card (with_color col' White) \<le> depth"
          using 2(4) "4.prems"(2) fin by (meson card_mono finite_subset le_trans)
        then have "search_post R V col' (set ns \<inter> V) (visit depth adj col' ns)"
          using "4.IH"(2) [OF _ w 2(1) refl refl 2(2) _ _ "4.prems"(4)] w 2(3) "4.prems"(3) by simp
        then have "search_post R V col (insert n (set ns \<inter> V)) (visit depth adj col' ns)"
          by (rule search_post_trans [OF _ 2(3,4,5)])
        then show ?thesis using 2(1) w n by simp
      qed
    qed
  qed
qed

lemma search_all_correct:
  assumes adj: "\<And>x y. x \<in> V \<Longrightarrow> y \<in> V \<Longrightarrow> y \<in> set (neighbours adj x) \<longleftrightarrow> (x, y) \<in> R"
    and RV: "R \<subseteq> V \<times> V" and fin: "finite V" "card V \<le> depth"
  shows "search_inv R V col \<Longrightarrow> with_color col Gray = {} \<Longrightarrow> set xs \<subseteq> V \<Longrightarrow>
    (\<exists>x. (x, x) \<in> R\<^sup>+) \<and> search_all depth adj col xs = Some True \<or>
    (\<exists>col'. search_all depth adj col xs = Some False \<and> search_inv R V col' \<and>
      with_color col Black \<union> set xs \<subseteq> with_color col' Black)"
proof (induction xs arbitrary: col)
  case Nil
  then show ?case by auto
next
  case (Cons x xs)
  show ?case
  proof (cases "col x = Some White")
    case True
    have "with_color col White \<subseteq> V" using Cons.prems(1) by (auto simp: search_inv_def with_color_def)
    then have "card (with_color col White) \<le> depth" using fin card_mono le_trans by blast
    then have "search_post R V col {x} (dfs depth adj col x)"
      using dfs_correct [OF adj RV fin(1) Cons.prems(1) True] Cons.prems(2) by blast
    then show ?thesis
    proof (cases rule: search_postE)
      case (2 col')
      have "set xs \<subseteq> V" using Cons.prems(3) by simp
      from Cons.IH [OF 2(2) _ this] 2(3) Cons.prems(2) consider
          "\<exists>x. (x, x) \<in> R\<^sup>+" "search_all depth adj col' xs = Some True"
        | col'' where "search_all depth adj col' xs = Some False" "search_inv R V col''"
            "with_color col' Black \<union> set xs \<subseteq> with_color col'' Black" by auto
      then show ?thesis
      proof cases
        case (2 col'')
        moreover have "with_color col Black \<union> set (x # xs) \<subseteq> with_color col'' Black"
          using \<open>with_color col Black \<union> {x} \<subseteq> with_color col' Black\<close> 2(3) by auto
        ultimately show ?thesis using \<open>dfs depth adj col x = Some (False, col')\<close> True by auto
      qed (use 2(1) True in auto)
    qed (use True in auto)
  next
    case False
    have "x \<in> V" "x \<notin> with_color col Gray" using Cons.prems by auto
    then have "x \<in> with_color col Black"
      using False Cons.prems(1) by (cases "col x"; cases "the (col x)") (auto simp: search_inv_def with_color_def)
    then show ?thesis using Cons.IH [OF Cons.prems(1,2)] Cons.prems(3) False by auto
  qed
qed

lemma all_white_eq: "all_white ids x = (if x \<in> set ids then Some White else None)"
proof -
  have "fold (\<lambda>i c. c(i \<mapsto> White)) ids c x = (if x \<in> set ids then Some White else c x)" for c
    by (induction ids arbitrary: c) auto
  then show ?thesis by (simp add: all_white_def)
qed

lemma search_all_decides:
  assumes "adjacency ids es = Inr adj"
  shows "search_all (length ids) adj (all_white ids) ids = Some (cyclic ids es)"
proof -
  let ?R = "arcs ids es" and ?V = "set ids"
  have R: "y \<in> set (neighbours adj x) \<longleftrightarrow> (x, y) \<in> ?R" if "x \<in> ?V" "y \<in> ?V" for x y
    using that adjacency_neighbours [OF assms] by (simp add: arcs_def)
  have sub: "?R \<subseteq> ?V \<times> ?V" by (auto simp: arcs_def)
  have inv: "search_inv ?R ?V (all_white ids)" "with_color (all_white ids) Gray = {}"
    by (auto simp: search_inv_def with_color_def all_white_eq dom_def split: if_splits)
  have "card ?V \<le> length ids" by (rule card_length)
  from search_all_correct [OF R sub _ this inv, of ids] consider
      "cyclic ids es" "search_all (length ids) adj (all_white ids) ids = Some True"
    | col' where "search_all (length ids) adj (all_white ids) ids = Some False" "search_inv ?R ?V col'"
        "?V \<subseteq> with_color col' Black" by (auto simp: cyclic_def)
  then show ?thesis
  proof cases
    case (2 col')
    have "(x, x) \<notin> ?R\<^sup>+" for x
    proof
      assume x: "(x, x) \<in> ?R\<^sup>+"
      then have "x \<in> ?V" using sub trancl_subset_Sigma by blast
      then show False using x 2(2,3) by (auto simp: search_inv_def)
    qed
    then show ?thesis using 2(1) by (simp add: cyclic_def)
  qed simp
qed

text \<open>C27. The editor's cycle search ends without reaching its depth bound and decides cyclicity: it
  throws exactly when an edge leaves a node that does not exist, and otherwise answers whether the
  graph has a cycle.\<close>

theorem hasCycle_decides:
  "hasCycle ids es \<noteq> Inl DepthExceeded \<and>
   (hasCycle ids es = Inr b \<longleftrightarrow> e_source ` set es \<subseteq> set ids \<and> b = cyclic ids es)"
proof (cases "adjacency ids es")
  case (Inl e)
  then have "\<not> e_source ` set es \<subseteq> set ids" using adjacency_ok [of ids es] by auto
  moreover have "fill_adj es adj \<noteq> Inl DepthExceeded" for adj
    by (induction es arbitrary: adj) (auto split: option.splits)
  then have "e \<noteq> DepthExceeded" using Inl by (auto simp: adjacency_def)
  ultimately show ?thesis by (simp add: hasCycle_def Inl)
next
  case (Inr adj)
  then have "e_source ` set es \<subseteq> set ids" using adjacency_ok [of ids es] by auto
  then show ?thesis using search_all_decides [OF Inr] by (auto simp: hasCycle_def Inr)
qed

lemma hasCycle_value:
  "hasCycle ids es = (if e_source ` set es \<subseteq> set ids then Inr (cyclic ids es) else hasCycle ids es)"
proof (cases "e_source ` set es \<subseteq> set ids")
  case True
  then obtain adj where "adjacency ids es = Inr adj" using adjacency_ok [of ids es] by auto
  then show ?thesis using search_all_decides [of ids es adj] True by (simp add: hasCycle_def)
qed simp

section \<open>isValidConnection\<close>

definition stack_universe :: "adj_map \<Rightarrow> string list \<Rightarrow> string set" where
  "stack_universe adj stack = \<Union> (set ` snd ` set adj) \<union> set stack"

lemma neighbours_universe: "set (neighbours adj x) \<subseteq> \<Union> (set ` snd ` set adj)"
proof (cases "map_of adj x")
  case (Some ts)
  then show ?thesis by (force simp: neighbours_def dest: map_of_SomeD)
qed (simp add: neighbours_def)

text \<open>The stack has its top first.\<close>

function search_stack :: "adj_map \<Rightarrow> string \<Rightarrow> string list \<Rightarrow> string set \<Rightarrow> bool" where
  "search_stack adj source [] visited = True"
| "search_stack adj source (x # stack) visited =
     (if x = source then False
      else if x \<in> visited then search_stack adj source stack visited
      else search_stack adj source (rev (neighbours adj x) @ stack) (insert x visited))"
  by pat_completeness auto

termination
proof (relation "measures [\<lambda>(adj, s, stack, visited). card (stack_universe adj stack - visited),
    \<lambda>(adj, s, stack, visited). length stack]")
  fix adj and source x :: string and stack visited
  assume "x \<noteq> source"
  show "((adj, source, stack, visited), adj, source, x # stack, visited)
      \<in> measures [\<lambda>(adj, s, stack, visited). card (stack_universe adj stack - visited),
        \<lambda>(adj, s, stack, visited). length stack]"
  proof -
    have "card (stack_universe adj stack - visited) \<le> card (stack_universe adj (x # stack) - visited)"
      by (rule card_mono) (auto simp: stack_universe_def)
    then show ?thesis by auto
  qed
  assume new: "x \<notin> visited"
  show "((adj, source, rev (neighbours adj x) @ stack, insert x visited), adj, source, x # stack, visited)
      \<in> measures [\<lambda>(adj, s, stack, visited). card (stack_universe adj stack - visited),
        \<lambda>(adj, s, stack, visited). length stack]"
  proof -
    have "stack_universe adj (rev (neighbours adj x) @ stack) - insert x visited
        \<subset> stack_universe adj (x # stack) - visited"
      using new neighbours_universe [of adj x] by (auto simp: stack_universe_def)
    then have "card (stack_universe adj (rev (neighbours adj x) @ stack) - insert x visited)
        < card (stack_universe adj (x # stack) - visited)"
      by (rule psubset_card_mono [rotated]) (auto simp: stack_universe_def)
    then show ?thesis by simp
  qed
qed simp

definition isValidConnection ::
  "string \<Rightarrow> string \<Rightarrow> string list \<Rightarrow> 'a gedge_scheme list \<Rightarrow> graph_error + bool" where
  "isValidConnection source target ids es =
     (if source = target then Inr False
      else rbind (adjacency ids es) (\<lambda>adj. Inr (search_stack adj source [target] {})))"

text \<open>The visited nodes are closed up to the stack, and none of them is the source.\<close>

lemma search_stack_iff:
  assumes "\<And>x y. x \<in> visited \<Longrightarrow> y \<in> set (neighbours adj x) \<Longrightarrow> y \<in> visited \<union> set stack"
    and "source \<notin> visited"
  shows "search_stack adj source stack visited \<longleftrightarrow>
    (\<forall>x \<in> set stack. (x, source) \<notin> {(a, b). b \<in> set (neighbours adj a)}\<^sup>*) \<and>
    (\<forall>x \<in> visited. (x, source) \<notin> {(a, b). b \<in> set (neighbours adj a)}\<^sup>*)"
  using assms
proof (induction adj source stack visited rule: search_stack.induct)
  case (1 adj source visited)
  let ?R = "{(a, b). b \<in> set (neighbours adj a)}"
  have "y \<in> visited" if "(x, y) \<in> ?R\<^sup>*" "x \<in> visited" for x y
    using that by (induction rule: rtrancl_induct) (use "1.prems"(1) in auto)
  then show ?case using "1.prems"(2) by auto
next
  case (2 adj source x stack visited)
  let ?R = "{(a, b). b \<in> set (neighbours adj a)}"
  show ?case
  proof (cases "x = source")
    case False
    show ?thesis
    proof (cases "x \<in> visited")
      case True
      have "y \<in> visited \<union> set stack" if "a \<in> visited" "y \<in> set (neighbours adj a)" for a y
        using "2.prems"(1) [OF that] True by auto
      then have ih: "search_stack adj source stack visited \<longleftrightarrow> (\<forall>y \<in> set stack. (y, source) \<notin> ?R\<^sup>*) \<and>
          (\<forall>y \<in> visited. (y, source) \<notin> ?R\<^sup>*)"
        by (rule "2.IH"(1) [OF False True _ "2.prems"(2)])
      show ?thesis using False True by (simp only: search_stack.simps if_False if_True ih) auto
    next
      case new: False
      have ih: "search_stack adj source (rev (neighbours adj x) @ stack) (insert x visited) \<longleftrightarrow>
        (\<forall>y \<in> set (rev (neighbours adj x) @ stack). (y, source) \<notin> ?R\<^sup>*) \<and> (\<forall>y \<in> insert x visited. (y, source) \<notin> ?R\<^sup>*)"
        by (rule "2.IH"(2) [OF False new]) (use "2.prems" False in auto)
      have "(x, source) \<in> ?R\<^sup>* \<longleftrightarrow> (\<exists>y \<in> set (neighbours adj x). (y, source) \<in> ?R\<^sup>*)"
        using False by (auto intro: converse_rtrancl_into_rtrancl elim: converse_rtranclE)
      then show ?thesis using False new by (simp only: search_stack.simps if_False ih) auto
    qed
  qed auto
qed

lemma reaches_rtrancl: "reaches es a b \<longleftrightarrow> (a, b) \<in> {(x, y). edge_rel es x y}\<^sup>*"
proof
  show "reaches es a b \<Longrightarrow> (a, b) \<in> {(x, y). edge_rel es x y}\<^sup>*"
    by (induction rule: reaches.induct) (auto intro: rtrancl_into_rtrancl)
  show "(a, b) \<in> {(x, y). edge_rel es x y}\<^sup>* \<Longrightarrow> reaches es a b"
    by (induction rule: rtrancl_induct) (auto intro: reaches.intros)
qed

lemma isValidConnection_reaches:
  assumes "isValidConnection source target ids es = Inr b"
  shows "b \<longleftrightarrow> source \<noteq> target \<and> \<not> reaches es target source"
proof (cases "source = target")
  case True
  then show ?thesis using assms by (auto simp: isValidConnection_def)
next
  case False
  then obtain adj where adj: "adjacency ids es = Inr adj" "b = search_stack adj source [target] {}"
    using assms by (auto simp: isValidConnection_def result_simps)
  have "{(a, b). b \<in> set (neighbours adj a)} = {(x, y). edge_rel es x y}"
    using adjacency_neighbours [OF adj(1)] by auto
  then show ?thesis using search_stack_iff [of "{}" adj "[target]" source] adj(2) False
    by (simp add: reaches_rtrancl)
qed

lemma cyclic_insert:
  assumes "e_source e \<in> set ids" "e_target e \<in> set ids" "set es' = insert e (set es)"
  shows "cyclic ids es' \<longleftrightarrow> cyclic ids es \<or> (e_target e, e_source e) \<in> (arcs ids es)\<^sup>*"
proof -
  have "arcs ids es' = insert (e_source e, e_target e) (arcs ids es)"
    using assms by (auto simp: arcs_def edge_rel_def)
  then show ?thesis by (auto simp: cyclic_def trancl_insert intro: rtrancl_trans)
qed

lemma arcs_reaches:
  assumes "e_source ` set es \<subseteq> set ids" "e_target ` set es \<subseteq> set ids"
  shows "(a, b) \<in> (arcs ids es)\<^sup>* \<longleftrightarrow> reaches es a b"
proof -
  have "arcs ids es = {(x, y). edge_rel es x y}" using assms by (auto simp: arcs_def edge_rel_def)
  then show ?thesis by (simp add: reaches_rtrancl)
qed

text \<open>In an acyclic graph whose edges join its nodes, the editor accepts a connection between
  two nodes exactly when adding the edge leaves the graph acyclic.\<close>

theorem isValidConnection_exact:
  assumes "\<not> cyclic ids es" and "e_source ` set es \<union> e_target ` set es \<subseteq> set ids"
    and "e_source e \<in> set ids" and "e_target e \<in> set ids"
  shows "isValidConnection (e_source e) (e_target e) ids es = Inr (\<not> cyclic ids (es @ [e]))"
proof -
  obtain adj where adj: "adjacency ids es = Inr adj" using assms(2) adjacency_ok [of ids es] by auto
  then obtain b where b: "isValidConnection (e_source e) (e_target e) ids es = Inr b"
    by (cases "e_source e = e_target e") (auto simp: isValidConnection_def)
  have "cyclic ids (es @ [e]) \<longleftrightarrow> (e_target e, e_source e) \<in> (arcs ids es)\<^sup>*"
    using cyclic_insert [of e ids "es @ [e]" es] assms(1,3,4) by simp
  also have "\<dots> \<longleftrightarrow> reaches es (e_target e) (e_source e)" by (rule arcs_reaches) (use assms(2) in auto)
  finally have "cyclic ids (es @ [e]) \<longleftrightarrow> \<not> b"
    using isValidConnection_reaches [OF b] by (auto intro: reaches_refl)
  then show ?thesis using b by simp
qed

definition demo_edges :: "gedge list" where
  "demo_edges = [\<lparr>e_source = ''a'', e_target = ''b'', e_handle = ''out''\<rparr>]"

lemma demo_acyclic: "\<not> cyclic [''a'', ''b''] demo_edges"
  using hasCycle_value [of "[''a'', ''b'']" demo_edges]
  by (simp add: demo_edges_def hasCycle_def adjacency_def all_white_def neighbours_def)

lemma isValidConnection_exact_witness:
  "isValidConnection ''b'' ''a'' [''a'', ''b''] demo_edges = Inr False \<and>
   cyclic [''a'', ''b''] (demo_edges @ [\<lparr>e_source = ''b'', e_target = ''a'', e_handle = ''out''\<rparr>])"
proof -
  let ?e = "\<lparr>e_source = ''b'', e_target = ''a'', e_handle = ''out''\<rparr> :: gedge"
  have "isValidConnection ''b'' ''a'' [''a'', ''b''] demo_edges = Inr False"
    by (simp add: isValidConnection_def demo_edges_def adjacency_def neighbours_def)
  with isValidConnection_exact [OF demo_acyclic, of ?e] show ?thesis by (simp add: demo_edges_def)
qed

section \<open>validateGraph\<close>

record graph_node =
  gn_id :: string
  gn_type :: string
  gn_position :: "rat \<times> rat"
  gn_measured :: "(rat \<times> rat) option"
  gn_stepTypeId :: string
  gn_label :: string
  gn_contractAddress :: string
  gn_selector :: string
  gn_params :: params

datatype graph_message =
    EmptyGraph
  | TooManyNodes
  | NoStart
  | MultipleStarts
  | PublicStartsWithAction
  | HasCycle
  | ConditionWithoutEdge
  | ActionWithManyEdges
  | UnreachableNode

type_synonym graph_finding = "graph_message \<times> string option"

definition start_nodes :: "graph_node list \<Rightarrow> 'a gedge_scheme list \<Rightarrow> graph_node list" where
  "start_nodes ns es = filter (\<lambda>n. is_start (map gn_id ns) es (gn_id n)) ns"

definition start_errors :: "graph_node list \<Rightarrow> bool \<Rightarrow> graph_finding list" where
  "start_errors starts isPublic =
     (if length starts = 0 then [(NoStart, None)]
      else if 1 < length starts then map (\<lambda>n. (MultipleStarts, Some (gn_id n))) starts else []) @
     (if length starts = 1 \<and> isPublic \<and> gn_type (hd starts) = ''ACTION''
      then [(PublicStartsWithAction, Some (gn_id (hd starts)))] else [])"

definition edge_errors :: "'a gedge_scheme list \<Rightarrow> graph_node \<Rightarrow> graph_finding list" where
  "edge_errors es n =
     (let outs = out_edges es (gn_id n) in
      (if gn_type n = ''CONDITION'' \<and> length outs = 0 then [(ConditionWithoutEdge, Some (gn_id n))] else []) @
      (if gn_type n = ''ACTION'' \<and> 1 < length outs then [(ActionWithManyEdges, Some (gn_id n))] else []))"

text \<open>The visited set of the reachability loop is the set of nodes it takes off its queue.\<close>

definition reach_errors :: "graph_node list \<Rightarrow> 'a gedge_scheme list \<Rightarrow> graph_node list \<Rightarrow> graph_finding list" where
  "reach_errors ns es starts =
     (if length starts = 1 then
        (let reachable = set (bfs_order es (gn_id (hd starts))) in
         map (\<lambda>n. (UnreachableNode, Some (gn_id n))) (filter (\<lambda>n. gn_id n \<notin> reachable) ns))
      else [])"

definition validateGraph :: "graph_node list \<Rightarrow> 'a gedge_scheme list \<Rightarrow> bool \<Rightarrow> graph_error + graph_finding list" where
  "validateGraph ns es isPublic =
     (if length ns = 0 then Inr [(EmptyGraph, None)]
      else if 256 < length ns then Inr [(TooManyNodes, None)]
      else let starts = start_nodes ns es in
        rbind (hasCycle (map gn_id ns) es) (\<lambda>cycle.
          Inr (start_errors starts isPublic @ (if cycle then [(HasCycle, None)] else []) @
            concat (map (edge_errors es) ns) @ reach_errors ns es starts)))"

text \<open>The graphs the editor lets a user deploy.\<close>

definition graph_ok :: "graph_node list \<Rightarrow> 'a gedge_scheme list \<Rightarrow> bool \<Rightarrow> bool" where
  "graph_ok ns es isPublic \<longleftrightarrow> 0 < length ns \<and> length ns \<le> 256 \<and> e_source ` set es \<subseteq> gn_id ` set ns \<and>
     \<not> cyclic (map gn_id ns) es \<and>
     (\<exists>n. start_nodes ns es = [n] \<and> (isPublic \<longrightarrow> gn_type n \<noteq> ''ACTION'') \<and>
       (\<forall>m \<in> set ns. reaches es (gn_id n) (gn_id m))) \<and>
     (\<forall>n \<in> set ns. (gn_type n = ''CONDITION'' \<longrightarrow> (\<exists>e \<in> set es. e_source e = gn_id n)) \<and>
       (gn_type n = ''ACTION'' \<longrightarrow> length (filter (\<lambda>e. e_source e = gn_id n) es) \<le> 1))"

lemma validateGraph_ok:
  "validateGraph ns es isPublic = Inr [] \<longleftrightarrow> graph_ok ns es isPublic"
proof (cases "0 < length ns \<and> length ns \<le> 256 \<and> e_source ` set es \<subseteq> gn_id ` set ns")
  case True
  then have cycle: "hasCycle (map gn_id ns) es = Inr (cyclic (map gn_id ns) es)"
    using hasCycle_value [of "map gn_id ns" es] by simp
  have one: "edge_errors es n = [] \<longleftrightarrow> (gn_type n = ''CONDITION'' \<longrightarrow> (\<exists>e \<in> set es. e_source e = gn_id n)) \<and>
       (gn_type n = ''ACTION'' \<longrightarrow> length (filter (\<lambda>e. e_source e = gn_id n) es) \<le> 1)" for n
    by (cases "gn_type n = ''CONDITION''")
      (auto simp: edge_errors_def out_edges_filter Let_def filter_empty_conv not_less)
  have edges: "concat (map (edge_errors es) ns) = [] \<longleftrightarrow>
      (\<forall>n \<in> set ns. (gn_type n = ''CONDITION'' \<longrightarrow> (\<exists>e \<in> set es. e_source e = gn_id n)) \<and>
       (gn_type n = ''ACTION'' \<longrightarrow> length (filter (\<lambda>e. e_source e = gn_id n) es) \<le> 1))"
    by (simp add: one)
  have "start_errors (start_nodes ns es) isPublic = [] \<and> reach_errors ns es (start_nodes ns es) = [] \<longleftrightarrow>
      (\<exists>n. start_nodes ns es = [n] \<and> (isPublic \<longrightarrow> gn_type n \<noteq> ''ACTION'') \<and>
       (\<forall>m \<in> set ns. reaches es (gn_id n) (gn_id m)))"
  proof (cases "start_nodes ns es")
    case (Cons n rest)
    then show ?thesis
      by (cases rest) (auto simp: start_errors_def reach_errors_def filter_empty_conv bfs.order_iff)
  qed (simp add: start_errors_def)
  with True edges cycle show ?thesis by (auto simp: validateGraph_def graph_ok_def Let_def)
next
  case False
  then consider "length ns = 0" | "256 < length ns"
    | "\<not> e_source ` set es \<subseteq> gn_id ` set ns" "0 < length ns" "length ns \<le> 256" by linarith
  then show ?thesis
  proof cases
    case 3
    then have "adjacency (map gn_id ns) es \<noteq> Inr adj" for adj using adjacency_ok [of "map gn_id ns" es] by auto
    then obtain e where "hasCycle (map gn_id ns) es = Inl e"
      by (cases "adjacency (map gn_id ns) es") (auto simp: hasCycle_def)
    then show ?thesis using 3 by (auto simp: validateGraph_def graph_ok_def Let_def)
  qed (auto simp: validateGraph_def graph_ok_def)
qed

text \<open>The editor's graph check returns no error exactly for the graphs with 1 to 256 nodes, edges
  that leave existing nodes, no cycle, one start node (a condition when the automation is public)
  from which every node is reachable, an edge out of every condition and at most one out of every
  action.\<close>

theorem validateGraph_exact:
  "validateGraph ns es isPublic = Inr [] \<longleftrightarrow> graph_ok ns es isPublic"
  by (rule validateGraph_ok)

end
