(* ===== verification/Editor.thy ===== *)
theory Editor
  imports GraphCheck Boundary
begin

text \<open>
  The automation editor's store (editor-store.ts) with every action, and the layout and pool
  helpers it uses (auto-layout.ts, pool-validity.ts). The functions of the React Flow and dagre
  packages are parameters. Positions are exact rationals; \<open>structuredClone\<close> is the identity on
  values; a debounced or deferred validation is the flag \<open>ed_scheduled\<close> and the step that runs it.
  Lemmas: the history never exceeds its bound and undo and redo are inverse, each editing action
  can be undone, deleting never leaves a dangling edge, the two loads of context variables
  commute, and an empty error list after a validation is what the deployment needs.
\<close>

section \<open>State\<close>

record editor_node =
  en_id :: string
  en_type :: "string option"
  en_position :: "rat \<times> rat"
  en_selected :: bool
  en_stepTypeId :: string
  en_stepTypeName :: string
  en_category :: string
  en_contractAddress :: string
  en_selector :: string
  en_params :: params

record editor_edge =
  ee_id :: string
  ee_source :: string
  ee_target :: string
  ee_handle :: "string option"
  ee_selected :: bool
  ee_label :: string
  ee_stroke :: string

record step_type_option =
  so_id :: string
  so_name :: string
  so_category :: string
  so_contractAddress :: string
  so_selector :: string
  so_paramSchema :: "param_schema option"

record context_variable =
  cv_slotIndex :: nat
  cv_name :: string
  cv_type :: string
  cv_description :: string
  cv_createdBy :: "string option"

datatype error_text = GraphText graph_message | ParamText message | NoPool

record validation_error =
  ve_text :: error_text
  ve_nodeId :: "string option"
  ve_fieldName :: "string option"

type_synonym snapshot = "editor_node list \<times> editor_edge list"

datatype save_status = Idle | Saving | Saved | SaveError

record editor_state =
  ed_nodes :: "editor_node list"
  ed_edges :: "editor_edge list"
  ed_selectedNodeId :: "string option"
  ed_label :: string
  ed_description :: string
  ed_validationErrors :: "validation_error list"
  ed_ownerOnly :: bool
  ed_isDirty :: bool
  ed_saveStatus :: save_status
  ed_past :: "snapshot list"
  ed_future :: "snapshot list"
  ed_clipboard :: "snapshot option"
  ed_contextVariables :: "context_variable list"
  ed_contextTab :: bool
  ed_stepSchemas :: step_schemas
  ed_tokenDecimals :: token_decimals
  ed_vaultAddress :: string
  ed_externalErrors :: "validation_error list"
  ed_nodeCounter :: nat
  ed_scheduled :: bool

definition initial_editor :: editor_state where
  "initial_editor = \<lparr>ed_nodes = [], ed_edges = [], ed_selectedNodeId = None, ed_label = [], ed_description = [],
     ed_validationErrors = [], ed_ownerOnly = False, ed_isDirty = False, ed_saveStatus = Idle, ed_past = [],
     ed_future = [], ed_clipboard = None, ed_contextVariables = [], ed_contextTab = False,
     ed_stepSchemas = Map.empty, ed_tokenDecimals = Map.empty, ed_vaultAddress = [], ed_externalErrors = [],
     ed_nodeCounter = 0, ed_scheduled = False\<rparr>"

section \<open>Default parameters of a new node\<close>

fun truthy :: "jsval \<Rightarrow> bool" where
  "truthy JUndef = False"
| "truthy JNull = False"
| "truthy (JBool b) = b"
| "truthy (JNum n) = (n \<noteq> Fin 0 \<and> n \<noteq> NaN)"
| "truthy (JBig i) = (i \<noteq> 0)"
| "truthy (JStr s) = (s \<noteq> [])"
| "truthy (JArr vs) = True"
| "truthy (JObj kvs) = True"

definition member :: "jsval \<Rightarrow> string \<Rightarrow> jsval" where
  "member v k = (case v of JObj kvs \<Rightarrow> or_else (map_of kvs k) JUndef | _ \<Rightarrow> JUndef)"

definition time_slot_name :: "string \<Rightarrow> string" where
  "time_slot_name nodeId = ''__time_'' @ nodeId"

definition materializeField ::
  "string \<Rightarrow> string \<Rightarrow> int \<Rightarrow> string \<times> field_schema \<Rightarrow> params \<Rightarrow> params" where
  "materializeField nodeId vaultAddress nowMs entry ps =
     (case entry of (name, fs) \<Rightarrow>
       (let ps1 = (if f_default fs \<noteq> JUndef then ps(name \<mapsto> f_default fs) else ps);
            ps2 = (if widget_is fs ''context-slot'' \<and> f_slot_access fs = Some ''read-write''
                   then ps1(name \<mapsto> JStr (time_slot_name nodeId)) else ps1);
            ps3 = (if widget_is fs ''start-time'' \<and> f_default fs = JUndef
                   then ps2(name \<mapsto> JNum (Fin (of_int (nowMs div 1000)))) else ps2);
            ps4 = (if widget_is fs ''account-selector'' \<and> vaultAddress \<noteq> []
                   then ps3(name \<mapsto> JStr vaultAddress) else ps3)
        in if widget_is fs ''token-amount'' \<and> truthy (f_zero_toggle fs)
           then ps4(zeroToggleField name \<mapsto>
             (let d = member (f_zero_toggle fs) ''default'' in if d = JUndef \<or> d = JNull then JBool False else d))
           else ps4))"

definition materializeDefaultParams :: "param_schema option \<Rightarrow> string \<Rightarrow> string \<Rightarrow> int \<Rightarrow> params" where
  "materializeDefaultParams schema nodeId vaultAddress nowMs =
     fold (materializeField nodeId vaultAddress nowMs)
       (case schema of None \<Rightarrow> [] | Some ps \<Rightarrow> ps_properties ps) Map.empty"

section \<open>Validation\<close>

definition friendly_options :: "token_decimals \<Rightarrow> validate_options" where
  "friendly_options tds = \<lparr>opt_mode = Friendly, opt_decimals = tds\<rparr>"

definition nodeParamErrors :: "step_schemas \<Rightarrow> token_decimals \<Rightarrow> editor_node \<Rightarrow> validation_error list" where
  "nodeParamErrors schemas tds n =
     (case Option.bind (schemas (en_stepTypeId n)) ss_paramSchema of
        None \<Rightarrow> []
      | Some schema \<Rightarrow>
          map (\<lambda>(field, msg). \<lparr>ve_text = ParamText msg, ve_nodeId = Some (en_id n), ve_fieldName = Some field\<rparr>)
            (validateParams schema (en_params n) (friendly_options tds)))"

definition validateNodeParams ::
  "editor_node list \<Rightarrow> step_schemas \<Rightarrow> token_decimals \<Rightarrow> validation_error list" where
  "validateNodeParams ns schemas tds = concat (map (nodeParamErrors schemas tds) ns)"

definition toGraphNode :: "editor_node \<Rightarrow> graph_node" where
  "toGraphNode n = \<lparr>gn_id = en_id n, gn_type = or_else (en_type n) ''ACTION'', gn_position = en_position n,
     gn_measured = None, gn_stepTypeId = en_stepTypeId n, gn_label = en_stepTypeName n,
     gn_contractAddress = en_contractAddress n, gn_selector = en_selector n, gn_params = en_params n\<rparr>"

definition toGraphNodes :: "editor_node list \<Rightarrow> graph_node list" where
  "toGraphNodes ns = map toGraphNode ns"

definition toGraphEdges :: "editor_edge list \<Rightarrow> gedge list" where
  "toGraphEdges es =
     map (\<lambda>e. \<lparr>e_source = ee_source e, e_target = ee_target e, e_handle = or_else (ee_handle e) ''out''\<rparr>) es"

definition editor_starts :: "editor_node list \<Rightarrow> editor_edge list \<Rightarrow> editor_node list" where
  "editor_starts ns es = filter (\<lambda>n. is_start (map en_id ns) (toGraphEdges es) (en_id n)) ns"

definition editorOwnerOnly :: "editor_node list \<Rightarrow> editor_edge list \<Rightarrow> bool" where
  "editorOwnerOnly ns es \<longleftrightarrow> ns \<noteq> [] \<and>
     length (editor_starts ns es) = 1 \<and> en_type (hd (editor_starts ns es)) = Some ''ACTION''"

definition graph_error_of :: "graph_finding \<Rightarrow> validation_error" where
  "graph_error_of f = \<lparr>ve_text = GraphText (fst f), ve_nodeId = snd f, ve_fieldName = None\<rparr>"

text \<open>A throw of the graph check leaves the state as it was.\<close>

definition runValidation :: "editor_state \<Rightarrow> editor_state" where
  "runValidation s =
     (let oo = editorOwnerOnly (ed_nodes s) (ed_edges s) in
      case validateGraph (toGraphNodes (ed_nodes s)) (toGraphEdges (ed_edges s)) (\<not> oo) of
        Inl e \<Rightarrow> s
      | Inr graphErrors \<Rightarrow>
          s\<lparr>ed_validationErrors := map graph_error_of graphErrors @
              validateNodeParams (ed_nodes s) (ed_stepSchemas s) (ed_tokenDecimals s) @ ed_externalErrors s,
            ed_ownerOnly := oo\<rparr>)"

definition scheduleValidation :: "editor_state \<Rightarrow> editor_state" where
  "scheduleValidation s = s\<lparr>ed_scheduled := True\<rparr>"

section \<open>History\<close>

definition MAX_HISTORY :: nat where
  "MAX_HISTORY = 50"

definition current :: "editor_state \<Rightarrow> snapshot" where
  "current s = (ed_nodes s, ed_edges s)"

definition pushSnapshot :: "editor_state \<Rightarrow> editor_state" where
  "pushSnapshot s =
     (let newPast = ed_past s @ [current s] in
      s\<lparr>ed_past := (if MAX_HISTORY < length newPast then tl newPast else newPast), ed_future := []\<rparr>)"

definition undo :: "editor_state \<Rightarrow> editor_state" where
  "undo s =
     (if length (ed_past s) = 0 then s
      else let prev = last (ed_past s) in
        scheduleValidation (s\<lparr>ed_past := butlast (ed_past s), ed_future := ed_future s @ [current s],
          ed_nodes := fst prev, ed_edges := snd prev, ed_isDirty := True\<rparr>))"

definition redo :: "editor_state \<Rightarrow> editor_state" where
  "redo s =
     (if length (ed_future s) = 0 then s
      else let nxt = last (ed_future s) in
        scheduleValidation (s\<lparr>ed_future := butlast (ed_future s), ed_past := ed_past s @ [current s],
          ed_nodes := fst nxt, ed_edges := snd nxt, ed_isDirty := True\<rparr>))"

section \<open>React Flow callbacks\<close>

text \<open>The change events; \<open>dragging\<close> may be missing.\<close>

datatype flow_change =
    AddChange string
  | RemoveChange string
  | SelectChange string bool
  | PositionChange string "(rat \<times> rat) option" "bool option"
  | OtherChange string

record connection =
  cn_source :: string
  cn_target :: string
  cn_handle :: "string option"

record flow_lib =
  applyNodeChanges :: "flow_change list \<Rightarrow> editor_node list \<Rightarrow> editor_node list"
  applyEdgeChanges :: "flow_change list \<Rightarrow> editor_edge list \<Rightarrow> editor_edge list"
  addEdge :: "editor_edge \<Rightarrow> editor_edge list \<Rightarrow> editor_edge list"
  dagre_layout :: "(string \<times> rat \<times> rat) list \<Rightarrow> (string \<times> string) list \<Rightarrow> string \<Rightarrow> rat \<times> rat"

fun structural :: "flow_change \<Rightarrow> bool" where
  "structural (AddChange i) = True"
| "structural (RemoveChange i) = True"
| "structural _ = False"

fun selecting :: "flow_change \<Rightarrow> bool" where
  "selecting (SelectChange i b) = b"
| "selecting _ = False"

fun change_id :: "flow_change \<Rightarrow> string" where
  "change_id (AddChange i) = i"
| "change_id (RemoveChange i) = i"
| "change_id (SelectChange i b) = i"
| "change_id (PositionChange i p d) = i"
| "change_id (OtherChange i) = i"

fun dropped :: "flow_change \<Rightarrow> bool" where
  "dropped (PositionChange i p d) = (d \<noteq> Some True)"
| "dropped _ = False"

definition onNodesChange :: "flow_lib \<Rightarrow> flow_change list \<Rightarrow> editor_state \<Rightarrow> editor_state" where
  "onNodesChange lib changes s =
     (let s1 = s\<lparr>ed_nodes := applyNodeChanges lib changes (ed_nodes s)\<rparr>;
          s2 = (case find selecting changes of
                  None \<Rightarrow> s1
                | Some c \<Rightarrow> s1\<lparr>ed_selectedNodeId := Some (change_id c), ed_contextTab := False\<rparr>);
          s3 = (if list_ex structural changes then scheduleValidation (s2\<lparr>ed_isDirty := True\<rparr>) else s2)
      in if list_ex dropped changes then pushSnapshot (s3\<lparr>ed_isDirty := True\<rparr>) else s3)"

definition onEdgesChange :: "flow_lib \<Rightarrow> flow_change list \<Rightarrow> editor_state \<Rightarrow> editor_state" where
  "onEdgesChange lib changes s =
     (let s1 = s\<lparr>ed_edges := applyEdgeChanges lib changes (ed_edges s)\<rparr>
      in if list_ex structural changes then scheduleValidation (s1\<lparr>ed_isDirty := True\<rparr>) else s1)"

definition edge_id :: "connection \<Rightarrow> string" where
  "edge_id c = ''e-'' @ cn_source c @ ''-'' @ or_else (cn_handle c) ''null'' @ ''-'' @ cn_target c"

definition edge_style :: "editor_node option \<Rightarrow> string option \<Rightarrow> string \<times> string" where
  "edge_style sourceNode handle =
     (case sourceNode of
        None \<Rightarrow> (''Next'', ''#9ca3af'')
      | Some n \<Rightarrow>
          if en_type n = Some ''CONDITION'' then
            (if handle = Some ''true'' then (''True'', ''#22c55e'')
             else if handle = Some ''false'' then (''False'', ''#ef4444'')
             else (''Next'', ''#9ca3af''))
          else (''Next'', ''#9ca3af''))"

definition connection_edge :: "editor_node list \<Rightarrow> connection \<Rightarrow> editor_edge" where
  "connection_edge ns c =
     (case edge_style (find (\<lambda>n. en_id n = cn_source c) ns) (cn_handle c) of (label, stroke) \<Rightarrow>
        \<lparr>ee_id = edge_id c, ee_source = cn_source c, ee_target = cn_target c, ee_handle = cn_handle c,
         ee_selected = False, ee_label = label, ee_stroke = stroke\<rparr>)"

definition onConnect :: "flow_lib \<Rightarrow> connection \<Rightarrow> editor_state \<Rightarrow> editor_state" where
  "onConnect lib c s =
     (let s1 = pushSnapshot s in
      scheduleValidation (s1\<lparr>ed_edges := addEdge lib (connection_edge (ed_nodes s1) c) (ed_edges s1),
        ed_isDirty := True\<rparr>))"

section \<open>Editing\<close>

definition new_node :: "step_type_option \<Rightarrow> string \<Rightarrow> rat \<times> rat \<Rightarrow> string \<Rightarrow> int \<Rightarrow> editor_node" where
  "new_node st i pos vault nowMs =
     \<lparr>en_id = i, en_type = Some (so_category st), en_position = pos, en_selected = False,
      en_stepTypeId = so_id st, en_stepTypeName = so_name st, en_category = so_category st,
      en_contractAddress = so_contractAddress st, en_selector = so_selector st,
      en_params = materializeDefaultParams (so_paramSchema st) i vault nowMs\<rparr>"

definition node_id_of :: "nat \<Rightarrow> string" where
  "node_id_of k = ''node-'' @ show_nat k"

definition addNode :: "step_type_option \<Rightarrow> rat \<times> rat \<Rightarrow> int \<Rightarrow> editor_state \<Rightarrow> editor_state" where
  "addNode st pos nowMs s =
     (let s1 = pushSnapshot s; k = ed_nodeCounter s1 + 1; i = node_id_of k in
      scheduleValidation (s1\<lparr>ed_nodeCounter := k,
        ed_nodes := ed_nodes s1 @ [new_node st i pos (ed_vaultAddress s1) nowMs], ed_isDirty := True\<rparr>))"

definition selected_ids :: "editor_state \<Rightarrow> string list" where
  "selected_ids s = map en_id (filter en_selected (ed_nodes s))"

definition selected_edge_ids :: "editor_state \<Rightarrow> string list" where
  "selected_edge_ids s = map ee_id (filter ee_selected (ed_edges s))"

definition removeSelected :: "editor_state \<Rightarrow> editor_state" where
  "removeSelected s =
     (if selected_ids s = [] \<and> selected_edge_ids s = [] then s
      else let s1 = pushSnapshot s in
        scheduleValidation (s1\<lparr>
          ed_nodes := filter (\<lambda>n. en_id n \<notin> set (selected_ids s)) (ed_nodes s),
          ed_edges := filter (\<lambda>e. ee_id e \<notin> set (selected_edge_ids s) \<and> ee_source e \<notin> set (selected_ids s) \<and>
            ee_target e \<notin> set (selected_ids s)) (ed_edges s),
          ed_selectedNodeId := None, ed_isDirty := True\<rparr>))"

definition updateNodeParams :: "string \<Rightarrow> params \<Rightarrow> editor_state \<Rightarrow> editor_state" where
  "updateNodeParams i ps s =
     (let s1 = pushSnapshot s in
      scheduleValidation (s1\<lparr>
        ed_nodes := map (\<lambda>n. if en_id n = i then n\<lparr>en_params := en_params n ++ ps\<rparr> else n) (ed_nodes s1),
        ed_isDirty := True\<rparr>))"

definition copySelected :: "editor_state \<Rightarrow> editor_state" where
  "copySelected s =
     (let selected = filter en_selected (ed_nodes s); ids = map en_id selected in
      if length selected = 0 then s
      else s\<lparr>ed_clipboard := Some (selected,
        filter (\<lambda>e. ee_source e \<in> set ids \<and> ee_target e \<in> set ids) (ed_edges s))\<rparr>)"

definition copy_suffix :: "int \<Rightarrow> string" where
  "copy_suffix nowMs = ''-copy-'' @ show_int nowMs"

definition pasted_node :: "string \<Rightarrow> editor_node \<Rightarrow> editor_node" where
  "pasted_node suffix n = n\<lparr>en_id := en_id n @ suffix,
     en_position := (fst (en_position n) + 50, snd (en_position n) + 50), en_selected := True\<rparr>"

definition pasted_edge :: "string list \<Rightarrow> string \<Rightarrow> editor_edge \<Rightarrow> editor_edge" where
  "pasted_edge ids suffix e =
     (let rename = (\<lambda>i. if i \<in> set ids then i @ suffix else i) in
      e\<lparr>ee_id := ee_id e @ suffix, ee_source := rename (ee_source e), ee_target := rename (ee_target e)\<rparr>)"

definition paste :: "int \<Rightarrow> editor_state \<Rightarrow> editor_state" where
  "paste nowMs s =
     (case ed_clipboard s of
        None \<Rightarrow> s
      | Some (ns, es) \<Rightarrow>
          if length ns = 0 then s
          else let s1 = pushSnapshot s; suffix = copy_suffix nowMs in
            scheduleValidation (s1\<lparr>
              ed_nodes := map (\<lambda>n. n\<lparr>en_selected := False\<rparr>) (ed_nodes s1) @ map (pasted_node suffix) ns,
              ed_edges := ed_edges s1 @ map (pasted_edge (map en_id ns) suffix) es,
              ed_isDirty := True\<rparr>))"

definition autoLayout :: "flow_lib \<Rightarrow> graph_node list \<Rightarrow> gedge list \<Rightarrow> graph_node list" where
  "autoLayout lib ns es =
     (if length ns = 0 then []
      else let size = (\<lambda>n. or_else (gn_measured n) (200, 80));
             centre = dagre_layout lib (map (\<lambda>n. (gn_id n, size n)) ns) (map (\<lambda>e. (e_source e, e_target e)) es)
        in map (\<lambda>n. n\<lparr>gn_position := (fst (centre (gn_id n)) - fst (size n) / 2,
             snd (centre (gn_id n)) - snd (size n) / 2)\<rparr>) ns)"

definition applyAutoLayout :: "flow_lib \<Rightarrow> editor_state \<Rightarrow> editor_state" where
  "applyAutoLayout lib s =
     (let s1 = pushSnapshot s;
          laid = autoLayout lib (toGraphNodes (ed_nodes s1)) (toGraphEdges (ed_edges s1));
          posMap = by_key gn_id laid in
      s1\<lparr>ed_nodes := map (\<lambda>n. n\<lparr>en_position :=
          (case posMap (en_id n) of Some l \<Rightarrow> gn_position l | None \<Rightarrow> en_position n)\<rparr>) (ed_nodes s1),
        ed_isDirty := True\<rparr>)"

section \<open>Settings and loading\<close>

definition loadEditorState :: "snapshot \<Rightarrow> string option \<Rightarrow> string option \<Rightarrow> editor_state \<Rightarrow> editor_state" where
  "loadEditorState g label description s =
     scheduleValidation (s\<lparr>ed_nodes := fst g, ed_edges := snd g, ed_label := or_else label [],
       ed_description := or_else description [], ed_isDirty := False, ed_saveStatus := Idle,
       ed_past := [], ed_future := []\<rparr>)"

definition setSaveStatus :: "save_status \<Rightarrow> editor_state \<Rightarrow> editor_state" where
  "setSaveStatus st s =
     (if st = Saved then s\<lparr>ed_saveStatus := st, ed_isDirty := False\<rparr> else s\<lparr>ed_saveStatus := st\<rparr>)"

definition setExternalErrors :: "validation_error list \<Rightarrow> editor_state \<Rightarrow> editor_state" where
  "setExternalErrors errs s = runValidation (s\<lparr>ed_externalErrors := errs\<rparr>)"

section \<open>Context variables\<close>

text \<open>The map by slot index, and its values in ascending order of the index.\<close>

definition mergeContextVariables :: "context_variable list \<Rightarrow> context_variable list \<Rightarrow> context_variable list" where
  "mergeContextVariables base overlay =
     (let bySlot = by_key cv_slotIndex (base @ overlay) in
      map (\<lambda>i. the (bySlot i)) (sorted_list_of_set (cv_slotIndex ` set (base @ overlay))))"

definition mergeEditorContextVariables :: "context_variable list \<Rightarrow> editor_state \<Rightarrow> editor_state" where
  "mergeEditorContextVariables vs s =
     s\<lparr>ed_contextVariables := mergeContextVariables (ed_contextVariables s) vs\<rparr>"

definition mergeVaultContextSlots :: "context_variable list \<Rightarrow> editor_state \<Rightarrow> editor_state" where
  "mergeVaultContextSlots slots s =
     s\<lparr>ed_contextVariables := mergeContextVariables slots (ed_contextVariables s)\<rparr>"

definition addContextVariable :: "context_variable \<Rightarrow> editor_state \<Rightarrow> editor_state" where
  "addContextVariable v s =
     (let vs = ed_contextVariables s;
          nextIndex = (if 0 < length vs then Max (set (map cv_slotIndex vs)) + 1 else 0) in
      s\<lparr>ed_contextVariables := vs @ [v\<lparr>cv_slotIndex := nextIndex\<rparr>], ed_isDirty := True\<rparr>)"

definition updateContextVariable :: "nat \<Rightarrow> (context_variable \<Rightarrow> context_variable) \<Rightarrow> editor_state \<Rightarrow> editor_state" where
  "updateContextVariable i updates s =
     s\<lparr>ed_contextVariables := map (\<lambda>v. if cv_slotIndex v = i then updates v else v) (ed_contextVariables s),
       ed_isDirty := True\<rparr>"

section \<open>The store as a state machine\<close>

datatype editor_action =
    NodesChange "flow_change list"
  | EdgesChange "flow_change list"
  | Connect connection
  | SelectNode "string option"
  | AddNode step_type_option "rat \<times> rat" int
  | RemoveSelected
  | UpdateParams string params
  | ValidationTimer
  | SetLabel string
  | SetDescription string
  | MarkDirty
  | SetSaveStatus save_status
  | Load snapshot "string option" "string option"
  | PushSnapshot
  | Undo
  | Redo
  | CopySelected
  | Paste int
  | AutoLayout
  | SetTab bool
  | AddVariable context_variable
  | UpdateVariable nat "context_variable \<Rightarrow> context_variable"
  | SetVariables "context_variable list"
  | SetSchemas step_schemas
  | SetDecimals token_decimals
  | SetExternalErrors "validation_error list"
  | SetVault string
  | MergeEditorVariables "context_variable list"
  | MergeVaultSlots "context_variable list"

fun editor_step :: "flow_lib \<Rightarrow> editor_action \<Rightarrow> editor_state \<Rightarrow> editor_state" where
  "editor_step lib (NodesChange cs) s = onNodesChange lib cs s"
| "editor_step lib (EdgesChange cs) s = onEdgesChange lib cs s"
| "editor_step lib (Connect c) s = onConnect lib c s"
| "editor_step lib (SelectNode i) s = s\<lparr>ed_selectedNodeId := i\<rparr>"
| "editor_step lib (AddNode st pos now) s = addNode st pos now s"
| "editor_step lib RemoveSelected s = removeSelected s"
| "editor_step lib (UpdateParams i ps) s = updateNodeParams i ps s"
| "editor_step lib ValidationTimer s = runValidation (s\<lparr>ed_scheduled := False\<rparr>)"
| "editor_step lib (SetLabel l) s = s\<lparr>ed_label := l, ed_isDirty := True\<rparr>"
| "editor_step lib (SetDescription d) s = s\<lparr>ed_description := d, ed_isDirty := True\<rparr>"
| "editor_step lib MarkDirty s = s\<lparr>ed_isDirty := True\<rparr>"
| "editor_step lib (SetSaveStatus st) s = setSaveStatus st s"
| "editor_step lib (Load g l d) s = loadEditorState g l d s"
| "editor_step lib PushSnapshot s = pushSnapshot s"
| "editor_step lib Undo s = undo s"
| "editor_step lib Redo s = redo s"
| "editor_step lib CopySelected s = copySelected s"
| "editor_step lib (Paste now) s = paste now s"
| "editor_step lib AutoLayout s = applyAutoLayout lib s"
| "editor_step lib (SetTab t) s = s\<lparr>ed_contextTab := t\<rparr>"
| "editor_step lib (AddVariable v) s = addContextVariable v s"
| "editor_step lib (UpdateVariable i f) s = updateContextVariable i f s"
| "editor_step lib (SetVariables vs) s = s\<lparr>ed_contextVariables := vs\<rparr>"
| "editor_step lib (SetSchemas m) s = scheduleValidation (s\<lparr>ed_stepSchemas := m\<rparr>)"
| "editor_step lib (SetDecimals m) s = scheduleValidation (s\<lparr>ed_tokenDecimals := m\<rparr>)"
| "editor_step lib (SetExternalErrors es) s = setExternalErrors es s"
| "editor_step lib (SetVault a) s = s\<lparr>ed_vaultAddress := a\<rparr>"
| "editor_step lib (MergeEditorVariables vs) s = mergeEditorContextVariables vs s"
| "editor_step lib (MergeVaultSlots vs) s = mergeVaultContextSlots vs s"

text \<open>The states the store reaches from its initial one.\<close>

inductive editor_reachable :: "flow_lib \<Rightarrow> editor_state \<Rightarrow> bool" for lib where
  reach_init: "editor_reachable lib initial_editor"
| reach_step: "editor_reachable lib s \<Longrightarrow> editor_reachable lib (editor_step lib a s)"

inductive_cases editor_reachableE: "editor_reachable lib s"

section \<open>History\<close>

lemmas history_defs = pushSnapshot_def undo_def redo_def scheduleValidation_def current_def Let_def
lemmas editing_defs = onNodesChange_def onEdgesChange_def onConnect_def addNode_def removeSelected_def
  updateNodeParams_def paste_def applyAutoLayout_def loadEditorState_def copySelected_def

definition history_ok :: "editor_state \<Rightarrow> bool" where
  "history_ok s \<longleftrightarrow> length (ed_past s) + length (ed_future s) \<le> MAX_HISTORY"

lemma history_pushSnapshot: "history_ok s \<Longrightarrow> history_ok (pushSnapshot s)"
  by (auto simp: history_ok_def history_defs)

lemma history_undo: "history_ok s \<Longrightarrow> history_ok (undo s)"
  by (cases "ed_past s" rule: rev_cases) (auto simp: history_ok_def history_defs)

lemma history_redo: "history_ok s \<Longrightarrow> history_ok (redo s)"
  by (cases "ed_future s" rule: rev_cases) (auto simp: history_ok_def history_defs)

lemma history_cong:
  "ed_past t = ed_past s \<Longrightarrow> ed_future t = ed_future s \<Longrightarrow> history_ok s \<Longrightarrow> history_ok t"
  by (simp add: history_ok_def)

lemma history_runValidation: "ed_past (runValidation s) = ed_past s" "ed_future (runValidation s) = ed_future s"
  by (auto simp: runValidation_def Let_def split: sum.splits)

lemma history_step: "history_ok s \<Longrightarrow> history_ok (editor_step lib a s)"
proof (induction lib a s rule: editor_step.induct)
  case (1 lib cs s)
  let ?s1 = "(case find selecting cs of None \<Rightarrow> s\<lparr>ed_nodes := applyNodeChanges lib cs (ed_nodes s)\<rparr>
      | Some c \<Rightarrow> s\<lparr>ed_nodes := applyNodeChanges lib cs (ed_nodes s), ed_selectedNodeId := Some (change_id c), ed_contextTab := False\<rparr>)"
  have "history_ok ?s1" using 1 by (auto simp: history_ok_def split: option.splits)
  then have "history_ok (if list_ex structural cs then scheduleValidation (?s1\<lparr>ed_isDirty := True\<rparr>) else ?s1)"
    by (auto simp: history_ok_def scheduleValidation_def)
  then have "history_ok ((if list_ex structural cs then scheduleValidation (?s1\<lparr>ed_isDirty := True\<rparr>) else ?s1)\<lparr>ed_isDirty := True\<rparr>)
      \<and> history_ok (if list_ex structural cs then scheduleValidation (?s1\<lparr>ed_isDirty := True\<rparr>) else ?s1)"
    by (simp add: history_ok_def)
  then show ?case using history_pushSnapshot by (simp add: onNodesChange_def Let_def split: option.splits)
next
  case (8 lib s)
  then show ?case by (simp add: history_ok_def history_runValidation)
next
  case (26 lib es s)
  then show ?case by (simp add: history_ok_def history_runValidation setExternalErrors_def)
next
  case (15 lib s)
  then show ?case by (simp add: history_undo)
next
  case (16 lib s)
  then show ?case by (simp add: history_redo)
qed (auto simp: history_pushSnapshot history_ok_def editing_defs history_defs
    setSaveStatus_def addContextVariable_def updateContextVariable_def mergeEditorContextVariables_def
    mergeVaultContextSlots_def split: option.splits)

text \<open>Whatever sequence of actions the store performs, its undo and redo stacks never hold more
  than fifty snapshots together.\<close>

theorem history_bounded:
  assumes "editor_reachable lib s"
  shows "length (ed_past s) + length (ed_future s) \<le> 50"
proof -
  have "history_ok s" using assms
  proof induction
    case reach_init
    show ?case by (simp add: history_ok_def initial_editor_def)
  qed (rule history_step)
  then show ?thesis by (simp add: history_ok_def MAX_HISTORY_def)
qed

definition demo_flow :: flow_lib where
  "demo_flow = \<lparr>applyNodeChanges = (\<lambda>cs ns. ns), applyEdgeChanges = (\<lambda>cs es. es), addEdge = (\<lambda>e es. es @ [e]),
     dagre_layout = (\<lambda>ns es i. (0, 0))\<rparr>"

lemma history_bounded_witness:
  "length (ed_past (editor_step demo_flow Undo (editor_step demo_flow PushSnapshot initial_editor))) +
   length (ed_future (editor_step demo_flow Undo (editor_step demo_flow PushSnapshot initial_editor))) \<le> 50"
  by (rule history_bounded [OF reach_step [OF reach_step [OF reach_init]]])

text \<open>Undo and redo are inverse on the graph and on both stacks, wherever there is something to
  undo or to redo.\<close>

theorem undo_redo_inverse:
  assumes "ed_past s \<noteq> []" and "ed_future t \<noteq> []"
  shows "current (redo (undo s)) = current s \<and> ed_past (redo (undo s)) = ed_past s \<and>
    ed_future (redo (undo s)) = ed_future s \<and> current (undo (redo t)) = current t \<and>
    ed_past (undo (redo t)) = ed_past t \<and> ed_future (undo (redo t)) = ed_future t"
  using assms by (auto simp: history_defs)

lemma undo_redo_inverse_witness:
  "current (redo (undo (pushSnapshot initial_editor))) = current initial_editor \<and>
   ed_past (redo (undo (pushSnapshot initial_editor))) = ed_past (pushSnapshot initial_editor)"
proof -
  have "ed_past (pushSnapshot initial_editor) \<noteq> []" "ed_future (undo (pushSnapshot initial_editor)) \<noteq> []"
    by (simp_all add: history_defs initial_editor_def MAX_HISTORY_def)
  from undo_redo_inverse [OF this] show ?thesis by (simp add: history_defs)
qed

lemma undo_after_push:
  assumes "ed_past s' = ed_past (pushSnapshot s)"
  shows "current (undo s') = current s"
proof -
  have "ed_past (pushSnapshot s) =
      (if MAX_HISTORY < length (ed_past s) + 1 then tl (ed_past s) else ed_past s) @ [current s]"
    by (cases "ed_past s") (auto simp: pushSnapshot_def MAX_HISTORY_def)
  then obtain ps where "ed_past (pushSnapshot s) = ps @ [current s]" by blast
  then show ?thesis using assms by (simp add: undo_def Let_def scheduleValidation_def current_def)
qed

text \<open>Each editing action (connecting, adding, removing, changing parameters, pasting, laying
  out) either does nothing or can be undone: undo restores the nodes and edges it started from.\<close>

theorem editing_undoable:
  assumes "a \<in> {RemoveSelected, AutoLayout} \<union> range Connect \<union> range Paste \<union> {AddNode st pos now | st pos now. True} \<union>
    {UpdateParams i ps | i ps. True}"
  shows "editor_step lib a s = s \<or> current (undo (editor_step lib a s)) = current s"
proof -
  have "editor_step lib a s = s \<or> ed_past (editor_step lib a s) = ed_past (pushSnapshot s)"
    using assms by (auto simp: editing_defs scheduleValidation_def Let_def split: option.splits prod.splits)
  then show ?thesis using undo_after_push by blast
qed

lemma editing_undoable_witness:
  "editor_step demo_flow AutoLayout initial_editor = initial_editor \<or>
   current (undo (editor_step demo_flow AutoLayout initial_editor)) = current initial_editor"
  by (rule editing_undoable) simp

text \<open>Ending a drag records the position the node was dropped at, not the one it came from: the
  undo that follows leaves every node where the drag put it.\<close>

theorem drop_undo_keeps_position:
  "current (undo (editor_step lib (NodesChange [PositionChange i p (Some False)]) s)) =
     (applyNodeChanges lib [PositionChange i p (Some False)] (ed_nodes s), ed_edges s)"
proof -
  let ?s = "s\<lparr>ed_nodes := applyNodeChanges lib [PositionChange i p (Some False)] (ed_nodes s), ed_isDirty := True\<rparr>"
  have "editor_step lib (NodesChange [PositionChange i p (Some False)]) s = pushSnapshot ?s"
    by (simp add: onNodesChange_def Let_def)
  then show ?thesis using undo_after_push [of "pushSnapshot ?s" ?s] by (simp add: current_def)
qed

section \<open>Node ids\<close>

text \<open>The id counter starts again at zero when the page is loaded and loading an automation
  does not advance it: after loading a graph that holds the first generated id, adding a step
  gives two nodes the same id.\<close>

theorem addNode_repeats_loaded_id:
  "\<not> distinct (map en_id (ed_nodes (editor_step lib (AddNode st pos now)
      (editor_step lib (Load ([n\<lparr>en_id := node_id_of 1\<rparr>], es) l d) initial_editor))))"
  by (simp add: addNode_def new_node_def loadEditorState_def history_defs initial_editor_def)

section \<open>Context variables\<close>

lemma by_key_append: "by_key k (xs @ ys) i = (case by_key k ys i of None \<Rightarrow> by_key k xs i | Some y \<Rightarrow> Some y)"
  by (induction ys rule: rev_induct) (auto simp flip: append_assoc split: option.splits)

lemma merge_lookup:
  "by_key cv_slotIndex (mergeContextVariables b ov) = by_key cv_slotIndex (b @ ov)"
proof -
  let ?m = "by_key cv_slotIndex (b @ ov)"
  have dom: "?m i \<noteq> None \<longleftrightarrow> i \<in> cv_slotIndex ` set (b @ ov)" for i by (simp add: by_key_None)
  have key: "cv_slotIndex (the (?m i)) = i" if "i \<in> cv_slotIndex ` set (b @ ov)" for i
    using dom [of i] that by_key_Some by fastforce
  have "by_key cv_slotIndex (map (\<lambda>i. the (?m i)) is) i = (if i \<in> set is then Some (the (?m i)) else None)"
    if "set is \<subseteq> cv_slotIndex ` set (b @ ov)" for "is" i
    using that by (induction "is" rule: rev_induct) (auto simp: key)
  from this [of "sorted_list_of_set (cv_slotIndex ` set (b @ ov))"]
  have "by_key cv_slotIndex (mergeContextVariables b ov) i =
      (if i \<in> cv_slotIndex ` set (b @ ov) then Some (the (?m i)) else None)" for i
    by (simp add: mergeContextVariables_def Let_def)
  moreover have "?m i = (if i \<in> cv_slotIndex ` set (b @ ov) then Some (the (?m i)) else None)" for i
    using dom [of i] by auto
  ultimately show ?thesis by (simp add: fun_eq_iff)
qed

lemma merge_indices:
  "map cv_slotIndex (mergeContextVariables b ov) = sorted_list_of_set (cv_slotIndex ` set (b @ ov))"
proof -
  let ?m = "by_key cv_slotIndex (b @ ov)"
  have "cv_slotIndex (the (?m i)) = i" if "i \<in> cv_slotIndex ` set (b @ ov)" for i
  proof -
    have "?m i \<noteq> None" using that by (simp add: by_key_None)
    then show ?thesis using by_key_Some by fastforce
  qed
  then show ?thesis by (auto simp: mergeContextVariables_def Let_def intro!: map_idI)
qed

lemma merge_set: "cv_slotIndex ` set (mergeContextVariables b ov) = cv_slotIndex ` set (b @ ov)"
  using arg_cong [OF merge_indices [of b ov], of set] by simp

lemma merge_eqI:
  assumes "by_key cv_slotIndex (a @ b) = by_key cv_slotIndex (c @ d)"
    and "cv_slotIndex ` set (a @ b) = cv_slotIndex ` set (c @ d)"
  shows "mergeContextVariables a b = mergeContextVariables c d"
  unfolding mergeContextVariables_def assms ..

text \<open>The two concurrent loads of context variables commute: applying the draft variables and
  the vault's slots to the store in either order gives the same state.\<close>

theorem context_loads_commute:
  "editor_step lib (MergeVaultSlots slots) (editor_step lib (MergeEditorVariables vs) s) =
   editor_step lib (MergeEditorVariables vs) (editor_step lib (MergeVaultSlots slots) s)"
proof -
  let ?c = "ed_contextVariables s"
  have "mergeContextVariables slots (mergeContextVariables ?c vs) =
      mergeContextVariables (mergeContextVariables slots ?c) vs"
    by (rule merge_eqI)
      (auto simp: fun_eq_iff by_key_append merge_lookup image_Un merge_set [unfolded set_append image_Un] split: option.splits)
  then show ?thesis by (simp add: mergeEditorContextVariables_def mergeVaultContextSlots_def)
qed

section \<open>No dangling edges\<close>

text \<open>A graph whose edges join its own nodes.\<close>

definition wired :: "snapshot \<Rightarrow> bool" where
  "wired g \<longleftrightarrow> (\<forall>e \<in> set (snd g). ee_source e \<in> en_id ` set (fst g) \<and> ee_target e \<in> en_id ` set (fst g))"

definition all_wired :: "editor_state \<Rightarrow> bool" where
  "all_wired s \<longleftrightarrow> wired (current s) \<and> (\<forall>g \<in> set (ed_past s) \<union> set (ed_future s) \<union> set_option (ed_clipboard s). wired g)"

text \<open>
  What the store relies on: React Flow's functions keep the node ids under changes that neither
  add nor remove, keep to the end points they are given, and add at most the edge they are given.
\<close>

definition flow_lib_ok :: "flow_lib \<Rightarrow> bool" where
  "flow_lib_ok lib \<longleftrightarrow>
     (\<forall>cs ns. \<not> list_ex structural cs \<longrightarrow> en_id ` set (applyNodeChanges lib cs ns) = en_id ` set ns) \<and>
     (\<forall>cs es. \<forall>e \<in> set (applyEdgeChanges lib cs es). \<exists>f \<in> set es. ee_source e = ee_source f \<and> ee_target e = ee_target f) \<and>
     (\<forall>e es. set (addEdge lib e es) \<subseteq> insert e (set es))"

text \<open>The actions of the editor page: nodes are removed by the store, connections join nodes that
  are shown, and the graphs it loads are wired.\<close>

fun page_action :: "editor_action \<Rightarrow> editor_state \<Rightarrow> bool" where
  "page_action (NodesChange cs) s = (\<not> list_ex structural cs)"
| "page_action (Connect c) s = (cn_source c \<in> en_id ` set (ed_nodes s) \<and> cn_target c \<in> en_id ` set (ed_nodes s))"
| "page_action (Load g l d) s = wired g"
| "page_action _ s = True"

inductive page_reachable :: "flow_lib \<Rightarrow> editor_state \<Rightarrow> bool" for lib where
  page_init: "page_reachable lib initial_editor"
| page_step: "page_reachable lib s \<Longrightarrow> page_action a s \<Longrightarrow> page_reachable lib (editor_step lib a s)"

lemma all_wired_push: "all_wired s \<Longrightarrow> all_wired (pushSnapshot s)"
  by (cases "ed_past s") (auto simp: all_wired_def history_defs)

lemma all_wired_edit:
  assumes "all_wired s" "wired (ns, es)" "ed_past t = ed_past (pushSnapshot s)" "ed_future t = []"
    "ed_clipboard t = ed_clipboard s" "ed_nodes t = ns" "ed_edges t = es"
  shows "all_wired t"
  using all_wired_push [OF assms(1)] assms(2-) by (auto simp: all_wired_def current_def pushSnapshot_def Let_def)

lemma all_wired_same:
  assumes "all_wired s" "en_id ` set (ed_nodes t) = en_id ` set (ed_nodes s)" "ed_edges t = ed_edges s"
    "ed_past t = ed_past s" "ed_future t = ed_future s" "ed_clipboard t = ed_clipboard s"
  shows "all_wired t"
  using assms by (auto simp: all_wired_def current_def wired_def)

lemma all_wired_undo: "all_wired s \<Longrightarrow> all_wired (undo s)"
  by (cases "ed_past s" rule: rev_cases) (auto simp: all_wired_def history_defs)

lemma all_wired_redo: "all_wired s \<Longrightarrow> all_wired (redo s)"
  by (cases "ed_future s" rule: rev_cases) (auto simp: all_wired_def history_defs)

lemma wired_filter:
  assumes "wired (ns, es)"
  shows "wired (filter (\<lambda>n. en_id n \<notin> S) ns, filter (\<lambda>e. P e \<and> ee_source e \<notin> S \<and> ee_target e \<notin> S) es)"
  using assms by (fastforce simp: wired_def)

lemma wired_paste:
  assumes "wired (ns, es)" "wired (cns, ces)"
  shows "wired (map (\<lambda>n. n\<lparr>en_selected := False\<rparr>) ns @ map (pasted_node sfx) cns,
    es @ map (pasted_edge (map en_id cns) sfx) ces)"
proof -
  let ?ids = "en_id ` set (map (\<lambda>n. n\<lparr>en_selected := False\<rparr>) ns @ map (pasted_node sfx) cns)"
  have ids: "?ids = en_id ` set ns \<union> (\<lambda>i. i @ sfx) ` en_id ` set cns"
    by (simp add: image_image image_Un pasted_node_def)
  have "ee_source (pasted_edge (map en_id cns) sfx e) \<in> ?ids \<and> ee_target (pasted_edge (map en_id cns) sfx e) \<in> ?ids"
    if "e \<in> set ces" for e
    using assms(2) that unfolding ids by (auto simp: wired_def pasted_edge_def Let_def)
  moreover have "ee_source e \<in> ?ids \<and> ee_target e \<in> ?ids" if "e \<in> set es" for e
    using assms(1) that unfolding ids by (auto simp: wired_def)
  ultimately show ?thesis unfolding wired_def by (simp only: fst_conv snd_conv) auto
qed

lemma runValidation_graph:
  "ed_nodes (runValidation s) = ed_nodes s" "ed_edges (runValidation s) = ed_edges s"
  "ed_clipboard (runValidation s) = ed_clipboard s"
  by (auto simp: runValidation_def Let_def split: sum.splits)

lemma all_wired_step:
  assumes "flow_lib_ok lib" "all_wired s" "page_action a s"
  shows "all_wired (editor_step lib a s)"
proof (cases a)
  case (NodesChange cs)
  let ?s1 = "(case find selecting cs of None \<Rightarrow> s\<lparr>ed_nodes := applyNodeChanges lib cs (ed_nodes s)\<rparr>
      | Some c \<Rightarrow> s\<lparr>ed_nodes := applyNodeChanges lib cs (ed_nodes s), ed_selectedNodeId := Some (change_id c), ed_contextTab := False\<rparr>)"
  have plain: "\<not> list_ex structural cs" using assms(3) NodesChange by simp
  have "all_wired ?s1" "all_wired (?s1\<lparr>ed_isDirty := True\<rparr>)"
    by (rule all_wired_same [OF assms(2)];
        use assms(1) plain in \<open>simp add: flow_lib_ok_def split: option.splits\<close>)+
  then show ?thesis using all_wired_push plain by (simp add: NodesChange onNodesChange_def Let_def split: option.splits)
next
  case (EdgesChange cs)
  have "wired (ed_nodes s, applyEdgeChanges lib cs (ed_edges s))"
    using assms(1,2) by (fastforce simp: flow_lib_ok_def all_wired_def current_def wired_def)
  then show ?thesis using assms(2)
    by (simp add: EdgesChange onEdgesChange_def Let_def all_wired_def current_def scheduleValidation_def)
next
  case (Connect c)
  let ?e = "connection_edge (ed_nodes s) c"
  have e: "ee_source ?e = cn_source c" "ee_target ?e = cn_target c"
    by (simp_all add: connection_edge_def split: prod.splits)
  have "set (addEdge lib ?e (ed_edges s)) \<subseteq> insert ?e (set (ed_edges s))"
    using assms(1) by (simp add: flow_lib_ok_def)
  then have "wired (ed_nodes s, addEdge lib ?e (ed_edges s))"
    using assms(2,3) Connect e by (auto simp: all_wired_def current_def wired_def dest!: subsetD)
  then show ?thesis
    by (rule all_wired_edit [OF assms(2)]) (simp_all add: Connect onConnect_def history_defs)
next
  case (AddNode st pos now)
  have "wired (ed_nodes s @ [n], ed_edges s)" for n
    using assms(2) by (auto simp: all_wired_def current_def wired_def)
  then show ?thesis
    by (rule all_wired_edit [OF assms(2)]) (simp_all add: AddNode addNode_def history_defs)
next
  case RemoveSelected
  have "wired (ed_nodes s, ed_edges s)" using assms(2) by (simp add: all_wired_def current_def)
  from wired_filter [OF this] show ?thesis using assms(2)
    by (auto intro!: all_wired_edit [OF assms(2)] simp: RemoveSelected removeSelected_def history_defs)
next
  case (UpdateParams i ps)
  have "en_id ` set (map (\<lambda>n. if en_id n = i then n\<lparr>en_params := en_params n ++ ps\<rparr> else n) ns) = en_id ` set ns" for ns :: "editor_node list"
    by (induction ns) auto
  then have "wired (map (\<lambda>n. if en_id n = i then n\<lparr>en_params := en_params n ++ ps\<rparr> else n) (ed_nodes s), ed_edges s)"
    using assms(2) by (simp add: all_wired_def current_def wired_def del: set_map)
  then show ?thesis
    by (rule all_wired_edit [OF assms(2)]) (simp_all add: UpdateParams updateNodeParams_def history_defs)
next
  case CopySelected
  have "wired (filter en_selected (ed_nodes s), filter (\<lambda>e. ee_source e \<in> en_id ` set (filter en_selected (ed_nodes s)) \<and>
      ee_target e \<in> en_id ` set (filter en_selected (ed_nodes s))) (ed_edges s))" by (auto simp: wired_def)
  then show ?thesis using assms(2)
    by (simp add: CopySelected copySelected_def Let_def all_wired_def current_def)
next
  case (Paste now)
  show ?thesis
  proof (cases "ed_clipboard s")
    case (Some c)
    obtain ns es where c: "c = (ns, es)" by (cases c)
    have w: "wired (ed_nodes s, ed_edges s)" "wired (ns, es)"
      using assms(2) Some c by (auto simp: all_wired_def current_def)
    from wired_paste [OF w] show ?thesis using assms(2) Some c
      by (auto intro!: all_wired_edit [OF assms(2)] simp: Paste paste_def history_defs)
  qed (use assms(2) in \<open>simp add: Paste paste_def\<close>)
next
  case AutoLayout
  have "en_id ` set (map (\<lambda>n. n\<lparr>en_position := f n\<rparr>) ns) = en_id ` set ns" for f and ns :: "editor_node list" by (simp add: image_image)
  then have w: "wired (map (\<lambda>n. n\<lparr>en_position := f n\<rparr>) (ed_nodes s), ed_edges s)" for f
    using assms(2) by (simp add: all_wired_def current_def wired_def del: set_map)
  let ?f = "\<lambda>n. case by_key gn_id (autoLayout lib (toGraphNodes (ed_nodes s)) (toGraphEdges (ed_edges s))) (en_id n) of
    Some l \<Rightarrow> gn_position l | None \<Rightarrow> en_position n"
  from w [of ?f] show ?thesis
    by (rule all_wired_edit [OF assms(2)]) (simp_all add: AutoLayout applyAutoLayout_def history_defs)
next
  case (Load g l d)
  then show ?thesis using assms(2,3) by (simp add: all_wired_def loadEditorState_def history_defs)
next
  case Undo
  then show ?thesis using all_wired_undo [OF assms(2)] by simp
next
  case Redo
  then show ?thesis using all_wired_redo [OF assms(2)] by simp
next
  case PushSnapshot
  then show ?thesis using all_wired_push [OF assms(2)] by simp
qed (rule all_wired_same [OF assms(2)];
    simp add: runValidation_graph history_runValidation setSaveStatus_def setExternalErrors_def
      addContextVariable_def updateContextVariable_def mergeEditorContextVariables_def
      mergeVaultContextSlots_def scheduleValidation_def Let_def)+

lemma page_wired:
  assumes "page_reachable lib s" "flow_lib_ok lib"
  shows "all_wired s"
  using assms(1)
proof induction
  case page_init
  then show ?case by (simp add: all_wired_def current_def wired_def initial_editor_def)
qed (rule all_wired_step [OF assms(2)])

section \<open>The deployment gate\<close>

lemma wired_graph:
  assumes "wired (ns, es)"
  shows "e_source ` set (toGraphEdges es) \<union> e_target ` set (toGraphEdges es) \<subseteq> gn_id ` set (toGraphNodes ns)"
  using assms by (fastforce simp: wired_def toGraphEdges_def toGraphNodes_def toGraphNode_def image_iff)

lemma validateGraph_total:
  assumes "e_source ` set es \<subseteq> gn_id ` set ns"
  shows "\<exists>errs. validateGraph ns es isPublic = Inr errs"
  using assms hasCycle_value [of "map gn_id ns" es] by (simp add: validateGraph_def Let_def)

text \<open>In every state the editor page reaches, the validation runs to its end and leaves an empty
  error list exactly when the graph is deployable, the parameters of every node are valid and no
  external check has reported an error.\<close>

theorem validation_gate:
  assumes "page_reachable lib s" and "flow_lib_ok lib"
  shows "ed_validationErrors (runValidation s) = [] \<longleftrightarrow>
    graph_ok (toGraphNodes (ed_nodes s)) (toGraphEdges (ed_edges s)) (\<not> editorOwnerOnly (ed_nodes s) (ed_edges s)) \<and>
    validateNodeParams (ed_nodes s) (ed_stepSchemas s) (ed_tokenDecimals s) = [] \<and> ed_externalErrors s = []"
proof -
  have "wired (ed_nodes s, ed_edges s)" using page_wired [OF assms] by (simp add: all_wired_def current_def)
  from wired_graph [OF this] obtain errs where
    "validateGraph (toGraphNodes (ed_nodes s)) (toGraphEdges (ed_edges s)) (\<not> editorOwnerOnly (ed_nodes s) (ed_edges s)) = Inr errs"
    using validateGraph_total by (metis le_sup_iff)
  then show ?thesis
    using validateGraph_ok [of "toGraphNodes (ed_nodes s)" "toGraphEdges (ed_edges s)" "\<not> editorOwnerOnly (ed_nodes s) (ed_edges s)"]
    by (auto simp: runValidation_def Let_def)
qed

lemma demo_flow_ok: "flow_lib_ok demo_flow"
  by (auto simp: flow_lib_ok_def demo_flow_def)

lemma validation_gate_witness:
  "\<not> graph_ok (toGraphNodes []) (toGraphEdges []) True \<and> ed_validationErrors (runValidation initial_editor) \<noteq> []"
proof -
  have "\<not> graph_ok (toGraphNodes []) (toGraphEdges []) True" by (simp add: graph_ok_def toGraphNodes_def)
  with validation_gate [OF page_init demo_flow_ok] show ?thesis
    by (simp add: initial_editor_def editorOwnerOnly_def)
qed

section \<open>Pool checks\<close>

record swap_pool_check =
  pc_nodeId :: string
  pc_feeField :: string
  pc_tokenIn :: string
  pc_tokenOut :: string
  pc_fee :: jsnum

definition fieldsByWidget :: "step_schema option \<Rightarrow> string \<Rightarrow> string list" where
  "fieldsByWidget schema widget = map fst (filter (\<lambda>(name, fs). widget_is fs widget) (schema_properties schema))"

definition findFieldByWidget :: "step_schema option \<Rightarrow> string \<Rightarrow> string option" where
  "findFieldByWidget schema widget =
     map_option fst (find (\<lambda>(name, fs). widget_is fs widget) (schema_properties schema))"

text \<open>The empty field name is falsy and counts as no field.\<close>

definition poolCheck :: "step_schemas \<Rightarrow> editor_node \<Rightarrow> swap_pool_check option" where
  "poolCheck schemas n =
     (let schema = schemas (en_stepTypeId n) in
      case named_field (findFieldByWidget schema ''fee-tier'') of
        None \<Rightarrow> None
      | Some feeField \<Rightarrow>
          (case fieldsByWidget schema ''token-selector'' of
             (c1 # f1) # (c2 # f2) # _ \<Rightarrow>
               (case (getp (en_params n) (c1 # f1), getp (en_params n) (c2 # f2), getp (en_params n) feeField) of
                  (JStr tokenIn, JStr tokenOut, fee) \<Rightarrow>
                    if tokenIn = [] \<or> tokenOut = [] \<or> fee = JUndef \<or> fee = JNull then None
                    else Some \<lparr>pc_nodeId = en_id n, pc_feeField = feeField, pc_tokenIn = tokenIn,
                      pc_tokenOut = tokenOut, pc_fee = to_number fee\<rparr>
                | _ \<Rightarrow> None)
           | _ \<Rightarrow> None))"

definition collectSwapPoolChecks :: "editor_node list \<Rightarrow> step_schemas \<Rightarrow> swap_pool_check list" where
  "collectSwapPoolChecks ns schemas = List.map_filter (poolCheck schemas) ns"

text \<open>\<open>check\<close> stands for the factory call; \<open>None\<close> when it fails.\<close>

definition pool_missing :: "(string \<Rightarrow> string \<Rightarrow> jsnum \<Rightarrow> string option) \<Rightarrow> swap_pool_check \<Rightarrow> bool" where
  "pool_missing check c =
     (let pool = or_else (check (pc_tokenIn c) (pc_tokenOut c) (pc_fee c)) ZERO_ADDRESS in
      pool = [] \<or> lower pool = ZERO_ADDRESS)"

definition buildSwapPoolErrors ::
  "swap_pool_check list \<Rightarrow> (string \<Rightarrow> string \<Rightarrow> jsnum \<Rightarrow> string option) \<Rightarrow> validation_error list" where
  "buildSwapPoolErrors checks check =
     map (\<lambda>c. \<lparr>ve_text = NoPool, ve_nodeId = Some (pc_nodeId c), ve_fieldName = Some (pc_feeField c)\<rparr>)
       (filter (pool_missing check) checks)"

end
