(* ===== verification/Deployable.thy ===== *)
theory Deployable
  imports Encoding Editor
begin

text \<open>
  From the editor to the vault: graph-to-steps.ts (the editor's own preview of the program), the
  graph the deploy dialog sends to the backend, and the dialog's transaction sequence
  (deploy-dialog.tsx). Lemmas: the preview has the jumps of the backend's program; a graph that
  passed the editor's checks is encoded into a program the vault accepts and executes within its
  step budget; what the dialog has sent and recorded when it reports success.
\<close>

section \<open>graphToSteps\<close>

record step_output =
  so_stepType :: string
  so_target :: string
  so_step_selector :: string
  so_nextOnTrue :: nat
  so_nextOnFalse :: nat
  so_data :: params

definition previewStep :: "(string \<rightharpoonup> graph_node) \<Rightarrow> gedge list \<Rightarrow> (string \<rightharpoonup> nat) \<Rightarrow> string \<Rightarrow> string + step_output" where
  "previewStep nodes es idx x =
     (case nodes x of
        None \<Rightarrow> Inl x
      | Some n \<Rightarrow>
          let outs = out_edges es x; condition = (gn_type n = ''CONDITION'') in
          Inr \<lparr>so_stepType = gn_type n, so_target = gn_contractAddress n, so_step_selector = gn_selector n,
            so_nextOnTrue = (if condition then jump idx outs ''true'' else jump idx outs ''out''),
            so_nextOnFalse = (if condition then jump idx outs ''false'' else DONE), so_data = gn_params n\<rparr>)"

definition graphToSteps :: "graph_node list \<Rightarrow> gedge list \<Rightarrow> string \<Rightarrow> string + step_output list" where
  "graphToSteps ns es startNodeId =
     (if length ns = 0 then Inr []
      else let order = bfs_order es startNodeId in
        rmapM (previewStep (by_key gn_id ns) es (indexMap order)) order)"

section \<open>The graph the editor sends\<close>

definition friendly_node_of :: "editor_node \<Rightarrow> friendly_node" where
  "friendly_node_of n = \<lparr>fn_id = en_id n, fn_type = en_type n, fn_stepTypeId = en_stepTypeId n, fn_params = en_params n\<rparr>"

definition friendly_edge_of :: "editor_edge \<Rightarrow> friendly_edge" where
  "friendly_edge_of e = \<lparr>fe_source = ee_source e, fe_target = ee_target e, fe_handle = ee_handle e\<rparr>"

definition sent_graph ::
  "editor_node list \<Rightarrow> editor_edge list \<Rightarrow> step_schemas \<Rightarrow> token_decimals \<Rightarrow> boundary_error + raw_graph" where
  "sent_graph ns es schemas tds =
     mapGraphToRaw (map friendly_node_of ns) (map friendly_edge_of es) schemas tds"

lemma mapNodeToRaw_fields:
  "mapNodeToRaw schemas tds n = Inr r \<Longrightarrow> n_id r = fn_id n \<and> n_type r = or_else (fn_type n) ''ACTION''"
  by (auto simp: mapNodeToRaw_def result_simps)

lemma sent_graph_nodes:
  assumes "sent_graph ns es schemas tds = Inr g"
  shows "g_edges g = toGraphEdges es" and "node_ids g = map en_id ns"
    and "map n_type (g_nodes g) = map (\<lambda>n. or_else (en_type n) ''ACTION'') ns" and "length (g_nodes g) = length ns"
proof -
  obtain rs where rs: "rmapM (mapNodeToRaw schemas tds) (map friendly_node_of ns) = Inr rs"
    and g: "g = \<lparr>g_nodes = rs, g_edges = map mapEdgeToRaw (map friendly_edge_of es)\<rparr>"
    using assms by (auto simp: sent_graph_def mapGraphToRaw_def result_simps)
  show "g_edges g = toGraphEdges es"
    by (simp add: g toGraphEdges_def mapEdgeToRaw_def friendly_edge_of_def)
  have len: "length rs = length ns" using rmapM_length [OF rs] by simp
  have nth: "n_id (rs ! i) = en_id (ns ! i) \<and> n_type (rs ! i) = or_else (en_type (ns ! i)) ''ACTION''"
    if "i < length ns" for i
    using mapNodeToRaw_fields [OF rmapM_nth [OF rs, of i]] that by (simp add: friendly_node_of_def)
  show "node_ids g = map en_id ns" "map n_type (g_nodes g) = map (\<lambda>n. or_else (en_type n) ''ACTION'') ns"
    "length (g_nodes g) = length ns"
    using len nth by (auto simp: g node_ids_def list_eq_iff_nth_eq)
qed

lemma sent_graph_starts:
  assumes "sent_graph ns es schemas tds = Inr g"
  shows "map (\<lambda>n. (n_id n, n_type n)) (startNodes g) =
    map (\<lambda>n. (en_id n, or_else (en_type n) ''ACTION'')) (editor_starts ns es)"
proof -
  note s = sent_graph_nodes [OF assms]
  have zip: "map (\<lambda>n. (n_id n, n_type n)) (g_nodes g) = map (\<lambda>n. (en_id n, or_else (en_type n) ''ACTION'')) ns"
    using s(2,3) by (simp add: list_eq_iff_nth_eq node_ids_def)
  have flt: "map f (filter (P \<circ> fst \<circ> f) xs) = filter (P \<circ> fst) (map f xs)" for f :: "'x \<Rightarrow> string \<times> string" and P xs
    by (simp add: filter_map comp_def)
  have "map (\<lambda>n. (n_id n, n_type n)) (startNodes g) =
      filter (is_start (map en_id ns) (toGraphEdges es) \<circ> fst) (map (\<lambda>n. (n_id n, n_type n)) (g_nodes g))"
    by (simp add: startNodes_def s(1,2) filter_map comp_def)
  also have "\<dots> = map (\<lambda>n. (en_id n, or_else (en_type n) ''ACTION'')) (editor_starts ns es)"
    by (simp add: zip editor_starts_def filter_map comp_def)
  finally show ?thesis .
qed

lemma editor_starts_graph:
  "map toGraphNode (editor_starts ns es) = start_nodes (toGraphNodes ns) (toGraphEdges es)"
  by (simp add: editor_starts_def start_nodes_def toGraphNodes_def filter_map comp_def toGraphNode_def)

section \<open>Acyclic graphs end\<close>

lemma acyclic_edges:
  assumes "\<not> cyclic ids es" "e_source ` set es \<union> e_target ` set es \<subseteq> set ids"
  shows "acyclic {(a, b). edge_rel es a b}"
proof -
  have "{(a, b). edge_rel es a b} = arcs ids es" using assms(2) by (auto simp: arcs_def edge_rel_def)
  then show ?thesis using assms(1) by (simp add: acyclic_def cyclic_def)
qed

definition rank :: "'a gedge_scheme list \<Rightarrow> string \<Rightarrow> nat" where
  "rank es x = card {y. (x, y) \<in> {(a, b). edge_rel es a b}\<^sup>+}"

lemma finite_after: "finite {y. (x, y) \<in> {(a, b). edge_rel es a b}\<^sup>+}"
proof (rule finite_subset)
  show "{y. (x, y) \<in> {(a, b). edge_rel es a b}\<^sup>+} \<subseteq> e_target ` set es"
  proof
    fix y assume "y \<in> {y. (x, y) \<in> {(a, b). edge_rel es a b}\<^sup>+}"
    then obtain z where "edge_rel es z y" by (auto dest: tranclD2)
    then show "y \<in> e_target ` set es" by (auto simp: edge_rel_def)
  qed
qed simp

lemma rank_decreases:
  assumes "acyclic {(a, b). edge_rel es a b}" "edge_rel es x y"
  shows "rank es y < rank es x"
  unfolding rank_def
proof (rule psubset_card_mono [OF finite_after])
  let ?R = "{(a, b). edge_rel es a b}"
  have xy: "(x, y) \<in> ?R" using assms(2) by simp
  have "{z. (y, z) \<in> ?R\<^sup>+} \<subseteq> {z. (x, z) \<in> ?R\<^sup>+}" using xy by (auto intro: trancl_into_trancl2)
  moreover have "y \<in> {z. (x, z) \<in> ?R\<^sup>+}" using xy by blast
  moreover have "y \<notin> {z. (y, z) \<in> ?R\<^sup>+}" using assms(1) by (simp add: acyclic_def)
  ultimately show "{z. (y, z) \<in> ?R\<^sup>+} \<subset> {z. (x, z) \<in> ?R\<^sup>+}" by blast
qed

lemma successor_edge: "successor g x h = Some y \<Longrightarrow> edge_rel (g_edges g) x y"
  by (auto simp: successor_def edge_rel_def dest!: find_out_edge)

lemma walk_ends:
  "acyclic {(a, b). edge_rel (g_edges g) a b} \<Longrightarrow> (\<forall>y. x = Some y \<longrightarrow> rank (g_edges g) y < budget) \<Longrightarrow>
    walk cond act owner g call start budget x ctx fired \<noteq> Inl MaxStepsExceeded"
proof (induction cond act owner g call start budget x ctx fired rule: walk.induct)
  case (3 cond act owner g call start budget x ctx fired)
  have next_ok: "\<forall>y. successor g x h = Some y \<longrightarrow> rank (g_edges g) y < budget" for h
  proof (intro allI impI)
    fix y assume "successor g x h = Some y"
    from rank_decreases [OF "3.prems"(1) successor_edge [OF this]] "3.prems"(2) show "rank (g_edges g) y < budget" by simp
  qed
  show ?case
  proof (cases "is_condition g x")
    case True
    then show ?thesis using "3.IH"(1) "3.prems"(1) next_ok by (cases "cond ctx (call x)") (auto simp: Let_def)
  next
    case False
    then show ?thesis using "3.IH"(2) "3.prems"(1) next_ok by (cases "act ctx (call x)") auto
  qed
qed auto

lemma rank_bound:
  assumes "acyclic {(a, b). edge_rel es a b}" "e_target ` set es \<subseteq> set ids" "x \<in> set ids"
  shows "rank es x < length ids"
proof -
  let ?A = "{y. (x, y) \<in> {(a, b). edge_rel es a b}\<^sup>+}"
  have "?A \<subseteq> set ids - {x}"
  proof
    fix y assume y: "y \<in> ?A"
    then obtain z where "edge_rel es z y" by (auto dest: tranclD2)
    then have "y \<in> set ids" using assms(2) by (auto simp: edge_rel_def)
    then show "y \<in> set ids - {x}" using y assms(1) by (auto simp: acyclic_def)
  qed
  then have "card ?A \<le> card (set ids - {x})" by (intro card_mono) auto
  also have "\<dots> < card (set ids)" using assms(3) by (intro psubset_card_mono) auto
  also have "\<dots> \<le> length ids" by (rule card_length)
  finally show ?thesis by (simp add: rank_def)
qed

section \<open>What the editor checks is what the vault runs\<close>

lemma sent_graph_deployable:
  assumes ok: "graph_ok (toGraphNodes ns) (toGraphEdges es) isPublic" and w: "wired (ns, es)"
    and sent: "sent_graph ns es schemas tds = Inr g"
  obtains n where "startNodes g = [n]" "acyclic {(a, b). edge_rel (g_edges g) a b}"
    "\<forall>x \<in> set (node_ids g). reaches (g_edges g) (n_id n) x" "rank (g_edges g) (n_id n) < 256"
    "length (g_nodes g) \<le> 256" "n_id n \<in> set (node_ids g)"
    "inferOwnerOnly g \<longleftrightarrow> or_else (en_type (hd (editor_starts ns es))) ''ACTION'' = ''ACTION''"
proof -
  note s = sent_graph_nodes [OF sent]
  have ids: "map gn_id (toGraphNodes ns) = map en_id ns" by (simp add: toGraphNodes_def toGraphNode_def comp_def)
  then have idset: "gn_id ` set (toGraphNodes ns) = set (map en_id ns)" by (metis list.set_map)
  obtain m where m: "start_nodes (toGraphNodes ns) (toGraphEdges es) = [m]"
    "\<forall>k \<in> set (toGraphNodes ns). reaches (toGraphEdges es) (gn_id m) (gn_id k)"
    using ok by (auto simp: graph_ok_def)
  then obtain k where k: "editor_starts ns es = [k]" "m = toGraphNode k"
    using editor_starts_graph [of ns es] by (cases "editor_starts ns es") auto
  then obtain n where n: "startNodes g = [n]" "n_id n = en_id k" "n_type n = or_else (en_type k) ''ACTION''"
    using sent_graph_starts [OF sent] by (cases "startNodes g") auto
  have inside: "e_source ` set (toGraphEdges es) \<union> e_target ` set (toGraphEdges es) \<subseteq> set (map en_id ns)"
    using wired_graph [OF w] by (simp only: idset)
  have acyc: "acyclic {(a, b). edge_rel (toGraphEdges es) a b}"
    using acyclic_edges [OF _ inside] ok by (simp add: graph_ok_def ids)
  have "k \<in> set (editor_starts ns es)" using k(1) by simp
  then have start_in: "en_id k \<in> set (map en_id ns)" by (auto simp: editor_starts_def)
  have reach: "reaches (toGraphEdges es) (en_id k) x" if "x \<in> set (map en_id ns)" for x
    using m(2) that k(2) by (auto simp: toGraphNodes_def toGraphNode_def)
  have "rank (toGraphEdges es) (en_id k) < length (map en_id ns)"
    by (rule rank_bound [OF acyc _ start_in]) (use inside in auto)
  then have "rank (toGraphEdges es) (en_id k) < 256" using ok by (simp add: graph_ok_def toGraphNodes_def)
  then show thesis using that [OF n(1)] acyc reach start_in ok
    by (simp add: s n k(1) graph_ok_def toGraphNodes_def inferOwnerOnly_def)
qed

text \<open>C14. A graph that passed the editor's checks runs to its end: when its encoding succeeds, no
  execution of the program on the vault exceeds the step budget or leaves the step array, whoever
  executes it and whatever the step contracts answer.\<close>

theorem validated_graph_executes:
  assumes "graph_ok (toGraphNodes ns) (toGraphEdges es) isPublic" and "wired (ns, es)"
    and "sent_graph ns es schemas tds = Inr g"
    and "encode lib rows chain db vault aid g overrides = (db', Inr r)"
  shows "execute cond act owner (r_ownerOnly r) (r_steps r) ctx \<noteq> Inl MaxStepsExceeded \<and>
    execute cond act owner (r_ownerOnly r) (r_steps r) ctx \<noteq> Inl (IndexOutOfBounds i)"
proof (rule encode_Inr [OF assms(4)])
  fix m steps
  assume v: "validateServerSide g = None" and c: "compileSteps lib (stepTypeMap rows) m g = Inr steps"
    and t: "encode_tail lib chain vault g (or_else overrides []) m steps = Inr r"
  note r = encode_tail_fields [OF t]
  obtain n where n: "startNodes g = [n]" "acyclic {(a, b). edge_rel (g_edges g) a b}"
    "rank (g_edges g) (n_id n) < 256" by (rule sent_graph_deployable [OF assms(1-3)])
  have start: "startNode g = Some n" using n(1) by (simp add: startNode_startNodes)
  have "execute_graph cond act owner g call n ctx \<noteq> Inl MaxStepsExceeded" for call
    unfolding execute_graph_def using n(3) by (intro walk_ends [OF n(2)]) (simp add: MAX_STEPS_def)
  then have "map_sum (map_vault_error ((!) (bfs_order (g_edges g) (n_id n)))) id
      (execute cond act owner (inferOwnerOnly g) steps ctx) \<noteq> Inl MaxStepsExceeded"
    using compile_execute [OF c v, of cond act owner ctx] start by auto
  then have "execute cond act owner (inferOwnerOnly g) steps ctx \<noteq> Inl MaxStepsExceeded" by auto
  moreover have "execute cond act owner (inferOwnerOnly g) steps ctx \<noteq> Inl (IndexOutOfBounds i)"
    unfolding execute_def
    by (rule run_steps_in_bounds) (use compiled_refs [OF c] order_in_nodes [OF c] in auto)
  ultimately show ?thesis by (simp add: r)
qed

text \<open>The graph of the small deployment, as the editor holds it.\<close>

definition demo_nodes :: "editor_node list" where
  "demo_nodes =
     [\<lparr>en_id = ''t'', en_type = Some ''CONDITION'', en_position = (0, 0), en_selected = False, en_stepTypeId = ''interval'',
       en_stepTypeName = [], en_category = ''CONDITION'', en_contractAddress = ''0xC1'', en_selector = ''0x11'',
       en_params = [''timeSlot'' \<mapsto> JStr ''last'']\<rparr>,
      \<lparr>en_id = ''p'', en_type = Some ''ACTION'', en_position = (0, 1), en_selected = False, en_stepTypeId = ''pay'',
       en_stepTypeName = [], en_category = ''ACTION'', en_contractAddress = ''0xA1'', en_selector = ''0x22'',
       en_params = [''on'' \<mapsto> JStr ''true'']\<rparr>]"

definition demo_wires :: "editor_edge list" where
  "demo_wires = [\<lparr>ee_id = ''e'', ee_source = ''t'', ee_target = ''p'', ee_handle = Some ''true'', ee_selected = False,
     ee_label = ''True'', ee_stroke = []\<rparr>]"

definition demo_schemas :: step_schemas where
  "demo_schemas = [''interval'' \<mapsto> \<lparr>ss_paramSchema = None, ss_components = [\<lparr>c_name = ''timeSlot'', c_type = ''uint32''\<rparr>]\<rparr>,
     ''pay'' \<mapsto> \<lparr>ss_paramSchema = None, ss_components = [\<lparr>c_name = ''on'', c_type = ''bool''\<rparr>]\<rparr>]"

lemma demo_wired: "wired (demo_nodes, demo_wires)"
  by (simp add: wired_def demo_nodes_def demo_wires_def)

lemma demo_sent: "sent_graph demo_nodes demo_wires demo_schemas Map.empty = Inr demo_graph"
  by (simp add: sent_graph_def mapGraphToRaw_def demo_nodes_def demo_wires_def friendly_node_of_def friendly_edge_of_def
      mapNodeToRaw_def mapParamsToRaw_def demo_schemas_def schema_properties_def mapComponent_def Let_def getp_def
      mapFieldToRaw_def mapEdgeToRaw_def demo_graph_def)

lemma demo_graph_ok: "graph_ok (toGraphNodes demo_nodes) (toGraphEdges demo_wires) True"
proof -
  have "validateGraph (toGraphNodes demo_nodes) (toGraphEdges demo_wires) True = Inr []"
    by (simp add: validateGraph_def toGraphNodes_def toGraphNode_def toGraphEdges_def demo_nodes_def demo_wires_def
        start_nodes_def is_start_iff start_errors_def edge_errors_def reach_errors_def out_edges_filter
        hasCycle_def adjacency_def all_white_def neighbours_def bfs_order_def)
  then show ?thesis by (simp add: validateGraph_ok)
qed

lemma validated_graph_executes_witness:
  "execute (\<lambda>c d. Some True) (\<lambda>c d. Some (c + 1)) False False demo_steps (0::nat) \<noteq> Inl MaxStepsExceeded"
proof -
  have "execute (\<lambda>c d. Some True) (\<lambda>c d. Some (c + 1)) False (r_ownerOnly demo_result) (r_steps demo_result) (0::nat)
      \<noteq> Inl MaxStepsExceeded"
    by (rule validated_graph_executes [OF demo_graph_ok demo_wired demo_sent demo_encode, THEN conjunct1])
  then show ?thesis by (simp add: demo_result_def)
qed



text \<open>The preview's step for a node has the jumps of the backend's step for it.\<close>

lemma previewStep_jumps:
  assumes "previewStep nodes (g_edges g) idx x = Inr p" "compileStep lib stm m g idx x = Inr s"
    and "nodes x = Some n" "nodeMap g x = Some k" "n_type k = gn_type n"
  shows "so_nextOnTrue p = s_nextOnTrue s \<and> so_nextOnFalse p = s_nextOnFalse s"
  using assms by (auto simp: previewStep_def Let_def elim!: compileStep_Inr)

text \<open>The program preview of the editor and the program of the backend have the same shape: for
  the graph the editor sends, when both succeed, they have the same number of steps and the same
  jump targets at every index.\<close>

theorem preview_matches_program:
  assumes "sent_graph ns es schemas tds = Inr g" and "distinct (map en_id ns)" and "startNode g = Some n"
    and "graphToSteps (toGraphNodes ns) (toGraphEdges es) (n_id n) = Inr ps"
    and "compileSteps lib stm m g = Inr steps"
  shows "map (\<lambda>p. (so_nextOnTrue p, so_nextOnFalse p)) ps = map (\<lambda>s. (s_nextOnTrue s, s_nextOnFalse s)) steps"
proof -
  note s = sent_graph_nodes [OF assms(1)]
  let ?order = "bfs_order (g_edges g) (n_id n)"
  have "ns \<noteq> []" using assms(3) s(4) by (auto simp: startNode_def)
  then have run: "rmapM (previewStep (by_key gn_id (toGraphNodes ns)) (g_edges g) (index_of ?order)) ?order = Inr ps"
  proof -
    have "indexMap ?order = index_of ?order" by (rule ext) (rule indexMap_index_of [OF bfs.order_distinct])
    then show ?thesis using assms(4) \<open>ns \<noteq> []\<close> by (simp add: graphToSteps_def Let_def s(1) toGraphNodes_def)
  qed
  obtain n' order where "startNode g = Some n'" "order = bfs_order (g_edges g) (n_id n')" "length steps = length order"
    "\<forall>i < length order. compileStep lib stm m g (index_of order) (order ! i) = Inr (steps ! i)"
    by (rule compileSteps_cases [OF assms(5)])
  then have o: "length steps = length ?order"
    "\<And>i. i < length ?order \<Longrightarrow> compileStep lib stm m g (index_of ?order) (?order ! i) = Inr (steps ! i)"
    using assms(3) by auto
  have "so_nextOnTrue (ps ! i) = s_nextOnTrue (steps ! i) \<and> so_nextOnFalse (ps ! i) = s_nextOnFalse (steps ! i)"
    if i: "i < length ?order" for i
  proof -
    obtain k where k: "nodeMap g (?order ! i) = Some k" using o(2) [OF i] by (auto elim: compileStep_Inr)
    then obtain j where j: "j < length ns" "g_nodes g ! j = k" "en_id (ns ! j) = ?order ! i"
        "n_type k = or_else (en_type (ns ! j)) ''ACTION''"
    proof -
      from nodeMap_Some [OF k] obtain j where j: "j < length (g_nodes g)" "g_nodes g ! j = k" "n_id k = ?order ! i"
        by (auto simp: in_set_conv_nth)
      have "node_ids g ! j = map en_id ns ! j" "map n_type (g_nodes g) ! j = map (\<lambda>n. or_else (en_type n) ''ACTION'') ns ! j"
        by (simp_all add: s(2,3))
      then show thesis using that [of j] j s(4) by (simp add: node_ids_def)
    qed
    have "distinct (map gn_id (toGraphNodes ns))"
      using assms(2) by (simp add: toGraphNodes_def toGraphNode_def comp_def)
    then have "by_key gn_id (toGraphNodes ns) (gn_id (toGraphNode (ns ! j))) = Some (toGraphNode (ns ! j))"
      by (rule by_key_distinct) (use j(1) in \<open>simp add: toGraphNodes_def\<close>)
    then have n: "by_key gn_id (toGraphNodes ns) (?order ! i) = Some (toGraphNode (ns ! j))"
      using j(3) by (simp add: toGraphNode_def)
    show ?thesis
      by (rule previewStep_jumps [OF rmapM_nth [OF run i] o(2) [OF i] n k]) (simp add: j(4) toGraphNode_def)
  qed
  then show ?thesis using rmapM_length [OF run] o(1) by (simp add: list_eq_iff_nth_eq)
qed

lemma preview_matches_program_witness:
  "\<exists>ps. graphToSteps (toGraphNodes demo_nodes) (toGraphEdges demo_wires) ''t'' = Inr ps \<and>
     map (\<lambda>p. (so_nextOnTrue p, so_nextOnFalse p)) ps = [(1, DONE), (DONE, DONE)]"
proof -
  have order: "bfs_order (toGraphEdges demo_wires) ''t'' = [''t'', ''p'']"
    using demo_order sent_graph_nodes(1) [OF demo_sent] by simp
  have "by_key gn_id (toGraphNodes demo_nodes) x \<noteq> None" if "x \<in> {''t'', ''p''}" for x
    using that by (auto simp: by_key_None toGraphNodes_def toGraphNode_def demo_nodes_def)
  then have "\<exists>ps. rmapM (previewStep (by_key gn_id (toGraphNodes demo_nodes)) (toGraphEdges demo_wires) (indexMap [''t'', ''p'']))
      [''t'', ''p''] = Inr ps"
    unfolding rmapM_ok_iff by (fastforce simp: previewStep_def Let_def)
  then obtain ps where ps: "graphToSteps (toGraphNodes demo_nodes) (toGraphEdges demo_wires) ''t'' = Inr ps"
    unfolding graphToSteps_def Let_def order by (simp add: toGraphNodes_def demo_nodes_def split del: if_split) blast
  have "n_id (hd (g_nodes demo_graph)) = ''t''" by (simp add: demo_graph_def)
  then have ps': "graphToSteps (toGraphNodes demo_nodes) (toGraphEdges demo_wires) (n_id (hd (g_nodes demo_graph))) = Inr ps"
    using ps by simp
  have d: "distinct (map en_id demo_nodes)" by (simp add: demo_nodes_def)
  from preview_matches_program [OF demo_sent d demo_startNode ps' demo_compile] ps show ?thesis
    by (simp add: demo_steps_def)
qed

section \<open>The deploy dialog\<close>

text \<open>
  The dialog's environment: the backend's answer to the encode request, the wallet, the receipts
  (\<open>None\<close> when the poll times out), given by the events decoded from their logs, and the
  confirmation request. Texts of failures are strings.
\<close>

datatype chain_event = AutomationCreated nat | OtherEvent string

datatype deploy_phase =
  Preview | EncodingGraph | ContextTx | ContextWait | AutoTx | AutoWait | BackendConfirm | Done | Failed string

datatype deploy_effect =
    SendTransaction string nat
  | ConfirmDeployment nat string bool nat

record deploy_world =
  dw_encode :: "bool \<Rightarrow> raw_graph \<Rightarrow> overrides option \<Rightarrow> string + encode_result"
  dw_send :: "string \<Rightarrow> string + string"
  dw_receipt :: "string \<Rightarrow> chain_event list option"
  dw_patch :: "nat \<Rightarrow> string \<Rightarrow> (string + unit)"

fun created_id :: "chain_event list \<Rightarrow> nat option" where
  "created_id [] = None"
| "created_id (AutomationCreated i # evs) = Some i"
| "created_id (OtherEvent n # evs) = created_id evs"

definition sendContext :: "deploy_world \<Rightarrow> encode_result \<Rightarrow> deploy_effect list \<times> (string + unit)" where
  "sendContext w r =
     (case (r_requiresContextTx r, r_contextCalldata r) of
        (True, Some call) \<Rightarrow>
          (case dw_send w call of
             Inl e \<Rightarrow> ([], Inl e)
           | Inr h \<Rightarrow> ([SendTransaction call 500000], Inr ()))
      | _ \<Rightarrow> ([], Inr ()))"

definition sendAutomation :: "deploy_world \<Rightarrow> encode_result \<Rightarrow> deploy_effect list \<times> deploy_phase" where
  "sendAutomation w r =
     (case dw_send w (r_automationCalldata r) of
        Inl e \<Rightarrow> ([], Failed e)
      | Inr h \<Rightarrow>
          (let sent = SendTransaction (r_automationCalldata r) 2000000 in
           case dw_receipt w h of
             None \<Rightarrow> ([sent], Failed ''Timed out waiting for the deployment transaction'')
           | Some evs \<Rightarrow>
               (case created_id evs of
                  None \<Rightarrow> ([sent], Failed ''Could not read the on-chain automation ID from the transaction'')
                | Some i \<Rightarrow>
                    (case dw_patch w i h of
                       Inl e \<Rightarrow> ([sent], Failed e)
                     | Inr u \<Rightarrow> ([sent, ConfirmDeployment i h (r_ownerOnly r) (r_stepCount r)], Done)))))"

definition handleDeploy ::
  "deploy_world \<Rightarrow> bool \<Rightarrow> editor_node list \<Rightarrow> editor_edge list \<Rightarrow> step_schemas \<Rightarrow> token_decimals
     \<Rightarrow> deploy_effect list \<times> deploy_phase" where
  "handleDeploy w isEdit ns es schemas tds =
     (case (sent_graph ns es schemas tds, buildContextOverrides (map friendly_node_of ns) schemas) of
        (Inl e, _) \<Rightarrow> ([], Failed ''Deployment failed'')
      | (_, Inl e) \<Rightarrow> ([], Failed ''Deployment failed'')
      | (Inr g, Inr ov) \<Rightarrow>
          (case dw_encode w isEdit g (if 0 < length ov then Some ov else None) of
             Inl e \<Rightarrow> ([], Failed e)
           | Inr r \<Rightarrow>
               (case sendContext w r of
                  (es1, Inl e) \<Rightarrow> (es1, Failed e)
                | (es1, Inr u) \<Rightarrow> (case sendAutomation w r of (es2, p) \<Rightarrow> (es1 @ es2, p)))))"

text \<open>When the deploy dialog reports success, the last two things it did were to send the
  automation transaction of the backend's answer and to confirm the id of the AutomationCreated
  event of that transaction's receipt, with the ownership and step count of the answer.\<close>

theorem deploy_done:
  assumes "handleDeploy w isEdit ns es schemas tds = (effects, Done)"
  shows "\<exists>g ov r h evs i before. sent_graph ns es schemas tds = Inr g \<and>
    dw_encode w isEdit g ov = Inr r \<and> dw_send w (r_automationCalldata r) = Inr h \<and>
    dw_receipt w h = Some evs \<and> AutomationCreated i \<in> set evs \<and>
    effects = before @ [SendTransaction (r_automationCalldata r) 2000000,
      ConfirmDeployment i h (r_ownerOnly r) (r_stepCount r)] \<and>
    (r_requiresContextTx r \<and> r_contextCalldata r \<noteq> None \<longrightarrow> before = [SendTransaction (the (r_contextCalldata r)) 500000])"
proof -
  have created: "created_id evs = Some i \<Longrightarrow> AutomationCreated i \<in> set evs" for evs i
    by (induction evs rule: created_id.induct) auto
  obtain g ov where g: "sent_graph ns es schemas tds = Inr g"
      "buildContextOverrides (map friendly_node_of ns) schemas = Inr ov"
    using assms by (auto simp: handleDeploy_def split: sum.splits)
  obtain r where r: "dw_encode w isEdit g (if 0 < length ov then Some ov else None) = Inr r"
    using assms by (auto simp: handleDeploy_def g split: sum.splits)
  obtain es1 u es2 where c: "sendContext w r = (es1, Inr u)" "sendAutomation w r = (es2, Done)" "effects = es1 @ es2"
    using assms unfolding handleDeploy_def g prod.case sum.case r
    by (cases "sendContext w r"; cases "snd (sendContext w r)"; cases "sendAutomation w r") auto
  obtain h evs i where h: "dw_send w (r_automationCalldata r) = Inr h" "dw_receipt w h = Some evs" "created_id evs = Some i"
      "es2 = [SendTransaction (r_automationCalldata r) 2000000, ConfirmDeployment i h (r_ownerOnly r) (r_stepCount r)]"
    using c(2) by (auto simp: sendAutomation_def Let_def split: sum.splits option.splits)
  have "r_requiresContextTx r \<and> r_contextCalldata r \<noteq> None \<longrightarrow> es1 = [SendTransaction (the (r_contextCalldata r)) 500000]"
    using c(1) by (auto simp: sendContext_def split: sum.splits)
  with g r h created c(3) show ?thesis by blast
qed

text \<open>The vault announces a step update with another event than a creation, so the dialog never
  reports success for an update: whatever the wallet and the backend answer, an edit ends in a
  failure, also after its transaction went through.\<close>

theorem edit_never_done:
  assumes "\<And>h evs i. dw_receipt w h = Some evs \<Longrightarrow> AutomationCreated i \<notin> set evs"
  shows "\<exists>msg. snd (handleDeploy w isEdit ns es schemas tds) = Failed msg"
proof -
  have none: "(\<forall>i. AutomationCreated i \<notin> set evs) \<Longrightarrow> created_id evs = None" for evs
    by (induction evs rule: created_id.induct) auto
  have "created_id evs = None" if "dw_receipt w h = Some evs" for h evs
    using none assms [OF that] by blast
  then have "\<exists>msg. snd (sendAutomation w r) = Failed msg" for r
    by (auto simp: sendAutomation_def Let_def split: sum.splits option.splits)
  then show ?thesis
    by (auto simp: handleDeploy_def split: sum.splits prod.splits) (metis snd_conv)+
qed

definition demo_world :: "chain_event list \<Rightarrow> deploy_world" where
  "demo_world evs = \<lparr>dw_encode = (\<lambda>e g ov. Inr demo_result), dw_send = (\<lambda>c. Inr ''0xh''), dw_receipt = (\<lambda>h. Some evs),
     dw_patch = (\<lambda>i h. Inr ())\<rparr>"

lemma demo_overrides: "buildContextOverrides (map friendly_node_of demo_nodes) demo_schemas = Inr []"
  by (simp add: buildContextOverrides_def demo_nodes_def friendly_node_of_def demo_schemas_def schema_properties_def)

lemma deploy_done_witness:
  "\<exists>effects i. handleDeploy (demo_world [AutomationCreated 4]) False demo_nodes demo_wires demo_schemas Map.empty = (effects, Done) \<and>
     ConfirmDeployment i ''0xh'' False 2 \<in> set effects"
proof -
  obtain effects where run: "handleDeploy (demo_world [AutomationCreated 4]) False demo_nodes demo_wires demo_schemas Map.empty
      = (effects, Done)"
    by (simp add: handleDeploy_def demo_sent demo_overrides demo_world_def sendContext_def sendAutomation_def
        demo_result_def Let_def)
  from deploy_done [OF run] run show ?thesis by (auto simp: demo_world_def demo_result_def)
qed

lemma edit_never_done_witness:
  "\<exists>msg. snd (handleDeploy (demo_world [OtherEvent ''AutomationStepsUpdated'']) True demo_nodes demo_wires demo_schemas
     Map.empty) = Failed msg"
  by (rule edit_never_done) (auto simp: demo_world_def)

end
