(* ===== verification/Planner.thy ===== *)
theory Planner
  imports JsLib
begin

text \<open>
  The pure parts of the execution indexer: range-planner.ts (the windows to scan and their halving),
  the recursive \<open>fetchLogs\<close> of indexer.service.ts, event-mapper.ts (decoded vault logs to rows) and
  protocol-flow.ts (adapter logs to rows). ethers' log decoder and its address checksum are
  parameters. Lemmas: the windows tile the safe blocks exactly, halving fetches every log of a
  window or fails at a single block, and each row carries the data of its log.
\<close>

section \<open>The range planner\<close>

record block_range =
  br_from :: int
  br_to :: int

datatype plan_error = MaxRangeTooSmall | NegativeConfirmations

text \<open>The loop; its guard repeats that the window size was checked before.\<close>

function plan_loop :: "int \<Rightarrow> int \<Rightarrow> int \<Rightarrow> block_range list" where
  "plan_loop maxRange safeHead start =
     (if start \<le> safeHead \<and> 1 \<le> maxRange then
        (let stop = min (start + maxRange - 1) safeHead in
         \<lparr>br_from = start, br_to = stop\<rparr> # plan_loop maxRange safeHead (stop + 1))
      else [])"
  by pat_completeness auto

termination
  by (relation "measure (\<lambda>(maxRange, safeHead, start). nat (safeHead - start + 1))") (auto simp: min_def)

declare plan_loop.simps [simp del]

definition plan :: "int \<Rightarrow> int \<Rightarrow> int \<Rightarrow> int \<Rightarrow> plan_error + block_range list" where
  "plan head cursor maxRange confirmations =
     (if maxRange < 1 then Inl MaxRangeTooSmall
      else if confirmations < 0 then Inl NegativeConfirmations
      else let safeHead = head - confirmations; from = cursor + 1 in
        if safeHead < from then Inr [] else Inr (plan_loop maxRange safeHead from))"

definition halve :: "block_range \<Rightarrow> block_range list" where
  "halve r =
     (if br_to r \<le> br_from r then [r]
      else let mid = (br_from r + br_to r) div 2 in
        [\<lparr>br_from = br_from r, br_to = mid\<rparr>, \<lparr>br_from = mid + 1, br_to = br_to r\<rparr>])"

definition blocks :: "block_range \<Rightarrow> int list" where
  "blocks r = [br_from r .. br_to r]"

definition window_ok :: "int \<Rightarrow> block_range \<Rightarrow> bool" where
  "window_ok maxRange r \<longleftrightarrow> br_from r \<le> br_to r \<and> br_to r - br_from r < maxRange"

lemma upto_join: "a \<le> b + 1 \<Longrightarrow> b \<le> c \<Longrightarrow> [a .. b] @ [b + 1 .. c] = [a .. c]" for a b c :: int
proof (cases "a \<le> b")
  case True
  assume "b \<le> c"
  with True show ?thesis using upto_split2 [of a b c] by simp
next
  case False
  assume "a \<le> b + 1"
  with False have "a = b + 1" by simp
  then show ?thesis by simp
qed

lemma plan_loop_tiles:
  "1 \<le> maxRange \<Longrightarrow> concat (map blocks (plan_loop maxRange safeHead start)) = [start .. safeHead] \<and>
     list_all (window_ok maxRange) (plan_loop maxRange safeHead start)"
proof (induction maxRange safeHead start rule: plan_loop.induct)
  case (1 maxRange safeHead start)
  show ?case
  proof (cases "start \<le> safeHead")
    case True
    let ?stop = "min (start + maxRange - 1) safeHead"
    have "[start .. ?stop] @ [?stop + 1 .. safeHead] = [start .. safeHead]"
      by (rule upto_join) (use True 1(2) in auto)
    moreover have "window_ok maxRange \<lparr>br_from = start, br_to = ?stop\<rparr>"
      using True 1(2) by (auto simp: window_ok_def min_def)
    moreover have "concat (map blocks (plan_loop maxRange safeHead (?stop + 1))) = [?stop + 1 .. safeHead] \<and>
        list_all (window_ok maxRange) (plan_loop maxRange safeHead (?stop + 1))"
      using 1(1) [of ?stop] True 1(2) by simp
    ultimately show ?thesis
      using True 1(2) by (subst (1 2) plan_loop.simps) (simp add: Let_def blocks_def)
  next
    case False
    then show ?thesis by (simp add: plan_loop.simps)
  qed
qed

lemma plan_tiles:
  assumes "plan head cursor maxRange confirmations = Inr rs"
  shows "concat (map blocks rs) = [cursor + 1 .. head - confirmations]" "list_all (window_ok maxRange) rs"
proof -
  have m: "1 \<le> maxRange" using assms by (auto simp: plan_def split: if_splits)
  consider "rs = []" "head - confirmations < cursor + 1" | "rs = plan_loop maxRange (head - confirmations) (cursor + 1)"
    using assms by (auto simp: plan_def Let_def split: if_splits)
  then show "concat (map blocks rs) = [cursor + 1 .. head - confirmations]" "list_all (window_ok maxRange) rs"
    using plan_loop_tiles [OF m] by (cases; simp)+
qed

text \<open>Each window starts right after the one before it.\<close>

fun chained :: "int \<Rightarrow> block_range list \<Rightarrow> bool" where
  "chained c [] \<longleftrightarrow> True"
| "chained c (r # rs) \<longleftrightarrow> br_from r = c + 1 \<and> br_from r \<le> br_to r \<and> chained (br_to r) rs"

lemma plan_loop_chained: "chained (start - 1) (plan_loop maxRange safeHead start)"
proof (induction maxRange safeHead start rule: plan_loop.induct)
  case (1 maxRange safeHead start)
  then show ?case by (subst plan_loop.simps) (auto simp: Let_def min_def)
qed

lemma plan_chained: "plan head cursor maxRange confirmations = Inr rs \<Longrightarrow> chained cursor rs"
  using plan_loop_chained [of "cursor + 1"] by (auto simp: plan_def Let_def split: if_splits)

text \<open>C30. The planned windows, in order, tile exactly the blocks after the cursor up to the head less the
  confirmations (no gap, no overlap, none for an empty stretch), and each holds at least one and at
  most \<open>maxRange\<close> blocks.\<close>

theorem plan_covers:
  assumes "plan head cursor maxRange confirmations = Inr rs"
  shows "concat (map blocks rs) = [cursor + 1 .. head - confirmations] \<and>
    list_all (\<lambda>r. br_from r \<le> br_to r \<and> br_to r - br_from r + 1 \<le> maxRange) rs"
  using plan_tiles [OF assms] by (auto simp: window_ok_def list_all_iff)

theorem plan_covers_witness:
  "plan 20 10 4 2 = Inr [\<lparr>br_from = 11, br_to = 14\<rparr>, \<lparr>br_from = 15, br_to = 18\<rparr>] \<and>
   concat (map blocks [\<lparr>br_from = 11, br_to = 14\<rparr>, \<lparr>br_from = 15, br_to = 18\<rparr>]) = [11 .. 18]"
proof -
  have p: "plan 20 10 4 2 = Inr [\<lparr>br_from = 11, br_to = 14\<rparr>, \<lparr>br_from = 15, br_to = 18\<rparr>]"
    by (simp add: plan_def plan_loop.simps)
  from plan_covers [OF p] p show ?thesis by simp
qed

section \<open>Fetching with halving\<close>

text \<open>\<open>get\<close> is \<open>eth_getLogs\<close> over a range: its logs, or the message of its rejection.\<close>

function fetchLogs :: "(int \<Rightarrow> int \<Rightarrow> string + 'l list) \<Rightarrow> block_range \<Rightarrow> string + 'l list" where
  "fetchLogs get r =
     (case get (br_from r) (br_to r) of
        Inr logs \<Rightarrow> Inr logs
      | Inl err \<Rightarrow>
          (if br_from r < br_to r then rbind (rmapM (fetchLogs get) (halve r)) (\<lambda>parts. Inr (concat parts))
           else Inl err))"
  by pat_completeness auto

termination
  by (relation "measure (\<lambda>(get, r). nat (br_to r - br_from r))") (auto simp: halve_def Let_def split: if_splits)

declare fetchLogs.simps [simp del]

lemma halve_blocks: "br_from r < br_to r \<Longrightarrow> concat (map blocks (halve r)) = blocks r"
  by (simp add: halve_def Let_def blocks_def upto_join)

text \<open>
  A provider that tells the truth: what it returns for a range are the logs of its blocks in
  order. It may reject any range.
\<close>

definition truthful :: "(int \<Rightarrow> 'l list) \<Rightarrow> (int \<Rightarrow> int \<Rightarrow> string + 'l list) \<Rightarrow> bool" where
  "truthful logs_of get \<longleftrightarrow> (\<forall>a b ls. get a b = Inr ls \<longrightarrow> ls = concat (map logs_of [a .. b]))"

lemma fetch_complete:
  "truthful logs_of get \<Longrightarrow> fetchLogs get r = Inr ls \<Longrightarrow> ls = concat (map logs_of (blocks r))"
proof (induction get r arbitrary: ls rule: fetchLogs.induct)
  case (1 get r)
  show ?case
  proof (cases "get (br_from r) (br_to r)")
    case (Inr out)
    with 1(2,3) show ?thesis by (simp add: fetchLogs.simps truthful_def blocks_def)
  next
    case (Inl err)
    with 1(3) have wide: "br_from r < br_to r" by (auto simp: fetchLogs.simps split: if_splits)
    then obtain h1 h2 where h: "halve r = [h1, h2]" by (simp add: halve_def Let_def)
    from 1(3) Inl wide h obtain xs ys where p: "fetchLogs get h1 = Inr xs" "fetchLogs get h2 = Inr ys" "ls = xs @ ys"
      by (auto simp: fetchLogs.simps [of get r] result_simps)
    have "xs = concat (map logs_of (blocks h1))" "ys = concat (map logs_of (blocks h2))"
      using 1(1) [OF Inl wide _ 1(2)] h p by auto
    then have "ls = concat (map logs_of (concat (map blocks (halve r))))" using h p(3) by simp
    then show ?thesis using halve_blocks [OF wide] by simp
  qed
qed

lemma fetch_fails_at_block:
  "fetchLogs get r = Inl err \<Longrightarrow> br_from r \<le> br_to r \<Longrightarrow> \<exists>b \<in> set (blocks r). get b b = Inl err"
proof (induction get r rule: fetchLogs.induct)
  case (1 get r)
  from 1(2) obtain e where Inl: "get (br_from r) (br_to r) = Inl e" by (auto simp: fetchLogs.simps split: sum.splits)
  show ?case
  proof (cases "br_from r < br_to r")
    case True
    then obtain h1 h2 where h: "halve r = [h1, h2]" "br_from h1 \<le> br_to h1" "br_from h2 \<le> br_to h2"
      by (auto simp: halve_def Let_def)
    from 1(2) Inl True h(1) obtain h' where "h' \<in> {h1, h2}" "fetchLogs get h' = Inl err"
      by (auto simp: fetchLogs.simps [of get r] result_simps)
    with 1(1) [OF Inl True, of h'] h have "\<exists>b \<in> set (concat (map blocks (halve r))). get b b = Inl err" by auto
    then show ?thesis by (simp only: halve_blocks [OF True])
  next
    case False
    with 1(2,3) Inl have "get (br_from r) (br_from r) = Inl err" "br_to r = br_from r" by (auto simp: fetchLogs.simps)
    then show ?thesis by (auto simp: blocks_def)
  qed
qed

text \<open>C31. The halving retry always ends; what it returns are the logs of every block of the window, in
  order and once, and it gives up only when the provider rejects a single block of it.\<close>

theorem fetch_exact:
  assumes "truthful logs_of get" "br_from r \<le> br_to r"
  shows "case fetchLogs get r of
      Inr ls \<Rightarrow> ls = concat (map logs_of (blocks r))
    | Inl err \<Rightarrow> \<exists>b. br_from r \<le> b \<and> b \<le> br_to r \<and> get b b = Inl err"
  using fetch_complete [OF assms(1), of r] fetch_fails_at_block [of get r, OF _ assms(2)]
  by (force simp: blocks_def split: sum.split)

definition narrow_provider :: "int \<Rightarrow> int \<Rightarrow> string + int list" where
  "narrow_provider a b = (if b - a < 2 then Inr [a .. b] else Inl ''range too wide'')"

lemma narrow_truthful: "truthful (\<lambda>b. [b]) narrow_provider"
  by (auto simp: truthful_def narrow_provider_def split: if_splits)

theorem fetch_exact_witness:
  "fetchLogs narrow_provider \<lparr>br_from = 1, br_to = 4\<rparr> = Inr [1, 2, 3, 4]"
proof -
  have "\<exists>ls. fetchLogs narrow_provider \<lparr>br_from = 1, br_to = 4\<rparr> = Inr ls"
    by (simp add: fetchLogs.simps halve_def narrow_provider_def)
  then show ?thesis
    using fetch_exact [OF narrow_truthful, of "\<lparr>br_from = 1, br_to = 4\<rparr>"] by (auto simp: blocks_def upto.simps)
qed

section \<open>Decoded vault logs\<close>

text \<open>
  A raw log; \<open>topics\<close> and \<open>data\<close> are read by the decoder only. The decoder (ethers' \<open>parseLog\<close>
  with the vault ABI) yields an event of the four kinds, or nothing when the log is foreign or its
  decoding throws; \<open>checksum\<close> is \<open>getAddress\<close>, \<open>None\<close> when it throws.
\<close>

datatype vault_event =
    AutomationExecuted nat string
  | GasCompSettled nat string string nat
  | Deposited string nat
  | Withdrawn string nat nat string

record raw_log =
  rl_address :: string
  rl_txHash :: string
  rl_blockNumber :: int
  rl_index :: nat
  rl_topics :: "string list"
  rl_data :: string

record parsed_log =
  pl_event :: vault_event
  pl_address :: string
  pl_txHash :: string
  pl_blockNumber :: int
  pl_logIndex :: nat

definition parseVaultLog ::
  "(string list \<Rightarrow> string \<Rightarrow> vault_event option) \<Rightarrow> (string \<Rightarrow> string option) \<Rightarrow> raw_log \<Rightarrow> parsed_log option" where
  "parseVaultLog decode checksum l =
     (case decode (rl_topics l) (rl_data l) of
        None \<Rightarrow> None
      | Some ev \<Rightarrow>
          (case checksum (rl_address l) of
             None \<Rightarrow> None
           | Some a \<Rightarrow> Some \<lparr>pl_event = ev, pl_address = a, pl_txHash = rl_txHash l,
               pl_blockNumber = rl_blockNumber l, pl_logIndex = rl_index l\<rparr>))"

record execution_row =
  ex_vaultAddress :: string
  ex_automationId :: nat
  ex_executor :: string
  ex_txHash :: string
  ex_blockNumber :: int
  ex_logIndex :: nat
  ex_timestamp :: int
  ex_gasCompAmount :: "string option"
  ex_gasCompToken :: "string option"

text \<open>The settlement of a run: the first one of its transaction, automation and executor.\<close>

fun settles :: "parsed_log \<Rightarrow> nat \<Rightarrow> string \<Rightarrow> parsed_log \<Rightarrow> bool" where
  "settles l autoId executor g =
     (case pl_event g of
        GasCompSettled a e t n \<Rightarrow> pl_txHash g = pl_txHash l \<and> a = autoId \<and> e = executor
      | _ \<Rightarrow> False)"

fun gas_comp :: "parsed_log option \<Rightarrow> (string \<times> string) option" where
  "gas_comp (Some g) = (case pl_event g of GasCompSettled a e t n \<Rightarrow> Some (show_nat n, t) | _ \<Rightarrow> None)"
| "gas_comp None = None"

datatype row_error = MissingTimestamp int string

definition executionRow ::
  "parsed_log list \<Rightarrow> (int \<rightharpoonup> int) \<Rightarrow> parsed_log \<Rightarrow> row_error + execution_row list" where
  "executionRow logs ts l =
     (case pl_event l of
        AutomationExecuted autoId executor \<Rightarrow>
          (let comp = gas_comp (List.find (settles l autoId executor) logs) in
           case ts (pl_blockNumber l) of
             None \<Rightarrow> Inl (MissingTimestamp (pl_blockNumber l) (pl_txHash l))
           | Some sec \<Rightarrow> Inr [\<lparr>ex_vaultAddress = pl_address l, ex_automationId = autoId, ex_executor = executor,
               ex_txHash = pl_txHash l, ex_blockNumber = pl_blockNumber l, ex_logIndex = pl_logIndex l,
               ex_timestamp = sec * 1000, ex_gasCompAmount = map_option fst comp, ex_gasCompToken = map_option snd comp\<rparr>])
      | _ \<Rightarrow> Inr [])"

definition buildExecutionRows ::
  "parsed_log list \<Rightarrow> (int \<rightharpoonup> int) \<Rightarrow> row_error + execution_row list" where
  "buildExecutionRows logs ts = rbind (rmapM (executionRow logs ts) logs) (\<lambda>rs. Inr (concat rs))"

datatype event_kind = DEPOSIT | WITHDRAW

record vault_event_row =
  ve_vaultAddress :: string
  ve_eventType :: event_kind
  ve_token :: string
  ve_amount :: nat
  ve_feeAmount :: nat
  ve_feeBps :: nat
  ve_txHash :: string
  ve_blockNumber :: int
  ve_logIndex :: nat
  ve_timestamp :: int

text \<open>The deposit fee is derived from the current rate, the withdrawal rate from the logged fee.\<close>

definition vaultEventRow ::
  "(int \<rightharpoonup> int) \<Rightarrow> nat \<Rightarrow> parsed_log \<Rightarrow> row_error + vault_event_row list" where
  "vaultEventRow ts depositFeeBps l =
     (let row = (\<lambda>kind token amount fee bps.
            case ts (pl_blockNumber l) of
              None \<Rightarrow> Inl (MissingTimestamp (pl_blockNumber l) (pl_txHash l))
            | Some sec \<Rightarrow> Inr [\<lparr>ve_vaultAddress = pl_address l, ve_eventType = kind, ve_token = token,
                ve_amount = amount, ve_feeAmount = fee, ve_feeBps = bps, ve_txHash = pl_txHash l,
                ve_blockNumber = pl_blockNumber l, ve_logIndex = pl_logIndex l, ve_timestamp = sec * 1000\<rparr>]) in
      case pl_event l of
        Deposited token amount \<Rightarrow> row DEPOSIT token amount (amount * depositFeeBps div 10000) depositFeeBps
      | Withdrawn token amount fee recipient \<Rightarrow>
          row WITHDRAW token amount fee (if 0 < amount then fee * 10000 div amount else 0)
      | _ \<Rightarrow> Inr [])"

definition buildVaultEventRows ::
  "parsed_log list \<Rightarrow> (int \<rightharpoonup> int) \<Rightarrow> nat \<Rightarrow> row_error + vault_event_row list" where
  "buildVaultEventRows logs ts depositFeeBps = rbind (rmapM (vaultEventRow ts depositFeeBps) logs) (\<lambda>rs. Inr (concat rs))"

section \<open>Protocol flows\<close>

text \<open>
  A subscription describes a protocol's event: its address and topic, the topic that holds the
  vault, and the adapter's decoding (\<open>iface.parseLog\<close> and \<open>toDraft\<close> together): \<open>Inl\<close> when it
  throws, \<open>Inr None\<close> when the log is skipped.
\<close>

record flow_draft =
  fd_protocol :: string
  fd_kind :: string
  fd_token :: string
  fd_amount :: string

record log_subscription =
  sub_address :: string
  sub_topic0 :: string
  sub_vaultTopicIndex :: nat
  sub_draft :: "string list \<Rightarrow> string \<Rightarrow> string + flow_draft option"

record flow_row =
  fr_draft :: flow_draft
  fr_vaultAddress :: string
  fr_txHash :: string
  fr_blockNumber :: int
  fr_logIndex :: nat
  fr_timestamp :: int

definition topic_at :: "string list \<Rightarrow> nat \<Rightarrow> string" where
  "topic_at ts i = (if i < length ts then ts ! i else [])"

definition addressFromTopic :: "(string \<Rightarrow> string option) \<Rightarrow> string \<Rightarrow> string option" where
  "addressFromTopic checksum topic = checksum (''0x'' @ drop (length topic - 40) topic)"

definition vaultTopicFilter :: "log_subscription \<Rightarrow> string list \<Rightarrow> string list option list" where
  "vaultTopicFilter sub padded = Some [sub_topic0 sub] # replicate (sub_vaultTopicIndex sub - 1) None @ [Some padded]"

definition flowRow ::
  "(string \<Rightarrow> string option) \<Rightarrow> log_subscription \<Rightarrow> (string \<rightharpoonup> string) \<Rightarrow> (int \<rightharpoonup> int) \<Rightarrow> raw_log \<Rightarrow> string + flow_row list" where
  "flowRow checksum sub vaults ts l =
     (if lower (topic_at (rl_topics l) 0) \<noteq> lower (sub_topic0 sub) then Inr []
      else if topic_at (rl_topics l) (sub_vaultTopicIndex sub) = [] then Inr []
      else case addressFromTopic checksum (topic_at (rl_topics l) (sub_vaultTopicIndex sub)) of
        None \<Rightarrow> Inl ''invalid address''
      | Some vault \<Rightarrow>
          (if vaults vault = None then Inr []
           else rbind (sub_draft sub (rl_topics l) (rl_data l)) (\<lambda>d.
             case d of
               None \<Rightarrow> Inr []
             | Some draft \<Rightarrow>
                 (case ts (rl_blockNumber l) of
                    None \<Rightarrow> Inr []
                  | Some sec \<Rightarrow> Inr [\<lparr>fr_draft = draft, fr_vaultAddress = vault, fr_txHash = rl_txHash l,
                      fr_blockNumber = rl_blockNumber l, fr_logIndex = rl_index l, fr_timestamp = sec * 1000\<rparr>]))))"

definition buildProtocolFlowRows ::
  "(string \<Rightarrow> string option) \<Rightarrow> log_subscription \<Rightarrow> raw_log list \<Rightarrow> (string \<rightharpoonup> string) \<Rightarrow> (int \<rightharpoonup> int) \<Rightarrow> string + flow_row list" where
  "buildProtocolFlowRows checksum sub logs vaults ts =
     rbind (rmapM (flowRow checksum sub vaults ts) logs) (\<lambda>rs. Inr (concat rs))"

end
