(* ===== verification/Indexer.thy ===== *)
theory Indexer
  imports Planner JsValues
begin

text \<open>
  The execution indexer (indexer.service.ts, indexer-cursor.store.ts) and the keeper's failure
  ingestion (failure-ingest.service.ts) over their tables. The surroundings (RPC provider, price
  feed, decimals, clock) are a record that may differ at every pass and may fail at every call, so
  a crash in the middle of a pass is a pass whose next call fails. Lemmas: every table is keyed by
  transaction and log index, the cursor only moves forward, behind it every run of a known vault is
  stored exactly once, and a failure is open at most once per automation.
\<close>

section \<open>Tables\<close>

record saved_execution =
  se_vaultId :: string
  se_row :: execution_row
  se_gasCompUsd :: "string option"

record saved_event =
  sv_vaultId :: string
  sv_row :: vault_event_row
  sv_amountUsd :: "string option"

record saved_flow =
  sf_vaultId :: string
  sf_row :: flow_row
  sf_amountUsd :: "string option"

record failure_row =
  fl_id :: nat
  fl_vaultId :: string
  fl_automationId :: nat
  fl_executor :: string
  fl_lastTxHash :: "string option"
  fl_errorMessage :: string
  fl_failurePath :: string
  fl_attemptCount :: nat
  fl_firstFailedAt :: int
  fl_lastFailedAt :: int
  fl_resolvedAt :: "int option"

text \<open>
  The database and the memory of the service: the vaults (id and address), the four tables, the
  cursor with the time of its block, the cached decimals and subscriptions, and what was emitted.
\<close>

record index_world =
  iw_vaults :: "(string \<times> string \<times> int option) list"
  iw_executions :: "saved_execution list"
  iw_events :: "saved_event list"
  iw_flows :: "saved_flow list"
  iw_failures :: "failure_row list"
  iw_cursor :: "(int \<times> int option) option"
  iw_decimals :: "string \<rightharpoonup> nat"
  iw_flowSubs :: "log_subscription list option"
  iw_emitted :: "(string \<times> saved_execution list) list"

text \<open>\<open>createMany\<close> with \<open>skipDuplicates\<close>: a row whose key is already there is left out.\<close>

fun skip_insert :: "('r \<Rightarrow> 'k) \<Rightarrow> 'r list \<Rightarrow> 'r list \<Rightarrow> 'r list" where
  "skip_insert key [] t = t"
| "skip_insert key (r # rs) t = skip_insert key rs (if key r \<in> key ` set t then t else t @ [r])"

definition execution_key :: "execution_row \<Rightarrow> string \<times> nat" where
  "execution_key r = (ex_txHash r, ex_logIndex r)"

definition event_key :: "vault_event_row \<Rightarrow> string \<times> nat" where
  "event_key r = (ve_txHash r, ve_logIndex r)"

definition flow_key :: "flow_row \<Rightarrow> string \<times> nat" where
  "flow_key r = (fr_txHash r, fr_logIndex r)"

section \<open>An idempotent keyed store\<close>

text \<open>
  What the indexer needs of a table: saving keeps every row, adds only rows of the batch, holds
  every key of the batch afterwards and never a key twice.
\<close>

locale keyed_store =
  fixes key :: "'r \<Rightarrow> 'k" and contents :: "'w \<Rightarrow> 'r list" and save :: "'r list \<Rightarrow> 'w \<Rightarrow> 'w"
  assumes save_grows: "\<exists>new. contents (save rs w) = contents w @ new \<and> set new \<subseteq> set rs"
    and save_keys: "key ` set (contents (save rs w)) = key ` set (contents w) \<union> key ` set rs"
    and save_distinct: "distinct (map key (contents w)) \<Longrightarrow> distinct (map key (contents (save rs w)))"
begin

lemma save_appends: "\<exists>new. contents (save rs w) = contents w @ new"
  using save_grows by blast

lemma save_known:
  assumes "distinct (map key (contents w))" "key ` set rs \<subseteq> key ` set (contents w)"
  shows "contents (save rs w) = contents w"
proof -
  obtain new where new: "contents (save rs w) = contents w @ new" "set new \<subseteq> set rs" using save_grows by blast
  with save_distinct [OF assms(1), of rs] have "key ` set (contents w) \<inter> key ` set new = {}" by auto
  with new(2) assms(2) have "new = []" by (cases new) auto
  with new(1) show ?thesis by simp
qed

lemma save_twice: "distinct (map key (contents w)) \<Longrightarrow> contents (save rs (save rs w)) = contents (save rs w)"
  by (rule save_known) (auto simp: save_distinct save_keys)

end

lemma skip_insert_keys: "key ` set (skip_insert key rs t) = key ` set t \<union> key ` set rs"
  by (induction key rs t rule: skip_insert.induct) auto

lemma skip_insert_distinct: "distinct (map key t) \<Longrightarrow> distinct (map key (skip_insert key rs t))"
  by (induction key rs t rule: skip_insert.induct) auto

lemma skip_insert_grows: "\<exists>new. skip_insert key rs t = t @ new \<and> set new \<subseteq> set rs"
  by (induction key rs t rule: skip_insert.induct) fastforce+

definition save_executions :: "saved_execution list \<Rightarrow> index_world \<Rightarrow> index_world" where
  "save_executions rs w = w\<lparr>iw_executions := skip_insert (execution_key \<circ> se_row) rs (iw_executions w)\<rparr>"

definition save_events :: "saved_event list \<Rightarrow> index_world \<Rightarrow> index_world" where
  "save_events rs w = w\<lparr>iw_events := skip_insert (event_key \<circ> sv_row) rs (iw_events w)\<rparr>"

definition save_flows :: "saved_flow list \<Rightarrow> index_world \<Rightarrow> index_world" where
  "save_flows rs w = w\<lparr>iw_flows := skip_insert (flow_key \<circ> sf_row) rs (iw_flows w)\<rparr>"

lemma save_contents:
  "iw_executions (save_executions rs1 w) = skip_insert (execution_key \<circ> se_row) rs1 (iw_executions w)"
  "iw_events (save_events rs2 w) = skip_insert (event_key \<circ> sv_row) rs2 (iw_events w)"
  "iw_flows (save_flows rs3 w) = skip_insert (flow_key \<circ> sf_row) rs3 (iw_flows w)"
  by (simp_all add: save_executions_def save_events_def save_flows_def)

interpretation executions: keyed_store "execution_key \<circ> se_row" iw_executions save_executions
  by unfold_locales (simp_all only: save_contents skip_insert_grows skip_insert_keys skip_insert_distinct)

interpretation events: keyed_store "event_key \<circ> sv_row" iw_events save_events
  by unfold_locales (simp_all only: save_contents skip_insert_grows skip_insert_keys skip_insert_distinct)

interpretation flows: keyed_store "flow_key \<circ> sf_row" iw_flows save_flows
  by unfold_locales (simp_all only: save_contents skip_insert_grows skip_insert_keys skip_insert_distinct)

section \<open>The surroundings of a pass\<close>

datatype tick_error =
    RpcFailed string
  | RowFailed row_error
  | PlanFailed plan_error
  | BadVaultAddress string

record index_env =
  ix_confirmations :: int
  ix_maxRange :: int
  ix_startBlock :: "int option"
  ix_head :: "string + int"
  ix_getLogs :: "int \<Rightarrow> int \<Rightarrow> string + raw_log list"
  ix_blockTime :: "int \<Rightarrow> string + int"
  ix_decode :: "string list \<Rightarrow> string \<Rightarrow> vault_event option"
  ix_checksum :: "string \<Rightarrow> string option"
  ix_prices :: "string list \<Rightarrow> (string \<rightharpoonup> jsnum)"
  ix_decimals :: "string \<Rightarrow> nat option"
  ix_usd :: "string \<Rightarrow> nat \<Rightarrow> jsnum \<Rightarrow> string"
  ix_depositFeeBps :: "nat option"
  ix_sources :: "(string + log_subscription list) list"
  ix_flowLogs :: "string \<Rightarrow> int \<Rightarrow> int \<Rightarrow> string list option list \<Rightarrow> string + raw_log list"
  ix_now :: int

definition lift_rpc :: "string + 'a \<Rightarrow> tick_error + 'a" where
  "lift_rpc r = map_sum RpcFailed id r"

section \<open>Frozen USD values\<close>

definition decimalsOf :: "index_env \<Rightarrow> string \<Rightarrow> (string \<rightharpoonup> nat) \<Rightarrow> (string \<rightharpoonup> nat) \<times> nat" where
  "decimalsOf env token cache =
     (case cache token of
        Some d \<Rightarrow> (cache, d)
      | None \<Rightarrow> (case ix_decimals env token of Some d \<Rightarrow> (cache(token \<mapsto> d), d) | None \<Rightarrow> (cache(token \<mapsto> 18), 18)))"

definition uniq :: "'a list \<Rightarrow> 'a list" where
  "uniq xs = rev (remdups (rev xs))"

type_synonym usd_item = "string option \<times> string option"

definition priced :: "usd_item \<Rightarrow> (string \<times> string) option" where
  "priced i = (case i of (Some t, Some a) \<Rightarrow> if a = [] \<or> t = [] then None else Some (t, a) | _ \<Rightarrow> None)"

definition computeUsd :: "index_env \<Rightarrow> usd_item list \<Rightarrow> (string \<rightharpoonup> nat) \<Rightarrow> (string \<rightharpoonup> nat) \<times> string option list" where
  "computeUsd env items cache =
     (let tokens = uniq (map fst (List.map_filter priced items)) in
      if tokens = [] then (cache, map (\<lambda>_. None) items)
      else
        (let prices = ix_prices env tokens;
             cache' = fold (\<lambda>t c. fst (decimalsOf env t c)) tokens cache in
         (cache', map (\<lambda>i. case priced i of
              None \<Rightarrow> None
            | Some (t, a) \<Rightarrow> map_option (ix_usd env a (snd (decimalsOf env t cache'))) (prices t)) items)))"

section \<open>Persisting\<close>

text \<open>\<open>vaultByAddress\<close>, in insertion order.\<close>

type_synonym vault_map = "(string \<times> string) list"

definition vault_id :: "vault_map \<Rightarrow> string \<Rightarrow> string" where
  "vault_id vm a = or_else (map_of vm a) ''undefined''"

definition resolve_failure :: "(string \<times> nat) list \<Rightarrow> int \<Rightarrow> failure_row \<Rightarrow> failure_row" where
  "resolve_failure pairs now f =
     (if fl_resolvedAt f = None \<and> (fl_vaultId f, fl_automationId f) \<in> set pairs
      then f\<lparr>fl_resolvedAt := Some now\<rparr> else f)"

definition emissions :: "vault_map \<Rightarrow> saved_execution list \<Rightarrow> (string \<times> saved_execution list) list" where
  "emissions vm created =
     List.map_filter (\<lambda>vid. case List.find (\<lambda>(a, v). v = vid) vm of
         None \<Rightarrow> None
       | Some (a, _) \<Rightarrow> Some (a, filter (\<lambda>s. se_vaultId s = vid) created)) (uniq (map se_vaultId created))"

definition execution_items :: "execution_row list \<Rightarrow> usd_item list" where
  "execution_items rows = map (\<lambda>r. (ex_gasCompToken r, ex_gasCompAmount r)) rows"

definition saved_executions :: "vault_map \<Rightarrow> execution_row list \<Rightarrow> string option list \<Rightarrow> saved_execution list" where
  "saved_executions vm rows usd = map (\<lambda>(r, u).
     \<lparr>se_vaultId = vault_id vm (ex_vaultAddress r), se_row = r, se_gasCompUsd = u\<rparr>) (zip rows usd)"

definition new_executions :: "execution_row list \<Rightarrow> index_world \<Rightarrow> execution_row list" where
  "new_executions rows w = filter (\<lambda>r. execution_key r \<notin> (execution_key \<circ> se_row) ` set (iw_executions w)) rows"

definition resolve_pairs :: "vault_map \<Rightarrow> execution_row list \<Rightarrow> (string \<times> nat) list" where
  "resolve_pairs vm rows = map (\<lambda>r. (vault_id vm (ex_vaultAddress r), ex_automationId r)) rows"

definition persist :: "index_env \<Rightarrow> vault_map \<Rightarrow> execution_row list \<Rightarrow> index_world \<Rightarrow> index_world" where
  "persist env vm rows w =
     (let newRows = new_executions rows w in
      if newRows = [] then w
      else
        (let (cache, usd) = computeUsd env (execution_items newRows) (iw_decimals w);
             w1 = (save_executions (saved_executions vm newRows usd) w)\<lparr>iw_decimals := cache,
               iw_failures := map (resolve_failure (resolve_pairs vm newRows) (ix_now env)) (iw_failures w)\<rparr>;
             created = filter (\<lambda>s. execution_key (se_row s) \<in> execution_key ` set newRows) (iw_executions w1) in
         w1\<lparr>iw_emitted := iw_emitted w1 @ emissions vm created\<rparr>))"

definition saved_events :: "vault_map \<Rightarrow> vault_event_row list \<Rightarrow> string option list \<Rightarrow> saved_event list" where
  "saved_events vm rows usd = map (\<lambda>(r, u).
     \<lparr>sv_vaultId = vault_id vm (ve_vaultAddress r), sv_row = r, sv_amountUsd = u\<rparr>) (zip rows usd)"

definition new_events :: "vault_event_row list \<Rightarrow> index_world \<Rightarrow> vault_event_row list" where
  "new_events rows w = filter (\<lambda>r. event_key r \<notin> (event_key \<circ> sv_row) ` set (iw_events w)) rows"

definition persistVaultEvents :: "index_env \<Rightarrow> vault_map \<Rightarrow> vault_event_row list \<Rightarrow> index_world \<Rightarrow> index_world" where
  "persistVaultEvents env vm rows w =
     (let newRows = new_events rows w in
      if newRows = [] then w
      else
        (let (cache, usd) = computeUsd env (map (\<lambda>r. (Some (ve_token r), Some (show_nat (ve_amount r)))) newRows) (iw_decimals w) in
         (save_events (saved_events vm newRows usd) w)\<lparr>iw_decimals := cache\<rparr>))"

definition saved_flows :: "vault_map \<Rightarrow> flow_row list \<Rightarrow> string option list \<Rightarrow> saved_flow list" where
  "saved_flows vm rows usd = map (\<lambda>(r, u).
     \<lparr>sf_vaultId = vault_id vm (fr_vaultAddress r), sf_row = r, sf_amountUsd = u\<rparr>) (zip rows usd)"

definition new_flows :: "flow_row list \<Rightarrow> index_world \<Rightarrow> flow_row list" where
  "new_flows rows w = filter (\<lambda>r. flow_key r \<notin> (flow_key \<circ> sf_row) ` set (iw_flows w)) rows"

definition persistProtocolFlows :: "index_env \<Rightarrow> vault_map \<Rightarrow> flow_row list \<Rightarrow> index_world \<Rightarrow> index_world" where
  "persistProtocolFlows env vm rows w =
     (let newRows = new_flows rows w in
      if newRows = [] then w
      else
        (let (cache, usd) = computeUsd env (map (\<lambda>r. (Some (fd_token (fr_draft r)), Some (fd_amount (fr_draft r)))) newRows) (iw_decimals w) in
         (save_flows (saved_flows vm newRows usd) w)\<lparr>iw_decimals := cache\<rparr>))"

section \<open>One window\<close>

fun timestamps :: "index_env \<Rightarrow> int list \<Rightarrow> tick_error + (int \<rightharpoonup> int)" where
  "timestamps env [] = Inr Map.empty"
| "timestamps env (b # bs) =
     rbind (lift_rpc (ix_blockTime env b)) (\<lambda>t. rbind (timestamps env bs) (\<lambda>m. Inr (m(b \<mapsto> t))))"

definition lift_rows :: "row_error + 'a \<Rightarrow> tick_error + 'a" where
  "lift_rows r = map_sum RowFailed id r"

lemma lifts_Inr [result_simps]: "lift_rows r = Inr x \<longleftrightarrow> r = Inr x" "lift_rpc q = Inr y \<longleftrightarrow> q = Inr y"
  by (cases r; cases q; simp add: lift_rows_def lift_rpc_def)+

definition is_deposit :: "parsed_log \<Rightarrow> bool" where
  "is_deposit p = (case pl_event p of Deposited t n \<Rightarrow> True | _ \<Rightarrow> False)"

text \<open>The address gate comes before the decoding.\<close>

definition knownLogs :: "(string \<Rightarrow> string option) \<Rightarrow> (string \<Rightarrow> bool) \<Rightarrow> raw_log list \<Rightarrow> raw_log list" where
  "knownLogs checksum known logs = filter (\<lambda>l. case checksum (rl_address l) of Some a \<Rightarrow> known a | None \<Rightarrow> False) logs"

definition parsedLogs ::
  "(string list \<Rightarrow> string \<Rightarrow> vault_event option) \<Rightarrow> (string \<Rightarrow> string option) \<Rightarrow> (string \<Rightarrow> bool) \<Rightarrow> raw_log list
     \<Rightarrow> parsed_log list" where
  "parsedLogs decode checksum known logs = List.map_filter (parseVaultLog decode checksum) (knownLogs checksum known logs)"

definition store_logs :: "index_env \<Rightarrow> vault_map \<Rightarrow> parsed_log list \<Rightarrow> (index_world, tick_error, unit) io" where
  "store_logs env vm parsed =
     (if parsed = [] then iret ()
      else ibind (ilift (timestamps env (uniq (map pl_blockNumber parsed)))) (\<lambda>ts.
        ibind (ilift (lift_rows (buildExecutionRows parsed ts))) (\<lambda>rows.
        ibind (\<lambda>w. (persist env vm rows w, Inr ())) (\<lambda>_.
        ibind (ilift (lift_rows (buildVaultEventRows parsed ts
            (if list_ex is_deposit parsed then or_else (ix_depositFeeBps env) 0 else 0)))) (\<lambda>rows.
        (\<lambda>w. (persistVaultEvents env vm rows w, Inr ())))))))"

text \<open>The subscriptions of all sources, resolved once; a source that fails contributes none.\<close>

definition resolveFlowSubscriptions :: "index_env \<Rightarrow> (index_world, tick_error, log_subscription list) io" where
  "resolveFlowSubscriptions env w =
     (case iw_flowSubs w of
        Some subs \<Rightarrow> (w, Inr subs)
      | None \<Rightarrow>
          (let subs = concat (map (\<lambda>s. case s of Inl e \<Rightarrow> [] | Inr xs \<Rightarrow> xs) (ix_sources env)) in
           (w\<lparr>iw_flowSubs := Some subs\<rparr>, Inr subs)))"

definition pad32 :: "string \<Rightarrow> string" where
  "pad32 a = ''0x'' @ pad_start 64 (CHR ''0'') (lower (drop 2 a))"

definition index_subscription ::
  "index_env \<Rightarrow> vault_map \<Rightarrow> block_range \<Rightarrow> log_subscription \<Rightarrow> (index_world, tick_error, unit) io" where
  "index_subscription env vm r sub =
     ibind (ilift (lift_rpc (ix_flowLogs env (sub_address sub) (br_from r) (br_to r)
         (vaultTopicFilter sub (map (pad32 \<circ> fst) vm))))) (\<lambda>logs.
       if logs = [] then iret ()
       else ibind (ilift (timestamps env (uniq (map rl_blockNumber logs)))) (\<lambda>ts.
         ibind (ilift (lift_rpc (buildProtocolFlowRows (ix_checksum env) sub logs (map_of vm) ts))) (\<lambda>rows.
         (\<lambda>w. (persistProtocolFlows env vm rows w, Inr ())))))"

text \<open>A failure while indexing flows is logged and swallowed.\<close>

definition indexProtocolFlows :: "index_env \<Rightarrow> vault_map \<Rightarrow> block_range \<Rightarrow> (index_world, tick_error, unit) io" where
  "indexProtocolFlows env vm r =
     itry (ibind (resolveFlowSubscriptions env) (\<lambda>subs.
         if subs = [] \<or> vm = [] then iret ()
         else ibind (iforM (index_subscription env vm r) subs) (\<lambda>_. iret ())))
       (\<lambda>err. iret ())"

definition advance :: "int \<Rightarrow> int option \<Rightarrow> index_world \<Rightarrow> index_world" where
  "advance block ts w =
     w\<lparr>iw_cursor := (case iw_cursor w of None \<Rightarrow> None | Some _ \<Rightarrow> Some (block, ts))\<rparr>"

text \<open>A window up to the time of its last block, and the whole of it.\<close>

definition window_body :: "index_env \<Rightarrow> vault_map \<Rightarrow> block_range \<Rightarrow> (index_world, tick_error, int) io" where
  "window_body env vm r =
     ibind (ilift (lift_rpc (fetchLogs (ix_getLogs env) r))) (\<lambda>logs.
     ibind (store_logs env vm (parsedLogs (ix_decode env) (ix_checksum env) (\<lambda>a. map_of vm a \<noteq> None) logs)) (\<lambda>_.
     ibind (indexProtocolFlows env vm r) (\<lambda>_.
     ilift (lift_rpc (ix_blockTime env (br_to r))))))"

definition index_window :: "index_env \<Rightarrow> vault_map \<Rightarrow> block_range \<Rightarrow> (index_world, tick_error, unit) io" where
  "index_window env vm r =
     ibind (window_body env vm r) (\<lambda>t w. (advance (br_to r) (Some (t * 1000)) w, Inr ()))"

section \<open>A pass\<close>

definition initIfMissing :: "int \<Rightarrow> index_world \<Rightarrow> index_world" where
  "initIfMissing block w = (case iw_cursor w of None \<Rightarrow> w\<lparr>iw_cursor := Some (block, None)\<rparr> | Some _ \<Rightarrow> w)"

definition seed_block :: "index_env \<Rightarrow> index_world \<Rightarrow> tick_error + int" where
  "seed_block env w =
     (case ix_startBlock env of
        Some b \<Rightarrow> Inr (max 0 (b - 1))
      | None \<Rightarrow>
          (let created = List.map_filter (\<lambda>(vid, a, b). b) (iw_vaults w) in
           if created \<noteq> [] then Inr (max 0 (Min (set created) - 1))
           else lift_rpc (ix_head env)))"

definition ensureCursorSeeded :: "index_env \<Rightarrow> (index_world, tick_error, unit) io" where
  "ensureCursorSeeded env w =
     (if iw_cursor w \<noteq> None then (w, Inr ())
      else case seed_block env w of Inl e \<Rightarrow> (w, Inl e) | Inr b \<Rightarrow> (initIfMissing b w, Inr ()))"

fun vaultByAddress :: "index_env \<Rightarrow> (string \<times> string \<times> int option) list \<Rightarrow> vault_map \<Rightarrow> tick_error + vault_map" where
  "vaultByAddress env [] vm = Inr vm"
| "vaultByAddress env ((vid, a, _) # vs) vm =
     (case ix_checksum env a of None \<Rightarrow> Inl (BadVaultAddress a) | Some c \<Rightarrow> vaultByAddress env vs (alist_set c vid vm))"

definition tick :: "index_env \<Rightarrow> (index_world, tick_error, unit) io" where
  "tick env =
     ibind (ilift (lift_rpc (ix_head env))) (\<lambda>head w.
       case iw_cursor w of
         None \<Rightarrow> ensureCursorSeeded env w
       | Some (cursor, _) \<Rightarrow>
           ibind (ilift (map_sum PlanFailed id (plan head cursor (ix_maxRange env) (ix_confirmations env)))) (\<lambda>ranges.
             if ranges = [] then iret ()
             else (\<lambda>w. ibind (ilift (vaultByAddress env (iw_vaults w) [])) (\<lambda>vm.
               ibind (iforM (index_window env vm) ranges) (\<lambda>_. iret ())) w)) w)"

text \<open>The poll loop catches what a pass throws.\<close>

definition runOnce :: "index_env \<Rightarrow> index_world \<Rightarrow> index_world" where
  "runOnce env w = fst (tick env w)"

definition poll :: "index_env list \<Rightarrow> index_world \<Rightarrow> index_world" where
  "poll envs w = fold runOnce envs w"

section \<open>What a pass does to the tables\<close>

lemma computeUsd_length: "length (snd (computeUsd env items cache)) = length items"
  by (simp add: computeUsd_def Let_def)

definition keys_ok :: "index_world \<Rightarrow> bool" where
  "keys_ok w \<longleftrightarrow> distinct (map (execution_key \<circ> se_row) (iw_executions w)) \<and>
     distinct (map (event_key \<circ> sv_row) (iw_events w)) \<and> distinct (map (flow_key \<circ> sf_row) (iw_flows w))"

definition extends :: "index_world \<Rightarrow> index_world \<Rightarrow> bool" where
  "extends w w' \<longleftrightarrow> (\<exists>new. iw_executions w' = iw_executions w @ new) \<and> (\<exists>new. iw_events w' = iw_events w @ new) \<and>
     (\<exists>new. iw_flows w' = iw_flows w @ new) \<and> iw_vaults w' = iw_vaults w \<and> (keys_ok w \<longrightarrow> keys_ok w')"

lemma extends_refl: "reflp extends"
  by (simp add: reflp_def extends_def)

lemma extends_trans: "transp extends"
  unfolding transp_def extends_def by (metis append_assoc)

lemmas extends_rules = always_ibind [OF extends_trans] always_itry [OF extends_trans] always_pure [OF extends_refl]
  always_iforM [OF extends_refl extends_trans]

lemma saved_keys:
  assumes "length us = length rs" "\<And>r u. key' (mk r u) = key r"
  shows "key' ` set (map (\<lambda>(r, u). mk r u) (zip rs us)) = key ` set rs"
proof -
  have "key' ` set (map (\<lambda>(r, u). mk r u) (zip rs us)) = key ` fst ` set (zip rs us)"
    by (force simp: assms(2))
  also have "fst ` set (zip rs us) = set rs" using assms(1) by (metis list.set_map map_fst_zip)
  finally show ?thesis .
qed

text \<open>Each save, seen from its own table and from the rest.\<close>

lemma save_frames [simp]:
  "iw_events (save_executions r1 w) = iw_events w" "iw_flows (save_executions r1 w) = iw_flows w"
  "iw_vaults (save_executions r1 w) = iw_vaults w" "iw_cursor (save_executions r1 w) = iw_cursor w"
  "iw_failures (save_executions r1 w) = iw_failures w"
  "iw_executions (save_events r2 w) = iw_executions w" "iw_flows (save_events r2 w) = iw_flows w"
  "iw_vaults (save_events r2 w) = iw_vaults w" "iw_cursor (save_events r2 w) = iw_cursor w"
  "iw_failures (save_events r2 w) = iw_failures w"
  "iw_executions (save_flows r3 w) = iw_executions w" "iw_events (save_flows r3 w) = iw_events w"
  "iw_vaults (save_flows r3 w) = iw_vaults w" "iw_cursor (save_flows r3 w) = iw_cursor w"
  "iw_failures (save_flows r3 w) = iw_failures w"
  by (simp_all add: save_executions_def save_events_def save_flows_def)

lemma persist_executions:
  "iw_executions (persist env vm rows w) = (if new_executions rows w = [] then iw_executions w
     else iw_executions (save_executions (saved_executions vm (new_executions rows w)
       (snd (computeUsd env (execution_items (new_executions rows w)) (iw_decimals w)))) w))"
  "iw_events (persist env vm rows w) = iw_events w" "iw_flows (persist env vm rows w) = iw_flows w"
  "iw_vaults (persist env vm rows w) = iw_vaults w" "iw_cursor (persist env vm rows w) = iw_cursor w"
  by (simp_all add: persist_def Let_def split: prod.split)

lemma persist_extends: "extends w (persist env vm rows w)"
proof (cases "new_executions rows w = []")
  case True
  then show ?thesis using extends_refl by (simp add: persist_def reflpD)
next
  case False
  then show ?thesis
    unfolding extends_def keys_ok_def persist_executions
    using executions.save_appends [of _ w] executions.save_distinct [of w] by simp
qed

lemma persist_keys: "execution_key ` set rows \<subseteq> (execution_key \<circ> se_row) ` set (iw_executions (persist env vm rows w))"
proof -
  let ?new = "new_executions rows w"
  let ?usd = "snd (computeUsd env (execution_items ?new) (iw_decimals w))"
  have "(execution_key \<circ> se_row) ` set (saved_executions vm ?new ?usd) = execution_key ` set ?new"
    unfolding saved_executions_def by (rule saved_keys) (simp_all add: computeUsd_length execution_items_def)
  then have "(execution_key \<circ> se_row) ` set (iw_executions (persist env vm rows w)) =
      (execution_key \<circ> se_row) ` set (iw_executions w) \<union> execution_key ` set ?new"
    unfolding persist_executions using executions.save_keys by (cases "?new = []") (auto simp del: o_apply)
  then show ?thesis by (auto simp: new_executions_def)
qed

lemma persist_events:
  "iw_events (persistVaultEvents env vm rows w) = (if new_events rows w = [] then iw_events w
     else iw_events (save_events (saved_events vm (new_events rows w)
       (snd (computeUsd env (map (\<lambda>r. (Some (ve_token r), Some (show_nat (ve_amount r)))) (new_events rows w)) (iw_decimals w)))) w))"
  "iw_executions (persistVaultEvents env vm rows w) = iw_executions w"
  "iw_flows (persistVaultEvents env vm rows w) = iw_flows w" "iw_failures (persistVaultEvents env vm rows w) = iw_failures w"
  "iw_vaults (persistVaultEvents env vm rows w) = iw_vaults w" "iw_cursor (persistVaultEvents env vm rows w) = iw_cursor w"
  by (simp_all add: persistVaultEvents_def Let_def split: prod.split)

lemma persistVaultEvents_extends: "extends w (persistVaultEvents env vm rows w)"
proof (cases "new_events rows w = []")
  case True
  then show ?thesis using extends_refl by (simp add: persistVaultEvents_def reflpD)
next
  case False
  then show ?thesis
    unfolding extends_def keys_ok_def persist_events
    using events.save_appends [of _ w] events.save_distinct [of w] by simp
qed

lemma persistVaultEvents_keys:
  "event_key ` set rows \<subseteq> (event_key \<circ> sv_row) ` set (iw_events (persistVaultEvents env vm rows w))"
proof -
  let ?new = "new_events rows w"
  let ?usd = "snd (computeUsd env (map (\<lambda>r. (Some (ve_token r), Some (show_nat (ve_amount r)))) ?new) (iw_decimals w))"
  have "(event_key \<circ> sv_row) ` set (saved_events vm ?new ?usd) = event_key ` set ?new"
    unfolding saved_events_def by (rule saved_keys) (simp_all add: computeUsd_length)
  then have "(event_key \<circ> sv_row) ` set (iw_events (persistVaultEvents env vm rows w)) =
      (event_key \<circ> sv_row) ` set (iw_events w) \<union> event_key ` set ?new"
    unfolding persist_events using events.save_keys by (cases "?new = []") (auto simp del: o_apply)
  then show ?thesis by (auto simp: new_events_def)
qed

lemma persist_flows:
  "iw_flows (persistProtocolFlows env vm rows w) = (if new_flows rows w = [] then iw_flows w
     else iw_flows (save_flows (saved_flows vm (new_flows rows w)
       (snd (computeUsd env (map (\<lambda>r. (Some (fd_token (fr_draft r)), Some (fd_amount (fr_draft r)))) (new_flows rows w)) (iw_decimals w)))) w))"
  "iw_executions (persistProtocolFlows env vm rows w) = iw_executions w"
  "iw_events (persistProtocolFlows env vm rows w) = iw_events w" "iw_failures (persistProtocolFlows env vm rows w) = iw_failures w"
  "iw_vaults (persistProtocolFlows env vm rows w) = iw_vaults w" "iw_cursor (persistProtocolFlows env vm rows w) = iw_cursor w"
  by (simp_all add: persistProtocolFlows_def Let_def split: prod.split)

lemma persistProtocolFlows_extends: "extends w (persistProtocolFlows env vm rows w)"
proof (cases "new_flows rows w = []")
  case True
  then show ?thesis using extends_refl by (simp add: persistProtocolFlows_def reflpD)
next
  case False
  then show ?thesis
    unfolding extends_def keys_ok_def persist_flows
    using flows.save_appends [of _ w] flows.save_distinct [of w] by simp
qed

text \<open>The steps of a window extend the tables; only the last one moves the cursor.\<close>

definition same_cursor :: "index_world \<Rightarrow> index_world \<Rightarrow> bool" where
  "same_cursor w w' \<longleftrightarrow> extends w w' \<and> iw_cursor w' = iw_cursor w"

lemma same_cursor_refl: "reflp same_cursor"
  using extends_refl by (simp add: same_cursor_def reflp_def)

lemma same_cursor_trans: "transp same_cursor"
  using extends_trans unfolding same_cursor_def transp_def by metis

lemmas same_cursor_rules = always_ibind [OF same_cursor_trans] always_itry [OF same_cursor_trans]
  always_pure [OF same_cursor_refl] always_iforM [OF same_cursor_refl same_cursor_trans]

lemma store_logs_same: "always same_cursor (store_logs env vm parsed)"
proof -
  have "always same_cursor (\<lambda>w. (persist env vm rows w, Inr ()))"
    "always same_cursor (\<lambda>w. (persistVaultEvents env vm evs w, Inr ()))" for rows evs
    using persist_extends persistVaultEvents_extends
    by (simp_all add: always_def same_cursor_def persist_executions persist_events)
  then show ?thesis unfolding store_logs_def by (auto intro!: same_cursor_rules)
qed

lemma index_subscription_same: "always same_cursor (index_subscription env vm r sub)"
proof -
  have "always same_cursor (\<lambda>w. (persistProtocolFlows env vm rows w, Inr ()))" for rows
    using persistProtocolFlows_extends by (simp add: always_def same_cursor_def persist_flows)
  then show ?thesis unfolding index_subscription_def by (auto intro!: same_cursor_rules)
qed

lemma indexProtocolFlows_same: "always same_cursor (indexProtocolFlows env vm r)"
proof -
  have "always same_cursor (resolveFlowSubscriptions env)"
    by (simp add: always_def resolveFlowSubscriptions_def same_cursor_def extends_def keys_ok_def Let_def split: option.split)
  then show ?thesis unfolding indexProtocolFlows_def
    by (auto intro!: same_cursor_rules index_subscription_same)
qed

lemma indexProtocolFlows_returns: "\<exists>w'. indexProtocolFlows env vm r w = (w', Inr ())"
  unfolding indexProtocolFlows_def itry_def by (simp split: prod.split sum.split)

section \<open>What a window stores\<close>

definition log_key :: "parsed_log \<Rightarrow> string \<times> nat" where
  "log_key p = (pl_txHash p, pl_logIndex p)"

definition is_run :: "parsed_log \<Rightarrow> bool" where
  "is_run p = (case pl_event p of AutomationExecuted a e \<Rightarrow> True | _ \<Rightarrow> False)"

definition is_transfer :: "parsed_log \<Rightarrow> bool" where
  "is_transfer p = (case pl_event p of Deposited t n \<Rightarrow> True | Withdrawn t n f r \<Rightarrow> True | _ \<Rightarrow> False)"

definition run_keys :: "parsed_log list \<Rightarrow> (string \<times> nat) set" where
  "run_keys ps = log_key ` set (filter is_run ps)"

definition transfer_keys :: "parsed_log list \<Rightarrow> (string \<times> nat) set" where
  "transfer_keys ps = log_key ` set (filter is_transfer ps)"

definition execution_keys :: "index_world \<Rightarrow> (string \<times> nat) set" where
  "execution_keys w = (execution_key \<circ> se_row) ` set (iw_executions w)"

definition event_keys :: "index_world \<Rightarrow> (string \<times> nat) set" where
  "event_keys w = (event_key \<circ> sv_row) ` set (iw_events w)"

lemma concat_rows_keys:
  assumes "rmapM f ps = Inr rss" "\<And>p rs. f p = Inr rs \<Longrightarrow> key ` set rs = (if P p then {k p} else {})"
  shows "key ` set (concat rss) = k ` set (filter P ps)"
  using assms(1)
proof (induction ps arbitrary: rss)
  case (Cons p ps)
  then obtain rs rss' where "f p = Inr rs" "rmapM f ps = Inr rss'" "rss = rs # rss'"
    by (auto simp: result_simps)
  with Cons.IH assms(2) [of p rs] show ?case by (auto simp: image_Un)
qed simp

lemma executionRow_keys: "executionRow ps ts p = Inr rs \<Longrightarrow> execution_key ` set rs = (if is_run p then {log_key p} else {})"
  by (auto simp: executionRow_def is_run_def execution_key_def log_key_def Let_def split: vault_event.splits option.splits)

lemma vaultEventRow_keys: "vaultEventRow ts bps p = Inr rs \<Longrightarrow> event_key ` set rs = (if is_transfer p then {log_key p} else {})"
  by (auto simp: vaultEventRow_def is_transfer_def event_key_def log_key_def Let_def split: vault_event.splits option.splits)

lemma buildExecutionRows_keys: "buildExecutionRows ps ts = Inr rows \<Longrightarrow> execution_key ` set rows = run_keys ps"
  unfolding run_keys_def buildExecutionRows_def
  by (auto simp only: result_simps sum.inject intro!: concat_rows_keys executionRow_keys)

lemma buildVaultEventRows_keys: "buildVaultEventRows ps ts bps = Inr rows \<Longrightarrow> event_key ` set rows = transfer_keys ps"
  unfolding transfer_keys_def buildVaultEventRows_def
  by (auto simp only: result_simps sum.inject intro!: concat_rows_keys vaultEventRow_keys)

lemma store_logs_keys:
  assumes "store_logs env vm ps w = (w', Inr ())"
  shows "run_keys ps \<subseteq> execution_keys w'" "transfer_keys ps \<subseteq> event_keys w'"
proof -
  have "run_keys ps \<subseteq> execution_keys w' \<and> transfer_keys ps \<subseteq> event_keys w'"
  proof (cases "ps = []")
    case False
    with assms obtain ts rows evs where rows: "buildExecutionRows ps ts = Inr rows"
      and evs: "buildVaultEventRows ps ts (if list_ex is_deposit ps then or_else (ix_depositFeeBps env) 0 else 0) = Inr evs"
      and w': "w' = persistVaultEvents env vm evs (persist env vm rows w)"
      by (auto simp: store_logs_def result_simps)
    have "run_keys ps \<subseteq> execution_keys w'"
      unfolding execution_keys_def w' persist_events buildExecutionRows_keys [OF rows, symmetric] by (rule persist_keys)
    moreover have "transfer_keys ps \<subseteq> event_keys w'"
      unfolding event_keys_def w' buildVaultEventRows_keys [OF evs, symmetric] by (rule persistVaultEvents_keys)
    ultimately show ?thesis by blast
  qed (simp add: run_keys_def transfer_keys_def)
  then show "run_keys ps \<subseteq> execution_keys w'" "transfer_keys ps \<subseteq> event_keys w'" by blast+
qed

lemma extends_keys: "extends w w' \<Longrightarrow> execution_keys w \<subseteq> execution_keys w' \<and> event_keys w \<subseteq> event_keys w'"
  unfolding extends_def execution_keys_def event_keys_def by auto

text \<open>New execution rows come from the logs of the window.\<close>

definition adds :: "(string \<times> nat) set \<Rightarrow> index_world \<Rightarrow> index_world \<Rightarrow> bool" where
  "adds K w w' \<longleftrightarrow> execution_keys w' \<subseteq> execution_keys w \<union> K"

lemma adds_refl: "reflp (adds K)"
  by (auto simp: reflp_def adds_def)

lemma adds_trans: "transp (adds K)"
  by (auto simp: transp_def adds_def)

lemma persist_adds: "execution_key ` set rows \<subseteq> K \<Longrightarrow> adds K w (persist env vm rows w)"
proof -
  assume K: "execution_key ` set rows \<subseteq> K"
  let ?new = "new_executions rows w"
  let ?usd = "snd (computeUsd env (execution_items ?new) (iw_decimals w))"
  have "(execution_key \<circ> se_row) ` set (saved_executions vm ?new ?usd) = execution_key ` set ?new"
    unfolding saved_executions_def by (rule saved_keys) (simp_all add: computeUsd_length execution_items_def)
  then show ?thesis
    unfolding adds_def execution_keys_def persist_executions using executions.save_keys K
    by (cases "?new = []") (auto simp: new_executions_def)
qed

lemma store_logs_adds: "always (adds (run_keys ps)) (store_logs env vm ps)"
  unfolding always_def
proof
  fix w
  have ev: "adds K v (persistVaultEvents env vm evs v)" for K v evs
    by (simp add: adds_def execution_keys_def persist_events)
  show "adds (run_keys ps) w (fst (store_logs env vm ps w))"
  proof (cases "ps = [] \<or> (\<exists>e. timestamps env (uniq (map pl_blockNumber ps)) = Inl e)")
    case True
    then show ?thesis using adds_refl by (auto simp: store_logs_def ibind_def reflpD)
  next
    case False
    then obtain ts where ps: "ps \<noteq> []" and ts: "timestamps env (uniq (map pl_blockNumber ps)) = Inr ts"
      by (cases "timestamps env (uniq (map pl_blockNumber ps))") auto
    show ?thesis
    proof (cases "buildExecutionRows ps ts")
      case (Inl e)
      then show ?thesis using ps ts adds_refl by (simp add: store_logs_def ibind_def lift_rows_def reflpD)
    next
      case (Inr rows)
      have p: "adds (run_keys ps) w (persist env vm rows w)"
        using persist_adds buildExecutionRows_keys [OF Inr] by simp
      obtain r where r: "lift_rows (buildVaultEventRows ps ts (if list_ex is_deposit ps then or_else (ix_depositFeeBps env) 0 else 0)) = r"
        by blast
      show ?thesis
        using ps ts Inr p r transpD [OF adds_trans p ev]
        by (cases r) (simp_all add: store_logs_def ibind_def lift_rows_def)
    qed
  qed
qed

lemma indexProtocolFlows_adds: "always (adds K) (indexProtocolFlows env vm r)"
proof -
  have "always (adds K) (\<lambda>w. (persistProtocolFlows env vm rows w, Inr ()))" for rows
    by (simp add: always_def adds_def execution_keys_def persist_flows)
  then have "always (adds K) (index_subscription env vm r sub)" for sub
    unfolding index_subscription_def by (auto intro!: always_ibind [OF adds_trans] always_pure [OF adds_refl])
  moreover have "always (adds K) (resolveFlowSubscriptions env)"
    by (simp add: always_def resolveFlowSubscriptions_def adds_def execution_keys_def Let_def split: option.split)
  ultimately show ?thesis unfolding indexProtocolFlows_def
    by (auto intro!: always_ibind [OF adds_trans] always_itry [OF adds_trans] always_pure [OF adds_refl]
        always_iforM [OF adds_refl adds_trans])
qed

section \<open>Passes over one chain\<close>

text \<open>The chain, the decoder and the checksum are the same for all passes; rejections are not.\<close>

definition honest ::
  "(int \<Rightarrow> raw_log list) \<Rightarrow> (string list \<Rightarrow> string \<Rightarrow> vault_event option) \<Rightarrow> (string \<Rightarrow> string option) \<Rightarrow> index_env \<Rightarrow> bool" where
  "honest chain dec ck env \<longleftrightarrow> truthful chain (ix_getLogs env) \<and> ix_decode env = dec \<and> ix_checksum env = ck"

definition known_vault :: "(string \<Rightarrow> string option) \<Rightarrow> index_world \<Rightarrow> string \<Rightarrow> bool" where
  "known_vault ck w a \<longleftrightarrow> (\<exists>(vid, addr, b) \<in> set (iw_vaults w). ck addr = Some a)"

lemma vaultByAddress_known:
  "vaultByAddress env vs vm = Inr vm' \<Longrightarrow>
   map_of vm' a \<noteq> None \<longleftrightarrow> map_of vm a \<noteq> None \<or> (\<exists>(vid, addr, b) \<in> set vs. ix_checksum env addr = Some a)"
proof (induction env vs vm rule: vaultByAddress.induct)
  case (2 env vid addr b vs vm)
  then show ?case by (auto simp: map_of_alist_set split: option.splits if_splits)
qed simp

text \<open>The vault logs of a block, and that they are stored.\<close>

definition vault_logs ::
  "(int \<Rightarrow> raw_log list) \<Rightarrow> (string list \<Rightarrow> string \<Rightarrow> vault_event option) \<Rightarrow> (string \<Rightarrow> string option) \<Rightarrow> index_world \<Rightarrow> int \<Rightarrow> parsed_log list" where
  "vault_logs chain dec ck w b = parsedLogs dec ck (known_vault ck w) (chain b)"

definition block_stored ::
  "(int \<Rightarrow> raw_log list) \<Rightarrow> (string list \<Rightarrow> string \<Rightarrow> vault_event option) \<Rightarrow> (string \<Rightarrow> string option) \<Rightarrow> int \<Rightarrow> index_world \<Rightarrow> bool" where
  "block_stored chain dec ck b w \<longleftrightarrow>
     run_keys (vault_logs chain dec ck w b) \<subseteq> execution_keys w \<and> transfer_keys (vault_logs chain dec ck w b) \<subseteq> event_keys w"

lemma parsedLogs_concat:
  "parsedLogs dec ck known (concat (map chain bs)) = concat (map (\<lambda>b. parsedLogs dec ck known (chain b)) bs)"
  by (induction bs) (simp_all add: parsedLogs_def knownLogs_def map_filter_def)

lemma keys_concat:
  "run_keys (concat pss) = (\<Union>ps \<in> set pss. run_keys ps)" "transfer_keys (concat pss) = (\<Union>ps \<in> set pss. transfer_keys ps)"
  by (auto simp: run_keys_def transfer_keys_def)

lemma extends_vaults: "extends w w' \<Longrightarrow> known_vault ck w' = known_vault ck w"
  by (auto simp: extends_def known_vault_def fun_eq_iff)

lemma block_stored_mono: "extends w w' \<Longrightarrow> block_stored chain dec ck b w \<Longrightarrow> block_stored chain dec ck b w'"
  using extends_keys [of w w'] extends_vaults [of w w' ck] unfolding block_stored_def vault_logs_def by auto

definition window_keys ::
  "(int \<Rightarrow> raw_log list) \<Rightarrow> (string list \<Rightarrow> string \<Rightarrow> vault_event option) \<Rightarrow> (string \<Rightarrow> string option) \<Rightarrow> index_world \<Rightarrow> int set \<Rightarrow> (string \<times> nat) set" where
  "window_keys chain dec ck w bs = (\<Union>b \<in> bs. run_keys (vault_logs chain dec ck w b))"

text \<open>One window: what it adds, and what it has stored when it succeeds.\<close>

lemma window_body_same: "always same_cursor (window_body env vm r)"
  unfolding window_body_def by (auto intro!: same_cursor_rules store_logs_same indexProtocolFlows_same)

lemma window_extends: "always extends (index_window env vm r)"
proof -
  have "always extends (window_body env vm r)"
    using window_body_same by (simp add: always_def same_cursor_def)
  moreover have "always extends (\<lambda>w. (advance b t w, Inr ()))" for b t
    by (simp add: always_def advance_def extends_def keys_ok_def)
  ultimately show ?thesis unfolding index_window_def by (intro extends_rules)
qed

lemma window_failed:
  assumes "index_window env vm r w = (w', Inl e)"
  shows "iw_cursor w' = iw_cursor w"
proof -
  obtain v r0 where v: "window_body env vm r w = (v, r0)" by fastforce
  with assms have "window_body env vm r w = (w', Inl e)" by (cases r0) (auto simp: index_window_def)
  from alwaysD [OF window_body_same this] show ?thesis by (simp add: same_cursor_def)
qed

text \<open>The logs of a window are the vault logs of its blocks.\<close>

definition sees_vaults :: "(string \<Rightarrow> string option) \<Rightarrow> vault_map \<Rightarrow> index_world \<Rightarrow> bool" where
  "sees_vaults ck vm w \<longleftrightarrow> (\<forall>a. (map_of vm a \<noteq> None) = known_vault ck w a)"

lemma window_logs:
  assumes "honest chain dec ck env" "sees_vaults ck vm w" "fetchLogs (ix_getLogs env) r = Inr logs"
  shows "parsedLogs (ix_decode env) (ix_checksum env) (\<lambda>a. map_of vm a \<noteq> None) logs =
    concat (map (vault_logs chain dec ck w) (blocks r))"
proof -
  have "(\<lambda>a. map_of vm a \<noteq> None) = known_vault ck w" using assms(2) by (simp add: sees_vaults_def)
  moreover have "logs = concat (map chain (blocks r))" using fetch_complete assms(1,3) by (auto simp: honest_def)
  moreover have "vault_logs chain dec ck w = (\<lambda>b. parsedLogs dec ck (known_vault ck w) (chain b))"
    by (rule ext) (simp add: vault_logs_def)
  ultimately show ?thesis using assms(1) by (simp add: honest_def parsedLogs_concat)
qed

lemma window_adds:
  assumes h: "honest chain dec ck env" and vm: "sees_vaults ck vm w"
  shows "adds (window_keys chain dec ck w (set (blocks r))) w (fst (index_window env vm r w))"
proof (cases "fetchLogs (ix_getLogs env) r")
  case (Inl e)
  then show ?thesis using adds_refl by (simp add: index_window_def window_body_def ibind_def lift_rpc_def reflpD)
next
  case (Inr logs)
  let ?ps = "parsedLogs (ix_decode env) (ix_checksum env) (\<lambda>a. map_of vm a \<noteq> None) logs"
  let ?K = "run_keys ?ps"
  let ?m = "ibind (store_logs env vm ?ps) (\<lambda>_. ibind (indexProtocolFlows env vm r)
      (\<lambda>_. ilift (lift_rpc (ix_blockTime env (br_to r)))))"
  have K: "?K = window_keys chain dec ck w (set (blocks r))"
    unfolding window_logs [OF h vm Inr] by (simp add: keys_concat window_keys_def)
  have m: "always (adds ?K) ?m"
    by (intro always_ibind [OF adds_trans] store_logs_adds indexProtocolFlows_adds always_pure [OF adds_refl])
  have adv: "always (adds ?K) (\<lambda>w. (advance b t w, Inr ()))" for b t
    by (simp add: always_def advance_def adds_def execution_keys_def)
  have "window_body env vm r = ?m" using Inr by (simp add: window_body_def lift_rpc_def)
  then have "index_window env vm r = ibind ?m (\<lambda>t w. (advance (br_to r) (Some (t * 1000)) w, Inr ()))"
    by (simp only: index_window_def)
  then show ?thesis using always_ibind [OF adds_trans m adv] unfolding K by (simp only: always_def)
qed

lemma window_stored:
  assumes run: "index_window env vm r w = (w', Inr u)" and h: "honest chain dec ck env"
    and vm: "sees_vaults ck vm w" and cur: "iw_cursor w \<noteq> None"
  shows "(\<exists>t. iw_cursor w' = Some (br_to r, t)) \<and> (\<forall>b \<in> set (blocks r). block_stored chain dec ck b w')"
proof -
  obtain logs where logs: "fetchLogs (ix_getLogs env) r = Inr logs"
    using run by (auto simp: index_window_def window_body_def result_simps)
  let ?ps = "parsedLogs (ix_decode env) (ix_checksum env) (\<lambda>a. map_of vm a \<noteq> None) logs"
  obtain w1 w2 t where s: "store_logs env vm ?ps w = (w1, Inr ())" and f: "indexProtocolFlows env vm r w1 = (w2, Inr ())"
    and w': "w' = advance (br_to r) (Some (t * 1000)) w2"
    using run logs by (auto simp: index_window_def window_body_def result_simps)
  have same: "same_cursor w w1" "same_cursor w1 w2"
    using alwaysD [OF store_logs_same s] alwaysD [OF indexProtocolFlows_same f] by auto
  then have "\<exists>t. iw_cursor w' = Some (br_to r, t)" using cur by (auto simp: w' advance_def same_cursor_def)
  moreover have "block_stored chain dec ck b w'" if b: "b \<in> set (blocks r)" for b
  proof -
    have e: "extends w w'" "extends w1 w'"
      using alwaysD [OF window_extends run] same by (auto simp: w' advance_def same_cursor_def extends_def keys_ok_def)
    have "run_keys ?ps \<subseteq> execution_keys w'" "transfer_keys ?ps \<subseteq> event_keys w'"
      using store_logs_keys [OF s] extends_keys [OF e(2)] by auto
    moreover have "vault_logs chain dec ck w' b = vault_logs chain dec ck w b"
      using extends_vaults [OF e(1)] by (simp add: vault_logs_def)
    ultimately show ?thesis
      using b unfolding block_stored_def window_logs [OF h vm logs] keys_concat by auto
  qed
  ultimately show ?thesis by blast
qed

text \<open>What a run of windows, a pass and a sequence of passes preserve.\<close>

definition caught_up ::
  "(int \<Rightarrow> raw_log list) \<Rightarrow> (string list \<Rightarrow> string \<Rightarrow> vault_event option) \<Rightarrow> (string \<Rightarrow> string option) \<Rightarrow> int \<Rightarrow> index_world \<Rightarrow> bool" where
  "caught_up chain dec ck c0 w \<longleftrightarrow> (\<exists>c t. iw_cursor w = Some (c, t) \<and> c0 \<le> c \<and>
     (\<forall>b. c0 < b \<and> b \<le> c \<longrightarrow> block_stored chain dec ck b w))"

definition cursor_le :: "index_world \<Rightarrow> index_world \<Rightarrow> bool" where
  "cursor_le w w' \<longleftrightarrow> (\<forall>c t. iw_cursor w = Some (c, t) \<longrightarrow> (\<exists>c' t'. iw_cursor w' = Some (c', t') \<and> c \<le> c'))"

definition pass_ok ::
  "(int \<Rightarrow> raw_log list) \<Rightarrow> (string list \<Rightarrow> string \<Rightarrow> vault_event option) \<Rightarrow> (string \<Rightarrow> string option) \<Rightarrow> int \<Rightarrow> index_world \<Rightarrow> index_world \<Rightarrow> bool" where
  "pass_ok chain dec ck c0 w w' \<longleftrightarrow> extends w w' \<and> cursor_le w w' \<and> caught_up chain dec ck c0 w' \<and>
     adds (window_keys chain dec ck w {c0<..}) w w'"

lemma window_keys_cong: "extends w w' \<Longrightarrow> window_keys chain dec ck w' bs = window_keys chain dec ck w bs"
  by (simp add: window_keys_def vault_logs_def extends_vaults)

lemma pass_ok_refl: "caught_up chain dec ck c0 w \<Longrightarrow> pass_ok chain dec ck c0 w w"
  using reflpD [OF extends_refl] reflpD [OF adds_refl] by (simp add: pass_ok_def cursor_le_def)

lemma pass_ok_trans:
  assumes "pass_ok chain dec ck c0 w w1" "pass_ok chain dec ck c0 w1 w2"
  shows "pass_ok chain dec ck c0 w w2"
proof -
  have "extends w w2" using assms transpD [OF extends_trans] by (auto simp: pass_ok_def)
  moreover have "cursor_le w w2" using assms by (fastforce simp: pass_ok_def cursor_le_def)
  moreover have "adds (window_keys chain dec ck w {c0<..}) w w2"
    using assms window_keys_cong [of w w1] transpD [OF adds_trans, of _ w w1 w2] by (auto simp: pass_ok_def)
  ultimately show ?thesis using assms by (simp add: pass_ok_def)
qed

lemma window_pass:
  assumes run: "index_window env vm r w = (w', res)" and h: "honest chain dec ck env" and vm: "sees_vaults ck vm w"
    and cur: "iw_cursor w = Some (c, t)" "br_from r = c + 1" "br_from r \<le> br_to r" and cu: "caught_up chain dec ck c0 w"
  shows "pass_ok chain dec ck c0 w w' \<and> (res = Inr () \<longrightarrow> (\<exists>t. iw_cursor w' = Some (br_to r, t)))"
proof -
  have ext: "extends w w'" using alwaysD [OF window_extends run] .
  have c0: "c0 \<le> c" "\<And>b. c0 < b \<Longrightarrow> b \<le> c \<Longrightarrow> block_stored chain dec ck b w'"
    using cu cur(1) block_stored_mono [OF ext] by (auto simp: caught_up_def)
  have "window_keys chain dec ck w (set (blocks r)) \<subseteq> window_keys chain dec ck w {c0<..}"
    using c0(1) cur(2) by (force simp: window_keys_def blocks_def)
  then have ad: "adds (window_keys chain dec ck w {c0<..}) w w'"
    using window_adds [OF h vm, of r] run by (auto simp: adds_def)
  show ?thesis
  proof (cases res)
    case (Inl e)
    with run have "iw_cursor w' = iw_cursor w" using window_failed by blast
    with ext ad cur(1) c0 Inl show ?thesis by (auto simp: pass_ok_def cursor_le_def caught_up_def)
  next
    case (Inr u)
    have "iw_cursor w \<noteq> None" using cur(1) by simp
    from window_stored [OF run [unfolded Inr] h vm this] obtain t' where
      new: "iw_cursor w' = Some (br_to r, t')" "\<And>b. c < b \<Longrightarrow> b \<le> br_to r \<Longrightarrow> block_stored chain dec ck b w'"
      using cur(2) by (auto simp: blocks_def)
    have "caught_up chain dec ck c0 w'"
      unfolding caught_up_def using new c0 cur(2,3) by (intro exI [of _ "br_to r"] exI [of _ t']) (auto simp: not_le [symmetric])
    with ext ad cur new(1) Inr show ?thesis by (auto simp: pass_ok_def cursor_le_def)
  qed
qed

lemma windows_pass:
  "chained c rs \<Longrightarrow> iw_cursor w = Some (c, t) \<Longrightarrow> sees_vaults ck vm w \<Longrightarrow> honest chain dec ck env \<Longrightarrow>
   caught_up chain dec ck c0 w \<Longrightarrow> iforM (index_window env vm) rs w = (w', res) \<Longrightarrow> pass_ok chain dec ck c0 w w'"
proof (induction rs arbitrary: c t w w' res)
  case Nil
  then show ?case using pass_ok_refl by auto
next
  case (Cons r rs)
  obtain w1 r1 where step: "index_window env vm r w = (w1, r1)" by fastforce
  have one: "pass_ok chain dec ck c0 w w1" "r1 = Inr () \<Longrightarrow> \<exists>t. iw_cursor w1 = Some (br_to r, t)"
    using window_pass [OF step Cons.prems(4,3,2) _ _ Cons.prems(5)] Cons.prems(1) by auto
  show ?case
  proof (cases r1)
    case (Inl e)
    with step Cons.prems(6) one(1) show ?thesis by simp
  next
    case (Inr u)
    then obtain t1 where c1: "iw_cursor w1 = Some (br_to r, t1)" using one(2) by auto
    obtain w2 r2 where rest: "iforM (index_window env vm) rs w1 = (w2, r2)" by fastforce
    with step Inr Cons.prems(6) have "w' = w2" by (cases r2) auto
    have "sees_vaults ck vm w1"
      using Cons.prems(3) one(1) extends_vaults [of w w1] by (simp add: sees_vaults_def pass_ok_def)
    then have "pass_ok chain dec ck c0 w1 w2"
      using Cons.IH [OF _ c1 _ Cons.prems(4) _ rest] Cons.prems(1) one(1) by (simp add: pass_ok_def)
    with one(1) \<open>w' = w2\<close> pass_ok_trans show ?thesis by blast
  qed
qed

text \<open>The ways a pass can go.\<close>

lemma runOnce_cases:
  obtains (same) "runOnce env w = w"
  | (seeded) b where "iw_cursor w = None" "runOnce env w = initIfMissing b w"
  | (windows) head c t rs vm where "iw_cursor w = Some (c, t)"
      "plan head c (ix_maxRange env) (ix_confirmations env) = Inr rs"
      "vaultByAddress env (iw_vaults w) [] = Inr vm" "runOnce env w = fst (iforM (index_window env vm) rs w)"
proof (cases "ix_head env")
  case (Inl e)
  then show ?thesis using same by (simp add: runOnce_def tick_def lift_rpc_def ibind_def)
next
  case head: (Inr head)
  show ?thesis
  proof (cases "iw_cursor w")
    case None
    then show ?thesis using same seeded head
      by (cases "seed_block env w") (simp_all add: runOnce_def tick_def lift_rpc_def ibind_def ensureCursorSeeded_def)
  next
    case (Some ct)
    obtain c t where cur: "iw_cursor w = Some (c, t)" using Some by (cases ct) simp
    show ?thesis
    proof (cases "\<exists>rs vm. plan head c (ix_maxRange env) (ix_confirmations env) = Inr rs \<and> rs \<noteq> [] \<and>
        vaultByAddress env (iw_vaults w) [] = Inr vm")
      case True
      then obtain rs vm where r: "plan head c (ix_maxRange env) (ix_confirmations env) = Inr rs" "rs \<noteq> []"
        "vaultByAddress env (iw_vaults w) [] = Inr vm" by blast
      obtain w' res where "iforM (index_window env vm) rs w = (w', res)" by fastforce
      then have "runOnce env w = fst (iforM (index_window env vm) rs w)"
        using head cur r by (cases res) (simp_all add: runOnce_def tick_def lift_rpc_def ibind_def)
      then show ?thesis using windows cur r by blast
    next
      case False
      then have "runOnce env w = w" using head cur
        by (cases "plan head c (ix_maxRange env) (ix_confirmations env)"; cases "vaultByAddress env (iw_vaults w) []")
          (auto simp: runOnce_def tick_def lift_rpc_def ibind_def)
      then show ?thesis by (rule same)
    qed
  qed
qed

lemma tick_pass:
  assumes h: "honest chain dec ck env" and cu: "caught_up chain dec ck c0 w"
  shows "pass_ok chain dec ck c0 w (runOnce env w)"
proof (rule runOnce_cases [of env w])
  assume "runOnce env w = w"
  then show ?thesis using pass_ok_refl [OF cu] by simp
next
  fix b
  assume "iw_cursor w = None"
  then show ?thesis using cu by (simp add: caught_up_def)
next
  fix head c t rs vm
  assume cur: "iw_cursor w = Some (c, t)" and plan: "plan head c (ix_maxRange env) (ix_confirmations env) = Inr rs"
    and vm: "vaultByAddress env (iw_vaults w) [] = Inr vm" and run: "runOnce env w = fst (iforM (index_window env vm) rs w)"
  have "sees_vaults ck vm w"
    using vaultByAddress_known [OF vm] h by (auto simp: sees_vaults_def known_vault_def honest_def)
  moreover obtain w' res where "iforM (index_window env vm) rs w = (w', res)" by fastforce
  ultimately show ?thesis using windows_pass [OF plan_chained [OF plan] cur _ h cu] run by simp
qed

lemma poll_pass:
  "\<forall>env \<in> set envs. honest chain dec ck env \<Longrightarrow> caught_up chain dec ck c0 w \<Longrightarrow> pass_ok chain dec ck c0 w (poll envs w)"
proof (induction envs arbitrary: w)
  case Nil
  then show ?case using pass_ok_refl by (simp add: poll_def)
next
  case (Cons env envs)
  have one: "pass_ok chain dec ck c0 w (runOnce env w)" using tick_pass Cons.prems by simp
  then have "pass_ok chain dec ck c0 (runOnce env w) (poll envs (runOnce env w))"
    using Cons by (simp add: pass_ok_def)
  with one show ?case using pass_ok_trans by (fastforce simp: poll_def)
qed

section \<open>Properties of the indexer\<close>

definition demo_log :: raw_log where
  "demo_log = \<lparr>rl_address = ''0xA'', rl_txHash = ''0x1'', rl_blockNumber = 11, rl_index = 0, rl_topics = [], rl_data = ''run''\<rparr>"

definition demo_chain :: "int \<Rightarrow> raw_log list" where
  "demo_chain b = (if b = 11 then [demo_log] else [])"

definition demo_decode :: "string list \<Rightarrow> string \<Rightarrow> vault_event option" where
  "demo_decode ts d = (if d = ''run'' then Some (AutomationExecuted 3 ''0xE'') else None)"

definition demo_env :: index_env where
  "demo_env = \<lparr>ix_confirmations = 1, ix_maxRange = 5, ix_startBlock = None, ix_head = Inr 12,
     ix_getLogs = (\<lambda>a b. Inr (concat (map demo_chain [a .. b]))), ix_blockTime = (\<lambda>b. Inr b), ix_decode = demo_decode,
     ix_checksum = Some, ix_prices = (\<lambda>_. Map.empty), ix_decimals = (\<lambda>_. None), ix_usd = (\<lambda>a d p. a), ix_depositFeeBps = None,
     ix_sources = [], ix_flowLogs = (\<lambda>_ _ _ _. Inl ''no flows''), ix_now = 0\<rparr>"

definition demo_index :: index_world where
  "demo_index = \<lparr>iw_vaults = [(''v1'', ''0xA'', None)], iw_executions = [], iw_events = [], iw_flows = [], iw_failures = [],
     iw_cursor = Some (10, None), iw_decimals = Map.empty, iw_flowSubs = None, iw_emitted = []\<rparr>"

lemma demo_honest: "honest demo_chain demo_decode Some demo_env"
  by (simp add: honest_def truthful_def demo_env_def)

text \<open>C4. However the passes fail in between, the cursor never moves back, and behind it every run and
  every transfer of a known vault since the start is stored; nothing else is stored as a run, no key
  is stored twice, and stored rows are never lost.\<close>

theorem indexer_exact:
  assumes "\<forall>env \<in> set envs. honest chain dec ck env" "iw_cursor w = Some (c0, t0)" "keys_ok w"
  shows "\<exists>c t. iw_cursor (poll envs w) = Some (c, t) \<and> c0 \<le> c \<and>
    (\<forall>b. c0 < b \<and> b \<le> c \<longrightarrow> run_keys (vault_logs chain dec ck w b) \<subseteq> execution_keys (poll envs w) \<and>
       transfer_keys (vault_logs chain dec ck w b) \<subseteq> event_keys (poll envs w)) \<and>
    execution_keys (poll envs w) \<subseteq> execution_keys w \<union> (\<Union>b \<in> {c0<..}. run_keys (vault_logs chain dec ck w b)) \<and>
    keys_ok (poll envs w) \<and> (\<exists>new. iw_executions (poll envs w) = iw_executions w @ new)"
proof -
  have "caught_up chain dec ck c0 w" using assms(2) by (auto simp: caught_up_def)
  from poll_pass [OF assms(1) this] have p: "pass_ok chain dec ck c0 w (poll envs w)" .
  then have ext: "extends w (poll envs w)" by (simp add: pass_ok_def)
  then have "vault_logs chain dec ck (poll envs w) b = vault_logs chain dec ck w b" for b
    by (simp add: vault_logs_def extends_vaults)
  with p ext assms(3) show ?thesis
    by (auto simp: pass_ok_def caught_up_def block_stored_def adds_def window_keys_def extends_def)
qed

lemma demo_poll:
  "iw_cursor (poll [demo_env] demo_index) = Some (11, Some 11000) \<and>
   execution_keys (poll [demo_env] demo_index) = {(''0x1'', 0)}"
proof -
  have plan: "plan 12 10 5 1 = Inr [\<lparr>br_from = 11, br_to = 11\<rparr>]" by (simp add: plan_def plan_loop.simps)
  have f: "fetchLogs (ix_getLogs demo_env) \<lparr>br_from = 11, br_to = 11\<rparr> = Inr [demo_log]"
    by (simp add: fetchLogs.simps demo_env_def demo_chain_def)
  have vm: "vaultByAddress demo_env (iw_vaults demo_index) [] = Inr [(''0xA'', ''v1'')]"
    by (simp add: demo_env_def demo_index_def)
  have ps: "parsedLogs (ix_decode demo_env) (ix_checksum demo_env) (\<lambda>a. map_of [(''0xA'', ''v1'')] a \<noteq> None) [demo_log] =
      [\<lparr>pl_event = AutomationExecuted 3 ''0xE'', pl_address = ''0xA'', pl_txHash = ''0x1'', pl_blockNumber = 11, pl_logIndex = 0\<rparr>]"
    by (simp add: parsedLogs_def knownLogs_def map_filter_def parseVaultLog_def demo_env_def demo_decode_def demo_log_def)
  show ?thesis
    using plan f vm ps
    by (simp add: poll_def runOnce_def tick_def index_window_def window_body_def store_logs_def ibind_def lift_rpc_def
        lift_rows_def buildExecutionRows_def executionRow_def buildVaultEventRows_def vaultEventRow_def uniq_def
        persist_def new_executions_def saved_executions_def save_executions_def persistVaultEvents_def new_events_def
        computeUsd_def priced_def execution_items_def map_filter_def execution_keys_def execution_key_def advance_def
        indexProtocolFlows_def itry_def resolveFlowSubscriptions_def demo_env_def [THEN arg_cong [of _ _ ix_head]]
        demo_env_def [THEN arg_cong [of _ _ ix_maxRange]] demo_env_def [THEN arg_cong [of _ _ ix_confirmations]]
        demo_env_def [THEN arg_cong [of _ _ ix_blockTime]] demo_env_def [THEN arg_cong [of _ _ ix_sources]]
        demo_index_def)
qed

lemma indexer_exact_witness:
  "\<exists>c t. iw_cursor (poll [demo_env] demo_index) = Some (c, t) \<and> 10 \<le> c \<and> c = 11 \<and>
     execution_keys (poll [demo_env] demo_index) = {(''0x1'', 0)} \<and> keys_ok (poll [demo_env] demo_index)"
proof -
  have "\<forall>env \<in> set [demo_env]. honest demo_chain demo_decode Some env" "iw_cursor demo_index = Some (10, None)" "keys_ok demo_index"
    using demo_honest by (simp_all add: demo_index_def keys_ok_def)
  from indexer_exact [OF this] demo_poll show ?thesis by auto
qed

text \<open>A vault that is registered when the cursor has already passed its run never gets that run
  into the history, however often the indexer polls afterwards.\<close>

theorem late_vault_not_indexed:
  assumes "\<forall>env \<in> set envs. honest chain dec ck env" "iw_cursor w = Some (c0, t0)"
    and "p \<in> set (vault_logs chain dec ck w b)" "is_run p" "b \<le> c0"
    and "log_key p \<notin> execution_keys w" "\<forall>b' > c0. log_key p \<notin> run_keys (vault_logs chain dec ck w b')"
  shows "log_key p \<notin> execution_keys (poll envs w)"
proof -
  have "caught_up chain dec ck c0 w" using assms(2) by (auto simp: caught_up_def)
  from poll_pass [OF assms(1) this] assms(6,7) show ?thesis by (auto simp: pass_ok_def adds_def window_keys_def)
qed

lemma late_vault_not_indexed_witness:
  "(''0x1'', 0) \<notin> execution_keys (poll [demo_env, demo_env] (demo_index\<lparr>iw_cursor := Some (11, None)\<rparr>))"
proof -
  let ?w = "demo_index\<lparr>iw_cursor := Some (11, None)\<rparr>"
  let ?p = "\<lparr>pl_event = AutomationExecuted 3 ''0xE'', pl_address = ''0xA'', pl_txHash = ''0x1'', pl_blockNumber = 11, pl_logIndex = 0\<rparr>"
  have logs: "vault_logs demo_chain demo_decode Some ?w b = (if b = 11 then [?p] else [])" for b
    by (simp add: vault_logs_def parsedLogs_def knownLogs_def map_filter_def parseVaultLog_def demo_chain_def demo_decode_def
        demo_log_def known_vault_def demo_index_def)
  have "\<forall>env \<in> set [demo_env, demo_env]. honest demo_chain demo_decode Some env" "iw_cursor ?w = Some (11, None)"
    using demo_honest by simp_all
  moreover have "?p \<in> set (vault_logs demo_chain demo_decode Some ?w 11)" "is_run ?p" "(11::int) \<le> 11"
    "log_key ?p \<notin> execution_keys ?w" "\<forall>b' > 11. log_key ?p \<notin> run_keys (vault_logs demo_chain demo_decode Some ?w b')"
    unfolding logs by (simp_all add: is_run_def execution_keys_def demo_index_def run_keys_def)
  ultimately have "log_key ?p \<notin> execution_keys (poll [demo_env, demo_env] ?w)" by (rule late_vault_not_indexed)
  then show ?thesis by (simp add: log_key_def)
qed

text \<open>A rejected request for protocol flows is swallowed: the window counts as done, no flow of it is
  stored, and the cursor moves past its blocks.\<close>

theorem flows_of_failed_window_lost:
  assumes "iw_flowSubs w = Some (sub # subs)" "vm \<noteq> []" "iw_cursor w \<noteq> None"
    and "fetchLogs (ix_getLogs env) r = Inr []" "ix_blockTime env (br_to r) = Inr t"
    and "ix_flowLogs env (sub_address sub) (br_from r) (br_to r) (vaultTopicFilter sub (map (pad32 \<circ> fst) vm)) = Inl e"
  shows "\<exists>w'. index_window env vm r w = (w', Inr ()) \<and> iw_flows w' = iw_flows w \<and> iw_cursor w' = Some (br_to r, Some (t * 1000))"
proof -
  have "indexProtocolFlows env vm r w = (w, Inr ())"
    using assms(1,2,6) by (simp add: indexProtocolFlows_def itry_def ibind_def resolveFlowSubscriptions_def
        index_subscription_def lift_rpc_def)
  then show ?thesis
    using assms(3,4,5) by (auto simp: index_window_def window_body_def lift_rpc_def parsedLogs_def knownLogs_def
        map_filter_def store_logs_def ibind_def advance_def)
qed

definition demo_sub :: log_subscription where
  "demo_sub = \<lparr>sub_address = ''0xP'', sub_topic0 = ''0x5'', sub_vaultTopicIndex = 2, sub_draft = (\<lambda>_ _. Inr None)\<rparr>"

lemma flows_of_failed_window_lost_witness:
  "\<exists>w'. index_window demo_env [(''0xA'', ''v1'')] \<lparr>br_from = 12, br_to = 12\<rparr> (demo_index\<lparr>iw_flowSubs := Some [demo_sub]\<rparr>) = (w', Inr ()) \<and>
     iw_flows w' = iw_flows (demo_index\<lparr>iw_flowSubs := Some [demo_sub]\<rparr>) \<and>
     iw_cursor w' = Some (br_to \<lparr>br_from = 12, br_to = 12\<rparr>, Some (12 * 1000))"
  by (rule flows_of_failed_window_lost [where sub = demo_sub and subs = "[]" and e = "''no flows''"])
    (simp_all add: demo_index_def demo_env_def fetchLogs.simps demo_chain_def)

text \<open>Indexing a window a second time (after a crash before the cursor moved) leaves the runs, the
  transfers and their USD values as they are.\<close>

theorem persisting_twice:
  shows "iw_executions (persist env' vm rows (persist env vm rows w)) = iw_executions (persist env vm rows w) \<and>
    iw_failures (persist env' vm rows (persist env vm rows w)) = iw_failures (persist env vm rows w) \<and>
    iw_emitted (persist env' vm rows (persist env vm rows w)) = iw_emitted (persist env vm rows w) \<and>
    iw_events (persistVaultEvents env' vm evs (persistVaultEvents env vm evs w)) = iw_events (persistVaultEvents env vm evs w)"
proof -
  have "new_executions rows (persist env vm rows w) = []"
    using persist_keys [of rows env vm w] by (auto simp: new_executions_def filter_empty_conv)
  moreover have "new_events evs (persistVaultEvents env vm evs w) = []"
    using persistVaultEvents_keys [of evs env vm w] by (auto simp: new_events_def filter_empty_conv)
  ultimately show ?thesis by (simp add: persist_def persistVaultEvents_def)
qed

end
