(* ===== verification/Failures.thy ===== *)
theory Failures
  imports Indexer
begin

text \<open>
  Failures of automations: decoding a revert into a reason (contract-error.service.ts) and the
  keeper's ingestion (failure-ingest.service.ts), as the two database steps it makes, interleaved
  with other ingestions and with the indexer that resolves failures. ethers' \<open>parseError\<close> is a
  parameter. Lemmas: the fallback chain of the decoder; in every interleaving at most one failure of
  an automation is open; repeated failures are counted on the open row.
\<close>

section \<open>Decoding reverts\<close>

definition CONTRACT_ERRORS :: "(string \<times> string) list" where
  "CONTRACT_ERRORS =
    [(''CallerNotOwner'', ''You are not the owner of this vault.''),
     (''TriggerNotMet'', ''The automation trigger condition is not met.''),
     (''FeeTokenNotAccepted'', ''The selected token is not accepted as a fee token.''),
     (''FeeTooHigh'', ''The fee rate exceeds the maximum allowed (10%).''),
     (''TokenNotAccepted'', ''This token is not accepted by the fee registry.''),
     (''ZeroAddress'', ''A zero address was provided where a valid address is required.''),
     (''NoSteps'', ''The automation must contain at least one step.''),
     (''FirstStepMustBeCondition'', ''The first step of a public automation must be a condition.''),
     (''InvalidStepReference'', ''A step references a non-existent step index.''),
     (''ZeroTargetAddress'', ''A step has a zero target contract address.''),
     (''ZeroSelector'', ''A step has a zero function selector.''),
     (''AutomationNotActive'', ''This automation is currently paused.''),
     (''AutomationDoesNotExist'', ''The specified automation does not exist.''),
     (''ConditionCallFailed'', ''The condition check call failed unexpectedly.''),
     (''ActionExecutionFailed'', ''The action execution failed unexpectedly.''),
     (''MaxStepsExceeded'', ''The automation exceeded the maximum step limit (256).''),
     (''ContextSlotOutOfBounds'', ''A context slot index is out of bounds.''),
     (''ContextDiffLengthMismatch'', ''The context diff arrays have mismatched lengths.''),
     (''ZeroRecipient'', ''A zero recipient address was provided.''),
     (''ETHTransferFailed'', ''The ETH transfer failed.''),
     (''ImplementationNotSet'', ''The vault implementation has not been set on the factory.''),
     (''InvalidImplementation'', ''The provided implementation address is invalid.''),
     (''InsufficientFeeDeposit'', ''The vault does not have enough fee deposit to cover gas compensation.''),
     (''NothingToWithdraw'', ''There is nothing available to withdraw.''),
     (''WithdrawExceedsDeposit'', ''The withdrawal amount exceeds the available deposit.''),
     (''SlotOutOfBounds'', ''The context slot index is out of bounds.''),
     (''ZeroInterval'', ''The interval must be greater than zero.''),
     (''ZeroDelta'', ''The timer delta must be greater than zero.''),
     (''ZeroFeeRegistry'', ''The fee registry address must not be zero.''),
     (''ZeroToken'', ''The token address must not be zero.''),
     (''OracleNotExist'', ''No price oracle is configured for this token.''),
     (''NegativePriceNotAllowed'', ''The price oracle returned a negative price.'')]"

definition error_names :: "string list" where
  "error_names =
    [''ConditionCallFailed'', ''ActionExecutionFailed'', ''NoSteps'', ''FirstStepMustBeCondition'',
     ''InvalidStepReference'', ''ZeroTargetAddress'', ''ZeroSelector'', ''AutomationNotActive'',
     ''AutomationDoesNotExist'', ''CallerNotOwner'', ''TriggerNotMet'', ''MaxStepsExceeded'',
     ''ContextSlotOutOfBounds'', ''ContextDiffLengthMismatch'', ''ZeroRecipient'', ''ETHTransferFailed'',
     ''InsufficientFeeDeposit'', ''NothingToWithdraw'', ''WithdrawExceedsDeposit'', ''ZeroInterval'',
     ''ZeroDelta'', ''ZeroFeeRegistry'', ''ZeroToken'', ''OracleNotExist'', ''NegativePriceNotAllowed'']"

definition OUTER_WRAPPERS :: "string set" where
  "OUTER_WRAPPERS = {''ActionExecutionFailed'', ''ConditionCallFailed''}"

text \<open>The catalogued errors whose signature the decoder does not know: their text is never reached.\<close>

lemma unreachable_texts:
  "filter (\<lambda>n. n \<notin> set error_names) (map fst CONTRACT_ERRORS) =
   [''FeeTokenNotAccepted'', ''FeeTooHigh'', ''TokenNotAccepted'', ''ZeroAddress'', ''ImplementationNotSet'',
    ''InvalidImplementation'', ''SlotOutOfBounds'']"
  by (simp add: CONTRACT_ERRORS_def error_names_def)

text \<open>
  A parsed error: its name and arguments, or nothing when \<open>parseError\<close> fails. \<open>Error(string)\<close> and
  \<open>Panic(uint256)\<close> are known to ethers; the others are those of the signatures.
\<close>

datatype error_arg = ArgNat nat | ArgText string

type_synonym error_parser = "string \<Rightarrow> (string \<times> error_arg list) option"

fun arg_text :: "error_arg \<Rightarrow> string" where
  "arg_text (ArgNat n) = show_nat n"
| "arg_text (ArgText s) = s"

fun arg_hex :: "error_arg \<Rightarrow> string" where
  "arg_hex (ArgNat n) = show_hex n"
| "arg_hex (ArgText s) = s"

definition decodeReason :: "error_parser \<Rightarrow> string \<Rightarrow> string option" where
  "decodeReason parse reason =
     (case parse reason of
        None \<Rightarrow> None
      | Some (name, args) \<Rightarrow>
          if name = ''Error'' then Some (arg_text (hd args))
          else if name = ''Panic'' then Some (''panic 0x'' @ arg_hex (hd args))
          else Some (or_else (map_of CONTRACT_ERRORS name) name))"

definition selectorOf :: "string \<Rightarrow> string" where
  "selectorOf d = take 10 (if starts_with ''0x'' d then d else ''0x'' @ d)"

text \<open>The step prefix and the inner reason of a wrapper.\<close>

definition unwrap :: "error_parser \<Rightarrow> string \<Rightarrow> string \<times> string" where
  "unwrap parse d =
     (case parse d of
        Some (name, step # inner # _) \<Rightarrow>
          if name \<in> OUTER_WRAPPERS then (''Step '' @ arg_text step @ '': '', arg_text inner) else ([], d)
      | _ \<Rightarrow> ([], d))"

definition decodeRevert :: "error_parser \<Rightarrow> string option \<Rightarrow> string option \<Rightarrow> string" where
  "decodeRevert parse errorData fallback =
     (let trimmed = js_trim (or_else fallback []);
          fb = (if trimmed = [] then ''Execution reverted'' else trimmed) in
      case errorData of
        None \<Rightarrow> fb
      | Some d \<Rightarrow>
          if d = [] \<or> d = ''0x'' then fb
          else case unwrap parse d of (prefix, reason) \<Rightarrow>
            if reason = [] \<or> reason = ''0x'' then (if prefix \<noteq> [] then prefix @ ''reverted without reason'' else fb)
            else prefix @ (case decodeReason parse reason of Some m \<Rightarrow> m | None \<Rightarrow> selectorOf reason))"

text \<open>A failing action or condition is reported with its step: the message is the step prefix followed
  by the catalogued text of the project's error inside, or by the inner selector when it is unknown.\<close>

theorem wrapped_revert_names_step:
  assumes "parse d = Some (w, [ArgNat n, ArgText inner])" "w \<in> OUTER_WRAPPERS" "d \<noteq> []" "d \<noteq> ''0x''"
    and "inner \<noteq> []" "inner \<noteq> ''0x''"
  shows "decodeRevert parse (Some d) fallback = ''Step '' @ show_nat n @ '': '' @
    (case parse inner of
       None \<Rightarrow> selectorOf inner
     | Some (name, args) \<Rightarrow> if name = ''Error'' then arg_text (hd args)
         else if name = ''Panic'' then ''panic 0x'' @ arg_hex (hd args)
         else or_else (map_of CONTRACT_ERRORS name) name)"
  using assms by (auto simp: decodeRevert_def Let_def unwrap_def decodeReason_def split: option.split prod.split)

definition demo_parse :: error_parser where
  "demo_parse d =
     (if d = ''0xaa'' then Some (''ActionExecutionFailed'', [ArgNat 2, ArgText ''0xbb''])
      else if d = ''0xbb'' then Some (''NothingToWithdraw'', []) else None)"

lemma wrapped_revert_names_step_witness:
  "decodeRevert demo_parse (Some ''0xaa'') None = ''Step 2: There is nothing available to withdraw.''"
proof -
  have "decodeRevert demo_parse (Some ''0xaa'') None = ''Step '' @ show_nat 2 @ '': '' @
    (case demo_parse ''0xbb'' of
       None \<Rightarrow> selectorOf ''0xbb''
     | Some (name, args) \<Rightarrow> if name = ''Error'' then arg_text (hd args)
         else if name = ''Panic'' then ''panic 0x'' @ arg_hex (hd args)
         else or_else (map_of CONTRACT_ERRORS name) name)"
    by (rule wrapped_revert_names_step [where w = "''ActionExecutionFailed''"]) (simp_all add: demo_parse_def OUTER_WRAPPERS_def)
  moreover have "map_of CONTRACT_ERRORS ''NothingToWithdraw'' = Some ''There is nothing available to withdraw.''"
    by (simp add: CONTRACT_ERRORS_def)
  moreover have "show_nat 2 = ''2''" by code_simp
  ultimately show ?thesis by (simp add: demo_parse_def)
qed

section \<open>Ingestion\<close>

record failure_dto =
  dt_vaultAddress :: string
  dt_automationId :: nat
  dt_txHash :: "string option"
  dt_executorAddress :: string
  dt_errorData :: "string option"
  dt_errorMessageFallback :: "string option"
  dt_failurePath :: string
  dt_timestamp :: "int option"

record ingest_env =
  ie_checksum :: "string \<Rightarrow> string option"
  ie_parse :: error_parser
  ie_now :: int

datatype ingest_error = INVALID_VAULT_ADDRESS | VAULT_NOT_FOUND | UniqueViolation | RecordNotFound

text \<open>A request between its read of the open failure and its write.\<close>

record pending_report =
  pr_dto :: failure_dto
  pr_vaultId :: string
  pr_message :: string
  pr_at :: int
  pr_executor :: "string option"
  pr_open :: "failure_row option"

definition is_open :: "failure_row \<Rightarrow> bool" where
  "is_open f \<longleftrightarrow> fl_resolvedAt f = None"

definition failure_pair :: "failure_row \<Rightarrow> string \<times> nat" where
  "failure_pair f = (fl_vaultId f, fl_automationId f)"

definition open_failure :: "string \<times> nat \<Rightarrow> failure_row list \<Rightarrow> failure_row option" where
  "open_failure pair fs = List.find (\<lambda>f. failure_pair f = pair \<and> is_open f) fs"

definition ingest_find :: "ingest_env \<Rightarrow> failure_dto \<Rightarrow> index_world \<Rightarrow> ingest_error + pending_report" where
  "ingest_find env dto w =
     (case ie_checksum env (dt_vaultAddress dto) of
        None \<Rightarrow> Inl INVALID_VAULT_ADDRESS
      | Some address \<Rightarrow>
          (case List.find (\<lambda>(vid, a, b). a = address) (iw_vaults w) of
             None \<Rightarrow> Inl VAULT_NOT_FOUND
           | Some (vid, _) \<Rightarrow> Inr
               \<lparr>pr_dto = dto, pr_vaultId = vid,
                pr_message = decodeRevert (ie_parse env) (dt_errorData dto) (dt_errorMessageFallback dto),
                pr_at = or_else (dt_timestamp dto) (ie_now env), pr_executor = ie_checksum env (dt_executorAddress dto),
                pr_open = open_failure (vid, dt_automationId dto) (iw_failures w)\<rparr>))"

definition bump :: "pending_report \<Rightarrow> failure_row \<Rightarrow> failure_row \<Rightarrow> failure_row" where
  "bump p found f =
     f\<lparr>fl_attemptCount := fl_attemptCount f + 1, fl_lastFailedAt := pr_at p, fl_errorMessage := pr_message p,
       fl_failurePath := dt_failurePath (pr_dto p),
       fl_lastTxHash := (case dt_txHash (pr_dto p) of Some t \<Rightarrow> Some t | None \<Rightarrow> fl_lastTxHash found),
       fl_executor := or_else (pr_executor p) (fl_executor found)\<rparr>"

definition new_failure :: "pending_report \<Rightarrow> nat \<Rightarrow> failure_row" where
  "new_failure p i =
     \<lparr>fl_id = i, fl_vaultId = pr_vaultId p, fl_automationId = dt_automationId (pr_dto p),
      fl_executor = or_else (pr_executor p) (dt_executorAddress (pr_dto p)), fl_lastTxHash = dt_txHash (pr_dto p),
      fl_errorMessage = pr_message p, fl_failurePath = dt_failurePath (pr_dto p), fl_attemptCount = 1,
      fl_firstFailedAt = pr_at p, fl_lastFailedAt = pr_at p, fl_resolvedAt = None\<rparr>"

text \<open>
  The write. Rows are never deleted, so the next free id stands for the generated one; the partial
  unique index refuses a second open row.
\<close>

definition ingest_write :: "pending_report \<Rightarrow> failure_row list \<Rightarrow> failure_row list \<times> (ingest_error + nat \<times> nat)" where
  "ingest_write p fs =
     (case pr_open p of
        Some found \<Rightarrow>
          (case List.find (\<lambda>f. fl_id f = fl_id found) fs of
             None \<Rightarrow> (fs, Inl RecordNotFound)
           | Some f \<Rightarrow> (map (\<lambda>g. if fl_id g = fl_id found then bump p found g else g) fs,
               Inr (fl_id f, fl_attemptCount f + 1)))
      | None \<Rightarrow>
          (let row = new_failure p (length fs) in
           if open_failure (failure_pair row) fs \<noteq> None then (fs, Inl UniqueViolation)
           else (fs @ [row], Inr (fl_id row, 1))))"

definition ingest :: "ingest_env \<Rightarrow> failure_dto \<Rightarrow> (index_world, ingest_error, nat \<times> nat) io" where
  "ingest env dto w =
     (case ingest_find env dto w of
        Inl e \<Rightarrow> (w, Inl e)
      | Inr p \<Rightarrow> (case ingest_write p (iw_failures w) of (fs, r) \<Rightarrow> (w\<lparr>iw_failures := fs\<rparr>, r)))"

section \<open>Interleavings\<close>

text \<open>Reports begin and finish in any order, with passes of the indexer in between.\<close>

inductive report_step :: "index_world \<times> pending_report list \<Rightarrow> index_world \<times> pending_report list \<Rightarrow> bool" where
  Begin: "ingest_find env dto w = Inr p \<Longrightarrow> report_step (w, ps) (w, ps @ [p])"
| Finish: "ingest_write p (iw_failures w) = (fs, r) \<Longrightarrow> report_step (w, ps @ p # qs) (w\<lparr>iw_failures := fs\<rparr>, ps @ qs)"
| Index: "report_step (w, ps) (runOnce env w, ps)"

inductive_cases report_stepE: "report_step st st'"

text \<open>What the indexer may do to the failures: resolve open ones.\<close>

definition resolved_by :: "failure_row \<Rightarrow> failure_row \<Rightarrow> bool" where
  "resolved_by f f' \<longleftrightarrow> f' = f \<or> is_open f \<and> (\<exists>t. f' = f\<lparr>fl_resolvedAt := Some t\<rparr>)"

definition resolves :: "index_world \<Rightarrow> index_world \<Rightarrow> bool" where
  "resolves w w' \<longleftrightarrow> list_all2 resolved_by (iw_failures w) (iw_failures w')"

lemma resolves_same: "iw_failures w' = iw_failures w \<Longrightarrow> resolves w w'"
  by (simp add: resolves_def resolved_by_def list.rel_refl)

lemma resolves_refl: "reflp resolves"
  by (simp add: reflp_def resolves_same)

lemma resolves_trans: "transp resolves"
proof -
  have "resolved_by f h" if "resolved_by f g" "resolved_by g h" for f g h
    using that by (auto simp: resolved_by_def is_open_def)
  then show ?thesis unfolding transp_def resolves_def using list_all2_trans [of resolved_by resolved_by resolved_by] by blast
qed

lemmas resolves_rules = always_ibind [OF resolves_trans] always_itry [OF resolves_trans]
  always_pure [OF resolves_refl] always_iforM [OF resolves_refl resolves_trans]

lemma persist_resolves: "resolves w (persist env vm rows w)"
proof -
  have "resolved_by f (resolve_failure pairs now f)" for f pairs now
    by (auto simp: resolved_by_def resolve_failure_def is_open_def)
  then have "list_all2 resolved_by fs (map (resolve_failure pairs now) fs)" for fs pairs now
    by (simp add: list.rel_map list_all2_same)
  then show ?thesis by (auto simp: persist_def Let_def resolves_def resolved_by_def list.rel_refl split: prod.split)
qed

lemma window_resolves: "always resolves (index_window env vm r)"
proof -
  have "always resolves (\<lambda>w. (persist env vm rows w, Inr ()))" "always resolves (\<lambda>w. (persistVaultEvents env vm evs w, Inr ()))"
    "always resolves (\<lambda>w. (persistProtocolFlows env vm fls w, Inr ()))" "always resolves (\<lambda>w. (advance b t w, Inr ()))"
    "always resolves (resolveFlowSubscriptions env)" for rows evs fls b t
    using persist_resolves by (simp_all add: always_def resolves_same persist_events persist_flows advance_def
        resolveFlowSubscriptions_def Let_def split: option.split)
  note parts = this
  have "always resolves (store_logs env vm ps)" for ps
    unfolding store_logs_def by (auto intro!: resolves_rules parts)
  moreover have "always resolves (index_subscription env vm r sub)" for sub
    unfolding index_subscription_def by (auto intro!: resolves_rules parts)
  then have "always resolves (indexProtocolFlows env vm r)"
    unfolding indexProtocolFlows_def by (auto intro!: resolves_rules parts)
  ultimately show ?thesis
    unfolding index_window_def window_body_def by (auto intro!: resolves_rules parts)
qed

lemma pass_resolves: "resolves w (runOnce env w)"
proof (rule runOnce_cases [of env w])
  fix rs vm
  assume "runOnce env w = fst (iforM (index_window env vm) rs w)"
  moreover have "always resolves (iforM (index_window env vm) rs)" by (intro resolves_rules window_resolves)
  ultimately show ?thesis by (simp add: always_def)
next
  fix b
  assume "runOnce env w = initIfMissing b w"
  then show ?thesis by (simp add: initIfMissing_def resolves_same split: option.split)
qed (simp add: resolves_same)

section \<open>At most one open failure\<close>

definition failures_ok :: "failure_row list \<Rightarrow> bool" where
  "failures_ok fs \<longleftrightarrow> map fl_id fs = [0 ..< length fs] \<and> distinct (map failure_pair (filter is_open fs))"

lemma open_failure_None: "open_failure pair fs = None \<longleftrightarrow> pair \<notin> failure_pair ` set (filter is_open fs)"
  by (auto simp: open_failure_def find_None_iff)

lemma open_failure_Some: "open_failure pair fs = Some f \<Longrightarrow> f \<in> set fs \<and> failure_pair f = pair \<and> is_open f"
  unfolding open_failure_def by (auto dest: find_Some_in)

lemma resolved_open: "list_all2 resolved_by fs fs' \<Longrightarrow>
    failure_pair ` set (filter is_open fs') \<subseteq> failure_pair ` set (filter is_open fs)"
  by (induction rule: list_all2_induct) (auto simp: resolved_by_def is_open_def failure_pair_def)

lemma failures_ok_resolved: "list_all2 resolved_by fs fs' \<Longrightarrow> failures_ok fs \<Longrightarrow> failures_ok fs'"
proof -
  assume r: "list_all2 resolved_by fs fs'" and "failures_ok fs"
  from r have "map fl_id fs' = map fl_id fs" "length fs' = length fs"
    by (induction rule: list_all2_induct) (auto simp: resolved_by_def)
  moreover from r have "distinct (map failure_pair (filter is_open fs)) \<longrightarrow> distinct (map failure_pair (filter is_open fs'))"
  proof (induction rule: list_all2_induct)
    case (Cons f fs f' fs')
    have "failure_pair ` set (filter is_open fs') \<subseteq> failure_pair ` set (filter is_open fs)" by (rule resolved_open [OF Cons(2)])
    with Cons show ?case by (auto simp: resolved_by_def is_open_def)
  qed simp
  ultimately show ?thesis using \<open>failures_ok fs\<close> by (simp add: failures_ok_def)
qed

lemma bump_fields [simp]: "fl_id (bump p found f) = fl_id f" "failure_pair (bump p found f) = failure_pair f"
  "is_open (bump p found f) = is_open f" "fl_attemptCount (bump p found f) = fl_attemptCount f + 1"
  "fl_firstFailedAt (bump p found f) = fl_firstFailedAt f" "fl_lastFailedAt (bump p found f) = pr_at p"
  by (simp_all add: bump_def failure_pair_def is_open_def)

lemma failures_ok_write:
  assumes "failures_ok fs" "ingest_write p fs = (fs', r)"
  shows "failures_ok fs'"
proof (cases "pr_open p")
  case None
  show ?thesis
    using assms by (auto simp: None ingest_write_def Let_def failures_ok_def new_failure_def open_failure_None is_open_def
        split: if_splits)
next
  case (Some found)
  let ?up = "map (\<lambda>g. if fl_id g = fl_id found then bump p found g else g) fs"
  have "map fl_id ?up = map fl_id fs" by simp
  moreover have "map failure_pair (filter is_open ?up) = map failure_pair (filter is_open fs)" by (induction fs) auto
  ultimately have "failures_ok ?up" using assms(1) unfolding failures_ok_def by (simp only: length_map)
  then show ?thesis
    using assms by (auto simp: Some ingest_write_def simp del: map_map list.map_comp split: option.splits)
qed

lemma report_step_ok: "report_step st st' \<Longrightarrow> failures_ok (iw_failures (fst st)) \<Longrightarrow> failures_ok (iw_failures (fst st'))"
proof (induction rule: report_step.induct)
  case (Finish p w fs r ps qs)
  then show ?case using failures_ok_write by simp
next
  case (Index w ps env)
  then show ?case using failures_ok_resolved pass_resolves by (auto simp: resolves_def)
qed simp

lemma reports_ok: "report_step\<^sup>*\<^sup>* st st' \<Longrightarrow> failures_ok (iw_failures (fst st)) \<Longrightarrow> failures_ok (iw_failures (fst st'))"
  by (induction rule: rtranclp_induct) (auto intro: report_step_ok)


definition demo_dto :: failure_dto where
  "demo_dto = \<lparr>dt_vaultAddress = ''0xA'', dt_automationId = 3, dt_txHash = None, dt_executorAddress = ''0xE'',
     dt_errorData = None, dt_errorMessageFallback = None, dt_failurePath = ''execution'', dt_timestamp = Some 5\<rparr>"

definition demo_ingest :: ingest_env where
  "demo_ingest = \<lparr>ie_checksum = Some, ie_parse = (\<lambda>_. None), ie_now = 9\<rparr>"

lemma demo_find: "\<exists>p. ingest_find demo_ingest demo_dto demo_index = Inr p \<and> pr_open p = None"
  by (simp add: ingest_find_def demo_ingest_def demo_dto_def demo_index_def open_failure_def)


section \<open>Counting\<close>

definition ingest_all :: "ingest_env \<Rightarrow> failure_dto list \<Rightarrow> index_world \<Rightarrow> index_world" where
  "ingest_all env dtos w = fold (\<lambda>dto w. fst (ingest env dto w)) dtos w"

definition reported_at :: "ingest_env \<Rightarrow> failure_dto \<Rightarrow> int" where
  "reported_at env dto = or_else (dt_timestamp dto) (ie_now env)"

lemma ingest_vaults: "iw_vaults (fst (ingest env dto w)) = iw_vaults w"
  by (simp add: ingest_def split: sum.split prod.split)

lemma ingest_ok: "failures_ok (iw_failures w) \<Longrightarrow> failures_ok (iw_failures (fst (ingest env dto w)))"
  using failures_ok_write by (auto simp: ingest_def split: sum.split prod.split)

lemma ingest_all_snoc: "ingest_all env (dtos @ [d]) w = fst (ingest env d (ingest_all env dtos w))"
  by (simp add: ingest_all_def)

lemma ingest_all_frame: "failures_ok (iw_failures w) \<Longrightarrow>
    failures_ok (iw_failures (ingest_all env dtos w)) \<and> iw_vaults (ingest_all env dtos w) = iw_vaults w"
  by (induction dtos rule: rev_induct) (simp_all add: ingest_all_snoc ingest_ok ingest_vaults, simp add: ingest_all_def)

text \<open>One report: it opens a failure, or it is counted on the open one.\<close>

lemma find_up:
  assumes "List.find P fs = Some f" "\<And>g. P (h g) = P g"
  shows "List.find P (map h fs) = Some (h f)"
  using assms(1) by (induction fs) (auto simp: assms(2) split: if_splits)

lemma ingest_once:
  assumes dto: "ie_checksum env (dt_vaultAddress dto) = Some address"
    and vault: "List.find (\<lambda>(vid, a, b). a = address) (iw_vaults w) = Some (vid, rest)"
    and ok: "failures_ok (iw_failures w)"
  shows "\<exists>f. open_failure (vid, dt_automationId dto) (iw_failures (fst (ingest env dto w))) = Some f \<and>
    fl_lastFailedAt f = reported_at env dto \<and>
    (case open_failure (vid, dt_automationId dto) (iw_failures w) of
       None \<Rightarrow> fl_attemptCount f = 1 \<and> fl_firstFailedAt f = reported_at env dto
     | Some g \<Rightarrow> fl_attemptCount f = fl_attemptCount g + 1 \<and> fl_firstFailedAt f = fl_firstFailedAt g)"
proof -
  let ?pair = "(vid, dt_automationId dto)"
  obtain p where p: "ingest_find env dto w = Inr p" "pr_vaultId p = vid" "pr_dto p = dto" "pr_at p = reported_at env dto"
    "pr_open p = open_failure ?pair (iw_failures w)"
    using dto vault by (simp add: ingest_find_def reported_at_def)
  show ?thesis
  proof (cases "pr_open p")
    case None
    let ?row = "new_failure p (length (iw_failures w))"
    have row: "failure_pair ?row = ?pair" "is_open ?row" using p by (simp_all add: new_failure_def failure_pair_def is_open_def)
    have none: "open_failure ?pair (iw_failures w) = None" using p(5) None by simp
    then have "iw_failures (fst (ingest env dto w)) = iw_failures w @ [?row]"
      using p None row by (simp add: ingest_def ingest_write_def Let_def)
    then have "open_failure ?pair (iw_failures (fst (ingest env dto w))) = Some ?row"
      using none row by (simp add: open_failure_def find_append)
    then show ?thesis using none p(4) by (simp add: new_failure_def)
  next
    case (Some g)
    let ?up = "\<lambda>f. if fl_id f = fl_id g then bump p g f else f"
    have look: "open_failure ?pair (iw_failures w) = Some g" using p(5) Some by simp
    have "g \<in> set (iw_failures w)" using open_failure_Some [OF look] by simp
    then obtain f where "List.find (\<lambda>f. fl_id f = fl_id g) (iw_failures w) = Some f"
      by (cases "List.find (\<lambda>f. fl_id f = fl_id g) (iw_failures w)") (auto simp: find_None_iff)
    with Some have "ingest_write p (iw_failures w) = (map ?up (iw_failures w), Inr (fl_id f, fl_attemptCount f + 1))"
      by (simp add: ingest_write_def)
    with p(1) have "iw_failures (fst (ingest env dto w)) = map ?up (iw_failures w)" by (simp add: ingest_def)
    then have "open_failure ?pair (iw_failures (fst (ingest env dto w))) = Some (bump p g g)"
      using find_up [of "\<lambda>f. failure_pair f = ?pair \<and> is_open f" "iw_failures w" g ?up] look
      by (simp add: open_failure_def)
    then show ?thesis using look p(4) by simp
  qed
qed

text \<open>Repeated reports for one automation of a known vault are counted on a single open failure: it
  holds the number of reports, the time of the first and the time of the last.\<close>

theorem reports_counted:
  assumes "\<forall>dto \<in> set dtos. ie_checksum env (dt_vaultAddress dto) = Some address \<and> dt_automationId dto = autoId"
    and "List.find (\<lambda>(vid, a, b). a = address) (iw_vaults w) = Some (vid, rest)"
    and "iw_failures w = []" "dtos \<noteq> []"
  shows "\<exists>f. open_failure (vid, autoId) (iw_failures (ingest_all env dtos w)) = Some f \<and>
    fl_attemptCount f = length dtos \<and> fl_firstFailedAt f = reported_at env (hd dtos) \<and>
    fl_lastFailedAt f = reported_at env (last dtos)"
  using assms(1,4)
proof (induction dtos rule: rev_induct)
  case (snoc d ds)
  have fr: "failures_ok (iw_failures (ingest_all env ds w)) \<and> iw_vaults (ingest_all env ds w) = iw_vaults w"
    using ingest_all_frame [of w env ds] assms(3) by (simp add: failures_ok_def)
  have d: "ie_checksum env (dt_vaultAddress d) = Some address" "dt_automationId d = autoId" using snoc.prems by auto
  note once = ingest_once [OF d(1), of "ingest_all env ds w" vid rest, unfolded d(2)]
  show ?case
  proof (cases "ds = []")
    case True
    then show ?thesis using once fr assms(2,3) by (auto simp: ingest_all_def open_failure_def)
  next
    case False
    with snoc.IH snoc.prems(1) obtain f where "open_failure (vid, autoId) (iw_failures (ingest_all env ds w)) = Some f"
      "fl_attemptCount f = length ds" "fl_firstFailedAt f = reported_at env (hd ds)" by auto
    then show ?thesis using once fr assms(2) False by (auto simp: ingest_all_snoc)
  qed
qed simp

lemma reports_counted_witness:
  "\<exists>f. open_failure (''v1'', 3) (iw_failures (ingest_all demo_ingest [demo_dto, demo_dto\<lparr>dt_timestamp := None\<rparr>] demo_index)) = Some f \<and>
     fl_attemptCount f = 2 \<and> fl_firstFailedAt f = 5 \<and> fl_lastFailedAt f = 9"
proof -
  have "\<forall>dto \<in> set [demo_dto, demo_dto\<lparr>dt_timestamp := None\<rparr>].
      ie_checksum demo_ingest (dt_vaultAddress dto) = Some ''0xA'' \<and> dt_automationId dto = 3"
    "List.find (\<lambda>(vid, a, b). a = ''0xA'') (iw_vaults demo_index) = Some (''v1'', ''0xA'', None)" "iw_failures demo_index = []"
    by (simp_all add: demo_ingest_def demo_dto_def demo_index_def)
  note counted = reports_counted [OF this]
  have "reported_at demo_ingest demo_dto = 5" "reported_at demo_ingest (demo_dto\<lparr>dt_timestamp := None\<rparr>) = 9"
    by (simp_all add: reported_at_def demo_dto_def demo_ingest_def)
  then show ?thesis using counted by (simp add: numeral_2_eq_2)
qed

text \<open>When the indexer resolves a failure between the read and the write of a report, the report is
  counted on the resolved row: it succeeds, and the automation that has just failed has no open failure.\<close>

theorem report_on_resolved_row:
  assumes "pr_open p = Some found" "f \<in> set fs" "fl_id f = fl_id found" "failures_ok fs"
    and "open_failure (failure_pair found) fs = None"
  shows "\<exists>fs' n. ingest_write p fs = (fs', Inr (fl_id found, n)) \<and> open_failure (failure_pair found) fs' = None"
proof -
  obtain g where g: "List.find (\<lambda>f. fl_id f = fl_id found) fs = Some g"
    using assms(2,3) by (cases "List.find (\<lambda>f. fl_id f = fl_id found) fs") (auto simp: find_None_iff)
  let ?up = "\<lambda>f. if fl_id f = fl_id found then bump p found f else f"
  have "open_failure (failure_pair found) (map ?up fs) = None"
    using assms(5) by (auto simp: open_failure_def find_None_iff)
  then show ?thesis using g assms(1) find_Some_in [OF g] by (simp add: ingest_write_def)
qed

definition demo_failure :: failure_row where
  "demo_failure = \<lparr>fl_id = 0, fl_vaultId = ''v1'', fl_automationId = 3, fl_executor = ''0xE'', fl_lastTxHash = None,
     fl_errorMessage = [], fl_failurePath = ''execution'', fl_attemptCount = 1, fl_firstFailedAt = 5, fl_lastFailedAt = 5,
     fl_resolvedAt = None\<rparr>"

definition demo_report :: pending_report where
  "demo_report = \<lparr>pr_dto = demo_dto, pr_vaultId = ''v1'', pr_message = ''again'', pr_at = 7, pr_executor = None,
     pr_open = Some demo_failure\<rparr>"

lemma report_on_resolved_row_witness:
  "\<exists>fs' n. ingest_write demo_report [demo_failure\<lparr>fl_resolvedAt := Some 6\<rparr>] = (fs', Inr (0, n)) \<and>
     open_failure (''v1'', 3) fs' = None"
proof -
  have "\<exists>fs' n. ingest_write demo_report [demo_failure\<lparr>fl_resolvedAt := Some 6\<rparr>] = (fs', Inr (fl_id demo_failure, n)) \<and>
     open_failure (failure_pair demo_failure) fs' = None"
    by (rule report_on_resolved_row [where f = "demo_failure\<lparr>fl_resolvedAt := Some 6\<rparr>"])
      (simp_all add: demo_report_def demo_failure_def failures_ok_def is_open_def open_failure_def)
  then show ?thesis by (simp add: demo_failure_def failure_pair_def)
qed

text \<open>Storing a new run resolves the open failure of its automation, whenever that failure happened: also
  one reported after the run, while the indexer was still behind.\<close>

theorem success_resolves_failure:
  assumes "r \<in> set (new_executions rows w)"
  shows "open_failure (vault_id vm (ex_vaultAddress r), ex_automationId r) (iw_failures (persist env vm rows w)) = None"
proof -
  let ?pairs = "resolve_pairs vm (new_executions rows w)"
  have "(vault_id vm (ex_vaultAddress r), ex_automationId r) \<in> set ?pairs" using assms by (auto simp: resolve_pairs_def)
  moreover have "iw_failures (persist env vm rows w) = map (resolve_failure ?pairs (ix_now env)) (iw_failures w)"
    using assms by (auto simp: persist_def Let_def split: prod.split)
  ultimately show ?thesis
    by (auto simp: open_failure_def find_None_iff resolve_failure_def failure_pair_def is_open_def)
qed

definition demo_run_row :: execution_row where
  "demo_run_row = \<lparr>ex_vaultAddress = ''0xA'', ex_automationId = 3, ex_executor = ''0xE'', ex_txHash = ''0x1'', ex_blockNumber = 11,
     ex_logIndex = 0, ex_timestamp = 4, ex_gasCompAmount = None, ex_gasCompToken = None\<rparr>"

lemma success_resolves_failure_witness:
  "ex_timestamp demo_run_row < fl_firstFailedAt demo_failure \<and>
   open_failure (''v1'', 3) (iw_failures (persist demo_env [(''0xA'', ''v1'')] [demo_run_row]
     (demo_index\<lparr>iw_failures := [demo_failure]\<rparr>))) = None"
proof -
  have "demo_run_row \<in> set (new_executions [demo_run_row] (demo_index\<lparr>iw_failures := [demo_failure]\<rparr>))"
    by (simp add: new_executions_def demo_index_def)
  from success_resolves_failure [OF this, of "[(''0xA'', ''v1'')]" demo_env] show ?thesis
    by (simp add: vault_id_def demo_run_row_def demo_failure_def)
qed

end
