(* ===== verification/Gate.thy ===== *)
theory Gate
  imports JsValues
begin

text \<open>
  The MCP server's signing gate: the audit log (audit-log.ts), the confirmation providers
  (confirmation.ts: MCP elicitation, the localhost page with its one-time tokens, and the
  composite) and the policy gate (policy-gate.ts). The world is a record of what the process
  holds and has done; the client's answers, the browser's requests, the random tokens and the
  file system are parameters or scripts in it. Lemmas: nothing is signed without the approval the
  action needs, the audit entries of a call follow the gate's protocol, and an approval of the
  localhost page comes from one POST with the token of that request before its time-out.
\<close>

section \<open>The localhost page\<close>

datatype approval = Approved | Denied | TimedOut

text \<open>
  \<open>cs_pending\<close> are the tokens of the registry, \<open>cs_summaries\<close> the texts of the page, \<open>cs_settled\<close>
  the outcomes of the promises in the order in which they settled.
\<close>

record conf_state =
  cs_pending :: "string list"
  cs_summaries :: "(string \<times> string) list"
  cs_settled :: "(string \<times> approval) list"

definition no_requests :: conf_state where
  "no_requests = \<lparr>cs_pending = [], cs_summaries = [], cs_settled = []\<rparr>"

definition create_approval :: "string \<Rightarrow> string \<Rightarrow> conf_state \<Rightarrow> conf_state" where
  "create_approval token summary st = st\<lparr>cs_pending := cs_pending st @ [token],
     cs_summaries := alist_set token summary (cs_summaries st)\<rparr>"

text \<open>The first settlement of a promise wins; its summary is dropped with it.\<close>

definition settle :: "string \<Rightarrow> approval \<Rightarrow> conf_state \<Rightarrow> conf_state" where
  "settle token outcome st =
     (if token \<in> fst ` set (cs_settled st) then st
      else st\<lparr>cs_settled := cs_settled st @ [(token, outcome)],
        cs_summaries := filter (\<lambda>p. fst p \<noteq> token) (cs_summaries st)\<rparr>)"

definition redeem :: "string \<Rightarrow> bool \<Rightarrow> conf_state \<Rightarrow> conf_state \<times> bool" where
  "redeem token approved st =
     (if token \<notin> set (cs_pending st) then (st, False)
      else (settle token (if approved then Approved else Denied) (st\<lparr>cs_pending := removeAll token (cs_pending st)\<rparr>), True))"

definition cancel :: "string \<Rightarrow> conf_state \<Rightarrow> conf_state" where
  "cancel token st = st\<lparr>cs_pending := removeAll token (cs_pending st)\<rparr>"

definition time_out :: "string \<Rightarrow> conf_state \<Rightarrow> conf_state" where
  "time_out token st = settle token TimedOut (cancel token st)"

subsection \<open>Requests\<close>

text \<open>The host without a port at its end.\<close>

definition strip_port :: "string \<Rightarrow> string" where
  "strip_port h =
     (let ds = takeWhile is_digit (rev h); rest = dropWhile is_digit (rev h) in
      case rest of [] \<Rightarrow> h | c # r \<Rightarrow> if c = CHR '':'' \<and> ds \<noteq> [] then rev r else h)"

definition loopback :: "string option \<Rightarrow> bool" where
  "loopback host =
     (case host of None \<Rightarrow> True
      | Some h \<Rightarrow> strip_port h = ''127.0.0.1'' \<or> strip_port h = ''localhost'')"

definition lower_hex :: "char \<Rightarrow> bool" where
  "lower_hex c \<longleftrightarrow> is_hex c \<and> lower [c] = [c]"

text \<open>The path of the page: a token of 64 hex digits and possibly a decision.\<close>

definition parse_confirm :: "string \<Rightarrow> (string \<times> bool option) option" where
  "parse_confirm url =
     (let token = take 64 (drop 9 url); rest = drop 73 url in
      if take 9 url = ''/confirm/'' \<and> length token = 64 \<and> list_all lower_hex token then
        (if rest = [] then Some (token, None)
         else if rest = ''/approve'' then Some (token, Some True)
         else if rest = ''/deny'' then Some (token, Some False)
         else None)
      else None)"

datatype response = Forbidden | NotFound | MethodNotAllowed | Decided bool bool | Page string

definition handleRequest :: "string option \<Rightarrow> string \<Rightarrow> string \<Rightarrow> conf_state \<Rightarrow> conf_state \<times> response" where
  "handleRequest host url httpMethod st =
     (if \<not> loopback host then (st, Forbidden)
      else case parse_confirm url of
        None \<Rightarrow> (st, NotFound)
      | Some (token, decision) \<Rightarrow>
          (case decision of
             Some approve \<Rightarrow>
               (if httpMethod \<noteq> ''POST'' then (st, MethodNotAllowed)
                else case redeem token approve st of (st', redeemed) \<Rightarrow> (st', Decided approve redeemed))
           | None \<Rightarrow> (st, Page (or_else (map_of (cs_summaries st) token) ''(keine Zusammenfassung)''))))"

text \<open>The text of the page, escaped.\<close>

definition escape_char :: "char \<Rightarrow> string" where
  "escape_char c =
     (if c = CHR ''&'' then ''&amp;'' else if c = CHR ''<'' then ''&lt;''
      else if c = CHR ''>'' then ''&gt;'' else if c = CHR 0x22 then ''&quot;'' else [c])"

definition escapeHtml :: "string \<Rightarrow> string" where
  "escapeHtml s = concat (map escape_char s)"

subsection \<open>Events\<close>

datatype conf_event =
    Ask string string
  | Http "string option" string string
  | Timer string

fun conf_step :: "conf_event \<Rightarrow> conf_state \<Rightarrow> conf_state" where
  "conf_step (Ask token summary) st = create_approval token summary st"
| "conf_step (Http host url m) st = fst (handleRequest host url m st)"
| "conf_step (Timer token) st = time_out token st"

definition conf_run :: "conf_event list \<Rightarrow> conf_state" where
  "conf_run evs = fold conf_step evs no_requests"

definition approve_post :: "string \<Rightarrow> conf_event \<Rightarrow> bool" where
  "approve_post token ev \<longleftrightarrow>
     (\<exists>host url. ev = Http host url ''POST'' \<and> loopback host \<and> parse_confirm url = Some (token, Some True))"

fun asked :: "conf_event \<Rightarrow> string option" where
  "asked (Ask token summary) = Some token"
| "asked _ = None"

lemma conf_run_snoc: "conf_run (evs @ [ev]) = conf_step ev (conf_run evs)"
  by (simp add: conf_run_def)

lemma settle_pending [simp]: "cs_pending (settle token outcome st) = cs_pending st"
  by (simp add: settle_def)

lemma settle_settled:
  "cs_settled (settle token outcome st) =
     (if token \<in> fst ` set (cs_settled st) then cs_settled st else cs_settled st @ [(token, outcome)])"
  by (simp add: settle_def)

text \<open>What one request does to the registry.\<close>

lemma handleRequest_cases:
  obtains "fst (handleRequest host url m st) = st"
  | token approve where "m = ''POST''" "loopback host" "parse_confirm url = Some (token, Some approve)"
      "token \<in> set (cs_pending st)"
      "fst (handleRequest host url m st) = settle token (if approve then Approved else Denied)
        (st\<lparr>cs_pending := removeAll token (cs_pending st)\<rparr>)"
proof (cases "loopback host \<and> m = ''POST''")
  case False
  have "fst (handleRequest host url m st) = st"
    using False by (auto simp: handleRequest_def split: option.split)
  then show ?thesis using that(1) by blast
next
  case True
  show ?thesis
  proof (cases "parse_confirm url")
    case None
    then show ?thesis using that(1) by (simp add: handleRequest_def)
  next
    case (Some p)
    obtain token d where p: "p = (token, d)" by (cases p)
    show ?thesis
    proof (cases d)
      case None
      then show ?thesis using that(1) Some p True by (simp add: handleRequest_def)
    next
      case d: (Some approve)
      show ?thesis
        using that(1) that(2) [of token approve] Some p d True
        by (cases "token \<in> set (cs_pending st)") (simp_all add: handleRequest_def redeem_def)
    qed
  qed
qed

text \<open>
  The invariant: a pending token was asked for and has not timed out since; a settled token is
  settled once; an approval has its POST between the request and the time-out.
\<close>

definition consent :: "conf_event list \<Rightarrow> string \<Rightarrow> bool" where
  "consent evs token \<longleftrightarrow>
     (\<exists>pre mid post summary ev. evs = pre @ Ask token summary # mid @ ev # post \<and>
        approve_post token ev \<and> Timer token \<notin> set mid)"

definition waiting :: "conf_event list \<Rightarrow> string \<Rightarrow> bool" where
  "waiting evs token \<longleftrightarrow> (\<exists>pre mid summary. evs = pre @ Ask token summary # mid \<and> Timer token \<notin> set mid)"

lemma consent_mono: "consent evs token \<Longrightarrow> consent (evs @ [ev]) token"
  by (fastforce simp: consent_def)

lemma waiting_snoc: "waiting evs token \<Longrightarrow> ev \<noteq> Timer token \<Longrightarrow> waiting (evs @ [ev]) token"
  by (fastforce simp: waiting_def)

lemma waiting_consent: "waiting evs token \<Longrightarrow> approve_post token ev \<Longrightarrow> consent (evs @ [ev]) token"
  by (fastforce simp: waiting_def consent_def)

definition conf_inv :: "conf_event list \<Rightarrow> conf_state \<Rightarrow> bool" where
  "conf_inv evs st \<longleftrightarrow> (\<forall>token \<in> set (cs_pending st). waiting evs token) \<and>
     distinct (map fst (cs_settled st)) \<and>
     (\<forall>token. (token, Approved) \<in> set (cs_settled st) \<longrightarrow> consent evs token)"

lemma conf_inv_settle:
  assumes "conf_inv evs st" "outcome = Approved \<Longrightarrow> consent (evs @ [ev]) token"
    and "\<And>t. t \<in> set (cs_pending st) \<Longrightarrow> t \<noteq> token \<Longrightarrow> ev \<noteq> Timer t"
  shows "conf_inv (evs @ [ev]) (settle token outcome (st\<lparr>cs_pending := removeAll token (cs_pending st)\<rparr>))"
  using assms consent_mono waiting_snoc by (auto simp: conf_inv_def settle_settled image_iff)

lemma conf_inv_same:
  assumes "conf_inv evs st" "\<And>t. ev \<noteq> Timer t"
  shows "conf_inv (evs @ [ev]) st"
  using assms consent_mono waiting_snoc by (auto simp: conf_inv_def)

lemma conf_run_inv: "conf_inv evs (conf_run evs)"
proof (induction evs rule: rev_induct)
  case Nil
  show ?case by (simp add: conf_inv_def conf_run_def no_requests_def)
next
  case (snoc ev evs)
  let ?st = "conf_run evs"
  show ?case
  proof (cases ev)
    case (Ask token summary)
    have "waiting (evs @ [ev]) token" by (fastforce simp: Ask waiting_def)
    then show ?thesis using snoc consent_mono waiting_snoc
      by (auto simp: Ask conf_run_snoc create_approval_def conf_inv_def)
  next
    case (Http host url m)
    show ?thesis
    proof (rule handleRequest_cases [of host url m ?st])
      assume "fst (handleRequest host url m ?st) = ?st"
      then show ?thesis using conf_inv_same [OF snoc, of ev] by (simp add: Http conf_run_snoc)
    next
      fix token approve
      assume a: "m = ''POST''" "loopback host" "parse_confirm url = Some (token, Some approve)"
        "token \<in> set (cs_pending ?st)"
        "fst (handleRequest host url m ?st) = settle token (if approve then Approved else Denied)
          (?st\<lparr>cs_pending := removeAll token (cs_pending ?st)\<rparr>)"
      have "waiting evs token" using snoc a(4) by (simp add: conf_inv_def)
      then have "consent (evs @ [ev]) token" if approve
        using waiting_consent that a(1-3) by (auto simp: Http approve_post_def)
      then show ?thesis
        using conf_inv_settle [OF snoc, of "if approve then Approved else Denied" ev token] a(5)
        by (simp add: Http conf_run_snoc split: if_splits)
    qed
  next
    case (Timer token)
    show ?thesis
      using conf_inv_settle [OF snoc, of TimedOut ev token] by (simp add: Timer conf_run_snoc time_out_def cancel_def)
  qed
qed

text \<open>Whatever requests reach the localhost page, a confirmation is approved only by a POST from
  a loopback host to the approve path with the very token of that confirmation, after it was asked
  for and before its time-out, and each confirmation settles at most once.\<close>

theorem approval_needs_post:
  assumes "(token, Approved) \<in> set (cs_settled (conf_run evs))"
  shows "(\<exists>pre mid post summary host url.
      evs = pre @ Ask token summary # mid @ Http host url ''POST'' # post \<and> loopback host \<and>
      parse_confirm url = Some (token, Some True) \<and> Timer token \<notin> set mid) \<and>
    distinct (map fst (cs_settled (conf_run evs)))"
proof -
  have "consent evs token" "distinct (map fst (cs_settled (conf_run evs)))"
    using conf_run_inv [of evs] assms by (auto simp: conf_inv_def)
  then show ?thesis unfolding consent_def approve_post_def by blast
qed

definition demo_token :: string where
  "demo_token = replicate 64 CHR ''a''"

definition demo_events :: "conf_event list" where
  "demo_events = [Ask demo_token ''pay'', Http (Some ''127.0.0.1:99'') (''/confirm/'' @ demo_token @ ''/approve'') ''POST'']"

lemma demo_event_facts [model_defs]:
  "parse_confirm (''/confirm/'' @ demo_token @ ''/approve'') = Some (demo_token, Some True)"
  "loopback (Some ''127.0.0.1:99'')"
  by code_simp+

lemma approval_needs_post_witness:
  "(demo_token, Approved) \<in> set (cs_settled (conf_run demo_events)) \<and> distinct (map fst (cs_settled (conf_run demo_events)))"
proof -
  have "conf_run demo_events = conf_step (demo_events ! 1) (create_approval demo_token ''pay'' no_requests)"
    by (simp add: demo_events_def conf_run_def)
  also have "\<dots> = fst (redeem demo_token True (create_approval demo_token ''pay'' no_requests))"
    using demo_event_facts unfolding demo_events_def handleRequest_def by (simp add: case_prod_beta handleRequest_def)
  finally have "(demo_token, Approved) \<in> set (cs_settled (conf_run demo_events))"
    by (simp add: create_approval_def no_requests_def redeem_def settle_def)
  from approval_needs_post [OF this] this show ?thesis by blast
qed

section \<open>The audit log\<close>

datatype js_error = Policy string | Thrown string | NonError string

datatype audit_outcome =
    OutRequested | OutApproved | OutDenied | OutTimeout | OutRejected | OutSuccess | OutError

record audit_entry =
  ae_timestamp :: string
  ae_tool :: string
  ae_params :: params
  ae_summary :: string
  ae_txHash :: "string option"
  ae_outcome :: audit_outcome
  ae_detail :: "string option"

record guarded_action =
  ga_tool :: string
  ga_sensitive :: bool
  ga_summary :: string
  ga_details :: params

datatype elicit_reply = Reply string params | ClientError js_error

datatype browser_event = Visit "string option" string string | TimeUp

text \<open>
  \<open>gw_events\<close> is what the localhost page has seen (its state is \<open>conf_run (gw_events w)\<close>),
  \<open>gw_browser\<close> and \<open>gw_client\<close> are what the browser and the MCP client will do, \<open>gw_replies\<close> the
  elicitations answered so far, \<open>gw_attempts\<close> the number of appends tried, and \<open>gw_chain\<close> the part
  of the world that signing changes.
\<close>

record 'c gate_world =
  gw_events :: "conf_event list"
  gw_browser :: "browser_event list"
  gw_client :: "elicit_reply list"
  gw_replies :: "(string \<times> elicit_reply) list"
  gw_attempts :: nat
  gw_audit :: "audit_entry list"
  gw_chain :: 'c

text \<open>
  The surroundings: the read-only switch, the clock, the file system (the error of the n-th
  append, if it fails), the random tokens, and the start of the page's server.
\<close>

record gate_env =
  ge_readOnly :: bool
  ge_clock :: "nat \<Rightarrow> string"
  ge_append :: "nat \<Rightarrow> string option"
  ge_token :: "conf_event list \<Rightarrow> string"
  ge_listen :: "string option"

definition audit_record ::
  "gate_env \<Rightarrow> guarded_action \<Rightarrow> audit_outcome \<Rightarrow> string option \<Rightarrow> string option \<Rightarrow>
   ('c gate_world, js_error, unit) io" where
  "audit_record env a outcome tx detail w =
     (let entry = \<lparr>ae_timestamp = ge_clock env (gw_attempts w), ae_tool = ga_tool a, ae_params = ga_details a,
        ae_summary = ga_summary a, ae_txHash = tx, ae_outcome = outcome, ae_detail = detail\<rparr>;
          w1 = w\<lparr>gw_attempts := gw_attempts w + 1\<rparr> in
      case ge_append env (gw_attempts w) of
        Some e \<Rightarrow> (w1, Inl (Thrown e))
      | None \<Rightarrow> (w1\<lparr>gw_audit := gw_audit w @ [entry]\<rparr>, Inr ()))"

section \<open>The confirmation providers\<close>

text \<open>
  The elicitation: only an accepted form whose box is ticked is an approval. (In the texts of the
  program umlauts are transliterated and dashes are ASCII.)
\<close>

definition elicit_message :: "guarded_action \<Rightarrow> string" where
  "elicit_message a = ga_summary a @ [CHR 0x0A, CHR 0x0A] @ 
     ''Diese Aktion signiert in deinem Namen. Bestaetigen, um fortzufahren.''"

fun elicit_approved :: "elicit_reply \<Rightarrow> bool" where
  "elicit_approved (Reply act content) \<longleftrightarrow> act = ''accept'' \<and> getp content ''confirm'' = JBool True"
| "elicit_approved (ClientError e) \<longleftrightarrow> False"

definition elicitation_ask :: "guarded_action \<Rightarrow> ('c gate_world, js_error, bool) io" where
  "elicitation_ask a w =
     (case gw_client w of
        [] \<Rightarrow> (w, Inl (Thrown ''Request timed out''))
      | r # rs \<Rightarrow>
          (w\<lparr>gw_client := rs, gw_replies := gw_replies w @ [(elicit_message a, r)]\<rparr>,
           case r of ClientError e \<Rightarrow> Inl e | Reply act content \<Rightarrow> Inr (elicit_approved r)))"

text \<open>
  The localhost page: register a fresh token, show its page, and wait for the promise or the
  timer; when nothing more arrives the timer fires.
\<close>

fun browser_conf :: "string \<Rightarrow> browser_event \<Rightarrow> conf_event" where
  "browser_conf token (Visit host url m) = Http host url m"
| "browser_conf token TimeUp = Timer token"

fun await_settled :: "string \<Rightarrow> browser_event list \<Rightarrow> conf_event list \<Rightarrow> conf_event list \<times> browser_event list" where
  "await_settled token bs evs =
     (if token \<in> fst ` set (cs_settled (conf_run evs)) then (evs, bs)
      else case bs of
        [] \<Rightarrow> (evs @ [Timer token], [])
      | b # bs' \<Rightarrow> await_settled token bs' (evs @ [browser_conf token b]))"

declare await_settled.simps [simp del]

definition localhost_ask :: "gate_env \<Rightarrow> guarded_action \<Rightarrow> ('c gate_world, js_error, bool) io" where
  "localhost_ask env a w =
     (case ge_listen env of
        Some e \<Rightarrow> (w, Inl (Thrown e))
      | None \<Rightarrow>
          (let token = ge_token env (gw_events w);
               (evs, bs) = await_settled token (gw_browser w) (gw_events w @ [Ask token (ga_summary a)]) in
           (w\<lparr>gw_events := evs, gw_browser := bs\<rparr>,
            case map_of (cs_settled (conf_run evs)) token of
              Some Approved \<Rightarrow> Inr True
            | Some Denied \<Rightarrow> Inr False
            | _ \<Rightarrow> Inl (Thrown ''confirmation timed out''))))"

text \<open>The fallback is asked only when the client cannot elicit at all.\<close>

definition composite_ask ::
  "(js_error \<Rightarrow> bool) \<Rightarrow> (guarded_action \<Rightarrow> ('w, js_error, bool) io) \<Rightarrow>
   (guarded_action \<Rightarrow> ('w, js_error, bool) io) \<Rightarrow> guarded_action \<Rightarrow> ('w, js_error, bool) io" where
  "composite_ask unsupported primary fallback a =
     itry (primary a) (\<lambda>err. if unsupported err then fallback a else ithrow err)"

text \<open>Only an error that says that the client has no elicitation counts as unsupported.\<close>

fun has_part :: "string \<Rightarrow> string \<Rightarrow> bool" where
  "has_part part [] \<longleftrightarrow> part = []"
| "has_part part (c # s) \<longleftrightarrow> starts_with part (c # s) \<or> has_part part s"

definition isElicitationUnsupported :: "js_error \<Rightarrow> bool" where
  "isElicitationUnsupported err =
     (let msg = (case err of Policy m \<Rightarrow> m | Thrown m \<Rightarrow> m | NonError m \<Rightarrow> m); low = lower msg in
      list_ex (\<lambda>kind. has_part (''client does not support '' @ kind @ ''elicitation'') low) [[], ''form '', ''url ''] \<or>
      has_part ''method not found'' low \<or> has_part ''-32601'' msg)"

definition ask_user :: "gate_env \<Rightarrow> guarded_action \<Rightarrow> ('c gate_world, js_error, bool) io" where
  "ask_user env = composite_ask isElicitationUnsupported elicitation_ask (localhost_ask env)"

section \<open>The policy gate\<close>

definition error_detail :: "js_error \<Rightarrow> string" where
  "error_detail err = (case err of Policy m \<Rightarrow> m | Thrown m \<Rightarrow> m | NonError _ \<Rightarrow> ''unknown error'')"

text \<open>Signing, as seen by the gate: it changes only the chain part of the world.\<close>

definition sign :: "('c, js_error, 'a) io \<Rightarrow> ('c gate_world, js_error, 'a) io" where
  "sign execute w = (case execute (gw_chain w) of (c, r) \<Rightarrow> (w\<lparr>gw_chain := c\<rparr>, r))"

definition perform ::
  "gate_env \<Rightarrow> guarded_action \<Rightarrow> ('c, js_error, 'a \<times> string option) io \<Rightarrow> ('c gate_world, js_error, 'a) io" where
  "perform env a execute =
     itry (ibind (sign execute) (\<lambda>(res, tx).
             ibind (audit_record env a OutSuccess tx None) (\<lambda>_. iret res)))
       (\<lambda>err. ibind (audit_record env a OutError None (Some (error_detail err))) (\<lambda>_. ithrow err))"

definition guard ::
  "gate_env \<Rightarrow> (guarded_action \<Rightarrow> ('c gate_world, js_error, bool) io) \<Rightarrow> guarded_action \<Rightarrow>
   ('c, js_error, 'a \<times> string option) io \<Rightarrow> ('c gate_world, js_error, 'a) io" where
  "guard env ask a execute =
     (if ge_readOnly env then
        ibind (audit_record env a OutRejected None (Some ''read-only mode''))
          (\<lambda>_. ithrow (Policy ''Read-only-Modus aktiv: schreibende Aktionen sind deaktiviert.''))
      else if ga_sensitive a then
        ibind (audit_record env a OutRequested None None) (\<lambda>_.
        ibind (itry (ask a) (\<lambda>err.
            ibind (audit_record env a OutTimeout None (Some ''no confirmation / timeout''))
              (\<lambda>_. ithrow (Policy ''Keine Bestaetigung erhalten (Timeout/keine Moeglichkeit) - es wurde nicht signiert.'')))) (\<lambda>approved.
        if \<not> approved then
          ibind (audit_record env a OutDenied None None) (\<lambda>_. ithrow (Policy ''Aktion abgelehnt - es wurde nicht signiert.''))
        else ibind (audit_record env a OutApproved None None) (\<lambda>_. perform env a execute)))
      else perform env a execute)"

section \<open>What the providers promise\<close>

text \<open>The part of the world in which the user speaks; the log, that only grows, is the rest of it.\<close>

definition user_view :: "'c gate_world \<Rightarrow> conf_event list \<times> browser_event list \<times> elicit_reply list \<times> (string \<times> elicit_reply) list" where
  "user_view w = (gw_events w, gw_browser w, gw_client w, gw_replies w)"

definition log_grows :: "('c gate_world, 'e, 'a) io \<Rightarrow> bool" where
  "log_grows m \<longleftrightarrow> (\<forall>w. \<exists>es. gw_audit (fst (m w)) = gw_audit w @ es)"

lemma log_growsD: "log_grows m \<Longrightarrow> m w = (w', r) \<Longrightarrow> \<exists>es. gw_audit w' = gw_audit w @ es"
  unfolding log_grows_def by (metis fst_conv)

lemma log_grows_intros [intro, simp]: "log_grows (iret x)" "log_grows (ithrow e)"
  by (simp_all add: log_grows_def)

lemma log_grows_ibind: "log_grows m \<Longrightarrow> (\<And>x. log_grows (f x)) \<Longrightarrow> log_grows (ibind m f)"
  unfolding log_grows_def by (metis append_assoc fst_conv ibind_cases)

lemma log_grows_itry:
  assumes "log_grows m" "\<And>e. log_grows (h e)"
  shows "log_grows (itry m h)"
  unfolding log_grows_def
proof
  fix w
  show "\<exists>es. gw_audit (fst (itry m h w)) = gw_audit w @ es"
  proof (cases "m w")
    case (Pair w1 r)
    from assms(1) Pair obtain es where es: "gw_audit w1 = gw_audit w @ es" using log_growsD by blast
    show ?thesis
    proof (cases r)
      case (Inl e)
      from assms(2) obtain es' where "gw_audit (fst (h e w1)) = gw_audit w1 @ es'" unfolding log_grows_def by blast
      with Pair Inl es show ?thesis by simp
    qed (use Pair es in simp)
  qed
qed

text \<open>
  A confirmation interface: an approval comes with the user's consent to this very action, asking
  touches neither the log nor the chain, and consent is read off the user's part of the world.
\<close>

locale confirmation =
  fixes ask :: "guarded_action \<Rightarrow> ('c gate_world, js_error, bool) io"
    and ready :: "'c gate_world \<Rightarrow> bool"
    and consents :: "guarded_action \<Rightarrow> 'c gate_world \<Rightarrow> 'c gate_world \<Rightarrow> bool"
  assumes approved: "ready w \<Longrightarrow> ask a w = (w', Inr True) \<Longrightarrow> consents a w w'"
    and frame: "keeps (\<lambda>w. (gw_audit w, gw_attempts w, gw_chain w)) (ask a)"
    and ready_view: "user_view w = user_view v \<Longrightarrow> ready w \<Longrightarrow> ready v"
    and consents_view: "user_view w = user_view v \<Longrightarrow> user_view w' = user_view v' \<Longrightarrow>
      consents a w w' \<Longrightarrow> consents a v v'"

text \<open>The composite keeps the promise of its parts when a refusal of the first leaves room for the second.\<close>

locale two_providers = primary: confirmation ask1 ready consents + fallback: confirmation ask2 ready consents
  for ask1 ask2 :: "guarded_action \<Rightarrow> ('c gate_world, js_error, bool) io" and ready consents +
  fixes unsupported :: "js_error \<Rightarrow> bool"
  assumes failed: "ready w \<Longrightarrow> ask1 a w = (w1, Inl e) \<Longrightarrow> ready w1 \<and> (consents a w1 w' \<longrightarrow> consents a w w')"

sublocale two_providers \<subseteq> composite: confirmation "composite_ask unsupported ask1 ask2" ready consents
proof
  fix w a w' r
  show "consents a w w'" if rdy: "ready w" and ask: "composite_ask unsupported ask1 ask2 a w = (w', Inr True)"
  proof (cases "ask1 a w")
    case (Pair w1 r1)
    show ?thesis
    proof (cases r1)
      case (Inl e)
      with Pair ask have "ask2 a w1 = (w', Inr True)"
        by (auto simp: composite_ask_def split: if_splits)
      with failed [OF rdy] Pair Inl fallback.approved show ?thesis by blast
    next
      case (Inr b)
      with Pair ask have "ask1 a w = (w', Inr True)" by (auto simp: composite_ask_def)
      then show ?thesis using rdy primary.approved by blast
    qed
  qed
qed (auto simp: composite_ask_def intro: primary.ready_view primary.consents_view
    intro!: keeps_itry primary.frame fallback.frame)

lemma audit_record_cases:
  obtains e where "audit_record env a oc tx d w = (w\<lparr>gw_attempts := gw_attempts w + 1, gw_audit := gw_audit w\<rparr>, Inl e)"
  | es where "audit_record env a oc tx d w = (w\<lparr>gw_attempts := gw_attempts w + 1, gw_audit := gw_audit w @ [es]\<rparr>, Inr ())"
      "ae_outcome es = oc" "ae_summary es = ga_summary a" "ae_tool es = ga_tool a" "ae_params es = ga_details a"
proof (cases "ge_append env (gw_attempts w)")
  case None
  then show ?thesis using that(2) by (simp add: audit_record_def)
next
  case (Some e)
  then show ?thesis using that(1) by (simp add: audit_record_def)
qed

lemma audit_record_keeps: "keeps (\<lambda>w. (user_view w, gw_chain w)) (audit_record env a oc tx d)"
  unfolding keeps_def
proof
  fix w
  show "(user_view (fst (audit_record env a oc tx d w)), gw_chain (fst (audit_record env a oc tx d w))) = (user_view w, gw_chain w)"
    by (rule audit_record_cases [of env a oc tx d w]) (simp_all add: user_view_def)
qed

lemma audit_record_grows: "log_grows (audit_record env a oc tx d)"
  unfolding log_grows_def
proof
  fix w
  show "\<exists>es. gw_audit (fst (audit_record env a oc tx d w)) = gw_audit w @ es"
    by (rule audit_record_cases [of env a oc tx d w]) simp_all
qed

lemma audit_record_chain: "audit_record env a oc tx d w = (w', r) \<Longrightarrow> gw_chain w' = gw_chain w"
  using keepsD [OF audit_record_keeps] by fastforce

lemma audit_record_view: "audit_record env a oc tx d w = (w', r) \<Longrightarrow> user_view w' = user_view w"
  using keepsD [OF audit_record_keeps] by fastforce

lemma sign_keeps: "keeps (\<lambda>w. (user_view w, gw_audit w)) (sign execute)"
  by (simp add: keeps_def sign_def user_view_def split: prod.split)

lemma sign_grows: "log_grows (sign execute)"
  by (simp add: log_grows_def sign_def split: prod.split)

lemma keeps_part: "keeps (\<lambda>w. (f w, g w)) m \<Longrightarrow> keeps f m"
  by (simp add: keeps_def)

lemma perform_view: "keeps user_view (perform env a execute)"
  unfolding perform_def
  by (auto intro!: keeps_itry keeps_ibind keeps_part [OF audit_record_keeps] keeps_part [OF sign_keeps] split: prod.split)

lemma perform_grows: "log_grows (perform env a execute)"
  unfolding perform_def
  by (auto intro!: log_grows_itry log_grows_ibind audit_record_grows sign_grows split: prod.split)

context confirmation
begin

lemma guard_signing:
  assumes run: "guard env ask a execute w = (w', r)" and ready: "ready w"
    and signed: "gw_chain w' \<noteq> gw_chain w"
  shows "\<not> ge_readOnly env" "ga_sensitive a \<Longrightarrow> \<exists>w2 es. consents a w w2 \<and> gw_audit w2 = gw_audit w @ es \<and>
      (\<exists>w3. audit_record env a OutApproved None None w2 = (w3, Inr ()) \<and> (w', r) = perform env a execute w3)"
proof -
  show ro: "\<not> ge_readOnly env"
  proof
    assume "ge_readOnly env"
    obtain w1 r1 where t: "audit_record env a OutRejected None (Some ''read-only mode'') w = (w1, r1)" by fastforce
    have "gw_chain w' = gw_chain w"
      using run t \<open>ge_readOnly env\<close> audit_record_chain [OF t] by (cases r1) (auto simp: guard_def ibind_def)
    with signed show False ..
  qed
  assume sens: "ga_sensitive a"
  obtain w1 r1 where rec1: "audit_record env a OutRequested None None w = (w1, r1)" by fastforce
  obtain w2 r2 where ask: "ask a w1 = (w2, r2)" by fastforce
  have c: "gw_chain w1 = gw_chain w" "gw_chain w2 = gw_chain w"
    using audit_record_chain [OF rec1] keepsD [OF frame ask] by auto
  have "r1 = Inr ()"
  proof (cases r1)
    case (Inl e)
    with run rec1 ro sens signed c show ?thesis by (simp add: guard_def)
  qed simp
  note rec1 = rec1 [unfolded this]
  have yes: "r2 = Inr True"
  proof (rule ccontr)
    assume no: "r2 \<noteq> Inr True"
    obtain w3 r3 where t: "audit_record env a OutTimeout None (Some ''no confirmation / timeout'') w2 = (w3, r3)" by fastforce
    obtain w4 r4 where d: "audit_record env a OutDenied None None w2 = (w4, r4)" by fastforce
    have "gw_chain w' = gw_chain w"
      using run rec1 ask ro sens t d no c audit_record_chain [OF t] audit_record_chain [OF d]
      by (cases r2; cases r3; cases r4) (auto simp: guard_def ibind_def itry_def)
    with signed show False ..
  qed
  obtain w3 r3 where t: "audit_record env a OutApproved None None w2 = (w3, r3)" by fastforce
  have w3: "(w', r) = (case r3 of Inl e \<Rightarrow> (w3, Inl e) | Inr _ \<Rightarrow> perform env a execute w3)"
    using run rec1 ask yes ro sens t by (cases r3) (simp_all add: guard_def ibind_def itry_def)
  have "r3 = Inr ()"
    using w3 audit_record_chain [OF t] c signed by (cases r3) auto
  moreover have "consents a w w2"
  proof -
    have "ready w1" using ready ready_view audit_record_view [OF rec1] by metis
    with ask yes approved have "consents a w1 w2" by blast
    then show ?thesis using consents_view audit_record_view [OF rec1] by metis
  qed
  ultimately show "\<exists>w2 es. consents a w w2 \<and> gw_audit w2 = gw_audit w @ es \<and>
      (\<exists>w3. audit_record env a OutApproved None None w2 = (w3, Inr ()) \<and> (w', r) = perform env a execute w3)"
    using w3 t keepsD [OF frame ask] log_growsD [OF audit_record_grows rec1] by auto
qed

lemma guard_signed_consent:
  assumes run: "guard env ask a execute w = (w', r)" and ready: "ready w"
    and signed: "gw_chain w' \<noteq> gw_chain w" and sens: "ga_sensitive a"
  shows "consents a w w' \<and> (\<exists>pre e post. gw_audit w' = gw_audit w @ pre @ e # post \<and>
      ae_outcome e = OutApproved \<and> ae_summary e = ga_summary a)"
proof -
  obtain w2 w3 es where w2: "consents a w w2" "gw_audit w2 = gw_audit w @ es"
    and t: "audit_record env a OutApproved None None w2 = (w3, Inr ())" and p: "perform env a execute w3 = (w', r)"
    using guard_signing(2) [OF run ready signed sens] by auto
  have "user_view w' = user_view w2"
    using keepsD [OF perform_view p] audit_record_view [OF t] by simp
  then have c: "consents a w w'" using consents_view [OF refl, of w2 w' a w] w2(1) by simp
  obtain es' where es': "gw_audit w' = gw_audit w3 @ es'" using log_growsD [OF perform_grows p] by blast
  obtain e where "gw_audit w3 = gw_audit w2 @ [e]" and e: "ae_outcome e = OutApproved" "ae_summary e = ga_summary a"
    by (rule audit_record_cases [of env a OutApproved None None w2]) (use t in auto)
  then have "gw_audit w' = gw_audit w @ es @ e # es'" using es' w2(2) by simp
  with c e show ?thesis by blast
qed

end

section \<open>Consent\<close>

text \<open>
  The user consents to an action when, between the two worlds, the client returned the accepted
  form for its message, or the page of its summary received the approving POST before its timer.
\<close>

definition page_consent :: "string \<Rightarrow> conf_event list \<Rightarrow> conf_event list \<Rightarrow> bool" where
  "page_consent summary evs evs' \<longleftrightarrow>
     (\<exists>token mid ev post. evs' = evs @ Ask token summary # mid @ ev # post \<and> approve_post token ev \<and> Timer token \<notin> set mid)"

definition user_consent :: "guarded_action \<Rightarrow> 'c gate_world \<Rightarrow> 'c gate_world \<Rightarrow> bool" where
  "user_consent a w w' \<longleftrightarrow>
     page_consent (ga_summary a) (gw_events w) (gw_events w') \<or>
     (\<exists>rs content. gw_replies w' = gw_replies w @ rs \<and> (elicit_message a, Reply ''accept'' content) \<in> set rs \<and>
        getp content ''confirm'' = JBool True)"

definition asked_tokens :: "conf_event list \<Rightarrow> string set" where
  "asked_tokens evs = {token. Some token \<in> set (map asked evs)}"

definition fresh_token :: "gate_env \<Rightarrow> 'c gate_world \<Rightarrow> bool" where
  "fresh_token env w \<longleftrightarrow> ge_token env (gw_events w) \<notin> asked_tokens (gw_events w)"

lemma await_settled_extends:
  "\<exists>rest. fst (await_settled token bs evs) = evs @ rest \<and> asked_tokens rest = {}"
proof (induction token bs evs rule: await_settled.induct)
  case (1 token bs evs)
  show ?case
  proof (cases "token \<in> fst ` set (cs_settled (conf_run evs))")
    case True
    then show ?thesis by (simp add: await_settled.simps asked_tokens_def)
  next
    case unsettled: False
    show ?thesis
    proof (cases bs)
      case Nil
      with unsettled show ?thesis by (auto simp: await_settled.simps asked_tokens_def)
    next
      case (Cons b bs')
      from 1 [OF unsettled Cons] obtain rest where
        "fst (await_settled token bs' (evs @ [browser_conf token b])) = evs @ browser_conf token b # rest" "asked_tokens rest = {}"
        by auto
      moreover have "asked (browser_conf token b) = None" by (cases b) simp_all
      ultimately show ?thesis using unsettled Cons by (auto simp: await_settled.simps asked_tokens_def)
    qed
  qed
qed

lemma consent_of_last:
  assumes "consent (evs @ Ask token summary # rest) token" "token \<notin> asked_tokens evs" "asked_tokens rest = {}"
  shows "page_consent summary evs (evs @ Ask token summary # rest)"
proof -
  from assms(1) obtain pre mid post s ev where eq: "evs @ Ask token summary # rest = pre @ Ask token s # mid @ ev # post"
    and ev: "approve_post token ev" "Timer token \<notin> set mid" unfolding consent_def by blast
  have none: "Ask token x \<notin> set evs" "Ask token x \<notin> set rest" for x
    using assms(2,3) by (force simp: asked_tokens_def)+
  have "Ask token s \<in> set (evs @ Ask token summary # rest)" by (simp add: eq)
  then have "s = summary" using none by auto
  with eq none have "evs = pre" "rest = mid @ ev # post"
    using append_Cons_eq_iff [of "Ask token summary" evs rest pre "mid @ ev # post"] by auto
  then show ?thesis using ev unfolding page_consent_def by blast
qed

interpretation form: confirmation elicitation_ask "fresh_token env" user_consent for env :: gate_env
proof
  fix w w' :: "'c gate_world" and a
  assume "elicitation_ask a w = (w', Inr True)"
  then show "user_consent a w w'"
    by (auto simp: elicitation_ask_def user_consent_def split: list.splits elicit_reply.splits)
next
  show "keeps (\<lambda>w. (gw_audit w, gw_attempts w, gw_chain w)) (elicitation_ask a)" for a
    by (simp add: keeps_def elicitation_ask_def split: list.split)
qed (auto simp: fresh_token_def user_consent_def user_view_def)

interpretation page: confirmation "localhost_ask env" "fresh_token env" user_consent for env :: gate_env
proof
  fix w w' :: "'c gate_world" and a
  let ?t = "ge_token env (gw_events w)"
  assume f: "fresh_token env w" and "localhost_ask env a w = (w', Inr True)"
  then have ev: "gw_events w' = fst (await_settled ?t (gw_browser w) (gw_events w @ [Ask ?t (ga_summary a)]))"
    and ap: "map_of (cs_settled (conf_run (gw_events w'))) ?t = Some Approved"
    by (auto simp: localhost_ask_def Let_def split: option.splits prod.splits approval.splits)
  obtain rest where rest: "gw_events w' = gw_events w @ Ask ?t (ga_summary a) # rest" "asked_tokens rest = {}"
    using await_settled_extends [of ?t "gw_browser w" "gw_events w @ [Ask ?t (ga_summary a)]"] ev by auto
  have "consent (gw_events w') ?t"
    using conf_run_inv [of "gw_events w'"] map_of_SomeD [OF ap] by (simp add: conf_inv_def)
  then show "user_consent a w w'"
    using consent_of_last f rest unfolding fresh_token_def user_consent_def by metis
next
  show "keeps (\<lambda>w. (gw_audit w, gw_attempts w, gw_chain w)) (localhost_ask env a)" for a
    by (simp add: keeps_def localhost_ask_def Let_def split: option.split prod.split)
qed (auto simp: fresh_token_def user_consent_def user_view_def)

interpretation both: two_providers elicitation_ask "localhost_ask env" "fresh_token env" user_consent isElicitationUnsupported
  for env :: gate_env
proof
  fix w w1 w' :: "'c gate_world" and a e
  assume f: "fresh_token env w" and "elicitation_ask a w = (w1, Inl e)"
  then have "gw_events w1 = gw_events w" "\<exists>rs. gw_replies w1 = gw_replies w @ rs"
    by (auto simp: elicitation_ask_def split: list.splits elicit_reply.splits)
  then show "fresh_token env w1 \<and> (user_consent a w1 w' \<longrightarrow> user_consent a w w')"
    using f unfolding fresh_token_def user_consent_def by fastforce
qed

section \<open>Properties of the gate\<close>

definition demo_gate :: gate_env where
  "demo_gate = \<lparr>ge_readOnly = False, ge_clock = show_nat, ge_append = (\<lambda>_. None), ge_token = (\<lambda>_. demo_token),
     ge_listen = None\<rparr>"

definition demo_world :: "nat gate_world" where
  "demo_world = \<lparr>gw_events = [],
     gw_browser = [Visit (Some ''127.0.0.1:99'') (''/confirm/'' @ demo_token @ ''/approve'') ''POST''],
     gw_client = [ClientError (Thrown ''Client does not support elicitation'')], gw_replies = [], gw_attempts = 0, gw_audit = [], gw_chain = 0\<rparr>"

definition demo_action :: guarded_action where
  "demo_action = \<lparr>ga_tool = ''deposit'', ga_sensitive = True, ga_summary = ''pay'', ga_details = Map.empty\<rparr>"

definition demo_execute :: "(nat, js_error, nat \<times> string option) io" where
  "demo_execute n = (n + 1, Inr (n + 1, Some ''0xabc''))"

definition demo_after :: "conf_event list" where
  "demo_after = [Ask demo_token ''pay'', Http (Some ''127.0.0.1:99'') (''/confirm/'' @ demo_token @ ''/approve'') ''POST'']"

lemma demo_settled: "cs_settled (conf_run [Ask demo_token ''pay'']) = []"
  "cs_settled (conf_run demo_after) = [(demo_token, Approved)]"
proof -
  have "conf_run demo_after = fst (handleRequest (Some ''127.0.0.1:99'') (''/confirm/'' @ demo_token @ ''/approve'')
      ''POST'' (conf_run [Ask demo_token ''pay'']))"
    by (simp add: demo_after_def conf_run_def)
  also have "\<dots> = fst (redeem demo_token True (conf_run [Ask demo_token ''pay'']))"
    using demo_event_facts unfolding handleRequest_def by (simp add: case_prod_beta)
  finally show "cs_settled (conf_run demo_after) = [(demo_token, Approved)]"
    by (simp add: conf_run_def create_approval_def no_requests_def redeem_def settle_def)
qed (simp add: conf_run_def create_approval_def no_requests_def)

lemma demo_await:
  "await_settled demo_token (gw_browser demo_world) [Ask demo_token ''pay''] = (demo_after, [])"
  using demo_settled by (simp add: await_settled.simps demo_world_def demo_after_def)

lemma demo_unsupported: "isElicitationUnsupported (Thrown ''Client does not support elicitation'')"
  by code_simp

lemma demo_guard:
  "\<exists>w'. guard demo_gate (ask_user demo_gate) demo_action demo_execute demo_world = (w', Inr 1) \<and>
     gw_chain w' = 1 \<and> map ae_outcome (gw_audit w') = [OutRequested, OutApproved, OutSuccess]"
proof -
  have "ask_user demo_gate demo_action (w::nat gate_world) = (w\<lparr>gw_client := [], gw_events := demo_after, gw_browser := [],
      gw_replies := [(elicit_message demo_action, ClientError (Thrown ''Client does not support elicitation''))]\<rparr>, Inr True)"
    if "user_view w = user_view demo_world" for w
    using that demo_await demo_settled(2) demo_unsupported
    by (simp add: ask_user_def composite_ask_def itry_def elicitation_ask_def user_view_def demo_world_def
        localhost_ask_def demo_gate_def demo_action_def)
  then show ?thesis
    by (simp add: guard_def demo_gate_def [THEN arg_cong [of _ _ ge_readOnly]] demo_gate_def [THEN arg_cong [of _ _ ge_append]]
        demo_action_def [THEN arg_cong [of _ _ ga_sensitive]] ibind_def itry_def audit_record_def Let_def user_view_def
        perform_def sign_def demo_execute_def demo_world_def)
qed

text \<open>C13. Whatever the client, the browser and the file system do, a call of the gate changes the chain
  only when the server is not read-only and, for a sensitive action, only when the user consented to
  the summary of that very action during the call and this approval is already in the log.\<close>

theorem signing_needs_consent:
  assumes "guard env (ask_user env) a execute w = (w', r)" "fresh_token env w" "gw_chain w' \<noteq> gw_chain w"
  shows "\<not> ge_readOnly env \<and> (ga_sensitive a \<longrightarrow> user_consent a w w' \<and>
    (\<exists>pre e post. gw_audit w' = gw_audit w @ pre @ e # post \<and> ae_outcome e = OutApproved \<and> ae_summary e = ga_summary a))"
  using both.composite.guard_signing(1) both.composite.guard_signed_consent assms unfolding ask_user_def by metis

lemma signing_needs_consent_witness:
  "\<exists>w'. guard demo_gate (ask_user demo_gate) demo_action demo_execute demo_world = (w', Inr 1) \<and>
     user_consent demo_action demo_world w'"
proof -
  obtain w' where w': "guard demo_gate (ask_user demo_gate) demo_action demo_execute demo_world = (w', Inr 1)" "gw_chain w' = 1"
    using demo_guard by blast
  have "fresh_token demo_gate demo_world" "gw_chain w' \<noteq> gw_chain demo_world" "ga_sensitive demo_action"
    using w'(2) by (simp_all add: fresh_token_def asked_tokens_def demo_world_def demo_action_def)
  with signing_needs_consent [OF w'(1)] w'(1) show ?thesis by blast
qed

text \<open>With a log that accepts every entry, each record succeeds.\<close>

lemma audit_record_ok:
  assumes "ge_append env = (\<lambda>_. None)"
  obtains w' e where "audit_record env a oc tx d w = (w', Inr ())" "gw_audit w' = gw_audit w @ [e]"
    "ae_outcome e = oc" "gw_chain w' = gw_chain w"
  using assms by (rule_tac audit_record_cases [of env a oc tx d w]) (auto simp: audit_record_def Let_def intro: that)

lemma perform_entry:
  assumes log: "ge_append env = (\<lambda>_. None)" and run: "perform env a execute w = (w', r)"
  shows "\<exists>e. gw_audit w' = gw_audit w @ [e] \<and> ae_outcome e = (if isl r then OutError else OutSuccess)"
proof -
  obtain w1 r1 where s: "sign execute w = (w1, r1)" by fastforce
  have w1: "gw_audit w1 = gw_audit w" using keepsD [OF sign_keeps s] by simp
  show ?thesis
  proof (cases r1)
    case (Inl err)
    obtain w2 e where "audit_record env a OutError None (Some (error_detail err)) w1 = (w2, Inr ())"
      "gw_audit w2 = gw_audit w1 @ [e]" "ae_outcome e = OutError" using audit_record_ok [OF log] by metis
    with run s Inl w1 show ?thesis by (auto simp: perform_def)
  next
    case (Inr p)
    obtain x tx where p: "p = (x, tx)" by (cases p)
    obtain w2 e where "audit_record env a OutSuccess tx None w1 = (w2, Inr ())"
      "gw_audit w2 = gw_audit w1 @ [e]" "ae_outcome e = OutSuccess" using audit_record_ok [OF log] by metis
    with run s Inr w1 p show ?thesis by (auto simp: perform_def itry_def)
  qed
qed

definition call_outcomes :: "bool \<Rightarrow> bool \<Rightarrow> audit_outcome list set" where
  "call_outcomes readOnly sensitive =
     (if readOnly then {[OutRejected]}
      else if sensitive then {[OutRequested, OutTimeout], [OutRequested, OutDenied],
        [OutRequested, OutApproved, OutSuccess], [OutRequested, OutApproved, OutError]}
      else {[OutSuccess], [OutError]})"

context confirmation
begin

lemma guard_log:
  assumes log: "ge_append env = (\<lambda>_. None)" and run: "guard env ask a execute w = (w', r)"
  shows "\<exists>es. gw_audit w' = gw_audit w @ es \<and> map ae_outcome es \<in> call_outcomes (ge_readOnly env) (ga_sensitive a) \<and>
    (last (map ae_outcome es) = OutSuccess \<longleftrightarrow> \<not> isl r)"
proof (cases "ge_readOnly env")
  case True
  obtain w1 e where "audit_record env a OutRejected None (Some ''read-only mode'') w = (w1, Inr ())"
    "gw_audit w1 = gw_audit w @ [e]" "ae_outcome e = OutRejected" using audit_record_ok [OF log] by metis
  with run True show ?thesis by (auto simp: guard_def call_outcomes_def)
next
  case ro: False
  show ?thesis
  proof (cases "ga_sensitive a")
    case False
    with run ro have "perform env a execute w = (w', r)" by (simp add: guard_def)
    from perform_entry [OF log this] ro False show ?thesis by (auto simp: call_outcomes_def split: if_splits)
  next
    case sens: True
    obtain w1 e1 where r1: "audit_record env a OutRequested None None w = (w1, Inr ())"
      "gw_audit w1 = gw_audit w @ [e1]" "ae_outcome e1 = OutRequested" using audit_record_ok [OF log] by metis
    obtain w2 r2 where ask: "ask a w1 = (w2, r2)" by fastforce
    have w2: "gw_audit w2 = gw_audit w @ [e1]" using keepsD [OF frame ask] r1 by simp
    obtain wt et where t: "audit_record env a OutTimeout None (Some ''no confirmation / timeout'') w2 = (wt, Inr ())"
      "gw_audit wt = gw_audit w2 @ [et]" "ae_outcome et = OutTimeout" using audit_record_ok [OF log] by metis
    obtain wd ed where d: "audit_record env a OutDenied None None w2 = (wd, Inr ())"
      "gw_audit wd = gw_audit w2 @ [ed]" "ae_outcome ed = OutDenied" using audit_record_ok [OF log] by metis
    obtain wa ea where y: "audit_record env a OutApproved None None w2 = (wa, Inr ())"
      "gw_audit wa = gw_audit w2 @ [ea]" "ae_outcome ea = OutApproved" using audit_record_ok [OF log] by metis
    consider err where "r2 = Inl err" | "r2 = Inr False" | "r2 = Inr True" by (cases r2) auto
    then show ?thesis
    proof cases
      case 3
      with run ro sens r1 ask y have "perform env a execute wa = (w', r)" by (simp add: guard_def itry_def)
      from perform_entry [OF log this] obtain e where "gw_audit w' = gw_audit wa @ [e]"
        "ae_outcome e = (if isl r then OutError else OutSuccess)" by blast
      with ro sens r1 y w2 show ?thesis by (intro exI [of _ "[e1, ea, e]"]) (auto simp: call_outcomes_def)
    qed (use run ro sens r1 ask t d w2 in \<open>auto simp: guard_def itry_def call_outcomes_def\<close>)
  qed
qed

end

text \<open>With a writable log every call of the gate leaves exactly one trail: a rejection in read-only
  mode, otherwise (after the request and the answer, if the action is sensitive) one final entry, which
  is a success precisely when the call returned.\<close>

theorem gate_leaves_its_trail:
  assumes "ge_append env = (\<lambda>_. None)" "guard env (ask_user env) a execute w = (w', r)"
  shows "\<exists>es. gw_audit w' = gw_audit w @ es \<and> map ae_outcome es \<in> call_outcomes (ge_readOnly env) (ga_sensitive a) \<and>
    (last (map ae_outcome es) = OutSuccess \<longleftrightarrow> \<not> isl r)"
  using both.composite.guard_log assms unfolding ask_user_def by metis

lemma gate_leaves_its_trail_witness:
  "\<exists>w' es. guard demo_gate (ask_user demo_gate) demo_action demo_execute demo_world = (w', Inr 1) \<and>
     gw_audit w' = gw_audit demo_world @ es \<and> last (map ae_outcome es) = OutSuccess"
proof -
  obtain w' where w': "guard demo_gate (ask_user demo_gate) demo_action demo_execute demo_world = (w', Inr 1)"
    using demo_guard by blast
  have "ge_append demo_gate = (\<lambda>_. None)" by (simp add: demo_gate_def)
  from gate_leaves_its_trail [OF this w'] w' show ?thesis by auto
qed

text \<open>When the log cannot take the success entry but takes the next one, the gate reports an action
  that was signed as failed: the chain has changed, the call throws the file error, and the log's
  entry says error and names no transaction.\<close>

theorem signed_but_reported_failed:
  assumes "\<not> ge_readOnly env" "\<not> ga_sensitive a" "execute (gw_chain w) = (c, Inr (x, Some tx))"
    "ge_append env (gw_attempts w) = Some e" "ge_append env (gw_attempts w + 1) = None"
  shows "\<exists>w' entry. guard env ask a execute w = (w', Inl (Thrown e)) \<and> gw_chain w' = c \<and>
    gw_audit w' = gw_audit w @ [entry] \<and> ae_outcome entry = OutError \<and> ae_txHash entry = None"
  using assms by (auto simp: guard_def perform_def sign_def audit_record_def Let_def itry_def ibind_def)

lemma signed_but_reported_failed_witness:
  "\<exists>w' entry. guard (demo_gate\<lparr>ge_append := (\<lambda>n. if n = 0 then Some ''ENOSPC'' else None)\<rparr>) elicitation_ask
      (demo_action\<lparr>ga_sensitive := False\<rparr>) demo_execute demo_world = (w', Inl (Thrown ''ENOSPC'')) \<and> gw_chain w' = 1 \<and>
    gw_audit w' = gw_audit demo_world @ [entry] \<and> ae_outcome entry = OutError \<and> ae_txHash entry = None"
  by (rule signed_but_reported_failed) (simp_all add: demo_gate_def demo_action_def demo_world_def demo_execute_def)

end
