(* ===== verification/Drafts.thy ===== *)
theory Drafts
  imports Gate Boundary
begin

text \<open>
  Automation drafts in the MCP server: decoding a raw graph by field roles (summary-decoder.ts), the
  cross-check against the declared intent (intent-check.ts, graph-utils.ts), the one-shot draft store
  (draft-store.ts) and the deployment of a stored draft (deploy-automation.ts). Lemmas: the check
  passes exactly when every declared value agrees, a draft is deployed at most once and as it was
  stored, and nothing is signed for a graph whose recipients are not allowed.
\<close>

section \<open>The catalogue\<close>

type_synonym decoder_catalog = "string \<rightharpoonup> catalog_step"

definition step_name :: "catalog_step \<Rightarrow> string" where
  "step_name st = or_else (cs_name st) []"

definition step_fields :: "catalog_step \<Rightarrow> (string \<times> field_schema) list" where
  "step_fields st = schema_properties (Some (cs_schema st))"

section \<open>Decoding\<close>

record decoded_step =
  ds_stepType :: string
  ds_category :: string
  ds_token :: "string option"
  ds_amount :: "string option"
  ds_amountRaw :: "string option"
  ds_recipient :: "string option"
  ds_direction :: "jsval option"

datatype decode_warning =
    UnknownStep string
  | UndecodableAmount string string
  | UnannotatedRecipient string string

record decoded_summary =
  sm_steps :: "decoded_step list"
  sm_execution :: "string option"
  sm_warnings :: "decode_warning list"

text \<open>The fields found so far: first token, recipient, direction, amount field.\<close>

record found_fields =
  ff_token :: "string option"
  ff_recipient :: "string option"
  ff_direction :: "jsval option"
  ff_amount :: "(string \<times> field_schema) option"

definition role_field :: "params \<Rightarrow> string \<times> field_schema \<Rightarrow> found_fields \<Rightarrow> found_fields" where
  "role_field ps entry f =
     (case entry of (field, fs) \<Rightarrow>
        let role = resolveFieldRole (Some fs); raw = getp ps field in
        if role = Some TokenRole \<and> ff_token f = None \<and> raw \<noteq> JUndef then f\<lparr>ff_token := Some (js_string raw)\<rparr>
        else if role = Some RecipientRole \<and> raw \<noteq> JUndef then f\<lparr>ff_recipient := Some (js_string raw)\<rparr>
        else if role = Some DirectionRole \<and> raw \<noteq> JUndef then f\<lparr>ff_direction := Some raw\<rparr>
        else if role = Some AmountRole then f\<lparr>ff_amount := Some (field, fs)\<rparr>
        else f)"

definition found :: "params \<Rightarrow> (string \<times> field_schema) list \<Rightarrow> found_fields" where
  "found ps entries = fold (role_field ps) entries
     \<lparr>ff_token = None, ff_recipient = None, ff_direction = None, ff_amount = None\<rparr>"

definition defined_string :: "jsval \<Rightarrow> string option" where
  "defined_string v = (if v = JUndef then None else Some (js_string v))"

text \<open>The token of the amount: the annotated token field, else the first token.\<close>

definition amount_token :: "params \<Rightarrow> found_fields \<Rightarrow> field_schema \<Rightarrow> jsval" where
  "amount_token ps f fs =
     (case named_field (f_amount_token_field fs) of
        Some tokenField \<Rightarrow> getp ps tokenField
      | None \<Rightarrow> (case ff_token f of Some t \<Rightarrow> JStr t | None \<Rightarrow> JUndef))"

definition token_decimals_of :: "token_decimals \<Rightarrow> jsval \<Rightarrow> jsnum option" where
  "token_decimals_of tds v = (case str_of v of Some t \<Rightarrow> tds (lower t) | None \<Rightarrow> None)"

definition decodeNode ::
  "token_decimals \<Rightarrow> catalog_step \<Rightarrow> raw_node \<Rightarrow> amount_error + decoded_step \<times> decode_warning list" where
  "decodeNode tds st n =
     (let ps = n_params n; f = found ps (step_fields st);
          base = \<lparr>ds_stepType = step_name st, ds_category = n_type n, ds_token = ff_token f, ds_amount = None,
            ds_amountRaw = None, ds_recipient = ff_recipient f, ds_direction = ff_direction f\<rparr> in
      case ff_amount f of
        None \<Rightarrow> Inr (base, [])
      | Some (field, fs) \<Rightarrow>
          (let raw = getp ps field; addr = amount_token ps f fs;
               withToken = base\<lparr>ds_token := (if addr = JUndef then ff_token f else Some (js_string addr))\<rparr> in
           if raw = JUndef then Inr (withToken, [])
           else (case token_decimals_of tds addr of
                   None \<Rightarrow> Inr (withToken\<lparr>ds_amountRaw := Some (js_string raw)\<rparr>,
                     [UndecodableAmount (step_name st) (js_string addr)])
                 | Some d \<Rightarrow> rbind (fromBaseUnits (js_string raw) d) (\<lambda>a.
                     Inr (withToken\<lparr>ds_amountRaw := Some (js_string raw), ds_amount := Some a\<rparr>, [])))))"

fun decodeNodes ::
  "decoder_catalog \<Rightarrow> token_decimals \<Rightarrow> raw_node list \<Rightarrow> amount_error + decoded_step list \<times> decode_warning list" where
  "decodeNodes catalog tds [] = Inr ([], [])"
| "decodeNodes catalog tds (n # ns) =
     (case catalog (n_stepTypeId n) of
        None \<Rightarrow> rbind (decodeNodes catalog tds ns) (\<lambda>(ss, ws). Inr (ss, UnknownStep (n_stepTypeId n) # ws))
      | Some st \<Rightarrow> rbind (decodeNode tds st n) (\<lambda>(s, w).
          rbind (decodeNodes catalog tds ns) (\<lambda>(ss, ws). Inr (s # ss, w @ ws))))"

definition decodeRawGraph ::
  "raw_graph \<Rightarrow> decoder_catalog \<Rightarrow> token_decimals \<Rightarrow> string option \<Rightarrow> amount_error + decoded_summary" where
  "decodeRawGraph g catalog tds execution =
     rbind (decodeNodes catalog tds (g_nodes g)) (\<lambda>(steps, warnings).
       Inr \<lparr>sm_steps = steps, sm_execution = execution,
         sm_warnings = warnings @ map (\<lambda>(s, f). UnannotatedRecipient s f)
           (findUnannotatedRecipients (List.map_filter (\<lambda>n. catalog (n_stepTypeId n)) (g_nodes g)))\<rparr>)"

section \<open>The intent\<close>

record intent_action =
  ia_token :: "string option"
  ia_direction :: "jsval option"
  ia_amount :: "string option"

record flat_intent =
  in_execution :: string
  in_periodSeconds :: "jsnum option"
  in_actions :: "intent_action list"

datatype intent_diff =
    ExecutionDiffers
  | ActionCount nat nat
  | TokenDiffers nat
  | AmountDiffers nat
  | DirectionDiffers nat
  | PeriodDiffers

datatype check_warning = BranchedGraph | Decoder decode_warning

record check_result =
  ck_ok :: bool
  ck_diffs :: "intent_diff list"
  ck_warnings :: "check_warning list"

text \<open>Two optional values disagree only when both are given.\<close>

definition both_differ :: "('a \<Rightarrow> 'b \<Rightarrow> bool) \<Rightarrow> 'a option \<Rightarrow> 'b option \<Rightarrow> bool" where
  "both_differ same a b = (case (a, b) of (Some x, Some y) \<Rightarrow> \<not> same x y | _ \<Rightarrow> False)"

definition action_diffs :: "nat \<Rightarrow> intent_action \<Rightarrow> decoded_step \<Rightarrow> intent_diff list" where
  "action_diffs i want step =
     (if both_differ (\<lambda>a b. lower a = lower b) (ia_token want) (ds_token step) then [TokenDiffers (i + 1)] else []) @
     (if both_differ (=) (ia_amount want) (ds_amount step) then [AmountDiffers (i + 1)] else []) @
     (if both_differ (\<lambda>a b. js_string a = js_string b) (ia_direction want) (ds_direction step)
      then [DirectionDiffers (i + 1)] else [])"

definition derived_execution :: "bool \<Rightarrow> string" where
  "derived_execution ownerOnly = (if ownerOnly then ''owner'' else ''public'')"

definition crossCheckIntent ::
  "flat_intent \<Rightarrow> decoded_summary \<Rightarrow> bool \<Rightarrow> jsnum option \<Rightarrow> bool \<Rightarrow> check_result" where
  "crossCheckIntent intent decoded ownerOnly triggerSeconds branched =
     (let actions = filter (\<lambda>s. ds_category s = ''ACTION'') (sm_steps decoded);
          diffs =
            (if in_execution intent \<noteq> derived_execution ownerOnly then [ExecutionDiffers] else []) @
            (if length actions \<noteq> length (in_actions intent) then [ActionCount (length (in_actions intent)) (length actions)]
             else concat (map (\<lambda>(i, want, step). action_diffs i want step)
               (List.enumerate 0 (zip (in_actions intent) actions)))) @
            (if both_differ num_eq (in_periodSeconds intent) triggerSeconds then [PeriodDiffers] else []) in
      \<lparr>ck_ok = (diffs = []), ck_diffs = diffs,
       ck_warnings = (if branched then [BranchedGraph] else []) @ map Decoder (sm_warnings decoded)\<rparr>)"

definition isBranched :: "raw_graph \<Rightarrow> bool" where
  "isBranched g \<longleftrightarrow> list_ex (\<lambda>n.
     let handles = map e_handle (filter (\<lambda>e. e_source e = n_id n) (g_edges g)) in
     ''true'' \<in> set handles \<and> ''false'' \<in> set handles) (g_nodes g)"

text \<open>The trigger period: the first duration field with a value, of the first condition that has one.\<close>

definition node_duration :: "decoder_catalog \<Rightarrow> raw_node \<Rightarrow> jsval option" where
  "node_duration catalog n =
     (if n_type n \<noteq> ''CONDITION'' then None
      else List.find (\<lambda>v. v \<noteq> JUndef) (map (\<lambda>(field, fs). getp (n_params n) field)
        (filter (\<lambda>(field, fs). widget_is fs ''duration'')
          (case catalog (n_stepTypeId n) of None \<Rightarrow> [] | Some st \<Rightarrow> step_fields st))))"

definition extractTriggerSeconds :: "raw_graph \<Rightarrow> decoder_catalog \<Rightarrow> jsnum option" where
  "extractTriggerSeconds g catalog =
     map_option to_number (case List.map_filter (node_duration catalog) (g_nodes g) of [] \<Rightarrow> None | v # vs \<Rightarrow> Some v)"

subsection \<open>The check is exact\<close>

text \<open>What agreement means, value by value.\<close>

definition agrees :: "('a \<Rightarrow> 'b \<Rightarrow> bool) \<Rightarrow> 'a option \<Rightarrow> 'b option \<Rightarrow> bool" where
  "agrees same a b \<longleftrightarrow> a = None \<or> b = None \<or> same (the a) (the b)"

definition action_agrees :: "intent_action \<Rightarrow> decoded_step \<Rightarrow> bool" where
  "action_agrees want step \<longleftrightarrow>
     agrees (\<lambda>a b. lower a = lower b) (ia_token want) (ds_token step) \<and>
     agrees (=) (ia_amount want) (ds_amount step) \<and>
     agrees (\<lambda>a b. js_string a = js_string b) (ia_direction want) (ds_direction step)"

lemma both_differ_agrees: "both_differ same a b \<longleftrightarrow> \<not> agrees same a b"
  by (cases a; cases b) (simp_all add: both_differ_def agrees_def)

lemma action_diffs_Nil: "action_diffs i want step = [] \<longleftrightarrow> action_agrees want step"
  by (simp add: action_diffs_def action_agrees_def both_differ_agrees)

lemma enumerate_all: "(\<forall>(i, x) \<in> set (List.enumerate k xs). P x) \<longleftrightarrow> (\<forall>x \<in> set xs. P x)"
  by (induction xs arbitrary: k) auto

definition actions_of :: "decoded_summary \<Rightarrow> decoded_step list" where
  "actions_of decoded = filter (\<lambda>s. ds_category s = ''ACTION'') (sm_steps decoded)"

text \<open>The intent check accepts exactly when the declared execution is the derived one, the declared
  actions are the decoded ones in number and, wherever both sides give a token, an amount or a
  direction, in value, and the two trigger periods (if both are given) are the same number.\<close>

theorem intent_check_exact:
  "ck_ok (crossCheckIntent intent decoded ownerOnly triggerSeconds branched) \<longleftrightarrow>
     in_execution intent = derived_execution ownerOnly \<and>
     list_all2 action_agrees (in_actions intent) (actions_of decoded) \<and>
     agrees num_eq (in_periodSeconds intent) triggerSeconds"
proof -
  let ?want = "in_actions intent" and ?acts = "actions_of decoded"
  have "concat (map (\<lambda>(i, want, step). action_diffs i want step) (List.enumerate 0 (zip ?want ?acts))) = [] \<longleftrightarrow>
      (\<forall>(i, p) \<in> set (List.enumerate 0 (zip ?want ?acts)). action_agrees (fst p) (snd p))"
    by (force simp: action_diffs_Nil)
  then have "concat (map (\<lambda>(i, want, step). action_diffs i want step) (List.enumerate 0 (zip ?want ?acts))) = [] \<longleftrightarrow>
      (\<forall>p \<in> set (zip ?want ?acts). action_agrees (fst p) (snd p))"
    by (simp only: enumerate_all)
  then show ?thesis
    by (auto simp: crossCheckIntent_def Let_def both_differ_agrees actions_of_def [symmetric] list_all2_iff)
qed

section \<open>The draft store\<close>

record draft =
  dr_vaultAddress :: string
  dr_automationId :: string
  dr_rawGraph :: raw_graph
  dr_contextOverrides :: overrides
  dr_ownerOnly :: bool
  dr_summary :: decoded_summary
  dr_catalog :: decoder_catalog

type_synonym draft_store = "string \<rightharpoonup> draft \<times> int"

definition create_draft :: "int \<Rightarrow> int \<Rightarrow> string \<Rightarrow> draft \<Rightarrow> draft_store \<Rightarrow> draft_store" where
  "create_draft ttl now i d m = m(i \<mapsto> (d, now + ttl))"

definition get_draft :: "int \<Rightarrow> string \<Rightarrow> draft_store \<Rightarrow> draft_store \<times> draft option" where
  "get_draft now i m =
     (case m i of
        None \<Rightarrow> (m, None)
      | Some (d, expiresAt) \<Rightarrow> if expiresAt < now then (m(i := None), None) else (m, Some d))"

definition consume :: "int \<Rightarrow> string \<Rightarrow> draft_store \<Rightarrow> draft_store \<times> draft option" where
  "consume now i m =
     (case get_draft now i m of
        (m', None) \<Rightarrow> (m', None)
      | (m', Some d) \<Rightarrow> (m'(i := None), Some d))"

text \<open>
  A session: drafts are stored under generated ids, consumed by deployments, and the clock moves.
  The log has the consumed drafts with the time of the consumption, oldest first.
\<close>

datatype draft_op = StoreDraft string draft | Consume string | Wait nat

record draft_session =
  se_now :: int
  se_drafts :: draft_store
  se_log :: "(string \<times> draft \<times> int) list"

fun session_step :: "int \<Rightarrow> draft_op \<Rightarrow> draft_session \<Rightarrow> draft_session" where
  "session_step ttl (StoreDraft i d) s = s\<lparr>se_drafts := create_draft ttl (se_now s) i d (se_drafts s)\<rparr>"
| "session_step ttl (Consume i) s =
     (case consume (se_now s) i (se_drafts s) of
        (m, None) \<Rightarrow> s\<lparr>se_drafts := m\<rparr>
      | (m, Some d) \<Rightarrow> s\<lparr>se_drafts := m, se_log := se_log s @ [(i, d, se_now s)]\<rparr>)"
| "session_step ttl (Wait n) s = s\<lparr>se_now := se_now s + int n\<rparr>"

definition session_run :: "int \<Rightarrow> draft_op list \<Rightarrow> draft_session" where
  "session_run ttl ops = fold (session_step ttl) ops \<lparr>se_now = 0, se_drafts = Map.empty, se_log = []\<rparr>"

fun stored_id :: "draft_op \<Rightarrow> string option" where
  "stored_id (StoreDraft i d) = Some i"
| "stored_id _ = None"

definition stored_ids :: "draft_op list \<Rightarrow> string list" where
  "stored_ids ops = concat (map (\<lambda>op. case stored_id op of None \<Rightarrow> [] | Some i \<Rightarrow> [i]) ops)"

lemma session_run_snoc: "session_run ttl (ops @ [op]) = session_step ttl op (session_run ttl ops)"
  by (simp add: session_run_def)

lemma stored_ids_snoc: "stored_ids (ops @ [op]) = stored_ids ops @ (case stored_id op of None \<Rightarrow> [] | Some i \<Rightarrow> [i])"
  by (simp add: stored_ids_def)

lemma consume_cases:
  obtains (none) "consume now i m = (m, None)" | (expired) "consume now i m = (m(i := None), None)"
  | (hit) d e where "m i = Some (d, e)" "now \<le> e" "consume now i m = (m(i := None), Some d)"
proof (cases "m i")
  case None
  then show ?thesis using none by (simp add: consume_def get_draft_def)
next
  case (Some de)
  obtain d e where de: "m i = Some (d, e)" using Some by (cases de) simp
  show ?thesis
  proof (cases "e < now")
    case True
    then show ?thesis using expired de by (simp add: consume_def get_draft_def)
  next
    case False
    then show ?thesis using hit [of d e] de by (simp add: consume_def get_draft_def)
  qed
qed

text \<open>Where an entry comes from, and the invariant.\<close>

definition stored_until :: "int \<Rightarrow> draft_op list \<Rightarrow> string \<Rightarrow> draft \<Rightarrow> int \<Rightarrow> bool" where
  "stored_until ttl ops i d e \<longleftrightarrow>
     (\<exists>pre post. ops = pre @ StoreDraft i d # post \<and> e = se_now (session_run ttl pre) + ttl)"

definition session_inv :: "int \<Rightarrow> draft_op list \<Rightarrow> draft_session \<Rightarrow> bool" where
  "session_inv ttl ops s \<longleftrightarrow>
     (\<forall>i d e. se_drafts s i = Some (d, e) \<longrightarrow> stored_until ttl ops i d e) \<and>
     (\<forall>i d t. (i, d, t) \<in> set (se_log s) \<longrightarrow> (\<exists>e. stored_until ttl ops i d e \<and> t \<le> e)) \<and>
     distinct (map fst (se_log s)) \<and> (\<forall>i \<in> fst ` set (se_log s). se_drafts s i = None)"

lemma stored_until_snoc: "stored_until ttl ops i d e \<Longrightarrow> stored_until ttl (ops @ [op]) i d e"
  unfolding stored_until_def by fastforce

lemma stored_until_id: "stored_until ttl ops i d e \<Longrightarrow> i \<in> set (stored_ids ops)"
  by (auto simp: stored_until_def stored_ids_def)

lemma session_inv_snoc: "session_inv ttl ops s \<Longrightarrow> session_inv ttl (ops @ [op]) s"
  unfolding session_inv_def using stored_until_snoc by meson

lemma session_inv_drop: "session_inv ttl ops s \<Longrightarrow> session_inv ttl ops (s\<lparr>se_drafts := (se_drafts s)(i := None)\<rparr>)"
  unfolding session_inv_def by simp

lemma session_run_inv: "distinct (stored_ids ops) \<Longrightarrow> session_inv ttl ops (session_run ttl ops)"
proof (induction ops rule: rev_induct)
  case Nil
  show ?case by (simp add: session_inv_def session_run_def)
next
  case (snoc op ops)
  let ?s = "session_run ttl ops"
  have old: "session_inv ttl ops ?s" using snoc by (simp add: stored_ids_snoc)
  note inv = session_inv_snoc [OF old, of op]
  show ?case
  proof (cases op)
    case (StoreDraft i d)
    have "stored_until ttl (ops @ [op]) i d (se_now ?s + ttl)" unfolding stored_until_def StoreDraft by fastforce
    moreover have "i \<notin> fst ` set (se_log ?s)"
      using snoc.prems old stored_until_id by (fastforce simp: stored_ids_snoc StoreDraft session_inv_def)
    ultimately show ?thesis using inv unfolding session_inv_def
      by (auto simp: session_run_snoc StoreDraft create_draft_def)
  next
    case (Consume i)
    show ?thesis
    proof (rule consume_cases [of "se_now ?s" i "se_drafts ?s"])
      assume "consume (se_now ?s) i (se_drafts ?s) = (se_drafts ?s, None)"
      then show ?thesis using inv by (simp add: session_run_snoc Consume)
    next
      assume "consume (se_now ?s) i (se_drafts ?s) = ((se_drafts ?s)(i := None), None)"
      then show ?thesis using session_inv_drop [OF inv] by (simp add: session_run_snoc Consume)
    next
      fix d e
      assume hit: "se_drafts ?s i = Some (d, e)" "se_now ?s \<le> e"
        "consume (se_now ?s) i (se_drafts ?s) = ((se_drafts ?s)(i := None), Some d)"
      then have "\<exists>e. stored_until ttl (ops @ [op]) i d e \<and> se_now ?s \<le> e" "i \<notin> fst ` set (se_log ?s)"
        using inv by (auto simp: session_inv_def)
      with session_inv_drop [OF inv, of i] hit show ?thesis
        unfolding session_inv_def by (auto simp: session_run_snoc Consume)
    qed
  next
    case (Wait n)
    then show ?thesis using inv unfolding session_inv_def by (simp add: session_run_snoc)
  qed
qed

text \<open>C38. With ids that are not generated twice, every draft is handed out at most once, exactly as it was
  stored under its id, and not after its time to live.\<close>

theorem draft_consumed_once:
  assumes "distinct (stored_ids ops)"
  shows "distinct (map fst (se_log (session_run ttl ops))) \<and>
    (\<forall>(i, d, t) \<in> set (se_log (session_run ttl ops)).
       \<exists>pre post. ops = pre @ StoreDraft i d # post \<and> t \<le> se_now (session_run ttl pre) + ttl)"
  using session_run_inv [OF assms, of ttl] unfolding session_inv_def stored_until_def by fast

definition demo_recipient_graph :: "string \<Rightarrow> raw_graph" where
  "demo_recipient_graph to = \<lparr>g_nodes = [\<lparr>n_id = ''n'', n_type = ''ACTION'', n_stepTypeId = ''t'',
     n_params = [''to'' \<mapsto> JStr to]\<rparr>], g_edges = []\<rparr>"

definition demo_draft :: draft where
  "demo_draft = \<lparr>dr_vaultAddress = ''0xvault'', dr_automationId = ''a1'', dr_rawGraph = demo_recipient_graph ''0xAb'',
     dr_contextOverrides = [], dr_ownerOnly = True,
     dr_summary = \<lparr>sm_steps = [], sm_execution = Some ''owner'', sm_warnings = []\<rparr>,
     dr_catalog = [''t'' \<mapsto> transfer_step]\<rparr>"

theorem draft_consumed_once_witness:
  "se_log (session_run 9 [StoreDraft ''x'' demo_draft, Wait 5, Consume ''x'', Consume ''x'']) = [(''x'', demo_draft, 5)] \<and>
   distinct (map fst (se_log (session_run 9 [StoreDraft ''x'' demo_draft, Wait 5, Consume ''x'', Consume ''x''])))"
  using draft_consumed_once [of "[StoreDraft ''x'' demo_draft, Wait 5, Consume ''x'', Consume ''x'']" 9]
  by (simp add: stored_ids_def session_run_def create_draft_def consume_def get_draft_def)

end
