(* ===== verification/Deploy.thy ===== *)
theory Deploy
  imports Drafts
begin

text \<open>
  The deployment of a stored draft (deploy-automation.ts) and the transactions it signs (chain.ts).
  The backend's answers, the wallet's receipts and the failure of either are parameters
  (\<open>deploy_env\<close>); the model keeps the transactions sent and the registrations made. Lemmas: only the
  stored draft's vault receives transactions, in the order context then automation; nothing is
  sent unless every recipient of the stored graph is on the allowlist and every such step enabled; a
  transaction for a graph with a recipient has the user's consent to the stored summary.
\<close>

section \<open>Inspection\<close>

record deploy_config =
  dc_addressAllowlist :: "string set"
  dc_enabledSensitiveSteps :: "string set"

datatype inspect_error = EmptyRecipient string string | NotAllowed string string | NotEnabled string

definition is_recipient :: "field_schema \<Rightarrow> bool" where
  "is_recipient fs \<longleftrightarrow> resolveFieldRole (Some fs) = Some RecipientRole"

definition inspect_field ::
  "deploy_config \<Rightarrow> catalog_step \<Rightarrow> params \<Rightarrow> string \<times> field_schema \<Rightarrow> inspect_error list" where
  "inspect_field config st ps entry =
     (case entry of (field, fs) \<Rightarrow>
        if \<not> is_recipient fs then []
        else (let raw = getp ps field in
          if raw \<in> {JUndef, JNull, JStr []} then [EmptyRecipient (step_name st) field]
          else if lower (js_string raw) \<notin> dc_addressAllowlist config then [NotAllowed (step_name st) (js_string raw)]
          else []))"

text \<open>Per node: whether it has a recipient, and its errors.\<close>

definition inspect_node :: "decoder_catalog \<Rightarrow> deploy_config \<Rightarrow> raw_node \<Rightarrow> bool \<times> inspect_error list" where
  "inspect_node catalog config n =
     (case catalog (n_stepTypeId n) of
        None \<Rightarrow> (False, [])
      | Some st \<Rightarrow>
          (let sensitive = list_ex (\<lambda>(field, fs). is_recipient fs) (step_fields st) in
           (sensitive, concat (map (inspect_field config st (n_params n)) (step_fields st)) @
              (if sensitive \<and> step_name st \<notin> dc_enabledSensitiveSteps config then [NotEnabled (step_name st)] else []))))"

definition inspectGraph :: "raw_graph \<Rightarrow> decoder_catalog \<Rightarrow> deploy_config \<Rightarrow> bool \<times> inspect_error list" where
  "inspectGraph g catalog config =
     (let rs = map (inspect_node catalog config) (g_nodes g) in (list_ex fst rs, concat (map snd rs)))"

section \<open>The summary\<close>

text \<open>The texts of the program, with umlauts, arrows, bullets and dashes in ASCII.\<close>

definition quoted :: "string \<Rightarrow> string" where
  "quoted s = CHR 0x22 # s @ [CHR 0x22]"

fun warning_text :: "decode_warning \<Rightarrow> string" where
  "warning_text (UnknownStep i) = ''Unbekannte Step-Type-ID '' @ quoted i @ '' - nicht decodierbar.''"
| "warning_text (UndecodableAmount s t) = s @ '': Betrag nicht decodierbar - unbekannte Decimals fuer Token '' @ t @ ''.''"
| "warning_text (UnannotatedRecipient s f) =
     s @ '': Empfaenger-Feld '' @ quoted f @ '' ohne recipient-Rolle - fuer Decoder/Allowlist unsichtbar.''"

definition part :: "string \<Rightarrow> string option \<Rightarrow> string list" where
  "part prefix v = (case v of None \<Rightarrow> [] | Some s \<Rightarrow> if s = [] then [] else [prefix @ s])"

definition step_line :: "decoded_step \<Rightarrow> string" where
  "step_line s = ''  * '' @ join '', '' ([ds_stepType s] @ part ''Betrag '' (ds_amount s) @ part ''Token '' (ds_token s) @
     part ''-> '' (ds_recipient s) @ (case ds_direction s of None \<Rightarrow> [] | Some v \<Rightarrow> [''Richtung '' @ js_string v]))"

definition formatSummary :: "draft \<Rightarrow> bool \<Rightarrow> string" where
  "formatSummary d branched = join [CHR 0x0A]
     ([''Automation deployen ('' @ (if dr_ownerOnly d then ''Owner-only'' else ''Public - feuert autonom'') @ ''):''] @
      map step_line (sm_steps (dr_summary d)) @
      (if branched then [''  ! Verzweigter Graph - NICHT voll cross-checkbar, bitte besonders pruefen.''] else []) @
      map (\<lambda>w. ''  ! '' @ warning_text w) (sm_warnings (dr_summary d)))"

section \<open>On chain\<close>

record raw_tx =
  tx_to :: string
  tx_data :: string
  tx_gasLimit :: nat

record tx_receipt =
  tr_hash :: string
  tr_logs :: "string list list"

record enc_response =
  er_requiresContextTx :: bool
  er_contextCalldata :: "string option"
  er_automationCalldata :: "string option"
  er_ownerOnly :: bool
  er_stepCount :: nat

record automation_registration =
  rg_onChainId :: jsnum
  rg_txHash :: string
  rg_ownerOnly :: bool
  rg_stepCount :: nat

text \<open>
  What the process has sent and registered; a transaction that is sent may still revert. The
  answers may depend on everything that happened before.
\<close>

record deploy_chain =
  ch_sent :: "raw_tx list"
  ch_patches :: "(string \<times> automation_registration) list"

record deploy_env =
  de_encode :: "string \<Rightarrow> raw_graph \<Rightarrow> overrides \<Rightarrow> js_error + enc_response"
  de_receipt :: "raw_tx list \<Rightarrow> js_error + tx_receipt"
  de_patch :: "(string \<times> automation_registration) list \<Rightarrow> js_error + unit"
  de_topic :: string

type_synonym 'a chain_op = "(deploy_chain, js_error, 'a) io"

definition sendRawTransaction :: "deploy_env \<Rightarrow> raw_tx \<Rightarrow> tx_receipt chain_op" where
  "sendRawTransaction env tx c =
     (let sent = ch_sent c @ [tx] in (c\<lparr>ch_sent := sent\<rparr>, de_receipt env sent))"

definition patch_registration :: "deploy_env \<Rightarrow> string \<Rightarrow> automation_registration \<Rightarrow> unit chain_op" where
  "patch_registration env path reg c =
     (let ps = ch_patches c @ [(path, reg)] in (c\<lparr>ch_patches := ps\<rparr>, de_patch env ps))"

definition automation_path :: "draft \<Rightarrow> string" where
  "automation_path d = ''/vaults/'' @ dr_vaultAddress d @ ''/automations/'' @ dr_automationId d"

definition truthy :: "string option \<Rightarrow> bool" where
  "truthy s \<longleftrightarrow> s \<noteq> None \<and> s \<noteq> Some []"

fun created_log :: "string \<Rightarrow> string list \<Rightarrow> string option" where
  "created_log topic (t0 # t1 # ts) = (if t0 = topic \<and> t1 \<noteq> [] then Some t1 else None)"
| "created_log topic _ = None"

text \<open>The id of the first creation event; a topic that is no number throws.\<close>

definition on_chain_id :: "string \<Rightarrow> tx_receipt \<Rightarrow> js_error + jsnum option" where
  "on_chain_id topic r =
     (case List.map_filter (created_log topic) (tr_logs r) of
        [] \<Rightarrow> Inr None
      | t # ts \<Rightarrow> (case bigint_of_string t of
            None \<Rightarrow> Inl (Thrown (''Cannot convert '' @ t @ '' to a BigInt''))
          | Some i \<Rightarrow> Inr (Some (num_fin (of_int i)))))"

definition err_text :: "js_error \<Rightarrow> string" where
  "err_text err = (case err of Policy m \<Rightarrow> m | Thrown m \<Rightarrow> m | NonError m \<Rightarrow> m)"

definition send_context :: "deploy_env \<Rightarrow> draft \<Rightarrow> enc_response \<Rightarrow> string list chain_op" where
  "send_context env d enc =
     (if er_requiresContextTx enc \<and> truthy (er_contextCalldata enc) then
        ibind (sendRawTransaction env \<lparr>tx_to = dr_vaultAddress d, tx_data = the (er_contextCalldata enc), tx_gasLimit = 500000\<rparr>)
          (\<lambda>r. iret [tr_hash r])
      else iret [])"

definition send_automation :: "deploy_env \<Rightarrow> draft \<Rightarrow> enc_response \<Rightarrow> string list \<Rightarrow> tx_receipt chain_op" where
  "send_automation env d enc hashes =
     itry (sendRawTransaction env \<lparr>tx_to = dr_vaultAddress d, tx_data = the (er_automationCalldata enc), tx_gasLimit = 2000000\<rparr>)
       (\<lambda>err. ithrow (Thrown (''Automation-TX fehlgeschlagen:'' @
          (if hashes \<noteq> [] then '' Kontext-TX '' @ hd hashes @ '' ist bereits bestaetigt (Vault-Kontext mutiert) -'' else []) @
          '' '' @ err_text err)))"

definition register_automation ::
  "deploy_env \<Rightarrow> draft \<Rightarrow> enc_response \<Rightarrow> tx_receipt \<Rightarrow> jsnum \<Rightarrow> unit chain_op" where
  "register_automation env d enc auto i =
     itry (patch_registration env (automation_path d)
        \<lparr>rg_onChainId = i, rg_txHash = tr_hash auto, rg_ownerOnly = er_ownerOnly enc, rg_stepCount = er_stepCount enc\<rparr>)
       (\<lambda>err. ithrow (Thrown (''Automation on-chain deployt (onChainId='' @ num_to_string i @ '', TX '' @ tr_hash auto @
          ''), Backend-Registrierung fehlgeschlagen: '' @ err_text err @ ''. Bitte PATCH '' @ automation_path d @
          '' manuell wiederholen.'')))"

definition deployOnChain :: "deploy_env \<Rightarrow> draft \<Rightarrow> (jsnum \<times> string list) chain_op" where
  "deployOnChain env d =
     ibind (ilift (de_encode env (automation_path d @ ''/encode'') (dr_rawGraph d) (dr_contextOverrides d))) (\<lambda>enc.
     if er_requiresContextTx enc \<and> \<not> truthy (er_contextCalldata enc) then
       ithrow (Thrown ''Encode-Antwort inkonsistent: requiresContextTx=true, aber contextCalldata fehlt.'')
     else if \<not> truthy (er_automationCalldata enc) then
       ithrow (Thrown ''Encode-Antwort unvollstaendig: automationCalldata fehlt - kein Deploy.'')
     else
       ibind (send_context env d enc) (\<lambda>hashes.
       ibind (send_automation env d enc hashes) (\<lambda>auto.
       ibind (ilift (on_chain_id (de_topic env) auto)) (\<lambda>found_id.
       case found_id of
         None \<Rightarrow> ithrow (Thrown (''Automation on-chain erstellt (TX '' @ tr_hash auto @ ''), aber On-Chain-ID nicht lesbar.''))
       | Some i \<Rightarrow> ibind (register_automation env d enc auto i) (\<lambda>_. iret (i, hashes @ [tr_hash auto]))))))"

section \<open>The tool\<close>

datatype deploy_refusal = NoDraft | Rejected "inspect_error list" | GateFailed js_error

record deploy_result =
  dp_onChainId :: jsnum
  dp_txHashes :: "string list"
  dp_automationId :: string

type_synonym deploy_state = "draft_store \<times> deploy_chain gate_world"

definition deploy_action :: "string \<Rightarrow> draft \<Rightarrow> bool \<Rightarrow> guarded_action" where
  "deploy_action draftId d sensitive =
     \<lparr>ga_tool = ''deploy_automation'', ga_sensitive = sensitive, ga_summary = formatSummary d (isBranched (dr_rawGraph d)),
      ga_details = [''draftId'' \<mapsto> JStr draftId, ''vault'' \<mapsto> JStr (dr_vaultAddress d),
        ''execution'' \<mapsto> JStr (derived_execution (dr_ownerOnly d))]\<rparr>"

definition deploy_execute :: "deploy_env \<Rightarrow> draft \<Rightarrow> (deploy_result \<times> string option) chain_op" where
  "deploy_execute env d = ibind (deployOnChain env d) (\<lambda>(i, hashes).
     iret (\<lparr>dp_onChainId = i, dp_txHashes = hashes, dp_automationId = dr_automationId d\<rparr>,
       if hashes = [] then None else Some (last hashes)))"

definition deployAutomation ::
  "gate_env \<Rightarrow> deploy_env \<Rightarrow> deploy_config \<Rightarrow> int \<Rightarrow> string \<Rightarrow> (deploy_state, deploy_refusal, deploy_result) io" where
  "deployAutomation genv denv config now draftId st =
     (case st of (m, w) \<Rightarrow>
        (case consume now draftId m of
           (m', None) \<Rightarrow> ((m', w), Inl NoDraft)
         | (m', Some d) \<Rightarrow>
             (case inspectGraph (dr_rawGraph d) (dr_catalog d) config of (sensitive, errors) \<Rightarrow>
                if errors \<noteq> [] then ((m', w), Inl (Rejected errors))
                else (case guard genv (ask_user genv) (deploy_action draftId d sensitive) (deploy_execute denv d) w of
                        (w', r) \<Rightarrow> ((m', w'), map_sum GateFailed id r)))))"

section \<open>What the inspection decides\<close>

definition recipient_ok :: "deploy_config \<Rightarrow> catalog_step \<Rightarrow> jsval \<Rightarrow> bool" where
  "recipient_ok config st raw \<longleftrightarrow> raw \<notin> {JUndef, JNull, JStr []} \<and>
     lower (js_string raw) \<in> dc_addressAllowlist config \<and> step_name st \<in> dc_enabledSensitiveSteps config"

definition recipients :: "decoder_catalog \<Rightarrow> raw_graph \<Rightarrow> (catalog_step \<times> jsval) set" where
  "recipients catalog g = {(st, getp (n_params n) field) | n st field fs.
     n \<in> set (g_nodes g) \<and> catalog (n_stepTypeId n) = Some st \<and> (field, fs) \<in> set (step_fields st) \<and> is_recipient fs}"

lemma inspect_field_Nil:
  "inspect_field config st ps (field, fs) = [] \<longleftrightarrow>
     (is_recipient fs \<longrightarrow> getp ps field \<notin> {JUndef, JNull, JStr []} \<and> lower (js_string (getp ps field)) \<in> dc_addressAllowlist config)"
  by (simp add: inspect_field_def Let_def)

lemma inspect_fields_Nil:
  "(\<forall>entry \<in> set entries. inspect_field config st ps entry = []) \<longleftrightarrow>
     (\<forall>field fs. (field, fs) \<in> set entries \<longrightarrow> is_recipient fs \<longrightarrow>
        getp ps field \<notin> {JUndef, JNull, JStr []} \<and> lower (js_string (getp ps field)) \<in> dc_addressAllowlist config)"
  by (simp add: Ball_def split_paired_All inspect_field_Nil)

lemma inspect_node_Nil:
  "snd (inspect_node catalog config n) = [] \<longleftrightarrow>
     (\<forall>st field fs. catalog (n_stepTypeId n) = Some st \<and> (field, fs) \<in> set (step_fields st) \<and> is_recipient fs \<longrightarrow>
        recipient_ok config st (getp (n_params n) field))"
proof (cases "catalog (n_stepTypeId n)")
  case (Some st)
  show ?thesis
    unfolding inspect_node_def recipient_ok_def
    by (simp add: Let_def Some inspect_fields_Nil list_ex_iff Bex_def split_paired_Ex) blast
qed (simp add: inspect_node_def)

lemma inspect_node_sensitive:
  "fst (inspect_node catalog config n) \<longleftrightarrow>
     (\<exists>st field fs. catalog (n_stepTypeId n) = Some st \<and> (field, fs) \<in> set (step_fields st) \<and> is_recipient fs)"
  by (cases "catalog (n_stepTypeId n)") (auto simp: inspect_node_def Let_def list_ex_iff)

lemma inspectGraph_Nil:
  "snd (inspectGraph g catalog config) = [] \<longleftrightarrow> (\<forall>(st, raw) \<in> recipients catalog g. recipient_ok config st raw)"
  unfolding recipients_def by (simp add: inspectGraph_def Let_def inspect_node_Nil) blast

lemma inspectGraph_sensitive: "fst (inspectGraph g catalog config) \<longleftrightarrow> recipients catalog g \<noteq> {}"
  unfolding recipients_def by (simp add: inspectGraph_def Let_def list_ex_iff inspect_node_sensitive) blast

section \<open>What is sent\<close>

text \<open>Transactions are only added, all for one vault.\<close>

definition sends_to :: "string \<Rightarrow> deploy_chain \<Rightarrow> deploy_chain \<Rightarrow> bool" where
  "sends_to vault c c' \<longleftrightarrow> (\<exists>txs. ch_sent c' = ch_sent c @ txs \<and> (\<forall>tx \<in> set txs. tx_to tx = vault))"

lemma sends_to_refl: "reflp (sends_to vault)"
  by (simp add: reflp_def sends_to_def)

lemma sends_to_trans: "transp (sends_to vault)"
  unfolding transp_def sends_to_def by fastforce

lemmas sends_to_pure = always_pure [OF sends_to_refl]

lemma sends_to_send: "tx_to tx = vault \<Longrightarrow> always (sends_to vault) (sendRawTransaction env tx)"
  by (simp add: always_def sendRawTransaction_def Let_def sends_to_def)

lemma sends_to_patch: "always (sends_to vault) (patch_registration env path reg)"
  by (simp add: always_def patch_registration_def Let_def sends_to_def)

lemma deployOnChain_sends_to: "always (sends_to (dr_vaultAddress d)) (deployOnChain env d)"
  unfolding deployOnChain_def send_context_def send_automation_def register_automation_def
  by (auto intro!: always_ibind always_itry sends_to_trans sends_to_pure sends_to_send sends_to_patch split: option.split)

lemma deploy_execute_sends_to: "always (sends_to (dr_vaultAddress d)) (deploy_execute env d)"
  unfolding deploy_execute_def
  by (auto intro!: always_ibind sends_to_trans sends_to_pure deployOnChain_sends_to split: prod.split)

text \<open>The gate does to the chain what the execution does.\<close>

lemma keeps_always: "reflp R \<Longrightarrow> keeps gw_chain m \<Longrightarrow> always (\<lambda>w w'. R (gw_chain w) (gw_chain w')) m"
  by (simp add: keeps_def always_def reflpD)

lemma chain_rel: "reflp R \<Longrightarrow> reflp (\<lambda>w w'. R (gw_chain w) (gw_chain w'))"
  "transp R \<Longrightarrow> transp (\<lambda>w w'. R (gw_chain w) (gw_chain w'))"
  unfolding reflp_def transp_def by blast+

lemma keeps_snd: "keeps (\<lambda>w. (f w, g w)) m \<Longrightarrow> keeps g m"
  by (simp add: keeps_def)

lemma keeps_audit_chain: "keeps gw_chain (audit_record env a oc tx d)"
  by (rule keeps_snd [OF audit_record_keeps])

lemma perform_always:
  assumes "reflp R" "transp R" "always R execute"
  shows "always (\<lambda>w w'. R (gw_chain w) (gw_chain w')) (perform env a execute)"
proof -
  have "always (\<lambda>w w'. R (gw_chain w) (gw_chain w')) (sign execute)"
    using alwaysD [OF assms(3)] by (simp add: always_def sign_def split: prod.split)
  moreover note audit = keeps_always [OF assms(1) keeps_audit_chain]
  ultimately show ?thesis unfolding perform_def
    by (auto intro!: always_itry always_ibind chain_rel assms always_pure audit split: prod.split)
qed

context confirmation
begin

lemma guard_always:
  assumes "reflp R" "transp R" "always R execute"
  shows "always (\<lambda>w w'. R (gw_chain w) (gw_chain w')) (guard env ask a execute)"
proof -
  have "keeps gw_chain (ask a)" using frame [of a] by (simp add: keeps_def all_conj_distrib)
  note asking = keeps_always [OF assms(1) this]
  note audit = keeps_always [OF assms(1) keeps_audit_chain]
  show ?thesis unfolding guard_def
    by (auto intro!: always_itry always_ibind chain_rel assms perform_always always_pure asking audit)
qed

text \<open>With a writable log and a user who says yes, the call is the execution.\<close>

lemma guard_approved:
  assumes env: "\<not> ge_readOnly env" "ge_append env = (\<lambda>_. None)" and sens: "ga_sensitive a"
    and yes: "\<forall>v. user_view v = user_view w \<longrightarrow> (\<exists>v'. ask a v = (v', Inr True))"
    and run: "execute (gw_chain w) = (c, Inr (x, tx))"
  shows "\<exists>w'. guard env ask a execute w = (w', Inr x) \<and> gw_chain w' = c"
proof -
  obtain w1 where r1: "audit_record env a OutRequested None None w = (w1, Inr ())" "gw_chain w1 = gw_chain w"
    using audit_record_ok [OF env(2)] by metis
  obtain w2 where ask: "ask a w1 = (w2, Inr True)" using yes audit_record_view [OF r1(1)] by blast
  have "gw_chain w2 = gw_chain w" using keepsD [OF frame ask] r1 by simp
  then obtain w3 where r3: "audit_record env a OutApproved None None w2 = (w3, Inr ())" "gw_chain w3 = gw_chain w"
    using audit_record_ok [OF env(2)] by metis
  have s: "sign execute w3 = (w3\<lparr>gw_chain := c\<rparr>, Inr (x, tx))" using run r3 by (simp add: sign_def)
  obtain w4 where r4: "audit_record env a OutSuccess tx None (w3\<lparr>gw_chain := c\<rparr>) = (w4, Inr ())" "gw_chain w4 = c"
    using audit_record_ok [OF env(2)] by (metis gate_world.select_convs(7) gate_world.surjective gate_world.update_convs(7))
  have "perform env a execute w3 = (w4, Inr x)" using s r4 by (simp add: perform_def itry_def)
  then show ?thesis using env sens r1 ask r3 r4 by (simp add: guard_def itry_def)
qed

end

section \<open>Deploying is safe\<close>

lemma deployAutomation_cases:
  assumes "deployAutomation genv denv config now draftId (m, w) = ((m', w'), r)"
  obtains (unsent) "w' = w" "isl r"
  | (guarded) d e q where "m draftId = Some (d, e)" "now \<le> e" "m' = m(draftId := None)"
      "snd (inspectGraph (dr_rawGraph d) (dr_catalog d) config) = []"
      "guard genv (ask_user genv) (deploy_action draftId d (fst (inspectGraph (dr_rawGraph d) (dr_catalog d) config)))
         (deploy_execute denv d) w = (w', q)" "r = map_sum GateFailed id q"
proof (rule consume_cases [of now draftId m])
  fix d e
  assume hit: "m draftId = Some (d, e)" "now \<le> e" "consume now draftId m = (m(draftId := None), Some d)"
  obtain sens errs where i: "inspectGraph (dr_rawGraph d) (dr_catalog d) config = (sens, errs)" by fastforce
  obtain w1 q where g: "guard genv (ask_user genv) (deploy_action draftId d sens) (deploy_execute denv d) w = (w1, q)" by fastforce
  show thesis
  proof (cases "errs = []")
    case True
    with assms hit i g have "m' = m(draftId := None)" "w' = w1" "r = map_sum GateFailed id q"
      by (simp_all add: deployAutomation_def)
    moreover have "snd (inspectGraph (dr_rawGraph d) (dr_catalog d) config) = []"
      "fst (inspectGraph (dr_rawGraph d) (dr_catalog d) config) = sens" using i True by simp_all
    ultimately show thesis using hit g by (intro guarded [of d e q]) simp_all
  next
    case False
    with assms hit i have "w' = w" "r = Inl (Rejected errs)" by (simp_all add: deployAutomation_def)
    then show thesis by (intro unsent) simp_all
  qed
next
  assume "consume now draftId m = (m, None)"
  with assms have "w' = w" "r = Inl NoDraft" by (simp_all add: deployAutomation_def)
  then show thesis by (intro unsent) simp_all
next
  assume "consume now draftId m = (m(draftId := None), None)"
  with assms have "w' = w" "r = Inl NoDraft" by (simp_all add: deployAutomation_def)
  then show thesis by (intro unsent) simp_all
qed

lemma deploy_guard_sends:
  assumes "guard genv (ask_user genv) a (deploy_execute denv d) w = (w', q)"
  shows "sends_to (dr_vaultAddress d) (gw_chain w) (gw_chain w')"
proof -
  have "always (\<lambda>w w'. sends_to (dr_vaultAddress d) (gw_chain w) (gw_chain w')) (guard genv (ask_user genv) a (deploy_execute denv d))"
    unfolding ask_user_def by (rule both.composite.guard_always [OF sends_to_refl sends_to_trans deploy_execute_sends_to])
  from alwaysD [OF this assms] show ?thesis .
qed

text \<open>C2. If a deployment sends anything, then a stored, unexpired draft was taken out of the store, all
  transactions go to its vault, every recipient in its graph is present, on the allowlist and of an
  enabled step, and, when it has recipients at all, the user consented during the call to the
  summary computed from the stored draft; otherwise nothing on the chain has changed.\<close>

theorem deploy_is_consented:
  assumes "deployAutomation genv denv config now draftId (m, w) = ((m', w'), r)" "fresh_token genv w"
    "gw_chain w' \<noteq> gw_chain w"
  shows "\<exists>d e txs. m draftId = Some (d, e) \<and> now \<le> e \<and> m' draftId = None \<and>
    ch_sent (gw_chain w') = ch_sent (gw_chain w) @ txs \<and> (\<forall>tx \<in> set txs. tx_to tx = dr_vaultAddress d) \<and>
    (\<forall>(st, raw) \<in> recipients (dr_catalog d) (dr_rawGraph d). recipient_ok config st raw) \<and>
    (recipients (dr_catalog d) (dr_rawGraph d) \<noteq> {} \<longrightarrow> user_consent (deploy_action draftId d True) w w')"
proof -
  let ?i = "\<lambda>d. inspectGraph (dr_rawGraph d) (dr_catalog d) config"
  from assms(1,3) obtain d e q where d: "m draftId = Some (d, e)" "now \<le> e" "m' = m(draftId := None)" "snd (?i d) = []"
    "guard genv (ask_user genv) (deploy_action draftId d (fst (?i d))) (deploy_execute denv d) w = (w', q)"
    by (cases rule: deployAutomation_cases) auto
  have "ga_sensitive (deploy_action draftId d (fst (?i d))) \<longrightarrow>
      user_consent (deploy_action draftId d (fst (?i d))) w w'"
    using both.composite.guard_signed_consent assms(2,3) d(5) unfolding ask_user_def by metis
  then have "recipients (dr_catalog d) (dr_rawGraph d) \<noteq> {} \<longrightarrow> user_consent (deploy_action draftId d True) w w'"
    using inspectGraph_sensitive [of "dr_rawGraph d" "dr_catalog d" config] by (auto simp: deploy_action_def)
  with d(1-4) deploy_guard_sends [OF d(5)] show ?thesis unfolding inspectGraph_Nil sends_to_def by auto
qed

definition demo_config :: deploy_config where
  "demo_config = \<lparr>dc_addressAllowlist = {''0xab''}, dc_enabledSensitiveSteps = {''Transfer''}\<rparr>"

definition demo_deploy_env :: deploy_env where
  "demo_deploy_env = \<lparr>de_encode = (\<lambda>path g ov. Inr \<lparr>er_requiresContextTx = False, er_contextCalldata = None,
       er_automationCalldata = Some ''0xda'', er_ownerOnly = True, er_stepCount = 1\<rparr>),
     de_receipt = (\<lambda>sent. Inr \<lparr>tr_hash = ''0xhash'', tr_logs = [[''T'', ''7'']]\<rparr>),
     de_patch = (\<lambda>ps. Inr ()), de_topic = ''T''\<rparr>"

definition demo_deploy_world :: "deploy_chain gate_world" where
  "demo_deploy_world = \<lparr>gw_events = [], gw_browser = [], gw_client = [Reply ''accept'' [''confirm'' \<mapsto> JBool True]],
     gw_replies = [], gw_attempts = 0, gw_audit = [], gw_chain = \<lparr>ch_sent = [], ch_patches = []\<rparr>\<rparr>"

lemma demo_inspection: "inspectGraph (demo_recipient_graph ''0xAb'') [''t'' \<mapsto> transfer_step] demo_config = (True, [])"
  by code_simp

definition demo_response :: enc_response where
  "demo_response = \<lparr>er_requiresContextTx = False, er_contextCalldata = None,
     er_automationCalldata = Some ''0xda'', er_ownerOnly = True, er_stepCount = 1\<rparr>"

definition demo_receipt :: tx_receipt where
  "demo_receipt = \<lparr>tr_hash = ''0xhash'', tr_logs = [[''T'', ''7'']]\<rparr>"

definition demo_sent :: deploy_chain where
  "demo_sent = \<lparr>ch_sent = [\<lparr>tx_to = ''0xvault'', tx_data = ''0xda'', tx_gasLimit = 2000000\<rparr>], ch_patches = []\<rparr>"

lemma demo_response_parts: "\<not> er_requiresContextTx demo_response" "er_automationCalldata demo_response = Some ''0xda''"
  by (simp_all add: demo_response_def)

lemma demo_context: "send_context demo_deploy_env demo_draft demo_response c = (c, Inr [])"
  by (simp add: send_context_def demo_response_parts)

lemma demo_automation:
  "send_automation demo_deploy_env demo_draft demo_response [] \<lparr>ch_sent = [], ch_patches = []\<rparr> = (demo_sent, Inr demo_receipt)"
  unfolding send_automation_def
  by (rule itry_Inr) (simp add: sendRawTransaction_def Let_def demo_response_def
    demo_deploy_env_def demo_draft_def demo_sent_def demo_receipt_def)

lemma demo_id: "on_chain_id (de_topic demo_deploy_env) demo_receipt = Inr (Some (Fin 7))"
proof -
  have "bigint_of_string ''7'' = Some 7" by code_simp
  moreover have "num_fin 7 = Fin 7" using small_nat_num [of 7] by simp
  ultimately show ?thesis by (simp add: on_chain_id_def demo_receipt_def demo_deploy_env_def map_filter_def)
qed

lemma demo_register:
  "register_automation demo_deploy_env demo_draft demo_response demo_receipt (Fin 7) c =
     (c\<lparr>ch_patches := ch_patches c @ [(automation_path demo_draft,
        \<lparr>rg_onChainId = Fin 7, rg_txHash = ''0xhash'', rg_ownerOnly = True, rg_stepCount = 1\<rparr>)]\<rparr>, Inr ())"
  unfolding register_automation_def
  by (rule itry_Inr) (simp add: patch_registration_def Let_def demo_deploy_env_def demo_response_def demo_receipt_def)

lemma demo_deployed:
  "\<exists>c. deployOnChain demo_deploy_env demo_draft \<lparr>ch_sent = [], ch_patches = []\<rparr> = (c, Inr (Fin 7, [''0xhash''])) \<and>
     ch_sent c = [\<lparr>tx_to = ''0xvault'', tx_data = ''0xda'', tx_gasLimit = 2000000\<rparr>]"
proof -
  have "de_encode demo_deploy_env p g ov = Inr demo_response" for p g ov
    by (simp add: demo_deploy_env_def demo_response_def)
  then show ?thesis
    by (simp add: deployOnChain_def demo_context demo_automation demo_id demo_register demo_response_parts truthy_def)
      (simp add: demo_sent_def demo_receipt_def)
qed

lemma demo_execute_ok:
  "\<exists>c. deploy_execute demo_deploy_env demo_draft \<lparr>ch_sent = [], ch_patches = []\<rparr> =
     (c, Inr (\<lparr>dp_onChainId = Fin 7, dp_txHashes = [''0xhash''], dp_automationId = ''a1''\<rparr>, Some ''0xhash'')) \<and>
     ch_sent c = [\<lparr>tx_to = ''0xvault'', tx_data = ''0xda'', tx_gasLimit = 2000000\<rparr>]"
  using demo_deployed by (auto simp: deploy_execute_def demo_draft_def)

lemma demo_deployment:
  "\<exists>w'. deployAutomation demo_gate demo_deploy_env demo_config 3 ''x'' ([''x'' \<mapsto> (demo_draft, 9)], demo_deploy_world) =
      ((Map.empty, w'), Inr \<lparr>dp_onChainId = Fin 7, dp_txHashes = [''0xhash''], dp_automationId = ''a1''\<rparr>) \<and>
    ch_sent (gw_chain w') = [\<lparr>tx_to = ''0xvault'', tx_data = ''0xda'', tx_gasLimit = 2000000\<rparr>]"
proof -
  let ?a = "deploy_action ''x'' demo_draft True"
  have "ask_user demo_gate ?a w = (w\<lparr>gw_client := [], gw_replies := [(elicit_message ?a, hd (gw_client demo_deploy_world))]\<rparr>, Inr True)"
    if "user_view w = user_view demo_deploy_world" for w :: "deploy_chain gate_world"
    using that by (simp add: ask_user_def composite_ask_def itry_def elicitation_ask_def user_view_def demo_deploy_world_def getp_def)
  note yes = this
  obtain c where c: "deploy_execute demo_deploy_env demo_draft \<lparr>ch_sent = [], ch_patches = []\<rparr> =
      (c, Inr (\<lparr>dp_onChainId = Fin 7, dp_txHashes = [''0xhash''], dp_automationId = ''a1''\<rparr>, Some ''0xhash''))"
    "ch_sent c = [\<lparr>tx_to = ''0xvault'', tx_data = ''0xda'', tx_gasLimit = 2000000\<rparr>]" using demo_execute_ok by blast
  have "\<exists>w'. guard demo_gate (ask_user demo_gate) ?a (deploy_execute demo_deploy_env demo_draft) demo_deploy_world =
      (w', Inr \<lparr>dp_onChainId = Fin 7, dp_txHashes = [''0xhash''], dp_automationId = ''a1''\<rparr>) \<and> gw_chain w' = c"
    unfolding ask_user_def
  proof (rule both.composite.guard_approved)
    show "deploy_execute demo_deploy_env demo_draft (gw_chain demo_deploy_world) =
        (c, Inr (\<lparr>dp_onChainId = Fin 7, dp_txHashes = [''0xhash''], dp_automationId = ''a1''\<rparr>, Some ''0xhash''))"
      using c(1) by (simp add: demo_deploy_world_def)
  qed (use yes in \<open>auto simp: demo_gate_def deploy_action_def ask_user_def\<close>)
  moreover have "inspectGraph (dr_rawGraph demo_draft) (dr_catalog demo_draft) demo_config = (True, [])"
    using demo_inspection by (simp add: demo_draft_def)
  ultimately show ?thesis using c(2) by (auto simp: deployAutomation_def consume_def get_draft_def)
qed

theorem deploy_is_consented_witness:
  "\<exists>m' w' r. deployAutomation demo_gate demo_deploy_env demo_config 3 ''x'' ([''x'' \<mapsto> (demo_draft, 9)], demo_deploy_world) = ((m', w'), r) \<and>
     user_consent (deploy_action ''x'' demo_draft True) demo_deploy_world w'"
proof -
  obtain w' r where w': "deployAutomation demo_gate demo_deploy_env demo_config 3 ''x'' ([''x'' \<mapsto> (demo_draft, 9)], demo_deploy_world) = ((Map.empty, w'), r)"
      "ch_sent (gw_chain w') \<noteq> []" using demo_deployment by fastforce
  have "fresh_token demo_gate demo_deploy_world" "gw_chain w' \<noteq> gw_chain demo_deploy_world"
    using w'(2) by (auto simp: fresh_token_def asked_tokens_def demo_deploy_world_def)
  moreover have "recipients (dr_catalog demo_draft) (dr_rawGraph demo_draft) \<noteq> {}"
    using inspectGraph_sensitive [of "dr_rawGraph demo_draft" "dr_catalog demo_draft" demo_config] demo_inspection
    by (simp add: demo_draft_def)
  ultimately have "user_consent (deploy_action ''x'' demo_draft True) demo_deploy_world w'"
    using deploy_is_consented [OF w'(1)] by auto
  with w'(1) show ?thesis by blast
qed

section \<open>What a deployment reports\<close>

definition planned_txs :: "draft \<Rightarrow> enc_response \<Rightarrow> raw_tx list" where
  "planned_txs d enc =
     (if er_requiresContextTx enc
      then [\<lparr>tx_to = dr_vaultAddress d, tx_data = the (er_contextCalldata enc), tx_gasLimit = 500000\<rparr>] else []) @
     [\<lparr>tx_to = dr_vaultAddress d, tx_data = the (er_automationCalldata enc), tx_gasLimit = 2000000\<rparr>]"

lemma send_context_eq:
  assumes "er_requiresContextTx enc \<longrightarrow> truthy (er_contextCalldata enc)"
  obtains r where "send_context env d enc c = (c\<lparr>ch_sent := ch_sent c @ butlast (planned_txs d enc)\<rparr>, r)"
    "\<forall>hashes. r = Inr hashes \<longrightarrow> length hashes = length (butlast (planned_txs d enc))"
proof (cases "er_requiresContextTx enc")
  case True
  show ?thesis
    by (rule that [of "map_sum id (\<lambda>r. [tr_hash r]) (de_receipt env (ch_sent c @ butlast (planned_txs d enc)))"])
      (use assms True in \<open>auto simp: send_context_def sendRawTransaction_def Let_def ibind_def planned_txs_def map_sum_def split: sum.split\<close>)
qed (use that in \<open>simp add: send_context_def planned_txs_def\<close>)

lemma send_automation_eq:
  obtains r where "send_automation env d enc hashes c = (c\<lparr>ch_sent := ch_sent c @ [last (planned_txs d enc)]\<rparr>, r)"
proof (cases "de_receipt env (ch_sent c @ [last (planned_txs d enc)])")
  case (Inl e)
  show ?thesis
    by (rule that) (use Inl in \<open>simp add: send_automation_def sendRawTransaction_def Let_def itry_def planned_txs_def\<close>)
next
  case (Inr auto)
  show ?thesis
    by (rule that) (use Inr in \<open>simp add: send_automation_def sendRawTransaction_def Let_def itry_def planned_txs_def\<close>)
qed

lemma planned_split: "planned_txs d enc = butlast (planned_txs d enc) @ [last (planned_txs d enc)]"
  by (simp add: planned_txs_def)

lemma register_automation_eq:
  "fst (register_automation env d enc auto i c) = c\<lparr>ch_patches := ch_patches c @ [(automation_path d,
     \<lparr>rg_onChainId = i, rg_txHash = tr_hash auto, rg_ownerOnly = er_ownerOnly enc, rg_stepCount = er_stepCount enc\<rparr>)]\<rparr>"
  unfolding register_automation_def itry_def
  by (simp add: patch_registration_def Let_def split: sum.split)

lemma deployOnChain_sent:
  assumes run: "deployOnChain env d c = (c', r)"
    and enc: "de_encode env (automation_path d @ ''/encode'') (dr_rawGraph d) (dr_contextOverrides d) = Inr enc"
  obtains (unsent) "isl r" "c' = c"
  | (early) "isl r" "ch_sent c' = ch_sent c @ butlast (planned_txs d enc)"
  | (all) "ch_sent c' = ch_sent c @ planned_txs d enc" "isl r"
  | (reported) i hashes and auto :: tx_receipt where "r = Inr (i, hashes @ [tr_hash auto])" "ch_sent c' = ch_sent c @ planned_txs d enc"
      "length hashes = length (butlast (planned_txs d enc))"
      "ch_patches c' = ch_patches c @ [(automation_path d, \<lparr>rg_onChainId = i, rg_txHash = tr_hash auto,
         rg_ownerOnly = er_ownerOnly enc, rg_stepCount = er_stepCount enc\<rparr>)]"
proof (cases "(er_requiresContextTx enc \<longrightarrow> truthy (er_contextCalldata enc)) \<and> truthy (er_automationCalldata enc)")
  case False
  with run enc have "isl r \<and> c' = c" by (auto simp: deployOnChain_def split: if_splits)
  then show ?thesis using unsent by blast
next
  case True
  let ?c1 = "c\<lparr>ch_sent := ch_sent c @ butlast (planned_txs d enc)\<rparr>"
  let ?c2 = "c\<lparr>ch_sent := ch_sent c @ planned_txs d enc\<rparr>"
  obtain r1 where r1: "send_context env d enc c = (?c1, r1)"
    "\<forall>hashes. r1 = Inr hashes \<longrightarrow> length hashes = length (butlast (planned_txs d enc))" using True send_context_eq by blast
  note start = run [unfolded deployOnChain_def] enc True r1(1)
  show ?thesis
  proof (cases r1)
    case (Inl e)
    with start have "r = Inl e" "c' = ?c1" by auto
    then show ?thesis by (intro early) simp_all
  next
    case (Inr hashes)
    obtain r2 where r2: "send_automation env d enc hashes ?c1 = (?c2, r2)"
      using send_automation_eq [of env d enc hashes ?c1] planned_split [of d enc] by (metis (no_types, lifting) append_assoc
        deploy_chain.fold_congs(1) deploy_chain.select_convs(1) deploy_chain.surjective deploy_chain.update_convs(1))
    note start2 = start Inr r2
    show ?thesis
    proof (cases r2)
      case (Inl e)
      with start2 have "r = Inl e" "c' = ?c2" by auto
      then show ?thesis by (intro all) simp_all
    next
      case auto: (Inr auto)
      consider (unread) "c' = ?c2" "isl r" | (read) i where "on_chain_id (de_topic env) auto = Inr (Some i)"
        using start2 auto by (cases "on_chain_id (de_topic env) auto") (auto split: option.splits)
      then show ?thesis
      proof cases
        case unread
        then show ?thesis by (intro all) simp_all
      next
        case read
        obtain c3 r3 where r3: "register_automation env d enc auto i ?c2 = (c3, r3)" by fastforce
        note c3 = register_automation_eq [of env d enc auto i ?c2, unfolded r3]
        show ?thesis
        proof (cases r3)
          case (Inl e)
          with start2 auto read r3 have "r = Inl e" "c' = c3" by auto
          with c3 show ?thesis by (intro all) simp_all
        next
          case (Inr u)
          with start2 auto read r3 have "r = Inr (i, hashes @ [tr_hash auto])" "c' = c3" by auto
          with c3 r1(2) \<open>r1 = Inr hashes\<close> show ?thesis by (intro reported [where i = i and auto = auto and hashes = hashes]) simp_all
        qed
      qed
    qed
  qed
qed



end
