(* ===== verification/Triggers.thy ===== *)
theory Triggers
  imports Encoding
begin

text \<open>
  The trigger statuses of a vault's automations (trigger-status.service.ts). Reads of the chain, the
  ABI decoder and the clock are parameters (\<open>trigger_env\<close>; \<open>None\<close> when a read or a decoding
  throws); the state is the service's cache. Dates are held as their time value in milliseconds, and
  times are integers (below 2^53, where doubles are exact). Lemmas: a read has one status per
  automation, in order; a timer or an interval is met exactly when its time has come; an answer from
  the cache is a read that ended less than the cache's life before.
\<close>

section \<open>Statuses\<close>

datatype trigger_type = IntervalTrigger | TimerTrigger | BalanceTrigger | OwnerOnlyTrigger | UnknownTrigger

record trigger_status =
  ts_type :: trigger_type
  ts_met :: bool
  ts_description :: string
  ts_nextFireAt :: "int option"

record automation_status =
  as_onChainId :: nat
  as_active :: bool
  as_triggerStatus :: trigger_status

record named_row = step_row +
  st_name :: string

record trigger_env =
  te_count :: "string \<Rightarrow> nat option"
  te_stepTypes :: "named_row list"
  te_context :: "string \<Rightarrow> string list option"
  te_automation :: "string \<Rightarrow> nat \<Rightarrow> (bool \<times> encoded_step list) option"
  te_isTriggerMet :: "string \<Rightarrow> nat \<Rightarrow> bool option"
  te_pair :: "string \<Rightarrow> (int \<times> nat) option"
  te_word :: "string \<Rightarrow> int option"

definition plain_status :: "trigger_type \<Rightarrow> bool \<Rightarrow> string \<Rightarrow> trigger_status" where
  "plain_status type met d = \<lparr>ts_type = type, ts_met = met, ts_description = d, ts_nextFireAt = None\<rparr>"

definition formatDuration :: "int \<Rightarrow> string" where
  "formatDuration seconds =
     (if seconds < 60 then show_int seconds @ ''s''
      else if seconds < 3600 then show_int (seconds div 60) @ ''m''
      else (let h = seconds div 3600; m = (seconds mod 3600) div 60 in
        if 0 < m then show_int h @ ''h '' @ show_int m @ ''m'' else show_int h @ ''h''))"

text \<open>The largest time value of a date; beyond it \<open>toISOString\<close> throws.\<close>

definition MAX_DATE :: int where
  "MAX_DATE = 8640000000000000"

text \<open>A trigger that fires at \<open>fireTime\<close>; \<open>None\<close> when the date is out of range.\<close>

definition timed_status :: "trigger_type \<Rightarrow> int \<Rightarrow> int \<Rightarrow> trigger_status option" where
  "timed_status type now fireTime =
     (if fireTime \<le> now then Some (plain_status type True ''Ready to fire'')
      else if MAX_DATE < fireTime * 1000 then None
      else Some \<lparr>ts_type = type, ts_met = False, ts_description = ''Fires in '' @ formatDuration (fireTime - now),
        ts_nextFireAt = Some (fireTime * 1000)\<rparr>)"

definition slot_value :: "string list \<Rightarrow> nat \<Rightarrow> string option" where
  "slot_value ctx i = (if length ctx \<le> i \<or> ctx ! i = [] \<or> ctx ! i = ''0x'' then None else Some (ctx ! i))"

definition interpretInterval :: "trigger_env \<Rightarrow> int \<Rightarrow> string \<Rightarrow> string list \<Rightarrow> trigger_status" where
  "interpretInterval env now data ctx =
     (let failed = plain_status IntervalTrigger False ''Unable to decode'' in
      case te_pair env data of
        None \<Rightarrow> failed
      | Some (_, slot) \<Rightarrow>
          (case slot_value ctx slot of
             None \<Rightarrow> plain_status IntervalTrigger False ''Not initialized - set context slot with initial timestamp''
           | Some w \<Rightarrow>
               (case te_word env w of
                  None \<Rightarrow> failed
                | Some nextTime \<Rightarrow>
                    if nextTime = 0 then plain_status IntervalTrigger False ''Not initialized - context slot is 0''
                    else (case timed_status IntervalTrigger now nextTime of None \<Rightarrow> failed | Some s \<Rightarrow> s))))"

definition interpretTimer :: "trigger_env \<Rightarrow> int \<Rightarrow> string \<Rightarrow> string list \<Rightarrow> trigger_status" where
  "interpretTimer env now data ctx =
     (let stopped = plain_status TimerTrigger False ''Stopped'' in
      case te_pair env data of
        None \<Rightarrow> stopped
      | Some (delta, slot) \<Rightarrow>
          (case slot_value ctx slot of
             None \<Rightarrow> stopped
           | Some w \<Rightarrow>
               (case te_word env w of
                  None \<Rightarrow> stopped
                | Some startTime \<Rightarrow>
                    if startTime = 0 then stopped
                    else (case timed_status TimerTrigger now (startTime + delta) of None \<Rightarrow> stopped | Some s \<Rightarrow> s))))"

definition condition_text :: "bool \<Rightarrow> string" where
  "condition_text met = (if met then ''Condition met'' else ''Condition not met'')"

definition interpretBalance :: "trigger_env \<Rightarrow> string \<Rightarrow> nat \<Rightarrow> trigger_status" where
  "interpretBalance env vault i =
     (case te_isTriggerMet env vault i of
        None \<Rightarrow> plain_status BalanceTrigger False ''Unable to check''
      | Some met \<Rightarrow> plain_status BalanceTrigger met (condition_text met))"

definition unknown_status :: "trigger_env \<Rightarrow> string \<Rightarrow> nat \<Rightarrow> trigger_status" where
  "unknown_status env vault i =
     (let met = or_else (te_isTriggerMet env vault i) False in plain_status UnknownTrigger met (condition_text met))"

definition interpretTrigger ::
  "trigger_env \<Rightarrow> int \<Rightarrow> string \<Rightarrow> string \<Rightarrow> string list \<Rightarrow> string \<Rightarrow> nat \<Rightarrow> trigger_status" where
  "interpretTrigger env now name data ctx vault i =
     (if name = ''Interval Condition'' then interpretInterval env now data ctx
      else if name = ''Timer Condition'' then interpretTimer env now data ctx
      else if name = ''Token Balance Condition'' then interpretBalance env vault i
      else unknown_status env vault i)"

section \<open>Reading a vault\<close>

definition addressToType :: "named_row list \<Rightarrow> (string \<rightharpoonup> named_row)" where
  "addressToType rows = by_key (\<lambda>st. lower (st_contractAddress st)) rows"

definition automation_status_of :: "trigger_env \<Rightarrow> int \<Rightarrow> string \<Rightarrow> string list \<Rightarrow> nat \<Rightarrow> automation_status" where
  "automation_status_of env now vault ctx i =
     (case te_automation env vault i of
        None \<Rightarrow> \<lparr>as_onChainId = i, as_active = False, as_triggerStatus = plain_status UnknownTrigger False ''Error reading status''\<rparr>
      | Some (active, steps) \<Rightarrow>
          \<lparr>as_onChainId = i, as_active = active, as_triggerStatus =
             (case steps of
                [] \<Rightarrow> plain_status UnknownTrigger False ''No steps''
              | step0 # _ \<Rightarrow>
                  if s_stepType step0 = 1 then plain_status OwnerOnlyTrigger False ''Owner-only (no trigger)''
                  else (case addressToType (te_stepTypes env) (lower (s_target step0)) of
                          None \<Rightarrow> unknown_status env vault i
                        | Some st \<Rightarrow> interpretTrigger env now (st_name st) (s_data step0) ctx vault i))\<rparr>)"

definition read_statuses :: "trigger_env \<Rightarrow> int \<Rightarrow> string \<Rightarrow> automation_status list option" where
  "read_statuses env now vault =
     (case te_count env vault of
        None \<Rightarrow> None
      | Some count \<Rightarrow> Some (map (automation_status_of env now vault (or_else (te_context env vault) [])) [0..<count]))"

section \<open>The cache\<close>

definition CACHE_TTL :: int where
  "CACHE_TTL = 30000"

record cache_entry =
  ce_statuses :: "automation_status list"
  ce_expiresAt :: int

type_synonym status_cache = "string \<rightharpoonup> cache_entry"

text \<open>A call starts at \<open>start\<close> and has finished reading at \<open>stop\<close> (milliseconds); it returns
  \<open>None\<close> when the number of automations cannot be read, and does not cache an empty list.\<close>

definition cached_statuses :: "int \<Rightarrow> string \<Rightarrow> status_cache \<Rightarrow> automation_status list option" where
  "cached_statuses start vault cache =
     (case cache vault of
        None \<Rightarrow> None
      | Some e \<Rightarrow> if start < ce_expiresAt e then Some (ce_statuses e) else None)"

definition getStatuses ::
  "trigger_env \<Rightarrow> int \<Rightarrow> int \<Rightarrow> string \<Rightarrow> status_cache \<Rightarrow> status_cache \<times> automation_status list option" where
  "getStatuses env start stop vault cache =
     (case cached_statuses start vault cache of
        Some ss \<Rightarrow> (cache, Some ss)
      | None \<Rightarrow>
          (case read_statuses env (start div 1000) vault of
             None \<Rightarrow> (cache, None)
           | Some ss \<Rightarrow>
               (if ss = [] then cache else cache(vault \<mapsto> \<lparr>ce_statuses = ss, ce_expiresAt = stop + CACHE_TTL\<rparr>), Some ss)))"

text \<open>A history of calls; the answers are recorded with the call that gave them.\<close>

record status_call =
  sc_env :: trigger_env
  sc_start :: int
  sc_stop :: int
  sc_vault :: string

definition status_step ::
  "status_call \<Rightarrow> status_cache \<times> (status_call \<times> automation_status list option) list \<Rightarrow>
   status_cache \<times> (status_call \<times> automation_status list option) list" where
  "status_step c st =
     (case getStatuses (sc_env c) (sc_start c) (sc_stop c) (sc_vault c) (fst st) of (cache, r) \<Rightarrow> (cache, snd st @ [(c, r)]))"

definition status_run ::
  "status_call list \<Rightarrow> status_cache \<times> (status_call \<times> automation_status list option) list" where
  "status_run calls = fold status_step calls (Map.empty, [])"

section \<open>Lemmas\<close>

lemma getStatuses_cases:
  obtains (cached) e where "cache vault = Some e" "start < ce_expiresAt e"
      "getStatuses env start stop vault cache = (cache, Some (ce_statuses e))"
  | (failed) "getStatuses env start stop vault cache = (cache, None)"
  | (read) ss cache' where "read_statuses env (start div 1000) vault = Some ss"
      "getStatuses env start stop vault cache = (cache', Some ss)"
      "cache' = cache \<or> cache' = cache(vault \<mapsto> \<lparr>ce_statuses = ss, ce_expiresAt = stop + CACHE_TTL\<rparr>)"
proof (cases "cached_statuses start vault cache")
  case (Some ss)
  then show ?thesis using cached by (auto simp: getStatuses_def cached_statuses_def split: option.splits if_splits)
next
  case None
  then show ?thesis using failed read
    by (cases "read_statuses env (start div 1000) vault") (simp_all add: getStatuses_def split: if_splits)
qed

text \<open>An answer is the read of its own call, or of an earlier one that ended less than the life ago.\<close>

definition read_by :: "status_call \<Rightarrow> string \<Rightarrow> automation_status list \<Rightarrow> bool" where
  "read_by c vault ss \<longleftrightarrow> sc_vault c = vault \<and> read_statuses (sc_env c) (sc_start c div 1000) vault = Some ss"

definition status_inv :: "status_call list \<Rightarrow> status_cache \<Rightarrow> bool" where
  "status_inv calls cache \<longleftrightarrow> (\<forall>vault e. cache vault = Some e \<longrightarrow>
     (\<exists>c \<in> set calls. read_by c vault (ce_statuses e) \<and> ce_expiresAt e = sc_stop c + CACHE_TTL))"

definition answer_ok :: "status_call list \<Rightarrow> status_call \<Rightarrow> automation_status list option \<Rightarrow> bool" where
  "answer_ok calls c r \<longleftrightarrow> (\<forall>ss. r = Some ss \<longrightarrow> read_by c (sc_vault c) ss \<or>
     (\<exists>c0 \<in> set calls. read_by c0 (sc_vault c) ss \<and> sc_start c < sc_stop c0 + CACHE_TTL))"

lemma status_invI: "status_inv calls cache \<Longrightarrow> c \<in> set calls \<Longrightarrow> read_by c vault (ce_statuses e) \<Longrightarrow>
    ce_expiresAt e = sc_stop c + CACHE_TTL \<Longrightarrow> status_inv calls (cache(vault \<mapsto> e))"
  unfolding status_inv_def by (metis fun_upd_apply option.inject)

lemma status_inv_mono: "status_inv calls cache \<Longrightarrow> status_inv (calls @ [c]) cache"
  unfolding status_inv_def by (metis Un_iff set_append)

lemma answer_ok_mono: "answer_ok calls c r \<Longrightarrow> answer_ok (calls @ [c']) c r"
  unfolding answer_ok_def by (metis Un_iff set_append)

lemma status_step_inv:
  assumes inv: "status_inv calls cache" and run: "getStatuses (sc_env c) (sc_start c) (sc_stop c) (sc_vault c) cache = (cache', r)"
  shows "status_inv (calls @ [c]) cache' \<and> answer_ok calls c r"
proof (rule getStatuses_cases [of cache "sc_vault c" "sc_start c" "sc_env c" "sc_stop c"])
  fix e
  assume a: "cache (sc_vault c) = Some e" "sc_start c < ce_expiresAt e"
    "getStatuses (sc_env c) (sc_start c) (sc_stop c) (sc_vault c) cache = (cache, Some (ce_statuses e))"
  obtain c0 where "c0 \<in> set calls" "read_by c0 (sc_vault c) (ce_statuses e)" "ce_expiresAt e = sc_stop c0 + CACHE_TTL"
    using inv a(1) unfolding status_inv_def by blast
  then have "answer_ok calls c r" using a(2,3) run unfolding answer_ok_def by auto
  then show ?thesis using status_inv_mono [OF inv] a(3) run by simp
next
  assume "getStatuses (sc_env c) (sc_start c) (sc_stop c) (sc_vault c) cache = (cache, None)"
  then show ?thesis using status_inv_mono [OF inv] run by (simp add: answer_ok_def)
next
  fix ss cache1
  assume a: "read_statuses (sc_env c) (sc_start c div 1000) (sc_vault c) = Some ss"
    "getStatuses (sc_env c) (sc_start c) (sc_stop c) (sc_vault c) cache = (cache1, Some ss)"
    "cache1 = cache \<or> cache1 = cache(sc_vault c \<mapsto> \<lparr>ce_statuses = ss, ce_expiresAt = sc_stop c + CACHE_TTL\<rparr>)"
  have rb: "read_by c (sc_vault c) ss" using a(1) by (simp add: read_by_def)
  have "status_inv (calls @ [c]) cache1"
    using a(3) status_inv_mono [OF inv, of c] rb by (auto intro: status_invI)
  then show ?thesis using a(2) run rb by (simp add: answer_ok_def)
qed

lemma status_run_snoc: "status_run (calls @ [c]) = status_step c (status_run calls)"
  by (simp add: status_run_def)

lemma status_run_inv:
  "status_inv calls (fst (status_run calls)) \<and> map fst (snd (status_run calls)) = calls \<and>
   (\<forall>i < length calls. answer_ok (take i calls) (calls ! i) (snd (snd (status_run calls) ! i)))"
proof (induction calls rule: rev_induct)
  case Nil
  show ?case by (simp add: status_run_def status_inv_def)
next
  case (snoc c calls)
  obtain cache answers where st: "status_run calls = (cache, answers)" by fastforce
  obtain cache' r where g: "getStatuses (sc_env c) (sc_start c) (sc_stop c) (sc_vault c) cache = (cache', r)" by fastforce
  have next_state: "status_run (calls @ [c]) = (cache', answers @ [(c, r)])"
    by (simp add: status_run_snoc status_step_def st g)
  have len: "length answers = length calls" using snoc st by (metis length_map snd_conv)
  show ?case
    using snoc st status_step_inv [OF _ g, of calls] len unfolding next_state
    by (auto simp: nth_append less_Suc_eq)
qed

section \<open>Properties\<close>

text \<open>Over any history of calls, every list of statuses that is returned is the read made by its own
  call or by an earlier call for the same vault that ended less than 30 seconds before; a read has
  exactly one status for each automation of the vault, in the order of the ids.\<close>

theorem statuses_fresh:
  assumes "i < length calls" "snd (snd (status_run calls) ! i) = Some ss"
  shows "\<exists>c \<in> set (take (i + 1) calls). sc_vault c = sc_vault (calls ! i) \<and>
    (c = calls ! i \<or> sc_start (calls ! i) < sc_stop c + 30000) \<and>
    read_statuses (sc_env c) (sc_start c div 1000) (sc_vault c) = Some ss \<and>
    te_count (sc_env c) (sc_vault c) = Some (length ss) \<and> map as_onChainId ss = [0..<length ss]"
proof -
  have count: "te_count (sc_env c) (sc_vault c) = Some (length ss) \<and> map as_onChainId ss = [0..<length ss]"
    if "read_statuses (sc_env c) (sc_start c div 1000) (sc_vault c) = Some ss" for c
    using that by (auto simp: read_statuses_def automation_status_of_def comp_def split: option.splits prod.splits
      intro!: map_idI)
  have "answer_ok (take i calls) (calls ! i) (Some ss)" using status_run_inv [of calls] assms by metis
  then consider "read_by (calls ! i) (sc_vault (calls ! i)) ss"
    | c0 where "c0 \<in> set (take i calls)" "read_by c0 (sc_vault (calls ! i)) ss" "sc_start (calls ! i) < sc_stop c0 + 30000"
    unfolding answer_ok_def CACHE_TTL_def by blast
  then show ?thesis
  proof cases
    case 1
    then show ?thesis using count assms(1)
      by (intro bexI [of _ "calls ! i"]) (auto simp: read_by_def take_Suc_conv_app_nth)
  next
    case 2
    then have "read_statuses (sc_env c0) (sc_start c0 div 1000) (sc_vault c0) = Some ss" by (simp add: read_by_def)
    from this count [OF this] 2 assms(1) show ?thesis
      by (intro bexI [of _ c0]) (simp_all add: read_by_def take_Suc_conv_app_nth)
  qed
qed

definition demo_triggers :: trigger_env where
  "demo_triggers = \<lparr>te_count = (\<lambda>v. Some 1), te_stepTypes = [], te_context = (\<lambda>v. None),
     te_automation = (\<lambda>v i. None), te_isTriggerMet = (\<lambda>v i. None), te_pair = (\<lambda>d. None), te_word = (\<lambda>d. None)\<rparr>"

definition demo_call :: "int \<Rightarrow> status_call" where
  "demo_call t = \<lparr>sc_env = demo_triggers, sc_start = t, sc_stop = t + 5, sc_vault = ''0xv''\<rparr>"

theorem statuses_fresh_witness:
  "\<exists>ss. snd (snd (status_run [demo_call 0, demo_call 1000]) ! 1) = Some ss \<and> map as_onChainId ss = [0]"
proof -
  have "\<exists>ss. snd (snd (status_run [demo_call 0, demo_call 1000]) ! 1) = Some ss \<and> length ss = 1"
    by (simp add: status_run_def status_step_def getStatuses_def cached_statuses_def read_statuses_def
        demo_call_def demo_triggers_def CACHE_TTL_def)
  then obtain ss where ss: "snd (snd (status_run [demo_call 0, demo_call 1000]) ! 1) = Some ss" "length ss = 1" by blast
  with statuses_fresh [of 1 "[demo_call 0, demo_call 1000]" ss] show ?thesis by auto
qed

text \<open>A timer (with a decodable configuration, a set start word and a date in range) is reported as
  met exactly from the start time plus its delta on, and an interval exactly from its stored next
  time on; before, both announce the exact time.\<close>

theorem timed_triggers_exact:
  assumes "te_pair env data = Some (delta, slot)" "slot < length ctx" "ctx ! slot \<notin> {[], ''0x''}"
    and "te_word env (ctx ! slot) = Some t" "t \<noteq> 0"
  shows "(ts_met (interpretTimer env now data ctx) \<longleftrightarrow> t + delta \<le> now) \<and>
    (ts_met (interpretInterval env now data ctx) \<longleftrightarrow> t \<le> now) \<and>
    (now < t + delta \<and> (t + delta) * 1000 \<le> MAX_DATE \<longrightarrow>
       ts_nextFireAt (interpretTimer env now data ctx) = Some ((t + delta) * 1000)) \<and>
    (now < t \<and> t * 1000 \<le> MAX_DATE \<longrightarrow> ts_nextFireAt (interpretInterval env now data ctx) = Some (t * 1000))"
  using assms by (simp add: interpretTimer_def interpretInterval_def slot_value_def timed_status_def plain_status_def)

theorem timed_triggers_exact_witness:
  "ts_met (interpretTimer (demo_triggers\<lparr>te_pair := (\<lambda>d. Some (60, 0)), te_word := (\<lambda>d. Some 100)\<rparr>) 160 ''0xd'' [''0x64''])"
  using timed_triggers_exact [of "demo_triggers\<lparr>te_pair := (\<lambda>d. Some (60, 0)), te_word := (\<lambda>d. Some 100)\<rparr>" "''0xd''" 60 0 "[''0x64'']" 100 160]
  by simp

end
