(* ===== verification/Automations.thy ===== *)
theory Automations
  imports Triggers
begin

text \<open>
  The backend's vault and automation API: ownership (vault-access.service.ts, vault-owner.guard.ts),
  vault registration and labels (vault.service.ts), the automation rows and their reconciliation with
  the chain (automation.service.ts), and the routes (vault.controller.ts, automation.controller.ts).
  The state is the two tables, the slot directories and the status cache; ethers, the chain and the
  generated ids are parameters. Prisma's promises are modelled as it documents them: an update or a
  delete of a missing row throws, and so does a write that breaks a unique index. Lemmas: every
  request keeps the tables well formed, a request acts only for the owner of the addressed vault, and
  what the routes promise about deletion and reconciliation, with the cases in which they do not.
\<close>

section \<open>Tables\<close>

record vault_record =
  vr_id :: string
  vr_address :: string
  vr_chainId :: nat
  vr_ownerAddress :: string
  vr_depositToken :: string
  vr_label :: string
  vr_createdAtBlock :: nat
  vr_txHash :: string

text \<open>The editor state is JSON; its nodes and edges may be missing.\<close>

record state_node = raw_node +
  sn_contractAddress :: "string option"

record stored_editor_state =
  es_nodes :: "state_node list option"
  es_edges :: "gedge list option"

record automation_row =
  a_id :: string
  a_vaultId :: string
  a_onChainId :: "nat option"
  a_label :: "string option"
  a_description :: "string option"
  a_ownerOnly :: bool
  a_editorState :: "stored_editor_state option"
  a_stepCount :: nat
  a_isDraft :: bool

text \<open>The rows are in the order of their creation.\<close>

record backend =
  bk_vaults :: "vault_record list"
  bk_automations :: "automation_row list"
  bk_slots :: slot_db
  bk_cache :: status_cache

record backend_env =
  be_getAddress :: "string \<Rightarrow> string option"
  be_newId :: string
  be_rpcUrl :: bool
  be_factoryAddress :: bool
  be_isRegistered :: "string \<Rightarrow> bool option"
  be_owner :: "string \<Rightarrow> string option"
  be_lib :: encode_lib
  be_triggers :: trigger_env
  be_start :: int
  be_stop :: int

datatype api_error =
    ApiNotFound string
  | ApiForbidden string
  | ApiConflict string
  | ApiBadRequest string
  | ApiEncode encode_error
  | ApiInternal string

type_synonym 'a api = "(backend, api_error, 'a) io"

section \<open>Ownership\<close>

definition vault_at :: "backend \<Rightarrow> string \<Rightarrow> vault_record option" where
  "vault_at b address = List.find (\<lambda>v. vr_address v = address) (bk_vaults b)"

definition assertOwnership :: "backend_env \<Rightarrow> string option \<Rightarrow> string option \<Rightarrow> backend \<Rightarrow> api_error + vault_record" where
  "assertOwnership env vaultAddress userAddress b =
     (case (be_getAddress env (or_else vaultAddress []), be_getAddress env (or_else userAddress [])) of
        (Some vault, Some user) \<Rightarrow>
          (case vault_at b vault of
             None \<Rightarrow> Inl (ApiNotFound ''VAULT_NOT_FOUND'')
           | Some v \<Rightarrow>
               (case be_getAddress env (vr_ownerAddress v) of
                  None \<Rightarrow> Inl (ApiInternal ''invalid address'')
                | Some owner \<Rightarrow> if owner \<noteq> user then Inl (ApiForbidden ''NOT_VAULT_OWNER'') else Inr v))
      | _ \<Rightarrow> Inl (ApiNotFound ''VAULT_NOT_FOUND''))"

definition canActivate :: "backend_env \<Rightarrow> string option \<Rightarrow> string option \<Rightarrow> vault_record api" where
  "canActivate env vaultAddress userAddress b =
     (if vaultAddress \<in> {None, Some []} then (b, Inl (ApiNotFound ''VAULT_NOT_FOUND''))
      else (b, assertOwnership env vaultAddress userAddress b))"

section \<open>Vaults\<close>

record create_vault_dto =
  cv_address :: string
  cv_chainId :: nat
  cv_depositToken :: string
  cv_txHash :: string
  cv_createdAtBlock :: nat
  cv_label :: "string option"

definition label_taken :: "backend \<Rightarrow> string \<Rightarrow> string \<Rightarrow> vault_record option" where
  "label_taken b owner label = List.find (\<lambda>v. vr_ownerAddress v = owner \<and> vr_label v = label) (bk_vaults b)"

definition validateOnChain :: "backend_env \<Rightarrow> string \<Rightarrow> string \<Rightarrow> api_error + unit" where
  "validateOnChain env address expectedOwner =
     (if \<not> be_rpcUrl env \<or> \<not> be_factoryAddress env then Inl (ApiBadRequest ''ON_CHAIN_VALIDATION_NOT_CONFIGURED'')
      else case be_isRegistered env address of
        None \<Rightarrow> Inl (ApiInternal ''call failed'')
      | Some False \<Rightarrow> Inl (ApiBadRequest ''VAULT_NOT_REGISTERED_ON_CHAIN'')
      | Some True \<Rightarrow>
          (case be_owner env address of
             None \<Rightarrow> Inl (ApiInternal ''call failed'')
           | Some owner \<Rightarrow>
               (case (be_getAddress env owner, be_getAddress env expectedOwner) of
                  (Some a, Some e) \<Rightarrow> if a \<noteq> e then Inl (ApiBadRequest ''VAULT_OWNER_MISMATCH'') else Inr ()
                | _ \<Rightarrow> Inl (ApiInternal ''invalid address''))))"

definition generateDefaultLabel :: "backend \<Rightarrow> string \<Rightarrow> string" where
  "generateDefaultLabel b owner =
     ''Vault #'' @ show_nat (length (filter (\<lambda>v. vr_ownerAddress v = owner) (bk_vaults b)) + 1)"

definition insert_vault :: "vault_record \<Rightarrow> vault_record api" where
  "insert_vault v b =
     (if list_ex (\<lambda>u. vr_id u = vr_id v \<or> vr_address u = vr_address v \<or>
          (vr_ownerAddress u, vr_label u) = (vr_ownerAddress v, vr_label v)) (bk_vaults b)
      then (b, Inl (ApiInternal ''P2002''))
      else (b\<lparr>bk_vaults := bk_vaults b @ [v], bk_slots := (bk_slots b)(vr_id v \<mapsto> [])\<rparr>, Inr v))"

definition createVault :: "backend_env \<Rightarrow> string \<Rightarrow> create_vault_dto \<Rightarrow> vault_record api" where
  "createVault env owner dto b =
     (case be_getAddress env (cv_address dto) of
        None \<Rightarrow> (b, Inl (ApiBadRequest ''INVALID_VAULT_ADDRESS''))
      | Some address \<Rightarrow>
          if vault_at b address \<noteq> None then (b, Inl (ApiConflict ''VAULT_ALREADY_REGISTERED''))
          else case validateOnChain env address owner of
            Inl e \<Rightarrow> (b, Inl e)
          | Inr _ \<Rightarrow>
              (let label = or_else (cv_label dto) (generateDefaultLabel b owner) in
               if label_taken b owner label \<noteq> None then (b, Inl (ApiConflict ''LABEL_ALREADY_EXISTS''))
               else case be_getAddress env (cv_depositToken dto) of
                 None \<Rightarrow> (b, Inl (ApiInternal ''invalid address''))
               | Some token \<Rightarrow> insert_vault \<lparr>vr_id = be_newId env, vr_address = address, vr_chainId = cv_chainId dto,
                   vr_ownerAddress = owner, vr_depositToken = token, vr_label = label,
                   vr_createdAtBlock = cv_createdAtBlock dto, vr_txHash = cv_txHash dto\<rparr> b))"

definition listVaults :: "string \<Rightarrow> backend \<Rightarrow> vault_record list" where
  "listVaults owner b = rev (filter (\<lambda>v. vr_ownerAddress v = owner) (bk_vaults b))"

definition update_vault_label :: "string \<Rightarrow> string \<Rightarrow> vault_record api" where
  "update_vault_label address label b =
     (case vault_at b address of
        None \<Rightarrow> (b, Inl (ApiInternal ''P2025''))
      | Some v \<Rightarrow>
          (if list_ex (\<lambda>u. vr_address u \<noteq> address \<and> (vr_ownerAddress u, vr_label u) = (vr_ownerAddress v, label)) (bk_vaults b)
           then (b, Inl (ApiInternal ''P2002''))
           else (b\<lparr>bk_vaults := map (\<lambda>u. if vr_address u = address then u\<lparr>vr_label := label\<rparr> else u) (bk_vaults b)\<rparr>,
             Inr (v\<lparr>vr_label := label\<rparr>))))"

definition updateLabel :: "string \<Rightarrow> string \<Rightarrow> string \<Rightarrow> vault_record api" where
  "updateLabel vaultAddress owner label b =
     (case label_taken b owner label of
        None \<Rightarrow> update_vault_label vaultAddress label b
      | Some v \<Rightarrow> if vr_address v \<noteq> vaultAddress then (b, Inl (ApiConflict ''LABEL_ALREADY_EXISTS''))
          else update_vault_label vaultAddress label b)"

section \<open>Automation rows\<close>

definition automation_at :: "backend \<Rightarrow> string \<Rightarrow> automation_row option" where
  "automation_at b i = List.find (\<lambda>a. a_id a = i) (bk_automations b)"

text \<open>The unique index over the vault and the on-chain id, which ignores rows without one.\<close>

definition links :: "automation_row list \<Rightarrow> (string \<times> nat) list" where
  "links rows = List.map_filter (\<lambda>a. map_option (Pair (a_vaultId a)) (a_onChainId a)) rows"

definition update_automation :: "string \<Rightarrow> (automation_row \<Rightarrow> automation_row) \<Rightarrow> automation_row api" where
  "update_automation i f b =
     (case automation_at b i of
        None \<Rightarrow> (b, Inl (ApiInternal ''P2025''))
      | Some a \<Rightarrow>
          (let rows = map (\<lambda>x. if a_id x = i then f x else x) (bk_automations b) in
           if \<not> distinct (links rows) then (b, Inl (ApiInternal ''P2002''))
           else (b\<lparr>bk_automations := rows\<rparr>, Inr (f a))))"

definition createDraft :: "backend_env \<Rightarrow> string \<Rightarrow> string option \<Rightarrow> string option \<Rightarrow> automation_row api" where
  "createDraft env vaultId label description b =
     (if \<not> list_ex (\<lambda>v. vr_id v = vaultId) (bk_vaults b) then (b, Inl (ApiInternal ''P2025''))
      else if automation_at b (be_newId env) \<noteq> None then (b, Inl (ApiInternal ''P2002''))
      else (let a = \<lparr>a_id = be_newId env, a_vaultId = vaultId, a_onChainId = None, a_label = label,
              a_description = description, a_ownerOnly = False, a_editorState = None, a_stepCount = 0, a_isDraft = True\<rparr> in
            (b\<lparr>bk_automations := bk_automations b @ [a]\<rparr>, Inr a)))"

definition findByVault :: "string \<Rightarrow> backend \<Rightarrow> automation_row list" where
  "findByVault vaultId b = rev (filter (\<lambda>a. a_vaultId a = vaultId) (bk_automations b))"

record automation_patch =
  ap_editorState :: "stored_editor_state option"
  ap_label :: "string option"
  ap_description :: "string option"
  ap_onChainId :: "nat option"
  ap_ownerOnly :: "bool option"
  ap_stepCount :: "nat option"

text \<open>A missing field leaves the column as it is.\<close>

definition patched :: "automation_patch \<Rightarrow> automation_row \<Rightarrow> automation_row" where
  "patched p a = a\<lparr>a_editorState := (if ap_editorState p = None then a_editorState a else ap_editorState p),
     a_label := (if ap_label p = None then a_label a else ap_label p),
     a_description := (if ap_description p = None then a_description a else ap_description p)\<rparr>"

definition confirmed :: "nat \<Rightarrow> bool \<Rightarrow> nat \<Rightarrow> automation_row \<Rightarrow> automation_row" where
  "confirmed onChainId ownerOnly stepCount a =
     a\<lparr>a_onChainId := Some onChainId, a_isDraft := False, a_ownerOnly := ownerOnly, a_stepCount := stepCount\<rparr>"

definition confirmDeployment :: "string \<Rightarrow> nat \<Rightarrow> bool \<Rightarrow> nat \<Rightarrow> automation_row api" where
  "confirmDeployment i onChainId ownerOnly stepCount = update_automation i (confirmed onChainId ownerOnly stepCount)"

definition delete_automation :: "string \<Rightarrow> unit api" where
  "delete_automation i b =
     (case automation_at b i of
        None \<Rightarrow> (b, Inl (ApiInternal ''P2025''))
      | Some a \<Rightarrow> (b\<lparr>bk_automations := filter (\<lambda>x. a_id x \<noteq> i) (bk_automations b)\<rparr>, Inr ()))"

section \<open>Reconciliation\<close>

text \<open>The first node without incoming edges, and the address its step should have.\<close>

definition first_state_node :: "stored_editor_state \<Rightarrow> state_node option" where
  "first_state_node es =
     List.find (\<lambda>n. filter (\<lambda>e. e_target e = n_id n) (or_else (es_edges es) []) = []) (or_else (es_nodes es) [])"

definition expected_target :: "stored_editor_state \<Rightarrow> string option" where
  "expected_target es =
     (case first_state_node es of None \<Rightarrow> None | Some n \<Rightarrow> map_option lower (sn_contractAddress n))"

definition target_differs :: "string option \<Rightarrow> encoded_step list \<Rightarrow> bool" where
  "target_differs expected steps =
     (case steps of [] \<Rightarrow> False
      | s # _ \<Rightarrow> expected \<noteq> None \<and> expected \<noteq> Some [] \<and> expected \<noteq> Some (lower (s_target s)))"

text \<open>The search over the on-chain ids; a failed read ends it with nothing.\<close>

fun reconcile_scan ::
  "trigger_env \<Rightarrow> string \<Rightarrow> nat list \<Rightarrow> nat \<Rightarrow> string option \<Rightarrow> nat list \<Rightarrow> (nat \<times> nat) option" where
  "reconcile_scan env vault known expected target [] = None"
| "reconcile_scan env vault known expected target (i # ids) =
     (if i \<in> set known then reconcile_scan env vault known expected target ids
      else case te_automation env vault i of
        None \<Rightarrow> None
      | Some (active, steps) \<Rightarrow>
          if length steps \<noteq> expected \<or> target_differs target steps
          then reconcile_scan env vault known expected target ids
          else Some (i, length steps))"

definition linked_ids :: "backend \<Rightarrow> string \<Rightarrow> nat list" where
  "linked_ids b vaultId = List.map_filter (\<lambda>a. if a_vaultId a = vaultId then a_onChainId a else None) (bk_automations b)"

definition found_on_chain :: "backend_env \<Rightarrow> automation_row \<Rightarrow> backend \<Rightarrow> (nat \<times> nat) option" where
  "found_on_chain env a b =
     (case (List.find (\<lambda>v. vr_id v = a_vaultId a) (bk_vaults b), a_editorState a) of
        (Some v, Some es) \<Rightarrow>
          (if vr_address v = [] \<or> es_nodes es \<in> {None, Some []} \<or> \<not> be_rpcUrl env then None
           else case te_count (be_triggers env) (vr_address v) of
             None \<Rightarrow> None
           | Some count \<Rightarrow> reconcile_scan (be_triggers env) (vr_address v) (linked_ids b (vr_id v))
               (length (or_else (es_nodes es) [])) (expected_target es) [0..<count])
      | _ \<Rightarrow> None)"

definition reconciled :: "nat \<Rightarrow> nat \<Rightarrow> automation_row \<Rightarrow> automation_row" where
  "reconciled i steps a = a\<lparr>a_onChainId := Some i, a_isDraft := False, a_stepCount := steps\<rparr>"

definition tryReconcile :: "backend_env \<Rightarrow> automation_row \<Rightarrow> automation_row option api" where
  "tryReconcile env a b =
     (case found_on_chain env a b of
        None \<Rightarrow> (b, Inr None)
      | Some (i, steps) \<Rightarrow>
          itry (ibind (update_automation (a_id a) (reconciled i steps)) (\<lambda>a'. iret (Some a'))) (\<lambda>_. iret None) b)"

definition findById :: "backend_env \<Rightarrow> string \<Rightarrow> automation_row api" where
  "findById env i b =
     (case automation_at b i of
        None \<Rightarrow> (b, Inl (ApiNotFound ''AUTOMATION_NOT_FOUND''))
      | Some a \<Rightarrow>
          if a_isDraft a \<and> a_onChainId a = None
          then ibind (tryReconcile env a) (\<lambda>r. iret (or_else r a)) b
          else (b, Inr a))"

section \<open>Routes\<close>

record encode_body =
  eb_graph :: "stored_editor_state option"
  eb_overrides :: "overrides option"

text \<open>\<open>nodes\<close> that are present make a graph; \<open>strict\<close> asks for stored edges as well.\<close>

definition graph_of :: "bool \<Rightarrow> stored_editor_state option \<Rightarrow> raw_graph option" where
  "graph_of strict es =
     (case es of None \<Rightarrow> None
      | Some st \<Rightarrow> (case es_nodes st of None \<Rightarrow> None
          | Some ns \<Rightarrow> if strict \<and> es_edges st = None then None
              else Some \<lparr>g_nodes = map raw_node.truncate ns, g_edges = or_else (es_edges st) []\<rparr>))"

definition request_graph :: "bool \<Rightarrow> encode_body \<Rightarrow> automation_row \<Rightarrow> raw_graph" where
  "request_graph strict body a =
     or_else (graph_of False (eb_graph body)) (or_else (graph_of strict (a_editorState a)) \<lparr>g_nodes = [], g_edges = []\<rparr>)"

definition encoder_result :: "slot_db \<times> (encode_error + encode_result) \<Rightarrow> encode_result api" where
  "encoder_result out b = (case out of (db, r) \<Rightarrow> (b\<lparr>bk_slots := db\<rparr>, map_sum ApiEncode id r))"

definition step_rows :: "backend_env \<Rightarrow> step_row list" where
  "step_rows env = map step_row.truncate (te_stepTypes (be_triggers env))"

definition route_encode :: "backend_env \<Rightarrow> vault_record \<Rightarrow> string \<Rightarrow> string \<Rightarrow> encode_body \<Rightarrow> encode_result api" where
  "route_encode env v address i body = ibind (findById env i) (\<lambda>a b.
     encoder_result (encode (be_lib env) (step_rows env) (te_context (be_triggers env) address) (bk_slots b) (vr_id v) i
       (request_graph True body a) (eb_overrides body)) b)"

definition linked :: "string \<Rightarrow> automation_row \<Rightarrow> nat api" where
  "linked what a = (case a_onChainId a of
     None \<Rightarrow> ithrow (ApiConflict (''Cannot '' @ what @ '' a draft automation'')) | Some n \<Rightarrow> iret n)"

definition route_encodeUpdate :: "backend_env \<Rightarrow> vault_record \<Rightarrow> string \<Rightarrow> string \<Rightarrow> encode_body \<Rightarrow> encode_result api" where
  "route_encodeUpdate env v address i body = ibind (findById env i) (\<lambda>a. ibind (linked ''update'' a) (\<lambda>n b.
     encoder_result (encodeUpdate (be_lib env) (step_rows env) (te_context (be_triggers env) address) (bk_slots b) (vr_id v) i n
       (request_graph False body a) (eb_overrides body)) b))"

definition route_encodeToggle :: "backend_env \<Rightarrow> string \<Rightarrow> bool \<Rightarrow> (string \<times> string) api" where
  "route_encodeToggle env i active = ibind (findById env i) (\<lambda>a. ibind (linked ''toggle'' a) (\<lambda>n.
     iret (encodeToggle (be_lib env) n active, ''setAutomationActive'')))"

definition route_encodeExecute :: "backend_env \<Rightarrow> string \<Rightarrow> (string \<times> string) api" where
  "route_encodeExecute env i = ibind (findById env i) (\<lambda>a. ibind (linked ''execute'' a) (\<lambda>n.
     iret (encodeExecute (be_lib env) n, ''executeAutomation'')))"

definition vault_statuses :: "backend_env \<Rightarrow> string \<Rightarrow> automation_status list api" where
  "vault_statuses env address b =
     (case getStatuses (be_triggers env) (be_start env) (be_stop env) address (bk_cache b) of
        (cache, r) \<Rightarrow> (b\<lparr>bk_cache := cache\<rparr>, case r of None \<Rightarrow> Inl (ApiInternal ''call failed'') | Some ss \<Rightarrow> Inr ss))"

text \<open>The statuses by their id, the last one of an id winning; a failed read leaves no status.\<close>

definition route_list :: "backend_env \<Rightarrow> vault_record \<Rightarrow> string \<Rightarrow> (automation_row \<times> automation_status option) list api" where
  "route_list env v address b0 =
     (let rows = findByVault (vr_id v) b0 in
      ibind (itry (vault_statuses env address) (\<lambda>_. iret [])) (\<lambda>ss.
        iret (map (\<lambda>a. (a\<lparr>a_editorState := None\<rparr>, Option.bind (a_onChainId a) (by_key as_onChainId ss))) rows)) b0)"

definition route_update :: "string \<Rightarrow> automation_patch \<Rightarrow> automation_row api" where
  "route_update i p =
     (case ap_onChainId p of
        Some n \<Rightarrow> confirmDeployment i n (or_else (ap_ownerOnly p) False) (or_else (ap_stepCount p) 0)
      | None \<Rightarrow> update_automation i (patched p))"

definition is_active :: "automation_status list \<Rightarrow> nat \<Rightarrow> bool" where
  "is_active ss n = (case List.find (\<lambda>s. as_onChainId s = n) ss of None \<Rightarrow> False | Some s \<Rightarrow> as_active s)"

definition may_delete :: "backend_env \<Rightarrow> string \<Rightarrow> automation_row \<Rightarrow> unit api" where
  "may_delete env address a =
     (case a_onChainId a of
        None \<Rightarrow> iret ()
      | Some n \<Rightarrow> if a_ownerOnly a then iret ()
          else ibind (vault_statuses env address) (\<lambda>ss.
            if is_active ss n then ithrow (ApiConflict ''Automation must be deactivated on-chain before deletion'') else iret ()))"

definition route_delete :: "backend_env \<Rightarrow> string \<Rightarrow> string \<Rightarrow> unit api" where
  "route_delete env address i = ibind (findById env i) (\<lambda>a. ibind (may_delete env address a) (\<lambda>_. delete_automation i))"

datatype vault_request =
    CreateDraft "string option" "string option"
  | TriggerStatuses
  | ListAutomations
  | ShowAutomation string
  | PatchAutomation string automation_patch
  | Encode string encode_body
  | EncodeUpdate string encode_body
  | EncodeToggle string bool
  | EncodeExecute string
  | DeleteAutomation string
  | RenameVault string

datatype api_response =
    RVault vault_record
  | RAutomation automation_row
  | RList "(automation_row \<times> automation_status option) list"
  | RStatuses "automation_status list"
  | REncoded encode_result
  | RCalldata "string \<times> string"
  | RDeleted

definition imap :: "('a \<Rightarrow> 'b) \<Rightarrow> 'a api \<Rightarrow> 'b api" where
  "imap f m = ibind m (\<lambda>x. iret (f x))"

text \<open>The routes below \<open>/vaults/:address\<close>, after the guard has loaded the vault.\<close>

fun vault_route :: "backend_env \<Rightarrow> string \<Rightarrow> string \<Rightarrow> vault_record \<Rightarrow> vault_request \<Rightarrow> api_response api" where
  "vault_route env user address v (CreateDraft label d) = imap RAutomation (createDraft env (vr_id v) label d)"
| "vault_route env user address v TriggerStatuses = imap RStatuses (vault_statuses env address)"
| "vault_route env user address v ListAutomations = imap RList (route_list env v address)"
| "vault_route env user address v (ShowAutomation i) = imap RAutomation (findById env i)"
| "vault_route env user address v (PatchAutomation i p) = imap RAutomation (route_update i p)"
| "vault_route env user address v (Encode i body) = imap REncoded (route_encode env v address i body)"
| "vault_route env user address v (EncodeUpdate i body) = imap REncoded (route_encodeUpdate env v address i body)"
| "vault_route env user address v (EncodeToggle i active) = imap RCalldata (route_encodeToggle env i active)"
| "vault_route env user address v (EncodeExecute i) = imap RCalldata (route_encodeExecute env i)"
| "vault_route env user address v (DeleteAutomation i) = imap (\<lambda>_. RDeleted) (route_delete env address i)"
| "vault_route env user address v (RenameVault label) = imap RVault (updateLabel address user label)"

definition handle_vault :: "backend_env \<Rightarrow> string \<Rightarrow> string \<Rightarrow> vault_request \<Rightarrow> api_response api" where
  "handle_vault env user address req = ibind (canActivate env (Some address) (Some user)) (\<lambda>v. vault_route env user address v req)"

section \<open>Well-formed tables\<close>

definition vaults_ok :: "vault_record list \<Rightarrow> bool" where
  "vaults_ok vs \<longleftrightarrow> distinct (map vr_id vs) \<and> distinct (map vr_address vs) \<and>
     distinct (map (\<lambda>v. (vr_ownerAddress v, vr_label v)) vs)"

definition automations_ok :: "string set \<Rightarrow> automation_row list \<Rightarrow> bool" where
  "automations_ok vaultIds rows \<longleftrightarrow> distinct (map a_id rows) \<and> distinct (links rows) \<and>
     (\<forall>a \<in> set rows. a_vaultId a \<in> vaultIds \<and> (a_isDraft a \<longleftrightarrow> a_onChainId a = None))"

definition directories_ok :: "string set \<Rightarrow> slot_db \<Rightarrow> bool" where
  "directories_ok vaultIds db \<longleftrightarrow> dom db = vaultIds \<and> (\<forall>ss \<in> ran db. slots_dense ss)"

definition vault_ids :: "backend \<Rightarrow> string set" where
  "vault_ids b = vr_id ` set (bk_vaults b)"

definition backend_ok :: "backend \<Rightarrow> bool" where
  "backend_ok b \<longleftrightarrow> vaults_ok (bk_vaults b) \<and> automations_ok (vault_ids b) (bk_automations b) \<and>
     directories_ok (vault_ids b) (bk_slots b)"

text \<open>A directory only gains names; what a name means never changes.\<close>

definition slots_kept :: "slot_db \<Rightarrow> slot_db \<Rightarrow> bool" where
  "slots_kept db db' \<longleftrightarrow> (\<forall>v ss name i. db v = Some ss \<and> slot_lookup ss name = Some i \<longrightarrow>
     (\<exists>ss'. db' v = Some ss' \<and> slot_lookup ss' name = Some i))"

definition sound :: "backend \<Rightarrow> backend \<Rightarrow> bool" where
  "sound b b' \<longleftrightarrow> (backend_ok b \<longrightarrow> backend_ok b' \<and> slots_kept (bk_slots b) (bk_slots b'))"

lemma slots_kept_refl [simp]: "slots_kept db db"
  by (simp add: slots_kept_def)

lemma sound_refl: "reflp sound"
  by (simp add: reflp_def sound_def)

lemma sound_trans: "transp sound"
  unfolding transp_def sound_def slots_kept_def by (metis (no_types, opaque_lifting))

lemmas sound_pure = always_pure [OF sound_refl]
lemmas sound_ibind = always_ibind [OF sound_trans]
lemmas sound_itry = always_itry [OF sound_trans]

lemma sound_lift: "(\<And>b. sound b (fst (m b))) \<Longrightarrow> always sound m"
  by (simp add: always_def)

subsection \<open>Writes to the tables\<close>

lemma links_Cons: "links (a # rows) = (case a_onChainId a of None \<Rightarrow> [] | Some n \<Rightarrow> [(a_vaultId a, n)]) @ links rows"
  by (simp add: links_def map_filter_def split: option.split)

lemma links_Nil [simp]: "links [] = []"
  by (simp add: links_def map_filter_def)

lemma links_append: "links (xs @ ys) = links xs @ links ys"
  by (induction xs) (simp_all add: links_Cons)

lemma links_iff: "(v, n) \<in> set (links rows) \<longleftrightarrow> (\<exists>a \<in> set rows. a_vaultId a = v \<and> a_onChainId a = Some n)"
  by (induction rows) (auto simp: links_Cons split: option.splits)

lemma links_filter: "distinct (links rows) \<Longrightarrow> distinct (links (filter P rows))"
proof (induction rows)
  case (Cons a rows)
  then show ?case by (auto simp: links_Cons links_iff split: option.splits)
qed simp

lemma update_automation_sound:
  assumes "\<And>a. a_id (f a) = a_id a \<and> a_vaultId (f a) = a_vaultId a"
    and "\<And>a. (a_isDraft a \<longleftrightarrow> a_onChainId a = None) \<Longrightarrow> (a_isDraft (f a) \<longleftrightarrow> a_onChainId (f a) = None)"
  shows "always sound (update_automation i f)"
proof (rule sound_lift)
  fix b
  have eq: "map (a_id \<circ> (\<lambda>x. if a_id x = i then f x else x)) rows = map a_id rows" for rows
    using assms(1) by (induction rows) auto
  have "distinct (map a_id rows) \<Longrightarrow> distinct (map (a_id \<circ> (\<lambda>x. if a_id x = i then f x else x)) rows)" for rows
    by (simp only: eq)
  then show "sound b (fst (update_automation i f b))"
    using assms by (auto simp: update_automation_def Let_def sound_def backend_ok_def automations_ok_def vault_ids_def
        split: option.split)
qed

lemma createDraft_sound: "always sound (createDraft env v label d)"
proof (rule sound_lift)
  fix b
  have "automation_at b i = None \<Longrightarrow> i \<notin> a_id ` set (bk_automations b)" for i
    by (auto simp: automation_at_def find_None_iff)
  then show "sound b (fst (createDraft env v label d b))"
    by (auto simp: createDraft_def Let_def sound_def backend_ok_def automations_ok_def vault_ids_def links_append links_Cons
        list_ex_iff)
qed

lemma delete_automation_sound: "always sound (delete_automation i)"
  by (rule sound_lift) (auto simp: delete_automation_def sound_def backend_ok_def automations_ok_def vault_ids_def
      links_filter distinct_map_filter split: option.split)

lemma insert_vault_sound: "always sound (insert_vault v)"
proof (rule sound_lift)
  fix b
  show "sound b (fst (insert_vault v b))"
  proof (cases "list_ex (\<lambda>u. vr_id u = vr_id v \<or> vr_address u = vr_address v \<or>
          (vr_ownerAddress u, vr_label u) = (vr_ownerAddress v, vr_label v)) (bk_vaults b)")
    case True
    then show ?thesis by (simp add: insert_vault_def sound_def)
  next
    case False
    then have new: "vr_id v \<notin> vr_id ` set (bk_vaults b)" "vr_address v \<notin> vr_address ` set (bk_vaults b)"
      "(vr_ownerAddress v, vr_label v) \<notin> (\<lambda>v. (vr_ownerAddress v, vr_label v)) ` set (bk_vaults b)"
      by (auto simp: list_ex_iff)
    have ids: "vault_ids (b\<lparr>bk_vaults := bk_vaults b @ [v], bk_slots := (bk_slots b)(vr_id v \<mapsto> [])\<rparr>) = insert (vr_id v) (vault_ids b)"
      by (simp add: vault_ids_def)
    have "slots_dense []" by (simp add: slots_dense_def)
    then show ?thesis using False new unfolding sound_def backend_ok_def ids insert_vault_def
      by (auto simp: vaults_ok_def automations_ok_def directories_ok_def vault_ids_def slots_kept_def ran_def split: if_splits)
  qed
qed

lemma rename_ok:
  assumes "vaults_ok vs" "v \<in> set vs"
    and "\<forall>u \<in> set vs. vr_address u \<noteq> vr_address v \<longrightarrow> (vr_ownerAddress u, vr_label u) \<noteq> (vr_ownerAddress v, label)"
  shows "vaults_ok (map (\<lambda>u. if vr_address u = vr_address v then u\<lparr>vr_label := label\<rparr> else u) vs)"
proof -
  let ?f = "\<lambda>u. if vr_address u = vr_address v then u\<lparr>vr_label := label\<rparr> else u"
  have fields: "map (vr_id \<circ> ?f) vs = map vr_id vs" "map (vr_address \<circ> ?f) vs = map vr_address vs" by simp_all
  have same: "u = v" if "u \<in> set vs" "vr_address u = vr_address v" for u
    using assms(1,2) that by (auto simp: vaults_ok_def distinct_map inj_on_def)
  have "inj_on ((\<lambda>u. (vr_ownerAddress u, vr_label u)) \<circ> ?f) (set vs)"
  proof (rule inj_onI)
    fix u w
    assume uw: "u \<in> set vs" "w \<in> set vs" "((\<lambda>u. (vr_ownerAddress u, vr_label u)) \<circ> ?f) u = ((\<lambda>u. (vr_ownerAddress u, vr_label u)) \<circ> ?f) w"
    have old: "inj_on (\<lambda>u. (vr_ownerAddress u, vr_label u)) (set vs)" using assms(1) by (simp add: vaults_ok_def distinct_map)
    consider "u = v" "w = v" | "u = v" "vr_address w \<noteq> vr_address v" | "vr_address u \<noteq> vr_address v" "w = v"
      | "vr_address u \<noteq> vr_address v" "vr_address w \<noteq> vr_address v" using same uw(1,2) by blast
    then show "u = w"
    proof cases
      case 4
      then show ?thesis using uw inj_onD [OF old] by simp
    qed (use assms(3) uw in auto)
  qed
  then have "distinct (map ((\<lambda>u. (vr_ownerAddress u, vr_label u)) \<circ> ?f) vs)"
    using assms(1) by (simp add: vaults_ok_def distinct_map)
  then show ?thesis using assms(1) unfolding vaults_ok_def map_map fields by blast
qed

lemma update_vault_label_sound: "always sound (update_vault_label address label)"
proof (rule sound_lift)
  fix b :: backend
  let ?vs = "map (\<lambda>u. if vr_address u = address then u\<lparr>vr_label := label\<rparr> else u) (bk_vaults b)"
  show "sound b (fst (update_vault_label address label b))"
  proof (cases "vault_at b address")
    case (Some v)
    then have v: "v \<in> set (bk_vaults b)" "vr_address v = address" by (auto simp: vault_at_def find_Some_iff)
    have "vr_id ` set ?vs = vr_id ` set (bk_vaults b)"
      unfolding set_map image_image by (rule image_cong) simp_all
    then have ids: "vault_ids (b\<lparr>bk_vaults := ?vs\<rparr>) = vault_ids b" by (simp add: vault_ids_def)
    show ?thesis
      using Some rename_ok [of "bk_vaults b" v label] v ids
      by (auto simp: update_vault_label_def sound_def backend_ok_def list_ex_iff)
  qed (simp add: update_vault_label_def sound_def)
qed

lemma vault_statuses_sound: "always sound (vault_statuses env address)"
  by (rule sound_lift) (simp add: vault_statuses_def sound_def backend_ok_def vault_ids_def split: prod.split)

subsection \<open>The encoder's slots\<close>

definition db_kept :: "slot_db \<Rightarrow> slot_db \<Rightarrow> bool" where
  "db_kept db db' \<longleftrightarrow> ((\<forall>ss \<in> ran db. slots_dense ss) \<longrightarrow>
     dom db' = dom db \<and> (\<forall>ss \<in> ran db'. slots_dense ss) \<and> slots_kept db db')"

lemma db_kept_refl: "db_kept db db"
  by (simp add: db_kept_def)

lemma resolve_names_kept: "db_kept db (fst (resolve_names db v names aid))"
proof (cases "names = [] \<or> db v = None")
  case True
  then show ?thesis by (auto simp: resolve_names_def allocateSlots_def db_kept_def)
next
  case False
  then obtain ss where ss: "db v = Some ss" by blast
  obtain ss' m where al: "allocate Map.empty aid names ss = (ss', m)" by fastforce
  have db': "fst (resolve_names db v names aid) = db(v \<mapsto> ss')"
    using False ss al by (simp add: resolve_names_def allocateSlots_def)
  show ?thesis
    unfolding db' db_kept_def
  proof (intro impI conjI)
    assume d: "\<forall>ss \<in> ran db. slots_dense ss"
    then have dense: "slots_dense ss" using ss by (auto simp: ran_def)
    show "dom (db(v \<mapsto> ss')) = dom db" using ss by auto
    show "\<forall>ss \<in> ran (db(v \<mapsto> ss')). slots_dense ss"
      using d allocate_dense [OF al dense] by (auto simp: ran_def split: if_splits)
    show "slots_kept db (db(v \<mapsto> ss'))"
      using allocate_spec(5) [OF al slots_dense_ok [OF dense]] ss by (auto simp: slots_kept_def)
  qed
qed

lemma front_kept: "db_kept db (fst (front lib rows db v aid g))"
  using resolve_names_kept [of db v "extractSlotNames g (stepTypeMap rows)" aid]
  by (simp add: front_def Let_def db_kept_refl case_prod_beta split: option.split)

lemma encode_kept: "db_kept db (fst (encode lib rows chain db v aid g ov))"
  "db_kept db (fst (encodeUpdate lib rows chain db v aid n g ov))"
  using front_kept [of db lib rows v aid g] by (simp_all add: encode_def encodeUpdate_def case_prod_beta)

lemma encoder_result_sound: "db_kept (bk_slots b) (fst out) \<Longrightarrow> sound b (fst (encoder_result out b))"
  by (cases out) (auto simp: encoder_result_def sound_def backend_ok_def directories_ok_def db_kept_def vault_ids_def)

section \<open>Every request keeps the tables\<close>

lemma tryReconcile_sound: "always sound (tryReconcile env a)"
proof -
  have "always sound (update_automation (a_id a) (reconciled i n))" for i n
    by (rule update_automation_sound) (simp_all add: reconciled_def)
  then have "always sound (itry (ibind (update_automation (a_id a) (reconciled i n)) (\<lambda>a'. iret (Some a'))) (\<lambda>_. iret None))" for i n
    by (intro sound_itry sound_ibind sound_pure)
  then show ?thesis unfolding always_def tryReconcile_def using reflpD [OF sound_refl]
    by (auto split: option.split)
qed

lemma findById_sound: "always sound (findById env i)"
proof -
  have "always sound (ibind (tryReconcile env a) (\<lambda>r. iret (or_else r a)))" for a
    by (intro sound_ibind tryReconcile_sound sound_pure)
  then show ?thesis unfolding always_def findById_def using reflpD [OF sound_refl]
    by (auto split: option.split)
qed

lemma linked_sound: "always sound (linked what a)"
  by (auto simp: linked_def intro!: sound_pure split: option.split)

lemma route_encode_sound: "always sound (route_encode env v address i body)"
  unfolding route_encode_def
  by (intro sound_ibind findById_sound sound_lift encoder_result_sound encode_kept)

lemma route_encodeUpdate_sound: "always sound (route_encodeUpdate env v address i body)"
  unfolding route_encodeUpdate_def
  by (intro sound_ibind findById_sound linked_sound sound_lift encoder_result_sound encode_kept)

lemma route_calldata_sound: "always sound (route_encodeToggle env i active)" "always sound (route_encodeExecute env i)"
  unfolding route_encodeToggle_def route_encodeExecute_def
  by (intro sound_ibind findById_sound linked_sound sound_pure)+

lemma route_list_sound: "always sound (route_list env v address)"
proof (rule sound_lift)
  fix b
  have "always sound (ibind (itry (vault_statuses env address) (\<lambda>_. iret [])) (\<lambda>ss.
        iret (map (\<lambda>a. (a\<lparr>a_editorState := None\<rparr>, Option.bind (a_onChainId a) (by_key as_onChainId ss)))
          (findByVault (vr_id v) b))) :: (automation_row \<times> automation_status option) list api)"
    by (intro sound_ibind sound_itry vault_statuses_sound sound_pure)
  then show "sound b (fst (route_list env v address b))" by (simp add: always_def route_list_def Let_def)
qed

lemma route_update_sound: "always sound (route_update i p)"
  unfolding route_update_def confirmDeployment_def
  by (cases "ap_onChainId p") (auto intro!: update_automation_sound simp: patched_def confirmed_def)

lemma route_delete_sound: "always sound (route_delete env address i)"
  unfolding route_delete_def may_delete_def
  by (auto intro!: sound_ibind findById_sound vault_statuses_sound delete_automation_sound sound_pure split: option.split)

lemma updateLabel_sound: "always sound (updateLabel address owner label)"
proof -
  note upd = update_vault_label_sound [of address label, unfolded always_def]
  show ?thesis unfolding always_def updateLabel_def using upd reflpD [OF sound_refl] by (auto split: option.split)
qed

lemma createVault_sound: "always sound (createVault env owner dto)"
proof -
  note ins = insert_vault_sound [unfolded always_def]
  show ?thesis unfolding always_def createVault_def Let_def using ins reflpD [OF sound_refl]
    by (auto split: option.split sum.split)
qed

lemma imap_sound: "always sound m \<Longrightarrow> always sound (imap f m)"
  unfolding imap_def by (intro sound_ibind sound_pure)

lemma vault_route_sound: "always sound (vault_route env user address v req)"
  by (cases req) (auto intro!: imap_sound createDraft_sound vault_statuses_sound route_list_sound findById_sound
      route_update_sound route_encode_sound route_encodeUpdate_sound route_calldata_sound route_delete_sound updateLabel_sound)

lemma canActivate_sound: "always sound (canActivate env a u)"
  using reflpD [OF sound_refl] by (auto simp: always_def canActivate_def)

lemma handle_vault_sound: "always sound (handle_vault env user address req)"
  unfolding handle_vault_def by (intro sound_ibind canActivate_sound vault_route_sound)

section \<open>Properties of the API\<close>

text \<open>Requests of authenticated users, each with the surroundings it meets.\<close>

datatype api_call = Register create_vault_dto | Below string vault_request

definition serve :: "backend_env \<times> string \<times> api_call \<Rightarrow> backend \<Rightarrow> backend" where
  "serve call b =
     (case call of (env, user, req) \<Rightarrow>
        (case req of
           Register dto \<Rightarrow> fst (createVault env user dto b)
         | Below address r \<Rightarrow> fst (handle_vault env user address r b)))"

definition served :: "(backend_env \<times> string \<times> api_call) list \<Rightarrow> backend" where
  "served calls = fold serve calls \<lparr>bk_vaults = [], bk_automations = [], bk_slots = Map.empty, bk_cache = Map.empty\<rparr>"

lemma serve_sound: "sound b (serve call b)"
  using createVault_sound handle_vault_sound unfolding always_def serve_def
  by (auto split: prod.split api_call.split)

lemma fold_serve_sound: "sound b (fold serve calls b)"
proof (induction calls arbitrary: b)
  case Nil
  show ?case using sound_refl by (simp add: reflp_def)
next
  case (Cons call calls)
  show ?case using transpD [OF sound_trans serve_sound Cons.IH] by simp
qed

lemma empty_backend_ok: "backend_ok \<lparr>bk_vaults = [], bk_automations = [], bk_slots = Map.empty, bk_cache = Map.empty\<rparr>"
  by (simp add: backend_ok_def vaults_ok_def automations_ok_def directories_ok_def vault_ids_def)

lemma served_ok: "backend_ok (served calls)"
  using fold_serve_sound [of _ calls] empty_backend_ok unfolding sound_def served_def by blast


subsection \<open>Who may act\<close>

lemma assertOwnership_Inr:
  assumes "assertOwnership env (Some address) (Some user) b = Inr v"
  shows "v \<in> set (bk_vaults b)" "be_getAddress env address = Some (vr_address v)"
    "be_getAddress env user \<noteq> None" "be_getAddress env (vr_ownerAddress v) = be_getAddress env user"
  using assms by (auto simp: assertOwnership_def vault_at_def find_Some_iff split: option.splits if_splits)

lemma handle_vault_cases:
  obtains (refused) e where "handle_vault env user address req b = (b, Inl e)"
  | (admitted) v where "assertOwnership env (Some address) (Some user) b = Inr v"
      "handle_vault env user address req b = vault_route env user address v req b"
proof (cases "assertOwnership env (Some address) (Some user) b")
  case (Inl e)
  then have "\<exists>e'. canActivate env (Some address) (Some user) b = (b, Inl e')" by (simp add: canActivate_def)
  then show ?thesis using refused by (auto simp: handle_vault_def)
next
  case (Inr v)
  show ?thesis
  proof (cases "address = []")
    case True
    then have "canActivate env (Some address) (Some user) b = (b, Inl (ApiNotFound ''VAULT_NOT_FOUND''))"
      by (simp add: canActivate_def)
    then show ?thesis using refused by (simp add: handle_vault_def)
  next
    case False
    then have "canActivate env (Some address) (Some user) b = (b, Inr v)" using Inr by (simp add: canActivate_def)
    then show ?thesis using admitted Inr by (simp add: handle_vault_def)
  qed
qed

text \<open>C23. A request below a vault changes anything, or answers at all, only for the user whose address
  (in checksum form) is that of the registered owner of the addressed vault.\<close>

theorem api_needs_owner:
  assumes "handle_vault env user address req b = (b', r)" "b' \<noteq> b \<or> \<not> isl r"
  shows "\<exists>v \<in> set (bk_vaults b). be_getAddress env address = Some (vr_address v) \<and>
    be_getAddress env user \<noteq> None \<and> be_getAddress env (vr_ownerAddress v) = be_getAddress env user"
proof (rule handle_vault_cases [of env user address req b])
  fix v
  assume "assertOwnership env (Some address) (Some user) b = Inr v"
  from assertOwnership_Inr [OF this] show ?thesis by blast
qed (use assms in auto)

definition demo_vault :: "string \<Rightarrow> string \<Rightarrow> string \<Rightarrow> vault_record" where
  "demo_vault i address owner = \<lparr>vr_id = i, vr_address = address, vr_chainId = 56, vr_ownerAddress = owner,
     vr_depositToken = ''T'', vr_label = ''Vault #1'', vr_createdAtBlock = 1, vr_txHash = ''0x1''\<rparr>"

definition demo_row :: "string \<Rightarrow> string \<Rightarrow> nat option \<Rightarrow> automation_row" where
  "demo_row i vaultId n = \<lparr>a_id = i, a_vaultId = vaultId, a_onChainId = n, a_label = None, a_description = None,
     a_ownerOnly = False, a_editorState = None, a_stepCount = 0, a_isDraft = (n = None)\<rparr>"

definition demo_backend :: backend where
  "demo_backend = \<lparr>bk_vaults = [demo_vault ''v1'' ''A1'' ''O1'', demo_vault ''v2'' ''A2'' ''O2''],
     bk_automations = [demo_row ''a1'' ''v1'' None, demo_row ''a2'' ''v2'' (Some 0)],
     bk_slots = [''v1'' \<mapsto> [], ''v2'' \<mapsto> []], bk_cache = Map.empty\<rparr>"

definition demo_backend_env :: backend_env where
  "demo_backend_env = \<lparr>be_getAddress = (\<lambda>a. Some a), be_newId = ''n'', be_rpcUrl = True, be_factoryAddress = True,
     be_isRegistered = (\<lambda>a. Some True), be_owner = (\<lambda>a. Some ''O1''), be_lib = demo_lib, be_triggers = demo_triggers,
     be_start = 0, be_stop = 1\<rparr>"

lemma demo_guard_passes:
  "assertOwnership demo_backend_env (Some ''A1'') (Some ''O1'') demo_backend = Inr (demo_vault ''v1'' ''A1'' ''O1'')"
  "assertOwnership demo_backend_env (Some ''A2'') (Some ''O2'') demo_backend = Inr (demo_vault ''v2'' ''A2'' ''O2'')"
  by (simp_all add: assertOwnership_def demo_backend_env_def demo_backend_def vault_at_def demo_vault_def)

lemma handle_vault_admitted:
  "assertOwnership env (Some address) (Some user) b = Inr v \<Longrightarrow> address \<noteq> [] \<Longrightarrow>
     handle_vault env user address req b = vault_route env user address v req b"
  by (simp add: handle_vault_def canActivate_def ibind_def)

lemma demo_rows: "automation_at demo_backend ''a1'' = Some (demo_row ''a1'' ''v1'' None)"
  "automation_at demo_backend ''a2'' = Some (demo_row ''a2'' ''v2'' (Some 0))"
  by (simp_all add: automation_at_def demo_backend_def demo_row_def)

lemma findById_linked: "automation_at b i = Some a \<Longrightarrow> a_onChainId a \<noteq> None \<Longrightarrow> findById env i b = (b, Inr a)"
  by (auto simp: findById_def)

lemma demo_show:
  "handle_vault demo_backend_env ''O2'' ''A2'' (ShowAutomation ''a2'') demo_backend =
     (demo_backend, Inr (RAutomation (demo_row ''a2'' ''v2'' (Some 0))))"
  using findById_linked [OF demo_rows(2), of demo_backend_env]
  by (simp add: handle_vault_admitted [OF demo_guard_passes(2)] imap_def demo_row_def)

theorem api_needs_owner_witness:
  "handle_vault demo_backend_env ''O2'' ''A2'' (ShowAutomation ''a2'') demo_backend =
     (demo_backend, Inr (RAutomation (demo_row ''a2'' ''v2'' (Some 0)))) \<and>
   (\<exists>v \<in> set (bk_vaults demo_backend). be_getAddress demo_backend_env ''A2'' = Some (vr_address v))"
  using api_needs_owner [OF demo_show] demo_show by auto

lemma findById_plain:
  "automation_at b i = Some a \<Longrightarrow> a_editorState a = None \<Longrightarrow> findById env i b = (b, Inr a)"
  by (simp add: findById_def tryReconcile_def found_on_chain_def ibind_def split: option.split)

lemma delete_plain_draft:
  assumes "assertOwnership env (Some address) (Some user) b = Inr v" "address \<noteq> []"
    and "automation_at b i = Some a" "a_onChainId a = None" "a_editorState a = None"
  shows "handle_vault env user address (DeleteAutomation i) b =
    (b\<lparr>bk_automations := filter (\<lambda>x. a_id x \<noteq> i) (bk_automations b)\<rparr>, Inr RDeleted)"
  using assms findById_plain [OF assms(3,5), of env]
  by (simp add: handle_vault_admitted imap_def route_delete_def may_delete_def delete_automation_def ibind_def)

subsection \<open>What the routes do not check\<close>

text \<open>C25. The routes check the addressed vault but not that the automation belongs to it: the owner of
  any vault deletes any draft of any other vault (here one without an editor state), as if it were his.\<close>

theorem foreign_draft_is_deleted:
  assumes "assertOwnership env (Some address) (Some user) b = Inr v" "address \<noteq> []"
    and "automation_at b i = Some a" "a_vaultId a \<noteq> vr_id v" "a_onChainId a = None" "a_editorState a = None"
  shows "\<exists>b'. handle_vault env user address (DeleteAutomation i) b = (b', Inr RDeleted) \<and>
    automation_at b' i = None \<and> bk_vaults b' = bk_vaults b"
  using delete_plain_draft [OF assms(1-3,5,6)] by (simp add: automation_at_def find_None_iff)

theorem foreign_draft_is_deleted_witness:
  "\<exists>b'. handle_vault demo_backend_env ''O2'' ''A2'' (DeleteAutomation ''a1'') demo_backend = (b', Inr RDeleted) \<and>
     automation_at b' ''a1'' = None"
  using foreign_draft_is_deleted [OF demo_guard_passes(2) _ demo_rows(1)] by (auto simp: demo_vault_def demo_row_def)

text \<open>A public automation that is linked to an on-chain id is deleted exactly when the vault, read
  through the addressed vault's statuses, does not show that id as active; an id whose read fails
  counts as inactive, so a failing read lets a live automation be deleted.\<close>

theorem deletion_decided_by_status:
  assumes "assertOwnership env (Some address) (Some user) b = Inr v" "address \<noteq> []"
    and "automation_at b i = Some a" "a_onChainId a = Some n" "\<not> a_ownerOnly a"
    and "cached_statuses (be_start env) address (bk_cache b) = None" "te_count (be_triggers env) address = Some k"
  shows "\<exists>b'. (if n < k \<and> (\<exists>steps. te_automation (be_triggers env) address n = Some (True, steps))
    then handle_vault env user address (DeleteAutomation i) b =
        (b', Inl (ApiConflict ''Automation must be deactivated on-chain before deletion'')) \<and> automation_at b' i = Some a
    else handle_vault env user address (DeleteAutomation i) b = (b', Inr RDeleted) \<and> automation_at b' i = None)"
proof -
  let ?ctx = "or_else (te_context (be_triggers env) address) []"
  let ?ss = "map (automation_status_of (be_triggers env) (be_start env div 1000) address ?ctx) [0..<k]"
  obtain cache where st: "vault_statuses env address b = (b\<lparr>bk_cache := cache\<rparr>, Inr ?ss)"
    using assms(6,7) by (auto simp: vault_statuses_def getStatuses_def read_statuses_def)
  have id: "as_onChainId (automation_status_of e t w c j) = j" for e t w c j
    by (simp add: automation_status_of_def split: option.split prod.split)
  have "List.find (\<lambda>s. as_onChainId s = n) (map (automation_status_of e t w c) js) =
      (if n \<in> set js then Some (automation_status_of e t w c n) else None)" for e t w c js
    by (induction js) (auto simp: id)
  then have act: "is_active ?ss n \<longleftrightarrow> n < k \<and> (\<exists>steps. te_automation (be_triggers env) address n = Some (True, steps))"
    by (auto simp: is_active_def automation_status_of_def split: option.splits)
  have del: "route_delete env address i b =
      (if is_active ?ss n then (b\<lparr>bk_cache := cache\<rparr>, Inl (ApiConflict ''Automation must be deactivated on-chain before deletion''))
       else (b\<lparr>bk_cache := cache, bk_automations := filter (\<lambda>x. a_id x \<noteq> i) (bk_automations b)\<rparr>, Inr ()))"
    using findById_linked [OF assms(3), of env] assms(3-5) st
    by (simp add: route_delete_def may_delete_def ibind_def delete_automation_def automation_at_def)
  show ?thesis
    using assms(3) del act by (auto simp: handle_vault_admitted [OF assms(1,2)] imap_def ibind_def automation_at_def find_None_iff)
qed

theorem deletion_decided_by_status_witness:
  "\<exists>b'. handle_vault demo_backend_env ''O2'' ''A2'' (DeleteAutomation ''a2'') demo_backend = (b', Inr RDeleted)"
proof -
  have "cached_statuses (be_start demo_backend_env) ''A2'' (bk_cache demo_backend) = None"
    "te_count (be_triggers demo_backend_env) ''A2'' = Some 1" "te_automation (be_triggers demo_backend_env) ''A2'' 0 = None"
    by (simp_all add: cached_statuses_def demo_backend_def demo_backend_env_def demo_triggers_def)
  with deletion_decided_by_status [OF demo_guard_passes(2) _ demo_rows(2), of 0 1] show ?thesis by (auto simp: demo_row_def)
qed

subsection \<open>Reconciliation\<close>

lemma reconcile_scan_Some:
  "reconcile_scan env vault known expected target ids = Some (i, k) \<Longrightarrow>
     i \<in> set ids \<and> i \<notin> set known \<and> k = expected \<and>
     (\<exists>active steps. te_automation env vault i = Some (active, steps) \<and> length steps = k \<and> \<not> target_differs target steps)"
  by (induction ids) (auto split: if_splits option.splits)

lemma found_on_chain_Some:
  assumes "found_on_chain env a b = Some (i, k)"
  obtains v es active steps count where "v \<in> set (bk_vaults b)" "vr_id v = a_vaultId a" "a_editorState a = Some es"
    "k = length (or_else (es_nodes es) [])" "te_count (be_triggers env) (vr_address v) = Some count" "i < count"
    "te_automation (be_triggers env) (vr_address v) i = Some (active, steps)" "length steps = k" "(a_vaultId a, i) \<notin> set (links (bk_automations b))"
proof -
  from assms obtain v es count where v: "List.find (\<lambda>v. vr_id v = a_vaultId a) (bk_vaults b) = Some v" "a_editorState a = Some es"
    "te_count (be_triggers env) (vr_address v) = Some count"
    "reconcile_scan (be_triggers env) (vr_address v) (linked_ids b (vr_id v))
       (length (or_else (es_nodes es) [])) (expected_target es) [0..<count] = Some (i, k)"
    by (auto simp: found_on_chain_def split: option.splits if_splits)
  note scan = reconcile_scan_Some [OF v(4)]
  have vid: "v \<in> set (bk_vaults b)" "vr_id v = a_vaultId a" using v(1) by (auto simp: find_Some_iff)
  have "(a_vaultId a, i) \<notin> set (links (bk_automations b))"
    using scan vid(2) by (force simp: links_iff linked_ids_def map_filter_def)
  with v vid scan show ?thesis using that by auto
qed

text \<open>Loading a draft links it, if at all, to an on-chain id that no automation of its vault is linked
  to and whose program has as many steps as the draft has nodes; nothing else changes in the tables,
  in particular not the owner-only flag, whatever the chain says about it.\<close>

theorem reconciliation_links_unclaimed:
  assumes "automation_at b i = Some a" "a_onChainId a = None" "findById env i b = (b', Inr a')" "a' \<noteq> a"
  shows "\<exists>n v es active steps. a' = a\<lparr>a_onChainId := Some n, a_isDraft := False, a_stepCount := length steps\<rparr> \<and>
    a_editorState a = Some es \<and> v \<in> set (bk_vaults b) \<and> vr_id v = a_vaultId a \<and>
    te_automation (be_triggers env) (vr_address v) n = Some (active, steps) \<and>
    length steps = length (or_else (es_nodes es) []) \<and> (a_vaultId a, n) \<notin> set (links (bk_automations b)) \<and>
    b' = b\<lparr>bk_automations := map (\<lambda>x. if a_id x = a_id a then reconciled n (length steps) x else x) (bk_automations b)\<rparr>"
proof -
  from assms obtain n k where f: "found_on_chain env a b = Some (n, k)"
    by (cases "found_on_chain env a b") (auto simp: findById_def tryReconcile_def ibind_def split: if_splits)
  have id: "a_id a = i" using assms(1) by (auto simp: automation_at_def find_Some_iff)
  have d: "a_isDraft a" using assms by (auto simp: findById_def split: if_splits)
  let ?rows = "map (\<lambda>x. if a_id x = i then reconciled n k x else x) (bk_automations b)"
  have "b' = b\<lparr>bk_automations := ?rows\<rparr> \<and> a' = reconciled n k a"
    using assms f d id
    by (auto simp: findById_def tryReconcile_def update_automation_def Let_def ibind_def itry_def split: if_splits)
  with f id show ?thesis
    by (elim found_on_chain_Some) (force simp: reconciled_def)
qed

definition demo_state :: stored_editor_state where
  "demo_state = \<lparr>es_nodes = Some [\<lparr>n_id = ''n'', n_type = ''ACTION'', n_stepTypeId = ''t'', n_params = Map.empty,
     sn_contractAddress = None\<rparr>], es_edges = Some []\<rparr>"

definition demo_unlinked :: automation_row where
  "demo_unlinked = (demo_row ''a1'' ''v1'' None)\<lparr>a_editorState := Some demo_state\<rparr>"

definition demo_reconcilable :: backend where
  "demo_reconcilable = demo_backend\<lparr>bk_automations := [demo_unlinked]\<rparr>"

definition demo_deployed_env :: backend_env where
  "demo_deployed_env = demo_backend_env\<lparr>be_triggers := demo_triggers\<lparr>te_automation := (\<lambda>v i. Some (True, [hd demo_steps]))\<rparr>\<rparr>"

lemma demo_reconciles:
  "\<exists>b'. findById demo_deployed_env ''a1'' demo_reconcilable = (b', Inr (reconciled 0 1 demo_unlinked))"
proof -
  have "found_on_chain demo_deployed_env demo_unlinked demo_reconcilable = Some (0, 1)"
    by (simp add: found_on_chain_def demo_deployed_env_def demo_backend_env_def demo_triggers_def demo_unlinked_def demo_row_def
        demo_state_def demo_reconcilable_def demo_backend_def demo_vault_def linked_ids_def map_filter_def expected_target_def
        first_state_node_def target_differs_def)
  then show ?thesis
    by (simp add: findById_def tryReconcile_def automation_at_def demo_reconcilable_def update_automation_def Let_def
        links_Cons ibind_def itry_def demo_unlinked_def demo_row_def reconciled_def)
qed

theorem reconciliation_links_unclaimed_witness:
  "\<exists>b' a'. findById demo_deployed_env ''a1'' demo_reconcilable = (b', Inr a') \<and> a_onChainId a' \<noteq> None"
proof -
  obtain b' where f: "findById demo_deployed_env ''a1'' demo_reconcilable = (b', Inr (reconciled 0 1 demo_unlinked))"
    using demo_reconciles by blast
  have at: "automation_at demo_reconcilable ''a1'' = Some demo_unlinked" "a_onChainId demo_unlinked = None"
    by (simp_all add: automation_at_def demo_reconcilable_def demo_unlinked_def demo_row_def)
  have "reconciled 0 1 demo_unlinked \<noteq> demo_unlinked" by (simp add: reconciled_def demo_unlinked_def demo_row_def)
  from reconciliation_links_unclaimed [OF at f this] f show ?thesis by fastforce
qed

subsection \<open>Vault registration\<close>

text \<open>A vault is registered only under its checksum address, for a user whom the chain names as the
  owner of this vault of the factory, with a fresh address and a label the user has not used; nothing
  but the new vault and its empty slot directory is added.\<close>

theorem registered_vault_is_owned:
  assumes "createVault env user dto b = (b', Inr v)"
  shows "be_getAddress env (cv_address dto) = Some (vr_address v) \<and> be_isRegistered env (vr_address v) = Some True \<and>
    (\<exists>owner. be_owner env (vr_address v) = Some owner \<and> be_getAddress env owner = be_getAddress env user \<and> be_getAddress env user \<noteq> None) \<and>
    vr_ownerAddress v = user \<and> vault_at b (vr_address v) = None \<and> label_taken b user (vr_label v) = None \<and>
    b' = b\<lparr>bk_vaults := bk_vaults b @ [v], bk_slots := (bk_slots b)(vr_id v \<mapsto> [])\<rparr>"
  using assms
  by (auto simp: createVault_def Let_def validateOnChain_def insert_vault_def split: option.splits if_splits sum.splits bool.splits)

theorem registered_vault_is_owned_witness:
  "\<exists>b' v. createVault demo_backend_env ''O1'' \<lparr>cv_address = ''A3'', cv_chainId = 56, cv_depositToken = ''T'', cv_txHash = ''0x2'',
      cv_createdAtBlock = 2, cv_label = None\<rparr> demo_backend = (b', Inr v) \<and> vr_label v = ''Vault #2'' \<and> vr_ownerAddress v = ''O1''"
proof -
  let ?v = "\<lparr>vr_id = ''n'', vr_address = ''A3'', vr_chainId = 56, vr_ownerAddress = ''O1'', vr_depositToken = ''T'',
     vr_label = ''Vault #2'', vr_createdAtBlock = 2, vr_txHash = ''0x2''\<rparr>"
  have "show_nat (Suc (Suc 0)) = ''2''" by code_simp
  then have "\<exists>b'. createVault demo_backend_env ''O1'' \<lparr>cv_address = ''A3'', cv_chainId = 56, cv_depositToken = ''T'', cv_txHash = ''0x2'',
      cv_createdAtBlock = 2, cv_label = None\<rparr> demo_backend = (b', Inr ?v)"
    by (simp add: createVault_def demo_backend_env_def demo_backend_def vault_at_def demo_vault_def validateOnChain_def
        generateDefaultLabel_def label_taken_def insert_vault_def Let_def)
  then obtain b' where c: "createVault demo_backend_env ''O1'' \<lparr>cv_address = ''A3'', cv_chainId = 56, cv_depositToken = ''T'', cv_txHash = ''0x2'',
      cv_createdAtBlock = 2, cv_label = None\<rparr> demo_backend = (b', Inr ?v)" by blast
  from registered_vault_is_owned [OF c] c show ?thesis by auto
qed

lemma default_label_taken:
  assumes "be_getAddress env (cv_address dto) = Some address" "vault_at b address = None"
    and "validateOnChain env address user = Inr ()" "cv_label dto = None"
    and "v \<in> set (bk_vaults b)" "vr_ownerAddress v = user"
    and "vr_label v = ''Vault #'' @ show_nat (length (filter (\<lambda>u. vr_ownerAddress u = user) (bk_vaults b)) + 1)"
  shows "createVault env user dto b = (b, Inl (ApiConflict ''LABEL_ALREADY_EXISTS''))"
proof -
  have "label_taken b user (generateDefaultLabel b user) \<noteq> None"
    using assms(5-7) by (auto simp: label_taken_def generateDefaultLabel_def find_None_iff)
  with assms(1-4) show ?thesis by (auto simp: createVault_def)
qed

text \<open>A user with n vaults who has given one of them the label of number n + 1 cannot register a
  further vault without choosing a label: the default label collides, whatever the new vault is.\<close>

theorem default_label_collides:
  assumes "be_getAddress env (cv_address dto) = Some address" "vault_at b address = None"
    and "validateOnChain env address user = Inr ()" "cv_label dto = None"
    and "v \<in> set (bk_vaults b)" "vr_ownerAddress v = user"
    and "vr_label v = ''Vault #'' @ show_nat (length (filter (\<lambda>u. vr_ownerAddress u = user) (bk_vaults b)) + 1)"
  shows "createVault env user dto b = (b, Inl (ApiConflict ''LABEL_ALREADY_EXISTS''))"
  using assms by (rule default_label_taken)

theorem default_label_collides_witness:
  "createVault demo_backend_env ''O1'' \<lparr>cv_address = ''A3'', cv_chainId = 56, cv_depositToken = ''T'', cv_txHash = ''0x2'',
      cv_createdAtBlock = 2, cv_label = None\<rparr> (demo_backend\<lparr>bk_vaults := [(demo_vault ''v1'' ''A1'' ''O1'')\<lparr>vr_label := ''Vault #2''\<rparr>]\<rparr>) =
    (demo_backend\<lparr>bk_vaults := [(demo_vault ''v1'' ''A1'' ''O1'')\<lparr>vr_label := ''Vault #2''\<rparr>]\<rparr>, Inl (ApiConflict ''LABEL_ALREADY_EXISTS''))"
proof -
  have "show_nat (Suc (Suc 0)) = ''2''" by code_simp
  then show ?thesis
    by (intro default_label_collides [where address = "''A3''" and v = "(demo_vault ''v1'' ''A1'' ''O1'')\<lparr>vr_label := ''Vault #2''\<rparr>"])
      (simp_all add: demo_backend_env_def vault_at_def demo_vault_def validateOnChain_def)
qed

text \<open>Renaming succeeds only when the address in the URL is spelled as it is stored, although the guard
  accepts every spelling whose checksum form is the stored one.\<close>

theorem rename_needs_stored_spelling:
  assumes "handle_vault env user address (RenameVault label) b = (b', Inr r)"
  shows "\<exists>v \<in> set (bk_vaults b). vr_address v = address \<and> r = RVault (v\<lparr>vr_label := label\<rparr>)"
proof (rule handle_vault_cases [of env user address "RenameVault label" b])
  fix v
  assume "handle_vault env user address (RenameVault label) b = vault_route env user address v (RenameVault label) b"
  with assms have "\<exists>u. updateLabel address user label b = (b', Inr u) \<and> r = RVault u" by (auto simp: imap_def result_simps)
  then show ?thesis
    by (auto simp: updateLabel_def update_vault_label_def vault_at_def find_Some_iff split: option.splits if_splits)
qed (use assms in simp)

theorem rename_needs_stored_spelling_witness:
  "\<exists>b' r. handle_vault demo_backend_env ''O1'' ''A1'' (RenameVault ''x'') demo_backend = (b', Inr r) \<and>
     r = RVault ((demo_vault ''v1'' ''A1'' ''O1'')\<lparr>vr_label := ''x''\<rparr>)"
proof -
  have "\<exists>b' r. handle_vault demo_backend_env ''O1'' ''A1'' (RenameVault ''x'') demo_backend = (b', Inr r)"
    unfolding handle_vault_admitted [OF demo_guard_passes(1), simplified]
    by (simp add: imap_def updateLabel_def label_taken_def update_vault_label_def vault_at_def ibind_def demo_backend_def demo_vault_def)
  then obtain b' r where h: "handle_vault demo_backend_env ''O1'' ''A1'' (RenameVault ''x'') demo_backend = (b', Inr r)" by blast
  from rename_needs_stored_spelling [OF this] h show ?thesis by (auto simp: demo_backend_def demo_vault_def)
qed

end
