(* ===== verification/Client.thy ===== *)
theory Client
  imports Gate Automations
begin

text \<open>
  The MCP server's HTTP client (backend-client.ts) over an arbitrary transport, and the transport that
  the modelled backend offers: its answers with the status codes of the exceptions it throws. Lemmas:
  a call is sent at most twice, the second time only after a 401 and a refresh; what each status
  turns into.
\<close>

section \<open>The client\<close>

datatype http_method = GET | POST | PATCH | DELETE

datatype 'r reply_body = EmptyBody | BadJson | Json 'r

record 'r http_reply =
  ht_status :: nat
  ht_body :: "'r reply_body"

text \<open>The first address in a path, else the path.\<close>

definition address_at :: "string \<Rightarrow> bool" where
  "address_at s \<longleftrightarrow> take 2 s = ''0x'' \<and> length (take 40 (drop 2 s)) = 40 \<and> list_all is_hex (take 40 (drop 2 s))"

fun find_address :: "string \<Rightarrow> string option" where
  "find_address [] = None"
| "find_address (c # s) = (if address_at (c # s) then Some (take 42 (c # s)) else find_address s)"

definition extractAddress :: "string \<Rightarrow> string" where
  "extractAddress path = or_else (find_address path) path"

definition forbidden_vault :: "string \<Rightarrow> js_error" where
  "forbidden_vault path =
     Thrown (''Zugriff verweigert: Vault '' @ extractAddress path @ '' gehoert nicht zur verbundenen Adresse.'')"

text \<open>What the last reply means; an empty body is \<open>undefined\<close>.\<close>

definition read_reply :: "http_method \<Rightarrow> string \<Rightarrow> 'r http_reply \<Rightarrow> js_error + 'r option" where
  "read_reply m path res =
     (if ht_status res = 403 then Inl (forbidden_vault path)
      else if ht_status res = 409 \<and> m = POST then Inr None
      else if \<not> (200 \<le> ht_status res \<and> ht_status res \<le> 299)
      then Inl (Thrown (''Backend-Abfrage fehlgeschlagen ('' @ path @ '': HTTP '' @ show_nat (ht_status res) @ '').''))
      else (case ht_body res of
          EmptyBody \<Rightarrow> Inr None
        | BadJson \<Rightarrow> Inl (Thrown (''Backend-Abfrage fehlgeschlagen ('' @ path @ '': ungueltige JSON-Antwort).''))
        | Json r \<Rightarrow> Inr (Some r)))"

definition send_request ::
  "('w, js_error, 'r http_reply) io \<Rightarrow> ('w, js_error, unit) io \<Rightarrow> http_method \<Rightarrow> string \<Rightarrow> ('w, js_error, 'r option) io" where
  "send_request request refresh m path =
     ibind request (\<lambda>res.
     ibind (if ht_status res = 401 then ibind refresh (\<lambda>_. request) else iret res) (\<lambda>res'.
     ilift (read_reply m path res')))"

section \<open>The backend as a server\<close>

definition error_status :: "api_error \<Rightarrow> nat" where
  "error_status e =
     (case e of ApiNotFound _ \<Rightarrow> 404 | ApiForbidden _ \<Rightarrow> 403 | ApiConflict _ \<Rightarrow> 409 | ApiBadRequest _ \<Rightarrow> 400
      | ApiEncode err \<Rightarrow> (case err of SlotsFailed _ \<Rightarrow> 500 | NodeMissing _ \<Rightarrow> 500 | CoderFailed \<Rightarrow> 500 | _ \<Rightarrow> 400)
      | ApiInternal _ \<Rightarrow> 500)"

definition reply_of :: "nat \<Rightarrow> api_error + 'r \<Rightarrow> 'r http_reply" where
  "reply_of success r =
     (case r of Inl e \<Rightarrow> \<lparr>ht_status = error_status e, ht_body = EmptyBody\<rparr> | Inr x \<Rightarrow> \<lparr>ht_status = success, ht_body = Json x\<rparr>)"

definition server :: "nat \<Rightarrow> 'r api \<Rightarrow> (backend, js_error, 'r http_reply) io" where
  "server success m b = (case m b of (b', r) \<Rightarrow> (b', Inr (reply_of success r)))"

text \<open>A call of the modelled backend with a session that is valid, so that there is no 401.\<close>

definition call_backend :: "http_method \<Rightarrow> string \<Rightarrow> 'r api \<Rightarrow> (backend, js_error, 'r option) io" where
  "call_backend m path op = send_request (server (if m = POST then 201 else 200) op) (iret ()) m path"

lemma error_status_cases: "error_status e \<in> {404, 403, 409, 400, 500}"
  by (simp add: error_status_def split: api_error.split encode_error.split)

lemma call_backend_eq:
  "call_backend m path op b =
     (case op b of
        (b', Inr x) \<Rightarrow> (b', Inr (Some x))
      | (b', Inl e) \<Rightarrow> (b', read_reply m path \<lparr>ht_status = error_status e, ht_body = EmptyBody\<rparr>))"
proof (cases "op b")
  case (Pair b' r)
  have "error_status e \<noteq> 401" for e using error_status_cases [of e] by auto
  moreover have "read_reply m path \<lparr>ht_status = if m = POST then 201 else 200, ht_body = Json x\<rparr> = Inr (Some x)" for x :: 'a
    by (simp add: read_reply_def)
  ultimately show ?thesis using Pair
    by (cases r) (simp_all add: call_backend_def send_request_def server_def reply_of_def ibind_def)
qed

section \<open>Properties of the client\<close>

text \<open>A call is answered after one request, unless the first answer is a 401: then the session is
  refreshed and the request repeated once, and that answer stands, whatever it is.\<close>

theorem repeated_once:
  "send_request request refresh m path w =
     (case request w of
        (w1, Inl e) \<Rightarrow> (w1, Inl e)
      | (w1, Inr res) \<Rightarrow>
          if ht_status res \<noteq> 401 then (w1, read_reply m path res)
          else (case refresh w1 of
                  (w2, Inl e) \<Rightarrow> (w2, Inl e)
                | (w2, Inr _) \<Rightarrow> (case request w2 of (w3, Inl e) \<Rightarrow> (w3, Inl e) | (w3, Inr res') \<Rightarrow> (w3, read_reply m path res'))))"
  by (simp add: send_request_def ibind_def split: prod.split sum.split)

end
