(* ===== verification/Propose.thy ===== *)
theory Propose
  imports Deploy Client
begin

text \<open>
  Proposing an automation (propose-automation.ts): the agent's graph is mapped, checked for pools,
  encoded by the backend under a fresh draft automation, decoded and compared with the declared
  intent, and stored. What the tool needs of the backend is the locale \<open>draft_backend\<close>; it is
  interpreted on the modelled API, called through the modelled client. Lemmas: a proposal that fails
  leaves no automation behind (unless decoding throws); a stored draft is the mapped graph, known to the
  catalogue and in agreement with the intent; its inspected recipients are the encoded ones.
\<close>

section \<open>Dependencies\<close>

record 'w draft_api =
  da_create :: "string \<Rightarrow> ('w, js_error, string option) io"
  da_encode :: "string \<Rightarrow> string \<Rightarrow> raw_graph \<Rightarrow> overrides \<Rightarrow> ('w, js_error, bool) io"
  da_delete :: "string \<Rightarrow> string \<Rightarrow> ('w, js_error, unit) io"

record propose_deps =
  pd_catalog :: decoder_catalog
  pd_tokenDecimals :: token_decimals
  pd_getPool :: "(string \<Rightarrow> string \<Rightarrow> jsnum \<Rightarrow> js_error + string) option"

record propose_params =
  pp_vaultAddress :: string
  pp_nodes :: "friendly_node list"
  pp_edges :: "friendly_edge list"
  pp_intent :: flat_intent

record propose_result =
  pr_draftId :: string
  pr_ownerOnly :: bool
  pr_summary :: decoded_summary
  pr_warnings :: "check_warning list"

datatype propose_error =
    NotInCatalog string
  | NotBuildable boundary_error
  | PoolLookupFailed js_error
  | NoPool string string string
  | CreateFailed js_error
  | EncodeRejected js_error
  | NotDecodable amount_error
  | IntentDiffers "intent_diff list"

definition catalog_schemas :: "decoder_catalog \<Rightarrow> step_schemas" where
  "catalog_schemas catalog i = map_option cs_schema (catalog i)"

section \<open>The checks before the backend\<close>

definition unknown_step :: "decoder_catalog \<Rightarrow> friendly_node list \<Rightarrow> string option" where
  "unknown_step catalog nodes = List.find (\<lambda>i. catalog i = None) (map fn_stepTypeId nodes)"

definition build_raw :: "propose_deps \<Rightarrow> propose_params \<Rightarrow> boundary_error + raw_graph \<times> overrides" where
  "build_raw deps p =
     rbind (mapGraphToRaw (pp_nodes p) (pp_edges p) (catalog_schemas (pd_catalog deps)) (pd_tokenDecimals deps)) (\<lambda>g.
     rbind (buildContextOverrides (pp_nodes p) (catalog_schemas (pd_catalog deps))) (\<lambda>ov. Inr (g, ov)))"

definition swap_shape :: "decoder_catalog \<Rightarrow> friendly_node \<Rightarrow> bool" where
  "swap_shape catalog n \<longleftrightarrow>
     (case catalog (fn_stepTypeId n) of None \<Rightarrow> False
      | Some st \<Rightarrow> {''tokenIn'', ''tokenOut'', ''fee''} \<subseteq> fst ` set (step_fields st))"

fun check_pools ::
  "(string \<Rightarrow> string \<Rightarrow> jsnum \<Rightarrow> js_error + string) \<Rightarrow> decoder_catalog \<Rightarrow> friendly_node list \<Rightarrow> propose_error option" where
  "check_pools getPool catalog [] = None"
| "check_pools getPool catalog (n # ns) =
     (if \<not> swap_shape catalog n then check_pools getPool catalog ns
      else (let p = getp (fn_params n) in
        case getPool (js_string (p ''tokenIn'')) (js_string (p ''tokenOut'')) (to_number (p ''fee'')) of
          Inl e \<Rightarrow> Some (PoolLookupFailed e)
        | Inr pool \<Rightarrow> if lower pool = zero_target
            then Some (NoPool (js_string (p ''tokenIn'')) (js_string (p ''tokenOut'')) (js_string (p ''fee'')))
            else check_pools getPool catalog ns))"

definition before_backend :: "propose_deps \<Rightarrow> propose_params \<Rightarrow> propose_error + raw_graph \<times> overrides" where
  "before_backend deps p =
     (case unknown_step (pd_catalog deps) (pp_nodes p) of
        Some i \<Rightarrow> Inl (NotInCatalog i)
      | None \<Rightarrow>
          (case build_raw deps p of
             Inl e \<Rightarrow> Inl (NotBuildable e)
           | Inr built \<Rightarrow>
               (case pd_getPool deps of
                  None \<Rightarrow> Inr built
                | Some getPool \<Rightarrow> (case check_pools getPool (pd_catalog deps) (pp_nodes p) of
                      Some e \<Rightarrow> Inl e | None \<Rightarrow> Inr built))))"

section \<open>The proposal\<close>

text \<open>The request to remove the automation again; its failure is ignored.\<close>

definition cleanup :: "'w draft_api \<Rightarrow> string \<Rightarrow> string \<Rightarrow> ('w, 'e, unit) io" where
  "cleanup api vault i = itry (da_delete api vault i) (\<lambda>_. iret ())"

definition created_automation :: "'w draft_api \<Rightarrow> string \<Rightarrow> ('w, propose_error, string) io" where
  "created_automation api vault =
     ibind (itry (da_create api vault) (\<lambda>e. ithrow (CreateFailed e))) (\<lambda>r. case r of
       None \<Rightarrow> ithrow (CreateFailed (Thrown ''Cannot read properties of undefined'')) | Some i \<Rightarrow> iret i)"

definition encoded_automation ::
  "'w draft_api \<Rightarrow> string \<Rightarrow> string \<Rightarrow> raw_graph \<Rightarrow> overrides \<Rightarrow> ('w, propose_error, bool) io" where
  "encoded_automation api vault i g ov =
     itry (da_encode api vault i g ov) (\<lambda>e. ibind (cleanup api vault i) (\<lambda>_. ithrow (EncodeRejected e)))"

definition checked_summary ::
  "'w draft_api \<Rightarrow> propose_deps \<Rightarrow> propose_params \<Rightarrow> string \<Rightarrow> raw_graph \<Rightarrow> bool \<Rightarrow>
   ('w, propose_error, decoded_summary \<times> check_warning list) io" where
  "checked_summary api deps p i g ownerOnly =
     (case decodeRawGraph g (pd_catalog deps) (pd_tokenDecimals deps) (Some (derived_execution ownerOnly)) of
        Inl e \<Rightarrow> ithrow (NotDecodable e)
      | Inr summary \<Rightarrow>
          (let check = crossCheckIntent (pp_intent p) summary ownerOnly
             (extractTriggerSeconds g (pd_catalog deps)) (isBranched g) in
           if \<not> ck_ok check then ibind (cleanup api (pp_vaultAddress p) i) (\<lambda>_. ithrow (IntentDiffers (ck_diffs check)))
           else iret (summary, ck_warnings check)))"

definition propose_draft ::
  "'w draft_api \<Rightarrow> propose_deps \<Rightarrow> propose_params \<Rightarrow> ('w, propose_error, draft \<times> check_warning list) io" where
  "propose_draft api deps p =
     ibind (ilift (before_backend deps p)) (\<lambda>(g, ov).
     ibind (created_automation api (pp_vaultAddress p)) (\<lambda>i.
     ibind (encoded_automation api (pp_vaultAddress p) i g ov) (\<lambda>ownerOnly.
     ibind (checked_summary api deps p i g ownerOnly) (\<lambda>(summary, warnings).
       iret (\<lparr>dr_vaultAddress = pp_vaultAddress p, dr_automationId = i, dr_rawGraph = g, dr_contextOverrides = ov,
         dr_ownerOnly = ownerOnly, dr_summary = summary, dr_catalog = pd_catalog deps\<rparr>, warnings)))))"

text \<open>The tool on the draft store, with the id and the time of the store's generators.\<close>

definition proposeAutomation ::
  "'w draft_api \<Rightarrow> propose_deps \<Rightarrow> int \<Rightarrow> int \<Rightarrow> string \<Rightarrow> propose_params \<Rightarrow>
   (draft_store \<times> 'w, propose_error, propose_result) io" where
  "proposeAutomation api deps ttl now newId p st =
     (case st of (m, w) \<Rightarrow>
        (case propose_draft api deps p w of
           (w', Inl e) \<Rightarrow> ((m, w'), Inl e)
         | (w', Inr (d, warnings)) \<Rightarrow> ((create_draft ttl now newId d m, w'),
             Inr \<lparr>pr_draftId = newId, pr_ownerOnly = dr_ownerOnly d, pr_summary = dr_summary d, pr_warnings = warnings\<rparr>)))"

section \<open>What the tool needs of the backend\<close>

text \<open>
  For one vault: the automations there are, and which of them can be removed. A created automation is
  new and removable, encoding leaves the automations alone, and removing works.
\<close>

locale draft_backend =
  fixes api :: "'w draft_api" and vault :: string
    and automations :: "'w \<Rightarrow> string set" and removable :: "string \<Rightarrow> 'w \<Rightarrow> bool"
  assumes create_nothing: "da_create api vault w = (w', r) \<Longrightarrow> \<nexists>i. r = Inr (Some i) \<Longrightarrow> automations w' = automations w"
    and create: "da_create api vault w = (w', Inr (Some i)) \<Longrightarrow>
      i \<notin> automations w \<and> automations w' = insert i (automations w) \<and> removable i w'"
    and encode: "removable i w \<Longrightarrow> da_encode api vault i g ov w = (w', enc) \<Longrightarrow>
      automations w' = automations w \<and> removable i w'"
    and delete: "removable i w \<Longrightarrow> \<exists>w'. da_delete api vault i w = (w', Inr ()) \<and> automations w' = automations w - {i}"
begin

lemma cleanup_removes:
  "removable i w \<Longrightarrow> \<exists>w'. cleanup api vault i w = (w', Inr ()) \<and> automations w' = automations w - {i}"
  using delete [of i w] by (auto simp: cleanup_def itry_def)

lemma created_cases:
  assumes "created_automation api vault w = (w', r)"
  obtains (failed) e where "r = Inl (CreateFailed e)" "automations w' = automations w"
  | (made) i where "r = Inr i" "i \<notin> automations w" "automations w' = insert i (automations w)" "removable i w'"
proof (cases "da_create api vault w")
  case (Pair w1 r1)
  show ?thesis
  proof (cases "\<exists>i. r1 = Inr (Some i)")
    case True
    with Pair assms show ?thesis using made create [of w] by (auto simp: created_automation_def ibind_def itry_def)
  next
    case False
    have "w' = w1 \<and> (\<exists>e. r = Inl (CreateFailed e))"
      using False Pair assms by (auto simp: created_automation_def ibind_def itry_def split: sum.splits option.splits)
    with create_nothing [OF Pair False] show ?thesis using failed by blast
  qed
qed

lemma encoded_cases:
  assumes "removable i w" "encoded_automation api vault i g ov w = (w', r)"
  obtains (failed) e where "r = Inl (EncodeRejected e)" "automations w' = automations w - {i}"
  | (accepted) b where "r = Inr b" "automations w' = automations w" "removable i w'"
proof (cases "da_encode api vault i g ov w")
  case (Pair w1 r1)
  note w1 = encode [OF assms(1) Pair]
  show ?thesis
  proof (cases r1)
    case (Inl e)
    obtain w2 where c: "(cleanup api vault i :: ('w, propose_error, unit) io) w1 = (w2, Inr ())"
      "automations w2 = automations w1 - {i}" using cleanup_removes w1 by blast
    with Inl Pair assms(2) have "r = Inl (EncodeRejected e)" "w' = w2"
      by (simp_all add: encoded_automation_def ibind_def itry_def)
    with c w1 show ?thesis using failed by simp
  next
    case (Inr b)
    with Pair assms(2) w1 show ?thesis using accepted by (auto simp: encoded_automation_def itry_def)
  qed
qed

lemma checked_cases:
  assumes "removable i w" "pp_vaultAddress p = vault" "checked_summary api deps p i g o' w = (w', r)"
  obtains (undecodable) e where "r = Inl (NotDecodable e)" "w' = w"
  | (differs) ds where "r = Inl (IntentDiffers ds)" "automations w' = automations w - {i}"
  | (accepted) summary check where "r = Inr (summary, ck_warnings check)" "w' = w" "ck_ok check"
      "decodeRawGraph g (pd_catalog deps) (pd_tokenDecimals deps) (Some (derived_execution o')) = Inr summary"
      "check = crossCheckIntent (pp_intent p) summary o' (extractTriggerSeconds g (pd_catalog deps)) (isBranched g)"
proof (cases "decodeRawGraph g (pd_catalog deps) (pd_tokenDecimals deps) (Some (derived_execution o'))")
  case (Inl e)
  then show ?thesis using assms(3) undecodable by (auto simp: checked_summary_def)
next
  case (Inr summary)
  let ?check = "crossCheckIntent (pp_intent p) summary o' (extractTriggerSeconds g (pd_catalog deps)) (isBranched g)"
  show ?thesis
  proof (cases "ck_ok ?check")
    case True
    then show ?thesis using assms(3) Inr accepted by (auto simp: checked_summary_def Let_def)
  next
    case False
    obtain w2 where "(cleanup api vault i :: ('w, propose_error, unit) io) w = (w2, Inr ())" "automations w2 = automations w - {i}"
      using cleanup_removes [OF assms(1)] by blast
    then show ?thesis using assms False Inr differs [of "ck_diffs ?check"] by (simp add: checked_summary_def Let_def ibind_def)
  qed
qed

lemma propose_cases:
  assumes vault: "pp_vaultAddress p = vault" and run: "propose_draft api deps p w = (w', r)"
  obtains (failed) e where "r = Inl e" "\<nexists>a. e = NotDecodable a" "automations w' = automations w"
  | (orphan) e i where "r = Inl (NotDecodable e)" "i \<notin> automations w" "automations w' = insert i (automations w)"
  | (stored) d check where "r = Inr (d, ck_warnings check)" "before_backend deps p = Inr (dr_rawGraph d, dr_contextOverrides d)"
      "dr_automationId d \<notin> automations w" "automations w' = insert (dr_automationId d) (automations w)"
      "dr_vaultAddress d = vault" "dr_catalog d = pd_catalog deps" "ck_ok check"
      "check = crossCheckIntent (pp_intent p) (dr_summary d) (dr_ownerOnly d)
         (extractTriggerSeconds (dr_rawGraph d) (dr_catalog d)) (isBranched (dr_rawGraph d))"
      "decodeRawGraph (dr_rawGraph d) (dr_catalog d) (pd_tokenDecimals deps)
         (Some (derived_execution (dr_ownerOnly d))) = Inr (dr_summary d)"
proof (cases "before_backend deps p")
  case (Inl e)
  with run have "r = Inl e" "w' = w" by (auto simp: propose_draft_def)
  moreover have "\<nexists>a. e = NotDecodable a"
  proof -
    have "check_pools f c ns \<noteq> Some (NotDecodable a)" for f c ns a
      by (induction ns) (auto simp: Let_def split: sum.splits)
    with Inl show ?thesis by (auto simp: before_backend_def split: option.splits sum.splits)
  qed
  ultimately show ?thesis using failed by blast
next
  case (Inr gov)
  obtain g ov where gov: "gov = (g, ov)" by (cases gov)
  obtain w1 r1 where c: "created_automation api vault w = (w1, r1)" by fastforce
  note start = run [unfolded propose_draft_def] Inr gov vault c
  show ?thesis
  proof (rule created_cases [OF c])
    fix e
    assume "r1 = Inl (CreateFailed e)" "automations w1 = automations w"
    with start failed [of "CreateFailed e"] show ?thesis by auto
  next
    fix i
    assume i: "r1 = Inr i" "i \<notin> automations w" "automations w1 = insert i (automations w)" "removable i w1"
    obtain w2 r2 where en: "encoded_automation api vault i g ov w1 = (w2, r2)" by fastforce
    show ?thesis
    proof (rule encoded_cases [OF i(4) en])
      fix e
      assume "r2 = Inl (EncodeRejected e)" "automations w2 = automations w1 - {i}"
      with start i en failed [of "EncodeRejected e"] show ?thesis by auto
    next
      fix b
      assume b: "r2 = Inr b" "automations w2 = automations w1" "removable i w2"
      obtain w3 r3 where ch: "checked_summary api deps p i g b w2 = (w3, r3)" by fastforce
      show ?thesis
      proof (rule checked_cases [OF b(3) vault ch])
        fix e
        assume "r3 = Inl (NotDecodable e)" "w3 = w2"
        with start i en b ch orphan [of e i] show ?thesis by auto
      next
        fix ds
        assume "r3 = Inl (IntentDiffers ds)" "automations w3 = automations w2 - {i}"
        with start i en b ch failed [of "IntentDiffers ds"] show ?thesis by auto
      next
        fix summary check
        assume ok: "r3 = Inr (summary, ck_warnings check)" "w3 = w2" "ck_ok check"
          "decodeRawGraph g (pd_catalog deps) (pd_tokenDecimals deps) (Some (derived_execution b)) = Inr summary"
          "check = crossCheckIntent (pp_intent p) summary b (extractTriggerSeconds g (pd_catalog deps)) (isBranched g)"
        let ?d = "\<lparr>dr_vaultAddress = vault, dr_automationId = i, dr_rawGraph = g, dr_contextOverrides = ov,
           dr_ownerOnly = b, dr_summary = summary, dr_catalog = pd_catalog deps\<rparr>"
        have "r = Inr (?d, ck_warnings check)" "w' = w2" using start i en b ch ok(1,2) by simp_all
        with i b ok Inr gov show ?thesis by (intro stored [of ?d check]) simp_all
      qed
    qed
  qed
qed

end

section \<open>The modelled backend\<close>

fun response_id :: "api_response \<Rightarrow> string option" where
  "response_id (RAutomation a) = Some (a_id a)"
| "response_id _ = None"

fun response_ownerOnly :: "api_response option \<Rightarrow> js_error + bool" where
  "response_ownerOnly (Some (REncoded r)) = Inr (r_ownerOnly r)"
| "response_ownerOnly (Some _) = Inr False"
| "response_ownerOnly None = Inl (Thrown ''Cannot read properties of undefined'')"

definition posted_graph :: "raw_graph \<Rightarrow> overrides \<Rightarrow> encode_body" where
  "posted_graph g ov =
     \<lparr>eb_graph = Some \<lparr>es_nodes = Some (map (\<lambda>n. raw_node.extend n \<lparr>sn_contractAddress = None\<rparr>) (g_nodes g)), es_edges = Some (g_edges g)\<rparr>,
      eb_overrides = Some ov\<rparr>"

definition automations_path :: "string \<Rightarrow> string" where
  "automations_path vault = ''/vaults/'' @ vault @ ''/automations''"

definition session_api :: "backend_env \<Rightarrow> string \<Rightarrow> backend draft_api" where
  "session_api env user =
     \<lparr>da_create = (\<lambda>vault. ibind (call_backend POST (automations_path vault)
          (handle_vault env user vault (CreateDraft (Some ''MCP-Entwurf'') None))) (\<lambda>r. iret (Option.bind r response_id))),
      da_encode = (\<lambda>vault i g ov. ibind (call_backend POST (automations_path vault @ ''/'' @ i @ ''/encode'')
          (handle_vault env user vault (Encode i (posted_graph g ov)))) (\<lambda>r. ilift (response_ownerOnly r))),
      da_delete = (\<lambda>vault i. ibind (call_backend DELETE (automations_path vault @ ''/'' @ i)
          (handle_vault env user vault (DeleteAutomation i))) (\<lambda>_. iret ()))\<rparr>"

definition backend_ids :: "backend \<Rightarrow> string set" where
  "backend_ids b = a_id ` set (bk_automations b)"

definition plain_draft :: "backend_env \<Rightarrow> string \<Rightarrow> string \<Rightarrow> string \<Rightarrow> backend \<Rightarrow> bool" where
  "plain_draft env user vault i b \<longleftrightarrow> vault \<noteq> [] \<and>
     (\<exists>v. assertOwnership env (Some vault) (Some user) b = Inr v) \<and>
     (\<exists>a. automation_at b i = Some a \<and> a_onChainId a = None \<and> a_editorState a = None)"

lemma ownership_vaults: "bk_vaults b' = bk_vaults b \<Longrightarrow> assertOwnership env va ua b' = assertOwnership env va ua b"
proof -
  assume "bk_vaults b' = bk_vaults b"
  then have "vault_at b' = vault_at b" by (simp add: fun_eq_iff vault_at_def)
  then show ?thesis by (simp add: assertOwnership_def cong: option.case_cong)
qed

lemma node_roundtrip: "raw_node.truncate (raw_node.extend n m) = n" for n :: raw_node
  by (cases n) (simp add: raw_node.defs)

lemma posted_graph_request [simp]: "request_graph strict (posted_graph g ov) a = g"
  by (simp add: request_graph_def graph_of_def posted_graph_def comp_def node_roundtrip)

lemma read_failure:
  "read_reply m path \<lparr>ht_status = error_status e, ht_body = EmptyBody\<rparr> \<noteq> Inr (Some x)"
  by (simp add: read_reply_def)

lemma create_request_cases:
  obtains (failed) e where "handle_vault env user vault (CreateDraft l d) b = (b, Inl e)"
  | (made) v a where "handle_vault env user vault (CreateDraft l d) b = (b\<lparr>bk_automations := bk_automations b @ [a]\<rparr>, Inr (RAutomation a))"
      "assertOwnership env (Some vault) (Some user) b = Inr v" "vault \<noteq> []"
      "a_id a \<notin> backend_ids b" "a_onChainId a = None" "a_editorState a = None"
proof (cases "vault = [] \<or> isl (assertOwnership env (Some vault) (Some user) b)")
  case True
  then have "\<exists>e. handle_vault env user vault (CreateDraft l d) b = (b, Inl e)"
    by (auto simp: handle_vault_def canActivate_def ibind_def isl_def)
  then show ?thesis using failed by blast
next
  case False
  then obtain v where v: "assertOwnership env (Some vault) (Some user) b = Inr v" "vault \<noteq> []"
    by (cases "assertOwnership env (Some vault) (Some user) b") auto
  have fresh: "automation_at b i = None \<Longrightarrow> i \<notin> backend_ids b" for i
    by (auto simp: automation_at_def find_None_iff backend_ids_def)
  show ?thesis
  proof (cases "list_ex (\<lambda>u. vr_id u = vr_id v) (bk_vaults b) \<and> automation_at b (be_newId env) = None")
    case True
    let ?a = "\<lparr>a_id = be_newId env, a_vaultId = vr_id v, a_onChainId = None, a_label = l,
              a_description = d, a_ownerOnly = False, a_editorState = None, a_stepCount = 0, a_isDraft = True\<rparr>"
    show ?thesis
      by (rule made [of ?a v]) (use True v fresh in \<open>simp_all add: handle_vault_admitted imap_def createDraft_def ibind_def Let_def\<close>)
  next
    case False
    then have "\<exists>e. handle_vault env user vault (CreateDraft l d) b = (b, Inl e)"
      using v by (auto simp: handle_vault_admitted imap_def createDraft_def ibind_def Let_def)
    then show ?thesis using failed by blast
  qed
qed

lemma encode_request_frame:
  assumes "plain_draft env user vault i b" "handle_vault env user vault (Encode i body) b = (b', r)"
  shows "bk_automations b' = bk_automations b \<and> bk_vaults b' = bk_vaults b"
proof -
  obtain v a where v: "assertOwnership env (Some vault) (Some user) b = Inr v" "vault \<noteq> []"
    "automation_at b i = Some a" "a_editorState a = None" using assms(1) by (auto simp: plain_draft_def)
  show ?thesis using assms(2) findById_plain [OF v(3,4), of env]
    by (auto simp: handle_vault_admitted [OF v(1,2)] imap_def route_encode_def ibind_def encoder_result_def split: prod.splits sum.splits)
qed

interpretation drafts: draft_backend "session_api env user" vault backend_ids "plain_draft env user vault"
  for env :: backend_env and user vault :: string
proof
  fix w w' :: backend and r
  assume run: "da_create (session_api env user) vault w = (w', r)" and none: "\<nexists>i. r = Inr (Some i)"
  show "backend_ids w' = backend_ids w"
  proof (rule create_request_cases [of env user vault "Some ''MCP-Entwurf''" None w])
    fix e
    assume "handle_vault env user vault (CreateDraft (Some ''MCP-Entwurf'') None) w = (w, Inl e)"
    with run have "w' = w" by (auto simp: session_api_def call_backend_eq ibind_def split: sum.splits)
    then show ?thesis by simp
  qed (use run none in \<open>auto simp: session_api_def call_backend_eq ibind_def\<close>)
next
  fix w w' :: backend and i
  assume run: "da_create (session_api env user) vault w = (w', Inr (Some i))"
  show "i \<notin> backend_ids w \<and> backend_ids w' = insert i (backend_ids w) \<and> plain_draft env user vault i w'"
  proof (rule create_request_cases [of env user vault "Some ''MCP-Entwurf''" None w])
    fix e
    assume f: "handle_vault env user vault (CreateDraft (Some ''MCP-Entwurf'') None) w = (w, Inl e)"
    let ?rr = "read_reply POST (automations_path vault) \<lparr>ht_status = error_status e, ht_body = EmptyBody\<rparr> :: js_error + api_response option"
    have "(case ?rr of Inl e \<Rightarrow> (w, Inl e) | Inr x \<Rightarrow> (w, Inr (Option.bind x response_id))) = (w', Inr (Some i))"
      using run f by (simp add: session_api_def call_backend_eq ibind_def split: sum.splits)
    then show ?thesis by (cases ?rr) (auto simp: bind_eq_Some_conv read_failure)
  next
    fix v a
    assume m: "handle_vault env user vault (CreateDraft (Some ''MCP-Entwurf'') None) w =
        (w\<lparr>bk_automations := bk_automations w @ [a]\<rparr>, Inr (RAutomation a))"
      "assertOwnership env (Some vault) (Some user) w = Inr v" "vault \<noteq> []" "a_id a \<notin> backend_ids w"
      "a_onChainId a = None" "a_editorState a = None"
    then have "w' = w\<lparr>bk_automations := bk_automations w @ [a]\<rparr>" "i = a_id a"
      using run by (auto simp: session_api_def call_backend_eq ibind_def)
    moreover have "automation_at (w\<lparr>bk_automations := bk_automations w @ [a]\<rparr>) (a_id a) = Some a"
    proof -
      have "List.find (\<lambda>x. a_id x = a_id a) (bk_automations w) = None"
        unfolding find_None_iff using m(4) by (metis backend_ids_def imageI)
      then show ?thesis by (simp add: automation_at_def find_append)
    qed
    moreover have "assertOwnership env (Some vault) (Some user) (w\<lparr>bk_automations := bk_automations w @ [a]\<rparr>) = Inr v"
      using m(2) ownership_vaults [of "w\<lparr>bk_automations := bk_automations w @ [a]\<rparr>" w env] by simp
    ultimately show ?thesis using m by (simp add: plain_draft_def backend_ids_def)
  qed
next
  fix w w' :: backend and i g ov enc
  assume p: "plain_draft env user vault i w" and run: "da_encode (session_api env user) vault i g ov w = (w', enc)"
  obtain b r where h: "handle_vault env user vault (Encode i (posted_graph g ov)) w = (b, r)" by fastforce
  have "w' = b" using run h by (auto simp: session_api_def call_backend_eq ibind_def split: sum.splits)
  with encode_request_frame [OF p h] p ownership_vaults [of b w env]
  show "backend_ids w' = backend_ids w \<and> plain_draft env user vault i w'"
    by (simp add: backend_ids_def plain_draft_def automation_at_def)
next
  fix w :: backend and i
  assume "plain_draft env user vault i w"
  then obtain v a where "assertOwnership env (Some vault) (Some user) w = Inr v" "vault \<noteq> []"
    "automation_at w i = Some a" "a_onChainId a = None" "a_editorState a = None" by (auto simp: plain_draft_def)
  from delete_plain_draft [OF this]
  show "\<exists>w'. da_delete (session_api env user) vault i w = (w', Inr ()) \<and> backend_ids w' = backend_ids w - {i}"
    by (auto simp: session_api_def call_backend_eq ibind_def backend_ids_def)
qed

section \<open>An example\<close>

text \<open>One transfer to an allowed address, proposed to the owner's vault.\<close>

definition demo_transfer_row :: named_row where
  "demo_transfer_row = \<lparr>st_id = ''t'', st_contractAddress = ''0xc'', st_selector = ''0xs'',
     st_components = [\<lparr>c_name = ''to'', c_type = ''address''\<rparr>], st_paramSchema = None, st_name = ''Transfer''\<rparr>"

definition demo_propose_env :: backend_env where
  "demo_propose_env = demo_backend_env\<lparr>be_triggers := demo_triggers\<lparr>te_stepTypes := [demo_transfer_row]\<rparr>\<rparr>"

definition demo_proposal :: "string \<Rightarrow> propose_params" where
  "demo_proposal execution = \<lparr>pp_vaultAddress = ''A1'', pp_nodes = [\<lparr>fn_id = ''n'', fn_type = Some ''ACTION'', fn_stepTypeId = ''t'',
       fn_params = [''to'' \<mapsto> JStr ''0xAb'']\<rparr>], pp_edges = [],
     pp_intent = \<lparr>in_execution = execution, in_periodSeconds = None,
       in_actions = [\<lparr>ia_token = None, ia_direction = None, ia_amount = None\<rparr>]\<rparr>\<rparr>"

definition demo_deps :: propose_deps where
  "demo_deps = \<lparr>pd_catalog = [''t'' \<mapsto> transfer_step], pd_tokenDecimals = Map.empty, pd_getPool = None\<rparr>"

lemma demo_before: "before_backend demo_deps (demo_proposal e) = Inr (demo_recipient_graph ''0xAb'', [])"
  by (simp add: before_backend_def demo_deps_def demo_proposal_def unknown_step_def build_raw_def mapGraphToRaw_def mapNodeToRaw_def
   catalog_schemas_def transfer_step_def demo_recipient_graph_def mapParamsToRaw_def mapComponent_def schema_properties_def Let_def buildContextOverrides_def overrideOfField_def
   mapFieldToRaw_def toggle_on_def widget_is_def getp_def plain_field_def)

lemma demo_transfer_start: "startNodes (demo_recipient_graph to) = g_nodes (demo_recipient_graph to)"
  by (simp add: startNodes_def demo_recipient_graph_def is_start_iff node_ids_def)

lemma demo_transfer_bfs: "bfs (demo_recipient_graph to) = Inr [''n'']"
proof -
  have "startNode (demo_recipient_graph to) = Some (hd (g_nodes (demo_recipient_graph to)))"
    by (simp add: startNode_startNodes demo_transfer_start) (simp add: demo_recipient_graph_def)
  then show ?thesis by (simp add: bfs_def demo_recipient_graph_def bfs_order_def out_edges_filter)
qed

lemma demo_transfer_stm: "stepTypeMap [step_row.truncate demo_transfer_row] = [''t'' \<mapsto> step_row.truncate demo_transfer_row]"
  by (simp add: stepTypeMap_def by_key_def demo_transfer_row_def step_row.defs)

lemma demo_transfer_encodes:
  "\<exists>r. encode demo_lib [step_row.truncate demo_transfer_row] chain db v i (demo_recipient_graph to) (Some []) = (db, Inr r) \<and> r_ownerOnly r"
proof -
  have st: "compileStep demo_lib [''t'' \<mapsto> step_row.truncate demo_transfer_row] [] (demo_recipient_graph to) [''n'' \<mapsto> 0] ''n'' \<in> range Inr"
    by (simp add: compileStep_def nodeMap_def by_key_def demo_recipient_graph_def demo_transfer_row_def step_row.defs encodeParams_def
        encodeValue_def resolve_slot_def convert_value_def isEmpty_def Let_def getp_def demo_lib_def)
  then obtain s where "compileSteps demo_lib (stepTypeMap [step_row.truncate demo_transfer_row]) [] (demo_recipient_graph to) = Inr [s]"
    by (auto simp: compileSteps_def demo_transfer_bfs indexMap_def demo_transfer_stm)
  moreover have "validateServerSide (demo_recipient_graph to) = None" by (simp add: validateServerSide_def demo_recipient_graph_def)
  moreover have "validateRawParams (demo_recipient_graph to) (stepTypeMap [step_row.truncate demo_transfer_row]) = None"
    "extractSlotNames (demo_recipient_graph to) (stepTypeMap [step_row.truncate demo_transfer_row]) = []"
    unfolding demo_transfer_stm
    by (simp_all add: validateRawParams_def node_violations_def row_schema_def demo_recipient_graph_def demo_transfer_row_def step_row.defs
        extractSlotNames_def slot_names_of_node_def)
  moreover have "inferOwnerOnly (demo_recipient_graph to)"
    by (simp add: inferOwnerOnly_def demo_transfer_start) (simp add: demo_recipient_graph_def)
  ultimately show ?thesis
    by (simp add: encode_def front_def resolve_names_def encode_tail_def Let_def from_coder_def demo_lib_def)
qed

definition demo_created :: backend where
  "demo_created = demo_backend\<lparr>bk_automations := bk_automations demo_backend @
     [(demo_row ''n'' ''v1'' None)\<lparr>a_label := Some ''MCP-Entwurf''\<rparr>]\<rparr>"

lemma demo_propose_guard:
  "assertOwnership demo_propose_env (Some ''A1'') (Some ''O1'') demo_backend = Inr (demo_vault ''v1'' ''A1'' ''O1'')"
  "assertOwnership demo_propose_env (Some ''A1'') (Some ''O1'') demo_created = Inr (demo_vault ''v1'' ''A1'' ''O1'')"
  by (simp_all add: assertOwnership_def demo_propose_env_def demo_backend_env_def demo_backend_def vault_at_def demo_vault_def
      demo_created_def)

lemma demo_create: "da_create (session_api demo_propose_env ''O1'') ''A1'' demo_backend = (demo_created, Inr (Some ''n''))"
proof -
  have "createDraft demo_propose_env ''v1'' (Some ''MCP-Entwurf'') None demo_backend =
      (demo_created, Inr ((demo_row ''n'' ''v1'' None)\<lparr>a_label := Some ''MCP-Entwurf''\<rparr>))"
    by (simp add: createDraft_def demo_propose_env_def demo_backend_env_def demo_backend_def automation_at_def demo_vault_def
        demo_row_def demo_created_def Let_def)
  then have "handle_vault demo_propose_env ''O1'' ''A1'' (CreateDraft (Some ''MCP-Entwurf'') None) demo_backend =
      (demo_created, Inr (RAutomation ((demo_row ''n'' ''v1'' None)\<lparr>a_label := Some ''MCP-Entwurf''\<rparr>)))"
    by (simp add: handle_vault_admitted [OF demo_propose_guard(1)] imap_def ibind_def demo_vault_def)
  then show ?thesis by (simp add: session_api_def call_backend_eq ibind_def demo_row_def)
qed

lemma demo_encodes: "da_encode (session_api demo_propose_env ''O1'') ''A1'' ''n'' (demo_recipient_graph to) [] demo_created = (demo_created, Inr True)"
proof -
  have "automation_at demo_created ''n'' = Some ((demo_row ''n'' ''v1'' None)\<lparr>a_label := Some ''MCP-Entwurf''\<rparr>)"
    by (simp add: automation_at_def demo_created_def demo_backend_def demo_row_def)
  from findById_plain [OF this] have f: "findById demo_propose_env ''n'' demo_created =
      (demo_created, Inr ((demo_row ''n'' ''v1'' None)\<lparr>a_label := Some ''MCP-Entwurf''\<rparr>))" by (simp add: demo_row_def)
  obtain r where r: "encode (be_lib demo_propose_env) (step_rows demo_propose_env) (te_context (be_triggers demo_propose_env) ''A1'')
      (bk_slots demo_created) ''v1'' ''n'' (demo_recipient_graph to) (Some []) = (bk_slots demo_created, Inr r)" "r_ownerOnly r"
    using demo_transfer_encodes [of None "bk_slots demo_created" "''v1''" "''n''" to] by (auto simp: demo_propose_env_def demo_backend_env_def step_rows_def demo_triggers_def)
  have "bk_slots demo_created = bk_slots demo_created" ..
  then have "route_encode demo_propose_env (demo_vault ''v1'' ''A1'' ''O1'') ''A1'' ''n'' (posted_graph (demo_recipient_graph to) []) demo_created = (demo_created, Inr r)"
    using f r(1) by (simp add: route_encode_def ibind_def encoder_result_def demo_vault_def) (simp add: posted_graph_def)
  then have "handle_vault demo_propose_env ''O1'' ''A1'' (Encode ''n'' (posted_graph (demo_recipient_graph to) [])) demo_created =
      (demo_created, Inr (REncoded r))"
    by (simp add: handle_vault_admitted [OF demo_propose_guard(2)] imap_def ibind_def)
  then show ?thesis using r(2) by (simp add: session_api_def call_backend_eq ibind_def)
qed

lemma demo_decode:
  "decodeRawGraph (demo_recipient_graph ''0xAb'') [''t'' \<mapsto> transfer_step] tds x =
     Inr \<lparr>sm_steps = [\<lparr>ds_stepType = ''Transfer'', ds_category = ''ACTION'', ds_token = None, ds_amount = None, ds_amountRaw = None,
       ds_recipient = Some ''0xAb'', ds_direction = None\<rparr>], sm_execution = x, sm_warnings = []\<rparr>"
proof -
  have "resolveFieldRole (Some (plain_field\<lparr>f_role := JStr ''recipient''\<rparr>)) = Some RecipientRole" by code_simp
  then show ?thesis
  by (simp add: decodeRawGraph_def demo_recipient_graph_def decodeNode_def transfer_step_def step_fields_def schema_properties_def
      found_def role_field_def Let_def getp_def step_name_def findUnannotatedRecipients_def is_gap_def map_filter_def)
qed

lemma demo_proposes:
  "\<exists>res m. proposeAutomation (session_api demo_propose_env ''O1'') demo_deps 9 0 ''x'' (demo_proposal ''owner'') (Map.empty, demo_backend) =
     ((m, demo_created), Inr res)"
  "\<exists>m b e. proposeAutomation (session_api demo_propose_env ''O1'') demo_deps 9 0 ''x'' (demo_proposal ''public'') (Map.empty, demo_backend) =
     ((m, b), Inl (IntentDiffers e))"
proof -
  have c: "created_automation (session_api demo_propose_env ''O1'') ''A1'' demo_backend = (demo_created, Inr ''n'')"
    by (simp add: created_automation_def demo_create ibind_def itry_def)
  have e: "encoded_automation (session_api demo_propose_env ''O1'') ''A1'' ''n'' (demo_recipient_graph ''0xAb'') [] demo_created = (demo_created, Inr True)"
    by (simp add: encoded_automation_def demo_encodes itry_def)
  have pv: "pp_vaultAddress (demo_proposal x) = ''A1''" for x by (simp add: demo_proposal_def)
  have t: "extractTriggerSeconds (demo_recipient_graph ''0xAb'') [''t'' \<mapsto> transfer_step] = None"
    by (simp add: extractTriggerSeconds_def demo_recipient_graph_def node_duration_def map_filter_def)
  have "\<exists>ws. checked_summary (session_api demo_propose_env ''O1'') demo_deps (demo_proposal ''owner'') ''n'' (demo_recipient_graph ''0xAb'') True demo_created =
      (demo_created, Inr ws)"
    by (simp add: checked_summary_def demo_deps_def demo_decode demo_proposal_def crossCheckIntent_def derived_execution_def
        action_diffs_def both_differ_def Let_def t)
  then show "\<exists>res m. proposeAutomation (session_api demo_propose_env ''O1'') demo_deps 9 0 ''x'' (demo_proposal ''owner'') (Map.empty, demo_backend) =
     ((m, demo_created), Inr res)"
    by (auto simp: proposeAutomation_def propose_draft_def demo_before pv ibind_def c e split: prod.split)
  obtain b where "cleanup (session_api demo_propose_env ''O1'') ''A1'' ''n'' demo_created = (b, Inr ()::propose_error + unit)"
    by (cases "da_delete (session_api demo_propose_env ''O1'') ''A1'' ''n'' demo_created"; cases "snd (da_delete (session_api demo_propose_env ''O1'') ''A1'' ''n'' demo_created)") (auto simp: cleanup_def itry_def)
  then have "\<exists>b e. checked_summary (session_api demo_propose_env ''O1'') demo_deps (demo_proposal ''public'') ''n'' (demo_recipient_graph ''0xAb'') True demo_created =
      (b, Inl (IntentDiffers e))"
    by (simp add: checked_summary_def demo_deps_def demo_decode demo_proposal_def crossCheckIntent_def derived_execution_def
        Let_def t ibind_def)
  then show "\<exists>m b e. proposeAutomation (session_api demo_propose_env ''O1'') demo_deps 9 0 ''x'' (demo_proposal ''public'') (Map.empty, demo_backend) =
     ((m, b), Inl (IntentDiffers e))"
    by (auto simp: proposeAutomation_def propose_draft_def demo_before pv ibind_def c e split: prod.split)
qed

section \<open>Properties\<close>





text \<open>C3. For a component of type address, the value that the backend gives to the ABI coder is the very
  value the deployment inspects: a deployed graph's encoded recipients are on the allowlist.\<close>

theorem encoded_recipient_is_inspected:
  assumes "snd (inspectGraph g catalog config) = []" "n \<in> set (g_nodes g)" "catalog (n_stepTypeId n) = Some st"
    and "(c_name c, fs) \<in> set (step_fields st)" "is_recipient fs" "c_type c = ''address''"
  shows "\<exists>v. encodeValue (n_params n) mapping schema c = Inr v \<and> v = getp (n_params n) (c_name c) \<and>
    lower (js_string v) \<in> dc_addressAllowlist config \<and> step_name st \<in> dc_enabledSensitiveSteps config"
proof -
  let ?v = "getp (n_params n) (c_name c)"
  have "(st, ?v) \<in> recipients catalog g" using assms(2-5) by (auto simp: recipients_def)
  then have ok: "recipient_ok config st ?v" using assms(1) by (auto simp: inspectGraph_Nil)
  then have "\<not> isEmpty ?v" by (auto simp: recipient_ok_def isEmpty_def)
  moreover have "resolve_slot mapping (c_type c) ?v = ?v"
    using assms(6) by (simp add: resolve_slot_def split: option.split)
  ultimately have "encodeValue (n_params n) mapping schema c = Inr ?v"
    using assms(6) by (simp add: encodeValue_def Let_def convert_value_def)
  with ok show ?thesis by (simp add: recipient_ok_def)
qed

theorem encoded_recipient_is_inspected_witness:
  "encodeValue [''to'' \<mapsto> JStr ''0xAb''] [] None \<lparr>c_name = ''to'', c_type = ''address''\<rparr> = Inr (JStr ''0xAb'')"
proof -
  let ?n = "hd (g_nodes (demo_recipient_graph ''0xAb''))"
  have "is_recipient (plain_field\<lparr>f_role := JStr ''recipient''\<rparr>)" by code_simp
  then have "\<exists>v. encodeValue (n_params ?n) [] None \<lparr>c_name = ''to'', c_type = ''address''\<rparr> = Inr v \<and> v = getp (n_params ?n) ''to'' \<and>
      lower (js_string v) \<in> dc_addressAllowlist demo_config \<and> step_name transfer_step \<in> dc_enabledSensitiveSteps demo_config"
    using encoded_recipient_is_inspected [of "demo_recipient_graph ''0xAb''" "[''t'' \<mapsto> transfer_step]" demo_config ?n transfer_step
        "\<lparr>c_name = ''to'', c_type = ''address''\<rparr>" "plain_field\<lparr>f_role := JStr ''recipient''\<rparr>" "[]" None] demo_inspection
    by (simp add: demo_recipient_graph_def transfer_step_def step_fields_def schema_properties_def)
  then show ?thesis by (simp add: demo_recipient_graph_def getp_def)
qed

end
