(* ===== verification/Money.thy ===== *)
theory Money
  imports Deploy Client
begin

text \<open>
  The MCP server's money tools: the limits (token-utils.ts), deposits, withdrawals and dry runs
  (money-movement.ts), the lifecycle writes (lifecycle.ts), the creation of a vault (create-vault.ts), the
  ownership check (vault-guard.ts), their transactions (money-chain.ts, chain.ts), and the
  configuration they rest on (config.ts). They run in the gate of theory \<open>Gate\<close> and against the
  backend of theory \<open>Automations\<close>; receipts, allowances, fees and estimates are parameters. Lemmas:
  what a tool can have signed, for whom and how much, and that it needed the user's consent.
\<close>

section \<open>Configuration\<close>

definition parseList :: "string option \<Rightarrow> string list" where
  "parseList v = filter (\<lambda>s. s \<noteq> []) (map js_trim (js_split CHR '','' (or_else v [])))"

text \<open>An entry \<open>address:amount\<close>; further colons and what follows them are ignored.\<close>

definition token_amount :: "string \<Rightarrow> (string \<times> string) option" where
  "token_amount entry =
     (case map js_trim (js_split CHR '':'' entry) of
        a # n # rest \<Rightarrow> if a \<noteq> [] \<and> n \<noteq> [] then Some (lower a, n) else None
      | _ \<Rightarrow> None)"

definition parseTokenAmounts :: "string option \<Rightarrow> (string \<rightharpoonup> string)" where
  "parseTokenAmounts v = fold (\<lambda>(a, n) m. m(a \<mapsto> n))
     (List.map_filter token_amount (js_split CHR '','' (or_else v []))) Map.empty"

text \<open>The allowed addresses of the write tools: the owner and the configured ones.\<close>

definition allowed_addresses :: "string \<Rightarrow> string option \<Rightarrow> string set" where
  "allowed_addresses owner v = insert (lower owner) (lower ` set (parseList v))"

text \<open>What the start-up check warns of.\<close>

datatype config_warning = UnknownStepName string | NotAnAddress string

definition validateRuntimeConfig :: "string list \<Rightarrow> string list \<Rightarrow> string set \<Rightarrow> config_warning list" where
  "validateRuntimeConfig steps addresses names =
     map UnknownStepName (filter (\<lambda>n. n \<notin> names) steps) @ map NotAnAddress (filter (\<lambda>a. \<not> address_re a) addresses)"

section \<open>Limits\<close>

datatype money_error =
    NotCurated string
  | BadAmount amount_error
  | OverLimit string string
  | NotOwned string
  | NotAllowedRecipient string
  | NotAcceptedToken string
  | MissingRecipient
  | ReadFailed js_error
  | ActionFailed js_error

definition tokenDecimalsOf :: "token_decimals \<Rightarrow> string \<Rightarrow> money_error + jsnum" where
  "tokenDecimalsOf tds token = (case tds (lower token) of None \<Rightarrow> Inl (NotCurated token) | Some d \<Rightarrow> Inr d)"

definition base_amount :: "string \<Rightarrow> jsnum \<Rightarrow> money_error + string" where
  "base_amount amount d = map_sum BadAmount id (toBaseUnits amount d)"

definition as_bigint :: "string \<Rightarrow> int" where
  "as_bigint s = or_else (bigint_of_string s) 0"

definition checkMax :: "(string \<rightharpoonup> string) \<Rightarrow> string \<Rightarrow> string \<Rightarrow> jsnum \<Rightarrow> money_error + unit" where
  "checkMax maxs token amount d =
     (case maxs (lower token) of
        None \<Rightarrow> Inr ()
      | Some limit \<Rightarrow> rbind (base_amount amount d) (\<lambda>a. rbind (base_amount limit d) (\<lambda>m.
          if as_bigint a > as_bigint m then Inl (OverLimit amount limit) else Inr ())))"

section \<open>The chain side\<close>

record contract_tx =
  ct_address :: string
  ct_function :: string
  ct_args :: "jsval list"
  ct_gasLimit :: nat

record contract_receipt =
  cr_hash :: string
  cr_blockNumber :: nat
  cr_logs :: "string list list"

record money_chain =
  mn_sent :: "contract_tx list"
  mn_backend :: backend

record money_env =
  me_backend :: backend_env
  me_user :: string
  me_receipt :: "contract_tx list \<Rightarrow> js_error + contract_receipt"
  me_allowance :: "string \<Rightarrow> string \<Rightarrow> contract_tx list \<Rightarrow> js_error + int"
  me_fees :: "js_error + nat \<times> nat"
  me_accepted :: "js_error + string list"
  me_factory :: string
  me_salt :: string
  me_vaultTopic :: string
  me_chainId :: nat
  me_estimate :: "string \<Rightarrow> string \<Rightarrow> string list \<Rightarrow> js_error + string"

record money_config =
  mc_addressAllowlist :: "string set"
  mc_maxPerToken :: "string \<rightharpoonup> string"

type_synonym 'a money_op = "(money_chain, js_error, 'a) io"
type_synonym 'a money_tool = "(money_chain gate_world, money_error, 'a) io"

definition contract_send :: "money_env \<Rightarrow> contract_tx \<Rightarrow> contract_receipt money_op" where
  "contract_send env tx c = (let sent = mn_sent c @ [tx] in (c\<lparr>mn_sent := sent\<rparr>, me_receipt env sent))"

definition MAX_ALLOWANCE :: int where
  "MAX_ALLOWANCE = 2 ^ 256 - 1"

definition USDT_BSC :: string where
  "USDT_BSC = ''0x55d398326f99059ff775485246999027b3197955''"

definition approve_tx :: "string \<Rightarrow> string \<Rightarrow> int \<Rightarrow> contract_tx" where
  "approve_tx token vault n =
     \<lparr>ct_address = token, ct_function = ''approve'', ct_args = [JStr vault, JBig n], ct_gasLimit = 100000\<rparr>"

definition vault_tx :: "string \<Rightarrow> string \<Rightarrow> jsval list \<Rightarrow> nat \<Rightarrow> contract_tx" where
  "vault_tx vault fn args gas = \<lparr>ct_address = vault, ct_function = fn, ct_args = args, ct_gasLimit = gas\<rparr>"

text \<open>The approvals a deposit needs; USDT must first be set back to 0.\<close>

definition approvals :: "string \<Rightarrow> string \<Rightarrow> int \<Rightarrow> int \<Rightarrow> contract_tx list" where
  "approvals token vault allowance need =
     (if allowance < need then
        (if 0 < allowance \<and> allowance < MAX_ALLOWANCE \<and> lower token = USDT_BSC then [approve_tx token vault 0] else []) @
        [approve_tx token vault MAX_ALLOWANCE]
      else [])"

definition read_allowance :: "money_env \<Rightarrow> string \<Rightarrow> string \<Rightarrow> int money_op" where
  "read_allowance env token vault c = (c, me_allowance env token vault (mn_sent c))"

definition depositOnChain :: "money_env \<Rightarrow> string \<Rightarrow> string \<Rightarrow> string \<Rightarrow> string money_op" where
  "depositOnChain env vault token amountBase =
     ibind (read_allowance env token vault) (\<lambda>allowance.
     (let before = approvals token vault allowance (as_bigint amountBase) in
      ibind (iforM (contract_send env) before) (\<lambda>_.
      itry (ibind (contract_send env (vault_tx vault ''deposit'' [JStr token, JStr amountBase] 300000)) (\<lambda>r. iret (cr_hash r)))
        (\<lambda>err. ithrow (Thrown (''Einzahlung fehlgeschlagen (revert): '' @ err_text err @ ''.'' @
           (if before \<noteq> [] then '' Hinweis: ERC20-Allowance fuer '' @ vault @ '' wurde gesetzt und bleibt bestehen.'' else []))))))) "

text \<open>The other executors send one transaction.\<close>

definition send_one :: "money_env \<Rightarrow> contract_tx \<Rightarrow> string money_op" where
  "send_one env tx = ibind (contract_send env tx) (\<lambda>r. iret (cr_hash r))"

definition withdrawOnChain :: "money_env \<Rightarrow> string \<Rightarrow> string \<Rightarrow> string \<Rightarrow> string \<Rightarrow> string money_op" where
  "withdrawOnChain env vault token amountBase recipient =
     send_one env (vault_tx vault ''withdraw'' [JStr token, JStr amountBase, JStr recipient] 300000)"

definition topUpGasOnChain :: "money_env \<Rightarrow> string \<Rightarrow> string \<Rightarrow> string \<Rightarrow> string money_op" where
  "topUpGasOnChain env vault token amountBase = send_one env (vault_tx vault ''depositFees'' [JStr token, JStr amountBase] 200000)"

definition setMinFeeOnChain :: "money_env \<Rightarrow> string \<Rightarrow> string \<Rightarrow> string money_op" where
  "setMinFeeOnChain env vault amountBase = send_one env (vault_tx vault ''setMinFeeDeposit'' [JStr amountBase] 100000)"

definition setAutomationActiveOnChain :: "money_env \<Rightarrow> string \<Rightarrow> int \<Rightarrow> bool \<Rightarrow> string money_op" where
  "setAutomationActiveOnChain env vault onChainId active =
     send_one env (vault_tx vault ''setAutomationActive'' [JNum (Fin (of_int onChainId)), JBool active] 100000)"

section \<open>The tools\<close>

text \<open>The vaults of the connected owner, as the backend lists them.\<close>

definition assertOwnedVault :: "money_env \<Rightarrow> string \<Rightarrow> money_chain \<Rightarrow> money_error + unit" where
  "assertOwnedVault env vault c =
     (case snd (call_backend GET ''/vaults'' (\<lambda>b. (b, Inr (listVaults (me_user env) b))) (mn_backend c)) of
        Inl e \<Rightarrow> Inl (ReadFailed e)
      | Inr None \<Rightarrow> Inl (ReadFailed (Thrown ''Cannot read properties of undefined''))
      | Inr (Some vs) \<Rightarrow> if list_ex (\<lambda>v. lower (vr_address v) = lower vault) vs then Inr () else Inl (NotOwned vault))"

text \<open>\<open>(bps / 100).toFixed(2)\<close> of whole basis points.\<close>

definition percent_text :: "nat \<Rightarrow> string" where
  "percent_text bps = show_nat (bps div 100) @ ''.'' @ pad_start 2 CHR ''0'' (show_nat (bps mod 100))"

definition feeLine :: "money_env \<Rightarrow> bool \<Rightarrow> string" where
  "feeLine env is_deposit =
     (case me_fees env of
        Inl e \<Rightarrow> ''Gebuehr unbekannt''
      | Inr (depositBps, withdrawBps) \<Rightarrow>
          (let bps = (if is_deposit then depositBps else withdrawBps) in
           ''Gebuehr '' @ show_nat bps @ '' BPS ('' @ percent_text bps @ '' %)''))"

definition guarded :: "gate_env \<Rightarrow> guarded_action \<Rightarrow> ('a \<times> string option) money_op \<Rightarrow> 'a money_tool" where
  "guarded genv a act w =
     (case guard genv (ask_user genv) a act w of (w', r) \<Rightarrow> (w', map_sum ActionFailed id r))"

text \<open>Checks that only read; then the gate.\<close>

definition checked :: "(money_chain \<Rightarrow> money_error + 'b) \<Rightarrow> ('b \<Rightarrow> 'a money_tool) \<Rightarrow> 'a money_tool" where
  "checked check tool w = (case check (gw_chain w) of Inl e \<Rightarrow> (w, Inl e) | Inr x \<Rightarrow> tool x w)"

definition with_hash :: "string money_op \<Rightarrow> (string \<times> string option) money_op" where
  "with_hash m = ibind m (\<lambda>h. iret (h, Some h))"

definition limited_amount :: "money_env \<Rightarrow> token_decimals \<Rightarrow> (string \<rightharpoonup> string) \<Rightarrow> string \<Rightarrow> string \<Rightarrow> string \<Rightarrow>
    money_chain \<Rightarrow> money_error + string" where
  "limited_amount env tds maxs vault token amount c =
     rbind (assertOwnedVault env vault c) (\<lambda>_.
     rbind (tokenDecimalsOf tds token) (\<lambda>d.
     rbind (checkMax maxs token amount d) (\<lambda>_. base_amount amount d)))"

definition deposit_action :: "money_env \<Rightarrow> string \<Rightarrow> string \<Rightarrow> string \<Rightarrow> guarded_action" where
  "deposit_action env vault token amount =
     \<lparr>ga_tool = ''deposit'', ga_sensitive = True,
      ga_summary = ''Einzahlung: '' @ amount @ '' (Token '' @ token @ '') in Vault '' @ vault @
        ''. Kann eine einmalige ERC20-Freigabe (bis maxUint256) an den Vault ausloesen. '' @ feeLine env True @ ''.'',
      ga_details = [''vault'' \<mapsto> JStr vault, ''token'' \<mapsto> JStr token, ''amount'' \<mapsto> JStr amount]\<rparr>"

definition deposit ::
  "money_env \<Rightarrow> gate_env \<Rightarrow> token_decimals \<Rightarrow> money_config \<Rightarrow> string \<Rightarrow> string \<Rightarrow> string \<Rightarrow> string money_tool" where
  "deposit env genv tds config vault token amount =
     checked (limited_amount env tds (mc_maxPerToken config) vault token amount) (\<lambda>amountBase.
       guarded genv (deposit_action env vault token amount) (with_hash (depositOnChain env vault token amountBase)))"

definition withdraw_check ::
  "money_env \<Rightarrow> token_decimals \<Rightarrow> money_config \<Rightarrow> string \<Rightarrow> string \<Rightarrow> string \<Rightarrow> string \<Rightarrow> money_chain \<Rightarrow> money_error + string" where
  "withdraw_check env tds config vault token amount recipient c =
     rbind (assertOwnedVault env vault c) (\<lambda>_.
     rbind (tokenDecimalsOf tds token) (\<lambda>d.
     rbind (checkMax (mc_maxPerToken config) token amount d) (\<lambda>_.
     if lower recipient \<notin> mc_addressAllowlist config then Inl (NotAllowedRecipient recipient) else base_amount amount d)))"

definition withdraw_action :: "money_env \<Rightarrow> string \<Rightarrow> string \<Rightarrow> string \<Rightarrow> string \<Rightarrow> guarded_action" where
  "withdraw_action env vault token amount recipient =
     \<lparr>ga_tool = ''withdraw'', ga_sensitive = True,
      ga_summary = ''Auszahlung: '' @ amount @ '' (Token '' @ token @ '') -> '' @ recipient @ '' aus Vault '' @ vault @ ''. '' @
        feeLine env False @ ''.'',
      ga_details = [''vault'' \<mapsto> JStr vault, ''token'' \<mapsto> JStr token, ''amount'' \<mapsto> JStr amount, ''recipient'' \<mapsto> JStr recipient]\<rparr>"

definition withdraw ::
  "money_env \<Rightarrow> gate_env \<Rightarrow> token_decimals \<Rightarrow> money_config \<Rightarrow> string \<Rightarrow> string \<Rightarrow> string \<Rightarrow> string \<Rightarrow> string money_tool" where
  "withdraw env genv tds config vault token amount recipient =
     checked (withdraw_check env tds config vault token amount recipient) (\<lambda>amountBase.
       guarded genv (withdraw_action env vault token amount recipient)
         (with_hash (withdrawOnChain env vault token amountBase recipient)))"

text \<open>The dry run sends nothing; the arguments of the call are the token, the amount and the recipient.\<close>

definition simulateAction ::
  "money_env \<Rightarrow> token_decimals \<Rightarrow> bool \<Rightarrow> string \<Rightarrow> string \<Rightarrow> string \<Rightarrow> string option \<Rightarrow> money_error + string \<times> string \<times> string" where
  "simulateAction env tds is_deposit vault token amount recipient =
     rbind (tokenDecimalsOf tds token) (\<lambda>d.
     rbind (base_amount amount d) (\<lambda>amountBase.
     if \<not> is_deposit \<and> \<not> address_re (or_else recipient []) then Inl MissingRecipient
     else rbind (map_sum ReadFailed id (me_estimate env (if is_deposit then ''deposit'' else ''withdraw'') vault
         (if is_deposit then [token, amountBase] else [token, amountBase, or_else recipient []])))
       (\<lambda>gas. Inr (amountBase, feeLine env is_deposit, gas))))"

definition topUp_action :: "string \<Rightarrow> string \<Rightarrow> string \<Rightarrow> guarded_action" where
  "topUp_action vault token amount =
     \<lparr>ga_tool = ''top_up_gas_deposit'', ga_sensitive = False,
      ga_summary = ''Gas-Reserve auffuellen: '' @ amount @ '' (Token '' @ token @ '') in Vault '' @ vault @ ''.'',
      ga_details = [''vault'' \<mapsto> JStr vault, ''token'' \<mapsto> JStr token, ''amount'' \<mapsto> JStr amount]\<rparr>"

definition topUpGasDeposit ::
  "money_env \<Rightarrow> gate_env \<Rightarrow> token_decimals \<Rightarrow> money_config \<Rightarrow> string \<Rightarrow> string \<Rightarrow> string \<Rightarrow> string money_tool" where
  "topUpGasDeposit env genv tds config vault token amount =
     checked (limited_amount env tds (mc_maxPerToken config) vault token amount) (\<lambda>amountBase.
       guarded genv (topUp_action vault token amount) (with_hash (topUpGasOnChain env vault token amountBase)))"

definition minFee_action :: "string \<Rightarrow> string \<Rightarrow> guarded_action" where
  "minFee_action vault amount =
     \<lparr>ga_tool = ''set_min_fee_deposit'', ga_sensitive = False,
      ga_summary = ''Auto-Top-up-Ziel (minFeeDeposit) setzen: '' @ amount @ '' in Vault '' @ vault @ ''.'',
      ga_details = [''vault'' \<mapsto> JStr vault, ''amount'' \<mapsto> JStr amount]\<rparr>"

definition setMinFeeDeposit ::
  "money_env \<Rightarrow> gate_env \<Rightarrow> token_decimals \<Rightarrow> string \<Rightarrow> string \<Rightarrow> string \<Rightarrow> string money_tool" where
  "setMinFeeDeposit env genv tds vault token amount =
     checked (\<lambda>c. rbind (assertOwnedVault env vault c) (\<lambda>_. rbind (tokenDecimalsOf tds token) (base_amount amount))) (\<lambda>amountBase.
       guarded genv (minFee_action vault amount) (with_hash (setMinFeeOnChain env vault amountBase)))"

definition active_action :: "string \<Rightarrow> int \<Rightarrow> bool \<Rightarrow> guarded_action" where
  "active_action vault onChainId active =
     \<lparr>ga_tool = ''set_automation_active'', ga_sensitive = active,
      ga_summary = ''Automation #'' @ show_int onChainId @ '' '' @ (if active then ''aktivieren'' else ''pausieren'') @
        '' (Vault '' @ vault @ '').'',
      ga_details = [''vault'' \<mapsto> JStr vault, ''onChainId'' \<mapsto> JNum (Fin (of_int onChainId)), ''active'' \<mapsto> JBool active]\<rparr>"

definition setAutomationActive :: "money_env \<Rightarrow> gate_env \<Rightarrow> string \<Rightarrow> int \<Rightarrow> bool \<Rightarrow> string money_tool" where
  "setAutomationActive env genv vault onChainId active =
     checked (assertOwnedVault env vault) (\<lambda>_.
       guarded genv (active_action vault onChainId active) (with_hash (setAutomationActiveOnChain env vault onChainId active)))"

section \<open>Creating a vault\<close>

text \<open>The label in the summary: runs of line breaks and tabs become one blank, and it is cut.\<close>

definition line_char :: "char \<Rightarrow> bool" where
  "line_char c \<longleftrightarrow> c = CHR 0x0D \<or> c = CHR 0x0A \<or> c = CHR 0x09"

fun blank_runs :: "string \<Rightarrow> string" where
  "blank_runs [] = []"
| "blank_runs (c # s) =
     (if line_char c then (case s of [] \<Rightarrow> '' '' | d # t \<Rightarrow> if line_char d then blank_runs s else CHR '' '' # blank_runs s)
      else c # blank_runs s)"

definition safeLabel :: "string option \<Rightarrow> string option" where
  "safeLabel label = (case label of None \<Rightarrow> None | Some l \<Rightarrow> if l = [] then None else Some (take 64 (blank_runs l)))"

definition create_vault_action :: "string \<Rightarrow> string option \<Rightarrow> guarded_action" where
  "create_vault_action depositToken label =
     \<lparr>ga_tool = ''create_vault'', ga_sensitive = True,
      ga_summary = ''Vault erstellen - Deposit-Token '' @ depositToken @
        (case safeLabel label of None \<Rightarrow> [] | Some l \<Rightarrow> if l = [] then [] else '', Label '' @ quoted l) @ ''.'',
      ga_details = [''depositToken'' \<mapsto> JStr depositToken,
        ''label'' \<mapsto> (case label of None \<Rightarrow> JNull | Some l \<Rightarrow> JStr l)]\<rparr>"

definition created_vault :: "money_env \<Rightarrow> contract_receipt \<Rightarrow> js_error + string" where
  "created_vault env r =
     (case List.map_filter (created_log (me_vaultTopic env)) (cr_logs r) of
        [] \<Rightarrow> Inl (Thrown ''Vault-Adresse konnte nicht aus der Transaktion gelesen werden.'')
      | t # ts \<Rightarrow> (case be_getAddress (me_backend env) (''0x'' @ drop 26 t) of
            None \<Rightarrow> Inl (Thrown ''invalid address'') | Some a \<Rightarrow> Inr a))"

definition sendCreateVault :: "money_env \<Rightarrow> string \<Rightarrow> (string \<times> string \<times> nat) money_op" where
  "sendCreateVault env depositToken =
     ibind (contract_send env (vault_tx (me_factory env) ''createVault''
        [JStr (me_user env), JStr depositToken, JStr (me_salt env)] 500000)) (\<lambda>r.
     ibind (ilift (created_vault env r)) (\<lambda>address. iret (address, cr_hash r, cr_blockNumber r)))"

text \<open>The backend's part of an action.\<close>

definition on_backend :: "(backend, js_error, 'a) io \<Rightarrow> 'a money_op" where
  "on_backend m c = (case m (mn_backend c) of (b, r) \<Rightarrow> (c\<lparr>mn_backend := b\<rparr>, r))"

definition register_vault :: "money_env \<Rightarrow> string \<Rightarrow> string option \<Rightarrow> string \<Rightarrow> string \<Rightarrow> nat \<Rightarrow> unit money_op" where
  "register_vault env depositToken label address hash block =
     itry (ibind (on_backend (call_backend POST ''/vaults'' (createVault (me_backend env) (me_user env)
          \<lparr>cv_address = address, cv_chainId = me_chainId env, cv_depositToken = depositToken, cv_txHash = hash,
           cv_createdAtBlock = block, cv_label = label\<rparr>))) (\<lambda>_. iret ()))
       (\<lambda>err. ithrow (Thrown (''Vault '' @ address @ '' wurde on-chain erstellt (TX '' @ hash @
          ''), konnte aber nicht im Backend registriert werden: '' @ err_text err @
          ''. Bitte POST /vaults manuell mit address='' @ address @ '' wiederholen.'')))"

definition create_and_register :: "money_env \<Rightarrow> string \<Rightarrow> string option \<Rightarrow> ((string \<times> string) \<times> string option) money_op" where
  "create_and_register env depositToken label =
     ibind (sendCreateVault env depositToken) (\<lambda>(address, hash, block).
     ibind (register_vault env depositToken label address hash block) (\<lambda>_. iret ((address, hash), Some hash)))"

definition create_vault_tool :: "money_env \<Rightarrow> gate_env \<Rightarrow> string \<Rightarrow> string option \<Rightarrow> (string \<times> string) money_tool" where
  "create_vault_tool env genv depositToken label =
     checked (\<lambda>c. case me_accepted env of
         Inl e \<Rightarrow> Inl (ReadFailed e)
       | Inr tokens \<Rightarrow> if list_ex (\<lambda>t. lower t = lower depositToken) tokens then Inr () else Inl (NotAcceptedToken depositToken))
       (\<lambda>_. guarded genv (create_vault_action depositToken label) (create_and_register env depositToken label))"

section \<open>What is sent\<close>

definition sends_only :: "(contract_tx \<Rightarrow> bool) \<Rightarrow> money_chain \<Rightarrow> money_chain \<Rightarrow> bool" where
  "sends_only P c c' \<longleftrightarrow> mn_backend c' = mn_backend c \<and> (\<exists>txs. mn_sent c' = mn_sent c @ txs \<and> list_all P txs)"

lemma sends_only_refl: "reflp (sends_only P)"
  by (simp add: reflp_def sends_only_def)

lemma sends_only_trans: "transp (sends_only P)"
  unfolding transp_def sends_only_def by fastforce

lemmas sends_only_pure = always_pure [OF sends_only_refl]

lemma sends_only_send: "P tx \<Longrightarrow> always (sends_only P) (contract_send env tx)"
  by (simp add: always_def contract_send_def Let_def sends_only_def)

lemma sends_only_sends: "list_all P txs \<Longrightarrow> always (sends_only P) (iforM (contract_send env) txs)"
  by (induction txs) (auto intro!: always_ibind sends_only_trans sends_only_pure sends_only_send)

lemma sends_only_hash: "always (sends_only P) m \<Longrightarrow> always (sends_only P) (with_hash m)"
  unfolding with_hash_def by (intro always_ibind sends_only_trans sends_only_pure)

lemma sends_only_one: "P tx \<Longrightarrow> always (sends_only P) (send_one env tx)"
  unfolding send_one_def by (intro always_ibind sends_only_trans sends_only_pure sends_only_send)

definition deposit_tx :: "string \<Rightarrow> string \<Rightarrow> string \<Rightarrow> contract_tx \<Rightarrow> bool" where
  "deposit_tx vault token amountBase tx \<longleftrightarrow>
     tx \<in> {approve_tx token vault 0, approve_tx token vault MAX_ALLOWANCE, vault_tx vault ''deposit'' [JStr token, JStr amountBase] 300000}"

lemma deposit_sends: "always (sends_only (deposit_tx vault token amountBase)) (depositOnChain env vault token amountBase)"
proof -
  have "always (sends_only P) (read_allowance env token vault)" for P
    using reflpD [OF sends_only_refl] by (simp add: always_def read_allowance_def)
  moreover have "list_all (deposit_tx vault token amountBase) (approvals token vault a n)" for a n
    by (simp add: approvals_def deposit_tx_def)
  ultimately show ?thesis unfolding depositOnChain_def Let_def
    by (auto intro!: always_ibind always_itry sends_only_trans sends_only_pure sends_only_sends sends_only_send simp: deposit_tx_def)
qed

lemma guarded_sends:
  assumes "always (sends_only P) act" "guarded genv a act w = (w', r)"
  shows "sends_only P (gw_chain w) (gw_chain w')"
proof -
  obtain q where g: "guard genv (ask_user genv) a act w = (w', q)" using assms(2) by (auto simp: guarded_def split: prod.splits)
  have "always (\<lambda>w w'. sends_only P (gw_chain w) (gw_chain w')) (guard genv (ask_user genv) a act)"
    unfolding ask_user_def by (rule both.composite.guard_always [OF sends_only_refl sends_only_trans assms(1)])
  from alwaysD [OF this g] show ?thesis .
qed

lemma guarded_consent:
  assumes "guarded genv a act w = (w', r)" "fresh_token genv w" "gw_chain w' \<noteq> gw_chain w"
  shows "\<not> ge_readOnly genv \<and> (ga_sensitive a \<longrightarrow> user_consent a w w')"
proof -
  obtain q where g: "guard genv (ask_user genv) a act w = (w', q)" using assms(1) by (auto simp: guarded_def split: prod.splits)
  from both.composite.guard_signing(1) [OF g [unfolded ask_user_def] assms(2,3)]
    both.composite.guard_signed_consent [OF g [unfolded ask_user_def] assms(2,3)] show ?thesis by blast
qed

text \<open>The gate runs the action at most once, from the state of the chain it found.\<close>

definition lands :: "'c \<Rightarrow> 'c set \<Rightarrow> ('c gate_world, 'e, 'a) io \<Rightarrow> bool" where
  "lands c C m \<longleftrightarrow> (\<forall>w. gw_chain w = c \<longrightarrow> gw_chain (fst (m w)) \<in> C)"

lemma lands_keeps: "keeps gw_chain m \<Longrightarrow> c \<in> C \<Longrightarrow> lands c C m"
  by (auto simp: lands_def keeps_def)

lemma lands_ibind:
  assumes "keeps gw_chain m" "c \<in> C" "\<And>x. lands c C (f x)"
  shows "lands c C (ibind m f)"
  unfolding lands_def
proof (intro allI impI)
  fix w :: "'a gate_world" assume w: "gw_chain w = c"
  obtain v r where m: "m w = (v, r)" by fastforce
  from keepsD [OF assms(1) m] w have "gw_chain v = c" by simp
  with m assms(2,3) show "gw_chain (fst (ibind m f w)) \<in> C" by (cases r) (auto simp: ibind_def lands_def)
qed

lemma lands_itry:
  assumes "keeps gw_chain m" "c \<in> C" "\<And>e. lands c C (h e)"
  shows "lands c C (itry m h)"
  unfolding lands_def
proof (intro allI impI)
  fix w :: "'a gate_world" assume w: "gw_chain w = c"
  obtain v r where m: "m w = (v, r)" by fastforce
  from keepsD [OF assms(1) m] w have "gw_chain v = c" by simp
  with m assms(2,3) show "gw_chain (fst (itry m h w)) \<in> C" by (cases r) (auto simp: itry_def lands_def)
qed

lemma perform_lands: "lands c {c, fst (act c)} (perform env a act)"
  unfolding lands_def
proof (intro allI impI)
  fix w :: "'a gate_world" assume w: "gw_chain w = c"
  obtain c' r where e: "act c = (c', r)" by fastforce
  have aud: "gw_chain (fst (audit_record env a oc tx d v)) = gw_chain v" for oc tx d and v :: "'a gate_world"
    using keepsD [OF keeps_audit_chain [of env a oc tx d]] by (metis prod.collapse)
  have "gw_chain (fst (perform env a act w)) = c'"
  proof (cases r)
    case (Inl err)
    with e w aud [of OutError None "Some (error_detail err)" "w\<lparr>gw_chain := c'\<rparr>"] show ?thesis
      by (auto simp: perform_def itry_def ibind_def sign_def split: prod.split sum.split)
  next
    case (Inr p)
    obtain x tx where p: "p = (x, tx)" by (cases p)
    obtain v q where t: "audit_record env a OutSuccess tx None (w\<lparr>gw_chain := c'\<rparr>) = (v, q)" by fastforce
    have v: "gw_chain v = c'" using aud [of OutSuccess tx None "w\<lparr>gw_chain := c'\<rparr>"] t by simp
    show ?thesis
    proof (cases q)
      case (Inl err)
      with e w \<open>r = Inr p\<close> p t v aud [of OutError None "Some (error_detail err)" v] show ?thesis
        by (auto simp: perform_def itry_def ibind_def sign_def split: prod.split sum.split)
    qed (use e w Inr p t v in \<open>simp add: perform_def itry_def ibind_def sign_def\<close>)
  qed
  with e show "gw_chain (fst (perform env a act w)) \<in> {c, fst (act c)}" by simp
qed

context confirmation
begin

lemma guard_once: "lands c {c, fst (act c)} (guard env ask a act)"
proof -
  have "keeps gw_chain (ask a)" using frame [of a] by (simp add: keeps_def all_conj_distrib)
  moreover have "lands c {c, fst (act c)} (ithrow e)" for e :: js_error by (simp add: lands_def)
  ultimately show ?thesis unfolding guard_def
    by (auto intro!: perform_lands lands_itry lands_ibind keeps_audit_chain keeps_itry keeps_ibind intro: lands_keeps)
qed

end

lemma guarded_once:
  assumes "guarded genv a act w = (w', r)" "gw_chain w' \<noteq> gw_chain w"
  shows "gw_chain w' = fst (act (gw_chain w))"
proof -
  have "lands (gw_chain w) {gw_chain w, fst (act (gw_chain w))} (guard genv (ask_user genv) a act)"
    unfolding ask_user_def by (rule both.composite.guard_once)
  with assms show ?thesis unfolding lands_def guarded_def by (auto split: prod.splits)
qed

lemma send_one_sent: "mn_sent (fst (with_hash (send_one env tx) c)) = mn_sent c @ [tx]"
  by (simp add: with_hash_def send_one_def contract_send_def Let_def ibind_def split: sum.split)

lemma money_checked:
  assumes "checked check tool w = (w', r)" "gw_chain w' \<noteq> gw_chain w"
  obtains x where "check (gw_chain w) = Inr x" "tool x w = (w', r)"
  using assms by (auto simp: checked_def split: sum.splits)

section \<open>Properties\<close>

lemma as_bigint_nat: "as_bigint (show_nat n) = int n"
  using bigint_of_digits [of "show_nat n"] show_nat_digits [of _ n] by (simp add: as_bigint_def list_all_iff)

text \<open>An amount with these decimals, in base units.\<close>

definition units_of :: "string \<Rightarrow> nat \<Rightarrow> nat \<Rightarrow> bool" where
  "units_of amount d n \<longleftrightarrow> toBaseUnits amount (Fin (of_nat d)) = Inr (show_nat n)"

lemma base_amount_Inr: "base_amount amount dec = Inr s \<longleftrightarrow> (\<exists>d n. dec = Fin (of_nat d) \<and> units_of amount d n \<and> s = show_nat n)"
proof
  assume "base_amount amount dec = Inr s"
  then have t: "toBaseUnits amount dec = Inr s" by (cases "toBaseUnits amount dec") (auto simp: base_amount_def)
  then obtain d where "dec = Fin (of_nat d)" "s = show_nat (base_units (js_trim amount) d)" using toBaseUnits_Inr_iff by blast
  with t show "\<exists>d n. dec = Fin (of_nat d) \<and> units_of amount d n \<and> s = show_nat n" by (auto simp: units_of_def)
qed (auto simp: base_amount_def units_of_def)

lemma units_of_inj: "units_of amount d n \<Longrightarrow> units_of amount d m \<Longrightarrow> n = m"
  unfolding units_of_def by (metis dec_val_show_nat sum.inject(2))

definition within_limit :: "(string \<rightharpoonup> string) \<Rightarrow> string \<Rightarrow> nat \<Rightarrow> nat \<Rightarrow> bool" where
  "within_limit maxs token d n \<longleftrightarrow> (\<forall>limit. maxs (lower token) = Some limit \<longrightarrow> (\<exists>m. units_of limit d m \<and> n \<le> m))"

lemma checkMax_ok:
  assumes "units_of amount d n"
  shows "checkMax maxs token amount (Fin (of_nat d)) = Inr () \<longleftrightarrow> within_limit maxs token d n"
proof (cases "maxs (lower token)")
  case (Some limit)
  have a: "base_amount amount (Fin (of_nat d)) = Inr (show_nat n)" using assms by (auto simp: base_amount_Inr)
  show ?thesis
  proof (cases "base_amount limit (Fin (of_nat d))")
    case (Inl e)
    then have "\<nexists>m. units_of limit d m" by (auto simp: base_amount_def units_of_def)
    with Some a Inl show ?thesis by (auto simp: checkMax_def within_limit_def)
  next
    case (Inr s)
    then obtain m where m: "units_of limit d m" "s = show_nat m" by (auto simp: base_amount_Inr)
    with Some a Inr show ?thesis
      by (auto simp: checkMax_def within_limit_def as_bigint_nat dest: units_of_inj)
  qed
qed (simp add: checkMax_def within_limit_def)

lemma assertOwnedVault_ok:
  "assertOwnedVault env vault c = Inr () \<longleftrightarrow>
     (\<exists>v \<in> set (bk_vaults (mn_backend c)). vr_ownerAddress v = me_user env \<and> lower (vr_address v) = lower vault)"
  by (auto simp: assertOwnedVault_def call_backend_eq listVaults_def list_ex_iff)

lemma limited_amount_ok:
  assumes "limited_amount env tds maxs vault token amount c = Inr s"
  obtains d n where "tds (lower token) = Some (Fin (of_nat d))" "units_of amount d n" "s = show_nat n" "within_limit maxs token d n"
    "assertOwnedVault env vault c = Inr ()"
proof -
  from assms obtain dec where a: "assertOwnedVault env vault c = Inr ()" "tds (lower token) = Some dec"
    "checkMax maxs token amount dec = Inr ()" "base_amount amount dec = Inr s"
    by (auto simp: limited_amount_def tokenDecimalsOf_def result_simps split: option.splits)
  from a(4) obtain d n where "dec = Fin (of_nat d)" "units_of amount d n" "s = show_nat n" unfolding base_amount_Inr by blast
  with a checkMax_ok show ?thesis using that by metis
qed

text \<open>The vault belongs to the user, and the limit of the token (if there is one) is kept.\<close>

definition owned_vault :: "money_env \<Rightarrow> string \<Rightarrow> money_chain \<Rightarrow> bool" where
  "owned_vault env vault c \<longleftrightarrow>
     (\<exists>v \<in> set (bk_vaults (mn_backend c)). vr_ownerAddress v = me_user env \<and> lower (vr_address v) = lower vault)"

lemma money_sensitive [simp]:
  "ga_sensitive (deposit_action env vault token amount)" "ga_sensitive (withdraw_action env vault token amount recipient)"
  "ga_sensitive (create_vault_action token label)" "ga_sensitive (active_action vault i active) = active"
  by (simp_all add: deposit_action_def withdraw_action_def create_vault_action_def active_action_def)

section \<open>An example world\<close>

definition demo_money_env :: money_env where
  "demo_money_env = \<lparr>me_backend = demo_backend_env, me_user = ''O1'',
     me_receipt = (\<lambda>sent. Inr \<lparr>cr_hash = ''0xhash'', cr_blockNumber = 7,
       cr_logs = [[''topic'', ''0x000000000000000000000000A3'']]\<rparr>),
     me_allowance = (\<lambda>t v sent. Inr MAX_ALLOWANCE), me_fees = Inr (10, 50), me_accepted = Inr [''T''],
     me_factory = ''F'', me_salt = ''S'', me_vaultTopic = ''topic'', me_chainId = 56,
     me_estimate = (\<lambda>k v args. Inr ''21000'')\<rparr>"

definition demo_money_config :: money_config where
  "demo_money_config = \<lparr>mc_addressAllowlist = {''o1''}, mc_maxPerToken = [''t'' \<mapsto> ''9'']\<rparr>"

definition demo_money_world :: "money_chain gate_world" where
  "demo_money_world = \<lparr>gw_events = [], gw_browser = [], gw_client = [Reply ''accept'' [''confirm'' \<mapsto> JBool True]],
     gw_replies = [], gw_attempts = 0, gw_audit = [], gw_chain = \<lparr>mn_sent = [], mn_backend = demo_backend\<rparr>\<rparr>"

lemma demo_guarded:
  fixes act :: "('a \<times> string option) money_op"
  assumes "ga_sensitive a" "act (gw_chain demo_money_world) = (c, Inr (x, tx))"
  shows "\<exists>w'. guarded demo_gate a act demo_money_world = (w', Inr x) \<and> gw_chain w' = c"
proof -
  have "\<exists>v'. ask_user demo_gate a v = (v', Inr True)"
    if "user_view v = user_view demo_money_world" for v :: "money_chain gate_world"
    using that by (simp add: ask_user_def composite_ask_def itry_def elicitation_ask_def user_view_def demo_money_world_def getp_def)
  then have "\<exists>w'. guard demo_gate (ask_user demo_gate) a act demo_money_world = (w', Inr x) \<and> gw_chain w' = c"
    using assms unfolding ask_user_def by (intro both.composite.guard_approved) (auto simp: demo_gate_def)
  then show ?thesis by (auto simp: guarded_def)
qed

lemma demo_amounts: "toBaseUnits ''5'' (Fin 2) = Inr ''500''" "toBaseUnits ''9'' (Fin 2) = Inr ''900''"
  "as_bigint ''500'' = 500" "as_bigint ''900'' = 900"
  by code_simp+

lemma demo_limited:
  "limited_amount demo_money_env [''t'' \<mapsto> Fin 2] (mc_maxPerToken demo_money_config) ''a1'' ''T'' ''5'' (gw_chain demo_money_world) = Inr ''500''"
proof -
  have l: "lower ''T'' = ''t''" "lower ''A1'' = ''a1''" "lower ''a1'' = ''a1''" by code_simp+
  have "assertOwnedVault demo_money_env ''a1'' (gw_chain demo_money_world) = Inr ()"
    by (simp add: assertOwnedVault_ok demo_money_world_def demo_backend_def demo_vault_def demo_money_env_def l)
  then show ?thesis
    by (simp add: limited_amount_def tokenDecimalsOf_def checkMax_def base_amount_def demo_money_config_def demo_amounts l)
qed

lemma demo_deposit:
  "\<exists>w'. deposit demo_money_env demo_gate [''t'' \<mapsto> Fin 2] demo_money_config ''a1'' ''T'' ''5'' demo_money_world = (w', Inr ''0xhash'') \<and>
     mn_sent (gw_chain w') = [vault_tx ''a1'' ''deposit'' [JStr ''T'', JStr ''500''] 300000]"
proof -
  let ?tx = "vault_tx ''a1'' ''deposit'' [JStr ''T'', JStr ''500''] 300000"
  have "with_hash (depositOnChain demo_money_env ''a1'' ''T'' ''500'') (gw_chain demo_money_world) =
      (\<lparr>mn_sent = [?tx], mn_backend = demo_backend\<rparr>, Inr (''0xhash'', Some ''0xhash''))"
    by (simp add: with_hash_def depositOnChain_def read_allowance_def approvals_def demo_amounts MAX_ALLOWANCE_def
        contract_send_def itry_def Let_def demo_money_env_def demo_money_world_def)
  from demo_guarded [where a = "deposit_action demo_money_env ''a1'' ''T'' ''5''"
    and act = "with_hash (depositOnChain demo_money_env ''a1'' ''T'' ''500'')", OF money_sensitive(1) this]
  show ?thesis by (auto simp: deposit_def checked_def demo_limited)
qed

section \<open>Deposits and withdrawals\<close>

text \<open>C6. Whatever a deposit sends, it sends with the user's consent to this amount, token and vault, for a
  vault that the backend lists for the user, within the limit configured for the token, and only
  approvals of this token for this vault and deposits of exactly the amount in base units.\<close>

theorem deposit_is_safe:
  assumes "deposit env genv tds config vault token amount w = (w', r)" "fresh_token genv w" "gw_chain w' \<noteq> gw_chain w"
  shows "user_consent (deposit_action env vault token amount) w w' \<and> owned_vault env vault (gw_chain w) \<and>
    (\<exists>d n txs. tds (lower token) = Some (Fin (of_nat d)) \<and> units_of amount d n \<and> within_limit (mc_maxPerToken config) token d n \<and>
      mn_sent (gw_chain w') = mn_sent (gw_chain w) @ txs \<and> list_all (deposit_tx vault token (show_nat n)) txs)"
proof -
  from assms(1,3) obtain s where s: "limited_amount env tds (mc_maxPerToken config) vault token amount (gw_chain w) = Inr s"
    and g: "guarded genv (deposit_action env vault token amount) (with_hash (depositOnChain env vault token s)) w = (w', r)"
    unfolding deposit_def by (rule money_checked)
  from s obtain d n where dn: "tds (lower token) = Some (Fin (of_nat d))" "units_of amount d n" "s = show_nat n"
    "within_limit (mc_maxPerToken config) token d n" "assertOwnedVault env vault (gw_chain w) = Inr ()" by (rule limited_amount_ok)
  have "user_consent (deposit_action env vault token amount) w w'"
    using guarded_consent [OF g assms(2,3)] by (simp add: deposit_action_def)
  moreover note guarded_sends [OF sends_only_hash [OF deposit_sends] g]
  ultimately show ?thesis using dn by (auto simp: assertOwnedVault_ok owned_vault_def sends_only_def)
qed

theorem deposit_is_safe_witness:
  "\<exists>w' r. deposit demo_money_env demo_gate [''t'' \<mapsto> Fin 2] demo_money_config ''a1'' ''T'' ''5'' demo_money_world = (w', r) \<and>
     user_consent (deposit_action demo_money_env ''a1'' ''T'' ''5'') demo_money_world w' \<and>
     gw_chain w' \<noteq> gw_chain demo_money_world"
proof -
  obtain w' where w': "deposit demo_money_env demo_gate [''t'' \<mapsto> Fin 2] demo_money_config ''a1'' ''T'' ''5'' demo_money_world = (w', Inr ''0xhash'')"
    "mn_sent (gw_chain w') \<noteq> []" using demo_deposit by fastforce
  have "fresh_token demo_gate demo_money_world" "gw_chain w' \<noteq> gw_chain demo_money_world"
    using w'(2) by (auto simp: fresh_token_def asked_tokens_def demo_money_world_def)
  with deposit_is_safe [OF w'(1)] w'(1) show ?thesis by blast
qed

text \<open>C5. A withdrawal sends at most the one transaction of exactly this amount of this token to this
  recipient, and only when the recipient is on the allowlist, the amount within the limit, the vault
  the user's and the user has consented to precisely that.\<close>

theorem withdraw_is_safe:
  assumes "withdraw env genv tds config vault token amount recipient w = (w', r)" "fresh_token genv w" "gw_chain w' \<noteq> gw_chain w"
  shows "user_consent (withdraw_action env vault token amount recipient) w w' \<and> owned_vault env vault (gw_chain w) \<and>
    lower recipient \<in> mc_addressAllowlist config \<and>
    (\<exists>d n. tds (lower token) = Some (Fin (of_nat d)) \<and> units_of amount d n \<and> within_limit (mc_maxPerToken config) token d n \<and>
      mn_sent (gw_chain w') = mn_sent (gw_chain w) @
        [vault_tx vault ''withdraw'' [JStr token, JStr (show_nat n), JStr recipient] 300000])"
proof -
  from assms(1,3) obtain s where s: "withdraw_check env tds config vault token amount recipient (gw_chain w) = Inr s"
    and g: "guarded genv (withdraw_action env vault token amount recipient) (with_hash (withdrawOnChain env vault token s recipient)) w = (w', r)"
    unfolding withdraw_def by (rule money_checked)
  have allowed: "lower recipient \<in> mc_addressAllowlist config"
    and "limited_amount env tds (mc_maxPerToken config) vault token amount (gw_chain w) = Inr s"
    using s by (auto simp: withdraw_check_def limited_amount_def result_simps split: if_splits)
  from this(2) obtain d n where dn: "tds (lower token) = Some (Fin (of_nat d))" "units_of amount d n" "s = show_nat n"
    "within_limit (mc_maxPerToken config) token d n" "assertOwnedVault env vault (gw_chain w) = Inr ()" by (rule limited_amount_ok)
  let ?tx = "vault_tx vault ''withdraw'' [JStr token, JStr s, JStr recipient] 300000"
  have "user_consent (withdraw_action env vault token amount recipient) w w'"
    using guarded_consent [OF g assms(2,3)] by (simp add: withdraw_action_def)
  moreover have "mn_sent (gw_chain w') = mn_sent (gw_chain w) @ [?tx]"
    using guarded_once [OF g assms(3)] by (simp add: withdrawOnChain_def send_one_sent)
  ultimately show ?thesis using dn allowed by (auto simp: assertOwnedVault_ok owned_vault_def)
qed

lemma demo_withdraw:
  "\<exists>w'. withdraw demo_money_env demo_gate [''t'' \<mapsto> Fin 2] demo_money_config ''a1'' ''T'' ''5'' ''O1'' demo_money_world = (w', Inr ''0xhash'') \<and>
     mn_sent (gw_chain w') = [vault_tx ''a1'' ''withdraw'' [JStr ''T'', JStr ''500'', JStr ''O1''] 300000]"
proof -
  let ?tx = "vault_tx ''a1'' ''withdraw'' [JStr ''T'', JStr ''500'', JStr ''O1''] 300000"
  have l: "lower ''O1'' = ''o1''" by code_simp
  have "withdraw_check demo_money_env [''t'' \<mapsto> Fin 2] demo_money_config ''a1'' ''T'' ''5'' ''O1'' (gw_chain demo_money_world) = Inr ''500''"
    using demo_limited l by (simp add: limited_amount_def withdraw_check_def result_simps demo_money_config_def)
  moreover have "with_hash (withdrawOnChain demo_money_env ''a1'' ''T'' ''500'' ''O1'') (gw_chain demo_money_world) =
      (\<lparr>mn_sent = [?tx], mn_backend = demo_backend\<rparr>, Inr (''0xhash'', Some ''0xhash''))"
    by (simp add: with_hash_def withdrawOnChain_def send_one_def contract_send_def Let_def demo_money_env_def demo_money_world_def)
  note demo_guarded [where a = "withdraw_action demo_money_env ''a1'' ''T'' ''5'' ''O1''" and act = "with_hash (withdrawOnChain demo_money_env ''a1'' ''T'' ''500'' ''O1'')", OF money_sensitive(2) this]
  ultimately show ?thesis by (auto simp: withdraw_def checked_def)
qed

theorem withdraw_is_safe_witness:
  "\<exists>w' r. withdraw demo_money_env demo_gate [''t'' \<mapsto> Fin 2] demo_money_config ''a1'' ''T'' ''5'' ''O1'' demo_money_world = (w', r) \<and>
     user_consent (withdraw_action demo_money_env ''a1'' ''T'' ''5'' ''O1'') demo_money_world w' \<and>
     gw_chain w' \<noteq> gw_chain demo_money_world"
proof -
  obtain w' where w': "withdraw demo_money_env demo_gate [''t'' \<mapsto> Fin 2] demo_money_config ''a1'' ''T'' ''5'' ''O1'' demo_money_world = (w', Inr ''0xhash'')"
    "mn_sent (gw_chain w') \<noteq> []" using demo_withdraw by fastforce
  have "fresh_token demo_gate demo_money_world" "gw_chain w' \<noteq> gw_chain demo_money_world"
    using w'(2) by (auto simp: fresh_token_def asked_tokens_def demo_money_world_def)
  with withdraw_is_safe [OF w'(1)] w'(1) show ?thesis by blast
qed

section \<open>Lifecycle writes\<close>

text \<open>What a tool with one transaction did when something was sent.\<close>

lemma one_transaction:
  assumes "checked check (\<lambda>x. guarded genv a (with_hash (send_one env (tx x)))) w = (w', r)" "fresh_token genv w"
    "gw_chain w' \<noteq> gw_chain w"
  obtains x where "check (gw_chain w) = Inr x" "mn_sent (gw_chain w') = mn_sent (gw_chain w) @ [tx x]"
    "\<not> ge_readOnly genv" "ga_sensitive a \<longrightarrow> user_consent a w w'"
proof -
  from assms(1,3) obtain x where "check (gw_chain w) = Inr x" "guarded genv a (with_hash (send_one env (tx x))) w = (w', r)"
    by (rule money_checked)
  with guarded_once [OF this(2) assms(3)] guarded_consent [OF this(2) assms(2,3)] send_one_sent that show ?thesis by metis
qed

text \<open>Changing the activity of an automation sends the one transaction for this automation of a vault of
  the user; resuming one needs the user's consent, pausing does not.\<close>

theorem resuming_needs_consent:
  assumes "setAutomationActive env genv vault i active w = (w', r)" "fresh_token genv w" "gw_chain w' \<noteq> gw_chain w"
  shows "owned_vault env vault (gw_chain w) \<and> (active \<longrightarrow> user_consent (active_action vault i active) w w') \<and>
    mn_sent (gw_chain w') = mn_sent (gw_chain w) @
      [vault_tx vault ''setAutomationActive'' [JNum (Fin (of_int i)), JBool active] 100000]"
  using assms(1) unfolding setAutomationActive_def setAutomationActiveOnChain_def
  by (rule one_transaction [OF _ assms(2,3)]) (auto simp: assertOwnedVault_ok owned_vault_def)

lemma topUp_within_limit:
  assumes "topUpGasDeposit env genv tds config vault token amount w = (w', r)" "fresh_token genv w" "gw_chain w' \<noteq> gw_chain w"
  shows "owned_vault env vault (gw_chain w) \<and>
    (\<exists>d n. tds (lower token) = Some (Fin (of_nat d)) \<and> units_of amount d n \<and> within_limit (mc_maxPerToken config) token d n \<and>
      mn_sent (gw_chain w') = mn_sent (gw_chain w) @ [vault_tx vault ''depositFees'' [JStr token, JStr (show_nat n)] 200000])"
  using assms(1) unfolding topUpGasDeposit_def topUpGasOnChain_def
proof (rule one_transaction [OF _ assms(2,3)])
  fix s assume s: "limited_amount env tds (mc_maxPerToken config) vault token amount (gw_chain w) = Inr s"
    "mn_sent (gw_chain w') = mn_sent (gw_chain w) @ [vault_tx vault ''depositFees'' [JStr token, JStr s] 200000]"
  from s(1) show ?thesis by (rule limited_amount_ok) (use s(2) in \<open>auto simp: assertOwnedVault_ok owned_vault_def\<close>)
qed

lemma demo_resume:
  "\<exists>w'. setAutomationActive demo_money_env demo_gate ''a1'' 0 True demo_money_world = (w', Inr ''0xhash'') \<and>
     mn_sent (gw_chain w') = [vault_tx ''a1'' ''setAutomationActive'' [JNum (Fin 0), JBool True] 100000]"
proof -
  let ?tx = "vault_tx ''a1'' ''setAutomationActive'' [JNum (Fin 0), JBool True] 100000"
  have "lower ''A1'' = ''a1''" "lower ''a1'' = ''a1''" by code_simp+
  then have "assertOwnedVault demo_money_env ''a1'' (gw_chain demo_money_world) = Inr ()"
    by (simp add: assertOwnedVault_ok demo_money_world_def demo_backend_def demo_vault_def demo_money_env_def)
  moreover have "with_hash (setAutomationActiveOnChain demo_money_env ''a1'' 0 True) (gw_chain demo_money_world) =
      (\<lparr>mn_sent = [?tx], mn_backend = demo_backend\<rparr>, Inr (''0xhash'', Some ''0xhash''))"
    by (simp add: with_hash_def setAutomationActiveOnChain_def send_one_def contract_send_def Let_def demo_money_env_def demo_money_world_def)
  note demo_guarded [where a = "active_action ''a1'' 0 True" and act = "with_hash (setAutomationActiveOnChain demo_money_env ''a1'' 0 True)", OF _ this]
  ultimately show ?thesis by (auto simp: setAutomationActive_def checked_def)
qed

theorem resuming_needs_consent_witness:
  "\<exists>w' r. setAutomationActive demo_money_env demo_gate ''a1'' 0 True demo_money_world = (w', r) \<and>
     user_consent (active_action ''a1'' 0 True) demo_money_world w' \<and> gw_chain w' \<noteq> gw_chain demo_money_world"
proof -
  obtain w' where w': "setAutomationActive demo_money_env demo_gate ''a1'' 0 True demo_money_world = (w', Inr ''0xhash'')"
    "mn_sent (gw_chain w') \<noteq> []" using demo_resume by fastforce
  have "fresh_token demo_gate demo_money_world" "gw_chain w' \<noteq> gw_chain demo_money_world"
    using w'(2) by (auto simp: fresh_token_def asked_tokens_def demo_money_world_def)
  with resuming_needs_consent [OF w'(1)] w'(1) show ?thesis by blast
qed

section \<open>A vault that the backend refuses\<close>

definition create_tx :: "money_env \<Rightarrow> string \<Rightarrow> contract_tx" where
  "create_tx env depositToken = vault_tx (me_factory env) ''createVault'' [JStr (me_user env), JStr depositToken, JStr (me_salt env)] 500000"

lemma sendCreateVault_ok:
  assumes "me_receipt env (mn_sent c @ [create_tx env token]) = Inr r" "created_vault env r = Inr address"
  shows "sendCreateVault env token c =
    (c\<lparr>mn_sent := mn_sent c @ [create_tx env token]\<rparr>, Inr (address, cr_hash r, cr_blockNumber r))"
  using assms by (simp add: sendCreateVault_def contract_send_def create_tx_def Let_def)

lemma conflict_is_swallowed:
  assumes "snd (createVault (me_backend env) (me_user env) \<lparr>cv_address = address, cv_chainId = me_chainId env, cv_depositToken = token,
      cv_txHash = hash, cv_createdAtBlock = block, cv_label = label\<rparr> (mn_backend c)) = Inl (ApiConflict e)"
    and "fst (createVault (me_backend env) (me_user env) \<lparr>cv_address = address, cv_chainId = me_chainId env, cv_depositToken = token,
      cv_txHash = hash, cv_createdAtBlock = block, cv_label = label\<rparr> (mn_backend c)) = mn_backend c"
  shows "register_vault env token label address hash block c = (c, Inr ())"
proof -
  have "call_backend POST ''/vaults'' (createVault (me_backend env) (me_user env) \<lparr>cv_address = address, cv_chainId = me_chainId env,
      cv_depositToken = token, cv_txHash = hash, cv_createdAtBlock = block, cv_label = label\<rparr>) (mn_backend c) = (mn_backend c, Inr None)"
    using assms by (simp add: call_backend_eq prod_eq_iff split: prod.split sum.split) (simp add: read_reply_def error_status_def)
  then show ?thesis unfolding register_vault_def by (intro itry_Inr) (simp add: on_backend_def)
qed

text \<open>C26. A vault created without a label whose default label the owner already uses is never registered: the
  backend answers 409 LABEL_ALREADY_EXISTS, the client takes every 409 of a POST for "already there",
  and the tool reports success for a vault that no backend call lists.\<close>

theorem unregistered_vault_is_reported:
  assumes "me_receipt env (mn_sent c @ [create_tx env token]) = Inr r" "created_vault env r = Inr address"
    and "be_getAddress (me_backend env) address = Some a" "vault_at (mn_backend c) a = None"
    and "validateOnChain (me_backend env) a (me_user env) = Inr ()"
    and "v \<in> set (bk_vaults (mn_backend c))" "vr_ownerAddress v = me_user env"
    and "vr_label v = ''Vault #'' @ show_nat (length (listVaults (me_user env) (mn_backend c)) + 1)"
  shows "create_and_register env token None c =
    (c\<lparr>mn_sent := mn_sent c @ [create_tx env token]\<rparr>, Inr ((address, cr_hash r), Some (cr_hash r)))"
proof -
  let ?c = "c\<lparr>mn_sent := mn_sent c @ [create_tx env token]\<rparr>"
  let ?dto = "\<lparr>cv_address = address, cv_chainId = me_chainId env, cv_depositToken = token, cv_txHash = cr_hash r,
    cv_createdAtBlock = cr_blockNumber r, cv_label = None\<rparr>"
  have "createVault (me_backend env) (me_user env) ?dto (mn_backend ?c) = (mn_backend ?c, Inl (ApiConflict ''LABEL_ALREADY_EXISTS''))"
    using default_label_taken [where dto = ?dto] assms(3-8) by (simp add: listVaults_def)
  then have "register_vault env token None address (cr_hash r) (cr_blockNumber r) ?c = (?c, Inr ())"
    by (intro conflict_is_swallowed) simp_all
  then show ?thesis using sendCreateVault_ok [OF assms(1,2)] by (simp add: create_and_register_def)
qed

theorem unregistered_vault_is_reported_witness:
  "\<exists>c c'. create_and_register demo_money_env ''T'' None c = (c', Inr ((''0xA3'', ''0xhash''), Some ''0xhash'')) \<and>
     list_all (\<lambda>v. vr_address v \<noteq> ''0xA3'') (bk_vaults (mn_backend c'))"
proof -
  let ?b = "demo_backend\<lparr>bk_vaults := [(demo_vault ''v1'' ''A1'' ''O1'')\<lparr>vr_label := ''Vault #2''\<rparr>]\<rparr>"
  let ?c = "\<lparr>mn_sent = [], mn_backend = ?b\<rparr>"
  have "show_nat (Suc (Suc 0)) = ''2''" by code_simp
  then have "create_and_register demo_money_env ''T'' None ?c =
      (?c\<lparr>mn_sent := [create_tx demo_money_env ''T'']\<rparr>, Inr ((''0xA3'', ''0xhash''), Some ''0xhash''))"
    using unregistered_vault_is_reported [where env = demo_money_env and c = ?c and token = "''T''" and a = "''0xA3''"
        and address = "''0xA3''" and v = "(demo_vault ''v1'' ''A1'' ''O1'')\<lparr>vr_label := ''Vault #2''\<rparr>"]
    by (simp add: demo_money_env_def created_vault_def map_filter_def demo_backend_env_def vault_at_def
        validateOnChain_def demo_vault_def listVaults_def)
  then show ?thesis by (intro exI [of _ ?c] exI) (auto simp: demo_vault_def)
qed

end
