(* ===== verification/Auth.thy ===== *)
theory Auth
  imports Client
begin

text \<open>
  Signing in with a wallet: the backend's nonces, logins and refresh tokens (auth.service.ts,
  signature.service.ts, user.service.ts, wallet-auth.guard.ts), the MCP server's handshake
  (auth-client.ts, session.ts) and the browser's fetch with its silent refresh (api.ts). The siwe
  package, SHA-256, the JWT library and the keystore are parameters; random values and clock readings
  are arguments of each operation. A login is two database steps, between which others may run.
  Lemmas: what a session can rest on after any interleaving, and when the handshake succeeds.
\<close>

section \<open>The tables\<close>

record nonce_row =
  nr_nonce :: string
  nr_expiresAt :: int
  nr_used :: bool

record user_row =
  ur_walletAddress :: string
  ur_lastLoginAt :: int

record token_row =
  tk_hash :: string
  tk_walletAddress :: string
  tk_expiresAt :: int

record auth_db =
  au_nonces :: "nonce_row list"
  au_users :: "user_row list"
  au_tokens :: "token_row list"

record siwe_message =
  sm_domain :: string
  sm_address :: string
  sm_statement :: string
  sm_uri :: string
  sm_version :: string
  sm_chainId :: nat
  sm_nonce :: string
  sm_issuedAt :: int

text \<open>
  The packages: \<open>new SiweMessage(text)\<close> (\<open>None\<close> when it throws), its \<open>verify\<close> (the address of a
  success), the host of \<open>FRONTEND_URL\<close>, the checksum, SHA-256 and the JWT.
\<close>

datatype jwt_verdict = JwtValid string | JwtExpired | JwtInvalid

record auth_env =
  ae_parse :: "string \<Rightarrow> siwe_message option"
  ae_siweVerify :: "siwe_message \<Rightarrow> string \<Rightarrow> string \<Rightarrow> string \<Rightarrow> js_error + string option"
  ae_domain :: "string option"
  ae_getAddress :: "string \<Rightarrow> string option"
  ae_sha256 :: "string \<Rightarrow> string"
  ae_jwtSign :: "string \<Rightarrow> int \<Rightarrow> string"
  ae_jwtVerify :: "string \<Rightarrow> int \<Rightarrow> jwt_verdict"
  ae_nonceSeconds :: int
  ae_refreshDays :: int

datatype auth_error = Unauthorized string | AuthFailed string

type_synonym 'a auth = "(auth_db, auth_error, 'a) io"

section \<open>Nonces\<close>

definition generateNonce :: "auth_env \<Rightarrow> string \<Rightarrow> int \<Rightarrow> string auth" where
  "generateNonce env nonce now db =
     (if list_ex (\<lambda>r. nr_nonce r = nonce) (au_nonces db) then (db, Inl (AuthFailed ''P2002''))
      else (db\<lparr>au_nonces := au_nonces db @
          [\<lparr>nr_nonce = nonce, nr_expiresAt = now + ae_nonceSeconds env * 1000, nr_used = False\<rparr>]\<rparr>, Inr nonce))"

definition live_nonce :: "string \<Rightarrow> int \<Rightarrow> nonce_row \<Rightarrow> bool" where
  "live_nonce nonce now r \<longleftrightarrow> nr_nonce r = nonce \<and> \<not> nr_used r \<and> nr_expiresAt r > now"

text \<open>\<open>updateMany\<close>: one atomic statement, answered with the number of rows it changed.\<close>

definition consume_nonce :: "string \<Rightarrow> int \<Rightarrow> auth_db \<Rightarrow> auth_db \<times> nat" where
  "consume_nonce nonce now db =
     (db\<lparr>au_nonces := map (\<lambda>r. if live_nonce nonce now r then r\<lparr>nr_used := True\<rparr> else r) (au_nonces db)\<rparr>,
      length (filter (live_nonce nonce now) (au_nonces db)))"

section \<open>Logging in\<close>

text \<open>\<open>SignatureService.verify\<close>: the address of a success.\<close>

definition signature_verify :: "auth_env \<Rightarrow> string \<Rightarrow> string \<Rightarrow> string \<Rightarrow> string \<Rightarrow> string option" where
  "signature_verify env message signature expectedDomain expectedNonce =
     (case ae_parse env message of
        None \<Rightarrow> None
      | Some m \<Rightarrow> (case ae_siweVerify env m signature expectedDomain expectedNonce of Inl _ \<Rightarrow> None | Inr a \<Rightarrow> a))"

definition findOrCreate :: "auth_env \<Rightarrow> string \<Rightarrow> int \<Rightarrow> string auth" where
  "findOrCreate env wallet now db =
     (case ae_getAddress env wallet of
        None \<Rightarrow> (db, Inl (AuthFailed ''invalid address''))
      | Some w \<Rightarrow>
          (if list_ex (\<lambda>u. ur_walletAddress u = w) (au_users db)
           then db\<lparr>au_users := map (\<lambda>u. if ur_walletAddress u = w then u\<lparr>ur_lastLoginAt := now\<rparr> else u) (au_users db)\<rparr>
           else db\<lparr>au_users := au_users db @ [\<lparr>ur_walletAddress = w, ur_lastLoginAt = now\<rparr>]\<rparr>, Inr w))"

definition store_token :: "auth_env \<Rightarrow> string \<Rightarrow> string \<Rightarrow> int \<Rightarrow> unit auth" where
  "store_token env refreshToken wallet now db =
     (if list_ex (\<lambda>r. tk_hash r = ae_sha256 env refreshToken) (au_tokens db) then (db, Inl (AuthFailed ''P2002''))
      else (db\<lparr>au_tokens := au_tokens db @ [\<lparr>tk_hash = ae_sha256 env refreshToken, tk_walletAddress = wallet,
          tk_expiresAt = now + ae_refreshDays env * 24 * 60 * 60 * 1000\<rparr>]\<rparr>, Inr ()))"

text \<open>\<open>AuthService.verify\<close> up to its first \<open>await\<close>, and the rest.\<close>

definition begin_verify :: "auth_env \<Rightarrow> string \<Rightarrow> int \<Rightarrow> siwe_message auth" where
  "begin_verify env message now db =
     (case ae_parse env message of
        None \<Rightarrow> (db, Inl (AuthFailed ''invalid message''))
      | Some parsed \<Rightarrow>
          (case consume_nonce (sm_nonce parsed) now db of
             (db', n) \<Rightarrow> (db', if n = 0 then Inl (Unauthorized ''NONCE_INVALID'') else Inr parsed)))"

record session_tokens =
  st_accessToken :: string
  st_refreshToken :: string

definition finish_verify :: "auth_env \<Rightarrow> string \<Rightarrow> string \<Rightarrow> siwe_message \<Rightarrow> string \<Rightarrow> int \<Rightarrow> session_tokens auth" where
  "finish_verify env message signature parsed refreshToken now =
     (case ae_domain env of
        None \<Rightarrow> ithrow (AuthFailed ''Invalid URL'')
      | Some expectedDomain \<Rightarrow>
          (case signature_verify env message signature expectedDomain (sm_nonce parsed) of
             None \<Rightarrow> ithrow (Unauthorized ''SIGNATURE_INVALID'')
           | Some a \<Rightarrow>
               if a = [] then ithrow (Unauthorized ''SIGNATURE_INVALID'')
               else ibind (findOrCreate env a now) (\<lambda>wallet.
                    ibind (store_token env refreshToken wallet now) (\<lambda>_.
                    iret \<lparr>st_accessToken = ae_jwtSign env wallet now, st_refreshToken = refreshToken\<rparr>))))"

definition verify :: "auth_env \<Rightarrow> string \<Rightarrow> string \<Rightarrow> string \<Rightarrow> int \<Rightarrow> session_tokens auth" where
  "verify env message signature refreshToken now =
     ibind (begin_verify env message now) (\<lambda>parsed. finish_verify env message signature parsed refreshToken now)"

definition find_token :: "string \<Rightarrow> auth_db \<Rightarrow> token_row option" where
  "find_token hash db = List.find (\<lambda>r. tk_hash r = hash) (au_tokens db)"

definition refresh :: "auth_env \<Rightarrow> string \<Rightarrow> int \<Rightarrow> string auth" where
  "refresh env refreshToken now db =
     (case find_token (ae_sha256 env refreshToken) db of
        None \<Rightarrow> (db, Inl (Unauthorized ''REFRESH_TOKEN_INVALID''))
      | Some stored \<Rightarrow>
          (db, if tk_expiresAt stored < now then Inl (Unauthorized ''REFRESH_TOKEN_INVALID'')
               else Inr (ae_jwtSign env (tk_walletAddress stored) now)))"

text \<open>\<open>WalletAuthGuard\<close> with passport's JWT strategy: the user of a request, none for a public route.\<close>

definition wallet_guard :: "auth_env \<Rightarrow> bool \<Rightarrow> string option \<Rightarrow> int \<Rightarrow> auth_error + string option" where
  "wallet_guard env isPublic token now =
     (if isPublic then Inr None
      else case token of
        None \<Rightarrow> Inl (Unauthorized ''UNAUTHORIZED'')
      | Some t \<Rightarrow> (case ae_jwtVerify env t now of
            JwtExpired \<Rightarrow> Inl (Unauthorized ''TOKEN_EXPIRED'')
          | JwtInvalid \<Rightarrow> Inl (Unauthorized ''UNAUTHORIZED'')
          | JwtValid w \<Rightarrow> Inr (Some w)))"

section \<open>Any interleaving of requests\<close>

text \<open>
  The requests of any number of callers; a login begins and finishes separately. \<open>FinishLogin\<close> names the
  pending login by its place. The log is what was granted.
\<close>

datatype auth_event =
    AskNonce string int
  | BeginLogin string string int
  | FinishLogin nat string int
  | AskRefresh string int

datatype auth_fact =
    Issued string int
  | Taken string int
  | LoggedIn string string string string string int
  | Renewed string string int

record auth_run =
  ar_db :: auth_db
  ar_pending :: "(string \<times> string \<times> siwe_message) list"
  ar_log :: "auth_fact list"

definition drop_nth :: "nat \<Rightarrow> 'a list \<Rightarrow> 'a list" where
  "drop_nth i xs = take i xs @ drop (Suc i) xs"

fun auth_step :: "auth_env \<Rightarrow> auth_event \<Rightarrow> auth_run \<Rightarrow> auth_run" where
  "auth_step env (AskNonce nonce now) w =
     (case generateNonce env nonce now (ar_db w) of
        (db, Inl e) \<Rightarrow> w
      | (db, Inr n) \<Rightarrow> w\<lparr>ar_db := db, ar_log := ar_log w @ [Issued n now]\<rparr>)"
| "auth_step env (BeginLogin message signature now) w =
     (case begin_verify env message now (ar_db w) of
        (db, Inl e) \<Rightarrow> w\<lparr>ar_db := db\<rparr>
      | (db, Inr m) \<Rightarrow> w\<lparr>ar_db := db, ar_pending := ar_pending w @ [(message, signature, m)],
          ar_log := ar_log w @ [Taken (sm_nonce m) now]\<rparr>)"
| "auth_step env (FinishLogin i token now) w =
     (if i < length (ar_pending w) then
        (case ar_pending w ! i of (message, signature, m) \<Rightarrow>
          (case finish_verify env message signature m token now (ar_db w) of
             (db, Inl e) \<Rightarrow> w\<lparr>ar_db := db, ar_pending := drop_nth i (ar_pending w)\<rparr>
           | (db, Inr t) \<Rightarrow> w\<lparr>ar_db := db, ar_pending := drop_nth i (ar_pending w),
               ar_log := ar_log w @ [LoggedIn (sm_nonce m) message signature (st_accessToken t) (ae_sha256 env token) now]\<rparr>))
      else w)"
| "auth_step env (AskRefresh token now) w =
     (case refresh env token now (ar_db w) of
        (db, Inl e) \<Rightarrow> w
      | (db, Inr t) \<Rightarrow> w\<lparr>ar_log := ar_log w @ [Renewed (ae_sha256 env token) t now]\<rparr>)"

definition auth_start :: auth_run where
  "auth_start = \<lparr>ar_db = \<lparr>au_nonces = [], au_users = [], au_tokens = []\<rparr>, ar_pending = [], ar_log = []\<rparr>"

definition auth_runs :: "auth_env \<Rightarrow> auth_event list \<Rightarrow> auth_run" where
  "auth_runs env evs = fold (auth_step env) evs auth_start"

text \<open>
  What must have happened before: a nonce is taken once, within its lifetime, after it was issued; a
  login rests on a message with a nonce that was taken for it and never led to a login, signed for
  this site by the address that is logged in; a renewal rests on a login at most the configured number of days ago.
\<close>

definition signed_by :: "auth_env \<Rightarrow> string \<Rightarrow> string \<Rightarrow> string \<Rightarrow> bool" where
  "signed_by env message signature wallet \<longleftrightarrow>
     (\<exists>parsed domain address. ae_parse env message = Some parsed \<and> ae_domain env = Some domain \<and>
        ae_siweVerify env parsed signature domain (sm_nonce parsed) = Inr (Some address) \<and> ae_getAddress env address = Some wallet)"

fun justified :: "auth_env \<Rightarrow> auth_fact list \<Rightarrow> auth_fact \<Rightarrow> bool" where
  "justified env past (Issued n t) \<longleftrightarrow> (\<forall>t0. Issued n t0 \<notin> set past)"
| "justified env past (Taken n t) \<longleftrightarrow> (\<forall>t0. Taken n t0 \<notin> set past) \<and>
     (\<exists>t0. Issued n t0 \<in> set past \<and> t < t0 + ae_nonceSeconds env * 1000)"
| "justified env past (LoggedIn n message signature access hash t) \<longleftrightarrow>
     (\<forall>m s a h t0. LoggedIn n m s a h t0 \<notin> set past) \<and> (\<exists>t0. Taken n t0 \<in> set past) \<and>
     map_option sm_nonce (ae_parse env message) = Some n \<and>
     (\<exists>wallet. signed_by env message signature wallet \<and> access = ae_jwtSign env wallet t)"
| "justified env past (Renewed hash access t) \<longleftrightarrow>
     (\<exists>n m s wallet t0. LoggedIn n m s (ae_jwtSign env wallet t0) hash t0 \<in> set past \<and> signed_by env m s wallet \<and>
        t \<le> t0 + ae_refreshDays env * 24 * 60 * 60 * 1000 \<and> access = ae_jwtSign env wallet t)"

definition auth_sound :: "auth_env \<Rightarrow> auth_fact list \<Rightarrow> bool" where
  "auth_sound env facts \<longleftrightarrow> (\<forall>i < length facts. justified env (take i facts) (facts ! i))"

lemma auth_sound_Nil [simp]: "auth_sound env []"
  by (simp add: auth_sound_def)

lemma auth_sound_snoc: "auth_sound env (facts @ [f]) \<longleftrightarrow> auth_sound env facts \<and> justified env facts f"
  by (auto simp: auth_sound_def nth_append less_Suc_eq)

definition issued_row :: "auth_env \<Rightarrow> auth_fact list \<Rightarrow> nonce_row \<Rightarrow> bool" where
  "issued_row env facts r \<longleftrightarrow> (\<exists>t. Issued (nr_nonce r) t \<in> set facts \<and> nr_expiresAt r = t + ae_nonceSeconds env * 1000) \<and>
     (\<not> nr_used r \<longrightarrow> (\<forall>t. Taken (nr_nonce r) t \<notin> set facts))"

definition nonces_ok :: "auth_env \<Rightarrow> auth_fact list \<Rightarrow> nonce_row list \<Rightarrow> bool" where
  "nonces_ok env facts rows \<longleftrightarrow> (\<forall>n t. Issued n t \<in> set facts \<longrightarrow> n \<in> set (map nr_nonce rows)) \<and>
     list_all (issued_row env facts) rows \<and> distinct (map nr_nonce rows)"

definition pending_ok :: "auth_env \<Rightarrow> auth_fact list \<Rightarrow> string \<times> string \<times> siwe_message \<Rightarrow> bool" where
  "pending_ok env facts p \<longleftrightarrow> (case p of (message, signature, m) \<Rightarrow> ae_parse env message = Some m \<and>
     (\<exists>t. Taken (sm_nonce m) t \<in> set facts) \<and> (\<forall>m' s w h t. LoggedIn (sm_nonce m) m' s w h t \<notin> set facts))"

definition token_ok :: "auth_env \<Rightarrow> auth_fact list \<Rightarrow> token_row \<Rightarrow> bool" where
  "token_ok env facts r \<longleftrightarrow> (\<exists>n m s t. LoggedIn n m s (ae_jwtSign env (tk_walletAddress r) t) (tk_hash r) t \<in> set facts \<and>
     signed_by env m s (tk_walletAddress r) \<and> tk_expiresAt r = t + ae_refreshDays env * 24 * 60 * 60 * 1000)"

definition auth_inv :: "auth_env \<Rightarrow> auth_run \<Rightarrow> bool" where
  "auth_inv env w \<longleftrightarrow> auth_sound env (ar_log w) \<and>
     nonces_ok env (ar_log w) (au_nonces (ar_db w)) \<and>
     list_all (pending_ok env (ar_log w)) (ar_pending w) \<and> distinct (map (\<lambda>(_, _, m). sm_nonce m) (ar_pending w)) \<and>
     list_all (token_ok env (ar_log w)) (au_tokens (ar_db w))"

text \<open>The relations to the log survive facts of other kinds.\<close>

lemma token_ok_snoc: "token_ok env facts r \<Longrightarrow> token_ok env (facts @ [f]) r"
  by (auto simp: token_ok_def)

lemma consumed:
  assumes "begin_verify env message now db = (db', Inr m)"
  obtains r where "ae_parse env message = Some m" "r \<in> set (au_nonces db)" "live_nonce (sm_nonce m) now r"
    "db' = fst (consume_nonce (sm_nonce m) now db)"
proof -
  from assms have p: "ae_parse env message = Some m" "db' = fst (consume_nonce (sm_nonce m) now db)"
    "filter (live_nonce (sm_nonce m) now) (au_nonces db) \<noteq> []"
    by (auto simp: begin_verify_def consume_nonce_def split: option.splits if_splits)
  from p(3) obtain r where "r \<in> set (au_nonces db)" "live_nonce (sm_nonce m) now r" by (auto simp: filter_empty_conv)
  with p(1,2) that show ?thesis by blast
qed

lemma finished:
  assumes "finish_verify env message signature m token now db = (db', Inr t)"
  obtains d a w where "ae_parse env message \<noteq> None" "ae_domain env = Some d" "signature_verify env message signature d (sm_nonce m) = Some a"
    "ae_getAddress env a = Some w" "au_nonces db' = au_nonces db"
    "au_tokens db' = au_tokens db @ [\<lparr>tk_hash = ae_sha256 env token, tk_walletAddress = w,
       tk_expiresAt = now + ae_refreshDays env * 24 * 60 * 60 * 1000\<rparr>]"
    "find_token (ae_sha256 env token) db = None" "t = \<lparr>st_accessToken = ae_jwtSign env w now, st_refreshToken = token\<rparr>"
proof -
  from assms that show thesis
    by (auto simp: finish_verify_def findOrCreate_def store_token_def ibind_def signature_verify_def find_token_def find_None_iff list_ex_iff
        split: option.splits if_splits sum.splits)
qed

lemma set_drop_nth: "set (drop_nth i xs) \<subseteq> set xs"
  by (auto simp: drop_nth_def dest: in_set_takeD in_set_dropD)

lemma drop_nth_distinct:
  assumes "i < length xs" "distinct (map f xs)"
  shows "distinct (map f (drop_nth i xs)) \<and> (\<forall>y \<in> set (drop_nth i xs). f y \<noteq> f (xs ! i))"
proof -
  have xs: "xs = take i xs @ xs ! i # drop (Suc i) xs" using assms(1) by (simp add: id_take_nth_drop)
  have "distinct (map f (take i xs @ xs ! i # drop (Suc i) xs))" using assms(2) xs by simp
  then have "f (xs ! i) \<notin> f ` set (take i xs @ drop (Suc i) xs)" "distinct (map f (take i xs @ drop (Suc i) xs))" by auto
  then show ?thesis unfolding drop_nth_def by (metis imageI)
qed

lemma login_signed:
  assumes "signature_verify env message signature d (sm_nonce m) = Some a" "ae_parse env message = Some m"
    "ae_domain env = Some d" "ae_getAddress env a = Some w"
  shows "signed_by env message signature w"
  using assms by (auto simp: signature_verify_def signed_by_def split: sum.splits)

lemma token_snoc: "list_all (token_ok env facts) ts \<Longrightarrow> list_all (token_ok env (facts @ [f])) ts"
  by (auto simp: list_all_iff intro: token_ok_snoc)

lemma auth_step_nonce:
  assumes "auth_inv env w" "generateNonce env n now (ar_db w) = (db, Inr n')"
  shows "auth_inv env (w\<lparr>ar_db := db, ar_log := ar_log w @ [Issued n' now]\<rparr>)"
proof -
  from assms(2) have g: "n' = n" "n \<notin> nr_nonce ` set (au_nonces (ar_db w))" "au_tokens db = au_tokens (ar_db w)"
    "au_nonces db = au_nonces (ar_db w) @ [\<lparr>nr_nonce = n, nr_expiresAt = now + ae_nonceSeconds env * 1000, nr_used = False\<rparr>]"
    by (auto simp: generateNonce_def list_ex_iff split: if_splits)
  have new: "Issued n t0 \<notin> set (ar_log w)" for t0 using assms(1) g(2) by (auto simp: auth_inv_def nonces_ok_def)
  have taken: "Taken n t \<notin> set (ar_log w)" for t
  proof
    assume "Taken n t \<in> set (ar_log w)"
    then obtain i where i: "i < length (ar_log w)" "ar_log w ! i = Taken n t" by (auto simp: in_set_conv_nth)
    with assms(1) have "justified env (take i (ar_log w)) (Taken n t)" by (auto simp: auth_inv_def auth_sound_def)
    with new show False by (auto dest: in_set_takeD)
  qed
  have "nonces_ok env (ar_log w @ [Issued n' now]) (au_nonces db)"
    using assms(1) g new taken by (auto simp: auth_inv_def nonces_ok_def issued_row_def list_all_iff)
  then show ?thesis using assms(1) g(1,3) new
    by (auto simp: auth_inv_def auth_sound_snoc token_snoc pending_ok_def list_all_iff intro: token_ok_snoc)
qed

lemma auth_step_begin:
  assumes inv: "auth_inv env w" and run: "begin_verify env message now (ar_db w) = (db, Inr m)"
  shows "auth_inv env (w\<lparr>ar_db := db, ar_pending := ar_pending w @ [(message, signature, m)],
    ar_log := ar_log w @ [Taken (sm_nonce m) now]\<rparr>)"
proof -
  obtain r where r: "ae_parse env message = Some m" "r \<in> set (au_nonces (ar_db w))" "live_nonce (sm_nonce m) now r"
    "db = fst (consume_nonce (sm_nonce m) now (ar_db w))" using run by (rule consumed)
  let ?mark = "\<lambda>r. if live_nonce (sm_nonce m) now r then r\<lparr>nr_used := True\<rparr> else r"
  have db: "au_nonces db = map ?mark (au_nonces (ar_db w))" "au_tokens db = au_tokens (ar_db w)" using r(4) by (simp_all add: consume_nonce_def)
  have names: "map nr_nonce (au_nonces db) = map nr_nonce (au_nonces (ar_db w))" by (simp add: db)
  note rows = inv [unfolded auth_inv_def nonces_ok_def list_all_iff, THEN conjunct2, THEN conjunct1]
  have fresh: "Taken (sm_nonce m) t \<notin> set (ar_log w)" for t
    using rows r(2,3) by (auto simp: issued_row_def live_nonce_def)
  obtain t0 where t0: "Issued (sm_nonce m) t0 \<in> set (ar_log w)" "now < t0 + ae_nonceSeconds env * 1000"
    using rows r(2,3) by (fastforce simp: issued_row_def live_nonce_def)
  have unlogged: "LoggedIn (sm_nonce m) a b c d e \<notin> set (ar_log w)" for a b c d e
  proof
    assume "LoggedIn (sm_nonce m) a b c d e \<in> set (ar_log w)"
    then obtain i where "i < length (ar_log w)" "ar_log w ! i = LoggedIn (sm_nonce m) a b c d e" by (auto simp: in_set_conv_nth)
    with inv have "justified env (take i (ar_log w)) (LoggedIn (sm_nonce m) a b c d e)" by (auto simp: auth_inv_def auth_sound_def)
    with fresh show False by (auto dest: in_set_takeD)
  qed
  have "issued_row env (ar_log w @ [Taken (sm_nonce m) now]) (?mark x)" if x: "x \<in> set (au_nonces (ar_db w))" for x
  proof -
    have ir: "issued_row env (ar_log w) x" using rows x by blast
    have "live_nonce (sm_nonce m) now x" if "nr_nonce x = sm_nonce m"
    proof -
      have "x = r" using rows x r(2,3) that by (metis distinct_map inj_onD live_nonce_def)
      with r(3) show ?thesis by simp
    qed
    with ir show ?thesis by (auto simp: issued_row_def)
  qed
  then have "list_all (issued_row env (ar_log w @ [Taken (sm_nonce m) now])) (au_nonces db)"
    unfolding db list_all_iff set_map by blast
  then have "nonces_ok env (ar_log w @ [Taken (sm_nonce m) now]) (au_nonces db)"
    using rows by (simp add: nonces_ok_def names)
  moreover have "auth_sound env (ar_log w @ [Taken (sm_nonce m) now])"
    using inv fresh t0 by (auto simp: auth_inv_def auth_sound_snoc)
  moreover have "list_all (pending_ok env (ar_log w @ [Taken (sm_nonce m) now])) (ar_pending w @ [(message, signature, m)])"
    using inv unlogged r(1) by (auto simp: auth_inv_def pending_ok_def list_all_iff)
  moreover have "distinct (map (\<lambda>(_, _, m). sm_nonce m) (ar_pending w @ [(message, signature, m)]))"
    using inv fresh by (fastforce simp: auth_inv_def pending_ok_def list_all_iff)
  ultimately show ?thesis using inv by (simp add: auth_inv_def db token_snoc)
qed

lemma finish_failed:
  assumes "finish_verify env message signature m token now db = (db', Inl e)"
  shows "au_nonces db' = au_nonces db \<and> au_tokens db' = au_tokens db"
  using assms
  by (auto simp: finish_verify_def findOrCreate_def store_token_def ibind_def split: option.splits if_splits sum.splits prod.splits)

lemma auth_step_finish:
  assumes inv: "auth_inv env w" and i: "i < length (ar_pending w)" "ar_pending w ! i = (message, signature, m)"
    and run: "finish_verify env message signature m token now (ar_db w) = (db, Inr t)"
  shows "auth_inv env (w\<lparr>ar_db := db, ar_pending := drop_nth i (ar_pending w),
    ar_log := ar_log w @ [LoggedIn (sm_nonce m) message signature (st_accessToken t) (ae_sha256 env token) now]\<rparr>)"
proof -
  let ?f = "\<lambda>(_, _, m). sm_nonce m"
  let ?log = "ar_log w @ [LoggedIn (sm_nonce m) message signature (st_accessToken t) (ae_sha256 env token) now]"
  obtain d a wallet where f: "ae_parse env message \<noteq> None" "ae_domain env = Some d"
    "signature_verify env message signature d (sm_nonce m) = Some a" "ae_getAddress env a = Some wallet" "au_nonces db = au_nonces (ar_db w)"
    "au_tokens db = au_tokens (ar_db w) @ [\<lparr>tk_hash = ae_sha256 env token, tk_walletAddress = wallet,
       tk_expiresAt = now + ae_refreshDays env * 24 * 60 * 60 * 1000\<rparr>]"
    "t = \<lparr>st_accessToken = ae_jwtSign env wallet now, st_refreshToken = token\<rparr>" using run by (rule finished)
  have "(message, signature, m) \<in> set (ar_pending w)" using i nth_mem by metis
  then have p: "ae_parse env message = Some m" "\<exists>t. Taken (sm_nonce m) t \<in> set (ar_log w)"
    "LoggedIn (sm_nonce m) a b c d e \<notin> set (ar_log w)" for a b c d e
    using inv by (auto simp: auth_inv_def list_all_iff pending_ok_def)
  have signed: "signed_by env message signature wallet" using f(3) p(1) f(2,4) by (rule login_signed)
  have "auth_sound env ?log"
    using inv p signed f(7) by (auto simp: auth_inv_def auth_sound_snoc)
  moreover have "nonces_ok env ?log (au_nonces db)"
    using inv f(5) by (auto simp: auth_inv_def nonces_ok_def list_all_iff issued_row_def)
  moreover have pend: "distinct (map ?f (drop_nth i (ar_pending w)))" "\<forall>y \<in> set (drop_nth i (ar_pending w)). ?f y \<noteq> sm_nonce m"
    using drop_nth_distinct [OF i(1), of ?f] inv i(2) by (simp_all add: auth_inv_def)
  moreover have "list_all (pending_ok env ?log) (drop_nth i (ar_pending w))"
    unfolding list_all_iff
  proof
    fix y assume y: "y \<in> set (drop_nth i (ar_pending w))"
    then have "y \<in> set (ar_pending w)" using set_drop_nth by fast
    with inv have "pending_ok env (ar_log w) y" by (simp add: auth_inv_def list_all_iff)
    with pend(2) y show "pending_ok env ?log y" by (cases y) (auto simp: pending_ok_def)
  qed
  moreover have "list_all (token_ok env ?log) (au_tokens db)"
  proof -
    have "token_ok env ?log \<lparr>tk_hash = ae_sha256 env token, tk_walletAddress = wallet,
       tk_expiresAt = now + ae_refreshDays env * 24 * 60 * 60 * 1000\<rparr>"
      using signed f(7) by (auto simp: token_ok_def)
    with inv f(6) show ?thesis by (auto simp: auth_inv_def list_all_iff intro: token_ok_snoc)
  qed
  ultimately show ?thesis by (simp add: auth_inv_def)
qed

lemma auth_step_renew:
  assumes inv: "auth_inv env w" and run: "refresh env token now (ar_db w) = (db, Inr t)"
  shows "auth_inv env (w\<lparr>ar_log := ar_log w @ [Renewed (ae_sha256 env token) t now]\<rparr>)"
proof -
  from run obtain r where r: "r \<in> set (au_tokens (ar_db w))" "tk_hash r = ae_sha256 env token" "now \<le> tk_expiresAt r"
    "t = ae_jwtSign env (tk_walletAddress r) now"
    by (auto simp: refresh_def find_token_def split: option.splits if_splits dest!: find_Some_in)
  then have "token_ok env (ar_log w) r" using inv by (auto simp: auth_inv_def list_all_iff)
  with r have "justified env (ar_log w) (Renewed (ae_sha256 env token) t now)" by (fastforce simp: token_ok_def)
  with inv show ?thesis
    by (auto simp: auth_inv_def auth_sound_snoc nonces_ok_def issued_row_def pending_ok_def list_all_iff intro: token_ok_snoc)
qed

lemma auth_inv_db:
  assumes "auth_inv env w" "au_nonces db = au_nonces (ar_db w)" "au_tokens db = au_tokens (ar_db w)"
  shows "auth_inv env (w\<lparr>ar_db := db, ar_pending := drop_nth i (ar_pending w)\<rparr>)"
proof (cases "i < length (ar_pending w)")
  case True
  then show ?thesis using assms drop_nth_distinct [OF True, of "\<lambda>(_, _, m). sm_nonce m"] set_drop_nth [of i "ar_pending w"]
    by (auto simp: auth_inv_def list_all_iff)
next
  case False
  then show ?thesis using assms by (simp add: auth_inv_def drop_nth_def)
qed

lemma consume_none: "filter (live_nonce n now) (au_nonces db) = [] \<Longrightarrow> consume_nonce n now db = (db, 0)"
  by (cases db) (auto simp: consume_nonce_def filter_empty_conv intro!: map_idI)

lemma begin_failed:
  assumes "begin_verify env message now db = (db', Inl e)"
  shows "db' = db"
proof (cases "ae_parse env message")
  case (Some m)
  have "snd (consume_nonce (sm_nonce m) now db) = 0" using assms Some by (auto simp: begin_verify_def split: prod.splits if_splits)
  then have "filter (live_nonce (sm_nonce m) now) (au_nonces db) = []" by (simp add: consume_nonce_def)
  with assms Some consume_none show ?thesis by (auto simp: begin_verify_def)
qed (use assms in \<open>simp add: begin_verify_def\<close>)

lemma auth_step_inv: "auth_inv env w \<Longrightarrow> auth_inv env (auth_step env ev w)"
proof (cases ev)
  case (AskNonce n now)
  assume "auth_inv env w"
  with AskNonce auth_step_nonce show ?thesis by (auto split: prod.split sum.split)
next
  case (BeginLogin message signature now)
  assume inv: "auth_inv env w"
  obtain db r where b: "begin_verify env message now (ar_db w) = (db, r)" by fastforce
  show ?thesis
  proof (cases r)
    case (Inl e)
    with b begin_failed have "db = ar_db w" by metis
    with inv b Inl BeginLogin show ?thesis by simp
  next
    case (Inr m)
    with b BeginLogin auth_step_begin [OF inv] show ?thesis by simp
  qed
next
  case (FinishLogin i token now)
  assume inv: "auth_inv env w"
  show ?thesis
  proof (cases "i < length (ar_pending w)")
    case True
    obtain message signature m where p: "ar_pending w ! i = (message, signature, m)" by (cases "ar_pending w ! i")
    obtain db r where f: "finish_verify env message signature m token now (ar_db w) = (db, r)" by fastforce
    show ?thesis
    proof (cases r)
      case (Inl e)
      with f finish_failed have "au_nonces db = au_nonces (ar_db w) \<and> au_tokens db = au_tokens (ar_db w)" by metis
      with auth_inv_db [OF inv] True p f Inl FinishLogin show ?thesis by simp
    next
      case (Inr t)
      with auth_step_finish [OF inv True p] f True p FinishLogin show ?thesis by simp
    qed
  qed (use inv FinishLogin in simp)
next
  case (AskRefresh token now)
  assume "auth_inv env w"
  with AskRefresh auth_step_renew show ?thesis by (auto split: prod.split sum.split)
qed

text \<open>C9. Whatever the order of requests, the two halves of logins included: a nonce is issued once, taken at
  most once and only before it expires, leads to at most one session; every session has a message
  with that nonce signed for this site by the wallet it is for; every renewed access token belongs
  to the wallet of a login with that refresh token at most the configured days ago.\<close>

theorem sessions_are_justified: "auth_sound env (ar_log (auth_runs env evs))"
proof -
  have "auth_inv env (auth_runs env evs)"
  proof (induction evs rule: rev_induct)
    case Nil
    then show ?case by (simp add: auth_runs_def auth_start_def auth_inv_def nonces_ok_def)
  next
    case (snoc ev evs)
    then show ?case using auth_step_inv by (simp add: auth_runs_def)
  qed
  then show ?thesis by (simp add: auth_inv_def)
qed

end
