(* ===== verification/Sessions.thy ===== *)
theory Sessions
  imports Auth
begin

text \<open>
  The clients of the login: the MCP server's handshake (auth-client.ts), the set-up of its one session
  (session.ts), its requests with a token that may have expired (backend-client.ts on top of the
  guard), and the browser's fetch (api.ts). Keychain, keystore, the wallet's signature and the text of
  a SIWE message are parameters. Lemmas: the handshake succeeds and binds the session to the signer;
  an expired access token is renewed without the caller noticing.
\<close>

record auth_world =
  aw_access :: "string option"
  aw_refresh :: "string option"
  aw_db :: auth_db
  aw_backend :: backend
  aw_failures :: nat

record client_config =
  cc_frontendUrl :: string
  cc_domain :: string
  cc_chainId :: nat
  cc_statement :: string
  cc_address :: string
  cc_sign :: "string \<Rightarrow> string"
  cc_prepare :: "siwe_message \<Rightarrow> string"

type_synonym 'a session_op = "(auth_world, js_error, 'a) io"

section \<open>The server side of a call\<close>

definition auth_status :: "auth_error \<Rightarrow> nat" where
  "auth_status e = (case e of Unauthorized _ \<Rightarrow> 401 | AuthFailed _ \<Rightarrow> 500)"

definition auth_reply :: "nat \<Rightarrow> auth_error + 'r \<Rightarrow> 'r http_reply" where
  "auth_reply success r =
     (case r of Inl e \<Rightarrow> \<lparr>ht_status = auth_status e, ht_body = EmptyBody\<rparr> | Inr x \<Rightarrow> \<lparr>ht_status = success, ht_body = Json x\<rparr>)"

definition auth_fetch :: "nat \<Rightarrow> 'r auth \<Rightarrow> 'r http_reply session_op" where
  "auth_fetch success op w = (case op (aw_db w) of (db, r) \<Rightarrow> (w\<lparr>aw_db := db\<rparr>, Inr (auth_reply success r)))"

section \<open>The MCP server's session\<close>

text \<open>\<open>#getJson\<close>: every failure is an error without an echo of what was sent.\<close>

definition getJson :: "string \<Rightarrow> 'r http_reply session_op \<Rightarrow> 'r session_op" where
  "getJson path fetch =
     ibind (itry fetch (\<lambda>_. ithrow (Thrown (''Backend nicht erreichbar ('' @ path @ '').'')))) (\<lambda>res.
     if \<not> (200 \<le> ht_status res \<and> ht_status res \<le> 299)
     then ithrow (Thrown (''Authentifizierung fehlgeschlagen ('' @ path @ '': HTTP '' @ show_nat (ht_status res) @ '').''))
     else (case ht_body res of Json r \<Rightarrow> iret r | _ \<Rightarrow> ithrow (Thrown ''Unexpected end of JSON input'')))"

definition siwe_fields :: "client_config \<Rightarrow> string \<Rightarrow> int \<Rightarrow> siwe_message" where
  "siwe_fields cfg nonce now =
     \<lparr>sm_domain = cc_domain cfg, sm_address = cc_address cfg, sm_statement = cc_statement cfg, sm_uri = cc_frontendUrl cfg,
      sm_version = ''1'', sm_chainId = cc_chainId cfg, sm_nonce = nonce, sm_issuedAt = now\<rparr>"

definition buildSiweMessage :: "client_config \<Rightarrow> string \<Rightarrow> int \<Rightarrow> string" where
  "buildSiweMessage cfg nonce now = cc_prepare cfg (siwe_fields cfg nonce now)"

definition keep_tokens :: "session_tokens \<Rightarrow> unit session_op" where
  "keep_tokens t w = (w\<lparr>aw_access := Some (st_accessToken t), aw_refresh := Some (st_refreshToken t)\<rparr>, Inr ())"

text \<open>The random values of the backend and the three clock readings are arguments.\<close>

definition authenticate :: "client_config \<Rightarrow> auth_env \<Rightarrow> string \<Rightarrow> string \<Rightarrow> int \<Rightarrow> int \<Rightarrow> int \<Rightarrow> unit session_op" where
  "authenticate cfg env nonce refreshToken askedAt signedAt verifiedAt =
     ibind (getJson ''/auth/nonce'' (auth_fetch 200 (generateNonce env nonce askedAt))) (\<lambda>n.
     (let message = buildSiweMessage cfg n signedAt in
      ibind (getJson ''/auth/verify'' (auth_fetch 201 (verify env message (cc_sign cfg message) refreshToken verifiedAt))) keep_tokens))"

definition set_access :: "string \<Rightarrow> unit session_op" where
  "set_access t w = (w\<lparr>aw_access := Some t\<rparr>, Inr ())"

definition client_refresh :: "auth_env \<Rightarrow> int \<Rightarrow> unit session_op" where
  "client_refresh env now w =
     (case aw_refresh w of
        None \<Rightarrow> (w, Inl (Thrown ''Kein Refresh-Token vorhanden - zuerst authenticate() aufrufen.''))
      | Some t \<Rightarrow>
          if t = [] then (w, Inl (Thrown ''Kein Refresh-Token vorhanden - zuerst authenticate() aufrufen.''))
          else ibind (getJson ''/auth/refresh'' (auth_fetch 201 (refresh env t now))) set_access w)"

definition authHeader :: "auth_world \<Rightarrow> js_error + string" where
  "authHeader w =
     (case aw_access w of
        None \<Rightarrow> Inl (Thrown ''Nicht authentifiziert - zuerst authenticate() aufrufen.'')
      | Some t \<Rightarrow> if t = [] then Inl (Thrown ''Nicht authentifiziert - zuerst authenticate() aufrufen.'') else Inr t)"

text \<open>A route behind the guard: the operation of the backend for the user the token names.\<close>

definition guarded_route :: "auth_env \<Rightarrow> int \<Rightarrow> nat \<Rightarrow> (string \<Rightarrow> 'r api) \<Rightarrow> string option \<Rightarrow> (auth_world, js_error, auth_error + 'r http_reply) io" where
  "guarded_route env now success op token w =
     (case wallet_guard env False token now of
        Inl e \<Rightarrow> (w, Inr (Inl e))
      | Inr user \<Rightarrow> (case op (or_else user []) (aw_backend w) of
          (b, r) \<Rightarrow> (w\<lparr>aw_backend := b\<rparr>, Inr (Inr (reply_of success r)))))"

definition client_request :: "auth_env \<Rightarrow> int \<Rightarrow> nat \<Rightarrow> (string \<Rightarrow> 'r api) \<Rightarrow> 'r http_reply session_op" where
  "client_request env now success op w =
     (case authHeader w of
        Inl e \<Rightarrow> (w, Inl e)
      | Inr token \<Rightarrow> ibind (guarded_route env now success op (Some token)) (\<lambda>r.
          iret (case r of Inl e \<Rightarrow> \<lparr>ht_status = auth_status e, ht_body = EmptyBody\<rparr> | Inr res \<Rightarrow> res)) w)"

definition client_call :: "auth_env \<Rightarrow> int \<Rightarrow> http_method \<Rightarrow> string \<Rightarrow> (string \<Rightarrow> 'r api) \<Rightarrow> 'r option session_op" where
  "client_call env now m path op =
     send_request (client_request env now (if m = POST then 201 else 200) op) (client_refresh env now) m path"

text \<open>\<open>connectOwnerSession\<close>: keychain, keystore, signer, handshake.\<close>

record session_deps =
  sd_readPassword :: "js_error + string option"
  sd_readKeystoreFile :: "js_error + string"
  sd_fromKeystore :: "string \<Rightarrow> string \<Rightarrow> js_error + client_config"

record owner_session =
  os_address :: string
  os_readOnly :: bool

definition load_signer :: "session_deps \<Rightarrow> string \<Rightarrow> js_error + client_config" where
  "load_signer deps keystorePath =
     rbind (sd_readPassword deps) (\<lambda>password.
     if password \<in> {None, Some []} then Inl (Thrown ''Kein Wallet-Zugang im OS-Keychain hinterlegt.'')
     else (case sd_readKeystoreFile deps of
         Inl _ \<Rightarrow> Inl (Thrown (''Keystore-Datei konnte nicht gelesen werden ('' @ keystorePath @ '').''))
       | Inr keystoreJson \<Rightarrow> sd_fromKeystore deps keystoreJson (or_else password [])))"

definition connectOwnerSession ::
  "session_deps \<Rightarrow> string \<Rightarrow> bool \<Rightarrow> auth_env \<Rightarrow> string \<Rightarrow> string \<Rightarrow> int \<Rightarrow> int \<Rightarrow> int \<Rightarrow> owner_session session_op" where
  "connectOwnerSession deps keystorePath readOnly env nonce refreshToken askedAt signedAt verifiedAt =
     ibind (ilift (load_signer deps keystorePath)) (\<lambda>cfg.
     ibind (authenticate cfg env nonce refreshToken askedAt signedAt verifiedAt) (\<lambda>_.
     iret \<lparr>os_address = cc_address cfg, os_readOnly = readOnly\<rparr>))"

section \<open>The browser\<close>

text \<open>A failed or unreadable answer of the refresh is a \<open>False\<close>.\<close>

definition silentRefresh :: "auth_env \<Rightarrow> int \<Rightarrow> bool session_op" where
  "silentRefresh env now w =
     (case aw_refresh w of
        None \<Rightarrow> (w, Inr False)
      | Some t \<Rightarrow>
          if t = [] then (w, Inr False)
          else (case auth_fetch 201 (refresh env t now) w of
              (w', Inr res) \<Rightarrow>
                (if \<not> (200 \<le> ht_status res \<and> ht_status res \<le> 299) then (w', Inr False)
                 else (case ht_body res of Json a \<Rightarrow> (w'\<lparr>aw_access := Some a\<rparr>, Inr True) | _ \<Rightarrow> (w', Inr False)))
            | (w', Inl _) \<Rightarrow> (w', Inr False)))"

definition stored_access :: "auth_world \<Rightarrow> string option" where
  "stored_access w = (if aw_access w = Some [] then None else aw_access w)"

definition fetch_api :: "(string option \<Rightarrow> (auth_world, js_error, auth_error + 'r http_reply) io) \<Rightarrow> (auth_world, js_error, auth_error + 'r http_reply) io" where
  "fetch_api route w = route (stored_access w) w"

definition report_failure :: "unit session_op" where
  "report_failure w = (w\<lparr>aw_failures := aw_failures w + 1\<rparr>, Inr ())"

text \<open>The answer of the guard carries its message; only an expired token is renewed.\<close>

definition apiFetch ::
  "auth_env \<Rightarrow> int \<Rightarrow> (string option \<Rightarrow> (auth_world, js_error, auth_error + 'r http_reply) io) \<Rightarrow>
   (auth_world, js_error, auth_error + 'r http_reply) io" where
  "apiFetch env now route =
     ibind (fetch_api route) (\<lambda>res.
     if res = Inl (Unauthorized ''TOKEN_EXPIRED'') then
       ibind (silentRefresh env now) (\<lambda>refreshed.
       if refreshed then fetch_api route else ibind report_failure (\<lambda>_. iret res))
     else iret res)"

section \<open>The handshake\<close>

lemma getJson_success:
  assumes "op (aw_db w) = (db, Inr x)" "200 \<le> s" "s \<le> 299"
  shows "getJson path (auth_fetch s op) w = (w\<lparr>aw_db := db\<rparr>, Inr x)"
  using assms by (simp add: getJson_def auth_fetch_def auth_reply_def itry_def ibind_def)

lemma nonce_added:
  assumes "n \<notin> nr_nonce ` set (au_nonces db)"
  shows "generateNonce env n t db =
    (db\<lparr>au_nonces := au_nonces db @ [\<lparr>nr_nonce = n, nr_expiresAt = t + ae_nonceSeconds env * 1000, nr_used = False\<rparr>]\<rparr>, Inr n)"
  using assms by (auto simp: generateNonce_def list_ex_iff)

text \<open>A login with a live nonce and a valid signature.\<close>

lemma verify_success:
  assumes "ae_parse env message = Some m" "r \<in> set (au_nonces db)" "live_nonce (sm_nonce m) t r" "ae_domain env = Some d"
    and "ae_siweVerify env m signature d (sm_nonce m) = Inr (Some a)" "a \<noteq> []" "ae_getAddress env a = Some w"
    and "ae_sha256 env token \<notin> tk_hash ` set (au_tokens db)"
  obtains db' where "verify env message signature token t db = (db', Inr \<lparr>st_accessToken = ae_jwtSign env w t, st_refreshToken = token\<rparr>)"
    "au_tokens db' = au_tokens db @ [\<lparr>tk_hash = ae_sha256 env token, tk_walletAddress = w,
       tk_expiresAt = t + ae_refreshDays env * 24 * 60 * 60 * 1000\<rparr>]"
proof -
  let ?db = "fst (consume_nonce (sm_nonce m) t db)"
  have "snd (consume_nonce (sm_nonce m) t db) \<noteq> 0" using assms(2,3) by (auto simp: consume_nonce_def filter_empty_conv)
  then have b: "begin_verify env message t db = (?db, Inr m)" using assms(1)
    by (cases "consume_nonce (sm_nonce m) t db") (simp add: begin_verify_def)
  have k: "au_tokens ?db = au_tokens db" by (simp add: consume_nonce_def)
  obtain db' where u: "findOrCreate env a t ?db = (db', Inr w)" "au_tokens db' = au_tokens db"
    using assms(7) k by (auto simp: findOrCreate_def)
  then have "finish_verify env message signature m token t ?db =
      (db'\<lparr>au_tokens := au_tokens db' @ [\<lparr>tk_hash = ae_sha256 env token, tk_walletAddress = w,
         tk_expiresAt = t + ae_refreshDays env * 24 * 60 * 60 * 1000\<rparr>]\<rparr>,
       Inr \<lparr>st_accessToken = ae_jwtSign env w t, st_refreshToken = token\<rparr>)"
    (is "_ = (?db', Inr ?t)")
  proof -
    have "ae_sha256 env token \<notin> tk_hash ` set (au_tokens db')" using u(2) assms(8) by simp
    then have "\<not> list_ex (\<lambda>r. tk_hash r = ae_sha256 env token) (au_tokens db')" unfolding list_ex_iff by (metis imageI)
    then have "store_token env token w t db' = (?db', Inr ())" by (simp add: store_token_def)
    then show ?thesis using assms(1,4-7) u(1) by (simp add: finish_verify_def signature_verify_def)
  qed
  with b u(2) that show ?thesis by (simp add: verify_def)
qed

text \<open>C24. The handshake of a signer with the backend it is configured for succeeds when the nonce is fresh
  and used in time: the session then holds an access token for the checksummed address of the
  signer and a refresh token that the backend has stored for it.\<close>

theorem handshake_succeeds:
  assumes "n \<notin> nr_nonce ` set (au_nonces (aw_db w))" "ae_sha256 env token \<notin> tk_hash ` set (au_tokens (aw_db w))"
    and "t3 < t1 + ae_nonceSeconds env * 1000" "ae_domain env = Some (cc_domain cfg)" "cc_address cfg \<noteq> []"
    and "ae_getAddress env (cc_address cfg) = Some wallet"
    and "ae_parse env (buildSiweMessage cfg n t2) = Some (siwe_fields cfg n t2)"
    and "ae_siweVerify env (siwe_fields cfg n t2) (cc_sign cfg (buildSiweMessage cfg n t2)) (cc_domain cfg) n = Inr (Some (cc_address cfg))"
  shows "\<exists>w'. authenticate cfg env n token t1 t2 t3 w = (w', Inr ()) \<and> aw_access w' = Some (ae_jwtSign env wallet t3) \<and>
    aw_refresh w' = Some token \<and> (\<exists>r \<in> set (au_tokens (aw_db w')). tk_hash r = ae_sha256 env token \<and> tk_walletAddress r = wallet)"
proof -
  let ?row = "\<lparr>nr_nonce = n, nr_expiresAt = t1 + ae_nonceSeconds env * 1000, nr_used = False\<rparr>"
  let ?w = "w\<lparr>aw_db := (aw_db w)\<lparr>au_nonces := au_nonces (aw_db w) @ [?row]\<rparr>\<rparr>"
  let ?msg = "buildSiweMessage cfg n t2"
  have n: "getJson ''/auth/nonce'' (auth_fetch 200 (generateNonce env n t1)) w = (?w, Inr n)"
    by (intro getJson_success nonce_added assms) simp_all
  obtain db' where v: "verify env ?msg (cc_sign cfg ?msg) token t3 (aw_db ?w) =
      (db', Inr \<lparr>st_accessToken = ae_jwtSign env wallet t3, st_refreshToken = token\<rparr>)"
    and t: "au_tokens db' = au_tokens (aw_db ?w) @ [\<lparr>tk_hash = ae_sha256 env token, tk_walletAddress = wallet,
       tk_expiresAt = t3 + ae_refreshDays env * 24 * 60 * 60 * 1000\<rparr>]"
  proof (rule verify_success)
    show "ae_parse env ?msg = Some (siwe_fields cfg n t2)" by (rule assms)
    show "?row \<in> set (au_nonces (aw_db ?w))" by simp
  qed (use assms in \<open>simp_all add: live_nonce_def siwe_fields_def\<close>)
  have "getJson ''/auth/verify'' (auth_fetch 201 (verify env ?msg (cc_sign cfg ?msg) token t3)) ?w =
      (?w\<lparr>aw_db := db'\<rparr>, Inr \<lparr>st_accessToken = ae_jwtSign env wallet t3, st_refreshToken = token\<rparr>)"
    by (intro getJson_success v) simp_all
  with n t show ?thesis by (simp add: authenticate_def Let_def keep_tokens_def)
qed

section \<open>Expired tokens\<close>

lemma refresh_success:
  assumes "find_token (ae_sha256 env token) db = Some r" "now \<le> tk_expiresAt r"
  shows "refresh env token now db = (db, Inr (ae_jwtSign env (tk_walletAddress r) now))"
  using assms by (simp add: refresh_def)

lemma client_refresh_success:
  assumes "aw_refresh w = Some token" "token \<noteq> []" "find_token (ae_sha256 env token) (aw_db w) = Some r" "now \<le> tk_expiresAt r"
  shows "client_refresh env now w = (w\<lparr>aw_access := Some (ae_jwtSign env (tk_walletAddress r) now)\<rparr>, Inr ())"
proof -
  have "getJson ''/auth/refresh'' (auth_fetch 201 (refresh env token now)) w =
      (w\<lparr>aw_db := aw_db w\<rparr>, Inr (ae_jwtSign env (tk_walletAddress r) now))"
    by (intro getJson_success refresh_success assms) simp_all
  with assms show ?thesis by (simp add: client_refresh_def set_access_def)
qed

text \<open>A call of the MCP server's client whose access token has expired, with a stored refresh token that has not, is
  answered as the backend answers the wallet that logged in; the caller sees nothing of the renewal.\<close>

theorem expired_token_is_renewed:
  assumes "aw_access w = Some old" "old \<noteq> []" "ae_jwtVerify env old now = JwtExpired"
    and "aw_refresh w = Some token" "token \<noteq> []" "find_token (ae_sha256 env token) (aw_db w) = Some r" "now \<le> tk_expiresAt r"
    and "ae_jwtSign env (tk_walletAddress r) now \<noteq> []"
    and "ae_jwtVerify env (ae_jwtSign env (tk_walletAddress r) now) now = JwtValid (tk_walletAddress r)"
  shows "client_call env now m path op w =
    (case call_backend m path (op (tk_walletAddress r)) (aw_backend w) of
      (b, res) \<Rightarrow> (w\<lparr>aw_access := Some (ae_jwtSign env (tk_walletAddress r) now), aw_backend := b\<rparr>, res))"
proof -
  let ?w = "w\<lparr>aw_access := Some (ae_jwtSign env (tk_walletAddress r) now)\<rparr>"
  let ?s = "if m = POST then 201 else 200 :: nat"
  obtain b x where o: "op (tk_walletAddress r) (aw_backend w) = (b, x)" by fastforce
  have first: "client_request env now ?s op w = (w, Inr \<lparr>ht_status = 401, ht_body = EmptyBody\<rparr>)"
    using assms(1-3) by (simp add: client_request_def authHeader_def guarded_route_def wallet_guard_def auth_status_def)
  have again: "client_request env now ?s op ?w = (?w\<lparr>aw_backend := b\<rparr>, Inr (reply_of ?s x))"
    using assms(8,9) o by (simp add: client_request_def authHeader_def guarded_route_def wallet_guard_def)
  have "client_call env now m path op w = (?w\<lparr>aw_backend := b\<rparr>, read_reply m path (reply_of ?s x))"
    unfolding client_call_def send_request_def using first again client_refresh_success [OF assms(4-7)]
    by (simp add: ibind_def ilift_def)
  moreover have "call_backend m path (op (tk_walletAddress r)) (aw_backend w) = (b, read_reply m path (reply_of ?s x))"
  proof -
    have "ht_status (reply_of ?s x) \<noteq> 401" 
    proof (cases x)
      case (Inl e)
      then show ?thesis using error_status_cases [of e] by (auto simp: reply_of_def)
    qed (simp add: reply_of_def)
    then show ?thesis using o by (simp add: call_backend_def send_request_def server_def ibind_def)
  qed
  ultimately show ?thesis by simp
qed

lemma browser_renewal:
  assumes "ae_jwtVerify env old now = JwtExpired" "stored_access w = Some old"
    and "aw_refresh w = Some token" "token \<noteq> []" "find_token (ae_sha256 env token) (aw_db w) = Some r" "now \<le> tk_expiresAt r"
  shows "apiFetch env now (guarded_route env now s op) w =
    fetch_api (guarded_route env now s op) (w\<lparr>aw_access := Some (ae_jwtSign env (tk_walletAddress r) now)\<rparr>)"
proof -
  have "silentRefresh env now w = (w\<lparr>aw_access := Some (ae_jwtSign env (tk_walletAddress r) now)\<rparr>, Inr True)"
    using assms refresh_success [OF assms(5,6)] by (simp add: silentRefresh_def auth_fetch_def auth_reply_def)
  then show ?thesis using assms(1,2)
    by (simp add: apiFetch_def fetch_api_def guarded_route_def wallet_guard_def ibind_def)
qed

section \<open>Examples\<close>

definition demo_auth_env :: auth_env where
  "demo_auth_env = \<lparr>ae_parse = (\<lambda>s. case s of c # d # n \<Rightarrow> Some \<lparr>sm_domain = ''d'', sm_address = ''O1'', sm_statement = ''s'',
       sm_uri = ''u'', sm_version = ''1'', sm_chainId = 56, sm_nonce = n, sm_issuedAt = 2\<rparr> | _ \<Rightarrow> None),
     ae_siweVerify = (\<lambda>m sig dom n. Inr (if sm_domain m = dom \<and> sm_nonce m = n \<and> sig = ''by '' @ n then Some (sm_address m) else None)),
     ae_domain = Some ''d'', ae_getAddress = (\<lambda>a. Some a), ae_sha256 = (\<lambda>s. s),
     ae_jwtSign = (\<lambda>w t. w @ show_int t),
     ae_jwtVerify = (\<lambda>s t. if s = ''old'' then JwtExpired else JwtValid ''O1''),
     ae_nonceSeconds = 300, ae_refreshDays = 7\<rparr>"

definition demo_client :: client_config where
  "demo_client = \<lparr>cc_frontendUrl = ''u'', cc_domain = ''d'', cc_chainId = 56, cc_statement = ''s'', cc_address = ''O1'',
     cc_sign = (\<lambda>s. ''by '' @ drop 2 s), cc_prepare = (\<lambda>m. ''m:'' @ sm_nonce m)\<rparr>"

definition demo_auth_world :: auth_world where
  "demo_auth_world = \<lparr>aw_access = None, aw_refresh = None, aw_db = \<lparr>au_nonces = [], au_users = [], au_tokens = []\<rparr>,
     aw_backend = demo_backend, aw_failures = 0\<rparr>"

lemma handshake_succeeds_witness:
  "\<exists>w'. authenticate demo_client demo_auth_env ''n1'' ''tok'' 1 2 3 demo_auth_world = (w', Inr ()) \<and>
     aw_refresh w' = Some ''tok'' \<and> (\<exists>r \<in> set (au_tokens (aw_db w')). tk_walletAddress r = ''O1'')"
proof -
  have "ae_parse demo_auth_env (buildSiweMessage demo_client ''n1'' 2) = Some (siwe_fields demo_client ''n1'' 2)"
    "ae_siweVerify demo_auth_env (siwe_fields demo_client ''n1'' 2)
      (cc_sign demo_client (buildSiweMessage demo_client ''n1'' 2)) (cc_domain demo_client) ''n1'' = Inr (Some (cc_address demo_client))"
    by (simp_all add: demo_auth_env_def demo_client_def buildSiweMessage_def siwe_fields_def)
  moreover have "ae_domain demo_auth_env = Some (cc_domain demo_client)" "cc_address demo_client \<noteq> []"
    "ae_getAddress demo_auth_env (cc_address demo_client) = Some ''O1''" "3 < 1 + ae_nonceSeconds demo_auth_env * 1000"
    by (simp_all add: demo_auth_env_def demo_client_def)
  moreover have "''n1'' \<notin> nr_nonce ` set (au_nonces (aw_db demo_auth_world))"
    "ae_sha256 demo_auth_env ''tok'' \<notin> tk_hash ` set (au_tokens (aw_db demo_auth_world))"
    by (simp_all add: demo_auth_world_def)
  ultimately show ?thesis
    using handshake_succeeds [where n = "''n1''" and token = "''tok''" and wallet = "''O1''" and ?t1.0 = 1 and ?t2.0 = 2 and ?t3.0 = 3
        and cfg = demo_client and env = demo_auth_env and w = demo_auth_world] by blast
qed

definition demo_signed_in :: auth_world where
  "demo_signed_in = demo_auth_world\<lparr>aw_access := Some ''old'', aw_refresh := Some ''tok'',
     aw_db := \<lparr>au_nonces = [], au_users = [], au_tokens = [\<lparr>tk_hash = ''tok'', tk_walletAddress = ''O1'', tk_expiresAt = 9\<rparr>]\<rparr>\<rparr>"

lemma expired_token_is_renewed_witness:
  "\<exists>w'. client_call demo_auth_env 5 GET ''/vaults'' (\<lambda>user b. (b, Inr (listVaults user b))) demo_signed_in =
     (w', Inr (Some [demo_vault ''v1'' ''A1'' ''O1''])) \<and> aw_access w' \<noteq> Some ''old''"
proof -
  let ?r = "\<lparr>tk_hash = ''tok'', tk_walletAddress = ''O1'', tk_expiresAt = 9\<rparr>"
  have "ae_jwtSign demo_auth_env (tk_walletAddress ?r) 5 \<noteq> []" "ae_jwtSign demo_auth_env (tk_walletAddress ?r) 5 \<noteq> ''old''"
    by (simp_all add: demo_auth_env_def)
  moreover have "aw_access demo_signed_in = Some ''old''" "aw_refresh demo_signed_in = Some ''tok''" "aw_backend demo_signed_in = demo_backend"
    "find_token (ae_sha256 demo_auth_env ''tok'') (aw_db demo_signed_in) = Some ?r"
    by (simp_all add: demo_signed_in_def demo_auth_env_def find_token_def demo_auth_world_def)
  moreover have "ae_jwtVerify demo_auth_env ''old'' 5 = JwtExpired" "tk_expiresAt ?r = 9"
    "ae_jwtVerify demo_auth_env (ae_jwtSign demo_auth_env (tk_walletAddress ?r) 5) 5 = JwtValid (tk_walletAddress ?r)"
    by (simp_all add: demo_auth_env_def)
  ultimately show ?thesis
    using expired_token_is_renewed [where w = demo_signed_in and env = demo_auth_env and old = "''old''" and token = "''tok''" and r = ?r
        and now = 5 and m = GET and path = "''/vaults''" and op = "\<lambda>user b. (b, Inr (listVaults user b))"]
    by (simp add: call_backend_eq listVaults_def demo_backend_def demo_vault_def)
qed

end
