(* ===== verification/Gateway.thy ===== *)
theory Gateway
  imports Sessions Failures
begin

text \<open>
  Live execution events (executions.gateway.ts): sockets, the rooms they joined and what was sent to
  them, over any sequence of connections, subscriptions, emissions and disconnections; and the
  shared secret of the keeper's endpoint (keeper-ingest.guard.ts). socket.io's rooms are modelled by the
  list of rooms of a socket. Lemma: an event reaches only sockets that have shown a token of the owner.
\<close>

record socket =
  sk_address :: "string option"
  sk_rooms :: "string list"

record delivery =
  dl_vaultAddress :: string
  dl_automationId :: nat
  dl_txHash :: string
  dl_gasCompPaid :: "string option"
  dl_gasCompUsd :: "string option"
  dl_timestamp :: int

record gateway =
  gt_sockets :: "(string \<times> socket) list"
  gt_sent :: "(string \<times> delivery) list"

definition room :: "auth_env \<Rightarrow> string \<Rightarrow> string option" where
  "room env vaultAddress = map_option (\<lambda>a. ''vault:'' @ a) (ae_getAddress env vaultAddress)"

text \<open>A token that does not verify drops the socket.\<close>

definition handleConnection :: "auth_env \<Rightarrow> string \<Rightarrow> string option \<Rightarrow> int \<Rightarrow> gateway \<Rightarrow> gateway" where
  "handleConnection env client token now g =
     (case ae_jwtVerify env (or_else token []) now of
        JwtValid sub \<Rightarrow> g\<lparr>gt_sockets := alist_set client \<lparr>sk_address = Some sub, sk_rooms = []\<rparr> (gt_sockets g)\<rparr>
      | _ \<Rightarrow> g\<lparr>gt_sockets := filter (\<lambda>(c, _). c \<noteq> client) (gt_sockets g)\<rparr>)"

text \<open>The answer of a subscription: the room, or the same rejection whatever the reason.\<close>

definition onSubscribe :: "auth_env \<Rightarrow> backend_env \<Rightarrow> backend \<Rightarrow> string \<Rightarrow> string option \<Rightarrow> gateway \<Rightarrow> gateway \<times> string option" where
  "onSubscribe env benv b client vaultAddress g =
     (case map_of (gt_sockets g) client of
        None \<Rightarrow> (g, None)
      | Some s \<Rightarrow>
          (case assertOwnership benv vaultAddress (sk_address s) b of
             Inl _ \<Rightarrow> (g, None)
           | Inr v \<Rightarrow>
               (case room env (vr_address v) of
                  None \<Rightarrow> (g, None)
                | Some r \<Rightarrow> (g\<lparr>gt_sockets := alist_set client (s\<lparr>sk_rooms := r # sk_rooms s\<rparr>) (gt_sockets g)\<rparr>, Some r))))"

definition execution_payload :: "string \<Rightarrow> saved_execution \<Rightarrow> delivery" where
  "execution_payload address e =
     (let r = se_row e in
      \<lparr>dl_vaultAddress = address, dl_automationId = ex_automationId r, dl_txHash = ex_txHash r, dl_gasCompPaid = ex_gasCompAmount r,
       dl_gasCompUsd = se_gasCompUsd e, dl_timestamp = ex_timestamp r\<rparr>)"

definition members :: "string \<Rightarrow> gateway \<Rightarrow> string list" where
  "members r g = map fst (filter (\<lambda>(c, s). r \<in> set (sk_rooms s)) (gt_sockets g))"

definition emitNewExecutions :: "auth_env \<Rightarrow> string \<Rightarrow> saved_execution list \<Rightarrow> gateway \<Rightarrow> gateway" where
  "emitNewExecutions env vaultAddress executions g =
     (case (ae_getAddress env vaultAddress, room env vaultAddress) of
        (Some a, Some r) \<Rightarrow>
          g\<lparr>gt_sent := gt_sent g @ concat (map (\<lambda>e. map (\<lambda>c. (c, execution_payload a e)) (members r g)) executions)\<rparr>
      | _ \<Rightarrow> g)"

datatype gateway_event =
    Connect string "string option" int
  | Subscribe backend string "string option"
  | Emit string "saved_execution list"
  | Disconnect string

fun gateway_step :: "auth_env \<Rightarrow> backend_env \<Rightarrow> gateway_event \<Rightarrow> gateway \<Rightarrow> gateway" where
  "gateway_step env benv (Connect client token now) g = handleConnection env client token now g"
| "gateway_step env benv (Subscribe b client vaultAddress) g = fst (onSubscribe env benv b client vaultAddress g)"
| "gateway_step env benv (Emit vaultAddress executions) g = emitNewExecutions env vaultAddress executions g"
| "gateway_step env benv (Disconnect client) g = g\<lparr>gt_sockets := filter (\<lambda>(c, _). c \<noteq> client) (gt_sockets g)\<rparr>"

definition gateway_run :: "auth_env \<Rightarrow> backend_env \<Rightarrow> gateway_event list \<Rightarrow> gateway" where
  "gateway_run env benv evs = fold (gateway_step env benv) evs \<lparr>gt_sockets = [], gt_sent = []\<rparr>"

text \<open>The keeper's endpoint: without a configured secret nobody is let in.\<close>

definition keeper_guard :: "string option \<Rightarrow> string option \<Rightarrow> auth_error + unit" where
  "keeper_guard expected provided =
     (if expected \<in> {None, Some []} then Inl (Unauthorized ''KEEPER_INGEST_NOT_CONFIGURED'')
      else if provided \<in> {None, Some []} \<or> provided \<noteq> expected then Inl (Unauthorized ''INVALID_KEEPER_SECRET'')
      else Inr ())"

section \<open>No leak\<close>

text \<open>What a socket must have shown: a valid token, and a subscription to a vault of that user.\<close>

definition connected_as :: "auth_env \<Rightarrow> gateway_event list \<Rightarrow> string \<Rightarrow> string \<Rightarrow> bool" where
  "connected_as env evs client user \<longleftrightarrow>
     (\<exists>token now. Connect client token now \<in> set evs \<and> ae_jwtVerify env (or_else token []) now = JwtValid user)"

definition entitled :: "auth_env \<Rightarrow> backend_env \<Rightarrow> gateway_event list \<Rightarrow> string \<Rightarrow> string \<Rightarrow> bool" where
  "entitled env benv evs client address \<longleftrightarrow>
     (\<exists>user b vaultAddress v. connected_as env evs client user \<and> Subscribe b client vaultAddress \<in> set evs \<and>
        assertOwnership benv vaultAddress (Some user) b = Inr v \<and> ae_getAddress env (vr_address v) = Some address)"

lemma entitled_mono: "entitled env benv evs client a \<Longrightarrow> entitled env benv (evs @ [ev]) client a"
  by (fastforce simp: entitled_def connected_as_def)

definition socket_ok :: "auth_env \<Rightarrow> backend_env \<Rightarrow> gateway_event list \<Rightarrow> string \<Rightarrow> socket \<Rightarrow> bool" where
  "socket_ok env benv evs c s \<longleftrightarrow> (\<exists>user. sk_address s = Some user \<and> connected_as env evs c user) \<and>
     (\<forall>a. ''vault:'' @ a \<in> set (sk_rooms s) \<longrightarrow> entitled env benv evs c a)"

definition gateway_inv :: "auth_env \<Rightarrow> backend_env \<Rightarrow> gateway_event list \<Rightarrow> gateway \<Rightarrow> bool" where
  "gateway_inv env benv evs g \<longleftrightarrow> list_all (\<lambda>(c, s). socket_ok env benv evs c s) (gt_sockets g) \<and>
     list_all (\<lambda>(c, d). entitled env benv evs c (dl_vaultAddress d)) (gt_sent g)"

lemma connected_mono: "connected_as env evs client a \<Longrightarrow> connected_as env (evs @ [ev]) client a"
  by (auto simp: connected_as_def)

lemma socket_ok_mono: "socket_ok env benv evs c s \<Longrightarrow> socket_ok env benv (evs @ [ev]) c s"
  unfolding socket_ok_def using entitled_mono connected_mono by metis

lemma gateway_inv_mono: "gateway_inv env benv evs g \<Longrightarrow> gateway_inv env benv (evs @ [ev]) g"
  unfolding gateway_inv_def list_all_iff using socket_ok_mono entitled_mono by fast

lemma gateway_inv_fewer:
  "gateway_inv env benv evs g \<Longrightarrow> set ss \<subseteq> set (gt_sockets g) \<Longrightarrow> gateway_inv env benv evs (g\<lparr>gt_sockets := ss\<rparr>)"
  by (auto simp: gateway_inv_def list_all_iff)

lemma list_all_alist_set: "list_all (\<lambda>(c, s). Q c s) m \<Longrightarrow> Q k v \<Longrightarrow> list_all (\<lambda>(c, s). Q c s) (alist_set k v m)"
  by (induction k v m rule: alist_set.induct) auto

lemma gateway_inv_set:
  assumes "gateway_inv env benv evs g" "socket_ok env benv evs c s"
  shows "gateway_inv env benv evs (g\<lparr>gt_sockets := alist_set c s (gt_sockets g)\<rparr>)"
  using assms by (simp add: gateway_inv_def list_all_alist_set)

lemma gateway_inv_subscribe:
  assumes inv: "gateway_inv env benv evs g" and ev: "Subscribe b client va \<in> set evs"
  shows "gateway_inv env benv evs (fst (onSubscribe env benv b client va g))"
proof (cases "snd (onSubscribe env benv b client va g)")
  case None
  then have "fst (onSubscribe env benv b client va g) = g" by (auto simp: onSubscribe_def split: option.splits sum.splits)
  with inv show ?thesis by simp
next
  case (Some r)
  then obtain s v where s: "map_of (gt_sockets g) client = Some s" "assertOwnership benv va (sk_address s) b = Inr v"
    "room env (vr_address v) = Some r"
    "fst (onSubscribe env benv b client va g) = g\<lparr>gt_sockets := alist_set client (s\<lparr>sk_rooms := r # sk_rooms s\<rparr>) (gt_sockets g)\<rparr>"
    by (auto simp: onSubscribe_def split: option.splits sum.splits)
  have "(client, s) \<in> set (gt_sockets g)" using s(1) by (rule map_of_SomeD)
  with inv have "socket_ok env benv evs client s" by (auto simp: gateway_inv_def list_all_iff)
  then obtain user where u: "sk_address s = Some user" "connected_as env evs client user"
    and old: "\<forall>a. ''vault:'' @ a \<in> set (sk_rooms s) \<longrightarrow> entitled env benv evs client a" by (auto simp: socket_ok_def)
  have new: "entitled env benv evs client a" if "r = ''vault:'' @ a" for a
    using that s(2,3) u ev by (auto simp: entitled_def room_def)
  show ?thesis unfolding s(4)
    by (rule gateway_inv_set [OF inv]) (use u old new in \<open>auto simp: socket_ok_def\<close>)
qed

lemma gateway_inv_emit:
  assumes "gateway_inv env benv evs g"
  shows "gateway_inv env benv evs (emitNewExecutions env va es g)"
proof (cases "ae_getAddress env va")
  case (Some a)
  have "entitled env benv evs c a" if "c \<in> set (members (''vault:'' @ a) g)" for c
    using that assms by (auto simp: members_def gateway_inv_def list_all_iff socket_ok_def)
  with assms Some show ?thesis
    by (auto simp: emitNewExecutions_def room_def gateway_inv_def list_all_iff execution_payload_def Let_def)
qed (use assms in \<open>simp add: emitNewExecutions_def\<close>)

text \<open>C10. An execution event is sent only to a socket that connected with a token which verified for some user
  and subscribed, while that user was the owner in the vault table, to the very vault the event is about.\<close>

theorem events_reach_owners_only:
  "list_all (\<lambda>(client, d). entitled env benv evs client (dl_vaultAddress d)) (gt_sent (gateway_run env benv evs))"
proof -
  have "gateway_inv env benv evs (gateway_run env benv evs)"
  proof (induction evs rule: rev_induct)
    case (snoc ev evs)
    let ?g = "gateway_run env benv evs"
    have inv: "gateway_inv env benv (evs @ [ev]) ?g" using snoc by (rule gateway_inv_mono)
    have "gateway_inv env benv (evs @ [ev]) (gateway_step env benv ev ?g)"
    proof (cases ev)
      case (Connect client token now)
      have *: "connected_as env (evs @ [ev]) client user" if "ae_jwtVerify env (or_else token []) now = JwtValid user" for user
        using that Connect by (auto simp: connected_as_def)
      show ?thesis
      proof (cases "ae_jwtVerify env (or_else token []) now")
        case (JwtValid user)
        then show ?thesis using gateway_inv_set [OF inv, of client "\<lparr>sk_address = Some user, sk_rooms = []\<rparr>"] * [OF JwtValid] Connect
          by (simp add: handleConnection_def socket_ok_def)
      qed (use inv Connect in \<open>auto simp: handleConnection_def intro!: gateway_inv_fewer\<close>)
    next
      case (Subscribe b client va)
      then show ?thesis using gateway_inv_subscribe [OF inv] by simp
    qed (use inv in \<open>auto intro!: gateway_inv_fewer gateway_inv_emit\<close>)
    then show ?case by (simp add: gateway_run_def)
  qed (simp add: gateway_run_def gateway_inv_def)
  then show ?thesis by (auto simp: gateway_inv_def list_all_iff)
qed

lemma keeper_guard_exact: "keeper_guard expected provided = Inr () \<longleftrightarrow> (\<exists>s. s \<noteq> [] \<and> expected = Some s \<and> provided = Some s)"
  by (auto simp: keeper_guard_def)

end
