(* ===== verification/Positions.thy ===== *)
theory Positions
  imports JsLib
begin

text \<open>
  The protocol-agnostic position every cockpit view sees (protocol-adapter.ts) and the contract that
  adapters must keep (conformance.ts). USD values are exact rationals where the code computes with
  doubles; \<open>None\<close> is \<open>null\<close> or an absent field. Lemmas: when positions conform.
\<close>

section \<open>Positions\<close>

text \<open>What \<open>metrics\<close> holds: a number or \<open>null\<close>, a boolean, a string.\<close>

datatype metric = NumMetric "rat option" | BoolMetric bool | TextMetric string

record position_leg =
  pl_token :: string
  pl_symbol :: string
  pl_decimals :: nat
  pl_amount :: string
  pl_amountUsd :: "rat option"
  pl_isDebt :: bool

record valued_position =
  vp_protocol :: string
  vp_kind :: string
  vp_label :: string
  vp_legs :: "position_leg list"
  vp_valueUsd :: "rat option"
  vp_debtUsd :: "rat option"
  vp_earningsUsd :: "rat option"
  vp_metrics :: "(string \<times> metric) list"
  vp_error :: "string option"

record valued_vault =
  vv_vaultAddress :: string
  vv_positions :: "valued_position list"
  vv_totalValueUsd :: rat
  vv_asOfBlock :: "nat option"
  vv_asOf :: int

text \<open>A position of some legs; what it may carry besides is set by the update of a field.\<close>

definition plain_position :: "string \<Rightarrow> string \<Rightarrow> string \<Rightarrow> position_leg list \<Rightarrow> rat option \<Rightarrow> valued_position" where
  "plain_position protocol kind label legs usd =
     \<lparr>vp_protocol = protocol, vp_kind = kind, vp_label = label, vp_legs = legs, vp_valueUsd = usd, vp_debtUsd = None,
      vp_earningsUsd = None, vp_metrics = [], vp_error = None\<rparr>"

definition error_position :: "string \<Rightarrow> string \<Rightarrow> string \<Rightarrow> valued_position" where
  "error_position protocol label err = (plain_position protocol ''error'' label [] None)\<lparr>vp_error := Some err\<rparr>"

definition token_usd :: "int \<Rightarrow> nat \<Rightarrow> rat \<Rightarrow> rat" where
  "token_usd amount decimals price = of_int amount / 10 ^ decimals * price"

definition sum_usd :: "rat option \<Rightarrow> rat option \<Rightarrow> rat option" where
  "sum_usd a b = (if a = None \<and> b = None then None else Some ((case a of None \<Rightarrow> 0 | Some x \<Rightarrow> x) + (case b of None \<Rightarrow> 0 | Some y \<Rightarrow> y)))"

definition usd_or_zero :: "rat option \<Rightarrow> rat" where
  "usd_or_zero v = or_else v 0"

definition total_usd :: "valued_position list \<Rightarrow> rat" where
  "total_usd ps = sum_list (map (\<lambda>p. usd_or_zero (vp_valueUsd p)) ps)"

lemma total_usd_append [simp]: "total_usd (ps @ qs) = total_usd ps + total_usd qs" "total_usd [] = 0"
  "total_usd (p # ps) = usd_or_zero (vp_valueUsd p) + total_usd ps"
  by (simp_all add: total_usd_def)

lemma total_usd_concat: "total_usd (concat (map f xs)) = (\<Sum>x\<leftarrow>xs. total_usd (f x))"
  by (induction xs) simp_all

lemma token_usd_nonneg: "0 \<le> amount \<Longrightarrow> 0 \<le> price \<Longrightarrow> 0 \<le> token_usd amount decimals price"
  by (simp add: token_usd_def)

section \<open>Conformance\<close>

text \<open>
  The checks of conformance.ts on a value of the TypeScript types; the \<open>typeof\<close> checks hold of such a
  value. \<open>checksum\<close> is the \<open>getAddress\<close> of ethers, \<open>None\<close> where it throws.
\<close>

definition leg_violations :: "(string \<Rightarrow> string option) \<Rightarrow> position_leg \<Rightarrow> string list" where
  "leg_violations checksum leg = (if checksum (pl_token leg) = None then [''leg.token invalid: '' @ pl_token leg] else [])"

definition debt_positive :: "valued_position \<Rightarrow> bool" where
  "debt_positive p \<longleftrightarrow> list_ex pl_isDebt (vp_legs p) \<and> (case vp_valueUsd p of None \<Rightarrow> False | Some v \<Rightarrow> 0 < v)"

definition validateValuedPosition :: "(string \<Rightarrow> string option) \<Rightarrow> valued_position \<Rightarrow> string list" where
  "validateValuedPosition checksum p =
     (if vp_protocol p = [] then [''missing protocol''] else []) @
     (if vp_kind p = [] then [''missing kind''] else []) @
     concat (map (leg_violations checksum) (vp_legs p)) @
     (if debt_positive p then [''a debt position must have valueUsd at most 0''] else []) @
     (if vp_kind p = ''borrow'' \<and> vp_debtUsd p = None then [''a borrow position must carry debtUsd''] else [])"

definition validatePositions :: "(string \<Rightarrow> string option) \<Rightarrow> valued_position list \<Rightarrow> string list" where
  "validatePositions checksum ps =
     concat (map (\<lambda>(i, p). map (\<lambda>e. ''position['' @ show_nat i @ '']: '' @ e) (validateValuedPosition checksum p)) (zip [0..<length ps] ps))"

definition validateClaimedTokens :: "(string \<Rightarrow> string option) \<Rightarrow> string list \<Rightarrow> string list" where
  "validateClaimedTokens checksum tokens =
     (if tokens = [] then [''claimedTokens must be a non-empty array''] else []) @
     concat (map (\<lambda>t. if checksum t = None then [''claimed token invalid: '' @ t] else []) tokens)"

lemma conforming_positions: "validatePositions checksum ps = [] \<longleftrightarrow> (\<forall>p \<in> set ps. validateValuedPosition checksum p = [])"
  by (auto simp: validatePositions_def all_set_conv_all_nth set_zip)

lemma conforming_claims: "validateClaimedTokens checksum ts = [] \<longleftrightarrow> ts \<noteq> [] \<and> (\<forall>t \<in> set ts. checksum t \<noteq> None)"
proof -
  have "concat (map (\<lambda>t. if checksum t = None then [e t] else []) ts) = [] \<longleftrightarrow> (\<forall>t \<in> set ts. checksum t \<noteq> None)" for e :: "string \<Rightarrow> string"
    by (induction ts) simp_all
  then show ?thesis unfolding validateClaimedTokens_def by (cases "ts = []") simp_all
qed

lemma conforming_plain:
  assumes "protocol \<noteq> []" "kind \<noteq> []" "kind \<noteq> ''borrow''" "list_all (\<lambda>l. checksum (pl_token l) \<noteq> None \<and> \<not> pl_isDebt l) legs"
  shows "validateValuedPosition checksum ((plain_position protocol kind label legs usd)\<lparr>vp_earningsUsd := earnings, vp_metrics := ms\<rparr>) = []"
proof -
  have "list_ex pl_isDebt legs = False" using assms(4) by (auto simp: list_all_iff list_ex_iff)
  with assms show ?thesis
    by (auto simp: validateValuedPosition_def plain_position_def debt_positive_def leg_violations_def list_all_iff)
qed

end
