(* ===== verification/Liquidity.thy ===== *)
theory Liquidity
  imports Positions
begin

text \<open>
  Liquidity positions of PancakeSwap V3: the integer port of TickMath and LiquidityAmounts (lp-math.ts)
  and the position built from a raw read (lp-position.ts). BigInts are unbounded integers, so the
  arithmetic is the code's own; USD values are exact rationals where the code has doubles. Lemmas: the
  square-root ratio is defined exactly on the tick range and stays in the bounds of the contract's
  uint160, the amounts are never negative, and move in opposite directions with the price.
\<close>

section \<open>Ticks\<close>

definition MAX_TICK :: int where
  "MAX_TICK = 887272"

definition Q96 :: int where
  "Q96 = 2 ^ 96"

definition LP_MAX_UINT256 :: int where
  "LP_MAX_UINT256 = 2 ^ 256 - 1"

text \<open>The constants of the bits 0 to 19 of the tick, in Q128.\<close>

definition tick_factors :: "int list" where
  "tick_factors =
    [340265354078544963557816517032075149313,
     340248342086729790484326174814286782778,
     340214320654664324051920982716015181260,
     340146287995602323631171512101879684304,
     340010263488231146823593991679159461444,
     339738377640345403697157401104375502016,
     339195258003219555707034227454543997025,
     338111622100601834656805679988414885971,
     335954724994790223023589805789778977700,
     331682121138379247127172139078559817300,
     323299236684853023288211250268160618739,
     307163716377032989948697243942600083929,
     277268403626896220162999269216087595045,
     225923453940442621947126027127485391333,
     149997214084966997727330242082538205943,
     66119101136024775622716233608466517926,
     12847376061809297530290974190478138313,
     485053260817066172746253684029974020,
     691415978906521570653435304214168,
     1404880482679654955896180642]"

text \<open>Bit by bit; the first factor needs no shift because the ratio still is one.\<close>

fun tick_ratio :: "int list \<Rightarrow> int \<Rightarrow> int \<Rightarrow> int" where
  "tick_ratio [] t ratio = ratio"
| "tick_ratio (f # fs) t ratio = tick_ratio fs (t div 2) (if t mod 2 \<noteq> 0 then ratio * f div 2 ^ 128 else ratio)"

definition ceil_shift :: "int \<Rightarrow> int" where
  "ceil_shift ratio = ratio div 2 ^ 32 + (if ratio mod 2 ^ 32 = 0 then 0 else 1)"

definition getSqrtRatioAtTick :: "int \<Rightarrow> int option" where
  "getSqrtRatioAtTick tick =
     (let absTick = \<bar>tick\<bar> in
      if absTick > MAX_TICK then None
      else (let ratio = tick_ratio tick_factors absTick (2 ^ 128) in
            Some (ceil_shift (if tick > 0 then LP_MAX_UINT256 div ratio else ratio))))"

section \<open>Amounts\<close>

definition getAmount0 :: "int \<Rightarrow> int \<Rightarrow> int \<Rightarrow> int" where
  "getAmount0 sqrtA sqrtB liquidity =
     (let (a, b) = (if sqrtA > sqrtB then (sqrtB, sqrtA) else (sqrtA, sqrtB)) in liquidity * 2 ^ 96 * (b - a) div b div a)"

definition getAmount1 :: "int \<Rightarrow> int \<Rightarrow> int \<Rightarrow> int" where
  "getAmount1 sqrtA sqrtB liquidity =
     (let (a, b) = (if sqrtA > sqrtB then (sqrtB, sqrtA) else (sqrtA, sqrtB)) in liquidity * (b - a) div Q96)"

definition getAmountsForLiquidity :: "int \<Rightarrow> int \<Rightarrow> int \<Rightarrow> int \<Rightarrow> int \<times> int" where
  "getAmountsForLiquidity sqrtPrice ratioA ratioB liquidity =
     (let (a, b) = (if ratioA > ratioB then (ratioB, ratioA) else (ratioA, ratioB)) in
      if sqrtPrice \<le> a then (getAmount0 a b liquidity, 0)
      else if sqrtPrice < b then (getAmount0 sqrtPrice b liquidity, getAmount1 a sqrtPrice liquidity)
      else (0, getAmount1 a b liquidity))"

section \<open>A position\<close>

record lp_read =
  lp_tokenId :: int
  lp_token0 :: string
  lp_token1 :: string
  lp_fee :: nat
  lp_tickLower :: int
  lp_tickUpper :: int
  lp_liquidity :: int
  lp_sqrtPriceX96 :: int
  lp_currentTick :: int
  lp_decimals0 :: nat
  lp_symbol0 :: string
  lp_decimals1 :: nat
  lp_symbol1 :: string
  lp_uncollected0 :: int
  lp_uncollected1 :: int
  lp_price0 :: "rat option"
  lp_price1 :: "rat option"

text \<open>The metrics of the position follow the builder's order.\<close>

definition buildLpPosition :: "lp_read \<Rightarrow> valued_position option" where
  "buildLpPosition r =
     (case (getSqrtRatioAtTick (lp_tickLower r), getSqrtRatioAtTick (lp_tickUpper r)) of
        (Some sqrtLower, Some sqrtUpper) \<Rightarrow>
          (let (amount0, amount1) = getAmountsForLiquidity (lp_sqrtPriceX96 r) sqrtLower sqrtUpper (lp_liquidity r);
               usd0 = (\<lambda>n. map_option (token_usd n (lp_decimals0 r)) (lp_price0 r));
               usd1 = (\<lambda>n. map_option (token_usd n (lp_decimals1 r)) (lp_price1 r));
               earningsUsd = sum_usd (usd0 (lp_uncollected0 r)) (usd1 (lp_uncollected1 r)) in
           Some ((plain_position ''pancakeswap-v3'' ''lp'' (lp_symbol0 r @ ''/'' @ lp_symbol1 r @ '' #'' @ show_int (lp_tokenId r))
             [\<lparr>pl_token = lp_token0 r, pl_symbol = lp_symbol0 r, pl_decimals = lp_decimals0 r, pl_amount = show_int amount0,
               pl_amountUsd = usd0 amount0, pl_isDebt = False\<rparr>,
              \<lparr>pl_token = lp_token1 r, pl_symbol = lp_symbol1 r, pl_decimals = lp_decimals1 r, pl_amount = show_int amount1,
               pl_amountUsd = usd1 amount1, pl_isDebt = False\<rparr>]
             (sum_usd (usd0 (amount0 + lp_uncollected0 r)) (usd1 (amount1 + lp_uncollected1 r))))
             \<lparr>vp_earningsUsd := earningsUsd,
              vp_metrics :=
                [(''inRange'', BoolMetric (lp_tickLower r \<le> lp_currentTick r \<and> lp_currentTick r < lp_tickUpper r)),
                 (''feeTier'', NumMetric (Some (of_nat (lp_fee r)))), (''tickLower'', NumMetric (Some (of_int (lp_tickLower r)))),
                 (''tickUpper'', NumMetric (Some (of_int (lp_tickUpper r)))),
                 (''uncollectedFees0'', TextMetric (show_int (lp_uncollected0 r))),
                 (''uncollectedFees1'', TextMetric (show_int (lp_uncollected1 r))), (''uncollectedUsd'', NumMetric earningsUsd)]\<rparr>))
      | _ \<Rightarrow> None)"

section \<open>Ticks stay in bounds\<close>

lemma factor_bounds: "list_all (\<lambda>f. 0 < f \<and> f < 2 ^ 128) tick_factors"
  by (simp add: tick_factors_def)

fun all_bits :: "int list \<Rightarrow> int \<Rightarrow> int" where
  "all_bits [] r = r"
| "all_bits (f # fs) r = all_bits fs (r * f div 2 ^ 128)"

lemma shrink: "0 \<le> r \<Longrightarrow> 0 < f \<Longrightarrow> f < 2 ^ 128 \<Longrightarrow> 0 \<le> r * f div 2 ^ 128 \<and> r * f div 2 ^ 128 \<le> (r::int)"
proof -
  assume "0 \<le> r" "0 < f" "f < 2 ^ 128"
  then have "r * f \<le> r * 2 ^ 128" by (intro mult_left_mono) auto
  then have "r * f div 2 ^ 128 \<le> r * 2 ^ 128 div 2 ^ 128" by (rule zdiv_mono1) simp
  moreover have "0 \<le> r * f div 2 ^ 128" using \<open>0 \<le> r\<close> \<open>0 < f\<close> by (simp add: pos_imp_zdiv_nonneg_iff)
  ultimately show ?thesis by simp
qed

lemma all_bits_mono: "list_all (\<lambda>f. 0 < f \<and> f < 2 ^ 128) fs \<Longrightarrow> r \<le> s \<Longrightarrow> all_bits fs r \<le> all_bits fs s"
proof (induction fs arbitrary: r s)
  case (Cons f fs)
  then have "r * f div 2 ^ 128 \<le> s * f div 2 ^ 128" by (intro zdiv_mono1 mult_right_mono) auto
  with Cons show ?case by simp
qed simp

lemma tick_ratio_bounds:
  "list_all (\<lambda>f. 0 < f \<and> f < 2 ^ 128) fs \<Longrightarrow> 0 \<le> r \<Longrightarrow> all_bits fs r \<le> tick_ratio fs t r \<and> tick_ratio fs t r \<le> r"
proof (induction fs arbitrary: t r)
  case (Cons f fs)
  then have s: "0 \<le> r * f div 2 ^ 128" "r * f div 2 ^ 128 \<le> r" using shrink by auto
  have "all_bits fs (r * f div 2 ^ 128) \<le> all_bits fs r" using Cons.prems(1) s(2) by (auto intro!: all_bits_mono)
  with Cons.IH [of r "t div 2"] Cons.IH [of "r * f div 2 ^ 128" "t div 2"] Cons.prems s show ?case by (auto intro: order_trans)
qed simp

lemma all_bits_value: "2 ^ 52 \<le> all_bits tick_factors (2 ^ 128)"
  by (simp add: tick_factors_def)

lemma ratio_range: "2 ^ 52 \<le> tick_ratio tick_factors t (2 ^ 128) \<and> tick_ratio tick_factors t (2 ^ 128) \<le> 2 ^ 128"
  using tick_ratio_bounds [OF factor_bounds, of "2 ^ 128" t] all_bits_value by auto

lemma ceil_shift_bounds: "0 \<le> r \<Longrightarrow> r div 2 ^ 32 \<le> ceil_shift r \<and> ceil_shift r \<le> r div 2 ^ 32 + 1"
  by (simp add: ceil_shift_def)

lemma sqrt_ratio_positive:
  assumes "getSqrtRatioAtTick tick = Some q"
  shows "2 ^ 20 \<le> q \<and> q < 2 ^ 173"
proof -
  let ?r = "tick_ratio tick_factors \<bar>tick\<bar> (2 ^ 128)"
  have r: "2 ^ 52 \<le> ?r" "?r \<le> 2 ^ 128" using ratio_range by auto
  have q: "q = ceil_shift (if tick > 0 then LP_MAX_UINT256 div ?r else ?r)" using assms by (auto simp: getSqrtRatioAtTick_def Let_def split: if_splits)
  have "2 ^ 52 \<le> (if tick > 0 then LP_MAX_UINT256 div ?r else ?r) \<and> (if tick > 0 then LP_MAX_UINT256 div ?r else ?r) \<le> LP_MAX_UINT256 div 2 ^ 52"
  proof (cases "tick > 0")
    case True
    have "LP_MAX_UINT256 div 2 ^ 128 \<le> LP_MAX_UINT256 div ?r" using r by (intro zdiv_mono2) (simp_all add: LP_MAX_UINT256_def)
    moreover have "LP_MAX_UINT256 div ?r \<le> LP_MAX_UINT256 div 2 ^ 52" using r by (intro zdiv_mono2) (simp_all add: LP_MAX_UINT256_def)
    ultimately show ?thesis using True by (simp add: LP_MAX_UINT256_def)
  qed (use r in \<open>simp add: LP_MAX_UINT256_def\<close>)
  then obtain x where x: "q = ceil_shift x" "2 ^ 52 \<le> x" "x \<le> LP_MAX_UINT256 div 2 ^ 52" using q by blast
  have "x div 2 ^ 32 \<le> LP_MAX_UINT256 div 2 ^ 52 div 2 ^ 32" "2 ^ 52 div 2 ^ 32 \<le> x div 2 ^ 32"
    using x by (auto intro: zdiv_mono1)
  with ceil_shift_bounds [of x] x show ?thesis by (simp add: LP_MAX_UINT256_def)
qed

lemma sqrt_ratio_defined: "getSqrtRatioAtTick tick \<noteq> None \<longleftrightarrow> \<bar>tick\<bar> \<le> MAX_TICK"
  by (simp add: getSqrtRatioAtTick_def Let_def)

text \<open>The constants of the contracts' TickMath.\<close>

lemma tick_constants: "getSqrtRatioAtTick (- 887272) = Some 4295128739" "getSqrtRatioAtTick 0 = Some Q96"
  "getSqrtRatioAtTick 887272 = Some 1461446703485210103287273052203988822378723970342"
  by (simp_all add: getSqrtRatioAtTick_def MAX_TICK_def tick_factors_def ceil_shift_def LP_MAX_UINT256_def Q96_def Let_def)

section \<open>Amounts move with the price\<close>

lemma amount0_antimono:
  assumes "0 < p" "p \<le> q" "q \<le> b" "0 \<le> liquidity"
  shows "getAmount0 q b liquidity \<le> getAmount0 p b liquidity" "0 \<le> getAmount0 q b liquidity"
proof -
  have "liquidity * 2 ^ 96 * (b - q) div b \<le> liquidity * 2 ^ 96 * (b - p) div b"
    using assms by (intro zdiv_mono1 mult_left_mono) auto
  moreover have nn: "0 \<le> liquidity * 2 ^ 96 * (b - q) div b" using assms by (simp add: pos_imp_zdiv_nonneg_iff)
  ultimately have "liquidity * 2 ^ 96 * (b - q) div b div q \<le> liquidity * 2 ^ 96 * (b - p) div b div p"
    using assms by (intro order_trans [OF zdiv_mono2 [of _ p q] zdiv_mono1]) auto
  with assms show "getAmount0 q b liquidity \<le> getAmount0 p b liquidity" by (simp add: getAmount0_def)
  show "0 \<le> getAmount0 q b liquidity" using nn assms by (simp add: getAmount0_def pos_imp_zdiv_nonneg_iff)
qed

lemma amount1_mono:
  assumes "a \<le> p" "p \<le> q" "0 \<le> liquidity"
  shows "getAmount1 a p liquidity \<le> getAmount1 a q liquidity" "0 \<le> getAmount1 a p liquidity"
proof -
  show "getAmount1 a p liquidity \<le> getAmount1 a q liquidity"
    using assms by (auto simp: getAmount1_def Q96_def intro!: zdiv_mono1 mult_left_mono)
  show "0 \<le> getAmount1 a p liquidity" using assms by (simp add: getAmount1_def Q96_def pos_imp_zdiv_nonneg_iff)
qed

lemma amount_same: "getAmount0 b b l = 0" "getAmount1 b b l = 0"
  by (simp_all add: getAmount0_def getAmount1_def)

text \<open>The amounts as those of the price clamped to the range.\<close>

lemma amounts_clamped:
  assumes "a \<le> b" "0 < a"
  shows "getAmountsForLiquidity p a b l = (getAmount0 (max a (min p b)) b l, getAmount1 a (max a (min p b)) l)"
  using assms by (auto simp: getAmountsForLiquidity_def amount_same max_def min_def)

lemma amounts_symmetric: "getAmountsForLiquidity p a b l = getAmountsForLiquidity p b a l"
  by (auto simp: getAmountsForLiquidity_def Let_def)

text \<open>When the price rises, a position between two valid ticks never gains token 0 and never loses
  token 1; both amounts are natural numbers, the position is all token 0 below its range, all token
  1 above it, and the order in which the bounds are given does not matter.\<close>

theorem amounts_follow_the_price:
  assumes "getSqrtRatioAtTick t = Some a" "getSqrtRatioAtTick u = Some b" "0 \<le> liquidity" "p \<le> q"
    and "getAmountsForLiquidity p a b liquidity = (p0, p1)" "getAmountsForLiquidity q a b liquidity = (q0, q1)"
  shows "0 \<le> q0 \<and> q0 \<le> p0 \<and> 0 \<le> p1 \<and> p1 \<le> q1 \<and> (p \<le> min a b \<longrightarrow> p1 = 0) \<and> (max a b \<le> q \<longrightarrow> q0 = 0)"
proof -
  have *: "0 \<le> q0 \<and> q0 \<le> p0 \<and> 0 \<le> p1 \<and> p1 \<le> q1 \<and> (p \<le> a \<longrightarrow> p1 = 0) \<and> (b \<le> q \<longrightarrow> q0 = 0)"
    if "a \<le> b" "0 < a" "getAmountsForLiquidity p a b liquidity = (p0, p1)" "getAmountsForLiquidity q a b liquidity = (q0, q1)" for a b
  proof -
    let ?p = "max a (min p b)" and ?q = "max a (min q b)"
    have o: "0 < ?p" "?p \<le> ?q" "?q \<le> b" "a \<le> ?p" using that(1,2) assms(4) by auto
    have "p0 = getAmount0 ?p b liquidity" "p1 = getAmount1 a ?p liquidity" "q0 = getAmount0 ?q b liquidity" "q1 = getAmount1 a ?q liquidity"
      using that amounts_clamped [OF that(1,2)] by simp_all
    then show ?thesis
      using amount0_antimono [OF o(1-3) assms(3)] amount1_mono [OF o(4,2) assms(3)] that(1) by (auto simp: amount_same max_def min_def)
  qed
  have "0 < a" "0 < b" using sqrt_ratio_positive assms(1,2) by fastforce+
  then show ?thesis
    using * [of a b] * [of b a] assms(5,6) amounts_symmetric [of _ a b] by (cases "a \<le> b") (auto simp: min_def max_def)
qed

lemma amounts_follow_the_price_witness:
  "fst (getAmountsForLiquidity Q96 4295128739 Q96 1000) \<le> fst (getAmountsForLiquidity 5000000000 4295128739 Q96 1000) \<and>
   snd (getAmountsForLiquidity 5000000000 4295128739 Q96 1000) \<le> snd (getAmountsForLiquidity Q96 4295128739 Q96 1000)"
  using amounts_follow_the_price [OF tick_constants(1,2), of 1000 5000000000 Q96 "fst (getAmountsForLiquidity 5000000000 4295128739 Q96 1000)"
      "snd (getAmountsForLiquidity 5000000000 4295128739 Q96 1000)" "fst (getAmountsForLiquidity Q96 4295128739 Q96 1000)"
      "snd (getAmountsForLiquidity Q96 4295128739 Q96 1000)"]
  by (simp add: Q96_def)

text \<open>A position is valued exactly when both of its ticks lie in the range of the contracts, with ratios
  far from zero, so that no amount is ever divided by zero; it is worth its principal and its
  uncollected fees, a leg without a price counting nothing, and has no value only when neither has one.\<close>

theorem position_is_valued:
  "(buildLpPosition r \<noteq> None \<longleftrightarrow> \<bar>lp_tickLower r\<bar> \<le> MAX_TICK \<and> \<bar>lp_tickUpper r\<bar> \<le> MAX_TICK) \<and>
   list_all (\<lambda>t. case getSqrtRatioAtTick t of None \<Rightarrow> True | Some q \<Rightarrow> q \<in> {2 ^ 20..<2 ^ 173}) [lp_tickLower r, lp_tickUpper r] \<and>
   (case buildLpPosition r of None \<Rightarrow> True | Some p \<Rightarrow>
      (vp_valueUsd p = None \<longleftrightarrow> lp_price0 r = None \<and> lp_price1 r = None) \<and>
      vp_valueUsd p = sum_usd (fold sum_usd (map pl_amountUsd (vp_legs p)) None) (vp_earningsUsd p))"
proof (cases "getSqrtRatioAtTick (lp_tickLower r)"; cases "getSqrtRatioAtTick (lp_tickUpper r)")
  fix a b assume ab: "getSqrtRatioAtTick (lp_tickLower r) = Some a" "getSqrtRatioAtTick (lp_tickUpper r) = Some b"
  have "\<bar>lp_tickLower r\<bar> \<le> MAX_TICK \<and> \<bar>lp_tickUpper r\<bar> \<le> MAX_TICK" using ab sqrt_ratio_defined by (metis option.distinct(1))
  with ab sqrt_ratio_positive [OF ab(1)] sqrt_ratio_positive [OF ab(2)] show ?thesis
    by (cases "lp_price0 r"; cases "lp_price1 r"; cases "getAmountsForLiquidity (lp_sqrtPriceX96 r) a b (lp_liquidity r)")
      (auto simp: buildLpPosition_def plain_position_def Let_def sum_usd_def token_usd_def add_divide_distrib ring_distribs)
qed (use sqrt_ratio_defined [of "lp_tickLower r"] sqrt_ratio_defined [of "lp_tickUpper r"] sqrt_ratio_positive [of "lp_tickLower r"]
  sqrt_ratio_positive [of "lp_tickUpper r"] in \<open>auto simp: buildLpPosition_def\<close>)

section \<open>The adapter\<close>

text \<open>
  pancake-v3.adapter.ts, on a record of the chain's answers, \<open>None\<close> where a call throws. The cache of token
  meta data only repeats an answer of the chain and is left out. \<open>pn_fees\<close> is the static call of \<open>collect\<close>,
  \<open>pn_pool\<close> the price and the tick of the pool of two tokens and a fee.
\<close>

record npm_position =
  np_token0 :: string
  np_token1 :: string
  np_fee :: nat
  np_tickLower :: int
  np_tickUpper :: int
  np_liquidity :: int

record npm_chain =
  pn_checksum :: "string \<Rightarrow> string option"
  pn_npm :: string
  pn_balance :: "nat option"
  pn_token :: "nat \<Rightarrow> int option"
  pn_position :: "int \<Rightarrow> npm_position option"
  pn_fees :: "int \<Rightarrow> (int \<times> int) option"
  pn_pool :: "string \<Rightarrow> string \<Rightarrow> nat \<Rightarrow> (int \<times> int) option"
  pn_meta :: "string \<Rightarrow> (string \<times> nat) option"
  pn_prices :: "string list \<Rightarrow> (string \<rightharpoonup> rat) option"

definition read_open :: "npm_chain \<Rightarrow> int \<Rightarrow> npm_position \<Rightarrow> int \<Rightarrow> int \<Rightarrow> lp_read option" where
  "read_open chain tokenId pos fee0 fee1 =
     (case (pn_checksum chain (np_token0 pos), pn_checksum chain (np_token1 pos)) of
        (Some token0, Some token1) \<Rightarrow>
          (case (pn_pool chain token0 token1 (np_fee pos), pn_meta chain token0, pn_meta chain token1, pn_prices chain [token0, token1]) of
             (Some (sqrtPriceX96, tick), Some (symbol0, decimals0), Some (symbol1, decimals1), Some prices) \<Rightarrow>
               Some \<lparr>lp_tokenId = tokenId, lp_token0 = token0, lp_token1 = token1, lp_fee = np_fee pos, lp_tickLower = np_tickLower pos,
                 lp_tickUpper = np_tickUpper pos, lp_liquidity = np_liquidity pos, lp_sqrtPriceX96 = sqrtPriceX96, lp_currentTick = tick,
                 lp_decimals0 = decimals0, lp_symbol0 = symbol0, lp_decimals1 = decimals1, lp_symbol1 = symbol1,
                 lp_uncollected0 = fee0, lp_uncollected1 = fee1, lp_price0 = prices token0, lp_price1 = prices token1\<rparr>
           | _ \<Rightarrow> None)
      | _ \<Rightarrow> None)"

text \<open>\<open>Some None\<close> is a position that is closed and has no fees left.\<close>

definition readPosition :: "npm_chain \<Rightarrow> int \<Rightarrow> lp_read option option" where
  "readPosition chain tokenId =
     (case (pn_position chain tokenId, pn_fees chain tokenId) of
        (Some pos, Some (fee0, fee1)) \<Rightarrow>
          if np_liquidity pos = 0 \<and> fee0 = 0 \<and> fee1 = 0 then Some None else map_option Some (read_open chain tokenId pos fee0 fee1)
      | _ \<Rightarrow> None)"

definition nft_error :: "int option \<Rightarrow> valued_position" where
  "nft_error tokenId = error_position ''pancakeswap-v3''
     (case tokenId of None \<Rightarrow> ''LP position'' | Some i \<Rightarrow> ''LP position #'' @ show_int i) ''Failed to read LP position''"

definition nft_positions :: "npm_chain \<Rightarrow> nat \<Rightarrow> valued_position list" where
  "nft_positions chain i =
     (case pn_token chain i of
        None \<Rightarrow> [nft_error None]
      | Some tokenId \<Rightarrow>
          (case readPosition chain tokenId of
             None \<Rightarrow> [nft_error (Some tokenId)]
           | Some None \<Rightarrow> []
           | Some (Some r) \<Rightarrow> (case buildLpPosition r of None \<Rightarrow> [nft_error (Some tokenId)] | Some p \<Rightarrow> [p])))"

definition pancake_getPositions :: "npm_chain \<Rightarrow> valued_position list option" where
  "pancake_getPositions chain = map_option (\<lambda>count. concat (map (nft_positions chain) [0..<count])) (pn_balance chain)"

definition pancake_claimedTokens :: "npm_chain \<Rightarrow> string list option" where
  "pancake_claimedTokens chain = map_option (\<lambda>a. [a]) (pn_checksum chain (pn_npm chain))"

lemma conforming_error: "protocol \<noteq> [] \<Longrightarrow> validateValuedPosition checksum (error_position protocol label err) = []"
  by (simp add: validateValuedPosition_def error_position_def plain_position_def debt_positive_def)

lemma lp_conforms:
  assumes "buildLpPosition r = Some p" "checksum (lp_token0 r) \<noteq> None" "checksum (lp_token1 r) \<noteq> None"
  shows "validateValuedPosition checksum p = []"
proof -
  obtain label l0 l1 usd earnings ms where p: "p = (plain_position ''pancakeswap-v3'' ''lp'' label [l0, l1] usd)\<lparr>vp_earningsUsd := earnings, vp_metrics := ms\<rparr>"
    and l: "pl_token l0 = lp_token0 r" "pl_token l1 = lp_token1 r" "\<not> pl_isDebt l0" "\<not> pl_isDebt l1"
    using assms(1) by (auto simp: buildLpPosition_def Let_def split: option.splits prod.splits)
  show ?thesis unfolding p by (rule conforming_plain) (use l assms in auto)
qed

lemma read_open_tokens:
  assumes "read_open chain i pos f g = Some r"
  shows "\<exists>t u. pn_checksum chain t = Some (lp_token0 r) \<and> pn_checksum chain u = Some (lp_token1 r)"
  using assms by (auto simp: read_open_def split: option.splits prod.splits)

lemma nft_conforms:
  assumes "\<And>t u. pn_checksum chain t = Some u \<Longrightarrow> pn_checksum chain u = Some u" "p \<in> set (nft_positions chain i)"
  shows "validateValuedPosition (pn_checksum chain) p = []"
proof -
  have e: "validateValuedPosition (pn_checksum chain) (nft_error j) = []" for j by (simp add: nft_error_def conforming_error)
  show ?thesis
  proof (cases "\<exists>j. p = nft_error j")
    case False
    then obtain tokenId r where "readPosition chain tokenId = Some (Some r)" and b: "buildLpPosition r = Some p"
      using assms(2) by (auto simp: nft_positions_def split: option.splits)
    then obtain pos f g where "read_open chain tokenId pos f g = Some r"
      by (auto simp: readPosition_def split: option.splits prod.splits if_splits)
    then show ?thesis using assms(1) read_open_tokens lp_conforms [OF b] by (metis option.distinct(1))
  qed (use e in auto)
qed

text \<open>Every position NFT is read on its own: whatever fails for one of them, the adapter answers with the positions of the
  others, at most one row for each NFT, and each row keeps the contract of conformance.ts, given that a
  checksummed address is its own checksum.\<close>

theorem broken_nft_is_isolated:
  assumes "\<And>t u. pn_checksum chain t = Some u \<Longrightarrow> pn_checksum chain u = Some u" "pancake_getPositions chain = Some ps"
  shows "validatePositions (pn_checksum chain) ps = [] \<and> length ps \<le> the (pn_balance chain) \<and>
    ps = concat (map (nft_positions chain) [0..<the (pn_balance chain)])"
proof -
  obtain count where c: "pn_balance chain = Some count" "ps = concat (map (nft_positions chain) [0..<count])"
    using assms(2) by (auto simp: pancake_getPositions_def)
  have one: "length (nft_positions chain i) \<le> 1" for i by (simp add: nft_positions_def split: option.splits)
  have "length (concat (map (nft_positions chain) is)) \<le> length is" for "is"
  proof (induction "is")
    case (Cons i "is")
    with one [of i] show ?case by simp
  qed simp
  then have "length ps \<le> count" unfolding c(2) by (metis length_upt minus_nat.diff_0)
  moreover have "validatePositions (pn_checksum chain) ps = []"
    using nft_conforms [of chain] assms(1) by (auto simp: conforming_positions c(2))
  ultimately show ?thesis using c by simp
qed

text \<open>Two NFTs, the first of which cannot be read.\<close>

definition demo_npm :: npm_chain where
  "demo_npm = \<lparr>pn_checksum = Some, pn_npm = ''N'', pn_balance = Some 2, pn_token = (\<lambda>i. Some (int i)),
     pn_position = (\<lambda>i. if i = 0 then None else Some \<lparr>np_token0 = ''A'', np_token1 = ''B'', np_fee = 500, np_tickLower = 0, np_tickUpper = 0,
       np_liquidity = 1\<rparr>), pn_fees = (\<lambda>i. Some (4, 0)), pn_pool = (\<lambda>a b f. Some (Q96, 0)), pn_meta = (\<lambda>t. Some (t, 0)),
     pn_prices = (\<lambda>ts. Some (\<lambda>t. Some 2))\<rparr>"

lemma demo_npm_positions:
  "\<exists>p. pancake_getPositions demo_npm = Some [nft_error (Some 0), p] \<and> vp_valueUsd p = Some 8 \<and> vp_kind p = ''lp''"
  by (simp add: pancake_getPositions_def demo_npm_def nft_positions_def readPosition_def read_open_def buildLpPosition_def Let_def
    tick_constants(2) getAmountsForLiquidity_def amount_same plain_position_def sum_usd_def token_usd_def upt_rec)

lemma broken_nft_is_isolated_witness:
  "\<exists>p. pancake_getPositions demo_npm = Some [nft_error (Some 0), p] \<and> vp_valueUsd p = Some 8 \<and>
    validatePositions Some [nft_error (Some 0), p] = []"
proof -
  obtain p where p: "pancake_getPositions demo_npm = Some [nft_error (Some 0), p]" "vp_valueUsd p = Some 8"
    using demo_npm_positions by blast
  have "pn_checksum demo_npm = Some" by (simp add: demo_npm_def)
  moreover have "validatePositions (pn_checksum demo_npm) [nft_error (Some 0), p] = []"
    by (rule conjunct1 [OF broken_nft_is_isolated [OF _ p(1)]]) (simp add: demo_npm_def)
  ultimately show ?thesis using p by auto
qed

end
