(* ===== verification/History.thy ===== *)
theory History
  imports Failures "HOL-Library.Multiset"
begin

text \<open>
  The read side of the execution history (execution.service.ts, execution.controller.ts): one row shape
  for runs, deposits and withdrawals, and failures; newest first, in pages. SQL leaves open the order
  of rows that the \<open>ORDER BY\<close> does not separate, so the order in which the database happens to read
  is an argument of each query, which may differ between two queries. Lemmas: with distinct sort keys
  the pages are exactly the sorted history, whatever that order is; with equal keys they need not be.
\<close>

section \<open>Rows\<close>

text \<open>\<open>hr_source\<close> stands for the primary key of the row.\<close>

datatype history_source = ExecutionId string nat | EventId string nat | FailureId nat

record unified_row =
  hr_source :: history_source
  hr_txHash :: "string option"
  hr_blockNumber :: int
  hr_logIndex :: nat
  hr_blockTimestamp :: int
  hr_automationId :: "nat option"
  hr_executorAddress :: "string option"
  hr_gasCompAmount :: "string option"
  hr_gasCompToken :: "string option"
  hr_gasCompUsd :: "string option"
  hr_event :: "(event_kind \<times> string \<times> nat \<times> nat \<times> nat) option"
  hr_amountUsd :: "string option"
  hr_failure :: "(bool \<times> string \<times> nat \<times> int \<times> int \<times> int option) option"

definition execution_unified :: "saved_execution \<Rightarrow> unified_row" where
  "execution_unified s =
     (let r = se_row s in
      \<lparr>hr_source = ExecutionId (ex_txHash r) (ex_logIndex r), hr_txHash = Some (ex_txHash r), hr_blockNumber = ex_blockNumber r,
       hr_logIndex = ex_logIndex r, hr_blockTimestamp = ex_timestamp r, hr_automationId = Some (ex_automationId r),
       hr_executorAddress = Some (ex_executor r), hr_gasCompAmount = ex_gasCompAmount r, hr_gasCompToken = ex_gasCompToken r,
       hr_gasCompUsd = se_gasCompUsd s, hr_event = None, hr_amountUsd = None, hr_failure = None\<rparr>)"

text \<open>A failure stays at the time it first occurred.\<close>

definition failure_unified :: "failure_row \<Rightarrow> unified_row" where
  "failure_unified f =
     \<lparr>hr_source = FailureId (fl_id f), hr_txHash = fl_lastTxHash f, hr_blockNumber = 0, hr_logIndex = 0,
      hr_blockTimestamp = fl_firstFailedAt f, hr_automationId = Some (fl_automationId f), hr_executorAddress = Some (fl_executor f),
      hr_gasCompAmount = None, hr_gasCompToken = None, hr_gasCompUsd = None, hr_event = None, hr_amountUsd = None,
      hr_failure = Some (fl_resolvedAt f = None, fl_errorMessage f, fl_attemptCount f, fl_firstFailedAt f, fl_lastFailedAt f,
        fl_resolvedAt f)\<rparr>"

definition event_unified :: "saved_event \<Rightarrow> unified_row" where
  "event_unified s =
     (let r = sv_row s in
      \<lparr>hr_source = EventId (ve_txHash r) (ve_logIndex r), hr_txHash = Some (ve_txHash r), hr_blockNumber = ve_blockNumber r,
       hr_logIndex = ve_logIndex r, hr_blockTimestamp = ve_timestamp r, hr_automationId = None, hr_executorAddress = None,
       hr_gasCompAmount = None, hr_gasCompToken = None, hr_gasCompUsd = None,
       hr_event = Some (ve_eventType r, ve_token r, ve_amount r, ve_feeAmount r, ve_feeBps r), hr_amountUsd = sv_amountUsd s,
       hr_failure = None\<rparr>)"

section \<open>The order of the page\<close>

text \<open>\<open>ORDER BY "blockTimestamp" DESC, "logIndex" DESC\<close>.\<close>

datatype history_key = HistoryKey (key_time: int) (key_index: nat)

instantiation history_key :: linorder
begin

definition less_eq_history_key :: "history_key \<Rightarrow> history_key \<Rightarrow> bool" where
  "a \<le> b \<longleftrightarrow> key_time b < key_time a \<or> (key_time a = key_time b \<and> key_index b \<le> key_index a)"

definition less_history_key :: "history_key \<Rightarrow> history_key \<Rightarrow> bool" where
  "a < b \<longleftrightarrow> key_time b < key_time a \<or> (key_time a = key_time b \<and> key_index b < key_index a)"

instance
proof
  fix a b c :: history_key
  show "a < b \<longleftrightarrow> a \<le> b \<and> \<not> b \<le> a" by (auto simp: less_eq_history_key_def less_history_key_def)
  show "a \<le> a" by (simp add: less_eq_history_key_def)
  show "a \<le> b \<Longrightarrow> b \<le> c \<Longrightarrow> a \<le> c" by (auto simp: less_eq_history_key_def)
  show "a \<le> b \<Longrightarrow> b \<le> a \<Longrightarrow> a = b" by (cases a; cases b) (auto simp: less_eq_history_key_def)
  show "a \<le> b \<or> b \<le> a" by (auto simp: less_eq_history_key_def)
qed

end

definition history_key_of :: "unified_row \<Rightarrow> history_key" where
  "history_key_of r = HistoryKey (hr_blockTimestamp r) (hr_logIndex r)"

section \<open>Queries\<close>

text \<open>Without an automation the deposits and withdrawals are part of the history.\<close>

definition history_rows :: "string \<Rightarrow> jsnum option \<Rightarrow> index_world \<Rightarrow> unified_row list" where
  "history_rows vaultId automationId w =
     (let wanted = (\<lambda>i. automationId = None \<or> automationId = Some (Fin (of_nat i))) in
      map execution_unified (filter (\<lambda>s. se_vaultId s = vaultId \<and> wanted (ex_automationId (se_row s))) (iw_executions w)) @
      (if automationId = None then map event_unified (filter (\<lambda>s. sv_vaultId s = vaultId) (iw_events w)) else []) @
      map failure_unified (filter (\<lambda>f. fl_vaultId f = vaultId \<and> wanted (fl_automationId f)) (iw_failures w)))"

record execution_page =
  ep_rows :: "unified_row list"
  ep_total :: nat
  ep_page :: nat
  ep_pageSize :: nat

datatype history_error = VaultNotFound | QueryFailed

definition page_rows :: "nat \<Rightarrow> nat \<Rightarrow> unified_row list \<Rightarrow> unified_row list" where
  "page_rows page pageSize rows = take pageSize (drop ((page - 1) * pageSize) (sort_key history_key_of rows))"

definition find_vault :: "string \<Rightarrow> index_world \<Rightarrow> string option" where
  "find_vault address w = map_option fst (List.find (\<lambda>(i, a, b). a = address) (iw_vaults w))"

definition getExecutions ::
  "(unified_row list \<Rightarrow> unified_row list) \<Rightarrow> string \<Rightarrow> jsnum option \<Rightarrow> nat \<Rightarrow> nat \<Rightarrow> index_world \<Rightarrow> history_error + execution_page" where
  "getExecutions storage address automationId page pageSize w =
     (case find_vault address w of
        None \<Rightarrow> Inl VaultNotFound
      | Some vaultId \<Rightarrow>
          (let rows = history_rows vaultId automationId w in
           Inr \<lparr>ep_rows = page_rows page pageSize (storage rows), ep_total = length rows, ep_page = page, ep_pageSize = pageSize\<rparr>))"

text \<open>\<open>parseInt(text ?? d, 10) || d\<close>, between 1 and the limit; an infinite page has no offset.\<close>

definition param_number :: "string option \<Rightarrow> nat \<Rightarrow> jsnum" where
  "param_number v d =
     (case parse_int10 (or_else v (show_nat d)) of
        NaN \<Rightarrow> Fin (of_nat d)
      | n \<Rightarrow> if n = Fin 0 then Fin (of_nat d) else n)"

definition at_least_one :: "jsnum \<Rightarrow> nat option" where
  "at_least_one n = (case n of Fin q \<Rightarrow> Some (nat (max 1 \<lfloor>q\<rfloor>)) | NInf \<Rightarrow> Some 1 | _ \<Rightarrow> None)"

definition page_param :: "string option \<Rightarrow> nat option" where
  "page_param v = at_least_one (param_number v 1)"

definition size_param :: "string option \<Rightarrow> nat" where
  "size_param v = min 100 (or_else (at_least_one (param_number v 20)) 100)"

definition automation_param :: "string option \<Rightarrow> jsnum option" where
  "automation_param v = (if v \<in> {None, Some []} then None else map_option num_of_string v)"

definition executions_route ::
  "(unified_row list \<Rightarrow> unified_row list) \<Rightarrow> string \<Rightarrow> string option \<Rightarrow> string option \<Rightarrow> string option \<Rightarrow> index_world \<Rightarrow>
   history_error + execution_page" where
  "executions_route storage address automationId page pageSize w =
     (case page_param page of
        None \<Rightarrow> (if find_vault address w = None then Inl VaultNotFound else Inl QueryFailed)
      | Some p \<Rightarrow> getExecutions storage address (automation_param automationId) p (size_param pageSize) w)"

section \<open>Paging\<close>

lemma concat_slices: "concat (map (\<lambda>p. take k (drop ((p - 1) * k) xs)) [1..<Suc n]) = take (n * k) xs"
proof (induction n)
  case (Suc n)
  have "concat (map (\<lambda>p. take k (drop ((p - 1) * k) xs)) [1..<Suc (Suc n)]) = take (n * k) xs @ take k (drop (n * k) xs)"
    using Suc by simp
  moreover have "take (Suc n * k) xs = take (n * k) xs @ take k (drop (n * k) xs)"
    by (metis add.commute mult_Suc take_add)
  ultimately show ?case by simp
qed simp

lemma storage_irrelevant:
  assumes "mset ys = mset xs" "distinct (map history_key_of xs)"
  shows "sort_key history_key_of ys = sort_key history_key_of xs"
proof -
  have "inj_on history_key_of (set ys)" using assms mset_eq_setD [OF assms(1)] by (simp add: distinct_map)
  with assms(1) show ?thesis by (rule sort_key_eq_sort_key)
qed

lemma getExecutions_rows:
  assumes "find_vault address w = Some vaultId"
  shows "getExecutions storage address a p k w = Inr \<lparr>ep_rows = page_rows p k (storage (history_rows vaultId a w)),
    ep_total = length (history_rows vaultId a w), ep_page = p, ep_pageSize = k\<rparr>"
  using assms by (simp add: getExecutions_def Let_def)

definition page_of :: "(unified_row list \<Rightarrow> unified_row list) \<Rightarrow> string \<Rightarrow> jsnum option \<Rightarrow> nat \<Rightarrow> nat \<Rightarrow> index_world \<Rightarrow> unified_row list" where
  "page_of storage address a p k w = (case getExecutions storage address a p k w of Inl _ \<Rightarrow> [] | Inr page \<Rightarrow> ep_rows page)"

text \<open>When no two rows of a history agree in time and log index, its pages put together are the whole
  history, newest first, each row once, in whatever order the database reads for each page.\<close>

theorem pages_are_the_history:
  assumes "find_vault address w = Some vaultId" "distinct (map history_key_of (history_rows vaultId a w))"
    and "\<And>p. mset (storage p (history_rows vaultId a w)) = mset (history_rows vaultId a w)"
    and "length (history_rows vaultId a w) \<le> n * k"
  shows "concat (map (\<lambda>p. page_of (storage p) address a p k w) [1..<Suc n]) = sort_key history_key_of (history_rows vaultId a w) \<and>
    sorted (map history_key_of (sort_key history_key_of (history_rows vaultId a w)))"
proof -
  let ?rows = "history_rows vaultId a w"
  have "page_of (storage p) address a p k w = take k (drop ((p - 1) * k) (sort_key history_key_of ?rows))" for p
    using assms(1) storage_irrelevant [OF assms(3) assms(2)] by (simp add: page_of_def getExecutions_rows page_rows_def)
  then have "concat (map (\<lambda>p. page_of (storage p) address a p k w) [1..<Suc n]) = take (n * k) (sort_key history_key_of ?rows)"
    by (simp only: concat_slices)
  with assms(4) show ?thesis by simp
qed

text \<open>Two runs in two blocks of the same second, each the first log of its block.\<close>

definition demo_run :: "string \<Rightarrow> int \<Rightarrow> saved_execution" where
  "demo_run tx block = \<lparr>se_vaultId = ''v'', se_row = \<lparr>ex_vaultAddress = ''A'', ex_automationId = 0, ex_executor = ''k'', ex_txHash = tx,
     ex_blockNumber = block, ex_logIndex = 3, ex_timestamp = 5000, ex_gasCompAmount = None, ex_gasCompToken = None\<rparr>,
     se_gasCompUsd = None\<rparr>"

definition demo_history :: "saved_execution list \<Rightarrow> index_world" where
  "demo_history runs = \<lparr>iw_vaults = [(''v'', ''A'', None)], iw_executions = runs, iw_events = [], iw_flows = [], iw_failures = [],
     iw_cursor = Some (20, None), iw_decimals = Map.empty, iw_flowSubs = None, iw_emitted = []\<rparr>"

lemma demo_vault_found: "find_vault ''A'' (demo_history runs) = Some ''v''"
  by (simp add: find_vault_def demo_history_def)

lemma demo_history_rows:
  "history_rows ''v'' None (demo_history [demo_run t1 b1, demo_run t2 b2]) = map execution_unified [demo_run t1 b1, demo_run t2 b2]"
  by (simp add: history_rows_def demo_history_def demo_run_def Let_def)

lemma pages_are_the_history_witness:
  "concat (map (\<lambda>p. page_of rev ''A'' (Some (Fin 0)) p 1 (demo_history [demo_run ''x'' 7])) [1..<Suc 1]) = [execution_unified (demo_run ''x'' 7)]"
proof -
  have "history_rows ''v'' (Some (Fin 0)) (demo_history [demo_run ''x'' 7]) = [execution_unified (demo_run ''x'' 7)]"
    by (simp add: history_rows_def demo_history_def demo_run_def Let_def)
  then show ?thesis
    using pages_are_the_history [where storage = "\<lambda>p. rev" and n = 1 and k = 1 and a = "Some (Fin 0)", OF demo_vault_found [of "[demo_run ''x'' 7]"]]
    by simp
qed

text \<open>Two runs whose blocks have the same second can share the sort key; then one of them can be on two
  pages and the other on none, although nothing was written between the two queries.\<close>

theorem equal_keys_hide_a_row:
  "\<exists>w r1 r2. set (history_rows ''v'' None w) = {r1, r2} \<and> hr_source r1 \<noteq> hr_source r2 \<and>
     page_of (\<lambda>rows. rows) ''A'' None 1 1 w = [r1] \<and> page_of rev ''A'' None 2 1 w = [r1]"
proof -
  let ?w = "demo_history [demo_run ''x'' 7, demo_run ''y'' 8]"
  let ?r1 = "execution_unified (demo_run ''x'' 7)" and ?r2 = "execution_unified (demo_run ''y'' 8)"
  have k: "history_key_of ?r1 = history_key_of ?r2" by (simp add: history_key_of_def execution_unified_def demo_run_def Let_def)
  have "sort_key history_key_of [?r1, ?r2] = [?r1, ?r2]" "sort_key history_key_of [?r2, ?r1] = [?r2, ?r1]" using k by simp_all
  then have "page_of (\<lambda>rows. rows) ''A'' None 1 1 ?w = [?r1]" "page_of rev ''A'' None 2 1 ?w = [?r1]"
    by (simp_all add: page_of_def getExecutions_rows [OF demo_vault_found] demo_history_rows page_rows_def)
  moreover have "hr_source ?r1 \<noteq> hr_source ?r2" by (simp add: execution_unified_def demo_run_def Let_def)
  moreover have "set (history_rows ''v'' None ?w) = {?r1, ?r2}" by (simp add: demo_history_rows)
  ultimately show ?thesis by blast
qed

end
