(* ===== verification/Lending.thy ===== *)
theory Lending
  imports Positions History
begin

text \<open>
  The Aave adapter of the cockpit: the principal of each reserve from the indexed flows
  (aave-earnings.ts), positions from raw reads (aave-positions.ts, aave-math.ts), the reads with their
  cache (aave-v3.adapter.ts) and the subscriptions of the indexer (aave-subscriptions.ts). The chain is a
  record of answers, \<open>None\<close> where a call throws. Lemmas: the principal is the signed sum of a reserve's
  flows, the positions add up to supplied minus owed, and when they conform.
\<close>

section \<open>Principal\<close>

record aave_flow =
  af_token :: string
  af_kind :: string
  af_amountUsd :: "rat option"

definition flow_delta :: "aave_flow \<Rightarrow> rat \<Rightarrow> rat" where
  "flow_delta f usd = (if af_kind f = ''AAVE_SUPPLY'' then usd else if af_kind f = ''AAVE_WITHDRAW'' then - usd else 0)"

text \<open>A reserve is absent, known, or poisoned (\<open>Some None\<close>).\<close>

fun principal_loop :: "aave_flow list \<Rightarrow> (string \<rightharpoonup> rat option) \<Rightarrow> (string \<rightharpoonup> rat option)" where
  "principal_loop [] out = out"
| "principal_loop (f # fs) out =
     (let key = lower (af_token f) in
      if out key = Some None then principal_loop fs out
      else (case af_amountUsd f of
          None \<Rightarrow> principal_loop fs (out(key \<mapsto> None))
        | Some usd \<Rightarrow> principal_loop fs (out(key \<mapsto> Some (usd_or_zero (or_else (out key) None) + flow_delta f usd)))))"

definition netPrincipalByReserve :: "aave_flow list \<Rightarrow> (string \<rightharpoonup> rat option)" where
  "netPrincipalByReserve flows = principal_loop flows Map.empty"

section \<open>Positions of the reserves\<close>

record reserve_read =
  rr_asset :: string
  rr_symbol :: string
  rr_decimals :: nat
  rr_aToken :: string
  rr_variableDebtToken :: string
  rr_supplied :: nat
  rr_debt :: nat
  rr_priceUsd :: "rat option"
  rr_supplyRateRay :: nat
  rr_borrowRateRay :: nat

record account_read =
  ac_totalCollateralBase :: nat
  ac_totalDebtBase :: nat
  ac_healthFactor :: nat

definition reserve_leg :: "reserve_read \<Rightarrow> nat \<Rightarrow> bool \<Rightarrow> position_leg" where
  "reserve_leg r amount debt = \<lparr>pl_token = rr_asset r, pl_symbol = rr_symbol r, pl_decimals = rr_decimals r, pl_amount = show_nat amount,
     pl_amountUsd = map_option (token_usd (int amount) (rr_decimals r)) (rr_priceUsd r), pl_isDebt = debt\<rparr>"

text \<open>\<open>(1 + apr / n) ** n - 1\<close> for the n seconds of a year, exactly.\<close>

definition SECONDS_PER_YEAR :: nat where
  "SECONDS_PER_YEAR = 31536000"

definition rayRateToApy :: "nat \<Rightarrow> rat" where
  "rayRateToApy rateRay = (1 + of_nat rateRay / 10 ^ 27 / of_nat SECONDS_PER_YEAR) ^ SECONDS_PER_YEAR - 1"

definition supply_position :: "(string \<rightharpoonup> rat option) \<Rightarrow> reserve_read \<Rightarrow> valued_position" where
  "supply_position principals r =
     (let leg = reserve_leg r (rr_supplied r) False; usd = pl_amountUsd leg in
      (plain_position ''aave-v3'' ''supply'' (rr_symbol r @ '' supplied'') [leg] usd)
        \<lparr>vp_earningsUsd := (case (usd, principals (lower (rr_asset r))) of (Some u, Some (Some p)) \<Rightarrow> Some (u - p) | _ \<Rightarrow> None),
         vp_metrics := [(''supplyApy'', NumMetric (Some (rayRateToApy (rr_supplyRateRay r))))]\<rparr>)"

definition borrow_position :: "reserve_read \<Rightarrow> valued_position" where
  "borrow_position r =
     (let leg = reserve_leg r (rr_debt r) True; usd = pl_amountUsd leg in
      (plain_position ''aave-v3'' ''borrow'' (rr_symbol r @ '' borrowed'') [leg] (map_option uminus usd))
        \<lparr>vp_debtUsd := usd, vp_metrics := [(''borrowApy'', NumMetric (Some (rayRateToApy (rr_borrowRateRay r))))]\<rparr>)"

definition reserve_positions :: "(string \<rightharpoonup> rat option) \<Rightarrow> reserve_read \<Rightarrow> valued_position list" where
  "reserve_positions principals r =
     (if 0 < rr_supplied r then [supply_position principals r] else []) @ (if 0 < rr_debt r then [borrow_position r] else [])"

definition healthFactorToNumber :: "nat \<Rightarrow> rat option" where
  "healthFactorToNumber hf = (if 2 ^ 256 - 1 \<le> hf then None else Some (of_nat hf / 10 ^ 18))"

definition base8ToUsd :: "nat \<Rightarrow> rat" where
  "base8ToUsd n = of_nat n / 10 ^ 8"

definition health_position :: "account_read \<Rightarrow> valued_position" where
  "health_position account =
     (plain_position ''aave-v3'' ''summary'' ''Account health'' [] None)
       \<lparr>vp_metrics := [(''healthFactor'', NumMetric (healthFactorToNumber (ac_healthFactor account))),
          (''collateralUsd'', NumMetric (Some (base8ToUsd (ac_totalCollateralBase account)))),
          (''debtUsd'', NumMetric (Some (base8ToUsd (ac_totalDebtBase account))))]\<rparr>"

definition buildAavePositions ::
  "reserve_read list \<Rightarrow> account_read \<Rightarrow> (string \<rightharpoonup> rat option) \<Rightarrow> valued_position list \<times> string list" where
  "buildAavePositions reserves account principals =
     (concat (map (reserve_positions principals) reserves) @
        (if 0 < ac_totalCollateralBase account \<or> 0 < ac_totalDebtBase account then [health_position account] else []),
      concat (map (\<lambda>r. [rr_aToken r, rr_variableDebtToken r]) reserves))"

section \<open>The adapter\<close>

record curated_token =
  ct_address :: string
  ct_symbol :: string
  ct_decimals :: nat

text \<open>
  \<open>lc_resolve\<close>: pool and oracle from the addresses provider, checksummed. \<open>lc_tokens\<close>: the aToken and the
  debt token of a reserve with its two rates. \<open>lc_balance\<close>: a token's balance of the vault.
\<close>

record lending_chain =
  lc_checksum :: "string \<Rightarrow> string option"
  lc_resolve :: "(string \<times> string) option"
  lc_account :: "string \<Rightarrow> account_read option"
  lc_curated :: "curated_token list option"
  lc_tokens :: "string \<Rightarrow> (string \<times> string \<times> nat \<times> nat) option"
  lc_balance :: "string \<Rightarrow> string \<Rightarrow> nat option"
  lc_price :: "string \<Rightarrow> nat option"
  lc_flows :: "index_world option"

record raw_read =
  rw_reserves :: "reserve_read list"
  rw_account :: account_read
  rw_claimed :: "string list"

record lending_state =
  ls_resolved :: "(string \<times> string) option"
  ls_cache :: "string \<rightharpoonup> raw_read \<times> int"

definition resolveAddresses :: "lending_chain \<Rightarrow> lending_state \<Rightarrow> lending_state \<times> (string \<times> string) option" where
  "resolveAddresses chain st =
     (case ls_resolved st of
        Some r \<Rightarrow> (st, Some r)
      | None \<Rightarrow> (case lc_resolve chain of None \<Rightarrow> (st, None) | Some r \<Rightarrow> (st\<lparr>ls_resolved := Some r\<rparr>, Some r)))"

definition oracle_price :: "nat \<Rightarrow> rat option" where
  "oracle_price base = (if 0 < base then Some (base8ToUsd base) else None)"

text \<open>One reserve: what it claims and what it reads as. The claim stands when a later read of it fails.\<close>

definition read_reserve :: "lending_chain \<Rightarrow> string \<Rightarrow> curated_token \<Rightarrow> string list \<times> reserve_read option" where
  "read_reserve chain vault t =
     (case lc_tokens chain (ct_address t) of
        None \<Rightarrow> ([], None)
      | Some (a, d, supplyRate, borrowRate) \<Rightarrow>
          (case (lc_checksum chain a, lc_checksum chain d) of
             (Some aToken, Some debtToken) \<Rightarrow>
               ([aToken, debtToken],
                (case (lc_balance chain aToken vault, lc_balance chain debtToken vault, lc_price chain (ct_address t),
                    lc_checksum chain (ct_address t)) of
                   (Some supplied, Some debt, Some base, Some asset) \<Rightarrow>
                     Some \<lparr>rr_asset = asset, rr_symbol = ct_symbol t, rr_decimals = ct_decimals t, rr_aToken = aToken,
                       rr_variableDebtToken = debtToken, rr_supplied = supplied, rr_debt = debt, rr_priceUsd = oracle_price base,
                       rr_supplyRateRay = supplyRate, rr_borrowRateRay = borrowRate\<rparr>
                 | _ \<Rightarrow> None))
           | _ \<Rightarrow> ([], None)))"

definition READ_TTL :: int where
  "READ_TTL = 15 * 1000"

definition live_read :: "lending_chain \<Rightarrow> string \<Rightarrow> raw_read option" where
  "live_read chain vault =
     (case (lc_account chain vault, lc_curated chain) of
        (Some account, Some curated) \<Rightarrow>
          (let reads = map (read_reserve chain vault) curated in
           Some \<lparr>rw_reserves = List.map_filter snd reads, rw_account = account, rw_claimed = concat (map fst reads)\<rparr>)
      | _ \<Rightarrow> None)"

definition aave_read :: "lending_chain \<Rightarrow> string \<Rightarrow> int \<Rightarrow> lending_state \<Rightarrow> lending_state \<times> raw_read option" where
  "aave_read chain vault now st =
     (let live = (case resolveAddresses chain st of
            (st', None) \<Rightarrow> (st', None)
          | (st', Some _) \<Rightarrow>
              (case live_read chain vault of
                 None \<Rightarrow> (st', None)
               | Some d \<Rightarrow> (st'\<lparr>ls_cache := (ls_cache st')(vault \<mapsto> (d, now + READ_TTL))\<rparr>, Some d))) in
      case ls_cache st vault of
        Some (d, expiresAt) \<Rightarrow> if now < expiresAt then (st, Some d) else live
      | None \<Rightarrow> live)"

text \<open>\<open>Number\<close> of a frozen USD text. The indexer writes numerals only; what is not one is left out as if \<open>null\<close>.\<close>

definition stored_usd :: "string option \<Rightarrow> rat option" where
  "stored_usd v = (case map_option num_of_string v of Some (Fin q) \<Rightarrow> Some q | _ \<Rightarrow> None)"

definition flow_of :: "saved_flow \<Rightarrow> aave_flow" where
  "flow_of s = \<lparr>af_token = fd_token (fr_draft (sf_row s)), af_kind = fd_kind (fr_draft (sf_row s)), af_amountUsd = stored_usd (sf_amountUsd s)\<rparr>"

definition netPrincipal :: "lending_chain \<Rightarrow> string \<Rightarrow> (string \<rightharpoonup> rat option)" where
  "netPrincipal chain vault =
     (case lc_flows chain of
        None \<Rightarrow> Map.empty
      | Some w \<Rightarrow>
          (case find_vault vault w of
             None \<Rightarrow> Map.empty
           | Some vaultId \<Rightarrow> netPrincipalByReserve (map flow_of
               (filter (\<lambda>s. sf_vaultId s = vaultId \<and> fd_protocol (fr_draft (sf_row s)) = ''aave-v3'') (iw_flows w)))))"

definition aave_claimedTokens :: "lending_chain \<Rightarrow> string \<Rightarrow> int \<Rightarrow> lending_state \<Rightarrow> lending_state \<times> string list option" where
  "aave_claimedTokens chain vault now st = (case aave_read chain vault now st of (st', d) \<Rightarrow> (st', map_option rw_claimed d))"

definition aave_getPositions :: "lending_chain \<Rightarrow> string \<Rightarrow> int \<Rightarrow> lending_state \<Rightarrow> lending_state \<times> valued_position list option" where
  "aave_getPositions chain vault now st =
     (case aave_read chain vault now st of
        (st', d) \<Rightarrow> (st', map_option (\<lambda>r. fst (buildAavePositions (rw_reserves r) (rw_account r) (netPrincipal chain vault))) d))"

text \<open>The indexer's two subscriptions; \<open>topic\<close> hashes an event's name, \<open>decode\<close> is \<open>parseLog\<close> with the reserve and the amount.\<close>

definition aave_draft ::
  "(string \<Rightarrow> string option) \<Rightarrow> (string list \<Rightarrow> string \<Rightarrow> (string \<times> nat) option) \<Rightarrow> string \<Rightarrow> string list \<Rightarrow> string \<Rightarrow> string + flow_draft option" where
  "aave_draft checksum decode kind topics data =
     (case decode topics data of
        None \<Rightarrow> Inr None
      | Some (reserve, amount) \<Rightarrow>
          (case checksum reserve of
             None \<Rightarrow> Inl ''invalid address''
           | Some token \<Rightarrow> Inr (Some \<lparr>fd_protocol = ''aave-v3'', fd_kind = kind, fd_token = token, fd_amount = show_nat amount\<rparr>)))"

definition buildAaveLogSubscriptions ::
  "(string \<Rightarrow> string option) \<Rightarrow> (string \<Rightarrow> string) \<Rightarrow> (string \<Rightarrow> string list \<Rightarrow> string \<Rightarrow> (string \<times> nat) option) \<Rightarrow> string \<Rightarrow>
   log_subscription list option" where
  "buildAaveLogSubscriptions checksum topic decode pool =
     map_option (\<lambda>address. map (\<lambda>(event, kind).
         \<lparr>sub_address = address, sub_topic0 = topic event, sub_vaultTopicIndex = 2, sub_draft = aave_draft checksum (decode event) kind\<rparr>)
       [(''Supply'', ''AAVE_SUPPLY''), (''Withdraw'', ''AAVE_WITHDRAW'')]) (checksum pool)"

section \<open>Principal, exactly\<close>

lemma principal_loop_poisoned: "out key = Some None \<Longrightarrow> principal_loop flows out key = Some None"
proof (induction flows arbitrary: out)
  case (Cons f fs)
  then show ?case by (cases "lower (af_token f) = key"; cases "af_amountUsd f") (auto simp: Let_def)
qed simp

definition flow_sum :: "aave_flow list \<Rightarrow> rat" where
  "flow_sum fs = (\<Sum>f\<leftarrow>fs. flow_delta f (usd_or_zero (af_amountUsd f)))"

definition reserve_flows :: "aave_flow list \<Rightarrow> string \<Rightarrow> aave_flow list" where
  "reserve_flows flows key = filter (\<lambda>f. lower (af_token f) = key) flows"

lemma principal_loop_known:
  assumes "list_all (\<lambda>f. af_amountUsd f \<noteq> None) (reserve_flows flows key)" "out key \<noteq> Some None"
  shows "principal_loop flows out key =
    (if reserve_flows flows key = [] then out key else Some (Some (usd_or_zero (or_else (out key) None) + flow_sum (reserve_flows flows key))))"
  using assms
proof (induction flows arbitrary: out)
  case (Cons f fs)
  show ?case
  proof (cases "lower (af_token f) = key")
    case True
    then obtain u where u: "af_amountUsd f = Some u" using Cons.prems(1) by (auto simp: reserve_flows_def)
    let ?out = "out(key \<mapsto> Some (usd_or_zero (or_else (out key) None) + flow_delta f u))"
    have "principal_loop (f # fs) out key = principal_loop fs ?out key" using True u Cons.prems(2) by (simp add: Let_def)
    also have "\<dots> = (if reserve_flows fs key = [] then ?out key
        else Some (Some (usd_or_zero (or_else (?out key) None) + flow_sum (reserve_flows fs key))))"
      using Cons.prems(1) True by (intro Cons.IH) (auto simp: reserve_flows_def)
    finally show ?thesis using True u by (auto simp: reserve_flows_def flow_sum_def usd_or_zero_def)
  next
    case False
    then have "principal_loop (f # fs) out key = principal_loop fs
        (if out (lower (af_token f)) = Some None then out else case af_amountUsd f of
           None \<Rightarrow> out(lower (af_token f) \<mapsto> None)
         | Some u \<Rightarrow> out(lower (af_token f) \<mapsto> Some (usd_or_zero (or_else (out (lower (af_token f))) None) + flow_delta f u))) key"
      by (simp add: Let_def split: option.splits)
    with False Cons.prems show ?thesis
      by (subst (asm) Cons.IH) (auto simp: reserve_flows_def split: option.splits)
  qed
qed (simp add: reserve_flows_def)

lemma principal_loop_unknown:
  assumes "list_ex (\<lambda>f. af_amountUsd f = None) (reserve_flows flows key)"
  shows "principal_loop flows out key = Some None"
  using assms
proof (induction flows arbitrary: out)
  case (Cons f fs)
  then show ?case
    by (cases "lower (af_token f) = key"; cases "af_amountUsd f")
       (auto simp: reserve_flows_def Let_def principal_loop_poisoned)
qed (simp add: reserve_flows_def)

text \<open>The principal of a reserve is the sum of what was supplied less what was withdrawn, over the flows of that
  reserve in any order and spelling; it is unknown when one of them has no USD value and absent when
  there is none.\<close>

theorem principal_is_exact:
  "netPrincipalByReserve flows key =
     (if reserve_flows flows key = [] then None
      else if list_ex (\<lambda>f. af_amountUsd f = None) (reserve_flows flows key) then Some None
      else Some (Some (flow_sum (reserve_flows flows key))))"
proof (cases "list_ex (\<lambda>f. af_amountUsd f = None) (reserve_flows flows key)")
  case True
  then show ?thesis by (auto simp: netPrincipalByReserve_def principal_loop_unknown)
next
  case False
  then have "list_all (\<lambda>f. af_amountUsd f \<noteq> None) (reserve_flows flows key)" by (simp add: list_all_iff list_ex_iff)
  with False show ?thesis by (simp add: netPrincipalByReserve_def principal_loop_known usd_or_zero_def)
qed

section \<open>Net equity\<close>

definition reserve_equity :: "reserve_read \<Rightarrow> rat" where
  "reserve_equity r = (case rr_priceUsd r of None \<Rightarrow> 0 | Some price \<Rightarrow> token_usd (int (rr_supplied r) - int (rr_debt r)) (rr_decimals r) price)"

lemma reserve_positions_total: "total_usd (reserve_positions principals r) = reserve_equity r"
  by (cases "rr_priceUsd r")
     (auto simp: reserve_positions_def supply_position_def borrow_position_def reserve_leg_def plain_position_def reserve_equity_def
       token_usd_def usd_or_zero_def Let_def diff_divide_distrib left_diff_distrib)

text \<open>The positions of the adapter add up to what is supplied less what is owed, priced reserve by reserve; earnings,
  health and rates do not enter, and every reserve claims its two tokens whatever the balances.\<close>

theorem aave_net_equity:
  "total_usd (fst (buildAavePositions reserves account principals)) = (\<Sum>r\<leftarrow>reserves. reserve_equity r) \<and>
   set (snd (buildAavePositions reserves account principals)) = rr_aToken ` set reserves \<union> rr_variableDebtToken ` set reserves"
proof -
  have "total_usd (if c then [health_position account] else []) = 0" for c
    by (simp add: health_position_def plain_position_def usd_or_zero_def)
  then have "total_usd (fst (buildAavePositions reserves account principals)) = (\<Sum>r\<leftarrow>reserves. reserve_equity r)"
    by (simp add: buildAavePositions_def total_usd_concat reserve_positions_total)
  then show ?thesis by (auto simp: buildAavePositions_def)
qed

section \<open>Conformance\<close>

definition reserve_conforms :: "(string \<Rightarrow> string option) \<Rightarrow> reserve_read \<Rightarrow> bool" where
  "reserve_conforms checksum r \<longleftrightarrow> checksum (rr_asset r) \<noteq> None \<and> (case rr_priceUsd r of None \<Rightarrow> True | Some price \<Rightarrow> 0 \<le> price)"

lemma supply_conforms: "reserve_conforms checksum r \<Longrightarrow> validateValuedPosition checksum (supply_position principals r) = []"
  unfolding supply_position_def Let_def by (rule conforming_plain) (auto simp: reserve_conforms_def reserve_leg_def)

lemma borrow_conforms:
  assumes "reserve_conforms checksum r"
  shows "validateValuedPosition checksum (borrow_position r) = [] \<longleftrightarrow> rr_priceUsd r \<noteq> None"
proof (cases "rr_priceUsd r")
  case (Some price)
  with assms have "0 \<le> token_usd (int (rr_debt r)) (rr_decimals r) price" by (simp add: reserve_conforms_def token_usd_nonneg)
  with assms Some show ?thesis
    by (simp add: reserve_conforms_def validateValuedPosition_def borrow_position_def reserve_leg_def plain_position_def debt_positive_def
      leg_violations_def Let_def)
qed (simp add: validateValuedPosition_def borrow_position_def reserve_leg_def plain_position_def Let_def)

lemma health_conforms: "validateValuedPosition checksum (health_position account) = []"
  unfolding health_position_def
  using conforming_plain [where protocol = "''aave-v3''" and kind = "''summary''" and legs = "[]" and label = "''Account health''"
      and usd = None and earnings = None and checksum = checksum] by (simp add: plain_position_def)

text \<open>With valid assets and prices that are not negative the adapter keeps the contract of conformance.ts exactly when no
  reserve that owes lacks a price: a debt without a price is reported without the \<open>debtUsd\<close> the contract asks for.\<close>

theorem aave_conforms_iff_debts_priced:
  assumes "list_all (reserve_conforms checksum) reserves"
  shows "validatePositions checksum (fst (buildAavePositions reserves account principals)) = [] \<longleftrightarrow>
    list_all (\<lambda>r. 0 < rr_debt r \<longrightarrow> rr_priceUsd r \<noteq> None) reserves"
proof -
  have "(\<forall>p \<in> set (reserve_positions principals r). validateValuedPosition checksum p = []) \<longleftrightarrow> (0 < rr_debt r \<longrightarrow> rr_priceUsd r \<noteq> None)"
    if "r \<in> set reserves" for r
  proof -
    have "reserve_conforms checksum r" using assms that by (simp add: list_all_iff)
    then show ?thesis by (cases "0 < rr_supplied r"; cases "0 < rr_debt r") (simp_all add: reserve_positions_def supply_conforms borrow_conforms)
  qed
  then have "(\<forall>r \<in> set reserves. \<forall>p \<in> set (reserve_positions principals r). validateValuedPosition checksum p = []) \<longleftrightarrow>
      (\<forall>r \<in> set reserves. 0 < rr_debt r \<longrightarrow> rr_priceUsd r \<noteq> None)"
    by blast
  then show ?thesis by (simp add: conforming_positions buildAavePositions_def health_conforms list_all_iff ball_Un)
qed

definition demo_reserve :: "rat option \<Rightarrow> reserve_read" where
  "demo_reserve price = \<lparr>rr_asset = ''T'', rr_symbol = ''T'', rr_decimals = 0, rr_aToken = ''aT'', rr_variableDebtToken = ''dT'',
     rr_supplied = 3, rr_debt = 2, rr_priceUsd = price, rr_supplyRateRay = 0, rr_borrowRateRay = 0\<rparr>"

lemma aave_conforms_iff_debts_priced_witness:
  "validatePositions Some (fst (buildAavePositions [demo_reserve (Some 5)] account Map.empty)) = [] \<and>
   validatePositions Some (fst (buildAavePositions [demo_reserve None] account Map.empty)) \<noteq> []"
proof -
  have "list_all (reserve_conforms Some) [demo_reserve (Some 5)]" "list_all (reserve_conforms Some) [demo_reserve None]"
    by (simp_all add: reserve_conforms_def demo_reserve_def)
  from this [THEN aave_conforms_iff_debts_priced, of account Map.empty] show ?thesis by (simp add: demo_reserve_def)
qed

end
