(* ===== verification/Portfolio.thy ===== *)
theory Portfolio
  imports Positions Gate
begin

text \<open>
  What the valuation rests on: prices (price.service.ts), token balances (alchemy.service.ts), the
  portfolio of a vault with its cache (vault-portfolio.service.ts) and the fee registry
  (fee.service.ts). HTTP and chain answers are arguments, \<open>Inl\<close> where a call throws; JSON answers are
  records of the fields the code reads, \<open>None\<close> where a field is absent. USD values are exact rationals.
  Lemmas: overview and portfolio agree, which balances count, and which tokens are accepted.
\<close>

section \<open>Reading a number's prefix\<close>

text \<open>\<open>parseFloat\<close>: the longest prefix that is a decimal literal.\<close>

definition exponent_prefix :: "string \<Rightarrow> bool \<times> nat" where
  "exponent_prefix s =
     (case s of
        [] \<Rightarrow> (False, 0)
      | e # r \<Rightarrow>
          if e \<in> {CHR ''e'', CHR ''E''} then
            (case strip_sign r of (neg, u) \<Rightarrow>
               let ds = takeWhile is_digit u in if ds = [] then (False, 0) else (neg, dec_val ds))
          else (False, 0))"

definition parse_float :: "string \<Rightarrow> jsnum" where
  "parse_float s =
     (case strip_sign (dropWhile js_ws s) of (neg, u) \<Rightarrow>
        if starts_with ''Infinity'' u then (if neg then NInf else PInf)
        else
          (let ip = takeWhile is_digit u; (fp, r) = fraction_part (dropWhile is_digit u) in
           if ip = [] \<and> fp = [] then NaN
           else
             (let (eneg, k) = exponent_prefix r; m = of_nat (dec_val (ip @ fp)) / 10 ^ length fp in
              signed_num neg (if eneg then m / 10 ^ k else m * 10 ^ k))))"

lemma parse_float_hex: "parse_float (''0x'' @ ds) = Fin 0"
proof -
  have d: "is_digit CHR ''0''" "\<not> is_digit CHR ''x''" "digit_val CHR ''0'' = 0" by code_simp+
  have w: "dropWhile js_ws (''0x'' @ ds) = ''0x'' @ ds" using digit_not_ws [OF d(1)] by simp
  have n: "num_fin 0 = Fin 0" by (rule num_fin_small) (simp add: num_limit_def)
  show ?thesis
    unfolding parse_float_def w
    by (simp add: starts_with_def d n fraction_part_def exponent_prefix_def signed_num_def Let_def)
qed

lemma parse_float_show: "parse_float (show_nat n) = num_fin (of_nat n)"
proof -
  have d: "list_all is_digit (show_nat n)" by (rule show_nat_all_digits)
  then obtain c cs where c: "show_nat n = c # cs" "is_digit c" by (cases "show_nat n") (auto simp: show_nat_nonempty)
  have i: "\<not> is_digit CHR ''I''" by code_simp
  have w: "dropWhile js_ws (show_nat n) = show_nat n" using c by (simp add: digit_not_ws)
  have "\<not> starts_with ''Infinity'' (show_nat n)" using c i by (auto simp: starts_with_def)
  then show ?thesis
    unfolding parse_float_def w strip_sign_digits [OF d]
    by (simp add: takeWhile_digits [OF d] dropWhile_digits [OF d] fraction_part_def exponent_prefix_def signed_num_def Let_def)
qed

section \<open>Prices\<close>

record coin =
  co_price :: "rat option"
  co_confidence :: "rat option"

text \<open>An answer: \<open>Inl\<close> when the request or its JSON fails, \<open>Inr None\<close> when the status is not a success.\<close>

type_synonym price_http = "string \<Rightarrow> js_error + (string \<rightharpoonup> coin) option"

definition coin_price :: "coin option \<Rightarrow> rat option" where
  "coin_price c =
     (case c of
        None \<Rightarrow> None
      | Some coin \<Rightarrow> (case co_confidence coin of None \<Rightarrow> None | Some q \<Rightarrow> if 1 / 2 \<le> q then co_price coin else None))"

definition getPrices :: "price_http \<Rightarrow> string list \<Rightarrow> (string \<rightharpoonup> rat)" where
  "getPrices http addresses =
     (if addresses = [] then Map.empty
      else case http (''https://coins.llama.fi/prices/current/'' @ join '','' (map (\<lambda>a. ''bsc:'' @ a) addresses)) of
        Inr (Some coins) \<Rightarrow> (\<lambda>a. if a \<in> set addresses then coin_price (coins (''bsc:'' @ a)) else None)
      | _ \<Rightarrow> Map.empty)"

section \<open>Balances\<close>

record token_balance =
  tb_address :: string
  tb_symbol :: string
  tb_name :: string
  tb_decimals :: nat
  tb_balance :: string
  tb_priceUsd :: "rat option"

text \<open>A token of Alchemy's answer, in the two spellings the code looks for; \<open>at_price\<close> is the first of \<open>prices\<close>.\<close>

record alchemy_token =
  at_balance :: "string option"
  at_tokenBalance :: "string option"
  at_contractAddress :: "string option"
  at_address :: "string option"
  at_symbol :: "string option"
  at_metaSymbol :: "string option"
  at_name :: "string option"
  at_metaName :: "string option"
  at_decimals :: "nat option"
  at_metaDecimals :: "nat option"
  at_price :: "rat option"
  at_priceUsd :: "rat option"

definition first_of :: "'a option \<Rightarrow> 'a option \<Rightarrow> 'a \<Rightarrow> 'a" where
  "first_of a b d = or_else a (or_else b d)"

definition alchemy_balance :: "alchemy_token \<Rightarrow> string" where
  "alchemy_balance t = first_of (at_balance t) (at_tokenBalance t) ''0''"

definition alchemy_position :: "alchemy_token \<Rightarrow> token_balance" where
  "alchemy_position t =
     \<lparr>tb_address = first_of (at_contractAddress t) (at_address t) [], tb_symbol = first_of (at_symbol t) (at_metaSymbol t) ''UNKNOWN'',
      tb_name = first_of (at_name t) (at_metaName t) ''Unknown Token'', tb_decimals = first_of (at_decimals t) (at_metaDecimals t) 18,
      tb_balance = alchemy_balance t, tb_priceUsd = (case at_price t of None \<Rightarrow> at_priceUsd t | Some p \<Rightarrow> Some p)\<rparr>"

text \<open>The answer has its tokens at the top (\<open>fst\<close>) or in its result.\<close>

definition parseAlchemyResponse :: "alchemy_token list option \<times> alchemy_token list option \<Rightarrow> token_balance list" where
  "parseAlchemyResponse data =
     map alchemy_position (filter (\<lambda>t. alchemy_balance t \<notin> {''0'', ''0x0''}) (first_of (fst data) (snd data) []))"

text \<open>
  \<open>bs_alchemy\<close> answers for one address, with the three outcomes of \<open>price_http\<close>; the chain reads of the
  development mode are \<open>None\<close> where a call throws.
\<close>

record balance_env =
  bs_nodeEnv :: "string option"
  bs_apiKey :: "string option"
  bs_rpcUrl :: "string option"
  bs_alchemy :: "string \<Rightarrow> js_error + (alchemy_token list option \<times> alchemy_token list option) option"
  bs_protocolTokens :: "string list option"
  bs_balanceOf :: "string \<Rightarrow> string \<Rightarrow> nat option"
  bs_meta :: "string \<Rightarrow> (string \<times> string \<times> nat) option"

definition alchemy_for :: "balance_env \<Rightarrow> string \<Rightarrow> token_balance list" where
  "alchemy_for env address =
     (if or_else (bs_apiKey env) [] = [] then []
      else case bs_alchemy env address of Inr (Some data) \<Rightarrow> parseAlchemyResponse data | _ \<Rightarrow> [])"

definition getBalancesViaAlchemy :: "balance_env \<Rightarrow> string list \<Rightarrow> (string \<rightharpoonup> token_balance list)" where
  "getBalancesViaAlchemy env addresses = fold (\<lambda>a m. m(a \<mapsto> alchemy_for env a)) addresses Map.empty"

definition fallbackTokens :: "string list" where
  "fallbackTokens = [''0x55d398326f99059fF775485246999027B3197955'', ''0xbb4CdB9CBd36B01bD1cBaEBF2De08d9173bc095c'',
     ''0xe9e7CEA3DedcA5984780Bafc599bD69ADd087D56'']"

definition knownTokens :: "balance_env \<Rightarrow> string list" where
  "knownTokens env =
     (case bs_protocolTokens env of
        None \<Rightarrow> fallbackTokens
      | Some tokens \<Rightarrow> map snd (fold (\<lambda>a m. alist_set (lower a) a m) (fallbackTokens @ tokens) []))"

definition rpc_position :: "balance_env \<Rightarrow> string \<Rightarrow> string \<Rightarrow> token_balance list" where
  "rpc_position env vault a =
     (case bs_balanceOf env a vault of
        None \<Rightarrow> []
      | Some n \<Rightarrow>
          if n = 0 then []
          else (case bs_meta env a of
              None \<Rightarrow> []
            | Some (symbol, name, decimals) \<Rightarrow> [\<lparr>tb_address = a, tb_symbol = symbol, tb_name = name, tb_decimals = decimals,
                tb_balance = show_nat n, tb_priceUsd = None\<rparr>]))"

definition getBalancesViaRpc :: "balance_env \<Rightarrow> string \<Rightarrow> token_balance list" where
  "getBalancesViaRpc env vault = (if or_else (bs_rpcUrl env) [] = [] then [] else concat (map (rpc_position env vault) (knownTokens env)))"

definition development :: "balance_env \<Rightarrow> bool" where
  "development env \<longleftrightarrow> or_else (bs_nodeEnv env) ''production'' = ''development''"

definition getTokenBalances :: "balance_env \<Rightarrow> string \<Rightarrow> token_balance list" where
  "getTokenBalances env vault =
     (if development env then getBalancesViaRpc env vault else or_else (getBalancesViaAlchemy env [vault] vault) [])"

text \<open>Two addresses at a time.\<close>

fun alchemy_batches :: "balance_env \<Rightarrow> string list \<Rightarrow> (string \<rightharpoonup> token_balance list) \<Rightarrow> (string \<rightharpoonup> token_balance list)" where
  "alchemy_batches env [] m = m"
| "alchemy_batches env [a] m = m ++ getBalancesViaAlchemy env [a]"
| "alchemy_batches env (a # b # as) m = alchemy_batches env as (m ++ getBalancesViaAlchemy env [a, b])"

definition getTokenBalancesBatch :: "balance_env \<Rightarrow> string list \<Rightarrow> (string \<rightharpoonup> token_balance list)" where
  "getTokenBalancesBatch env vaults =
     (if development env then fold (\<lambda>a m. m(a \<mapsto> getBalancesViaRpc env a)) vaults Map.empty else alchemy_batches env vaults Map.empty)"

section \<open>The portfolio\<close>

datatype price_source = FromAlchemy | FromLlama | Unavailable

record portfolio_position =
  pp_address :: string
  pp_symbol :: string
  pp_name :: string
  pp_decimals :: nat
  pp_balance :: string
  pp_priceUsd :: "rat option"
  pp_valueUsd :: "rat option"
  pp_priceSource :: price_source

record vault_portfolio =
  pt_vaultAddress :: string
  pt_positions :: "portfolio_position list"
  pt_totalValueUsd :: rat

definition price_of :: "(string \<rightharpoonup> rat) \<Rightarrow> token_balance \<Rightarrow> rat option \<times> price_source" where
  "price_of llama t =
     (case tb_priceUsd t of
        Some p \<Rightarrow> (Some p, FromAlchemy)
      | None \<Rightarrow> (case llama (tb_address t) of Some p \<Rightarrow> (Some p, FromLlama) | None \<Rightarrow> (None, Unavailable)))"

text \<open>A balance that begins with no digit does not occur: the services answer with decimal or hexadecimal numerals.\<close>

definition balance_number :: "token_balance \<Rightarrow> rat" where
  "balance_number t = (case parse_float (tb_balance t) of Fin q \<Rightarrow> q / 10 ^ tb_decimals t | _ \<Rightarrow> 0)"

definition priced_position :: "(string \<rightharpoonup> rat) \<Rightarrow> token_balance \<Rightarrow> portfolio_position" where
  "priced_position llama t =
     (let (priceUsd, source) = price_of llama t in
      \<lparr>pp_address = tb_address t, pp_symbol = tb_symbol t, pp_name = tb_name t, pp_decimals = tb_decimals t, pp_balance = tb_balance t,
       pp_priceUsd = priceUsd, pp_valueUsd = map_option (\<lambda>p. balance_number t * p) priceUsd, pp_priceSource = source\<rparr>)"

definition enrichWithFallbackPrices :: "price_http \<Rightarrow> string \<Rightarrow> token_balance list \<Rightarrow> vault_portfolio" where
  "enrichWithFallbackPrices http vaultAddress balances =
     (let llama = getPrices http (map tb_address (filter (\<lambda>t. tb_priceUsd t = None) balances));
          positions = map (priced_position llama) balances in
      \<lparr>pt_vaultAddress = vaultAddress, pt_positions = positions, pt_totalValueUsd = (\<Sum>p\<leftarrow>positions. usd_or_zero (pp_valueUsd p))\<rparr>)"

definition PORTFOLIO_TTL :: int where
  "PORTFOLIO_TTL = 60 * 1000"

type_synonym portfolio_cache = "string \<rightharpoonup> vault_portfolio \<times> int"

definition fresh_portfolio :: "balance_env \<Rightarrow> price_http \<Rightarrow> string \<Rightarrow> vault_portfolio" where
  "fresh_portfolio env http vault = enrichWithFallbackPrices http vault (getTokenBalances env vault)"

definition getPortfolio :: "balance_env \<Rightarrow> price_http \<Rightarrow> string \<Rightarrow> int \<Rightarrow> int \<Rightarrow> portfolio_cache \<Rightarrow> portfolio_cache \<times> vault_portfolio" where
  "getPortfolio env http vault before after cache =
     (let fresh = fresh_portfolio env http vault; live = (cache(vault \<mapsto> (fresh, after + PORTFOLIO_TTL)), fresh) in
      case cache vault of
        None \<Rightarrow> live
      | Some (data, expiresAt) \<Rightarrow> if before < expiresAt then (cache, data) else live)"

record listed_vault =
  lv_address :: string
  lv_label :: string
  lv_depositToken :: string
  lv_chainId :: nat
  lv_createdAt :: int

text \<open>The overview reads past the cache and refills it.\<close>

definition overview_portfolio :: "balance_env \<Rightarrow> price_http \<Rightarrow> (string \<rightharpoonup> token_balance list) \<Rightarrow> listed_vault \<Rightarrow> vault_portfolio" where
  "overview_portfolio env http balances v = enrichWithFallbackPrices http (lv_address v) (or_else (balances (lv_address v)) [])"

definition getOverview ::
  "balance_env \<Rightarrow> price_http \<Rightarrow> listed_vault list \<Rightarrow> int \<Rightarrow> portfolio_cache \<Rightarrow> portfolio_cache \<times> (listed_vault \<times> rat) list" where
  "getOverview env http vaults after cache =
     (let balances = getTokenBalancesBatch env (map lv_address vaults) in
      (fold (\<lambda>v c. c(lv_address v \<mapsto> (overview_portfolio env http balances v, after + PORTFOLIO_TTL))) vaults cache,
       map (\<lambda>v. (v, pt_totalValueUsd (overview_portfolio env http balances v))) vaults))"

section \<open>Overview and portfolio\<close>

lemma via_alchemy: "getBalancesViaAlchemy env as a = (if a \<in> set as then Some (alchemy_for env a) else None)"
proof -
  have "fold (\<lambda>a m. m(a \<mapsto> alchemy_for env a)) as m a = (if a \<in> set as then Some (alchemy_for env a) else m a)" for m
    by (induction as arbitrary: m) auto
  then show ?thesis by (simp add: getBalancesViaAlchemy_def)
qed

lemma alchemy_batches_at: "alchemy_batches env as m a = (if a \<in> set as then Some (alchemy_for env a) else m a)"
  by (induction env as m rule: alchemy_batches.induct) (auto simp: via_alchemy map_add_def)

lemma batch_is_single: "a \<in> set vaults \<Longrightarrow> getTokenBalancesBatch env vaults a = Some (getTokenBalances env a)"
proof -
  assume a: "a \<in> set vaults"
  have "fold (\<lambda>a m. m(a \<mapsto> getBalancesViaRpc env a)) vaults m a = Some (getBalancesViaRpc env a)" for m
  proof -
    have "fold (\<lambda>a m. m(a \<mapsto> getBalancesViaRpc env a)) vaults m a = (if a \<in> set vaults then Some (getBalancesViaRpc env a) else m a)"
      by (induction vaults arbitrary: m) auto
    with a show ?thesis by simp
  qed
  with a show ?thesis by (simp add: getTokenBalancesBatch_def getTokenBalances_def alchemy_batches_at via_alchemy)
qed

lemma overview_fresh: "v \<in> set vaults \<Longrightarrow>
    overview_portfolio env http (getTokenBalancesBatch env (map lv_address vaults)) v = fresh_portfolio env http (lv_address v)"
  by (simp add: overview_portfolio_def fresh_portfolio_def batch_is_single)

lemma overview_fold:
  assumes "set vs \<subseteq> set vaults"
  shows "fold (\<lambda>v c. c(lv_address v \<mapsto> (overview_portfolio env http (getTokenBalancesBatch env (map lv_address vaults)) v, t))) vs c a =
    (if a \<in> lv_address ` set vs then Some (fresh_portfolio env http a, t) else c a)"
  using assms by (induction vs arbitrary: c) (auto simp: overview_fresh)

lemma overview_cache:
  "v \<in> set vaults \<Longrightarrow>
    fst (getOverview env http vaults after cache) (lv_address v) = Some (fresh_portfolio env http (lv_address v), after + PORTFOLIO_TTL)"
  by (simp add: getOverview_def Let_def overview_fold)

text \<open>The overview shows each vault with the total of its own portfolio, although it reads the balances in batches, and for the next minute
  the portfolio page repeats exactly that total.\<close>

theorem overview_matches_portfolio:
  assumes "v \<in> set vaults" "getOverview env http vaults after cache = (cache', rows)" "now < after + PORTFOLIO_TTL"
  shows "(v, pt_totalValueUsd (fresh_portfolio env http (lv_address v))) \<in> set rows \<and>
    getPortfolio env' http' (lv_address v) now now' cache' = (cache', fresh_portfolio env http (lv_address v)) \<and>
    map fst rows = vaults"
proof -
  have rows: "rows = map (\<lambda>v. (v, pt_totalValueUsd (overview_portfolio env http (getTokenBalancesBatch env (map lv_address vaults)) v))) vaults"
    using assms(2) by (auto simp: getOverview_def Let_def)
  moreover have "(v, pt_totalValueUsd (fresh_portfolio env http (lv_address v))) \<in> set rows"
    unfolding rows using assms(1) overview_fresh [OF assms(1)] by (metis (no_types, lifting) image_eqI list.set_map)
  moreover have "cache' (lv_address v) = Some (fresh_portfolio env http (lv_address v), after + PORTFOLIO_TTL)"
    using overview_cache [OF assms(1), of env http after cache] assms(2) by simp
  ultimately show ?thesis using assms(3) by (simp add: getPortfolio_def Let_def o_def)
qed

text \<open>A balance that Alchemy gives in hexadecimal is part of the portfolio, as its zero check is written for, and is worth nothing at any
  price: the code reads its value with \<open>parseFloat\<close>.\<close>

theorem hex_balance_is_worth_nothing:
  "\<exists>p. pt_positions (enrichWithFallbackPrices http vault [alchemy_position (t\<lparr>at_balance := Some (''0x'' @ ds)\<rparr>)]) = [p] \<and>
     pp_balance p = ''0x'' @ ds \<and> usd_or_zero (pp_valueUsd p) = 0"
  by (auto simp: enrichWithFallbackPrices_def priced_position_def alchemy_position_def alchemy_balance_def first_of_def balance_number_def
    parse_float_hex [simplified] usd_or_zero_def price_of_def Let_def split: option.splits prod.splits)

text \<open>One vault, in the production mode, with one priced token.\<close>

definition demo_balances :: balance_env where
  "demo_balances = \<lparr>bs_nodeEnv = None, bs_apiKey = Some ''k'', bs_rpcUrl = None,
     bs_alchemy = (\<lambda>a. Inr (Some (Some [\<lparr>at_balance = Some (show_nat 3), at_tokenBalance = None, at_contractAddress = Some ''T'',
       at_address = None, at_symbol = None, at_metaSymbol = None, at_name = None, at_metaName = None, at_decimals = Some 0,
       at_metaDecimals = None, at_price = Some 2, at_priceUsd = None\<rparr>], None))),
     bs_protocolTokens = None, bs_balanceOf = (\<lambda>a v. None), bs_meta = (\<lambda>a. None)\<rparr>"

definition demo_listed :: listed_vault where
  "demo_listed = \<lparr>lv_address = ''A'', lv_label = ''l'', lv_depositToken = ''T'', lv_chainId = 56, lv_createdAt = 0\<rparr>"

lemma demo_total: "pt_totalValueUsd (fresh_portfolio demo_balances http ''A'') = 6"
proof -
  have "show_nat 3 = ''3''" by code_simp
  moreover have "parse_float (show_nat 3) = Fin 3" by (simp add: parse_float_show num_fin_small num_limit_def)
  ultimately show ?thesis
    by (simp add: fresh_portfolio_def getTokenBalances_def development_def demo_balances_def via_alchemy alchemy_for_def parseAlchemyResponse_def
      first_of_def alchemy_balance_def alchemy_position_def enrichWithFallbackPrices_def priced_position_def price_of_def balance_number_def
      usd_or_zero_def)
qed

lemma overview_matches_portfolio_witness:
  "(demo_listed, 6) \<in> set (snd (getOverview demo_balances (\<lambda>u. Inr None) [demo_listed] 5 Map.empty))"
proof -
  obtain cache rows where g: "getOverview demo_balances (\<lambda>u. Inr None) [demo_listed] 5 Map.empty = (cache, rows)" by fastforce
  have "lv_address demo_listed = ''A''" by (simp add: demo_listed_def)
  then show ?thesis
    using overview_matches_portfolio [OF _ g, of demo_listed 6 demo_balances "\<lambda>u. Inr None" 7] g
    by (simp add: demo_total PORTFOLIO_TTL_def)
qed

section \<open>The fee registry\<close>

record gas_deposit =
  gd_enabled :: bool
  gd_token :: "(string \<times> string \<times> nat) option"
  gd_deposited :: nat
  gd_minFeeDeposit :: nat

record accepted_token =
  ak_address :: string
  ak_symbol :: string
  ak_name :: string
  ak_decimals :: nat

text \<open>
  \<open>fc_registry\<close> is the log of the registry in chain order: block, whether the token was added, token.
  A call that throws is \<open>None\<close>.
\<close>

record fee_chain =
  fc_rates :: "(nat \<times> nat) option"
  fc_block :: "nat option"
  fc_registry :: "(nat \<times> bool \<times> string) list"
  fc_meta :: "string \<Rightarrow> (string \<times> string \<times> nat) option"
  fc_depositToken :: "string \<Rightarrow> string option"
  fc_vaultDeposit :: "string \<Rightarrow> string \<Rightarrow> nat option"
  fc_minFeeDeposit :: "string \<Rightarrow> nat option"

record fee_cache =
  fe_fees :: "((nat \<times> nat) \<times> int) option"
  fe_tokens :: "(accepted_token list \<times> int) option"

definition FEE_TTL :: int where
  "FEE_TTL = 60 * 60 * 1000"

definition live_cached :: "('a \<times> int) option \<Rightarrow> int \<Rightarrow> 'a option" where
  "live_cached c now = (case c of None \<Rightarrow> None | Some (data, expiresAt) \<Rightarrow> if now < expiresAt then Some data else None)"

definition getFees :: "fee_chain \<Rightarrow> int \<Rightarrow> int \<Rightarrow> fee_cache \<Rightarrow> fee_cache \<times> (nat \<times> nat) option" where
  "getFees chain before after cache =
     (case live_cached (fe_fees cache) before of
        Some data \<Rightarrow> (cache, Some data)
      | None \<Rightarrow>
          (case fc_rates chain of
             None \<Rightarrow> (cache, None)
           | Some rates \<Rightarrow> (cache\<lparr>fe_fees := Some (rates, after + FEE_TTL)\<rparr>, Some rates)))"

definition registry_logs :: "bool \<Rightarrow> nat \<Rightarrow> (nat \<times> bool \<times> string) list \<Rightarrow> string list" where
  "registry_logs added fromBlock events = map (\<lambda>(b, a, t). t) (filter (\<lambda>(b, a, t). a = added \<and> fromBlock \<le> b) events)"

definition active_addresses :: "nat \<Rightarrow> (nat \<times> bool \<times> string) list \<Rightarrow> string list" where
  "active_addresses current events =
     (let fromBlock = current - 10000 in
      filter (\<lambda>t. t \<notin> set (registry_logs False fromBlock events)) (registry_logs True fromBlock events))"

definition accepted_meta :: "fee_chain \<Rightarrow> string \<Rightarrow> accepted_token option" where
  "accepted_meta chain a =
     map_option (\<lambda>(name, symbol, decimals). \<lparr>ak_address = a, ak_symbol = symbol, ak_name = name, ak_decimals = decimals\<rparr>) (fc_meta chain a)"

definition getAcceptedTokens :: "fee_chain \<Rightarrow> int \<Rightarrow> int \<Rightarrow> fee_cache \<Rightarrow> fee_cache \<times> accepted_token list option" where
  "getAcceptedTokens chain before after cache =
     (case live_cached (fe_tokens cache) before of
        Some data \<Rightarrow> (cache, Some data)
      | None \<Rightarrow>
          (case fc_block chain of
             None \<Rightarrow> (cache, None)
           | Some current \<Rightarrow>
               (case those (map (accepted_meta chain) (active_addresses current (fc_registry chain))) of
                  None \<Rightarrow> (cache, None)
                | Some tokens \<Rightarrow> (cache\<lparr>fe_tokens := Some (tokens, after + FEE_TTL)\<rparr>, Some tokens))))"

definition ZeroAddress :: string where
  "ZeroAddress = ''0x'' @ replicate 40 CHR ''0''"

definition getVaultGasDeposit :: "fee_chain \<Rightarrow> string \<Rightarrow> gas_deposit option" where
  "getVaultGasDeposit chain vault =
     (case fc_depositToken chain vault of
        None \<Rightarrow> None
      | Some token \<Rightarrow>
          if token = ZeroAddress then Some \<lparr>gd_enabled = False, gd_token = None, gd_deposited = 0, gd_minFeeDeposit = 0\<rparr>
          else (case (fc_vaultDeposit chain vault token, fc_minFeeDeposit chain vault, fc_meta chain token) of
              (Some deposited, Some minFee, Some (name, symbol, decimals)) \<Rightarrow>
                Some \<lparr>gd_enabled = True, gd_token = Some (token, symbol, decimals), gd_deposited = deposited, gd_minFeeDeposit = minFee\<rparr>
            | _ \<Rightarrow> None))"

text \<open>What the registry contract holds after its log.\<close>

definition registry_accepts :: "(nat \<times> bool \<times> string) list \<Rightarrow> string set" where
  "registry_accepts events = fold (\<lambda>(b, added, t) s. if added then insert t s else s - {t}) events {}"

definition never_added_again :: "(nat \<times> bool \<times> string) list \<Rightarrow> bool" where
  "never_added_again events \<longleftrightarrow> sorted_wrt (\<lambda>(b, removed, t) (b', added, u). t = u \<and> \<not> removed \<longrightarrow> \<not> added) events"

lemma registry_accepts_snoc: "registry_accepts (es @ [(b, added, t)]) = (if added then insert t (registry_accepts es) else registry_accepts es - {t})"
  by (simp add: registry_accepts_def)

lemma registry_accepts_iff:
  "never_added_again es \<Longrightarrow> t \<in> registry_accepts es \<longleftrightarrow> (\<exists>b. (b, True, t) \<in> set es) \<and> (\<nexists>b. (b, False, t) \<in> set es)"
proof (induction es rule: rev_induct)
  case Nil
  then show ?case by (simp add: registry_accepts_def)
next
  case (snoc e es)
  obtain b added u where e: "e = (b, added, u)" by (cases e)
  have "never_added_again es" "added \<Longrightarrow> (b', False, u) \<notin> set es" for b'
    using snoc.prems by (auto simp: never_added_again_def sorted_wrt_append e)
  with snoc.IH show ?case by (auto simp: e registry_accepts_snoc)
qed

lemma active_iff: "t \<in> set (active_addresses current es) \<longleftrightarrow>
    (\<exists>b \<ge> current - 10000. (b, True, t) \<in> set es) \<and> (\<nexists>b. b \<ge> current - 10000 \<and> (b, False, t) \<in> set es)"
  by (auto simp: active_addresses_def registry_logs_def Let_def image_iff)

text \<open>When the whole log of the registry lies in the last ten thousand blocks and no token was added again after its removal, the service
  lists exactly the tokens that the registry accepts.\<close>

theorem accepted_tokens_exact:
  assumes "never_added_again (fc_registry chain)" "list_all (\<lambda>(b, a, t). current - 10000 \<le> b) (fc_registry chain)"
    and "fc_block chain = Some current" "live_cached (fe_tokens cache) before = None"
    and "getAcceptedTokens chain before after cache = (cache', Some tokens)"
  shows "ak_address ` set tokens = registry_accepts (fc_registry chain)"
proof -
  have "those (map (accepted_meta chain) as) = Some ts \<Longrightarrow> map ak_address ts = as" for as ts
    by (induction as arbitrary: ts) (auto simp: accepted_meta_def split: option.splits)
  then have "map ak_address tokens = active_addresses current (fc_registry chain)"
    using assms(3-5) by (auto simp: getAcceptedTokens_def split: option.splits)
  then have "ak_address ` set tokens = set (active_addresses current (fc_registry chain))" by (metis set_map)
  also have "\<dots> = registry_accepts (fc_registry chain)"
  proof -
    have recent: "current - 10000 \<le> b" if "(b, a, t) \<in> set (fc_registry chain)" for b a t
      using assms(2) that by (auto simp: list_all_iff)
    show ?thesis
      unfolding set_eq_iff active_iff registry_accepts_iff [OF assms(1)] using recent by blast
  qed
  finally show ?thesis .
qed

definition demo_registry :: "nat \<Rightarrow> (nat \<times> bool \<times> string) list \<Rightarrow> fee_chain" where
  "demo_registry current events = \<lparr>fc_rates = None, fc_block = Some current, fc_registry = events, fc_meta = (\<lambda>t. Some (t, t, 18)),
     fc_depositToken = (\<lambda>v. None), fc_vaultDeposit = (\<lambda>v t. None), fc_minFeeDeposit = (\<lambda>v. None)\<rparr>"

definition no_fees :: fee_cache where
  "no_fees = \<lparr>fe_fees = None, fe_tokens = None\<rparr>"

definition listed_addresses :: "fee_chain \<Rightarrow> string list option" where
  "listed_addresses chain = map_option (map ak_address) (snd (getAcceptedTokens chain 0 0 no_fees))"

lemma listed_addresses_demo: "listed_addresses (demo_registry current events) = Some (active_addresses current events)"
proof -
  have "those (map (accepted_meta (demo_registry current events)) as) =
      Some (map (\<lambda>a. \<lparr>ak_address = a, ak_symbol = a, ak_name = a, ak_decimals = 18\<rparr>) as)" for as
    by (induction as) (simp_all add: accepted_meta_def demo_registry_def)
  then have "snd (getAcceptedTokens (demo_registry current events) 0 0 no_fees) =
      Some (map (\<lambda>a. \<lparr>ak_address = a, ak_symbol = a, ak_name = a, ak_decimals = 18\<rparr>) (active_addresses current events))"
    by (simp add: getAcceptedTokens_def no_fees_def live_cached_def demo_registry_def)
  then show ?thesis by (simp add: listed_addresses_def o_def)
qed

lemma accepted_tokens_exact_witness:
  "ak_address ` set (the (snd (getAcceptedTokens (demo_registry 50 [(3, True, ''T''), (4, True, ''U''), (9, False, ''T'')]) 0 0 no_fees))) = {''U''}"
proof -
  let ?c = "demo_registry 50 [(3, True, ''T''), (4, True, ''U''), (9, False, ''T'')]"
  obtain cache tokens where g: "getAcceptedTokens ?c 0 0 no_fees = (cache, Some tokens)"
    using listed_addresses_demo [of 50 "[(3, True, ''T''), (4, True, ''U''), (9, False, ''T'')]"]
    by (cases "getAcceptedTokens ?c 0 0 no_fees") (auto simp: listed_addresses_def)
  have r: "fc_registry ?c = [(3, True, ''T''), (4, True, ''U''), (9, False, ''T'')]" "fc_block ?c = Some 50" by (simp_all add: demo_registry_def)
  have "ak_address ` set tokens = registry_accepts (fc_registry ?c)"
    by (rule accepted_tokens_exact [OF _ _ r(2) _ g]) (simp_all add: r never_added_again_def no_fees_def live_cached_def)
  with g show ?thesis by (auto simp: r registry_accepts_def)
qed

text \<open>A token that the registry accepts disappears from the list ten thousand blocks after it was added, and is not in it when it
  was removed and added again within them.\<close>

theorem accepted_token_is_forgotten:
  "listed_addresses (demo_registry 20000 [(1, True, ''T'')]) = Some [] \<and> registry_accepts [(1, True, ''T'')] = {''T''} \<and>
   listed_addresses (demo_registry 50 [(1, True, ''T''), (2, False, ''T''), (3, True, ''T'')]) = Some [] \<and>
   registry_accepts [(1, True, ''T''), (2, False, ''T''), (3, True, ''T'')] = {''T''}"
  by (simp add: listed_addresses_demo active_addresses_def registry_logs_def registry_accepts_def)

end
