(* ===== verification/Cockpit.thy ===== *)
theory Cockpit
  imports Liquidity Lending Portfolio
begin

text \<open>
  The valuation of a vault from idle tokens, the gas reserve and the protocol adapters
  (valuation.service.ts) and the worker pool of the snapshot loop (concurrency.ts). USD values are
  exact rationals; what the services answer and the clock are parameters. Lemmas: what a failed claim
  does to the total; the pool runs every item once with bounded concurrency and ends.
\<close>

section \<open>Valuation\<close>

definition token_position :: "string \<Rightarrow> string \<Rightarrow> string \<Rightarrow> position_leg \<Rightarrow> valued_position" where
  "token_position protocol kind label leg = plain_position protocol kind label [leg] (pl_amountUsd leg)"

record adapter =
  ad_protocol :: string
  ad_claimed :: "js_error + string list"
  ad_positions :: "js_error + valued_position list"

text \<open>What the services answer for one vault at one time.\<close>

record valuation_env =
  vl_adapters :: "adapter list"
  vl_portfolio :: "js_error + portfolio_position list"
  vl_gas :: "js_error + gas_deposit"
  vl_price :: "js_error + rat option"

definition claimed_tokens :: "adapter list \<Rightarrow> string set" where
  "claimed_tokens adapters = (\<Union>a \<in> set adapters. case ad_claimed a of Inl _ \<Rightarrow> {} | Inr tokens \<Rightarrow> lower ` set tokens)"

definition adapter_positions :: "adapter \<Rightarrow> valued_position list" where
  "adapter_positions a =
     (case ad_positions a of
        Inr ps \<Rightarrow> ps
      | Inl _ \<Rightarrow> [error_position (ad_protocol a) (ad_protocol a) (''Failed to read '' @ ad_protocol a @ '' positions'')])"

definition idle_position :: "portfolio_position \<Rightarrow> valued_position" where
  "idle_position p = token_position ''idle'' ''token'' (pp_symbol p)
     \<lparr>pl_token = pp_address p, pl_symbol = pp_symbol p, pl_decimals = pp_decimals p, pl_amount = pp_balance p,
      pl_amountUsd = pp_valueUsd p, pl_isDebt = False\<rparr>"

definition idlePositions :: "valuation_env \<Rightarrow> string set \<Rightarrow> valued_position list" where
  "idlePositions env claimed =
     (case vl_portfolio env of
        Inl _ \<Rightarrow> [error_position ''idle'' ''Idle balances'' ''Failed to read idle balances'']
      | Inr ps \<Rightarrow> map idle_position (filter (\<lambda>p. lower (pp_address p) \<notin> claimed) ps))"

definition gas_error :: valued_position where
  "gas_error = error_position ''gas-reserve'' ''Gas reserve'' ''Failed to read gas reserve''"

definition gasReservePosition :: "valuation_env \<Rightarrow> valued_position option" where
  "gasReservePosition env =
     (case vl_gas env of
        Inl _ \<Rightarrow> Some gas_error
      | Inr gas \<Rightarrow>
          (case gd_token gas of
             None \<Rightarrow> None
           | Some (address, symbol, decimals) \<Rightarrow>
               if \<not> gd_enabled gas \<or> gd_deposited gas = 0 then None
               else (case vl_price env of
                   Inl _ \<Rightarrow> Some gas_error
                 | Inr price \<Rightarrow> Some (token_position ''gas-reserve'' ''gas-reserve'' ''Gas reserve''
                     \<lparr>pl_token = address, pl_symbol = symbol, pl_decimals = decimals, pl_amount = show_nat (gd_deposited gas),
                      pl_amountUsd = map_option (token_usd (int (gd_deposited gas)) decimals) price, pl_isDebt = False\<rparr>))))"

definition value_positions :: "valuation_env \<Rightarrow> valued_position list" where
  "value_positions env =
     idlePositions env (claimed_tokens (vl_adapters env)) @
     (case gasReservePosition env of None \<Rightarrow> [] | Some g \<Rightarrow> [g]) @
     concat (map adapter_positions (vl_adapters env))"

definition VALUATION_TTL :: int where
  "VALUATION_TTL = 30 * 1000"

type_synonym valuation_cache = "string \<rightharpoonup> valued_vault \<times> int"

text \<open>The clock is read before the services are asked and when they have answered.\<close>

definition valueVault ::
  "valuation_env \<Rightarrow> string \<Rightarrow> bool \<Rightarrow> int \<Rightarrow> int \<Rightarrow> valuation_cache \<Rightarrow> valuation_cache \<times> valued_vault" where
  "valueVault env vaultAddress refresh before after cache =
     (let fresh = \<lparr>vv_vaultAddress = vaultAddress, vv_positions = value_positions env,
            vv_totalValueUsd = total_usd (value_positions env), vv_asOfBlock = None, vv_asOf = after\<rparr>;
          live = (cache(vaultAddress \<mapsto> (fresh, after + VALUATION_TTL)), fresh) in
      case cache vaultAddress of
        None \<Rightarrow> live
      | Some (data, expiresAt) \<Rightarrow> if \<not> refresh \<and> before < expiresAt then (cache, data) else live)"

definition idle_usd :: "portfolio_position \<Rightarrow> rat" where
  "idle_usd p = usd_or_zero (pp_valueUsd p)"

definition idle_tokens :: "valuation_env \<Rightarrow> portfolio_position list" where
  "idle_tokens env = (case vl_portfolio env of Inl _ \<Rightarrow> [] | Inr ps \<Rightarrow> ps)"

definition claims :: "adapter \<Rightarrow> string set" where
  "claims a = (case ad_claimed a of Inl _ \<Rightarrow> {} | Inr tokens \<Rightarrow> lower ` set tokens)"

lemma claimed_tokens_claims: "claimed_tokens adapters = (\<Union>a \<in> set adapters. claims a)"
  by (simp add: claimed_tokens_def claims_def)

lemma idle_total: "total_usd (idlePositions env claimed) = (\<Sum>p\<leftarrow>filter (\<lambda>p. lower (pp_address p) \<notin> claimed) (idle_tokens env). idle_usd p)"
proof (cases "vl_portfolio env")
  case (Inl e)
  then show ?thesis by (simp add: idlePositions_def idle_tokens_def error_position_def plain_position_def usd_or_zero_def)
next
  case (Inr ps)
  have "total_usd (map idle_position qs) = (\<Sum>p\<leftarrow>qs. idle_usd p)" for qs
    by (induction qs) (simp_all add: idle_position_def token_position_def plain_position_def idle_usd_def)
  with Inr show ?thesis by (simp add: idlePositions_def idle_tokens_def)
qed

lemma sum_filter_split:
  fixes f :: "'a \<Rightarrow> rat"
  shows "(\<Sum>x\<leftarrow>filter P xs. f x) = (\<Sum>x\<leftarrow>filter (\<lambda>x. P x \<and> Q x) xs. f x) + (\<Sum>x\<leftarrow>filter (\<lambda>x. P x \<and> \<not> Q x) xs. f x)"
  by (induction xs) (auto simp: algebra_simps)

lemma gas_env [simp]: "gasReservePosition (env\<lparr>vl_adapters := as\<rparr>) = gasReservePosition env"
  by (simp add: gasReservePosition_def split: option.splits sum.splits)

lemma idle_tokens_env [simp]: "idle_tokens (env\<lparr>vl_adapters := as\<rparr>) = idle_tokens env"
  by (simp add: idle_tokens_def)

lemma adapter_positions_claimed [simp]: "adapter_positions (a\<lparr>ad_claimed := c\<rparr>) = adapter_positions a"
  by (simp add: adapter_positions_def split: sum.splits)

lemma valuation_total:
  "total_usd (value_positions env) =
     (\<Sum>p\<leftarrow>filter (\<lambda>p. lower (pp_address p) \<notin> claimed_tokens (vl_adapters env)) (idle_tokens env). idle_usd p) +
     (case gasReservePosition env of None \<Rightarrow> 0 | Some g \<Rightarrow> usd_or_zero (vp_valueUsd g)) +
     (\<Sum>a\<leftarrow>vl_adapters env. total_usd (adapter_positions a))"
  by (simp add: value_positions_def idle_total total_usd_concat split: option.splits)

text \<open>C29. When reading the claims of one adapter fails while its positions are read, the vault is worth more by exactly the
  idle value of the tokens which only that adapter claims: they are counted as idle and in its positions.\<close>

theorem failed_claim_counts_twice:
  "total_usd (value_positions (env\<lparr>vl_adapters := xs @ a\<lparr>ad_claimed := Inl e\<rparr> # ys\<rparr>)) =
   total_usd (value_positions (env\<lparr>vl_adapters := xs @ a\<lparr>ad_claimed := Inr tokens\<rparr> # ys\<rparr>)) +
   (\<Sum>p\<leftarrow>filter (\<lambda>p. lower (pp_address p) \<in> lower ` set tokens - claimed_tokens (xs @ ys)) (idle_tokens env). idle_usd p)"
proof -
  let ?c = "claimed_tokens (xs @ ys)" and ?t = "lower ` set tokens"
  have failed: "claimed_tokens (xs @ a\<lparr>ad_claimed := Inl e\<rparr> # ys) = ?c"
    and read: "claimed_tokens (xs @ a\<lparr>ad_claimed := Inr tokens\<rparr> # ys) = ?c \<union> ?t"
    by (auto simp: claimed_tokens_claims claims_def)
  have "(\<Sum>p\<leftarrow>filter (\<lambda>p. lower (pp_address p) \<notin> ?c) ps. idle_usd p) =
      (\<Sum>p\<leftarrow>filter (\<lambda>p. lower (pp_address p) \<notin> ?c \<union> ?t) ps. idle_usd p) + (\<Sum>p\<leftarrow>filter (\<lambda>p. lower (pp_address p) \<in> ?t - ?c) ps. idle_usd p)" for ps
    by (subst sum_filter_split [where Q = "\<lambda>p. lower (pp_address p) \<notin> ?t"]) (simp add: conj_commute cong: conj_cong)
  then show ?thesis by (simp add: valuation_total failed read)
qed

section \<open>The registered adapters\<close>

text \<open>The factory of cockpit.module.ts: Aave, then PancakeSwap. The error of a read is only logged.\<close>

definition answered :: "'a option \<Rightarrow> js_error + 'a" where
  "answered r = (case r of None \<Rightarrow> Inl (Thrown ''read failed'') | Some x \<Rightarrow> Inr x)"

definition registered_adapters :: "lending_chain \<Rightarrow> npm_chain \<Rightarrow> string \<Rightarrow> int \<Rightarrow> int \<Rightarrow> lending_state \<Rightarrow> lending_state \<times> adapter list" where
  "registered_adapters lending npm vault t1 t2 st =
     (let (st1, claimed) = aave_claimedTokens lending vault t1 st; (st2, positions) = aave_getPositions lending vault t2 st1 in
      (st2, [\<lparr>ad_protocol = ''aave-v3'', ad_claimed = answered claimed, ad_positions = answered positions\<rparr>,
         \<lparr>ad_protocol = ''pancakeswap-v3'', ad_claimed = answered (pancake_claimedTokens npm),
          ad_positions = answered (pancake_getPositions npm)\<rparr>]))"

section \<open>The worker pool\<close>

text \<open>
  \<open>mapWithConcurrency\<close> as the steps of its workers: a ready worker takes the next index or, when there is
  none, returns; a busy one finishes its call. \<open>po_done\<close> are the calls that finished, in their order.
\<close>

datatype worker = Ready | Busy nat | Returned

record pool =
  po_next :: nat
  po_workers :: "worker list"
  po_done :: "nat list"

definition pool_start :: "nat \<Rightarrow> nat \<Rightarrow> pool" where
  "pool_start limit items = \<lparr>po_next = 0, po_workers = replicate (min (max 1 limit) items) Ready, po_done = []\<rparr>"

inductive pool_step :: "nat \<Rightarrow> pool \<Rightarrow> pool \<Rightarrow> bool" for items :: nat where
  Take: "i < length (po_workers p) \<Longrightarrow> po_workers p ! i = Ready \<Longrightarrow> po_next p < items \<Longrightarrow>
    pool_step items p (p\<lparr>po_next := po_next p + 1, po_workers := (po_workers p)[i := Busy (po_next p)]\<rparr>)"
| Return: "i < length (po_workers p) \<Longrightarrow> po_workers p ! i = Ready \<Longrightarrow> items \<le> po_next p \<Longrightarrow>
    pool_step items p (p\<lparr>po_workers := (po_workers p)[i := Returned]\<rparr>)"
| Finish: "i < length (po_workers p) \<Longrightarrow> po_workers p ! i = Busy n \<Longrightarrow>
    pool_step items p (p\<lparr>po_workers := (po_workers p)[i := Ready], po_done := po_done p @ [n]\<rparr>)"

inductive_cases pool_stepE: "pool_step items p q"

fun busy_item :: "worker \<Rightarrow> nat list" where
  "busy_item (Busy n) = [n]"
| "busy_item _ = []"

definition busy :: "pool \<Rightarrow> nat list" where
  "busy p = concat (map busy_item (po_workers p))"

definition pool_inv :: "nat \<Rightarrow> nat \<Rightarrow> pool \<Rightarrow> bool" where
  "pool_inv limit items p \<longleftrightarrow> length (po_workers p) = min (max 1 limit) items \<and> po_next p \<le> items \<and>
     mset (po_done p @ busy p) = mset [0..<po_next p] \<and> (Returned \<in> set (po_workers p) \<longrightarrow> po_next p = items)"

lemma update_split:
  assumes "i < length ws"
  obtains us vs where "ws = us @ ws ! i # vs" "ws[i := x] = us @ x # vs"
  using assms that by (metis id_take_nth_drop upd_conv_take_nth_drop)

lemma pool_step_inv:
  assumes "pool_step items p q" "pool_inv limit items p"
  shows "pool_inv limit items q"
  using assms(1)
proof cases
  case (Take i)
  obtain us vs where "po_workers p = us @ Ready # vs" "(po_workers p)[i := Busy (po_next p)] = us @ Busy (po_next p) # vs"
    using update_split [OF Take(2)] Take(3) by metis
  with Take assms(2) show ?thesis by (auto simp: pool_inv_def busy_def)
next
  case (Return i)
  obtain us vs where "po_workers p = us @ Ready # vs" "(po_workers p)[i := Returned] = us @ Returned # vs"
    using update_split [OF Return(2)] Return(3) by metis
  with Return assms(2) show ?thesis by (auto simp: pool_inv_def busy_def)
next
  case (Finish i n)
  obtain us vs where "po_workers p = us @ Busy n # vs" "(po_workers p)[i := Ready] = us @ Ready # vs"
    using update_split [OF Finish(2)] Finish(3) by metis
  with Finish assms(2) show ?thesis by (auto simp: pool_inv_def busy_def)
qed

lemma pool_start_inv: "pool_inv limit items (pool_start limit items)"
  by (simp add: pool_inv_def pool_start_def busy_def map_replicate_const concat_replicate_trivial)

lemma pool_reach_inv: "(pool_step items)\<^sup>*\<^sup>* (pool_start limit items) p \<Longrightarrow> pool_inv limit items p"
  by (induction rule: rtranclp_induct) (auto intro: pool_start_inv pool_step_inv)

lemma busy_bound: "length (busy p) \<le> length (po_workers p)"
proof -
  have "length (concat (map busy_item ws)) \<le> length ws" for ws
  proof (induction ws)
    case (Cons w ws)
    then show ?case by (cases w) auto
  qed simp
  then show ?thesis by (simp add: busy_def)
qed

lemma stuck_pool:
  assumes "\<nexists>q. pool_step items p q"
  shows "set (po_workers p) \<subseteq> {Returned}"
proof
  fix w assume "w \<in> set (po_workers p)"
  then obtain i where i: "i < length (po_workers p)" "po_workers p ! i = w" by (auto simp: in_set_conv_nth)
  show "w \<in> {Returned}"
  proof (cases w)
    case Ready
    with i assms pool_step.Take [of i p items] pool_step.Return [of i p items] show ?thesis by (meson linorder_not_le)
  next
    case (Busy n)
    with i assms pool_step.Finish [of i p n items] show ?thesis by blast
  qed simp
qed

lemma pool_stuck_done:
  assumes "(pool_step items)\<^sup>*\<^sup>* (pool_start limit items) p" "\<nexists>q. pool_step items p q"
  shows "mset (po_done p) = mset [0..<items]"
proof -
  have inv: "pool_inv limit items p" using assms(1) by (rule pool_reach_inv)
  have ret: "set (po_workers p) \<subseteq> {Returned}" using assms(2) by (rule stuck_pool)
  then have "busy p = []" by (auto simp: busy_def)
  moreover have "po_next p = items"
  proof (cases "po_workers p")
    case Nil
    with inv show ?thesis by (auto simp: pool_inv_def min_def split: if_splits)
  next
    case (Cons w ws)
    with ret have "Returned \<in> set (po_workers p)" by auto
    with inv show ?thesis by (simp add: pool_inv_def)
  qed
  ultimately show ?thesis using inv by (simp add: pool_inv_def)
qed

text \<open>However its calls interleave, the pool never has more calls running than its limit, never starts an
  item twice, and when no worker can go on, every item has been run exactly once.\<close>

theorem pool_runs_each_item_once:
  "(pool_step items)\<^sup>*\<^sup>* (pool_start limit items) p \<Longrightarrow>
     length (busy p) \<le> max 1 limit \<and> distinct (po_done p @ busy p) \<and>
     ((\<nexists>q. pool_step items p q) \<longrightarrow> mset (po_done p) = mset [0..<items])"
proof -
  assume r: "(pool_step items)\<^sup>*\<^sup>* (pool_start limit items) p"
  then have inv: "pool_inv limit items p" by (rule pool_reach_inv)
  then have "mset (po_done p @ busy p) = mset [0..<po_next p]" by (simp add: pool_inv_def)
  then have "distinct (po_done p @ busy p)" by (metis distinct_upt mset_eq_imp_distinct_iff)
  moreover have "length (busy p) \<le> max 1 limit" using busy_bound [of p] inv by (simp add: pool_inv_def)
  ultimately show ?thesis using pool_stuck_done [OF r] by blast
qed

lemma pool_runs_each_item_once_witness: "length (busy (pool_start 4 2)) \<le> max 1 4 \<and> distinct (po_done (pool_start 4 2) @ busy (pool_start 4 2))"
  using pool_runs_each_item_once [of 2 4 "pool_start 4 2"] by simp

fun worker_weight :: "worker \<Rightarrow> nat" where
  "worker_weight Ready = 1"
| "worker_weight (Busy n) = 2"
| "worker_weight Returned = 0"

definition pool_weight :: "nat \<Rightarrow> pool \<Rightarrow> nat" where
  "pool_weight items p = 3 * (items - po_next p) + sum_list (map worker_weight (po_workers p))"

lemma pool_step_decreases:
  assumes "pool_step items p q"
  shows "pool_weight items q < pool_weight items p"
  using assms
proof cases
  case (Take i)
  obtain us vs where "po_workers p = us @ Ready # vs" "(po_workers p)[i := Busy (po_next p)] = us @ Busy (po_next p) # vs"
    using update_split [OF Take(2)] Take(3) by metis
  with Take show ?thesis by (simp add: pool_weight_def)
next
  case (Return i)
  obtain us vs where "po_workers p = us @ Ready # vs" "(po_workers p)[i := Returned] = us @ Returned # vs"
    using update_split [OF Return(2)] Return(3) by metis
  with Return show ?thesis by (simp add: pool_weight_def)
next
  case (Finish i n)
  obtain us vs where "po_workers p = us @ Busy n # vs" "(po_workers p)[i := Ready] = us @ Ready # vs"
    using update_split [OF Finish(2)] Finish(3) by metis
  with Finish show ?thesis by (simp add: pool_weight_def)
qed

text \<open>The pool ends: no schedule of n items has more than 4 n steps, counting starts and ends of calls and returns of workers.\<close>

theorem pool_ends: "(pool_step items ^^ n) (pool_start limit items) p \<Longrightarrow> n \<le> 4 * items"
proof -
  have "(pool_step items ^^ n) q p \<Longrightarrow> n + pool_weight items p \<le> pool_weight items q" for q
  proof (induction n arbitrary: p)
    case (Suc n)
    then obtain r where "(pool_step items ^^ n) q r" "pool_step items r p" by auto
    with Suc.IH [of r] pool_step_decreases [of items r p] show ?case by simp
  qed simp
  moreover have "pool_weight items (pool_start limit items) \<le> 4 * items"
    by (simp add: pool_weight_def pool_start_def sum_list_replicate)
  moreover assume "(pool_step items ^^ n) (pool_start limit items) p"
  ultimately show ?thesis by fastforce
qed

text \<open>One worker, one item: take it, finish it, return.\<close>

lemma one_item_run:
  "(pool_step 1 ^^ 3) (pool_start 1 1) \<lparr>po_next = 1, po_workers = [Returned], po_done = [0]\<rparr>"
proof -
  have "pool_step 1 (pool_start 1 1) \<lparr>po_next = 1, po_workers = [Busy 0], po_done = []\<rparr>"
    using pool_step.Take [of 0 "pool_start 1 1" 1] by (simp add: pool_start_def)
  moreover have "pool_step 1 \<lparr>po_next = 1, po_workers = [Busy 0], po_done = []\<rparr> \<lparr>po_next = 1, po_workers = [Ready], po_done = [0]\<rparr>"
    using pool_step.Finish [of 0 "\<lparr>po_next = 1, po_workers = [Busy 0], po_done = []\<rparr>" 0 1] by simp
  moreover have "pool_step 1 \<lparr>po_next = 1, po_workers = [Ready], po_done = [0]\<rparr> \<lparr>po_next = 1, po_workers = [Returned], po_done = [0]\<rparr>"
    using pool_step.Return [of 0 "\<lparr>po_next = 1, po_workers = [Ready], po_done = [0]\<rparr>" 1] by simp
  ultimately show ?thesis by (auto simp: numeral_3_eq_3 relcompp_apply)
qed

lemma pool_ends_witness: "(3::nat) \<le> 4 * 1"
  using pool_ends [OF one_item_run] by simp

end
