(* ===== verification/Performance.thy ===== *)
theory Performance
  imports Cockpit "HOL-Library.Sublist"
begin

text \<open>
  The cockpit's read models: the snapshot loop and the positions view (snapshot.service.ts), the value
  history (history.ts, history.service.ts) and profit and loss (performance.ts, performance.service.ts).
  Times are milliseconds; the order in which the database reads rows is an argument (\<open>storage\<close>), and
  the order in which the loop's workers write is that of a run of the pool. Lemmas: what a tick
  leaves, that header, chart and profit agree on the value, what thinning keeps, and how the
  profit of a rng differs from the gain since its baseline.
\<close>

section \<open>Snapshots\<close>

record snapshot_row =
  sn_vaultId :: string
  sn_blockNumber :: "nat option"
  sn_asOf :: int
  sn_totalValueUsd :: rat
  sn_breakdown :: "valued_position list"

record cockpit_world =
  cw_index :: index_world
  cw_snapshots :: "snapshot_row list"
  cw_cache :: valuation_cache

text \<open>What a tick meets: the head block, and for each vault the services, the clock around the valuation and at
  the insert, and whether the insert succeeds.\<close>

record tick_env =
  te_head :: "nat option"
  te_services :: "string \<Rightarrow> valuation_env"
  te_before :: "string \<Rightarrow> int"
  te_after :: "string \<Rightarrow> int"
  te_asOf :: "string \<Rightarrow> int"
  te_created :: "string \<Rightarrow> bool"
  te_end :: int

definition DAY_MS :: int where
  "DAY_MS = 86400000"

definition resolveSnapshotRpcUrl :: "string option \<Rightarrow> string option \<Rightarrow> string option" where
  "resolveSnapshotRpcUrl snapshotUrl rpcUrl = (case snapshotUrl of Some u \<Rightarrow> Some u | None \<Rightarrow> rpcUrl)"

definition snapshot_of :: "tick_env \<Rightarrow> string \<Rightarrow> string \<Rightarrow> valued_vault \<Rightarrow> snapshot_row" where
  "snapshot_of env vaultId address valued =
     \<lparr>sn_vaultId = vaultId, sn_blockNumber = te_head env, sn_asOf = te_asOf env address, sn_totalValueUsd = vv_totalValueUsd valued,
      sn_breakdown = vv_positions valued\<rparr>"

fun snapshot_vault :: "tick_env \<Rightarrow> string \<times> string \<Rightarrow> cockpit_world \<Rightarrow> cockpit_world" where
  "snapshot_vault env (vaultId, address) w =
     (let (cache, valued) = valueVault (te_services env address) address True (te_before env address) (te_after env address) (cw_cache w) in
      w\<lparr>cw_cache := cache,
        cw_snapshots := cw_snapshots w @ (if te_created env address then [snapshot_of env vaultId address valued] else [])\<rparr>)"

definition prune :: "nat \<Rightarrow> int \<Rightarrow> cockpit_world \<Rightarrow> cockpit_world" where
  "prune retentionDays now w =
     w\<lparr>cw_snapshots := filter (\<lambda>s. \<not> sn_asOf s < now - int retentionDays * DAY_MS) (cw_snapshots w)\<rparr>"

definition known_vaults :: "cockpit_world \<Rightarrow> (string \<times> string) list" where
  "known_vaults w = map (\<lambda>(i, a, b). (i, a)) (iw_vaults (cw_index w))"

text \<open>\<open>finished\<close> are the indices of the vaults in the order in which the pool's calls wrote.\<close>

definition snapshot_tick :: "tick_env \<Rightarrow> nat \<Rightarrow> nat list \<Rightarrow> cockpit_world \<Rightarrow> cockpit_world" where
  "snapshot_tick env retentionDays finished w =
     prune retentionDays (te_end env) (fold (snapshot_vault env) (map ((!) (known_vaults w)) finished) w)"

text \<open>
  The loop around it. \<open>sl_armed\<close> is a pending timer; when it fires, \<open>runOnce\<close> starts a tick unless one is in
  flight, and when \<open>runOnce\<close> is over, the timer is armed again while the module runs.
\<close>

record snapshot_loop =
  sl_running :: bool
  sl_inFlight :: bool
  sl_armed :: bool

datatype loop_event = ModuleInit bool bool | TimerFires | TickEnds | ModuleDestroyed

fun loop_step :: "loop_event \<Rightarrow> snapshot_loop \<Rightarrow> snapshot_loop" where
  "loop_step (ModuleInit enabled provider) l = (if provider \<and> enabled then l\<lparr>sl_running := True, sl_armed := True\<rparr> else l)"
| "loop_step TimerFires l =
     (if \<not> sl_armed l then l
      else if sl_inFlight l then l\<lparr>sl_armed := sl_running l\<rparr>
      else l\<lparr>sl_armed := False, sl_inFlight := True\<rparr>)"
| "loop_step TickEnds l = (if sl_inFlight l then l\<lparr>sl_inFlight := False, sl_armed := sl_running l\<rparr> else l)"
| "loop_step ModuleDestroyed l = l\<lparr>sl_running := False, sl_armed := False\<rparr>"

lemma loop_goes_on:
  assumes "sl_armed l \<noteq> sl_inFlight l" "sl_running l" "list_all (\<lambda>e. e \<in> {TimerFires, TickEnds}) es"
  shows "sl_running (fold loop_step es l) \<and> sl_armed (fold loop_step es l) \<noteq> sl_inFlight (fold loop_step es l)"
  using assms
proof (induction es arbitrary: l)
  case (Cons e es)
  have "sl_armed (loop_step e l) \<noteq> sl_inFlight (loop_step e l) \<and> sl_running (loop_step e l)"
    using Cons.prems by (cases e) simp_all
  then show ?case using Cons.IH [of "loop_step e l"] Cons.prems(3) by simp
qed simp

section \<open>The positions view\<close>

record view_env =
  we_services :: valuation_env
  we_before :: int
  we_after :: int

record positions_view =
  pv_vault :: valued_vault
  pv_live :: bool

definition latest_row :: "('r \<Rightarrow> int) \<Rightarrow> 'r list \<Rightarrow> 'r option" where
  "latest_row time rows = (case sort_key (\<lambda>r. - time r) rows of [] \<Rightarrow> None | r # _ \<Rightarrow> Some r)"

definition vault_snapshots :: "string \<Rightarrow> cockpit_world \<Rightarrow> snapshot_row list" where
  "vault_snapshots vaultId w = filter (\<lambda>s. sn_vaultId s = vaultId) (cw_snapshots w)"

definition live_view :: "view_env \<Rightarrow> string \<Rightarrow> bool \<Rightarrow> cockpit_world \<Rightarrow> cockpit_world \<times> positions_view" where
  "live_view env address refresh w =
     (let (cache, v) = valueVault (we_services env) address refresh (we_before env) (we_after env) (cw_cache w) in
      (w\<lparr>cw_cache := cache\<rparr>, \<lparr>pv_vault = v, pv_live = True\<rparr>))"

definition snapshot_view :: "string \<Rightarrow> snapshot_row \<Rightarrow> positions_view" where
  "snapshot_view address s =
     \<lparr>pv_vault = \<lparr>vv_vaultAddress = address, vv_positions = sn_breakdown s, vv_totalValueUsd = sn_totalValueUsd s,
        vv_asOfBlock = sn_blockNumber s, vv_asOf = sn_asOf s\<rparr>, pv_live = False\<rparr>"

type_synonym storage = "snapshot_row list \<Rightarrow> snapshot_row list"

definition latest_snapshot :: "storage \<Rightarrow> string \<Rightarrow> cockpit_world \<Rightarrow> snapshot_row option" where
  "latest_snapshot storage address w =
     (case find_vault address (cw_index w) of
        None \<Rightarrow> None
      | Some vaultId \<Rightarrow> latest_row sn_asOf (storage (vault_snapshots vaultId w)))"

definition getPositionsView :: "storage \<Rightarrow> view_env \<Rightarrow> string \<Rightarrow> bool \<Rightarrow> cockpit_world \<Rightarrow> cockpit_world \<times> positions_view" where
  "getPositionsView storage env address refresh w =
     (if refresh then live_view env address True w
      else case latest_snapshot storage address w of
        Some s \<Rightarrow> (w, snapshot_view address s)
      | None \<Rightarrow> live_view env address False w)"

section \<open>Value history\<close>

datatype history_range = Last24h | Last7d | Last30d | AllTime

definition history_range_of :: "string \<Rightarrow> history_range option" where
  "history_range_of v =
     (if v = ''24h'' then Some Last24h else if v = ''7d'' then Some Last7d else if v = ''30d'' then Some Last30d
      else if v = ''all'' then Some AllTime else None)"

definition isHistoryRange :: "string \<Rightarrow> bool" where
  "isHistoryRange v \<longleftrightarrow> history_range_of v \<noteq> None"

fun rangeToCutoff :: "history_range \<Rightarrow> int \<Rightarrow> int option" where
  "rangeToCutoff Last24h now = Some (now - 24 * 60 * 60 * 1000)"
| "rangeToCutoff Last7d now = Some (now - 7 * 24 * 60 * 60 * 1000)"
| "rangeToCutoff Last30d now = Some (now - 30 * 24 * 60 * 60 * 1000)"
| "rangeToCutoff AllTime now = None"

definition MAX_HISTORY_POINTS :: nat where
  "MAX_HISTORY_POINTS = 200"

text \<open>\<open>Math.round\<close>: halves go up.\<close>

definition math_round :: "rat \<Rightarrow> int" where
  "math_round q = \<lfloor>q + 1 / 2\<rfloor>"

definition sample_index :: "nat \<Rightarrow> nat \<Rightarrow> nat \<Rightarrow> nat" where
  "sample_index n maxPoints i = nat (math_round (of_nat i * (of_nat (n - 1) / of_nat (maxPoints - 1))))"

definition downsample :: "'a list \<Rightarrow> nat \<Rightarrow> 'a list" where
  "downsample points maxPoints =
     (if maxPoints < 2 \<or> length points \<le> maxPoints then points
      else map (\<lambda>i. points ! sample_index (length points) maxPoints i) [0..<maxPoints])"

definition in_range :: "int option \<Rightarrow> int \<Rightarrow> bool" where
  "in_range cutoff t \<longleftrightarrow> (case cutoff of None \<Rightarrow> True | Some c \<Rightarrow> c \<le> t)"

record history_marker =
  hm_t :: int
  hm_type :: event_kind
  hm_token :: string
  hm_amount :: nat
  hm_amountUsd :: "rat option"

record value_history =
  vh_range :: history_range
  vh_points :: "(int \<times> rat) list"
  vh_markers :: "history_marker list"
  vh_historyStartsAt :: "int option"

definition RANGE_ERROR :: string where
  "RANGE_ERROR = ''range must be one of 24h, 7d, 30d, all''"

definition series :: "storage \<Rightarrow> string \<Rightarrow> int option \<Rightarrow> cockpit_world \<Rightarrow> snapshot_row list" where
  "series storage vaultId cutoff w = sort_key sn_asOf (storage (filter (\<lambda>s. in_range cutoff (sn_asOf s)) (vault_snapshots vaultId w)))"

definition vault_events :: "string \<Rightarrow> cockpit_world \<Rightarrow> saved_event list" where
  "vault_events vaultId w = filter (\<lambda>s. sv_vaultId s = vaultId) (iw_events (cw_index w))"

definition marker_of :: "saved_event \<Rightarrow> history_marker" where
  "marker_of s = \<lparr>hm_t = ve_timestamp (sv_row s), hm_type = ve_eventType (sv_row s), hm_token = ve_token (sv_row s),
     hm_amount = ve_amount (sv_row s), hm_amountUsd = stored_usd (sv_amountUsd s)\<rparr>"

definition getValueHistory :: "storage \<Rightarrow> string \<Rightarrow> string \<Rightarrow> int \<Rightarrow> cockpit_world \<Rightarrow> string + value_history" where
  "getValueHistory storage address rangeInput now w =
     (case history_range_of rangeInput of
        None \<Rightarrow> Inl RANGE_ERROR
      | Some rng \<Rightarrow>
          (case find_vault address (cw_index w) of
             None \<Rightarrow> Inr \<lparr>vh_range = rng, vh_points = [], vh_markers = [], vh_historyStartsAt = None\<rparr>
           | Some vaultId \<Rightarrow>
               (let cutoff = rangeToCutoff rng now in
                Inr \<lparr>vh_range = rng,
                  vh_points = downsample (map (\<lambda>s. (sn_asOf s, sn_totalValueUsd s)) (series storage vaultId cutoff w)) MAX_HISTORY_POINTS,
                  vh_markers = map marker_of (sort_key (\<lambda>s. ve_timestamp (sv_row s))
                    (filter (\<lambda>s. in_range cutoff (ve_timestamp (sv_row s))) (vault_events vaultId w))),
                  vh_historyStartsAt = latest_row (\<lambda>t. - t) (map sn_asOf (vault_snapshots vaultId w))\<rparr>)))"

section \<open>Profit and loss\<close>

record boundary_event =
  bv_eventType :: event_kind
  bv_amountUsd :: "rat option"
  bv_feeBps :: nat

definition signed_usd :: "boundary_event \<Rightarrow> rat" where
  "signed_usd e = (case bv_amountUsd e of None \<Rightarrow> 0 | Some u \<Rightarrow> (case bv_eventType e of DEPOSIT \<Rightarrow> u | WITHDRAW \<Rightarrow> - u))"

definition netDepositsUsd :: "boundary_event list \<Rightarrow> rat" where
  "netDepositsUsd events = (\<Sum>e\<leftarrow>events. signed_usd e)"

definition feesUsd :: "boundary_event list \<Rightarrow> rat" where
  "feesUsd events = (\<Sum>e\<leftarrow>events. case bv_amountUsd e of None \<Rightarrow> 0 | Some u \<Rightarrow> u * of_nat (bv_feeBps e) / 10000)"

definition computePnl :: "rat \<Rightarrow> rat \<Rightarrow> rat \<times> rat option" where
  "computePnl currentValueUsd netDeposits =
     (let pnlAbsUsd = currentValueUsd - netDeposits in (pnlAbsUsd, if 0 < netDeposits then Some (pnlAbsUsd / netDeposits) else None))"

definition computeRangePnl :: "rat \<Rightarrow> rat \<Rightarrow> rat \<Rightarrow> rat \<times> rat option" where
  "computeRangePnl currentValueUsd valueAtRangeStartUsd netDepositsInRange =
     (let pnlAbsUsd = currentValueUsd - valueAtRangeStartUsd - netDepositsInRange; base = valueAtRangeStartUsd + netDepositsInRange in
      (pnlAbsUsd, if 0 < base then Some (pnlAbsUsd / base) else None))"

record vault_performance =
  pf_currentValueUsd :: rat
  pf_netDepositsUsd :: rat
  pf_pnlAbsUsd :: rat
  pf_pnlPct :: "rat option"
  pf_costsUsd :: rat

definition boundary_of :: "saved_event \<Rightarrow> boundary_event" where
  "boundary_of s = \<lparr>bv_eventType = ve_eventType (sv_row s), bv_amountUsd = stored_usd (sv_amountUsd s), bv_feeBps = ve_feeBps (sv_row s)\<rparr>"

definition boundary_events :: "string \<Rightarrow> (int \<Rightarrow> bool) \<Rightarrow> cockpit_world \<Rightarrow> boundary_event list" where
  "boundary_events vaultId P w = map boundary_of (filter (\<lambda>s. P (ve_timestamp (sv_row s))) (vault_events vaultId w))"

definition gas_usd :: "string \<Rightarrow> int option \<Rightarrow> cockpit_world \<Rightarrow> rat" where
  "gas_usd vaultId cutoff w =
     (\<Sum>s\<leftarrow>filter (\<lambda>s. se_vaultId s = vaultId \<and> in_range cutoff (ex_timestamp (se_row s))) (iw_executions (cw_index w)).
        usd_or_zero (stored_usd (se_gasCompUsd s)))"

definition baseline :: "storage \<Rightarrow> string \<Rightarrow> int option \<Rightarrow> cockpit_world \<Rightarrow> snapshot_row option" where
  "baseline storage vaultId cutoff w =
     (case cutoff of
        None \<Rightarrow> None
      | Some c \<Rightarrow> latest_row sn_asOf (storage (filter (\<lambda>s. sn_asOf s \<le> c) (vault_snapshots vaultId w))))"

definition getPerformance ::
  "storage \<Rightarrow> view_env \<Rightarrow> string \<Rightarrow> string \<Rightarrow> int \<Rightarrow> cockpit_world \<Rightarrow> cockpit_world \<times> (string + vault_performance)" where
  "getPerformance storage env address rangeInput now w =
     (case history_range_of rangeInput of
        None \<Rightarrow> (w, Inl RANGE_ERROR)
      | Some rng \<Rightarrow>
          (let (w', view) = getPositionsView storage env address False w; current = vv_totalValueUsd (pv_vault view) in
           case find_vault address (cw_index w') of
             None \<Rightarrow> (w', Inr \<lparr>pf_currentValueUsd = current, pf_netDepositsUsd = 0, pf_pnlAbsUsd = current, pf_pnlPct = None, pf_costsUsd = 0\<rparr>)
           | Some vaultId \<Rightarrow>
               (let cutoff = rangeToCutoff rng now;
                    start = (case baseline storage vaultId cutoff w' of None \<Rightarrow> 0 | Some b \<Rightarrow> sn_totalValueUsd b);
                    events = boundary_events vaultId (in_range cutoff) w';
                    (pnlAbsUsd, pnlPct) = computeRangePnl current start (netDepositsUsd events) in
                (w', Inr \<lparr>pf_currentValueUsd = current, pf_netDepositsUsd = netDepositsUsd events, pf_pnlAbsUsd = pnlAbsUsd,
                   pf_pnlPct = pnlPct, pf_costsUsd = feesUsd events + gas_usd vaultId cutoff w'\<rparr>))))"

text \<open>The routes of the cockpit's controller with their defaults.\<close>

definition positions_route :: "storage \<Rightarrow> view_env \<Rightarrow> string \<Rightarrow> string option \<Rightarrow> cockpit_world \<Rightarrow> cockpit_world \<times> positions_view" where
  "positions_route storage env address refresh w = getPositionsView storage env address (refresh = Some ''1'') w"

definition value_history_route :: "storage \<Rightarrow> string \<Rightarrow> string option \<Rightarrow> int \<Rightarrow> cockpit_world \<Rightarrow> string + value_history" where
  "value_history_route storage address rng now w = getValueHistory storage address (or_else rng ''30d'') now w"

definition performance_route ::
  "storage \<Rightarrow> view_env \<Rightarrow> string \<Rightarrow> string option \<Rightarrow> int \<Rightarrow> cockpit_world \<Rightarrow> cockpit_world \<times> (string + vault_performance)" where
  "performance_route storage env address rng now w = getPerformance storage env address (or_else rng ''all'') now w"

section \<open>Thinning\<close>

lemma math_round_mono: "p \<le> q \<Longrightarrow> math_round p \<le> math_round q"
  by (simp add: math_round_def floor_mono)

lemma math_round_of_nat [simp]: "math_round (of_nat n) = int n"
  by (simp add: math_round_def floor_unique)

lemma math_round_step: "p + 1 \<le> q \<Longrightarrow> math_round p < math_round q"
  unfolding math_round_def by linarith

lemma sample_index_ends:
  assumes "2 \<le> m" "m < n"
  shows "sample_index n m 0 = 0" "sample_index n m (m - 1) = n - 1"
proof -
  show "sample_index n m 0 = 0" by (simp add: sample_index_def math_round_def)
  have "(of_nat (m - 1) :: rat) * (of_nat (n - 1) / of_nat (m - 1)) = of_nat (n - 1)" using assms by simp
  then show "sample_index n m (m - 1) = n - 1" by (simp only: sample_index_def math_round_of_nat nat_int)
qed

lemma sample_index_step:
  assumes "2 \<le> m" "m < n"
  shows "sample_index n m i < sample_index n m (Suc i)"
proof -
  let ?step = "(of_nat (n - 1) / of_nat (m - 1) :: rat)"
  have "1 \<le> ?step" using assms by (simp add: le_divide_eq)
  moreover have "of_nat (Suc i) * q = of_nat i * q + q" for q :: rat by (simp add: distrib_right)
  ultimately have "of_nat i * ?step + 1 \<le> of_nat (Suc i) * ?step" by (simp only: add_le_cancel_left)
  then have "math_round (of_nat i * ?step) < math_round (of_nat (Suc i) * ?step)" by (rule math_round_step)
  moreover have "0 \<le> math_round (of_nat i * ?step)"
    using math_round_mono [of 0 "of_nat i * ?step"] math_round_of_nat [of 0] by simp
  ultimately show ?thesis by (simp add: sample_index_def)
qed

lemma sample_index_mono: "2 \<le> m \<Longrightarrow> m < n \<Longrightarrow> i < j \<Longrightarrow> sample_index n m i < sample_index n m j"
  by (rule lift_Suc_mono_less [where f = "sample_index n m"]) (rule sample_index_step)

lemma sample_index_bound: "2 \<le> m \<Longrightarrow> m < n \<Longrightarrow> i < m \<Longrightarrow> sample_index n m i < n"
  using sample_index_mono [of m n i "m - 1"] sample_index_ends(2) [of m n] by (cases "i = m - 1") (linarith | simp)+

lemma subseq_map_nth:
  assumes "sorted_wrt (<) is" "list_all (\<lambda>i. i < length xs) is"
  shows "subseq (map ((!) xs) is) xs"
  using assms
proof (induction xs arbitrary: "is")
  case (Cons x xs)
  have tail: "subseq (map ((!) (x # xs)) ks) xs" if "sorted_wrt (<) ks" "list_all (\<lambda>k. 0 < k \<and> k < length (x # xs)) ks" for ks
  proof -
    have "map ((!) (x # xs)) ks = map ((!) xs) (map (\<lambda>k. k - 1) ks)" using that(2) by (auto simp: list_all_iff nth_Cons')
    moreover have "sorted_wrt (<) (map (\<lambda>k. k - 1) ks)"
      using that by (induction ks) (force simp: list_all_iff)+
    moreover have "list_all (\<lambda>k. k < length xs) (map (\<lambda>k. k - 1) ks)" using that(2) by (auto simp: list_all_iff)
    ultimately show ?thesis using Cons.IH by metis
  qed
  show ?case
  proof (cases "is")
    case (Cons i js)
    have js: "sorted_wrt (<) js" "list_all (\<lambda>k. 0 < k \<and> k < length (x # xs)) js" using Cons Cons.prems by (auto simp: list_all_iff)
    show ?thesis
    proof (cases i)
      case 0
      with tail [OF js] Cons show ?thesis by simp
    next
      case (Suc i')
      with Cons Cons.prems have "list_all (\<lambda>k. 0 < k \<and> k < length (x # xs)) is" by (auto simp: list_all_iff)
      with tail [of "is"] Cons.prems show ?thesis by (simp add: list_emb_Cons)
    qed
  qed simp
next
  case Nil
  then show ?case by (cases "is") simp_all
qed

lemma downsample_keeps:
  assumes "2 \<le> m"
  shows "subseq (downsample xs m) xs" "length (downsample xs m) = min (length xs) m"
    and "xs = [] \<or> hd (downsample xs m) = hd xs \<and> last (downsample xs m) = last xs"
proof -
  let ?f = "sample_index (length xs) m"
  have out: "downsample xs m = map ((!) xs) (map ?f [0..<m])" if "m < length xs"
    using assms that by (simp add: downsample_def)
  show "length (downsample xs m) = min (length xs) m" using assms by (auto simp: downsample_def)
  show "subseq (downsample xs m) xs"
  proof (cases "m < length xs")
    case True
    have "sorted_wrt (<) (map ?f [0..<m])"
      using sample_index_mono [OF assms True] by (simp add: sorted_wrt_iff_nth_less)
    moreover have "list_all (\<lambda>i. i < length xs) (map ?f [0..<m])" using sample_index_bound [OF assms True] by (simp add: list_all_iff)
    ultimately show ?thesis unfolding out [OF True] by (rule subseq_map_nth)
  qed (use assms in \<open>simp add: downsample_def\<close>)
  show "xs = [] \<or> hd (downsample xs m) = hd xs \<and> last (downsample xs m) = last xs"
  proof (cases "m < length xs")
    case True
    then have ne: "[0..<m] \<noteq> []" "xs \<noteq> []" using assms by auto
    then have "hd (downsample xs m) = xs ! ?f 0" "last (downsample xs m) = xs ! ?f (m - 1)"
      using assms by (simp_all only: out [OF True] hd_map last_map map_is_Nil_conv not_False_eq_True hd_upt last_upt)
    with sample_index_ends [OF assms True] ne show ?thesis by (simp add: hd_conv_nth last_conv_nth)
  qed (use assms in \<open>simp add: downsample_def\<close>)
qed

lemma sorted_subseq: "subseq xs ys \<Longrightarrow> sorted (map f ys) \<Longrightarrow> sorted (map f xs)"
  by (induction rule: list_emb.induct) (auto dest: list_emb_set)

definition chart :: "storage \<Rightarrow> string \<Rightarrow> history_range \<Rightarrow> int \<Rightarrow> cockpit_world \<Rightarrow> (int \<times> rat) list" where
  "chart storage address rng now w =
     (case find_vault address (cw_index w) of
        None \<Rightarrow> []
      | Some vaultId \<Rightarrow> map (\<lambda>s. (sn_asOf s, sn_totalValueUsd s)) (series storage vaultId (rangeToCutoff rng now) w))"

lemma chart_sorted: "sorted (map fst (chart storage address rng now w))"
  by (simp add: chart_def series_def o_def split: option.splits)

lemma history_points:
  "getValueHistory storage address r now w = Inr h \<Longrightarrow> vh_points h = downsample (chart storage address (vh_range h) now w) MAX_HISTORY_POINTS"
  by (auto simp: getValueHistory_def chart_def Let_def downsample_def split: option.splits)

text \<open>The value history is refused for an unknown range only; its points are points of the whole series of the range, in time order,
  200 at most, and the first and the last of the series are among them at their ends.\<close>

theorem history_keeps_the_curve:
  "case getValueHistory storage address r now w of
     Inl e \<Rightarrow> history_range_of r = None
   | Inr h \<Rightarrow> (let whole = chart storage address (vh_range h) now w in
       history_range_of r = Some (vh_range h) \<and> subseq (vh_points h) whole \<and> length (vh_points h) = min (length whole) 200 \<and>
       sorted (map fst (vh_points h)) \<and> (whole = [] \<or> hd (vh_points h) = hd whole \<and> last (vh_points h) = last whole))"
proof (cases "getValueHistory storage address r now w")
  case (Inl e)
  then show ?thesis by (simp add: getValueHistory_def Let_def split: option.splits)
next
  case (Inr h)
  have r: "history_range_of r = Some (vh_range h)" using Inr by (auto simp: getValueHistory_def Let_def split: option.splits)
  have two: "2 \<le> MAX_HISTORY_POINTS" by (simp add: MAX_HISTORY_POINTS_def)
  show ?thesis
    using Inr r history_points [OF Inr] downsample_keeps [OF two, of "chart storage address (vh_range h) now w"]
      sorted_subseq [OF downsample_keeps(1) [OF two] chart_sorted]
    by (simp add: Let_def MAX_HISTORY_POINTS_def)
qed

section \<open>One value everywhere\<close>

lemma latest_row_max:
  assumes "latest_row time rows = Some r"
  shows "r \<in> set rows" "x \<in> set rows \<Longrightarrow> time x \<le> time r"
proof -
  obtain rs where s: "sort_key (\<lambda>r. - time r) rows = r # rs" using assms by (auto simp: latest_row_def split: list.splits)
  then have "set rows = insert r (set rs)" by (metis list.simps(15) set_sort)
  moreover have "sorted (map (\<lambda>r. - time r) (r # rs))" by (metis s sorted_sort_key)
  ultimately show "r \<in> set rows" "x \<in> set rows \<Longrightarrow> time x \<le> time r" by auto
qed

lemma latest_row_Some: "rows \<noteq> [] \<Longrightarrow> \<exists>r. latest_row time rows = Some r"
  by (cases "sort_key (\<lambda>r. - time r) rows") (auto simp: latest_row_def dest: arg_cong [where f = set])

lemma last_sorted_max:
  fixes time :: "'r \<Rightarrow> int"
  assumes "rows \<noteq> []"
  shows "last (sort_key time rows) \<in> set rows" "x \<in> set rows \<Longrightarrow> time x \<le> time (last (sort_key time rows))"
proof -
  have ne: "sort_key time rows \<noteq> []" using assms by (metis set_empty set_sort)
  then have split: "sort_key time rows = butlast (sort_key time rows) @ [last (sort_key time rows)]" by simp
  then have "sorted (map time (butlast (sort_key time rows)) @ [time (last (sort_key time rows))])"
    by (metis list.simps(8,9) map_append sorted_sort_key)
  moreover have "set rows = insert (last (sort_key time rows)) (set (butlast (sort_key time rows)))"
    by (metis Un_insert_right append_Nil2 list.simps(15) set_append set_sort split sup_bot.right_neutral empty_set)
  ultimately show "last (sort_key time rows) \<in> set rows" "x \<in> set rows \<Longrightarrow> time x \<le> time (last (sort_key time rows))"
    by (auto simp: sorted_append)
qed

lemma latest_unique:
  assumes "distinct (map sn_asOf rows)" "mset rows' = mset rows" "latest_row sn_asOf rows' = Some s"
    and "t \<in> set rows" "\<forall>x \<in> set rows. sn_asOf x \<le> sn_asOf t"
  shows "s = t"
proof -
  have "set rows' = set rows" using assms(2) by (rule mset_eq_setD)
  then have "s \<in> set rows" "sn_asOf t \<le> sn_asOf s" using latest_row_max [OF assms(3)] assms(4) by auto
  moreover have "sn_asOf s \<le> sn_asOf t" using assms(5) \<open>s \<in> set rows\<close> by blast
  ultimately show ?thesis using assms(1,4) by (simp add: distinct_map inj_on_def)
qed

lemma performance_current:
  assumes "latest_snapshot storage address w = Some s" "getPerformance storage env address r now w = (w', Inr p)"
  shows "w' = w" "pf_currentValueUsd p = sn_totalValueUsd s"
  using assms by (auto simp: getPerformance_def getPositionsView_def snapshot_view_def Let_def split: option.splits prod.splits)

lemma chart_last:
  assumes "find_vault address (cw_index w) = Some v" "mset (storage (vault_snapshots v w)) = mset (vault_snapshots v w)"
    and "\<And>xs. mset (storage' xs) = mset xs" "distinct (map sn_asOf (vault_snapshots v w))"
    and "latest_row sn_asOf (storage (vault_snapshots v w)) = Some s" "in_range (rangeToCutoff rng now) (sn_asOf s)"
  shows "chart storage' address rng now w \<noteq> [] \<and> last (chart storage' address rng now w) = (sn_asOf s, sn_totalValueUsd s)"
proof -
  let ?all = "vault_snapshots v w" and ?c = "rangeToCutoff rng now"
  let ?in = "storage' (filter (\<lambda>s. in_range ?c (sn_asOf s)) ?all)"
  have in_set: "set ?in = {x \<in> set ?all. in_range ?c (sn_asOf x)}" using mset_eq_setD [OF assms(3)] by simp
  have s: "s \<in> set ?all" "\<forall>x \<in> set ?all. sn_asOf x \<le> sn_asOf s"
    using latest_row_max [OF assms(5)] mset_eq_setD [OF assms(2)] by auto
  with in_set assms(6) have ne: "?in \<noteq> []" by auto
  have "sn_asOf (last (sort_key sn_asOf ?in)) = sn_asOf s" "last (sort_key sn_asOf ?in) \<in> set ?all"
    using last_sorted_max [OF ne, where time = sn_asOf] s in_set assms(6) by (auto intro: antisym)
  with s(1) assms(4) have "last (sort_key sn_asOf ?in) = s" by (simp add: distinct_map inj_on_def)
  moreover have "sort_key sn_asOf ?in \<noteq> []" using ne by (metis set_empty set_sort)
  ultimately show ?thesis using assms(1) by (simp add: chart_def series_def last_map)
qed

text \<open>C19. Once a vault has a snapshot, and no two at the same millisecond, the header of the page, the last point of every chart that
  reaches it, and the current value of every range's profit are the same number, whatever order the
  database reads in; none of them values anything anew.\<close>

theorem header_chart_and_pnl_agree:
  assumes "find_vault address (cw_index w) = Some v" "\<And>xs. mset (storage xs) = mset xs" "\<And>xs. mset (storage' xs) = mset xs"
    and "distinct (map sn_asOf (vault_snapshots v w))" "getPositionsView storage env address False w = (w', view)" "\<not> pv_live view"
    and "getPerformance storage' env' address r now w = (w'', Inr p)" "getValueHistory storage' address r' now w = Inr h"
    and "in_range (rangeToCutoff (vh_range h) now) (vv_asOf (pv_vault view))"
  shows "w' = w \<and> w'' = w \<and> pf_currentValueUsd p = vv_totalValueUsd (pv_vault view) \<and>
    last (vh_points h) = (vv_asOf (pv_vault view), vv_totalValueUsd (pv_vault view))"
proof -
  let ?all = "vault_snapshots v w"
  obtain s where s: "latest_snapshot storage address w = Some s" and view: "view = snapshot_view address s" "w' = w"
    using assms(5,6) by (auto simp: getPositionsView_def live_view_def split: option.splits prod.splits)
  have l: "latest_row sn_asOf (storage ?all) = Some s" using s assms(1) by (simp add: latest_snapshot_def)
  then have max: "s \<in> set ?all" "\<forall>x \<in> set ?all. sn_asOf x \<le> sn_asOf s"
    using latest_row_max [OF l] mset_eq_setD [OF assms(2)] by auto
  have "storage' ?all \<noteq> []" using max(1) mset_eq_setD [OF assms(3), of ?all] by auto
  then obtain s' where "latest_row sn_asOf (storage' ?all) = Some s'" using latest_row_Some by blast
  with latest_unique [OF assms(4) assms(3) this max] have l': "latest_snapshot storage' address w = Some s"
    using assms(1) by (simp add: latest_snapshot_def)
  have "in_range (rangeToCutoff (vh_range h) now) (sn_asOf s)" using assms(9) view by (simp add: snapshot_view_def)
  with chart_last [where storage = storage and storage' = storage', OF assms(1) assms(2) assms(3) assms(4) l] have c: "chart storage' address (vh_range h) now w \<noteq> []"
    "last (chart storage' address (vh_range h) now w) = (sn_asOf s, sn_totalValueUsd s)" by blast+
  have "last (vh_points h) = (sn_asOf s, sn_totalValueUsd s)"
    using c downsample_keeps(3) [of MAX_HISTORY_POINTS "chart storage' address (vh_range h) now w"]
    by (simp add: history_points [OF assms(8)] MAX_HISTORY_POINTS_def)
  with performance_current [OF l' assms(7)] view show ?thesis by (simp add: snapshot_view_def)
qed

section \<open>Profit and its range\<close>

definition net_when :: "string \<Rightarrow> (int \<Rightarrow> bool) \<Rightarrow> cockpit_world \<Rightarrow> rat" where
  "net_when vaultId P w = netDepositsUsd (boundary_events vaultId P w)"

lemma net_when_split: "net_when v P w = net_when v (\<lambda>t. P t \<and> Q t) w + net_when v (\<lambda>t. P t \<and> \<not> Q t) w"
proof -
  have "(\<Sum>e\<leftarrow>map boundary_of (filter (\<lambda>s. P (t s)) es). signed_usd e) =
      (\<Sum>e\<leftarrow>map boundary_of (filter (\<lambda>s. P (t s) \<and> Q (t s)) es). signed_usd e) +
      (\<Sum>e\<leftarrow>map boundary_of (filter (\<lambda>s. P (t s) \<and> \<not> Q (t s)) es). signed_usd e)" for es and t :: "saved_event \<Rightarrow> int"
    by (induction es) auto
  then show ?thesis by (simp add: net_when_def netDepositsUsd_def boundary_events_def)
qed

text \<open>What a vault gained from one snapshot to another: the change of its value less what was moved in from the one until the other.\<close>

definition gain :: "string \<Rightarrow> snapshot_row \<Rightarrow> snapshot_row \<Rightarrow> cockpit_world \<Rightarrow> rat" where
  "gain vaultId b s w = sn_totalValueUsd s - sn_totalValueUsd b - net_when vaultId (\<lambda>t. sn_asOf b \<le> t \<and> t \<le> sn_asOf s) w"

lemma performance_pnl:
  assumes "find_vault address (cw_index w) = Some v" "latest_snapshot storage address w = Some s" "history_range_of r = Some rng"
    and "getPerformance storage env address r now w = (w', Inr p)"
  shows "pf_pnlAbsUsd p = sn_totalValueUsd s -
    (case baseline storage v (rangeToCutoff rng now) w of None \<Rightarrow> 0 | Some b \<Rightarrow> sn_totalValueUsd b) -
    net_when v (in_range (rangeToCutoff rng now)) w"
  using assms by (auto simp: getPerformance_def getPositionsView_def snapshot_view_def computeRangePnl_def net_when_def Let_def split: prod.splits)

text \<open>C20. The profit of a range is the gain from its baseline snapshot to the latest one, plus what was moved in after the baseline but
  before the range began, less what was moved in after the latest snapshot; without a baseline all that
  was moved in before the range counts as profit.\<close>

theorem range_profit_is_not_the_gain:
  assumes "find_vault address (cw_index w) = Some v" "latest_snapshot storage address w = Some s" "history_range_of r = Some rng"
    and "rangeToCutoff rng now = Some c" "getPerformance storage env address r now w = (w', Inr p)" "\<And>xs. mset (storage xs) = mset xs"
  shows "pf_pnlAbsUsd p =
    (case baseline storage v (Some c) w of
       Some b \<Rightarrow> gain v b s w + net_when v (\<lambda>t. sn_asOf b \<le> t \<and> t < c) w - net_when v (\<lambda>t. sn_asOf b \<le> t \<and> sn_asOf s < t) w
     | None \<Rightarrow> sn_totalValueUsd s - net_when v (\<lambda>t. True) w + net_when v (\<lambda>t. t < c) w)"
proof -
  note pnl = performance_pnl [OF assms(1,2,3,5)]
  have in_c: "in_range (Some c) = (\<lambda>t. c \<le> t)" by (simp add: in_range_def fun_eq_iff)
  show ?thesis
  proof (cases "baseline storage v (Some c) w")
    case None
    have "net_when v (\<lambda>t. True) w = net_when v (\<lambda>t. c \<le> t) w + net_when v (\<lambda>t. t < c) w"
      using net_when_split [of v "\<lambda>t. True" w "\<lambda>t. c \<le> t"] by (simp add: not_le)
    with pnl None assms(4) show ?thesis by (simp add: in_c)
  next
    case (Some b)
    have "b \<in> set (filter (\<lambda>s. sn_asOf s \<le> c) (vault_snapshots v w))"
      using Some latest_row_max(1) mset_eq_setD [OF assms(6)] unfolding baseline_def by (metis option.simps(5))
    then have "sn_asOf b \<le> c" by simp
    then have "net_when v (\<lambda>t. sn_asOf b \<le> t) w = net_when v (\<lambda>t. sn_asOf b \<le> t \<and> t < c) w + net_when v (\<lambda>t. c \<le> t) w"
      using net_when_split [of v "\<lambda>t. sn_asOf b \<le> t" w "\<lambda>t. t < c"] by (simp add: not_less) (metis (mono_tags, lifting) order_trans)
    moreover have "net_when v (\<lambda>t. sn_asOf b \<le> t) w =
        net_when v (\<lambda>t. sn_asOf b \<le> t \<and> t \<le> sn_asOf s) w + net_when v (\<lambda>t. sn_asOf b \<le> t \<and> sn_asOf s < t) w"
      using net_when_split [of v "\<lambda>t. sn_asOf b \<le> t" w "\<lambda>t. t \<le> sn_asOf s"] by (simp add: not_le)
    ultimately show ?thesis using pnl Some assms(4) by (simp add: in_c gain_def)
  qed
qed

text \<open>A vault with one deposit of 1000 USD at time 0 and one snapshot, taken forty days later.\<close>

definition demo_deposit :: saved_event where
  "demo_deposit = \<lparr>sv_vaultId = ''v'', sv_row = \<lparr>ve_vaultAddress = ''A'', ve_eventType = DEPOSIT, ve_token = ''T'', ve_amount = 1,
     ve_feeAmount = 0, ve_feeBps = 0, ve_txHash = ''x'', ve_blockNumber = 1, ve_logIndex = 0, ve_timestamp = 0\<rparr>,
     sv_amountUsd = Some (show_nat 1000)\<rparr>"

definition demo_snapshot :: snapshot_row where
  "demo_snapshot = \<lparr>sn_vaultId = ''v'', sn_blockNumber = None, sn_asOf = 40 * DAY_MS, sn_totalValueUsd = 1000, sn_breakdown = []\<rparr>"

definition demo_cockpit :: cockpit_world where
  "demo_cockpit = \<lparr>cw_index = (demo_history [])\<lparr>iw_events := [demo_deposit]\<rparr>, cw_snapshots = [demo_snapshot], cw_cache = Map.empty\<rparr>"

definition idle_view :: view_env where
  "idle_view = \<lparr>we_services = \<lparr>vl_adapters = [], vl_portfolio = Inr [], vl_gas = Inl (Thrown ''down''), vl_price = Inr None\<rparr>,
     we_before = 0, we_after = 0\<rparr>"

lemma demo_usd: "stored_usd (Some (show_nat 1000)) = Some 1000"
  by (simp add: stored_usd_def num_fin_small num_limit_def)

lemma demo_cockpit_vault: "find_vault ''A'' (cw_index demo_cockpit) = Some ''v''"
  by (simp add: demo_cockpit_def find_vault_def demo_history_def)

lemma demo_cockpit_latest: "latest_snapshot (\<lambda>r. r) ''A'' demo_cockpit = Some demo_snapshot"
  unfolding latest_snapshot_def demo_cockpit_vault by (simp add: vault_snapshots_def demo_cockpit_def demo_snapshot_def latest_row_def)

lemma demo_cockpit_net: "net_when ''v'' P demo_cockpit = (if P 0 then 1000 else 0)"
  by (simp add: net_when_def netDepositsUsd_def boundary_events_def vault_events_def demo_cockpit_def demo_deposit_def boundary_of_def
    signed_usd_def demo_usd)

lemma demo_cockpit_baseline: "baseline (\<lambda>r. r) ''v'' (rangeToCutoff rng (40 * DAY_MS)) demo_cockpit = None"
  by (cases rng) (simp_all add: baseline_def vault_snapshots_def demo_cockpit_def demo_snapshot_def latest_row_def DAY_MS_def)

lemma demo_range: "history_range_of ''30d'' = Some Last30d" "history_range_of ''all'' = Some AllTime" "rangeToCutoff Last30d (40 * DAY_MS) = Some (10 * DAY_MS)"
  by (simp_all add: history_range_of_def DAY_MS_def)

lemma demo_performance:
  assumes "history_range_of r = Some rng"
  shows "\<exists>p. getPerformance (\<lambda>r. r) idle_view ''A'' r (40 * DAY_MS) demo_cockpit = (demo_cockpit, Inr p) \<and>
    pf_pnlAbsUsd p = 1000 - net_when ''v'' (in_range (rangeToCutoff rng (40 * DAY_MS))) demo_cockpit \<and> pf_currentValueUsd p = 1000"
proof -
  obtain w' x where g: "getPerformance (\<lambda>r. r) idle_view ''A'' r (40 * DAY_MS) demo_cockpit = (w', x)" by fastforce
  then obtain p where x: "x = Inr p" using assms
    by (auto simp: getPerformance_def Let_def split: option.splits prod.splits)
  from performance_pnl [OF demo_cockpit_vault demo_cockpit_latest assms g [unfolded x]]
    performance_current [OF demo_cockpit_latest g [unfolded x]]
  show ?thesis using g x by (auto simp: demo_snapshot_def demo_cockpit_baseline)
qed

lemma range_profit_is_not_the_gain_witness:
  "\<exists>p w'. getPerformance (\<lambda>r. r) idle_view ''A'' ''30d'' (40 * DAY_MS) demo_cockpit = (w', Inr p) \<and>
    pf_pnlAbsUsd p = 1000 - 1000 + 1000"
proof -
  obtain p where "getPerformance (\<lambda>r. r) idle_view ''A'' ''30d'' (40 * DAY_MS) demo_cockpit = (demo_cockpit, Inr p)"
    using demo_performance [OF demo_range(1)] by blast
  moreover from this have "pf_pnlAbsUsd p = 1000 - 1000 + 1000"
    using range_profit_is_not_the_gain [OF demo_cockpit_vault demo_cockpit_latest demo_range(1) demo_range(3), of idle_view demo_cockpit p]
      demo_cockpit_baseline [of Last30d]
    by (simp add: demo_range(3) demo_cockpit_net demo_snapshot_def DAY_MS_def)
  ultimately show ?thesis by blast
qed

text \<open>A vault whose only deposit is older than its first snapshot has no profit of all time, and the whole deposit as the profit of
  the last thirty days.\<close>

theorem old_deposit_is_profit:
  "\<exists>w env now p q. getPerformance (\<lambda>r. r) env ''A'' ''all'' now w = (w, Inr p) \<and> pf_pnlAbsUsd p = 0 \<and>
     getPerformance (\<lambda>r. r) env ''A'' ''30d'' now w = (w, Inr q) \<and> pf_pnlAbsUsd q = pf_currentValueUsd q \<and> pf_currentValueUsd q = 1000"
proof -
  obtain p where "getPerformance (\<lambda>r. r) idle_view ''A'' ''all'' (40 * DAY_MS) demo_cockpit = (demo_cockpit, Inr p)" "pf_pnlAbsUsd p = 0"
    using demo_performance [OF demo_range(2)] by (auto simp: demo_cockpit_net in_range_def)
  moreover obtain q where "getPerformance (\<lambda>r. r) idle_view ''A'' ''30d'' (40 * DAY_MS) demo_cockpit = (demo_cockpit, Inr q)"
    "pf_pnlAbsUsd q = pf_currentValueUsd q" "pf_currentValueUsd q = 1000"
    using demo_performance [OF demo_range(1)] by (auto simp: demo_range(3) demo_cockpit_net in_range_def DAY_MS_def)
  ultimately show ?thesis by blast
qed

lemma header_chart_and_pnl_agree_witness:
  "\<exists>p h. getPerformance (\<lambda>r. r) idle_view ''A'' ''30d'' (40 * DAY_MS) demo_cockpit = (demo_cockpit, Inr p) \<and>
    getValueHistory (\<lambda>r. r) ''A'' ''all'' (40 * DAY_MS) demo_cockpit = Inr h \<and> last (vh_points h) = (40 * DAY_MS, pf_currentValueUsd p)"
proof -
  obtain p where p: "getPerformance (\<lambda>r. r) idle_view ''A'' ''30d'' (40 * DAY_MS) demo_cockpit = (demo_cockpit, Inr p)"
    using demo_performance [OF demo_range(1)] by blast
  obtain h where h: "getValueHistory (\<lambda>r. r) ''A'' ''all'' (40 * DAY_MS) demo_cockpit = Inr h" "vh_range h = AllTime"
    by (simp add: getValueHistory_def demo_range(2) demo_cockpit_vault Let_def)
  have v: "getPositionsView (\<lambda>r. r) idle_view ''A'' False demo_cockpit = (demo_cockpit, snapshot_view ''A'' demo_snapshot)"
    by (simp add: getPositionsView_def demo_cockpit_latest)
  have d: "distinct (map sn_asOf (vault_snapshots ''v'' demo_cockpit))" by (simp add: vault_snapshots_def demo_cockpit_def)
  have "last (vh_points h) = (40 * DAY_MS, pf_currentValueUsd p)"
    using header_chart_and_pnl_agree [OF demo_cockpit_vault _ _ d v _ p h(1)] h(2)
    by (simp add: snapshot_view_def demo_snapshot_def in_range_def)
  with p h show ?thesis by blast
qed

section \<open>What a tick leaves\<close>

lemma valueVault_refresh:
  "snd (valueVault env address True before after cache) = \<lparr>vv_vaultAddress = address, vv_positions = value_positions env,
     vv_totalValueUsd = total_usd (value_positions env), vv_asOfBlock = None, vv_asOf = after\<rparr>"
  by (simp add: valueVault_def Let_def split: option.splits prod.splits)

definition new_rows :: "tick_env \<Rightarrow> string \<times> string \<Rightarrow> snapshot_row list" where
  "new_rows env v = (if te_created env (snd v) then [\<lparr>sn_vaultId = fst v, sn_blockNumber = te_head env, sn_asOf = te_asOf env (snd v),
     sn_totalValueUsd = total_usd (value_positions (te_services env (snd v))), sn_breakdown = value_positions (te_services env (snd v))\<rparr>] else [])"

lemma snapshot_vault_rows: "cw_snapshots (snapshot_vault env v w) = cw_snapshots w @ new_rows env v" "cw_index (snapshot_vault env v w) = cw_index w"
proof -
  obtain i a where v: "v = (i, a)" by (cases v)
  obtain cache valued where c: "valueVault (te_services env a) a True (te_before env a) (te_after env a) (cw_cache w) = (cache, valued)"
    by fastforce
  have "valued = \<lparr>vv_vaultAddress = a, vv_positions = value_positions (te_services env a),
      vv_totalValueUsd = total_usd (value_positions (te_services env a)), vv_asOfBlock = None, vv_asOf = te_after env a\<rparr>"
    using valueVault_refresh [of "te_services env a" a "te_before env a" "te_after env a" "cw_cache w"] by (simp add: c)
  then show "cw_snapshots (snapshot_vault env v w) = cw_snapshots w @ new_rows env v" "cw_index (snapshot_vault env v w) = cw_index w"
    using c by (simp_all add: v new_rows_def snapshot_of_def)
qed

lemma tick_rows:
  "cw_snapshots (snapshot_tick env days finished w) = filter (\<lambda>s. te_end env - int days * DAY_MS \<le> sn_asOf s)
     (cw_snapshots w @ concat (map (new_rows env) (map ((!) (known_vaults w)) finished)))"
  "cw_index (snapshot_tick env days finished w) = cw_index w"
proof -
  have "cw_snapshots (fold (snapshot_vault env) vs w) = cw_snapshots w @ concat (map (new_rows env) vs) \<and>
      cw_index (fold (snapshot_vault env) vs w) = cw_index w" for vs
    by (induction vs arbitrary: w) (simp_all add: snapshot_vault_rows)
  then show "cw_snapshots (snapshot_tick env days finished w) = filter (\<lambda>s. te_end env - int days * DAY_MS \<le> sn_asOf s)
     (cw_snapshots w @ concat (map (new_rows env) (map ((!) (known_vaults w)) finished)))"
    "cw_index (snapshot_tick env days finished w) = cw_index w"
    by (simp_all add: snapshot_tick_def prune_def not_less)
qed

lemma known_vault_id:
  assumes "distinct (map fst (known_vaults w))" "find_vault address (cw_index w) = Some v"
  shows "(v, address) \<in> set (known_vaults w)" "(v, a) \<in> set (known_vaults w) \<Longrightarrow> a = address"
proof -
  show in1: "(v, address) \<in> set (known_vaults w)"
    using assms(2) by (force simp: find_vault_def known_vaults_def dest!: find_Some_in)
  show "(v, a) \<in> set (known_vaults w) \<Longrightarrow> a = address"
    using in1 assms(1) by (metis eq_key_imp_eq_value)
qed

lemma mset_reindex: "mset finished = mset [0..<length vs] \<Longrightarrow> mset (map ((!) vs) finished) = mset vs"
  by (metis map_nth mset_map)

text \<open>C18. When the pool of a tick has come to its end, in whatever order its calls finished, a vault whose row could be written is shown
  by the positions view with the value computed in that tick, given that its earlier rows are
  older; and no row past the retention is left.\<close>

theorem tick_is_what_the_view_shows:
  assumes "(pool_step (length (known_vaults w)))\<^sup>*\<^sup>* (pool_start limit (length (known_vaults w))) p"
    and "\<nexists>q. pool_step (length (known_vaults w)) p q" "distinct (map fst (known_vaults w))"
    and "find_vault address (cw_index w) = Some v" "te_created env address" "\<And>xs. mset (storage xs) = mset xs"
    and "\<And>s. s \<in> set (cw_snapshots w) \<Longrightarrow> sn_vaultId s = v \<Longrightarrow> sn_asOf s < te_asOf env address"
    and "te_end env - int days * DAY_MS \<le> te_asOf env address"
  shows "snd (getPositionsView storage venv address False (snapshot_tick env days (po_done p) w)) =
      snapshot_view address (snapshot_of env v address (snd (valueVault (te_services env address) address True 0 0 Map.empty))) \<and>
    list_all (\<lambda>s. te_end env - int days * DAY_MS \<le> sn_asOf s) (cw_snapshots (snapshot_tick env days (po_done p) w))"
proof -
  let ?w = "snapshot_tick env days (po_done p) w" and ?row = "snapshot_of env v address (snd (valueVault (te_services env address) address True 0 0 Map.empty))"
  have "mset (map ((!) (known_vaults w)) (po_done p)) = mset (known_vaults w)"
    using pool_stuck_done [OF assms(1,2)] by (rule mset_reindex)
  then have vs: "set (map ((!) (known_vaults w)) (po_done p)) = set (known_vaults w)" by (rule mset_eq_setD)
  have "set (concat (map (new_rows env) xs)) = (\<Union>x \<in> set xs. set (new_rows env x))" for xs by simp
  from this [of "map ((!) (known_vaults w)) (po_done p)", unfolded vs]
  have new: "set (concat (map (new_rows env) (map ((!) (known_vaults w)) (po_done p)))) = (\<Union>x \<in> set (known_vaults w). set (new_rows env x))" .
  have rows: "set (vault_snapshots v ?w) = {s \<in> set (cw_snapshots w) \<union> (\<Union>x \<in> set (known_vaults w). set (new_rows env x)).
      sn_vaultId s = v \<and> te_end env - int days * DAY_MS \<le> sn_asOf s}"
    unfolding vault_snapshots_def tick_rows set_filter set_append new by blast
  have row: "new_rows env (v, address) = [?row]" using assms(5) by (simp add: new_rows_def snapshot_of_def valueVault_refresh)
  have t: "sn_asOf ?row = te_asOf env address" "sn_vaultId ?row = v" by (simp_all add: snapshot_of_def)
  have mine: "s = ?row" if "s \<in> set (new_rows env x)" "x \<in> set (known_vaults w)" "sn_vaultId s = v" for s x
  proof -
    have "fst x = v" using that(1,3) by (auto simp: new_rows_def split: if_splits)
    then have "x = (v, address)" using known_vault_id(2) [OF assms(3,4), of "snd x"] that(2) by (metis prod.collapse)
    with that(1) row show ?thesis by simp
  qed
  have "?row \<in> set (vault_snapshots v ?w)"
    unfolding rows using known_vault_id(1) [OF assms(3,4)] row t assms(8) by fastforce
  moreover have "s = ?row \<or> sn_asOf s < sn_asOf ?row" if "s \<in> set (vault_snapshots v ?w)" for s
    using that mine assms(7) unfolding rows t(1) by blast
  moreover obtain s where s: "latest_row sn_asOf (storage (vault_snapshots v ?w)) = Some s"
    using calculation(1) latest_row_Some mset_eq_setD [OF assms(6)] by (metis empty_iff empty_set)
  ultimately have "s = ?row" using latest_row_max [OF s] mset_eq_setD [OF assms(6), of "vault_snapshots v ?w"] by force
  with s assms(4) have "latest_snapshot storage address ?w = Some ?row" by (simp add: latest_snapshot_def tick_rows(2))
  moreover have "list_all (\<lambda>s. te_end env - int days * DAY_MS \<le> sn_asOf s) (cw_snapshots ?w)" by (auto simp: tick_rows(1) list_all_iff)
  ultimately show ?thesis by (simp add: getPositionsView_def)
qed

definition demo_tick :: tick_env where
  "demo_tick = \<lparr>te_head = Some 9, te_services = (\<lambda>a. we_services idle_view), te_before = (\<lambda>a. 0), te_after = (\<lambda>a. 1),
     te_asOf = (\<lambda>a. 41 * DAY_MS), te_created = (\<lambda>a. True), te_end = 41 * DAY_MS\<rparr>"

lemma tick_is_what_the_view_shows_witness:
  "vv_asOf (pv_vault (snd (getPositionsView (\<lambda>r. r) idle_view ''A'' False (snapshot_tick demo_tick 90 [0] demo_cockpit)))) = 41 * DAY_MS"
proof -
  let ?p = "\<lparr>po_next = 1, po_workers = [Returned], po_done = [0]\<rparr>"
  have one: "length (known_vaults demo_cockpit) = 1" by (simp add: known_vaults_def demo_cockpit_def demo_history_def)
  have stuck: "\<nexists>q. pool_step 1 ?p q" by (auto elim: pool_stepE)
  have reach: "(pool_step 1)\<^sup>*\<^sup>* (pool_start 1 1) ?p" using one_item_run by (rule relpowp_imp_rtranclp)
  have "snd (getPositionsView (\<lambda>r. r) idle_view ''A'' False (snapshot_tick demo_tick 90 (po_done ?p) demo_cockpit)) =
      snapshot_view ''A'' (snapshot_of demo_tick ''v'' ''A'' (snd (valueVault (te_services demo_tick ''A'') ''A'' True 0 0 Map.empty)))"
    by (rule conjunct1 [OF tick_is_what_the_view_shows [where limit = 1 and w = demo_cockpit, unfolded one, OF reach stuck _ demo_cockpit_vault]])
      (auto simp: known_vaults_def demo_cockpit_def demo_history_def demo_tick_def demo_snapshot_def DAY_MS_def)
  then show ?thesis by (simp add: snapshot_view_def snapshot_of_def demo_tick_def)
qed

end
