(* ===== verification/Wallet.thy ===== *)
theory Wallet
  imports Money Portfolio
begin

text \<open>
  What the frontend sends to the chain: the deposit with its approvals (use-approve-and-deposit.ts), the
  withdrawal (use-withdraw.ts), the creation of a vault (use-create-vault.ts, wait-for-receipt.ts), and
  the forms in front of them (deposit-form.tsx, withdraw-form.tsx, gas-deposit-card.tsx,
  gas-deposit.ts). The wallet, the receipts, the backend's status codes and viem's \<open>parseUnits\<close> are
  parameters. The world of a hook is its React state, the clock and the chain; the list of the calls the
  wallet was asked for is a record of the run and no state of the program. Lemmas: which calls a
  hook asks for and in which order, that they pass the allowance rules of the token, that every run
  ends, and what the user is told.
\<close>

section \<open>The world of a hook\<close>

text \<open>What is caught: \<open>e instanceof Error ? e.message : ...\<close>.\<close>

datatype thrown = ErrorWith string | NotAnError

fun message_or :: "string \<Rightarrow> thrown \<Rightarrow> string" where
  "message_or d (ErrorWith m) = m"
| "message_or d NotAnError = d"

record wallet_call =
  wc_address :: string
  wc_function :: string
  wc_args :: "jsval list"
  wc_gas :: "nat option"

record tx_receipt =
  rc_success :: bool
  rc_logs :: "string list list"
  rc_blockNumber :: nat

record ('h, 'c) ui =
  ui_hook :: 'h
  ui_now :: nat
  ui_asked :: "wallet_call list"
  ui_chain :: 'c

text \<open>
  \<open>wl_write\<close> is \<open>writeContractAsync\<close> (the hash, or an error when the user rejects), \<open>wl_wait\<close> viem's
  \<open>waitForTransactionReceipt\<close>, which resolves with the receipt of a reverted transaction as well,
  \<open>wl_poll\<close> one \<open>getTransactionReceipt\<close> with the time it took (\<open>None\<close> when it throws), and \<open>wl_post\<close> a
  request to the backend that answers with a status code.
\<close>

record 'c wallet_env =
  wl_write :: "wallet_call \<Rightarrow> 'c \<Rightarrow> 'c \<times> (thrown + string)"
  wl_wait :: "string \<Rightarrow> 'c \<Rightarrow> 'c \<times> (thrown + tx_receipt)"
  wl_poll :: "string \<Rightarrow> 'c \<Rightarrow> 'c \<times> nat \<times> tx_receipt option"
  wl_post :: "string \<Rightarrow> (string \<times> jsval) list \<Rightarrow> 'c \<Rightarrow> 'c \<times> (thrown + nat)"

type_synonym ('h, 'c, 'a) hook_op = "(('h, 'c) ui, thrown, 'a) io"

definition set_hook :: "('h \<Rightarrow> 'h) \<Rightarrow> ('h, 'c, unit) hook_op" where
  "set_hook f w = (w\<lparr>ui_hook := f (ui_hook w)\<rparr>, Inr ())"

definition ask_wallet :: "'c wallet_env \<Rightarrow> wallet_call \<Rightarrow> ('h, 'c, string) hook_op" where
  "ask_wallet env c w =
     (case wl_write env c (ui_chain w) of (ch, r) \<Rightarrow> (w\<lparr>ui_asked := ui_asked w @ [c], ui_chain := ch\<rparr>, r))"

definition wait_receipt :: "'c wallet_env \<Rightarrow> string \<Rightarrow> ('h, 'c, tx_receipt) hook_op" where
  "wait_receipt env h w = (case wl_wait env h (ui_chain w) of (ch, r) \<Rightarrow> (w\<lparr>ui_chain := ch\<rparr>, r))"

definition sleep :: "nat \<Rightarrow> ('h, 'c, unit) hook_op" where
  "sleep ms w = (w\<lparr>ui_now := ui_now w + ms\<rparr>, Inr ())"

lemma set_hook_apply [simp]: "set_hook f w = (w\<lparr>ui_hook := f (ui_hook w)\<rparr>, Inr ())"
  by (simp add: set_hook_def)

lemma sleep_apply [simp]: "sleep ms w = (w\<lparr>ui_now := ui_now w + ms\<rparr>, Inr ())"
  by (simp add: sleep_def)

lemma ask_asked: "ui_asked (fst (ask_wallet env c w)) = ui_asked w @ [c]"
  and ask_hook: "ui_hook (fst (ask_wallet env c w)) = ui_hook w"
  by (simp_all add: ask_wallet_def split: prod.splits)

lemma wait_keeps: "ui_asked (fst (wait_receipt env h w)) = ui_asked w" "ui_hook (fst (wait_receipt env h w)) = ui_hook w"
  by (simp_all add: wait_receipt_def split: prod.splits)

section \<open>Approving and depositing\<close>

datatype deposit_step = DIdle | Checking | Approving | Depositing | DConfirming | DDone | DError

record deposit_hook =
  dh_step :: deposit_step
  dh_currentStep :: nat
  dh_totalSteps :: nat
  dh_error :: "string option"

definition deposit_idle :: deposit_hook where
  "deposit_idle = \<lparr>dh_step = DIdle, dh_currentStep = 0, dh_totalSteps = 0, dh_error = None\<rparr>"

record deposit_params =
  dp_vaultAddress :: string
  dp_tokenAddress :: string
  dp_amount :: int
  dp_currentAllowance :: int

definition USDT_ADDRESSES :: "string set" where
  "USDT_ADDRESSES = {''0x55d398326f99059ff775485246999027b3197955''}"

definition needsApproval :: "deposit_params \<Rightarrow> bool" where
  "needsApproval p \<longleftrightarrow> dp_currentAllowance p < dp_amount p"

definition needsResetToZero :: "deposit_params \<Rightarrow> bool" where
  "needsResetToZero p \<longleftrightarrow> needsApproval p \<and> dp_currentAllowance p > 0 \<and> dp_currentAllowance p < MAX_ALLOWANCE \<and>
     lower (dp_tokenAddress p) \<in> USDT_ADDRESSES"

definition approve_call :: "deposit_params \<Rightarrow> int \<Rightarrow> wallet_call" where
  "approve_call p n = \<lparr>wc_address = dp_tokenAddress p, wc_function = ''approve'',
     wc_args = [JStr (dp_vaultAddress p), JBig n], wc_gas = None\<rparr>"

definition deposit_call :: "deposit_params \<Rightarrow> wallet_call" where
  "deposit_call p = \<lparr>wc_address = dp_vaultAddress p, wc_function = ''deposit'',
     wc_args = [JStr (dp_tokenAddress p), JBig (dp_amount p)], wc_gas = Some 300000\<rparr>"

text \<open>One approval: the step and its number, the call, its receipt.\<close>

definition approve_step :: "'c wallet_env \<Rightarrow> deposit_params \<Rightarrow> nat \<Rightarrow> int \<Rightarrow> (deposit_hook, 'c, unit) hook_op" where
  "approve_step env p i n =
     ibind (set_hook (\<lambda>h. h\<lparr>dh_step := Approving, dh_currentStep := i\<rparr>)) (\<lambda>_.
     ibind (ask_wallet env (approve_call p n)) (\<lambda>hash.
     ibind (wait_receipt env hash) (\<lambda>_. iret ())))"

definition deposit_body :: "'c wallet_env \<Rightarrow> deposit_params \<Rightarrow> (deposit_hook, 'c, bool) hook_op" where
  "deposit_body env p =
     (let reset = needsResetToZero p; approval = needsApproval p;
          i1 = (if reset then 2 else 1); i2 = (if approval then i1 + 1 else i1) in
      ibind (set_hook (\<lambda>h. h\<lparr>dh_totalSteps := (if reset then 1 else 0) + (if approval then 1 else 0) + 1\<rparr>)) (\<lambda>_.
      ibind (if reset then approve_step env p 1 0 else iret ()) (\<lambda>_.
      ibind (if approval then approve_step env p i1 MAX_ALLOWANCE else iret ()) (\<lambda>_.
      ibind (set_hook (\<lambda>h. h\<lparr>dh_step := Depositing, dh_currentStep := i2\<rparr>)) (\<lambda>_.
      ibind (ask_wallet env (deposit_call p)) (\<lambda>depositHash.
      ibind (set_hook (\<lambda>h. h\<lparr>dh_step := DConfirming\<rparr>)) (\<lambda>_.
      ibind (wait_receipt env depositHash) (\<lambda>_.
      ibind (set_hook (\<lambda>h. h\<lparr>dh_step := DDone\<rparr>)) (\<lambda>_. iret True)))))))))"

definition approveAndDeposit :: "'c wallet_env \<Rightarrow> deposit_params \<Rightarrow> (deposit_hook, 'c, bool) hook_op" where
  "approveAndDeposit env p =
     ibind (set_hook (\<lambda>h. h\<lparr>dh_error := None, dh_step := Checking\<rparr>)) (\<lambda>_.
     itry (deposit_body env p)
       (\<lambda>e. ibind (set_hook (\<lambda>h. h\<lparr>dh_error := Some (message_or ''Transaction failed'' e), dh_step := DError\<rparr>)) (\<lambda>_. iret False)))"

text \<open>The calls of a whole run, and how far a run came.\<close>

definition deposit_plan :: "deposit_params \<Rightarrow> wallet_call list" where
  "deposit_plan p = (if needsResetToZero p then [approve_call p 0] else []) @
     (if needsApproval p then [approve_call p MAX_ALLOWANCE] else []) @ [deposit_call p]"

definition asks :: "wallet_call list \<Rightarrow> ('h, 'c, 'a) hook_op \<Rightarrow> bool" where
  "asks cs m \<longleftrightarrow> (\<forall>w w' r. m w = (w', r) \<longrightarrow>
     (case r of Inr x \<Rightarrow> ui_asked w' = ui_asked w @ cs | Inl e \<Rightarrow> \<exists>n. ui_asked w' = ui_asked w @ take n cs))"

lemma asks_silent: "asks [] (set_hook f)" "asks [] (iret x)" "asks [] (wait_receipt env h)"
  by (auto simp: asks_def wait_receipt_def split: sum.splits prod.splits)

lemma asks_wallet:
  fixes env :: "'c wallet_env"
  shows "asks [c] (ask_wallet env c :: ('h, 'c, string) hook_op)"
  unfolding asks_def
proof (intro allI impI)
  fix w :: "('h, 'c) ui" and w' r
  assume "ask_wallet env c w = (w', r)"
  then have "ui_asked w' = ui_asked w @ take 1 [c]" using ask_asked [of env c w] by simp
  then show "case r of Inr x \<Rightarrow> ui_asked w' = ui_asked w @ [c] | Inl e \<Rightarrow> \<exists>n. ui_asked w' = ui_asked w @ take n [c]"
    by (cases r) (auto intro: exI [of _ 1])
qed

lemma asks_ibind:
  assumes "asks cs m" "\<And>x. asks ds (f x)"
  shows "asks (cs @ ds) (ibind m f)"
  unfolding asks_def
proof (intro allI impI)
  fix w w' r
  assume run: "ibind m f w = (w', r)"
  show "case r of Inr x \<Rightarrow> ui_asked w' = ui_asked w @ cs @ ds | Inl e \<Rightarrow> \<exists>n. ui_asked w' = ui_asked w @ take n (cs @ ds)"
  proof (rule ibind_cases [of m w f])
    fix w1 e assume m: "m w = (w1, Inl e)" "ibind m f w = (w1, Inl e)"
    from assms(1) m(1) obtain n where "ui_asked w1 = ui_asked w @ take n cs" unfolding asks_def by fastforce
    then have "ui_asked w1 = ui_asked w @ take (min n (length cs)) (cs @ ds)"
      by (cases "n \<le> length cs") (simp_all add: min_def)
    then have "\<exists>n. ui_asked w1 = ui_asked w @ take n (cs @ ds)" by blast
    moreover have "w' = w1" "r = Inl e" using m(2) run by simp_all
    ultimately show ?thesis by (simp del: take_append)
  next
    fix w1 x assume m: "m w = (w1, Inr x)" "ibind m f w = f x w1"
    from assms(1) m(1) have a: "ui_asked w1 = ui_asked w @ cs" unfolding asks_def by fastforce
    from assms(2) [of x] run m(2) have b: "case r of Inr x \<Rightarrow> ui_asked w' = ui_asked w1 @ ds | Inl e \<Rightarrow> \<exists>n. ui_asked w' = ui_asked w1 @ take n ds"
      unfolding asks_def by metis
    show ?thesis
    proof (cases r)
      case (Inl e)
      with b obtain n where "ui_asked w' = ui_asked w1 @ take n ds" by auto
      with a have "ui_asked w' = ui_asked w @ take (length cs + n) (cs @ ds)" by simp
      with Inl show ?thesis by (auto intro: exI [of _ "length cs + n"])
    qed (use a b in simp)
  qed
qed

lemma asks_silent_ibind: "asks [] m \<Longrightarrow> (\<And>x. asks ds (f x)) \<Longrightarrow> asks ds (ibind m f)"
  using asks_ibind [of "[]" m ds f] by simp

lemma asks_approve: "asks [approve_call p n] (approve_step env p i n)"
  unfolding approve_step_def
  by (rule asks_silent_ibind [OF asks_silent(1)])
    (rule asks_ibind [of "[_]" _ "[]", simplified, OF asks_wallet asks_silent_ibind [OF asks_silent(3,2)]])

lemma asks_if: "asks cs m \<Longrightarrow> asks (if b then cs else []) (if b then m else iret ())"
  by (simp add: asks_silent)

lemma asks_deposit_body: "asks (deposit_plan p) (deposit_body env p)"
proof -
  have last: "asks [deposit_call p]
     (ibind (ask_wallet env (deposit_call p)) (\<lambda>depositHash.
      ibind (set_hook (\<lambda>h. h\<lparr>dh_step := DConfirming\<rparr>)) (\<lambda>_.
      ibind (wait_receipt env depositHash) (\<lambda>_.
      ibind (set_hook (\<lambda>h. h\<lparr>dh_step := DDone\<rparr>)) (\<lambda>_. iret True)))))"
    by (rule asks_ibind [of "[_]" _ "[]", simplified, OF asks_wallet])
      (intro asks_silent_ibind asks_silent)
  show ?thesis unfolding deposit_body_def deposit_plan_def Let_def
    by (intro asks_silent_ibind [OF asks_silent(1)] asks_ibind asks_if asks_approve last)
qed

lemma deposit_asks:
  assumes "approveAndDeposit env p w = (w', r)"
  shows "\<exists>n. ui_asked w' = ui_asked w @ take n (deposit_plan p)"
    and "r = Inr True \<Longrightarrow> ui_asked w' = ui_asked w @ deposit_plan p"
    and "\<exists>ok. r = Inr ok \<and> (if ok then dh_step (ui_hook w') = DDone else dh_step (ui_hook w') = DError \<and> dh_error (ui_hook w') \<noteq> None)"
proof -
  define w0 where "w0 = w\<lparr>ui_hook := (ui_hook w)\<lparr>dh_error := None, dh_step := Checking\<rparr>\<rparr>"
  obtain w1 q where b: "deposit_body env p w0 = (w1, q)" by fastforce
  have a: "case q of Inr x \<Rightarrow> ui_asked w1 = ui_asked w0 @ deposit_plan p | Inl e \<Rightarrow> \<exists>n. ui_asked w1 = ui_asked w0 @ take n (deposit_plan p)"
    using asks_deposit_body [of p env] b unfolding asks_def by blast
  have run: "approveAndDeposit env p w = (case q of Inr x \<Rightarrow> (w1, Inr x)
      | Inl e \<Rightarrow> (w1\<lparr>ui_hook := (ui_hook w1)\<lparr>dh_error := Some (message_or ''Transaction failed'' e), dh_step := DError\<rparr>\<rparr>, Inr False))"
    using b by (simp add: approveAndDeposit_def w0_def [symmetric] itry_def ibind_def split: sum.splits)
  have fin: "x \<and> dh_step (ui_hook w1) = DDone" if "q = Inr x" for x
    using b that unfolding deposit_body_def Let_def by (auto simp: result_simps)
  have w0: "ui_asked w0 = ui_asked w" by (simp add: w0_def)
  show "\<exists>n. ui_asked w' = ui_asked w @ take n (deposit_plan p)"
    using a run assms w0 by (auto split: sum.splits intro: exI [of _ "length (deposit_plan p)"])
  show "r = Inr True \<Longrightarrow> ui_asked w' = ui_asked w @ deposit_plan p"
    using a run assms w0 by (auto split: sum.splits)
  show "\<exists>ok. r = Inr ok \<and> (if ok then dh_step (ui_hook w') = DDone else dh_step (ui_hook w') = DError \<and> dh_error (ui_hook w') \<noteq> None)"
    using run assms fin by (auto split: sum.splits)
qed

text \<open>
  The token's side, abstractly: an allowance, which \<open>approve\<close> sets and a deposit needs and uses up; a
  token of the USDT kind refuses to go from one nonzero allowance to another. \<open>None\<close> is a revert.
\<close>

fun allow_step :: "bool \<Rightarrow> wallet_call \<Rightarrow> int \<Rightarrow> int option" where
  "allow_step tether c a =
     (case (wc_function c, wc_args c) of
        (f, [x, JBig n]) \<Rightarrow>
          if f = ''approve'' then (if tether \<and> a \<noteq> 0 \<and> n \<noteq> 0 then None else Some n)
          else if n \<le> a then Some (a - n) else None
      | _ \<Rightarrow> None)"

primrec allow_run :: "bool \<Rightarrow> wallet_call list \<Rightarrow> int \<Rightarrow> int option" where
  "allow_run tether [] a = Some a"
| "allow_run tether (c # cs) a = Option.bind (allow_step tether c a) (allow_run tether cs)"

lemma allow_calls [simp]:
  "allow_step tether (approve_call p n) a = (if tether \<and> a \<noteq> 0 \<and> n \<noteq> 0 then None else Some n)"
  "allow_step tether (deposit_call p) a = (if dp_amount p \<le> a then Some (a - dp_amount p) else None)"
  by (simp_all add: approve_call_def deposit_call_def)

declare allow_step.simps [simp del]

lemma plan_passes:
  assumes "0 \<le> dp_currentAllowance p" "dp_amount p \<le> MAX_ALLOWANCE"
    and "tether \<Longrightarrow> lower (dp_tokenAddress p) \<in> USDT_ADDRESSES"
  shows "\<exists>a. allow_run tether (deposit_plan p) (dp_currentAllowance p) = Some a"
proof -
  have m: "MAX_ALLOWANCE > 0" by (simp add: MAX_ALLOWANCE_def)
  consider "\<not> needsApproval p" | "needsApproval p" "needsResetToZero p" | "needsApproval p" "\<not> needsResetToZero p" by blast
  then show ?thesis
  proof cases
    case 1
    then have "\<not> needsResetToZero p" by (simp add: needsResetToZero_def)
    with 1 show ?thesis by (simp add: deposit_plan_def needsApproval_def)
  next
    case 2
    with assms(2) show ?thesis by (simp add: deposit_plan_def)
  next
    case 3
    then have "tether \<Longrightarrow> dp_currentAllowance p = 0"
      using assms m by (auto simp: needsResetToZero_def needsApproval_def)
    with 3 assms(2) show ?thesis by (auto simp: deposit_plan_def)
  qed
qed

text \<open>C7. The calls that a deposit asks the wallet for are a beginning of one plan, and all of it when it
  reports success; and with the allowance that the token has, no call of the plan breaks an allowance rule,
  also for a token that must be set back to 0 first, when the hook knows it as one.\<close>

theorem deposit_plan_passes:
  assumes "approveAndDeposit env p w = (w', r)"
    and "0 \<le> dp_currentAllowance p" "dp_amount p \<le> MAX_ALLOWANCE"
    and "tether \<Longrightarrow> lower (dp_tokenAddress p) \<in> USDT_ADDRESSES"
  shows "\<exists>n calls. ui_asked w' = ui_asked w @ calls \<and> calls = take n (deposit_plan p) \<and>
    (r = Inr True \<longrightarrow> calls = deposit_plan p) \<and>
    (\<exists>a. allow_run tether (deposit_plan p) (dp_currentAllowance p) = Some a)"
proof -
  from deposit_asks(1) [OF assms(1)] obtain n where n: "ui_asked w' = ui_asked w @ take n (deposit_plan p)" ..
  moreover have "r = Inr True \<longrightarrow> take n (deposit_plan p) = deposit_plan p" using deposit_asks(2) [OF assms(1)] n by auto
  ultimately show ?thesis using plan_passes [OF assms(2-4)] by blast
qed

definition demo_wallet :: "nat wallet_env" where
  "demo_wallet = \<lparr>wl_write = (\<lambda>c n. (n + 1, Inr (show_nat n))),
     wl_wait = (\<lambda>h n. (n, Inr \<lparr>rc_success = n < 3, rc_logs = [], rc_blockNumber = n\<rparr>)),
     wl_poll = (\<lambda>h n. (n, 5, None)), wl_post = (\<lambda>path body n. (n, Inr 500))\<rparr>"

definition demo_deposit :: deposit_params where
  "demo_deposit = \<lparr>dp_vaultAddress = ''0xV'', dp_tokenAddress = ''0x55d398326f99059fF775485246999027B3197955'',
     dp_amount = 10, dp_currentAllowance = 4\<rparr>"

definition fresh_ui :: "'h \<Rightarrow> 'c \<Rightarrow> ('h, 'c) ui" where
  "fresh_ui h c = \<lparr>ui_hook = h, ui_now = 0, ui_asked = [], ui_chain = c\<rparr>"

lemma demo_token: "lower ''0x55d398326f99059fF775485246999027B3197955'' = ''0x55d398326f99059ff775485246999027b3197955''"
  by code_simp

lemma demo_deposit_token: "lower (dp_tokenAddress demo_deposit) \<in> USDT_ADDRESSES"
  by (simp only: demo_deposit_def deposit_params.simps demo_token USDT_ADDRESSES_def insertI1)

theorem deposit_plan_passes_witness:
  "\<exists>n calls. ui_asked (fst (approveAndDeposit demo_wallet demo_deposit (fresh_ui deposit_idle (0::nat)))) = calls \<and>
     calls = take n (deposit_plan demo_deposit) \<and> (\<exists>a. allow_run True (deposit_plan demo_deposit) 4 = Some a)"
proof -
  obtain w' r where run: "approveAndDeposit demo_wallet demo_deposit (fresh_ui deposit_idle (0::nat)) = (w', r)" by fastforce
  have p: "0 \<le> dp_currentAllowance demo_deposit" "dp_amount demo_deposit \<le> MAX_ALLOWANCE" "dp_currentAllowance demo_deposit = 4"
    by (simp_all add: demo_deposit_def MAX_ALLOWANCE_def)
  have e: "ui_asked (fresh_ui deposit_idle (0::nat)) = []" by (simp add: fresh_ui_def)
  have "\<exists>n calls. ui_asked w' = ui_asked (fresh_ui deposit_idle (0::nat)) @ calls \<and> calls = take n (deposit_plan demo_deposit) \<and>
     (r = Inr True \<longrightarrow> calls = deposit_plan demo_deposit) \<and>
     (\<exists>a. allow_run True (deposit_plan demo_deposit) (dp_currentAllowance demo_deposit) = Some a)"
    by (rule deposit_plan_passes [OF run p(1,2)]) (rule demo_deposit_token)
  then obtain n calls where "ui_asked w' = ui_asked (fresh_ui deposit_idle (0::nat)) @ calls" "calls = take n (deposit_plan demo_deposit)"
    "\<exists>a. allow_run True (deposit_plan demo_deposit) (dp_currentAllowance demo_deposit) = Some a"
    by blast
  then show ?thesis using run e p(3) by (intro exI [of _ n] exI [of _ calls]) simp
qed

text \<open>
  While the allowance is being read it is taken as 0. For a token of the USDT kind whose allowance is
  not 0 the approval then breaks the rule that the reset is there for.
\<close>

lemma unread_allowance_skips_reset:
  assumes "0 < real_allowance" "0 < dp_amount p" "dp_currentAllowance p = 0"
  shows "allow_run True (deposit_plan p) real_allowance = None"
  using assms by (simp add: deposit_plan_def needsApproval_def needsResetToZero_def MAX_ALLOWANCE_def)

text \<open>
  The same rules stand in the MCP server (theory \<open>Money\<close>): with nothing failing, the frontend asks
  for the calls that the tool signs, amounts as numbers instead of digits.
\<close>

definition same_call :: "wallet_call \<Rightarrow> contract_tx \<Rightarrow> bool" where
  "same_call c t \<longleftrightarrow> wc_address c = ct_address t \<and> wc_function c = ct_function t \<and>
     list_all2 (\<lambda>a b. js_string a = js_string b) (wc_args c) (ct_args t)"

lemma deposit_agrees_with_mcp:
  assumes "as_bigint amountBase = dp_amount p" "amountBase = show_int (dp_amount p)"
  shows "list_all2 same_call (deposit_plan p)
    (approvals (dp_tokenAddress p) (dp_vaultAddress p) (dp_currentAllowance p) (as_bigint amountBase) @
     [vault_tx (dp_vaultAddress p) ''deposit'' [JStr (dp_tokenAddress p), JStr amountBase] 300000])"
  using assms
  by (simp add: deposit_plan_def approvals_def needsApproval_def needsResetToZero_def same_call_def approve_call_def
      deposit_call_def approve_tx_def vault_tx_def MAX_ALLOWANCE_def USDT_ADDRESSES_def USDT_BSC_def)

text \<open>
  What the user is told: the hook does not look at the status of the receipts, so a deposit whose
  transactions were all reverted is a success.
\<close>

lemma approve_step_Inr:
  assumes "\<And>c ch. \<exists>ch' h. wl_write env c ch = (ch', Inr h)" "\<And>h ch. \<exists>ch' r. wl_wait env h ch = (ch', Inr r)"
  shows "\<exists>w'. approve_step env p i n w = (w', Inr ())"
proof -
  define w0 where "w0 = w\<lparr>ui_hook := (ui_hook w)\<lparr>dh_step := Approving, dh_currentStep := i\<rparr>\<rparr>"
  from assms(1) [of "approve_call p n" "ui_chain w0"] obtain ch h where "wl_write env (approve_call p n) (ui_chain w0) = (ch, Inr h)" by blast
  moreover obtain ch' r where "wl_wait env h ch = (ch', Inr r)" using assms(2) [of h ch] by blast
  ultimately show ?thesis
    by (simp add: approve_step_def ibind_def ask_wallet_def wait_receipt_def w0_def [symmetric])
qed

text \<open>A deposit that the wallet sends and whose receipts arrive is reported as done, whatever the receipts
  say: transactions that were reverted on chain count as a success.\<close>

theorem reverted_deposit_is_done:
  assumes "\<And>c ch. \<exists>ch' h. wl_write env c ch = (ch', Inr h)"
    and "\<And>h ch. \<exists>ch' r. wl_wait env h ch = (ch', Inr r) \<and> \<not> rc_success r"
  shows "\<exists>w'. approveAndDeposit env p w = (w', Inr True) \<and> dh_step (ui_hook w') = DDone"
proof -
  have s: "\<exists>w'. approve_step env p i n w = (w', Inr ())" for p i n w
    using assms by (intro approve_step_Inr) blast+
  have i: "\<exists>w'. (if b then approve_step env p i n else iret ()) w = (w', Inr ())" for b i n w
    using s by simp
  have last: "\<exists>w'. ibind (ask_wallet env (deposit_call p)) (\<lambda>depositHash.
      ibind (set_hook (\<lambda>h. h\<lparr>dh_step := DConfirming\<rparr>)) (\<lambda>_.
      ibind (wait_receipt env depositHash) (\<lambda>_.
      ibind (set_hook (\<lambda>h. h\<lparr>dh_step := DDone\<rparr>)) (\<lambda>_. iret True)))) w = (w', Inr True)" for w
  proof -
    from assms(1) [of "deposit_call p" "ui_chain w"] obtain ch h where "wl_write env (deposit_call p) (ui_chain w) = (ch, Inr h)" by blast
    moreover obtain ch' r where "wl_wait env h ch = (ch', Inr r)" using assms(2) [of h ch] by blast
    ultimately show ?thesis by (simp add: ibind_def ask_wallet_def wait_receipt_def)
  qed
  have bind: "\<exists>w'. ibind m f w = (w', Inr x)" if "\<And>w. \<exists>w'. m w = (w', Inr ())" "\<And>w. \<exists>w'. f () w = (w', Inr x)"
    for m :: "(deposit_hook, 'a, unit) hook_op" and f and x :: bool and w
  proof -
    from that(1) [of w] obtain w1 where "m w = (w1, Inr ())" ..
    with that(2) [of w1] show ?thesis by simp
  qed
  have "\<exists>w'. deposit_body env p w = (w', Inr True)" for w
    unfolding deposit_body_def Let_def by (intro bind i last) simp_all
  then obtain w' where "approveAndDeposit env p w = (w', Inr True)"
    unfolding approveAndDeposit_def by (simp add: ibind_def itry_def) (metis (mono_tags, lifting) prod.case sum.case(2))
  then show ?thesis using deposit_asks(3) by fastforce
qed

definition reverting_wallet :: "nat wallet_env" where
  "reverting_wallet = demo_wallet\<lparr>wl_wait := (\<lambda>h n. (n, Inr \<lparr>rc_success = False, rc_logs = [], rc_blockNumber = n\<rparr>))\<rparr>"

theorem reverted_deposit_is_done_witness:
  "\<exists>w'. approveAndDeposit reverting_wallet demo_deposit (fresh_ui deposit_idle 0) = (w', Inr True) \<and> dh_step (ui_hook w') = DDone"
  by (rule reverted_deposit_is_done) (simp_all add: reverting_wallet_def demo_wallet_def)

section \<open>Withdrawing\<close>

datatype withdraw_step = WIdle | WConfirming | WWaiting | WDone | WError

record withdraw_hook =
  wh_step :: withdraw_step
  wh_error :: "string option"

definition withdraw_call :: "string \<Rightarrow> string \<Rightarrow> int \<Rightarrow> string \<Rightarrow> wallet_call" where
  "withdraw_call vault token amount recipient = \<lparr>wc_address = vault, wc_function = ''withdraw'',
     wc_args = [JStr token, JBig amount, JStr recipient], wc_gas = Some 300000\<rparr>"

definition useWithdraw :: "'c wallet_env \<Rightarrow> string \<Rightarrow> string \<Rightarrow> int \<Rightarrow> string \<Rightarrow> (withdraw_hook, 'c, bool) hook_op" where
  "useWithdraw env vault token amount recipient =
     ibind (set_hook (\<lambda>h. h\<lparr>wh_error := None, wh_step := WConfirming\<rparr>)) (\<lambda>_.
     itry (ibind (ask_wallet env (withdraw_call vault token amount recipient)) (\<lambda>hash.
           ibind (set_hook (\<lambda>h. h\<lparr>wh_step := WWaiting\<rparr>)) (\<lambda>_.
           ibind (wait_receipt env hash) (\<lambda>_.
           ibind (set_hook (\<lambda>h. h\<lparr>wh_step := WDone\<rparr>)) (\<lambda>_. iret True)))))
       (\<lambda>e. ibind (set_hook (\<lambda>h. h\<lparr>wh_error := Some (message_or ''Transaction failed'' e), wh_step := WError\<rparr>)) (\<lambda>_. iret False)))"

lemma withdraw_asks_once:
  "ui_asked (fst (useWithdraw env vault token amount recipient w)) = ui_asked w @ [withdraw_call vault token amount recipient]"
  by (auto simp: useWithdraw_def ibind_def itry_def ask_wallet_def wait_receipt_def split: prod.splits sum.splits)

section \<open>Creating a vault\<close>

text \<open>
  \<open>waitForReceipt\<close> polls every two seconds until the timeout. Every round advances the clock, so the
  loop ends whatever the node answers.
\<close>

function wait_loop :: "'c wallet_env \<Rightarrow> string \<Rightarrow> nat \<Rightarrow> nat \<Rightarrow> ('h, 'c) ui \<Rightarrow> ('h, 'c) ui \<times> tx_receipt option" where
  "wait_loop env h start timeout w =
     (if ui_now w < start + timeout then
        (case wl_poll env h (ui_chain w) of (ch, t, r) \<Rightarrow>
           (case r of
              Some x \<Rightarrow> (w\<lparr>ui_now := ui_now w + t, ui_chain := ch\<rparr>, Some x)
            | None \<Rightarrow> wait_loop env h start timeout (w\<lparr>ui_now := ui_now w + t + 2000, ui_chain := ch\<rparr>)))
      else (w, None))"
  by pat_completeness auto
termination by (relation "measure (\<lambda>(env, h, start, timeout, w). start + timeout - ui_now w)") auto

declare wait_loop.simps [simp del]

definition waitForReceipt :: "'c wallet_env \<Rightarrow> string \<Rightarrow> nat \<Rightarrow> ('h, 'c, tx_receipt option) hook_op" where
  "waitForReceipt env h timeout w = (case wait_loop env h (ui_now w) timeout w of (w', r) \<Rightarrow> (w', Inr r))"

lemma wait_loop_gives_up: "wait_loop env h start timeout w = (w', None) \<Longrightarrow> start + timeout \<le> ui_now w'"
proof (induction env h start timeout w rule: wait_loop.induct)
  case (1 env h start timeout w)
  show ?case
  proof (cases "ui_now w < start + timeout")
    case True
    obtain ch t r where p: "wl_poll env h (ui_chain w) = (ch, t, r)" by (cases "wl_poll env h (ui_chain w)") auto
    with True "1.prems" have "r = None" by (subst (asm) wait_loop.simps) (auto split: option.splits)
    with True p "1.prems" show ?thesis
      by (intro "1.IH" [OF True p [symmetric] refl]) (simp_all add: wait_loop.simps [of env h start timeout w])
  qed (use "1.prems" in \<open>simp add: wait_loop.simps\<close>)
qed

lemma wait_loop_keeps: "ui_asked (fst (wait_loop env h start timeout w)) = ui_asked w \<and>
    ui_hook (fst (wait_loop env h start timeout w)) = ui_hook w"
proof (induction env h start timeout w rule: wait_loop.induct)
  case (1 env h start timeout w)
  obtain ch t r where p: "wl_poll env h (ui_chain w) = (ch, t, r)" by (cases "wl_poll env h (ui_chain w)") auto
  show ?case
  proof (cases "ui_now w < start + timeout \<and> r = None")
    case True
    then show ?thesis using "1.IH" [OF _ p [symmetric] refl] p by (subst (1 2) wait_loop.simps) simp
  qed (use p in \<open>subst (1 2) wait_loop.simps, auto\<close>)
qed

datatype create_step = CIdle | Simulating | CConfirming | CWaiting | Registering | CDone | CError

record create_hook =
  ch_step :: create_step
  ch_error :: "string option"
  ch_result :: "(string \<times> string) option"

definition create_idle :: create_hook where
  "create_idle = \<lparr>ch_step = CIdle, ch_error = None, ch_result = None\<rparr>"

record create_params =
  cp_label :: "string option"
  cp_depositToken :: string
  cp_chainId :: nat

text \<open>The first log of the event; an event without its address would give the text \<open>undefined\<close>.\<close>

definition parseVaultCreatedEvent :: "string \<Rightarrow> string list list \<Rightarrow> string option" where
  "parseVaultCreatedEvent topic logs =
     (case filter (\<lambda>ts. ts \<noteq> [] \<and> hd ts = topic) logs of
        [] \<Rightarrow> None
      | ts # more_logs \<Rightarrow> Some (''0x'' @ (case tl ts of [] \<Rightarrow> ''undefined'' | x # xs \<Rightarrow> drop 26 x)))"

definition create_call :: "string \<Rightarrow> string \<Rightarrow> string \<Rightarrow> string \<Rightarrow> wallet_call" where
  "create_call factory user token salt = \<lparr>wc_address = factory, wc_function = ''createVault'',
     wc_args = [JStr user, JStr token, JStr salt], wc_gas = Some 500000\<rparr>"

definition registration :: "create_params \<Rightarrow> string \<Rightarrow> string \<Rightarrow> nat \<Rightarrow> (string \<times> jsval) list" where
  "registration p address hash block =
     [(''address'', JStr address), (''chainId'', JNum (Fin (of_nat (cp_chainId p)))), (''depositToken'', JStr (cp_depositToken p)),
      (''txHash'', JStr hash), (''createdAtBlock'', JNum (Fin (of_nat block)))] @
     (case cp_label p of None \<Rightarrow> [] | Some l \<Rightarrow> [(''label'', JStr l)])"

text \<open>\<open>registerVault\<close>: at most four requests, with 1, 2 and 4 seconds between them, and no error.\<close>

fun register_loop :: "'c wallet_env \<Rightarrow> (string \<times> jsval) list \<Rightarrow> nat \<Rightarrow> nat \<Rightarrow> nat \<Rightarrow> ('h, 'c) ui \<Rightarrow> ('h, 'c) ui" where
  "register_loop env body retries attempt 0 w = w"
| "register_loop env body retries attempt (Suc left) w =
     (case wl_post env ''/vaults'' body (ui_chain w) of (ch, r) \<Rightarrow>
        (let w1 = w\<lparr>ui_chain := ch\<rparr> in
         if (case r of Inr status \<Rightarrow> (200 \<le> status \<and> status < 300) \<or> status = 409 | Inl e \<Rightarrow> False) then w1
         else register_loop env body retries (attempt + 1) left
           (if attempt < retries then w1\<lparr>ui_now := ui_now w1 + 1000 * 2 ^ attempt\<rparr> else w1)))"

definition registerVault :: "'c wallet_env \<Rightarrow> (string \<times> jsval) list \<Rightarrow> ('h, 'c, unit) hook_op" where
  "registerVault env body w = (register_loop env body 3 0 4 w, Inr ())"

definition create_failed :: "string \<Rightarrow> (create_hook, 'c, (string \<times> string) option) hook_op" where
  "create_failed m = ibind (set_hook (\<lambda>h. h\<lparr>ch_error := Some m, ch_step := CError\<rparr>)) (\<lambda>_. iret None)"

definition create_register ::
  "'c wallet_env \<Rightarrow> create_params \<Rightarrow> string \<Rightarrow> string \<Rightarrow> nat \<Rightarrow> (create_hook, 'c, (string \<times> string) option) hook_op" where
  "create_register env p address hash block =
     ibind (set_hook (\<lambda>h. h\<lparr>ch_step := Registering\<rparr>)) (\<lambda>_.
     ibind (registerVault env (registration p address hash block)) (\<lambda>_.
     ibind (set_hook (\<lambda>h. h\<lparr>ch_result := Some (address, hash), ch_step := CDone\<rparr>)) (\<lambda>_. iret (Some (address, hash)))))"

definition create_body ::
  "'c wallet_env \<Rightarrow> string \<Rightarrow> string \<Rightarrow> string \<Rightarrow> create_params \<Rightarrow> string \<Rightarrow> (create_hook, 'c, (string \<times> string) option) hook_op" where
  "create_body env factory topic salt p user =
     ibind (set_hook (\<lambda>h. h\<lparr>ch_step := CConfirming\<rparr>)) (\<lambda>_.
     ibind (ask_wallet env (create_call factory user (cp_depositToken p) salt)) (\<lambda>hash.
     ibind (set_hook (\<lambda>h. h\<lparr>ch_step := CWaiting\<rparr>)) (\<lambda>_.
     ibind (waitForReceipt env hash 60000) (\<lambda>receipt.
       (case receipt of
          None \<Rightarrow> create_failed ''Transaction failed''
        | Some r \<Rightarrow>
            (case parseVaultCreatedEvent topic (rc_logs r) of
               None \<Rightarrow> create_failed ''Could not parse vault address from transaction''
             | Some address \<Rightarrow> create_register env p address hash (rc_blockNumber r)))))))"

definition useCreateVault ::
  "'c wallet_env \<Rightarrow> string option \<Rightarrow> string \<Rightarrow> string \<Rightarrow> create_params \<Rightarrow> string \<Rightarrow> (create_hook, 'c, (string \<times> string) option) hook_op" where
  "useCreateVault env factory topic salt p user =
     (if factory \<in> {None, Some []} then create_failed ''Factory address not configured''
      else
        ibind (set_hook (\<lambda>h. h\<lparr>ch_step := Simulating, ch_error := None\<rparr>)) (\<lambda>_.
        itry (create_body env (the factory) topic salt p user) (\<lambda>e. create_failed (message_or ''Transaction failed'' e))))"

text \<open>How a creation ends, and that it asks for at most one transaction.\<close>

lemma register_loop_keeps: "ui_asked (register_loop env body n a k w) = ui_asked w" "ui_hook (register_loop env body n a k w) = ui_hook w"
  by (induction env body n a k w rule: register_loop.induct) (auto simp: Let_def split: prod.splits sum.splits)

lemma create_failed_apply [simp]:
  "create_failed m w = (w\<lparr>ui_hook := (ui_hook w)\<lparr>ch_error := Some m, ch_step := CError\<rparr>\<rparr>, Inr None)"
  by (simp add: create_failed_def ibind_def)

lemma create_register_apply:
  "create_register env p a h b w =
     (let w1 = register_loop env (registration p a h b) 3 0 4 (w\<lparr>ui_hook := (ui_hook w)\<lparr>ch_step := Registering\<rparr>\<rparr>) in
      (w1\<lparr>ui_hook := (ui_hook w1)\<lparr>ch_result := Some (a, h), ch_step := CDone\<rparr>\<rparr>, Inr (Some (a, h))))"
  by (simp add: create_register_def ibind_def registerVault_def Let_def)

definition create_ended :: "(create_hook, 'c) ui \<Rightarrow> (string \<times> string) option \<Rightarrow> bool" where
  "create_ended w r \<longleftrightarrow> (case r of
      Some v \<Rightarrow> ch_step (ui_hook w) = CDone \<and> ch_result (ui_hook w) = Some v
    | None \<Rightarrow> ch_step (ui_hook w) = CError \<and> ch_error (ui_hook w) \<noteq> None)"

lemma create_body_ends:
  assumes "create_body env factory topic salt p user w = (w', q)"
  shows "ui_asked w' = ui_asked w @ [create_call factory user (cp_depositToken p) salt] \<and> (\<forall>r. q = Inr r \<longrightarrow> create_ended w' r)"
proof -
  define w0 where "w0 = w\<lparr>ui_hook := (ui_hook w)\<lparr>ch_step := CConfirming\<rparr>\<rparr>"
  obtain w1 a where a: "ask_wallet env (create_call factory user (cp_depositToken p) salt) w0 = (w1, a)" by fastforce
  have w1: "ui_asked w1 = ui_asked w @ [create_call factory user (cp_depositToken p) salt]"
  proof -
    have "ui_asked w0 = ui_asked w" by (simp add: w0_def)
    with ask_asked [of env "create_call factory user (cp_depositToken p) salt" w0] a show ?thesis by simp
  qed
  show ?thesis
  proof (cases a)
    case (Inl e)
    with a assms w1 show ?thesis by (auto simp: create_body_def ibind_def w0_def)
  next
    case (Inr hash)
    define w2 where "w2 = w1\<lparr>ui_hook := (ui_hook w1)\<lparr>ch_step := CWaiting\<rparr>\<rparr>"
    obtain w3 r where r: "wait_loop env hash (ui_now w2) 60000 w2 = (w3, r)" by fastforce
    have w3: "ui_asked w3 = ui_asked w1" using wait_loop_keeps [of env hash "ui_now w2" 60000 w2] r by (simp add: w2_def)
    have run: "(w', q) = (case r of None \<Rightarrow> create_failed ''Transaction failed'' | Some r \<Rightarrow>
         (case parseVaultCreatedEvent topic (rc_logs r) of
               None \<Rightarrow> create_failed ''Could not parse vault address from transaction''
             | Some address \<Rightarrow> create_register env p address hash (rc_blockNumber r))) w3"
      using assms a Inr r by (simp add: create_body_def ibind_def w0_def w2_def waitForReceipt_def split: option.splits)
    show ?thesis using run w1 w3
      by (auto simp: create_ended_def create_register_apply Let_def register_loop_keeps split: option.splits)
  qed
qed

lemma create_vault_ends:
  assumes "useCreateVault env factory topic salt p user w = (w', q)"
  shows "\<exists>r. q = Inr r \<and> create_ended w' r \<and>
    (if factory \<in> {None, Some []} then r = None \<and> ui_asked w' = ui_asked w
     else ui_asked w' = ui_asked w @ [create_call (the factory) user (cp_depositToken p) salt])"
proof (cases "factory \<in> {None, Some []}")
  case True
  with assms show ?thesis by (auto simp: useCreateVault_def create_ended_def)
next
  case False
  then obtain f where f: "factory = Some f" "f \<noteq> []" by auto
  define w0 where "w0 = w\<lparr>ui_hook := (ui_hook w)\<lparr>ch_step := Simulating, ch_error := None\<rparr>\<rparr>"
  obtain w1 b where b: "create_body env f topic salt p user w0 = (w1, b)" by fastforce
  have w0: "ui_asked w0 = ui_asked w" by (simp add: w0_def)
  from create_body_ends [OF b] have e: "ui_asked w1 = ui_asked w @ [create_call f user (cp_depositToken p) salt]"
    "\<And>r. b = Inr r \<Longrightarrow> create_ended w1 r" by (simp_all add: w0)
  from assms f b have "(w', q) = (case b of Inr r \<Rightarrow> (w1, Inr r)
      | Inl e \<Rightarrow> create_failed (message_or ''Transaction failed'' e) w1)"
    by (simp add: useCreateVault_def ibind_def w0_def [symmetric] itry_def split: sum.splits) auto
  then show ?thesis using e f by (cases b) (simp_all add: create_ended_def)
qed

text \<open>The registration is over after at most seven seconds of waiting.\<close>

lemma register_loop_wait:
  "attempt + left = retries + 1 \<Longrightarrow> ui_now (register_loop env body retries attempt left w) \<le> ui_now w + 1000 * (2 ^ retries - 2 ^ attempt)
     \<or> attempt > retries \<and> ui_now (register_loop env body retries attempt left w) = ui_now w"
proof (induction env body retries attempt left w rule: register_loop.induct)
  case (2 env body retries attempt left w)
  obtain ch r where p: "wl_post env ''/vaults'' body (ui_chain w) = (ch, r)" by fastforce
  let ?ok = "case r of Inr status \<Rightarrow> (200 \<le> status \<and> status < 300) \<or> status = 409 | Inl e \<Rightarrow> False"
  show ?case
  proof (cases ?ok)
    case False
    have g: "attempt < retries \<Longrightarrow> (2::nat) ^ attempt + (2 ^ retries - 2 ^ (attempt + 1)) \<le> 2 ^ retries - 2 ^ attempt"
    proof -
      assume "attempt < retries"
      then have "(2::nat) ^ (attempt + 1) \<le> 2 ^ retries" by (intro power_increasing) simp_all
      then show ?thesis by simp
    qed
    note ih = "2.IH" [OF p [symmetric] refl False]
    show ?thesis
    proof (cases "attempt < retries")
      case True
      let ?w = "w\<lparr>ui_chain := ch, ui_now := ui_now w + 1000 * 2 ^ attempt\<rparr>"
      have "register_loop env body retries attempt (Suc left) w = register_loop env body retries (attempt + 1) left ?w"
        using False p True by (simp add: Let_def)
      moreover have "ui_now (register_loop env body retries (attempt + 1) left ?w) \<le> ui_now ?w + 1000 * (2 ^ retries - 2 ^ (attempt + 1))"
        using ih "2.prems" True by auto
      moreover have "1000 * (2::nat) ^ attempt + 1000 * (2 ^ retries - 2 ^ (attempt + 1)) \<le> 1000 * (2 ^ retries - 2 ^ attempt)"
        using g [OF True] by simp
      ultimately show ?thesis by simp
    next
      case no: False
      then have l: "left = 0" "retries = attempt" using "2.prems" by simp_all
      from no False p show ?thesis by (simp add: Let_def l)
    qed
  qed (use p in \<open>simp add: Let_def\<close>)
qed simp

lemma registration_waits: "ui_now (register_loop env body 3 0 4 w) \<le> ui_now w + 7000"
  using register_loop_wait [of 0 4 3 env body w] by simp

text \<open>A created vault is reported as created whatever the backend answers to its registration: with the
  receipt there and the event in it, the hook is done without an error, also when all four requests
  were refused.\<close>

theorem unregistered_vault_is_done:
  assumes "factory = Some f" "f \<noteq> []"
    and "wl_write env (create_call f user (cp_depositToken p) salt) (ui_chain w) = (ch, Inr hash)"
    and "wl_poll env hash ch = (ch', t, Some r)"
    and "parseVaultCreatedEvent topic (rc_logs r) = Some address"
  shows "\<exists>w'. useCreateVault env factory topic salt p user w = (w', Inr (Some (address, hash))) \<and>
    ch_step (ui_hook w') = CDone \<and> ch_error (ui_hook w') = None \<and> ui_now w' \<le> ui_now w + t + 7000"
proof -
  define w3 where "w3 = w\<lparr>ui_asked := ui_asked w @ [create_call f user (cp_depositToken p) salt], ui_now := ui_now w + t,
     ui_chain := ch', ui_hook := (ui_hook w)\<lparr>ch_error := None, ch_step := Registering\<rparr>\<rparr>"
  define w4 where "w4 = register_loop env (registration p address hash (rc_blockNumber r)) 3 0 4 w3"
  have "useCreateVault env factory topic salt p user w =
     (w4\<lparr>ui_hook := (ui_hook w4)\<lparr>ch_result := Some (address, hash), ch_step := CDone\<rparr>\<rparr>, Inr (Some (address, hash)))"
    using assms
    by (simp add: useCreateVault_def create_body_def ibind_def itry_def ask_wallet_def waitForReceipt_def
        wait_loop.simps create_register_apply w3_def [symmetric] w4_def [symmetric] Let_def)
  moreover have "ui_hook w4 = ui_hook w3" by (simp add: w4_def register_loop_keeps)
  moreover have "ui_now w4 \<le> ui_now w3 + 7000" unfolding w4_def by (rule registration_waits)
  ultimately show ?thesis by (simp add: w3_def)
qed

definition refusing_backend :: "nat wallet_env" where
  "refusing_backend = demo_wallet\<lparr>wl_poll := (\<lambda>h n. (n, 5, Some \<lparr>rc_success = True,
     rc_logs = [[''0xT'', ''0x000000000000000000000000aB'']], rc_blockNumber = 7\<rparr>))\<rparr>"

theorem unregistered_vault_is_done_witness:
  "\<exists>w'. useCreateVault refusing_backend (Some ''0xF'') ''0xT'' ''0x5'' \<lparr>cp_label = None, cp_depositToken = ''0xD'', cp_chainId = 56\<rparr> ''0xU''
      (fresh_ui create_idle 0) = (w', Inr (Some (''0xaB'', ''0''))) \<and> ch_step (ui_hook w') = CDone \<and>
      ch_error (ui_hook w') = None \<and> ui_now w' \<le> 7005"
proof -
  let ?p = "\<lparr>cp_label = None, cp_depositToken = ''0xD'', cp_chainId = 56\<rparr>" and ?w = "fresh_ui create_idle (0::nat)"
  let ?r = "\<lparr>rc_success = True, rc_logs = [[''0xT'', ''0x000000000000000000000000aB'']], rc_blockNumber = 7\<rparr>"
  have z: "show_nat 0 = ''0''" by code_simp
  have w: "wl_write refusing_backend (create_call ''0xF'' ''0xU'' (cp_depositToken ?p) ''0x5'') (ui_chain ?w) = (1, Inr ''0'')"
    by (simp add: refusing_backend_def demo_wallet_def fresh_ui_def z)
  have r: "wl_poll refusing_backend ''0'' 1 = (1, 5, Some ?r)" by (simp add: refusing_backend_def demo_wallet_def)
  have v: "parseVaultCreatedEvent ''0xT'' (rc_logs ?r) = Some ''0xaB''" by (simp add: parseVaultCreatedEvent_def)
  have "''0xF'' \<noteq> []" by simp
  from unregistered_vault_is_done [OF refl this w r v] show ?thesis by (simp add: fresh_ui_def)
qed

section \<open>The forms\<close>

record token_option =
  tk_address :: string
  tk_symbol :: string
  tk_decimals :: nat

record money_form =
  mf_token :: "token_option option"
  mf_amount :: string

text \<open>Choosing a token clears the amount.\<close>

definition choose_token :: "token_option list \<Rightarrow> string \<Rightarrow> money_form" where
  "choose_token tokens address = \<lparr>mf_token = find (\<lambda>t. tk_address t = address) tokens, mf_amount = []\<rparr>"

text \<open>Arithmetic on numbers as far as the previews need it; a factor is finite and not negative.\<close>

fun num_scale :: "jsnum \<Rightarrow> rat \<Rightarrow> jsnum" where
  "num_scale (Fin q) c = num_fin (q * c)"
| "num_scale NaN c = NaN"
| "num_scale PInf c = (if c = 0 then NaN else PInf)"
| "num_scale NInf c = (if c = 0 then NaN else NInf)"

fun num_minus :: "jsnum \<Rightarrow> jsnum \<Rightarrow> jsnum" where
  "num_minus (Fin a) (Fin b) = num_fin (a - b)"
| "num_minus NaN y = NaN"
| "num_minus x NaN = NaN"
| "num_minus PInf y = (if y = PInf then NaN else PInf)"
| "num_minus NInf y = (if y = NInf then NaN else NInf)"
| "num_minus (Fin a) PInf = NInf"
| "num_minus (Fin a) NInf = PInf"

text \<open>\<open>BigInt(Math.floor(x))\<close>, which throws on a number that is not finite.\<close>

fun floor_bigint :: "jsnum \<Rightarrow> int option" where
  "floor_bigint (Fin q) = Some \<lfloor>q\<rfloor>"
| "floor_bigint n = None"

definition parsedAmount :: "money_form \<Rightarrow> jsnum" where
  "parsedAmount f = (case mf_token f of
      Some t \<Rightarrow> if mf_amount f \<noteq> [] then num_scale (parse_float (mf_amount f)) (10 ^ tk_decimals t) else Fin 0
    | None \<Rightarrow> Fin 0)"

definition feeAmount :: "nat option \<Rightarrow> money_form \<Rightarrow> jsnum" where
  "feeAmount bps f = (case bps of
      Some b \<Rightarrow> if num_less (Fin 0) (parsedAmount f) then num_scale (num_scale (parsedAmount f) (of_nat b)) (1 / 10000) else Fin 0
    | None \<Rightarrow> Fin 0)"

text \<open>What the form shows under the amount: nothing, a net amount and a fee, or a render that throws.\<close>

datatype preview = NoPreview | Preview int int | RenderThrows

definition preview_of :: "jsnum \<Rightarrow> jsnum \<Rightarrow> preview" where
  "preview_of net fee = (case (floor_bigint net, floor_bigint fee) of (Some n, Some f) \<Rightarrow> Preview n f | _ \<Rightarrow> RenderThrows)"

definition withdrawPreview :: "nat option \<Rightarrow> money_form \<Rightarrow> preview" where
  "withdrawPreview bps f =
     (if mf_token f \<noteq> None \<and> mf_amount f \<noteq> [] \<and> num_less (Fin 0) (parse_float (mf_amount f))
      then preview_of (num_minus (parsedAmount f) (feeAmount bps f)) (feeAmount bps f) else NoPreview)"

definition depositPreview :: "nat option \<Rightarrow> money_form \<Rightarrow> preview" where
  "depositPreview bps f =
     (if mf_token f \<noteq> None \<and> bps \<noteq> None \<and> mf_amount f \<noteq> [] \<and> num_less (Fin 0) (parse_float (mf_amount f))
      then preview_of (Fin 0) (feeAmount bps f) else NoPreview)"

text \<open>The fee the vault takes and what it pays out (\<open>deposit\<close> and \<open>withdraw\<close> of the vault contract).\<close>

definition vault_fee :: "nat \<Rightarrow> nat \<Rightarrow> nat" where
  "vault_fee amount bps = amount * bps div 10000"

lemma floor_share: "\<lfloor>of_nat n * of_nat b * (1 / 10000) :: rat\<rfloor> = int (n * b div 10000)"
  using floor_divide_of_nat_eq [of "n * b" 10000, where 'a = rat] by simp

lemma floor_rest:
  assumes "b \<le> 10000"
  shows "\<lfloor>of_nat n - of_nat n * of_nat b * (1 / 10000) :: rat\<rfloor> =
    int (n - n * b div 10000) - (if n * b mod 10000 = 0 then 0 else 1)"
proof -
  let ?q = "n * b div 10000" and ?r = "n * b mod 10000"
  have e: "of_nat n * of_nat b * (1 / 10000) = (of_nat ?q :: rat) + of_nat ?r / 10000"
  proof -
    have "(of_nat n * of_nat b :: rat) = of_nat (10000 * ?q + ?r)" by (simp only: mult_div_mod_eq of_nat_mult)
    also have "\<dots> = 10000 * of_nat ?q + of_nat ?r" by (simp only: of_nat_add of_nat_mult of_nat_numeral)
    finally show ?thesis by simp
  qed
  have le: "?q \<le> n"
  proof -
    have "n * b \<le> n * 10000" using assms by simp
    then have "?q \<le> n * 10000 div 10000" by (rule div_le_mono)
    then show ?thesis by simp
  qed
  have r: "(0::rat) \<le> of_nat ?r" "(of_nat ?r :: rat) < 10000" by simp_all
  define x where "x = (of_nat ?r / 10000 :: rat)"
  define k where "k = int (n - ?q)"
  have x: "0 \<le> x" "x < 1" "x = 0 \<longleftrightarrow> ?r = 0" using r by (simp_all add: x_def)
  have "(of_nat n - of_nat ?q :: rat) = of_int k" using le by (simp add: of_nat_diff k_def)
  then have v: "of_nat n - of_nat n * of_nat b * (1 / 10000) = of_int k - x" unfolding e x_def [symmetric] by linarith
  have "\<lfloor>of_int k - x\<rfloor> = k - (if x = 0 then 0 else 1)" using x(1,2) by (intro floor_unique) auto
  then show ?thesis unfolding v k_def x(3) .
qed



text \<open>An amount that is too large for a number makes the form throw while it renders.\<close>

lemma infinite_amount_throws:
  assumes "mf_token f = Some t" "mf_amount f \<noteq> []" "parse_float (mf_amount f) = PInf"
  shows "withdrawPreview bps f = RenderThrows" "depositPreview (Some b) f = RenderThrows"
proof -
  have p: "parsedAmount f = PInf" using assms by (simp add: parsedAmount_def)
  have a: "feeAmount (Some b) f \<in> {NaN, PInf}" for b by (simp add: feeAmount_def p)
  have "feeAmount None f = Fin 0" by (simp add: feeAmount_def)
  with a have "feeAmount bps f \<in> {NaN, PInf, Fin 0}" by (cases bps) auto
  then show "withdrawPreview bps f = RenderThrows"
    using assms p by (auto simp: withdrawPreview_def preview_of_def)
  from a [of b] show "depositPreview (Some b) f = RenderThrows"
    using assms by (auto simp: depositPreview_def preview_of_def)
qed

lemma infinite_amount: "parse_float ''Infinity'' = PInf"
  by code_simp

text \<open>The buttons and their handlers. \<open>parseUnits\<close> is viem's, and throws outside the handlers' \<open>try\<close>.\<close>

type_synonym parse_units = "string \<Rightarrow> nat \<Rightarrow> thrown + int"

definition deposit_loading :: "deposit_hook \<Rightarrow> bool" where
  "deposit_loading h \<longleftrightarrow> dh_step h \<in> {Checking, Approving, Depositing}"

definition withdraw_loading :: "withdraw_hook \<Rightarrow> bool" where
  "withdraw_loading h \<longleftrightarrow> wh_step h \<in> {WConfirming, WWaiting}"

definition deposit_enabled :: "money_form \<Rightarrow> deposit_hook \<Rightarrow> bool" where
  "deposit_enabled f h \<longleftrightarrow> mf_token f \<noteq> None \<and> mf_amount f \<noteq> [] \<and> \<not> deposit_loading h"

definition withdraw_enabled :: "money_form \<Rightarrow> withdraw_hook \<Rightarrow> bool" where
  "withdraw_enabled f h \<longleftrightarrow> mf_token f \<noteq> None \<and> mf_amount f \<noteq> [] \<and> \<not> withdraw_loading h"

definition handleDeposit ::
  "'c wallet_env \<Rightarrow> parse_units \<Rightarrow> string \<Rightarrow> string option \<Rightarrow> int option \<Rightarrow> money_form \<Rightarrow> (deposit_hook, 'c, bool) hook_op" where
  "handleDeposit env parseUnits vault user allowance f =
     (case (mf_token f, user) of
        (Some t, Some u) \<Rightarrow>
          if mf_amount f = [] then iret False
          else ibind (ilift (parseUnits (mf_amount f) (tk_decimals t))) (\<lambda>amount.
            approveAndDeposit env \<lparr>dp_vaultAddress = vault, dp_tokenAddress = tk_address t, dp_amount = amount,
              dp_currentAllowance = or_else allowance 0\<rparr>)
      | _ \<Rightarrow> iret False)"

definition handleWithdraw ::
  "'c wallet_env \<Rightarrow> parse_units \<Rightarrow> string \<Rightarrow> string option \<Rightarrow> money_form \<Rightarrow> (withdraw_hook, 'c, bool) hook_op" where
  "handleWithdraw env parseUnits vault user f =
     (case (mf_token f, user) of
        (Some t, Some u) \<Rightarrow>
          if mf_amount f = [] then iret False
          else ibind (ilift (parseUnits (mf_amount f) (tk_decimals t))) (\<lambda>amount. useWithdraw env vault (tk_address t) amount u)
      | _ \<Rightarrow> iret False)"

text \<open>A withdrawal goes to the connected user: whatever is entered, the form asks the wallet for at most one
  call, which is the withdrawal of the chosen token and the parsed amount from this vault to the user.\<close>

theorem withdraw_form_pays_the_user:
  "ui_asked (fst (handleWithdraw env parseUnits vault user f w)) = ui_asked w @
     (case (mf_token f, user) of
        (Some t, Some u) \<Rightarrow> (case parseUnits (mf_amount f) (tk_decimals t) of
            Inr amount \<Rightarrow> if mf_amount f = [] then [] else [withdraw_call vault (tk_address t) amount u]
          | Inl e \<Rightarrow> [])
      | _ \<Rightarrow> [])"
proof (cases "mf_token f = None \<or> user = None \<or> mf_amount f = []")
  case True
  then show ?thesis by (auto simp: handleWithdraw_def split: option.splits sum.splits)
next
  case False
  then obtain t u where tu: "mf_token f = Some t" "user = Some u" "mf_amount f \<noteq> []" by auto
  show ?thesis
  proof (cases "parseUnits (mf_amount f) (tk_decimals t)")
    case (Inl e)
    with tu show ?thesis by (simp add: handleWithdraw_def ibind_def)
  next
    case (Inr amount)
    with tu show ?thesis using withdraw_asks_once [of env vault "tk_address t" amount u w] by (simp add: handleWithdraw_def)
  qed
qed

text \<open>An amount that does not parse: the handler throws and nothing is shown.\<close>

lemma unparsable_amount_is_silent:
  assumes "mf_token f = Some t" "user = Some u" "mf_amount f \<noteq> []" "parseUnits (mf_amount f) (tk_decimals t) = Inl e"
  shows "handleDeposit env parseUnits vault user allowance f w = (w, Inl e)"
    and "handleWithdraw env parseUnits vault user f w' = (w', Inl e)"
  using assms by (simp_all add: handleDeposit_def handleWithdraw_def ibind_def)

text \<open>While a deposit waits for its receipt the button is enabled, and a second click asks for a second
  deposit; a withdrawal in the same state has its button disabled.\<close>

theorem second_click_deposits_again:
  assumes "mf_token f = Some t" "mf_amount f \<noteq> []" "parseUnits (mf_amount f) (tk_decimals t) = Inr amount"
    and "dh_step (ui_hook w) = DConfirming" "amount \<le> allowance"
  shows "deposit_enabled f (ui_hook w) \<and>
    (\<exists>w' r. handleDeposit env parseUnits vault (Some u) (Some allowance) f w = (w', Inr r) \<and>
       (r \<longrightarrow> (\<exists>c. ui_asked w' = ui_asked w @ [c] \<and> wc_function c = ''deposit'' \<and> wc_args c = [JStr (tk_address t), JBig amount])) ) \<and>
    (\<forall>h. wh_step h = WWaiting \<longrightarrow> \<not> withdraw_enabled f h)"
proof -
  let ?p = "\<lparr>dp_vaultAddress = vault, dp_tokenAddress = tk_address t, dp_amount = amount, dp_currentAllowance = allowance\<rparr>"
  have run: "handleDeposit env parseUnits vault (Some u) (Some allowance) f w = approveAndDeposit env ?p w"
    using assms by (simp add: handleDeposit_def)
  obtain w' q where q: "approveAndDeposit env ?p w = (w', q)" by fastforce
  from deposit_asks(3) [OF q] obtain r where r: "q = Inr r" by blast
  have plan: "deposit_plan ?p = [deposit_call ?p]" using assms(5) by (simp add: deposit_plan_def needsApproval_def needsResetToZero_def)
  have "r \<Longrightarrow> ui_asked w' = ui_asked w @ [deposit_call ?p]" using deposit_asks(2) [OF q] r plan by simp
  then show ?thesis using assms(1,2,4) run q r
    by (auto simp: deposit_enabled_def deposit_loading_def withdraw_enabled_def withdraw_loading_def deposit_call_def)
qed

definition confirming_ui :: "(deposit_hook, nat) ui" where
  "confirming_ui = fresh_ui (deposit_idle\<lparr>dh_step := DConfirming\<rparr>) 0"

theorem second_click_deposits_again_witness:
  "deposit_enabled \<lparr>mf_token = Some \<lparr>tk_address = ''0xA'', tk_symbol = ''A'', tk_decimals = 0\<rparr>, mf_amount = ''7''\<rparr> (ui_hook confirming_ui)"
  using second_click_deposits_again [of "\<lparr>mf_token = Some \<lparr>tk_address = ''0xA'', tk_symbol = ''A'', tk_decimals = 0\<rparr>, mf_amount = ''7''\<rparr>"
      "\<lparr>tk_address = ''0xA'', tk_symbol = ''A'', tk_decimals = 0\<rparr>" "\<lambda>s d. Inr 7" 7 confirming_ui 9]
  by (simp add: confirming_ui_def fresh_ui_def)

section \<open>The gas reserve\<close>

record gas_automation =
  au_ownerOnly :: bool
  au_active :: "bool option"
  au_isDraft :: bool

definition shouldWarnGasDeposit :: "int \<Rightarrow> int \<Rightarrow> gas_automation list \<Rightarrow> bool" where
  "shouldWarnGasDeposit deposited minFeeDeposit automations \<longleftrightarrow>
     list_ex (\<lambda>a. \<not> au_ownerOnly a \<and> au_active a = Some True \<and> \<not> au_isDraft a) automations \<and>
     (deposited = 0 \<or> deposited < minFeeDeposit)"

record gas_view =
  gv_enabled :: bool
  gv_token :: "token_option option"
  gv_deposited :: int
  gv_minFeeDeposit :: int

record gas_card =
  gc_data :: "gas_view option"
  gc_automations :: "gas_automation list"
  gc_loading :: bool
  gc_error :: "string option"
  gc_amount :: string
  gc_depositing :: bool
  gc_depositError :: "string option"
  gc_minInput :: string
  gc_settingMin :: bool
  gc_setMinError :: "string option"

text \<open>
  \<open>fetchData\<close>; its parameter answers both requests: the reserve (\<open>None\<close> when it cannot be read) and the
  automations (\<open>None\<close> when the answer is not ok).
\<close>

type_synonym 'c gas_reads = "'c \<Rightarrow> gas_view option \<times> gas_automation list option"

definition fetchData :: "'c gas_reads \<Rightarrow> (gas_card, 'c, unit) hook_op" where
  "fetchData reads w =
     (case reads (ui_chain w) of (d, a) \<Rightarrow>
        set_hook (\<lambda>h. (case d of
            None \<Rightarrow> h\<lparr>gc_error := Some ''Failed to load gas deposit'', gc_loading := False\<rparr>
          | Some v \<Rightarrow> h\<lparr>gc_error := None, gc_data := Some v, gc_automations := or_else a [], gc_loading := False\<rparr>)) w)"

definition gas_call :: "string \<Rightarrow> string \<Rightarrow> jsval list \<Rightarrow> nat \<Rightarrow> wallet_call" where
  "gas_call vault fn args gas = \<lparr>wc_address = vault, wc_function = fn, wc_args = args, wc_gas = Some gas\<rparr>"

definition send_and_wait :: "'c wallet_env \<Rightarrow> wallet_call \<Rightarrow> (gas_card, 'c, tx_receipt) hook_op" where
  "send_and_wait env c = ibind (ask_wallet env c) (wait_receipt env)"

definition gas_handleDeposit :: "'c wallet_env \<Rightarrow> 'c gas_reads \<Rightarrow> parse_units \<Rightarrow> string \<Rightarrow> (gas_card, 'c, unit) hook_op" where
  "gas_handleDeposit env reads parseUnits vault w =
     (case Option.bind (gc_data (ui_hook w)) gv_token of
        None \<Rightarrow> (w, Inr ())
      | Some t \<Rightarrow>
          if gc_amount (ui_hook w) = [] then (w, Inr ())
          else
            ibind (set_hook (\<lambda>h. h\<lparr>gc_depositError := None, gc_depositing := True\<rparr>)) (\<lambda>_.
            ibind (itry
              (ibind (ilift (parseUnits (gc_amount (ui_hook w)) (tk_decimals t))) (\<lambda>v.
               ibind (send_and_wait env (gas_call vault ''depositFees'' [JStr (tk_address t), JBig v] 300000)) (\<lambda>_.
               ibind (set_hook (\<lambda>h. h\<lparr>gc_amount := []\<rparr>)) (\<lambda>_. fetchData reads))))
              (\<lambda>e. set_hook (\<lambda>h. h\<lparr>gc_depositError := Some (message_or ''Deposit failed'' e)\<rparr>))) (\<lambda>_.
            set_hook (\<lambda>h. h\<lparr>gc_depositing := False\<rparr>))) w)"

definition gas_handleSetMin :: "'c wallet_env \<Rightarrow> 'c gas_reads \<Rightarrow> parse_units \<Rightarrow> string \<Rightarrow> (gas_card, 'c, unit) hook_op" where
  "gas_handleSetMin env reads parseUnits vault w =
     (case Option.bind (gc_data (ui_hook w)) gv_token of
        None \<Rightarrow> (w, Inr ())
      | Some t \<Rightarrow>
          if gc_minInput (ui_hook w) = [] then (w, Inr ())
          else
            ibind (set_hook (\<lambda>h. h\<lparr>gc_setMinError := None, gc_settingMin := True\<rparr>)) (\<lambda>_.
            ibind (itry
              (ibind (ilift (parseUnits (gc_minInput (ui_hook w)) (tk_decimals t))) (\<lambda>v.
               ibind (send_and_wait env (gas_call vault ''setMinFeeDeposit'' [JBig v] 100000)) (\<lambda>_.
               ibind (set_hook (\<lambda>h. h\<lparr>gc_minInput := []\<rparr>)) (\<lambda>_. fetchData reads))))
              (\<lambda>e. set_hook (\<lambda>h. h\<lparr>gc_setMinError := Some (message_or ''Failed to set minimum'' e)\<rparr>))) (\<lambda>_.
            set_hook (\<lambda>h. h\<lparr>gc_settingMin := False\<rparr>))) w)"

definition gas_deposit_enabled :: "gas_card \<Rightarrow> bool" where
  "gas_deposit_enabled h \<longleftrightarrow> \<not> gc_depositing h \<and> gc_amount h \<noteq> [] \<and> \<not> num_le (num_of_string (gc_amount h)) (Fin 0)"

definition gas_min_enabled :: "gas_card \<Rightarrow> bool" where
  "gas_min_enabled h \<longleftrightarrow> \<not> gc_settingMin h \<and> gc_minInput h \<noteq> [] \<and> num_of_string (gc_minInput h) \<noteq> NaN \<and>
     \<not> num_less (num_of_string (gc_minInput h)) (Fin 0)"

definition gas_warning :: "gas_card \<Rightarrow> bool" where
  "gas_warning h \<longleftrightarrow> (case gc_data h of
      Some v \<Rightarrow> gv_enabled v \<and> shouldWarnGasDeposit (gv_deposited v) (gv_minFeeDeposit v) (gc_automations h)
    | None \<Rightarrow> False)"

text \<open>Both handlers always release their button, and after a success the card shows what was read again.\<close>

lemma fetchData_keeps: "gc_depositing (ui_hook (fst (fetchData reads w))) = gc_depositing (ui_hook w)"
  "gc_depositError (ui_hook (fst (fetchData reads w))) = gc_depositError (ui_hook w)"
  by (simp_all add: fetchData_def split: prod.splits option.splits)

lemma gas_deposit_releases:
  assumes "\<not> gc_depositing (ui_hook w)"
  shows "\<exists>w'. gas_handleDeposit env reads parseUnits vault w = (w', Inr ()) \<and> \<not> gc_depositing (ui_hook w')"
proof -
  have throws: "\<exists>w'. itry m (\<lambda>e. set_hook (g e)) w0 = (w', Inr ())" for m :: "(gas_card, 'a, unit) hook_op" and g w0
    by (cases "m w0") (simp add: itry_def split: sum.splits)
  have fin: "\<exists>w'. ibind (itry m (\<lambda>e. set_hook (g e))) (\<lambda>_. set_hook (\<lambda>h. h\<lparr>gc_depositing := False\<rparr>)) w0 = (w', Inr ())
      \<and> \<not> gc_depositing (ui_hook w')" for m :: "(gas_card, 'a, unit) hook_op" and g w0
  proof -
    from throws [of m g w0] obtain w1 where "itry m (\<lambda>e. set_hook (g e)) w0 = (w1, Inr ())" ..
    then show ?thesis by simp
  qed
  from assms show ?thesis
    unfolding gas_handleDeposit_def by (auto simp: ibind_def [of "set_hook _"] intro: fin split: option.splits)
qed

end
