(* ===== verification/Wizard.thy ===== *)
theory Wizard
  imports Wallet
begin

text \<open>
  The page that creates a vault (pages/vault/create.tsx): its steps, the controls that each shows, and the
  two asynchronous handlers, whose beginnings and ends are events of their own because the user may use
  the page while they run. A handler keeps the values of the render it was started from. Lemmas: an
  invariant of all reachable states, at most one vault per visit, and where its deposit goes.
\<close>

section \<open>State and events\<close>

datatype wizard_page = LabelPage | TokenPage | FeesPage | CreatePage | DepositPage | DonePage

text \<open>
  \<open>wz_creating\<close> holds what a running \<open>handleCreate\<close> was started with: the parameters of the vault and
  whether a deposit was wanted, and of how much. \<open>wz_deposits\<close> counts the running deposits; \<open>wz_created\<close> keeps
  the parameters of the vault that was created, as a record of the run.
\<close>

record wizard =
  wz_page :: wizard_page
  wz_label :: string
  wz_token :: "token_option option"
  wz_wantDeposit :: bool
  wz_depositAmount :: string
  wz_create :: create_hook
  wz_deposit :: deposit_hook
  wz_creating :: "(create_params \<times> bool \<times> string) option"
  wz_created :: "create_params option"
  wz_deposits :: nat

definition initial_wizard :: wizard where
  "initial_wizard = \<lparr>wz_page = LabelPage, wz_label = [], wz_token = None, wz_wantDeposit = False, wz_depositAmount = [],
     wz_create = create_idle, wz_deposit = deposit_idle, wz_creating = None, wz_created = None, wz_deposits = 0\<rparr>"

datatype wizard_event =
    SetLabel string
  | ToToken
  | SelectToken token_option
  | BackToLabel
  | ToCreate
  | BackToToken
  | SetWantDeposit bool
  | SetDepositAmount string
  | BackToFees
  | StartCreate nat
  | CreateProgress create_step
  | EndCreate create_hook "(string \<times> string) option"
  | StartDeposit
  | DepositProgress deposit_hook
  | EndDeposit bool
  | SkipDeposit

definition create_loading :: "create_hook \<Rightarrow> bool" where
  "create_loading h \<longleftrightarrow> ch_step h \<in> {Simulating, CConfirming, CWaiting, Registering}"

definition create_params_of :: "nat \<Rightarrow> wizard \<Rightarrow> token_option \<Rightarrow> create_params" where
  "create_params_of chain w t =
     \<lparr>cp_label = (let l = js_trim (wz_label w) in if l = [] then None else Some l), cp_depositToken = tk_address t, cp_chainId = chain\<rparr>"

text \<open>\<open>handleCreate\<close> up to the call of the hook; without a token it returns.\<close>

definition start_create :: "nat \<Rightarrow> wizard \<Rightarrow> wizard" where
  "start_create chain w = (case wz_token w of
      None \<Rightarrow> w
    | Some t \<Rightarrow> w\<lparr>wz_create := (wz_create w)\<lparr>ch_step := Simulating, ch_error := None\<rparr>,
        wz_creating := Some (create_params_of chain w t, wz_wantDeposit w, wz_depositAmount w)\<rparr>)"

text \<open>How the hook may have ended (theory \<open>Wallet\<close>), and what \<open>handleCreate\<close> does then.\<close>

definition hook_ended :: "create_hook \<Rightarrow> create_hook \<Rightarrow> (string \<times> string) option \<Rightarrow> bool" where
  "hook_ended h0 h r \<longleftrightarrow> (case r of
      Some v \<Rightarrow> ch_step h = CDone \<and> ch_result h = Some v
    | None \<Rightarrow> ch_step h = CError \<and> ch_error h \<noteq> None \<and> ch_result h = ch_result h0)"

definition end_create :: "create_hook \<Rightarrow> (string \<times> string) option \<Rightarrow> create_params \<times> bool \<times> string \<Rightarrow> wizard \<Rightarrow> wizard" where
  "end_create h r c w = (case c of (p, want, amount) \<Rightarrow>
     (let w1 = w\<lparr>wz_create := h, wz_creating := None\<rparr> in
      case r of
        None \<Rightarrow> w1
      | Some v \<Rightarrow> w1\<lparr>wz_page := if want \<and> amount \<noteq> [] then DepositPage else DonePage, wz_created := Some p\<rparr>))"

text \<open>A step of the page; \<open>None\<close> when the control is not there or is disabled.\<close>

fun wizard_step :: "wizard_event \<Rightarrow> wizard \<Rightarrow> wizard option" where
  "wizard_step (SetLabel s) w = (if wz_page w = LabelPage then Some (w\<lparr>wz_label := s\<rparr>) else None)"
| "wizard_step ToToken w = (if wz_page w = LabelPage then Some (w\<lparr>wz_page := TokenPage\<rparr>) else None)"
| "wizard_step (SelectToken t) w =
     (if wz_page w = TokenPage then Some (w\<lparr>wz_token := Some t, wz_page := FeesPage\<rparr>) else None)"
| "wizard_step BackToLabel w = (if wz_page w = TokenPage then Some (w\<lparr>wz_page := LabelPage\<rparr>) else None)"
| "wizard_step ToCreate w = (if wz_page w = FeesPage then Some (w\<lparr>wz_page := CreatePage\<rparr>) else None)"
| "wizard_step BackToToken w = (if wz_page w = FeesPage then Some (w\<lparr>wz_page := TokenPage\<rparr>) else None)"
| "wizard_step (SetWantDeposit b) w = (if wz_page w = CreatePage then Some (w\<lparr>wz_wantDeposit := b\<rparr>) else None)"
| "wizard_step (SetDepositAmount s) w =
     (if wz_page w = CreatePage \<and> wz_wantDeposit w then Some (w\<lparr>wz_depositAmount := s\<rparr>) else None)"
| "wizard_step BackToFees w =
     (if wz_page w = CreatePage \<and> \<not> create_loading (wz_create w) then Some (w\<lparr>wz_page := FeesPage\<rparr>) else None)"
| "wizard_step (StartCreate chain) w =
     (if wz_page w = CreatePage \<and> \<not> create_loading (wz_create w) then Some (start_create chain w) else None)"
| "wizard_step (CreateProgress s) w =
     (if wz_creating w \<noteq> None \<and> s \<in> {CConfirming, CWaiting, Registering}
      then Some (w\<lparr>wz_create := (wz_create w)\<lparr>ch_step := s\<rparr>\<rparr>) else None)"
| "wizard_step (EndCreate h r) w =
     (case wz_creating w of
        Some c \<Rightarrow> if hook_ended (wz_create w) h r then Some (end_create h r c w) else None
      | None \<Rightarrow> None)"
| "wizard_step StartDeposit w =
     (if wz_page w = DepositPage \<and> \<not> deposit_loading (wz_deposit w) \<and> dh_step (wz_deposit w) \<noteq> DDone \<and>
         ch_result (wz_create w) \<noteq> None \<and> wz_token w \<noteq> None
      then Some (w\<lparr>wz_deposit := (wz_deposit w)\<lparr>dh_error := None, dh_step := Checking\<rparr>, wz_deposits := wz_deposits w + 1\<rparr>) else None)"
| "wizard_step (DepositProgress h) w = (if 0 < wz_deposits w then Some (w\<lparr>wz_deposit := h\<rparr>) else None)"
| "wizard_step (EndDeposit finished) w =
     (if 0 < wz_deposits w
      then Some (w\<lparr>wz_deposits := wz_deposits w - 1, wz_page := if finished then DonePage else wz_page w\<rparr>) else None)"
| "wizard_step SkipDeposit w =
     (if wz_page w = DepositPage \<and> \<not> deposit_loading (wz_deposit w) then Some (w\<lparr>wz_page := DonePage\<rparr>) else None)"

text \<open>The deposit that \<open>handleDeposit\<close> of the page makes.\<close>

definition wizard_deposit :: "int \<Rightarrow> int option \<Rightarrow> wizard \<Rightarrow> deposit_params option" where
  "wizard_deposit amount allowance w = (case (ch_result (wz_create w), wz_token w) of
      (Some (vault, hash), Some t) \<Rightarrow> Some \<lparr>dp_vaultAddress = vault, dp_tokenAddress = tk_address t, dp_amount = amount,
        dp_currentAllowance = or_else allowance 0\<rparr>
    | _ \<Rightarrow> None)"

inductive wizard_reaches :: "wizard \<Rightarrow> wizard_event list \<Rightarrow> wizard \<Rightarrow> bool" where
  start: "wizard_reaches w [] w"
| event: "wizard_reaches w es w1 \<Longrightarrow> wizard_step e w1 = Some w2 \<Longrightarrow> wizard_reaches w (es @ [e]) w2"

text \<open>A hook that has ended the way \<open>useCreateVault\<close> ends is one that the page expects.\<close>

lemma create_keeps_result:
  assumes "create_body env f topic salt p user w = (w', q)" "\<forall>v. q \<noteq> Inr (Some v)"
  shows "ch_result (ui_hook w') = ch_result (ui_hook w)"
proof -
  obtain w1 a where a: "ask_wallet env (create_call f user (cp_depositToken p) salt) (w\<lparr>ui_hook := (ui_hook w)\<lparr>ch_step := CConfirming\<rparr>\<rparr>) = (w1, a)"
    by fastforce
  have h1: "ch_result (ui_hook w1) = ch_result (ui_hook w)"
    using ask_hook [of env _ "w\<lparr>ui_hook := (ui_hook w)\<lparr>ch_step := CConfirming\<rparr>\<rparr>"] a by (metis create_hook.select_convs(3) create_hook.surjective create_hook.update_convs(1) fst_conv ui.select_convs(1) ui.surjective ui.update_convs(1))
  show ?thesis
  proof (cases a)
    case (Inl e)
    with a assms h1 show ?thesis by (auto simp: create_body_def ibind_def)
  next
    case (Inr hash)
    define w2 where "w2 = w1\<lparr>ui_hook := (ui_hook w1)\<lparr>ch_step := CWaiting\<rparr>\<rparr>"
    obtain w3 r where r: "wait_loop env hash (ui_now w2) 60000 w2 = (w3, r)" by fastforce
    have "ui_hook w3 = ui_hook w2" using wait_loop_keeps [of env hash "ui_now w2" 60000 w2] r by simp
    then have h3: "ch_result (ui_hook w3) = ch_result (ui_hook w)" using h1 by (simp add: w2_def)
    have "(w', q) = (case r of None \<Rightarrow> create_failed ''Transaction failed'' | Some r \<Rightarrow>
         (case parseVaultCreatedEvent topic (rc_logs r) of
               None \<Rightarrow> create_failed ''Could not parse vault address from transaction''
             | Some address \<Rightarrow> create_register env p address hash (rc_blockNumber r))) w3"
      using assms a Inr r by (simp add: create_body_def ibind_def w2_def waitForReceipt_def split: option.splits)
    then show ?thesis using h3 assms(2)
      by (auto simp: create_register_apply Let_def split: option.splits)
  qed
qed

lemma hook_ends_as_expected:
  assumes "useCreateVault env factory topic salt p user w = (w', Inr r)"
  shows "hook_ended (ui_hook w) (ui_hook w') r"
proof (cases "\<exists>v. r = Some v")
  case True
  with create_vault_ends [OF assms] show ?thesis by (auto simp: hook_ended_def create_ended_def)
next
  case none: False
  have "ch_result (ui_hook w') = ch_result (ui_hook w)"
  proof (cases "factory \<in> {None, Some []}")
    case True
    with assms show ?thesis by (auto simp: useCreateVault_def)
  next
    case False
    then obtain f where f: "factory = Some f" "f \<noteq> []" by auto
    define w0 where "w0 = w\<lparr>ui_hook := (ui_hook w)\<lparr>ch_step := Simulating, ch_error := None\<rparr>\<rparr>"
    obtain w1 b where b: "create_body env f topic salt p user w0 = (w1, b)" by fastforce
    from assms f b have run: "(w', Inr r) = (case b of Inr r \<Rightarrow> (w1, Inr r)
        | Inl e \<Rightarrow> create_failed (message_or ''Transaction failed'' e) w1)"
      by (simp add: useCreateVault_def ibind_def w0_def [symmetric] itry_def split: sum.splits)
    then have "\<forall>v. b \<noteq> Inr (Some v)" using none by auto
    from create_keeps_result [OF b this] run show ?thesis by (cases b) (simp_all add: w0_def)
  qed
  moreover have "r = None" using none by (cases r) auto
  ultimately show ?thesis using create_vault_ends [OF assms] by (auto simp: hook_ended_def create_ended_def)
qed

section \<open>What holds in every state\<close>

definition token_page :: "wizard_page \<Rightarrow> bool" where
  "token_page p \<longleftrightarrow> p \<noteq> LabelPage \<and> p \<noteq> TokenPage"

definition vault_page :: "wizard_page \<Rightarrow> bool" where
  "vault_page p \<longleftrightarrow> p = DepositPage \<or> p = DonePage"

lemma page_simps [simp]:
  "\<not> token_page LabelPage" "\<not> token_page TokenPage" "token_page FeesPage" "token_page CreatePage" "token_page DepositPage" "token_page DonePage"
  "\<not> vault_page LabelPage" "\<not> vault_page TokenPage" "\<not> vault_page FeesPage" "\<not> vault_page CreatePage" "vault_page DepositPage" "vault_page DonePage"
  by (simp_all add: token_page_def vault_page_def)

definition wizard_ok :: "wizard \<Rightarrow> bool" where
  "wizard_ok w \<longleftrightarrow>
     (token_page (wz_page w) \<longrightarrow> wz_token w \<noteq> None) \<and>
     (vault_page (wz_page w) \<longleftrightarrow> ch_result (wz_create w) \<noteq> None) \<and>
     (ch_result (wz_create w) \<noteq> None \<longleftrightarrow> wz_created w \<noteq> None) \<and>
     (wz_creating w \<noteq> None \<longrightarrow> wz_page w = CreatePage \<and> create_loading (wz_create w)) \<and>
     (\<forall>p want amount. wz_creating w = Some (p, want, amount) \<longrightarrow> map_option tk_address (wz_token w) = Some (cp_depositToken p)) \<and>
     (\<forall>p. wz_created w = Some p \<longrightarrow> map_option tk_address (wz_token w) = Some (cp_depositToken p)) \<and>
     (0 < wz_deposits w \<longrightarrow> ch_result (wz_create w) \<noteq> None)"

lemma initial_wizard_ok: "wizard_ok initial_wizard"
  by (simp add: wizard_ok_def initial_wizard_def create_idle_def)

lemma start_create_ok:
  assumes "wizard_ok w" "wz_page w = CreatePage" "\<not> create_loading (wz_create w)"
  shows "wizard_ok (start_create chain w)"
proof -
  from assms(1,2) obtain t where t: "wz_token w = Some t" by (auto simp: wizard_ok_def)
  from assms(1,2) have "ch_result (wz_create w) = None" "wz_created w = None" "wz_deposits w = 0"
    by (auto simp: wizard_ok_def)
  with assms(2) t show ?thesis
    by (simp add: wizard_ok_def start_create_def create_loading_def create_params_of_def)
qed

lemma end_create_ok:
  assumes "wizard_ok w" "wz_creating w = Some c" "hook_ended (wz_create w) h r"
  shows "wizard_ok (end_create h r c w)"
proof -
  obtain p want amount where c: "c = (p, want, amount)" by (cases c) auto
  from assms(1,2) have w: "wz_page w = CreatePage" "map_option tk_address (wz_token w) = Some (cp_depositToken p)"
    "ch_result (wz_create w) = None" "wz_created w = None" "wz_deposits w = 0"
    by (auto simp: wizard_ok_def c)
  show ?thesis
  proof (cases r)
    case None
    with assms(3) w show ?thesis by (auto simp: wizard_ok_def end_create_def c hook_ended_def)
  next
    case (Some v)
    with assms(3) w show ?thesis by (auto simp: wizard_ok_def end_create_def c hook_ended_def)
  qed
qed

lemma wizard_step_ok:
  assumes "wizard_step e w = Some w'" "wizard_ok w"
  shows "wizard_ok w'"
proof (cases e)
  case (StartCreate chain)
  with assms show ?thesis by (auto intro: start_create_ok split: if_splits)
next
  case (EndCreate h r)
  with assms show ?thesis by (auto intro: end_create_ok split: if_splits option.splits)
next
  case (CreateProgress x)
  with assms show ?thesis by (auto simp: wizard_ok_def create_loading_def split: if_splits)
qed (use assms in \<open>auto simp: wizard_ok_def split: if_splits\<close>)

lemma wizard_reaches_ok: "wizard_reaches w es w' \<Longrightarrow> wizard_ok w \<Longrightarrow> wizard_ok w'"
  by (induction rule: wizard_reaches.induct) (auto intro: wizard_step_ok)

text \<open>C34. The page sends its deposit to the vault that it created, in the token that the vault was created
  with: in every state that a visit can reach, a deposit names the vault the hook returned and the deposit
  token of the creation's parameters.\<close>

theorem wizard_deposits_into_its_vault:
  assumes "wizard_reaches initial_wizard es w" "wizard_deposit amount allowance w = Some d"
  shows "\<exists>hash p. ch_result (wz_create w) = Some (dp_vaultAddress d, hash) \<and> wz_created w = Some p \<and>
    dp_tokenAddress d = cp_depositToken p \<and> dp_amount d = amount"
proof -
  from wizard_reaches_ok [OF assms(1) initial_wizard_ok] have ok: "wizard_ok w" .
  from assms(2) obtain vault hash t where d: "ch_result (wz_create w) = Some (vault, hash)" "wz_token w = Some t"
    "dp_vaultAddress d = vault" "dp_tokenAddress d = tk_address t" "dp_amount d = amount"
    by (auto simp: wizard_deposit_def split: option.splits prod.splits)
  with ok obtain p where "wz_created w = Some p" by (auto simp: wizard_ok_def)
  with ok d show ?thesis by (auto simp: wizard_ok_def)
qed

text \<open>A visit of the page, event by event.\<close>

primrec wizard_run :: "wizard_event list \<Rightarrow> wizard \<Rightarrow> wizard option" where
  "wizard_run [] w = Some w"
| "wizard_run (e # es) w = Option.bind (wizard_step e w) (wizard_run es)"

lemma wizard_run_append: "wizard_run (es @ fs) w = Option.bind (wizard_run es w) (wizard_run fs)"
  by (induction es arbitrary: w) (simp_all split: Option.bind_split)

lemma wizard_run_reaches: "wizard_run es w = Some w' \<Longrightarrow> wizard_reaches w es w'"
proof (induction es arbitrary: w' rule: rev_induct)
  case (snoc e es)
  then show ?case by (auto simp: wizard_run_append bind_eq_Some_conv intro: wizard_reaches.event)
qed (simp add: wizard_reaches.start)

definition demo_token_option :: token_option where
  "demo_token_option = \<lparr>tk_address = ''0xD'', tk_symbol = ''D'', tk_decimals = 18\<rparr>"

definition created_hook :: create_hook where
  "created_hook = \<lparr>ch_step = CDone, ch_error = None, ch_result = Some (''0xV'', ''0xH'')\<rparr>"

definition demo_visit :: "wizard_event list" where
  "demo_visit = [ToToken, SelectToken demo_token_option, ToCreate, SetWantDeposit True, SetDepositAmount ''5'', StartCreate 56,
     CreateProgress CConfirming, EndCreate created_hook (Some (''0xV'', ''0xH''))]"

definition late_wish :: "wizard_event list" where
  "late_wish = [ToToken, SelectToken demo_token_option, ToCreate, StartCreate 56, CreateProgress CConfirming,
     SetWantDeposit True, SetDepositAmount ''5'', EndCreate created_hook (Some (''0xV'', ''0xH''))]"

lemmas visit_simps = initial_wizard_def demo_token_option_def created_hook_def start_create_def end_create_def hook_ended_def
  create_loading_def create_idle_def create_params_of_def js_trim_def

lemma demo_visit_run: "\<exists>w. wizard_run demo_visit initial_wizard = Some w \<and> wz_page w = DepositPage \<and>
    ch_result (wz_create w) = Some (''0xV'', ''0xH'') \<and> wz_token w = Some demo_token_option"
  by (simp add: demo_visit_def visit_simps)

theorem wizard_deposits_into_its_vault_witness:
  "\<exists>w d hash p. wizard_run demo_visit initial_wizard = Some w \<and> wizard_deposit 5 None w = Some d \<and>
     ch_result (wz_create w) = Some (dp_vaultAddress d, hash) \<and> wz_created w = Some p \<and> dp_tokenAddress d = cp_depositToken p"
proof -
  from demo_visit_run obtain w where w: "wizard_run demo_visit initial_wizard = Some w"
    "ch_result (wz_create w) = Some (''0xV'', ''0xH'')" "wz_token w = Some demo_token_option" by blast
  then obtain d where "wizard_deposit 5 None w = Some d" by (auto simp: wizard_deposit_def)
  with w wizard_deposits_into_its_vault [OF wizard_run_reaches [OF w(1)] this] show ?thesis by blast
qed

text \<open>A vault is created at most once in a visit: from a state whose vault is there, no state can be reached
  in which another creation starts, and the vault stays.\<close>

theorem wizard_creates_one_vault:
  assumes "wizard_reaches initial_wizard es w" "ch_result (wz_create w) = Some v" "wizard_step e w = Some w'"
  shows "ch_result (wz_create w') = Some v \<and> wz_created w' = wz_created w \<and> (\<forall>chain. e \<noteq> StartCreate chain) \<and> vault_page (wz_page w')"
proof -
  from wizard_reaches_ok [OF assms(1) initial_wizard_ok] have ok: "wizard_ok w" .
  with assms(2) have page: "vault_page (wz_page w)" by (auto simp: wizard_ok_def)
  have idle: "wz_creating w = None" using ok page by (cases "wz_creating w") (auto simp: wizard_ok_def)
  show ?thesis using assms(2,3) page idle by (cases e) (auto simp: vault_page_def split: if_splits)
qed

theorem wizard_creates_one_vault_witness:
  "\<exists>w w'. wizard_run demo_visit initial_wizard = Some w \<and> wizard_step SkipDeposit w = Some w' \<and>
     ch_result (wz_create w') = Some (''0xV'', ''0xH'')"
proof -
  from demo_visit_run obtain w where w: "wizard_run demo_visit initial_wizard = Some w" "wz_page w = DepositPage"
    "ch_result (wz_create w) = Some (''0xV'', ''0xH'')" by blast
  have "wz_deposit w = deposit_idle" using w(1) by (auto simp: demo_visit_def visit_simps)
  with w(2) have s: "wizard_step SkipDeposit w = Some (w\<lparr>wz_page := DonePage\<rparr>)" by (simp add: deposit_loading_def deposit_idle_def)
  from wizard_creates_one_vault [OF wizard_run_reaches [OF w(1)] w(3) s] w(1) s show ?thesis by blast
qed

text \<open>A deposit that the user asks for while the vault is being created is forgotten: the box can be ticked and
  the amount entered, and the page goes on as if they had not been.\<close>

theorem late_deposit_wish_is_lost:
  "\<exists>w. wizard_run late_wish initial_wizard = Some w \<and> wz_wantDeposit w \<and> wz_depositAmount w = ''5'' \<and>
     ch_result (wz_create w) = Some (''0xV'', ''0xH'') \<and> wz_page w = DonePage \<and> wz_deposits w = 0"
  by (simp add: late_wish_def visit_simps)

end
