(* ===== verification/Catalog.thy ===== *)
theory Catalog
  imports Boundary Gate
begin

text \<open>
  The step catalog: its integrity guard (catalog-integrity.ts, action-capabilities.ts), the check of
  the recipes (recipe-validation.ts) and the seed that brings both into the database (seed.ts).
  Lemmas: when the guard is silent, when a recipe is valid, and what the seed leaves in the tables.
\<close>

section \<open>Entries\<close>

record catalog_field = field_schema +
  cf_description :: "string option"
  cf_hidden :: bool
  cf_modes :: "nat list option"

record catalog_entry =
  ce_name :: string
  ce_description :: string
  ce_category :: string
  ce_contractKey :: string
  ce_selector :: string
  ce_afterExecutionSelector :: "string option"
  ce_properties :: "(string \<times> catalog_field) list"
  ce_components :: "abi_component list"

datatype AmountMode = FIXED | FROM_SLOT | MAX_AVAILABLE | TARGET_HF

fun mode_number :: "AmountMode \<Rightarrow> nat" where
  "mode_number FIXED = 0"
| "mode_number FROM_SLOT = 1"
| "mode_number MAX_AVAILABLE = 2"
| "mode_number TARGET_HF = 3"

fun mode_name :: "AmountMode \<Rightarrow> string" where
  "mode_name FIXED = ''FIXED''"
| "mode_name FROM_SLOT = ''FROM_SLOT''"
| "mode_name MAX_AVAILABLE = ''MAX_AVAILABLE''"
| "mode_name TARGET_HF = ''TARGET_HF''"

record action_capability =
  ca_supportedModes :: "AmountMode list"
  ca_modeFields :: "(AmountMode \<times> string) list"

definition AAVE_AMOUNT_ACTION :: action_capability where
  "AAVE_AMOUNT_ACTION = \<lparr>ca_supportedModes = [FIXED, FROM_SLOT, MAX_AVAILABLE, TARGET_HF], ca_modeFields = [(TARGET_HF, ''health-factor'')]\<rparr>"

definition ACTION_CAPABILITIES :: "string \<rightharpoonup> action_capability" where
  "ACTION_CAPABILITIES =
     [''AaveV3SupplyAction'' \<mapsto> AAVE_AMOUNT_ACTION, ''AaveV3WithdrawAction'' \<mapsto> AAVE_AMOUNT_ACTION,
      ''AaveV3BorrowAction'' \<mapsto> AAVE_AMOUNT_ACTION, ''AaveV3RepayAction'' \<mapsto> AAVE_AMOUNT_ACTION]"

section \<open>The integrity guard\<close>

datatype integrity_rule = ModeUnsupported | ModeFieldMissing | StalePhrase | AbiSchemaDrift | UnannotatedRole

record violation =
  vi_step :: string
  vi_field :: string
  vi_rule :: integrity_rule
  vi_detail :: string

definition word_char :: "char \<Rightarrow> bool" where
  "word_char c \<longleftrightarrow> is_digit c \<or> (65 \<le> code c \<and> code c \<le> 90) \<or> (97 \<le> code c \<and> code c \<le> 122) \<or> c = CHR ''_''"

text \<open>\<open>\b...\b\<close> around a word: the character before is given.\<close>

fun has_word :: "bool \<Rightarrow> string \<Rightarrow> string \<Rightarrow> bool" where
  "has_word before w [] = False"
| "has_word before w (c # s) =
     ((\<not> before \<and> starts_with w (c # s) \<and> (case drop (length w) (c # s) of [] \<Rightarrow> True | d # _ \<Rightarrow> \<not> word_char d)) \<or> has_word (word_char c) w s)"

definition is_stale :: "string \<Rightarrow> bool" where
  "is_stale desc \<longleftrightarrow> has_part ''not yet available'' (lower desc) \<or> has_part ''later slice'' (lower desc) \<or> has_word False ''reserved'' (lower desc)"

definition FRIENDLY_WIDGETS :: "string set" where
  "FRIENDLY_WIDGETS = {''start-time''}"

definition AMOUNT_MODE_WIDGET :: string where
  "AMOUNT_MODE_WIDGET = ''aave-amount-mode''"

definition mode_field :: "catalog_entry \<Rightarrow> (string \<times> catalog_field) option" where
  "mode_field e = List.find (\<lambda>(k, f). f_widget f = Some AMOUNT_MODE_WIDGET) (ce_properties e)"

definition advertised :: "catalog_entry \<Rightarrow> nat list" where
  "advertised e = (case mode_field e of None \<Rightarrow> [] | Some (k, f) \<Rightarrow> or_else (cf_modes f) [])"

definition violate :: "catalog_entry \<Rightarrow> string \<Rightarrow> integrity_rule \<Rightarrow> string \<Rightarrow> violation" where
  "violate e field rule detail = \<lparr>vi_step = ce_name e, vi_field = field, vi_rule = rule, vi_detail = detail\<rparr>"

definition mode_violations :: "catalog_entry \<Rightarrow> action_capability \<Rightarrow> violation list" where
  "mode_violations e cap =
     map (\<lambda>m. violate e (case mode_field e of None \<Rightarrow> ''mode'' | Some (k, f) \<Rightarrow> k) ModeUnsupported
         (''advertised mode '' @ show_nat m @ '' not in supported ['' @ join '', '' (map (show_nat \<circ> mode_number) (ca_supportedModes cap)) @ '']''))
       (filter (\<lambda>m. m \<notin> mode_number ` set (ca_supportedModes cap)) (advertised e))"

definition offered_modes :: "catalog_entry \<Rightarrow> action_capability \<Rightarrow> (AmountMode \<times> string) list" where
  "offered_modes e cap = filter (\<lambda>(m, w). mode_number m \<in> set (advertised e)) (ca_modeFields cap)"

definition field_violations :: "catalog_entry \<Rightarrow> action_capability \<Rightarrow> violation list" where
  "field_violations e cap =
     map (\<lambda>(m, w). violate e (''(widget:'' @ w @ '')'') ModeFieldMissing
         (''mode '' @ mode_name m @ '' advertised but no '' @ [CHR 39] @ w @ [CHR 39] @ '' field present''))
       (filter (\<lambda>(m, w). \<not> list_ex (\<lambda>(k, f). f_widget f = Some w) (ce_properties e)) (offered_modes e cap))"

definition is_offered :: "string set \<Rightarrow> catalog_field \<Rightarrow> bool" where
  "is_offered widgets f \<longleftrightarrow> \<not> cf_hidden f \<or> (case f_widget f of None \<Rightarrow> False | Some w \<Rightarrow> w \<in> widgets)"

definition stale_violations :: "catalog_entry \<Rightarrow> string set \<Rightarrow> violation list" where
  "stale_violations e widgets =
     map (\<lambda>(k, f). violate e k StalePhrase
         (''offered field describes itself as unavailable: '' @ [CHR 34] @ take 70 (or_else (cf_description f) []) @ [CHR 34]))
       (filter (\<lambda>(k, f). is_offered widgets f \<and> is_stale (or_else (cf_description f) [])) (ce_properties e))"

definition drift_violations :: "catalog_entry \<Rightarrow> violation list" where
  "drift_violations e =
     (let abi = map c_name (ce_components e); props = map fst (ce_properties e) in
      map (\<lambda>a. violate e a AbiSchemaDrift (''abiFragment component '' @ [CHR 39] @ a @ [CHR 39] @ '' has no paramSchema property''))
        (filter (\<lambda>a. a \<notin> set props) abi) @
      map (\<lambda>(k, f). violate e k AbiSchemaDrift
          (''non-hidden property '' @ [CHR 39] @ k @ [CHR 39] @ '' has no abiFragment component (not a friendly widget)''))
        (filter (\<lambda>(k, f). k \<notin> set abi \<and> \<not> cf_hidden f \<and> (case f_widget f of None \<Rightarrow> True | Some w \<Rightarrow> w \<notin> FRIENDLY_WIDGETS))
          (ce_properties e)))"

definition entry_violations :: "(string \<rightharpoonup> action_capability) \<Rightarrow> catalog_entry \<Rightarrow> violation list" where
  "entry_violations capabilities e =
     (case capabilities (ce_contractKey e) of
        None \<Rightarrow> stale_violations e {}
      | Some cap \<Rightarrow> mode_violations e cap @ field_violations e cap @ stale_violations e (snd ` set (offered_modes e cap))) @
     drift_violations e"

definition as_catalog_step :: "catalog_entry \<Rightarrow> catalog_step" where
  "as_catalog_step e = \<lparr>cs_name = Some (ce_name e),
     cs_schema = \<lparr>ss_paramSchema = Some \<lparr>ps_properties = map (\<lambda>(k, f). (k, field_schema.truncate f)) (ce_properties e), ps_required = []\<rparr>,
       ss_components = ce_components e\<rparr>\<rparr>"

definition checkCatalogIntegrity :: "catalog_entry list \<Rightarrow> (string \<rightharpoonup> action_capability) \<Rightarrow> violation list" where
  "checkCatalogIntegrity catalog capabilities =
     concat (map (entry_violations capabilities) catalog) @
     map (\<lambda>(step, field). \<lparr>vi_step = step, vi_field = field, vi_rule = UnannotatedRole,
         vi_detail = ''money-target field '' @ [CHR 39] @ field @ [CHR 39] @ '' resolves to no recipient role''\<rparr>)
       (findUnannotatedRecipients (map as_catalog_step catalog))"

section \<open>Recipes\<close>

record recipe_node =
  rn_id :: string
  rn_stepType :: string
  rn_params :: "string list"

record recipe_shape =
  rs_nodes :: "recipe_node list"
  rs_edges :: "(string \<times> string) list"

record recipe_definition =
  rd_key :: string
  rd_name :: string
  rd_description :: string
  rd_category :: string
  rd_shape :: recipe_shape

definition buildCatalog :: "catalog_entry list \<Rightarrow> (string \<rightharpoonup> string set)" where
  "buildCatalog stepTypes = fold (\<lambda>e m. m(ce_name e \<mapsto> fst ` set (ce_properties e))) stepTypes Map.empty"

definition node_errors :: "(string \<rightharpoonup> string set) \<Rightarrow> recipe_node \<Rightarrow> string list" where
  "node_errors catalog n =
     (case catalog (rn_stepType n) of
        None \<Rightarrow> [''unknown step type '' @ [CHR 34] @ rn_stepType n @ [CHR 34]]
      | Some allowed \<Rightarrow>
          map (\<lambda>k. ''param drift: '' @ [CHR 34] @ rn_stepType n @ [CHR 34] @ '' has no parameter '' @ [CHR 34] @ k @ [CHR 34])
            (filter (\<lambda>k. k \<notin> allowed) (rn_params n)))"

definition recipe_edge_errors :: "string set \<Rightarrow> string \<times> string \<Rightarrow> string list" where
  "recipe_edge_errors ids e =
     (if fst e \<in> ids then [] else [''edge source '' @ [CHR 34] @ fst e @ [CHR 34] @ '' is not a node'']) @
     (if snd e \<in> ids then [] else [''edge target '' @ [CHR 34] @ snd e @ [CHR 34] @ '' is not a node''])"

definition validateRecipeShape :: "recipe_shape \<Rightarrow> (string \<rightharpoonup> string set) \<Rightarrow> string list" where
  "validateRecipeShape shape catalog =
     concat (map (node_errors catalog) (rs_nodes shape)) @
     concat (map (recipe_edge_errors (rn_id ` set (rs_nodes shape))) (rs_edges shape))"

section \<open>The seed\<close>

record step_type_row =
  tr_id :: nat
  tr_contractAddress :: string
  tr_entry :: catalog_entry

definition row_key :: "step_type_row \<Rightarrow> string \<times> string" where
  "row_key r = (tr_contractAddress r, ce_selector (tr_entry r))"

text \<open>\<open>sd_next\<close> supplies the ids of new rows.\<close>

record seed_db =
  sd_steps :: "step_type_row list"
  sd_next :: nat
  sd_recipes :: "string \<rightharpoonup> recipe_definition"
  sd_tokens :: "string \<times> string \<rightharpoonup> string \<times> nat \<times> bool"

definition seed_address :: "(string \<rightharpoonup> string) \<Rightarrow> catalog_entry \<Rightarrow> string" where
  "seed_address addresses e = or_else (addresses (ce_contractKey e)) ZERO_ADDRESS"

text \<open>One upsert: the table, the supply of ids, and the ids that are kept.\<close>

definition upsert_step ::
  "(string \<rightharpoonup> string) \<Rightarrow> catalog_entry \<Rightarrow> step_type_row list \<times> nat \<times> nat list \<Rightarrow> step_type_row list \<times> nat \<times> nat list" where
  "upsert_step addresses e st =
     (case st of (rows, fresh, kept) \<Rightarrow>
        let a = seed_address addresses e in
        if a = ZERO_ADDRESS then st
        else case List.find (\<lambda>r. row_key r = (a, ce_selector e)) rows of
          Some r \<Rightarrow> (map (\<lambda>x. if row_key x = (a, ce_selector e) then x\<lparr>tr_entry := e\<rparr> else x) rows, fresh, kept @ [tr_id r])
        | None \<Rightarrow> (rows @ [\<lparr>tr_id = fresh, tr_contractAddress = a, tr_entry = e\<rparr>], Suc fresh, kept @ [fresh]))"

definition seed_steps :: "(string \<rightharpoonup> string) \<Rightarrow> catalog_entry list \<Rightarrow> seed_db \<Rightarrow> seed_db" where
  "seed_steps addresses catalog db =
     (let (rows, fresh, kept) = fold (upsert_step addresses) catalog
            (filter (\<lambda>r. tr_contractAddress r \<noteq> ZERO_ADDRESS) (sd_steps db), sd_next db, []) in
      db\<lparr>sd_steps := (if kept = [] then rows else filter (\<lambda>r. tr_id r \<in> set kept) rows), sd_next := fresh\<rparr>)"

definition seed_recipes :: "(string \<rightharpoonup> string set) \<Rightarrow> recipe_definition list \<Rightarrow> seed_db \<Rightarrow> seed_db" where
  "seed_recipes catalog recipes db =
     db\<lparr>sd_recipes := fold (\<lambda>r t. if validateRecipeShape (rd_shape r) catalog = [] then t(rd_key r \<mapsto> r) else t) recipes (sd_recipes db)\<rparr>"

definition seed_tokens :: "string \<Rightarrow> (string \<times> string \<times> nat) list \<Rightarrow> seed_db \<Rightarrow> seed_db" where
  "seed_tokens protocol tokens db =
     db\<lparr>sd_tokens := fold (\<lambda>(address, symbol, decimals) t. t((protocol, address) \<mapsto> (symbol, decimals, True))) tokens (sd_tokens db)\<rparr>"

definition seed_main ::
  "(string \<rightharpoonup> string) \<Rightarrow> catalog_entry list \<Rightarrow> recipe_definition list \<Rightarrow> (string \<times> string \<times> nat) list \<Rightarrow>
   (string \<times> string \<times> nat) list \<Rightarrow> seed_db \<Rightarrow> seed_db" where
  "seed_main addresses catalog recipes aave pancake db =
     seed_tokens ''pancakeswap'' pancake (seed_tokens ''aave'' aave
       (seed_recipes (buildCatalog (filter (\<lambda>e. seed_address addresses e \<noteq> ZERO_ADDRESS) catalog)) recipes
         (seed_steps addresses catalog db)))"

section \<open>When the guard is silent\<close>

definition modes_supported :: "action_capability option \<Rightarrow> catalog_entry \<Rightarrow> bool" where
  "modes_supported cap e \<longleftrightarrow>
     (case cap of
        None \<Rightarrow> True
      | Some c \<Rightarrow> set (advertised e) \<subseteq> mode_number ` set (ca_supportedModes c) \<and>
          list_all (\<lambda>(m, w). mode_number m \<in> set (advertised e) \<longrightarrow> (\<exists>(k, f) \<in> set (ce_properties e). f_widget f = Some w)) (ca_modeFields c))"

definition offered_field :: "action_capability option \<Rightarrow> catalog_entry \<Rightarrow> catalog_field \<Rightarrow> bool" where
  "offered_field cap e f \<longleftrightarrow> \<not> cf_hidden f \<or>
     (\<exists>c m w. cap = Some c \<and> (m, w) \<in> set (ca_modeFields c) \<and> mode_number m \<in> set (advertised e) \<and> f_widget f = Some w)"

definition lockstep :: "catalog_entry \<Rightarrow> bool" where
  "lockstep e \<longleftrightarrow> c_name ` set (ce_components e) \<subseteq> fst ` set (ce_properties e) \<and>
     list_all (\<lambda>(k, f). k \<in> c_name ` set (ce_components e) \<or> cf_hidden f \<or> f_widget f = Some ''start-time'') (ce_properties e)"

definition clean_entry :: "(string \<rightharpoonup> action_capability) \<Rightarrow> catalog_entry \<Rightarrow> bool" where
  "clean_entry capabilities e \<longleftrightarrow>
     (let cap = capabilities (ce_contractKey e) in
      modes_supported cap e \<and> lockstep e \<and>
      list_all (\<lambda>(k, f). offered_field cap e f \<longrightarrow> \<not> is_stale (or_else (cf_description f) [])) (ce_properties e))"

lemma drift_clean: "drift_violations e = [] \<longleftrightarrow> lockstep e"
proof -
  have "filter (\<lambda>(k, f). k \<notin> set (map c_name (ce_components e)) \<and> \<not> cf_hidden f \<and>
        (case f_widget f of None \<Rightarrow> True | Some w \<Rightarrow> w \<notin> FRIENDLY_WIDGETS)) (ce_properties e) = [] \<longleftrightarrow>
      list_all (\<lambda>(k, f). k \<in> c_name ` set (ce_components e) \<or> cf_hidden f \<or> f_widget f = Some ''start-time'') (ce_properties e)"
    by (auto simp: filter_empty_conv list_all_iff FRIENDLY_WIDGETS_def split: option.splits)
  moreover have "filter (\<lambda>a. a \<notin> set (map fst (ce_properties e))) (map c_name (ce_components e)) = [] \<longleftrightarrow>
      c_name ` set (ce_components e) \<subseteq> fst ` set (ce_properties e)"
    by (auto simp: filter_empty_conv)
  ultimately show ?thesis by (simp only: drift_violations_def lockstep_def Let_def append_is_Nil_conv map_is_Nil_conv)
qed

lemma stale_clean: "stale_violations e ws = [] \<longleftrightarrow>
    list_all (\<lambda>(k, f). is_offered ws f \<longrightarrow> \<not> is_stale (or_else (cf_description f) [])) (ce_properties e)"
  by (auto simp: stale_violations_def filter_empty_conv list_all_iff)

lemma mode_clean: "mode_violations e cap = [] \<and> field_violations e cap = [] \<longleftrightarrow> modes_supported (Some cap) e"
proof -
  have "mode_violations e cap = [] \<longleftrightarrow> set (advertised e) \<subseteq> mode_number ` set (ca_supportedModes cap)"
    by (auto simp: mode_violations_def filter_empty_conv)
  moreover have "field_violations e cap = [] \<longleftrightarrow>
      list_all (\<lambda>(m, w). mode_number m \<in> set (advertised e) \<longrightarrow> (\<exists>(k, f) \<in> set (ce_properties e). f_widget f = Some w)) (ca_modeFields cap)"
    by (auto simp: field_violations_def offered_modes_def filter_empty_conv list_all_iff list_ex_iff)
  ultimately show ?thesis by (simp add: modes_supported_def)
qed

lemma entry_clean: "entry_violations capabilities e = [] \<longleftrightarrow> clean_entry capabilities e"
proof (cases "capabilities (ce_contractKey e)")
  case None
  have "is_offered {} f \<longleftrightarrow> offered_field None e f" for f by (auto simp: is_offered_def offered_field_def split: option.splits)
  with None show ?thesis by (auto simp: entry_violations_def clean_entry_def drift_clean stale_clean modes_supported_def)
next
  case (Some cap)
  have "is_offered (snd ` set (offered_modes e cap)) f \<longleftrightarrow> offered_field (Some cap) e f" for f
    by (force simp: is_offered_def offered_field_def offered_modes_def split: option.splits)
  with Some show ?thesis by (auto simp: entry_violations_def clean_entry_def drift_clean stale_clean simp flip: mode_clean)
qed

text \<open>The guard is silent exactly when, for every entry, the advertised modes are supported and come with the fields they need, no
  offered field calls itself unavailable, schema and ABI have the same visible fields, and no address
  that takes money lacks the recipient role.\<close>

theorem catalog_guard_exact:
  "checkCatalogIntegrity catalog capabilities = [] \<longleftrightarrow>
     list_all (clean_entry capabilities) catalog \<and> findUnannotatedRecipients (map as_catalog_step catalog) = []"
  by (auto simp: checkCatalogIntegrity_def entry_clean list_all_iff)

section \<open>When a recipe is valid\<close>

lemma buildCatalog_at: "buildCatalog entries n = map_option (\<lambda>e. fst ` set (ce_properties e)) (by_key ce_name entries n)"
proof (induction entries rule: rev_induct)
  case (snoc e es)
  then show ?case by (simp add: buildCatalog_def)
qed (simp add: buildCatalog_def)

definition recipe_node_ok :: "catalog_entry list \<Rightarrow> recipe_node \<Rightarrow> bool" where
  "recipe_node_ok entries n \<longleftrightarrow>
     (case by_key ce_name entries (rn_stepType n) of None \<Rightarrow> False | Some e \<Rightarrow> set (rn_params n) \<subseteq> fst ` set (ce_properties e))"

text \<open>A recipe is valid exactly when each of its nodes names a step of the catalog and only parameters of it, and its edges run
  between its nodes.\<close>

theorem recipe_valid_iff:
  "validateRecipeShape shape (buildCatalog entries) = [] \<longleftrightarrow>
     list_all (recipe_node_ok entries) (rs_nodes shape) \<and>
     list_all (\<lambda>(s, t). s \<in> rn_id ` set (rs_nodes shape) \<and> t \<in> rn_id ` set (rs_nodes shape)) (rs_edges shape)"
proof -
  have "node_errors (buildCatalog entries) n = [] \<longleftrightarrow> recipe_node_ok entries n" for n
    by (auto simp: node_errors_def recipe_node_ok_def buildCatalog_at filter_empty_conv split: option.splits)
  moreover have "recipe_edge_errors ids e = [] \<longleftrightarrow> (case e of (s, t) \<Rightarrow> s \<in> ids \<and> t \<in> ids)" for ids e
    by (cases e) (simp add: recipe_edge_errors_def)
  ultimately show ?thesis by (simp add: validateRecipeShape_def list_all_iff)
qed

section \<open>What the seed leaves\<close>

text \<open>A recipe that is no longer valid is not written by the seed, and neither is its old version taken away: readers get what was
  seeded before.\<close>

theorem invalid_recipe_stays:
  "sd_recipes (seed_recipes catalog recipes db) key =
     (case by_key rd_key (filter (\<lambda>r. validateRecipeShape (rd_shape r) catalog = []) recipes) key of
        Some r \<Rightarrow> Some r
      | None \<Rightarrow> sd_recipes db key)"
proof -
  have "fold (\<lambda>r t. if validateRecipeShape (rd_shape r) catalog = [] then t(rd_key r \<mapsto> r) else t) rs t key =
      (case by_key rd_key (filter (\<lambda>r. validateRecipeShape (rd_shape r) catalog = []) rs) key of Some r \<Rightarrow> Some r | None \<Rightarrow> t key)" for rs t
    by (induction rs rule: rev_induct) (auto split: option.splits)
  then show ?thesis by (simp add: seed_recipes_def)
qed

definition step_table_ok :: "step_type_row list \<Rightarrow> nat \<Rightarrow> bool" where
  "step_table_ok rows fresh \<longleftrightarrow> distinct (map row_key rows) \<and> distinct (map tr_id rows) \<and> list_all (\<lambda>r. tr_id r < fresh) rows"

definition entries_by_key :: "step_type_row list \<Rightarrow> (string \<times> string \<rightharpoonup> catalog_entry)" where
  "entries_by_key rows k = map_option tr_entry (by_key row_key rows k)"

definition deployed_entries :: "(string \<rightharpoonup> string) \<Rightarrow> catalog_entry list \<Rightarrow> (string \<times> string \<rightharpoonup> catalog_entry)" where
  "deployed_entries addresses catalog =
     by_key (\<lambda>e. (seed_address addresses e, ce_selector e)) (filter (\<lambda>e. seed_address addresses e \<noteq> ZERO_ADDRESS) catalog)"

text \<open>During the loop: the table is sound, holds the new entries over the old ones, and the kept ids are those of the seeded keys;
  a row that was there keeps its id.\<close>

definition seed_inv :: "step_type_row list \<Rightarrow> (string \<times> string \<rightharpoonup> catalog_entry) \<Rightarrow> step_type_row list \<times> nat \<times> nat list \<Rightarrow> bool" where
  "seed_inv old new st \<longleftrightarrow>
     (case st of (rows, fresh, kept) \<Rightarrow>
        step_table_ok rows fresh \<and> entries_by_key rows = entries_by_key old ++ new \<and>
        list_all (\<lambda>r. tr_id r \<in> set kept \<longleftrightarrow> row_key r \<in> dom new) rows \<and> (kept = [] \<longleftrightarrow> new = Map.empty) \<and>
        (\<forall>r \<in> set old. \<exists>r' \<in> set rows. row_key r' = row_key r \<and> tr_id r' = tr_id r))"

lemma option_eq_by_Some: "(\<And>x. m = Some x \<longleftrightarrow> m' = Some x) \<Longrightarrow> m = m'"
  by (cases m; cases m') auto

lemma entries_iff: "distinct (map row_key rows) \<Longrightarrow> entries_by_key rows k = Some e \<longleftrightarrow> (\<exists>r \<in> set rows. row_key r = k \<and> tr_entry r = e)"
  using by_key_distinct [of row_key rows] by (fastforce simp: entries_by_key_def dest: by_key_Some)

lemma row_key_entry: "row_key r = (a, ce_selector e) \<Longrightarrow> row_key (r\<lparr>tr_entry := e\<rparr>) = row_key r"
  by (simp add: row_key_def)

lemma upsert_found:
  assumes "step_table_ok rows fresh" "r \<in> set rows" "row_key r = (a, ce_selector e)"
  defines "rows' \<equiv> map (\<lambda>x. if row_key x = (a, ce_selector e) then x\<lparr>tr_entry := e\<rparr> else x) rows"
  shows "step_table_ok rows' fresh" "entries_by_key rows' = (entries_by_key rows)((a, ce_selector e) \<mapsto> e)"
    and "map row_key rows' = map row_key rows" "map tr_id rows' = map tr_id rows"
proof -
  have k: "row_key (if row_key x = (a, ce_selector e) then x\<lparr>tr_entry := e\<rparr> else x) = row_key x" for x
    using row_key_entry [of x a e] by auto
  show keys: "map row_key rows' = map row_key rows" by (simp add: rows'_def k)
  show ids: "map tr_id rows' = map tr_id rows" by (simp add: rows'_def)
  have "list_all (\<lambda>x. tr_id x < fresh) rows'" using assms(1) by (auto simp: step_table_ok_def list_all_iff rows'_def)
  with keys ids assms(1) show "step_table_ok rows' fresh" by (simp add: step_table_ok_def)
  have d: "distinct (map row_key rows)" "distinct (map row_key rows')" using assms(1) keys by (simp_all add: step_table_ok_def)
  show "entries_by_key rows' = (entries_by_key rows)((a, ce_selector e) \<mapsto> e)"
  proof (rule ext, rule option_eq_by_Some)
    fix q x
    have e: "tr_entry (if row_key y = (a, ce_selector e) then y\<lparr>tr_entry := e\<rparr> else y) = (if row_key y = (a, ce_selector e) then e else tr_entry y)" for y
      by simp
    have split: "entries_by_key rows' q = Some x \<longleftrightarrow>
        (\<exists>y \<in> set rows. row_key y = q \<and> (if row_key y = (a, ce_selector e) then e else tr_entry y) = x)"
      by (subst entries_iff [OF d(2)]) (simp only: rows'_def set_map bex_simps(7) k e)
    show "entries_by_key rows' q = Some x \<longleftrightarrow> ((entries_by_key rows)((a, ce_selector e) \<mapsto> e)) q = Some x"
    proof (cases "q = (a, ce_selector e)")
      case True
      have "(\<exists>y \<in> set rows. row_key y = (a, ce_selector e) \<and> e = x) \<longleftrightarrow> e = x" using assms(2,3) by blast
      with split [unfolded True] show ?thesis by (simp add: True cong: conj_cong)
    next
      case False
      then have "(if row_key y = (a, ce_selector e) then e else tr_entry y) = tr_entry y" if "row_key y = q" for y using that by simp
      with False show ?thesis by (simp add: split entries_iff [OF d(1)] cong: conj_cong)
    qed
  qed
qed

lemma upsert_new:
  assumes "step_table_ok rows fresh" "(a, ce_selector e) \<notin> row_key ` set rows"
  defines "row \<equiv> \<lparr>tr_id = fresh, tr_contractAddress = a, tr_entry = e\<rparr>"
  shows "step_table_ok (rows @ [row]) (Suc fresh)" "entries_by_key (rows @ [row]) = (entries_by_key rows)((a, ce_selector e) \<mapsto> e)"
proof -
  have k: "row_key row = (a, ce_selector e)" by (simp add: row_key_def row_def)
  show "step_table_ok (rows @ [row]) (Suc fresh)"
    using assms(1,2) by (auto simp: step_table_ok_def list_all_iff k) (auto simp: row_def)
  show "entries_by_key (rows @ [row]) = (entries_by_key rows)((a, ce_selector e) \<mapsto> e)"
    by (rule ext) (simp add: entries_by_key_def k, simp add: row_def)
qed

lemma upsert_inv:
  assumes "seed_inv old new st" "seed_address addresses e = a" "a \<noteq> ZERO_ADDRESS"
  shows "seed_inv old (new((a, ce_selector e) \<mapsto> e)) (upsert_step addresses e st)"
proof -
  obtain rows fresh kept where st: "st = (rows, fresh, kept)" by (cases st)
  let ?k = "(a, ce_selector e)"
  have ok: "step_table_ok rows fresh" and tbl: "entries_by_key rows = entries_by_key old ++ new"
    and ids: "\<And>r. r \<in> set rows \<Longrightarrow> tr_id r \<in> set kept \<longleftrightarrow> row_key r \<in> dom new"
    and keep: "\<And>r. r \<in> set old \<Longrightarrow> \<exists>r' \<in> set rows. row_key r' = row_key r \<and> tr_id r' = tr_id r"
    using assms(1) by (auto simp: seed_inv_def st list_all_iff)
  show ?thesis
  proof (cases "List.find (\<lambda>r. row_key r = ?k) rows")
    case (Some r)
    then have r: "r \<in> set rows" "row_key r = ?k" using find_Some_in [OF Some] by auto
    let ?rows = "map (\<lambda>x. if row_key x = ?k then x\<lparr>tr_entry := e\<rparr> else x) rows"
    note up = upsert_found [OF ok r]
    have same: "tr_id x \<in> set (kept @ [tr_id r]) \<longleftrightarrow> row_key x \<in> dom (new(?k \<mapsto> e))" if "x \<in> set rows" for x
    proof -
      have "tr_id x = tr_id r \<longleftrightarrow> x = r" "row_key x = ?k \<longleftrightarrow> x = r"
        using that r ok by (auto simp: step_table_ok_def distinct_map inj_on_def)
      with ids [OF that] show ?thesis by auto
    qed
    have "list_all (\<lambda>x. tr_id x \<in> set (kept @ [tr_id r]) \<longleftrightarrow> row_key x \<in> dom (new(?k \<mapsto> e))) ?rows"
      unfolding list_all_iff
    proof
      fix y assume "y \<in> set ?rows"
      then obtain x where "x \<in> set rows" "y = (if row_key x = ?k then x\<lparr>tr_entry := e\<rparr> else x)" by auto
      moreover from this have "tr_id y = tr_id x" "row_key y = row_key x" using row_key_entry [of x a e] by auto
      ultimately show "tr_id y \<in> set (kept @ [tr_id r]) \<longleftrightarrow> row_key y \<in> dom (new(?k \<mapsto> e))" using same [of x] by simp
    qed
    moreover have "\<exists>r' \<in> set ?rows. row_key r' = row_key q \<and> tr_id r' = tr_id q" if q: "q \<in> set old" for q
    proof -
      obtain x where x: "x \<in> set rows" "row_key x = row_key q" "tr_id x = tr_id q" using keep [OF q] by blast
      let ?y = "if row_key x = ?k then x\<lparr>tr_entry := e\<rparr> else x"
      have "?y \<in> set ?rows" unfolding set_map using x(1) by (rule imageI)
      moreover have "row_key ?y = row_key q" "tr_id ?y = tr_id q" using x(2,3) row_key_entry [of x a e] by simp_all
      ultimately show ?thesis by blast
    qed
    ultimately show ?thesis using Some up(1,2) assms(2,3) by (simp add: seed_inv_def st upsert_step_def Let_def tbl)
  next
    case None
    then have n: "?k \<notin> row_key ` set rows" by (auto simp: find_None_iff)
    let ?row = "\<lparr>tr_id = fresh, tr_contractAddress = a, tr_entry = e\<rparr>"
    note up = upsert_new [OF ok n]
    have "list_all (\<lambda>x. tr_id x \<in> set (kept @ [fresh]) \<longleftrightarrow> row_key x \<in> dom (new(?k \<mapsto> e))) (rows @ [?row])"
    proof -
      have "tr_id x \<noteq> fresh" "row_key x \<noteq> ?k" if "x \<in> set rows" for x
        using that ok imageI [of x "set rows" row_key] n by (auto simp: step_table_ok_def list_all_iff simp del: image_eqI)
      then show ?thesis using ids by (auto simp: list_all_iff row_key_def)
    qed
    moreover have "\<exists>r' \<in> set (rows @ [?row]). row_key r' = row_key q \<and> tr_id r' = tr_id q" if "q \<in> set old" for q
      using keep [OF that] by auto
    ultimately show ?thesis using None up assms(2,3) by (simp add: seed_inv_def st upsert_step_def Let_def tbl)
  qed
qed

lemma deployed_snoc: "deployed_entries addresses (es @ [e]) =
    (if seed_address addresses e = ZERO_ADDRESS then deployed_entries addresses es
     else (deployed_entries addresses es)((seed_address addresses e, ce_selector e) \<mapsto> e))"
  by (cases "seed_address addresses e = ZERO_ADDRESS") (simp_all add: deployed_entries_def)

lemma seed_loop:
  assumes "step_table_ok old fresh"
  shows "seed_inv old (deployed_entries addresses catalog) (fold (upsert_step addresses) catalog (old, fresh, []))"
proof (induction catalog rule: rev_induct)
  case Nil
  have "deployed_entries addresses [] = Map.empty" by (simp add: deployed_entries_def)
  with assms show ?case by (auto simp: seed_inv_def list_all_iff)
next
  case (snoc e es)
  show ?case
  proof (cases "seed_address addresses e = ZERO_ADDRESS")
    case True
    have "upsert_step addresses e st = st" for st using True by (simp add: upsert_step_def Let_def split: prod.splits)
    with True snoc show ?thesis by (simp add: deployed_snoc)
  next
    case False
    with upsert_inv [OF snoc refl False] show ?thesis by (simp only: deployed_snoc if_False fold_append fold.simps comp_apply id_apply)
  qed
qed

lemma seed_main_steps: "sd_steps (seed_main addresses catalog recipes aave pancake db) = sd_steps (seed_steps addresses catalog db)"
  "sd_next (seed_main addresses catalog recipes aave pancake db) = sd_next (seed_steps addresses catalog db)"
  by (simp_all add: seed_main_def seed_tokens_def seed_recipes_def)

lemma step_table_filter: "step_table_ok rows fresh \<Longrightarrow> step_table_ok (filter P rows) fresh"
  by (auto simp: step_table_ok_def list_all_iff distinct_map_filter)

text \<open>C22. When anything is deployed, the seed leaves exactly the deployed steps, each with its last entry in the catalog, whatever the
  table held before; and a step that was there under its address and selector keeps its id, so that
  stored automations go on meaning it.\<close>

theorem seed_is_the_deployed_catalog:
  assumes "step_table_ok (sd_steps db) (sd_next db)" "deployed_entries addresses catalog \<noteq> Map.empty"
    and "db' = seed_main addresses catalog recipes aave pancake db"
  shows "entries_by_key (sd_steps db') = deployed_entries addresses catalog \<and> step_table_ok (sd_steps db') (sd_next db') \<and>
    (\<forall>r \<in> set (sd_steps db). row_key r \<in> dom (deployed_entries addresses catalog) \<longrightarrow>
       (\<exists>r' \<in> set (sd_steps db'). row_key r' = row_key r \<and> tr_id r' = tr_id r))"
proof -
  let ?old = "filter (\<lambda>r. tr_contractAddress r \<noteq> ZERO_ADDRESS) (sd_steps db)" and ?new = "deployed_entries addresses catalog"
  obtain rows fresh kept where f: "fold (upsert_step addresses) catalog (?old, sd_next db, []) = (rows, fresh, kept)" by (rule prod_cases3)
  have inv: "seed_inv ?old ?new (rows, fresh, kept)"
    using seed_loop [OF step_table_filter [OF assms(1)], of "\<lambda>r. tr_contractAddress r \<noteq> ZERO_ADDRESS" addresses catalog] f by simp
  then have ok: "step_table_ok rows fresh" and tbl: "entries_by_key rows = entries_by_key ?old ++ ?new"
    and ids: "\<And>r. r \<in> set rows \<Longrightarrow> tr_id r \<in> set kept \<longleftrightarrow> row_key r \<in> dom ?new" and ne: "kept \<noteq> []"
    and keep: "\<And>r. r \<in> set ?old \<Longrightarrow> \<exists>r' \<in> set rows. row_key r' = row_key r \<and> tr_id r' = tr_id r"
    using assms(2) by (auto simp: seed_inv_def list_all_iff)
  let ?rows = "filter (\<lambda>r. tr_id r \<in> set kept) rows"
  have db': "sd_steps db' = ?rows" "sd_next db' = fresh" using ne f by (simp_all add: assms(3) seed_main_steps seed_steps_def)
  have okf: "step_table_ok ?rows fresh" using ok by (rule step_table_filter)
  have "entries_by_key ?rows = ?new"
  proof (rule ext, rule option_eq_by_Some)
    fix k x
    have "entries_by_key ?rows k = Some x \<longleftrightarrow> k \<in> dom ?new \<and> entries_by_key rows k = Some x"
      using okf ok ids by (auto simp: entries_iff step_table_ok_def)
    then show "entries_by_key ?rows k = Some x \<longleftrightarrow> ?new k = Some x" by (auto simp: tbl map_add_def)
  qed
  moreover have "\<exists>r' \<in> set ?rows. row_key r' = row_key r \<and> tr_id r' = tr_id r" if r: "r \<in> set (sd_steps db)" "row_key r \<in> dom ?new" for r
  proof -
    have "tr_contractAddress r \<noteq> ZERO_ADDRESS"
    proof -
      obtain e where "?new (row_key r) = Some e" using r(2) by auto
      then have "e \<in> set (filter (\<lambda>e. seed_address addresses e \<noteq> ZERO_ADDRESS) catalog) \<and> (seed_address addresses e, ce_selector e) = row_key r"
        unfolding deployed_entries_def by (rule by_key_Some)
      then show ?thesis by (auto simp: row_key_def)
    qed
    with r(1) keep [of r] obtain x where x: "x \<in> set rows" "row_key x = row_key r" "tr_id x = tr_id r" by auto
    with ids [OF x(1)] r(2) have "x \<in> set ?rows" by simp
    with x show ?thesis by blast
  qed
  ultimately show ?thesis using okf unfolding db' by blast
qed

definition demo_entry :: "string \<Rightarrow> string \<Rightarrow> catalog_entry" where
  "demo_entry name key = \<lparr>ce_name = name, ce_description = [], ce_category = [], ce_contractKey = key, ce_selector = ''s'',
     ce_afterExecutionSelector = None, ce_properties = [], ce_components = []\<rparr>"

definition demo_seed_db :: seed_db where
  "demo_seed_db = \<lparr>sd_steps = [\<lparr>tr_id = 0, tr_contractAddress = ''0xa'', tr_entry = demo_entry ''old'' ''K''\<rparr>,
     \<lparr>tr_id = 1, tr_contractAddress = ''0xb'', tr_entry = demo_entry ''gone'' ''L''\<rparr>], sd_next = 2, sd_recipes = Map.empty, sd_tokens = Map.empty\<rparr>"

lemma seed_is_the_deployed_catalog_witness:
  "entries_by_key (sd_steps (seed_main [''K'' \<mapsto> ''0xa''] [demo_entry ''new'' ''K'', demo_entry ''later'' ''M''] [] [] [] demo_seed_db)) =
     [(''0xa'', ''s'') \<mapsto> demo_entry ''new'' ''K'']"
proof -
  have a: "seed_address [''K'' \<mapsto> ''0xa''] (demo_entry n ''K'') = ''0xa''" "seed_address [''K'' \<mapsto> ''0xa''] (demo_entry n ''M'') = ZERO_ADDRESS"
    "''0xa'' \<noteq> ZERO_ADDRESS" for n
    by (simp_all add: seed_address_def demo_entry_def ZERO_ADDRESS_def numeral_eq_Suc)
  have "deployed_entries [''K'' \<mapsto> ''0xa''] [demo_entry ''new'' ''K'', demo_entry ''later'' ''M''] = [(''0xa'', ''s'') \<mapsto> demo_entry ''new'' ''K'']"
    unfolding deployed_entries_def by (simp add: a by_key_def) (simp add: demo_entry_def)
  moreover have "step_table_ok (sd_steps demo_seed_db) (sd_next demo_seed_db)"
    by (simp add: step_table_ok_def demo_seed_db_def row_key_def demo_entry_def)
  ultimately show ?thesis
    using seed_is_the_deployed_catalog [of demo_seed_db "[''K'' \<mapsto> ''0xa'']" "[demo_entry ''new'' ''K'', demo_entry ''later'' ''M'']", OF _ _ refl]
    by auto
qed

end
