(* ===== verification/Reads.thy ===== *)
theory Reads
  imports Money History Catalog Portfolio Sessions
begin

text \<open>
  The MCP server's read side and its start: the read tools (read-tools.ts), the catalog tools
  (catalog-tools.ts), what the write tools load (automation-deps.ts), the configuration (config.ts,
  index.ts) and the onboarding (onboarding.ts). The tools run against the backend of the theories
  \<open>Automations\<close>, \<open>History\<close>, \<open>Portfolio\<close> and \<open>Catalog\<close>. Lemmas: the tools stay with the owner's vaults, what
  they show is what the backend holds, and a password is stored only when it opens the keystore.
\<close>

section \<open>Vaults\<close>

record vault_summary =
  vs_address :: string
  vs_label :: string
  vs_depositToken :: string
  vs_chainId :: nat

definition vault_summary_of :: "vault_record \<Rightarrow> vault_summary" where
  "vault_summary_of v = \<lparr>vs_address = vr_address v, vs_label = vr_label v, vs_depositToken = vr_depositToken v, vs_chainId = vr_chainId v\<rparr>"

text \<open>\<open>bc.get\<close>, and the error of a method call on an answer that is \<open>undefined\<close>.\<close>

definition bc_get :: "string \<Rightarrow> 'r api \<Rightarrow> (backend, js_error, 'r) io" where
  "bc_get path op = ibind (call_backend GET path op)
     (\<lambda>r. case r of None \<Rightarrow> ithrow (Thrown ''Cannot read properties of undefined'') | Some x \<Rightarrow> iret x)"

definition list_vaults_tool :: "string \<Rightarrow> (backend, js_error, vault_summary list) io" where
  "list_vaults_tool user = ibind (bc_get ''/vaults'' (\<lambda>b. (b, Inr (listVaults user b)))) (\<lambda>vs. iret (map vault_summary_of vs))"

text \<open>The route of the gas deposit, behind the guard of the vault's owner.\<close>

definition gas_route :: "backend_env \<Rightarrow> fee_chain \<Rightarrow> string \<Rightarrow> string \<Rightarrow> gas_deposit api" where
  "gas_route env fees user address =
     ibind (canActivate env (Some address) (Some user)) (\<lambda>_.
     ilift (case getVaultGasDeposit fees address of None \<Rightarrow> Inl (ApiInternal ''call failed'') | Some g \<Rightarrow> Inr g))"

definition get_vault_tool ::
  "backend_env \<Rightarrow> fee_chain \<Rightarrow> string \<Rightarrow> string \<Rightarrow> (backend, js_error, vault_summary \<times> gas_deposit) io" where
  "get_vault_tool env fees user address =
     ibind (list_vaults_tool user) (\<lambda>vaults.
       case List.find (\<lambda>v. lower (vs_address v) = lower address) vaults of
         None \<Rightarrow> ithrow (forbidden_vault address)
       | Some v \<Rightarrow> ibind (bc_get (''/vaults/'' @ address @ ''/gas-deposit'') (gas_route env fees user address)) (\<lambda>g. iret (v, g)))"

lemma bc_get_apply:
  "bc_get path op b = (case op b of (b', Inr x) \<Rightarrow> (b', Inr x)
     | (b', Inl e) \<Rightarrow> (b', Inl (case read_reply GET path \<lparr>ht_status = error_status e, ht_body = EmptyBody :: 'r reply_body\<rparr> of
         Inl e' \<Rightarrow> e' | Inr _ \<Rightarrow> Thrown ''Cannot read properties of undefined'')))"
  for op :: "'r api"
proof (cases "op b")
  case (Pair b' r)
  have "read_reply GET path \<lparr>ht_status = error_status e, ht_body = EmptyBody\<rparr> \<noteq> Inr (Some x)" for e and x :: 'r
    by (simp add: read_reply_def)
  with Pair show ?thesis
    by (cases r) (auto simp: bc_get_def ibind_def call_backend_eq split: sum.split option.split)
qed

lemma list_vaults_apply: "list_vaults_tool user b = (b, Inr (map vault_summary_of (listVaults user b)))"
  by (simp add: list_vaults_tool_def ibind_def bc_get_apply)

lemma gas_route_apply:
  "gas_route env fees user address b = (b, case snd (canActivate env (Some address) (Some user) b) of
     Inl e \<Rightarrow> Inl e | Inr v \<Rightarrow> (case getVaultGasDeposit fees address of None \<Rightarrow> Inl (ApiInternal ''call failed'') | Some g \<Rightarrow> Inr g))"
  by (simp add: gas_route_def ibind_def canActivate_def split: sum.splits)

text \<open>C12. The agent sees only vaults of the connected owner: what \<open>get_vault\<close> returns is a vault of the owner with
  the address asked for, whose gas deposit the owner guard let through; for any other address it is
  refused; and reading changes nothing.\<close>

theorem get_vault_stays_with_the_owner:
  "fst (get_vault_tool env fees user address b) = b \<and>
   (case snd (get_vault_tool env fees user address b) of
      Inr (v, g) \<Rightarrow> (\<exists>r \<in> set (bk_vaults b). vr_ownerAddress r = user \<and> v = vault_summary_of r \<and> lower (vr_address r) = lower address) \<and>
        (\<exists>r. assertOwnership env (Some address) (Some user) b = Inr r) \<and> getVaultGasDeposit fees address = Some g
    | Inl e \<Rightarrow> True) \<and>
   ((\<forall>r \<in> set (bk_vaults b). vr_ownerAddress r = user \<longrightarrow> lower (vr_address r) \<noteq> lower address) \<longrightarrow>
      snd (get_vault_tool env fees user address b) = Inl (forbidden_vault address))"
proof (cases "List.find (\<lambda>v. lower (vs_address v) = lower address) (map vault_summary_of (listVaults user b))")
  case None
  then have "get_vault_tool env fees user address b = (b, Inl (forbidden_vault address))"
    by (simp add: get_vault_tool_def ibind_def list_vaults_apply)
  then show ?thesis by simp
next
  case (Some v)
  then have "v \<in> set (map vault_summary_of (listVaults user b))" "lower (vs_address v) = lower address"
    using find_Some_in [OF Some] by simp_all
  then obtain r where r: "r \<in> set (bk_vaults b)" "vr_ownerAddress r = user" "v = vault_summary_of r" "lower (vr_address r) = lower address"
    by (auto simp: listVaults_def vault_summary_of_def)
  have run: "get_vault_tool env fees user address b =
      ibind (bc_get (''/vaults/'' @ address @ ''/gas-deposit'') (gas_route env fees user address)) (\<lambda>g. iret (v, g)) b"
    using Some by (simp add: get_vault_tool_def ibind_def list_vaults_apply)
  have keeps: "fst (get_vault_tool env fees user address b) = b"
    unfolding run by (simp add: ibind_def bc_get_apply gas_route_apply split: sum.splits option.splits)
  have ok: "v' = v \<and> (\<exists>r. assertOwnership env (Some address) (Some user) b = Inr r) \<and> getVaultGasDeposit fees address = Some g"
    if "snd (get_vault_tool env fees user address b) = Inr (v', g)" for v' g
    using that unfolding run
    by (auto simp: ibind_def bc_get_apply gas_route_apply canActivate_def split: sum.splits option.splits if_splits)
  have no: "\<not> (\<forall>r \<in> set (bk_vaults b). vr_ownerAddress r = user \<longrightarrow> lower (vr_address r) \<noteq> lower address)" using r by blast
  show ?thesis
  proof (cases "snd (get_vault_tool env fees user address b)")
    case (Inl e)
    with keeps no show ?thesis by auto
  next
    case (Inr q)
    then obtain v' g where q: "snd (get_vault_tool env fees user address b) = Inr (v', g)" by (cases q) auto
    from ok [OF q] r have "\<exists>r \<in> set (bk_vaults b). vr_ownerAddress r = user \<and> v' = vault_summary_of r \<and> lower (vr_address r) = lower address"
      by blast
    with keeps no ok [OF q] show ?thesis unfolding q by auto
  qed
qed

theorem get_vault_stays_with_the_owner_witness:
  "\<forall>fees. snd (get_vault_tool demo_backend_env fees ''O1'' ''A2'' demo_backend) = Inl (forbidden_vault ''A2'')"
proof -
  have "lower ''A1'' \<noteq> lower ''A2''" by code_simp
  then have "snd (get_vault_tool demo_backend_env fees ''O1'' ''A2'' demo_backend) = Inl (forbidden_vault ''A2'')" for fees
    using get_vault_stays_with_the_owner [of demo_backend_env fees "''O1''" "''A2''" demo_backend]
    by (simp add: demo_backend_def demo_vault_def)
  then show ?thesis by blast
qed

section \<open>The history\<close>

record executions_query =
  eq_automationId :: "int option"
  eq_page :: "int option"
  eq_pageSize :: "int option"

text \<open>
  The route of the history behind the owner guard; its parameters are the texts of the query string.
  \<open>iw\<close> is the part of the database that the indexer fills.
\<close>

definition executions_api ::
  "backend_env \<Rightarrow> (unified_row list \<Rightarrow> unified_row list) \<Rightarrow> index_world \<Rightarrow> string \<Rightarrow> string \<Rightarrow> executions_query \<Rightarrow> execution_page api" where
  "executions_api env storage iw user address q =
     ibind (canActivate env (Some address) (Some user)) (\<lambda>_.
     ilift (case executions_route storage address (map_option show_int (eq_automationId q)) (map_option show_int (eq_page q))
         (map_option show_int (eq_pageSize q)) iw of
         Inl VaultNotFound \<Rightarrow> Inl (ApiBadRequest ''VAULT_NOT_FOUND'')
       | Inl QueryFailed \<Rightarrow> Inl (ApiInternal ''query failed'')
       | Inr page \<Rightarrow> Inr page))"

record execution_run =
  er_source :: history_source
  er_txHash :: "string option"
  er_automationId :: "nat option"
  er_timestamp :: int
  er_gasComp :: "string option \<times> string option \<times> string option"

record execution_transfer =
  et_source :: history_source
  et_txHash :: "string option"
  et_event :: "(event_kind \<times> string \<times> nat \<times> nat \<times> nat) option"
  et_amountUsd :: "string option"
  et_timestamp :: int

record execution_failure =
  ef_source :: history_source
  ef_txHash :: "string option"
  ef_automationId :: "nat option"
  ef_reason :: "string option"
  ef_open :: "bool option"
  ef_attemptCount :: "nat option"
  ef_timestamp :: int

record executions_view =
  xv_total :: nat
  xv_page :: nat
  xv_pageSize :: nat
  xv_runs :: "execution_run list"
  xv_transfers :: "execution_transfer list"
  xv_failures :: "execution_failure list"

definition run_of :: "unified_row \<Rightarrow> execution_run" where
  "run_of r = \<lparr>er_source = hr_source r, er_txHash = hr_txHash r, er_automationId = hr_automationId r, er_timestamp = hr_blockTimestamp r,
     er_gasComp = (hr_gasCompAmount r, hr_gasCompToken r, hr_gasCompUsd r)\<rparr>"

definition transfer_of :: "unified_row \<Rightarrow> execution_transfer" where
  "transfer_of r = \<lparr>et_source = hr_source r, et_txHash = hr_txHash r, et_event = hr_event r, et_amountUsd = hr_amountUsd r,
     et_timestamp = hr_blockTimestamp r\<rparr>"

definition failed_of :: "unified_row \<Rightarrow> execution_failure" where
  "failed_of r = \<lparr>ef_source = hr_source r, ef_txHash = hr_txHash r, ef_automationId = hr_automationId r,
     ef_reason = map_option (\<lambda>(op, msg, n, rest). msg) (hr_failure r), ef_open = map_option fst (hr_failure r),
     ef_attemptCount = map_option (\<lambda>(op, msg, n, rest). n) (hr_failure r), ef_timestamp = hr_blockTimestamp r\<rparr>"

fun buckets :: "unified_row list \<Rightarrow> execution_run list \<times> execution_transfer list \<times> execution_failure list" where
  "buckets [] = ([], [], [])"
| "buckets (r # rows) = (case buckets rows of (runs, transfers, failures) \<Rightarrow>
     (case hr_source r of
        ExecutionId tx i \<Rightarrow> (run_of r # runs, transfers, failures)
      | EventId tx i \<Rightarrow> (runs, transfer_of r # transfers, failures)
      | FailureId i \<Rightarrow> (runs, transfers, failed_of r # failures)))"

definition view_of :: "execution_page \<Rightarrow> executions_view" where
  "view_of p = (case buckets (ep_rows p) of (runs, transfers, failures) \<Rightarrow>
     \<lparr>xv_total = ep_total p, xv_page = ep_page p, xv_pageSize = ep_pageSize p, xv_runs = runs, xv_transfers = transfers, xv_failures = failures\<rparr>)"

definition get_executions_tool ::
  "backend_env \<Rightarrow> (unified_row list \<Rightarrow> unified_row list) \<Rightarrow> index_world \<Rightarrow> string \<Rightarrow> string \<Rightarrow> executions_query \<Rightarrow>
   (backend, js_error, executions_view) io" where
  "get_executions_tool env storage iw user address q =
     ibind (bc_get (''/vaults/'' @ address @ ''/executions'') (executions_api env storage iw user address q)) (\<lambda>p. iret (view_of p))"

fun source_kind :: "history_source \<Rightarrow> nat" where
  "source_kind (ExecutionId tx i) = 0"
| "source_kind (EventId tx i) = 1"
| "source_kind (FailureId i) = 2"

lemma buckets_eq:
  "buckets rows = (map run_of (filter (\<lambda>r. source_kind (hr_source r) = 0) rows),
     map transfer_of (filter (\<lambda>r. source_kind (hr_source r) = 1) rows), map failed_of (filter (\<lambda>r. source_kind (hr_source r) = 2) rows))"
  by (induction rows) (auto split: history_source.split)

lemma source_kinds: "source_kind s < 3"
  by (cases s) simp_all

lemma kinds_partition: "length (filter (\<lambda>r. source_kind (hr_source r) = 0) rows) + length (filter (\<lambda>r. source_kind (hr_source r) = 1) rows) +
    length (filter (\<lambda>r. source_kind (hr_source r) = 2) rows) = length rows"
proof (induction rows)
  case (Cons r rows)
  then show ?case using source_kinds [of "hr_source r"] by auto
qed simp

lemma page_query: "1 \<le> p \<Longrightarrow> p < 10 ^ 21 \<Longrightarrow> page_param (Some (show_int (int p))) = Some p"
  "1 \<le> s \<Longrightarrow> s \<le> 100 \<Longrightarrow> size_param (Some (show_int (int s))) = s"
  by (simp_all add: page_param_def size_param_def param_number_def at_least_one_def show_int_def small_nat_num)

text \<open>What the agent reads of a vault's history is the page that the backend holds: for its own vault and a page
  of at most a hundred rows, the runs, transfers and failures are the rows of that page, each in exactly one of the
  three lists and in the order of the page, with the backend's total.\<close>

theorem agent_history_is_the_page:
  assumes "assertOwnership env (Some address) (Some user) b = Inr v" "address \<noteq> []"
    and "find_vault address iw = Some vaultId"
    and "1 \<le> p" "p < 10 ^ 21" "1 \<le> s" "s \<le> 100"
  shows "\<exists>x. get_executions_tool env storage iw user address \<lparr>eq_automationId = None, eq_page = Some (int p), eq_pageSize = Some (int s)\<rparr> b = (b, Inr x) \<and>
    (let rows = page_rows p s (storage (history_rows vaultId None iw)) in
     xv_total x = length (history_rows vaultId None iw) \<and>
     map er_source (xv_runs x) = filter (\<lambda>i. source_kind i = 0) (map hr_source rows) \<and>
     map et_source (xv_transfers x) = filter (\<lambda>i. source_kind i = 1) (map hr_source rows) \<and>
     map ef_source (xv_failures x) = filter (\<lambda>i. source_kind i = 2) (map hr_source rows) \<and>
     length (xv_runs x) + length (xv_transfers x) + length (xv_failures x) = length rows)"
proof -
  let ?q = "\<lparr>eq_automationId = None, eq_page = Some (int p), eq_pageSize = Some (int s)\<rparr>"
  let ?rows = "page_rows p s (storage (history_rows vaultId None iw))"
  let ?page = "\<lparr>ep_rows = ?rows, ep_total = length (history_rows vaultId None iw), ep_page = p, ep_pageSize = s\<rparr>"
  have "executions_api env storage iw user address ?q b = (b, Inr ?page)"
    using assms(1-3) page_query(1) [OF assms(4,5)] page_query(2) [OF assms(6,7)]
    by (simp add: executions_api_def ibind_def canActivate_def executions_route_def automation_param_def getExecutions_rows)
  then have run: "get_executions_tool env storage iw user address ?q b = (b, Inr (view_of ?page))"
    by (simp add: get_executions_tool_def ibind_def bc_get_apply)
  have "map er_source (xv_runs (view_of ?page)) = filter (\<lambda>i. source_kind i = 0) (map hr_source ?rows)"
    "map et_source (xv_transfers (view_of ?page)) = filter (\<lambda>i. source_kind i = 1) (map hr_source ?rows)"
    "map ef_source (xv_failures (view_of ?page)) = filter (\<lambda>i. source_kind i = 2) (map hr_source ?rows)"
    by (simp_all add: view_of_def buckets_eq run_of_def transfer_of_def failed_of_def filter_map o_def)
  moreover have "length (xv_runs (view_of ?page)) + length (xv_transfers (view_of ?page)) + length (xv_failures (view_of ?page)) = length ?rows"
    using kinds_partition [of ?rows] by (simp add: view_of_def buckets_eq)
  moreover have "xv_total (view_of ?page) = length (history_rows vaultId None iw)" by (simp add: view_of_def buckets_eq)
  ultimately show ?thesis unfolding Let_def using run by blast
qed

lemma demo_index_found: "find_vault ''A1'' ((demo_history [demo_run ''x'' 7])\<lparr>iw_vaults := [(''v'', ''A1'', None)]\<rparr>) = Some ''v''"
  by (simp add: find_vault_def)

theorem agent_history_is_the_page_witness:
  "\<exists>x. get_executions_tool demo_backend_env rev ((demo_history [demo_run ''x'' 7])\<lparr>iw_vaults := [(''v'', ''A1'', None)]\<rparr>) ''O1'' ''A1''
     \<lparr>eq_automationId = None, eq_page = Some 1, eq_pageSize = Some 20\<rparr> demo_backend = (demo_backend, Inr x) \<and>
     length (xv_runs x) + length (xv_transfers x) + length (xv_failures x) =
       length (page_rows 1 20 (rev (history_rows ''v'' None ((demo_history [demo_run ''x'' 7])\<lparr>iw_vaults := [(''v'', ''A1'', None)]\<rparr>))))"
  using agent_history_is_the_page [OF demo_guard_passes(1) _ demo_index_found, of 1 20 rev] by (auto simp: Let_def)

text \<open>
  The guard reads any spelling of an address, the history only the stored one: in another spelling the
  vault can be read, its history cannot.
\<close>

definition folding_env :: backend_env where
  "folding_env = demo_backend_env\<lparr>be_getAddress := (\<lambda>a. Some (if a = ''a1'' then ''A1'' else a))\<rparr>"

text \<open>In another spelling of its address the owner's vault passes the guard and its details are shown, while its
  history is answered with an error.\<close>

theorem other_spelling_has_no_history:
  assumes "assertOwnership env (Some address) (Some user) b = Inr v" "address \<noteq> []" "find_vault address iw = None"
  shows "\<exists>e. get_executions_tool env storage iw user address \<lparr>eq_automationId = None, eq_page = None, eq_pageSize = None\<rparr> b = (b, Inl e) \<and>
    (r \<in> set (bk_vaults b) \<and> vr_ownerAddress r = user \<and> lower (vr_address r) = lower address \<and> getVaultGasDeposit fees address = Some g \<longrightarrow>
      (\<exists>x. get_vault_tool env fees user address b = (b, Inr (x, g))))"
proof -
  have page: "page_param None = Some 1"
    by (simp add: page_param_def param_number_def at_least_one_def num_fin_small num_limit_def)
  have "\<exists>e. get_executions_tool env storage iw user address \<lparr>eq_automationId = None, eq_page = None, eq_pageSize = None\<rparr> b = (b, Inl e)"
    using assms by (simp add: get_executions_tool_def ibind_def bc_get_apply executions_api_def canActivate_def executions_route_def
        page getExecutions_def)
  moreover have "\<exists>x. get_vault_tool env fees user address b = (b, Inr (x, g))"
    if r: "r \<in> set (bk_vaults b)" "vr_ownerAddress r = user" "lower (vr_address r) = lower address" "getVaultGasDeposit fees address = Some g"
  proof -
    have "vault_summary_of r \<in> set (map vault_summary_of (listVaults user b))" "lower (vs_address (vault_summary_of r)) = lower address"
      using r(1-3) by (auto simp: listVaults_def vault_summary_of_def)
    then have "List.find (\<lambda>v. lower (vs_address v) = lower address) (map vault_summary_of (listVaults user b)) \<noteq> None"
      unfolding find_None_iff by blast
    then obtain x where "List.find (\<lambda>v. lower (vs_address v) = lower address) (map vault_summary_of (listVaults user b)) = Some x" by blast
    then show ?thesis using assms(1,2) r(4)
      by (simp add: get_vault_tool_def ibind_def list_vaults_apply bc_get_apply gas_route_apply canActivate_def)
  qed
  ultimately show ?thesis by blast
qed

theorem other_spelling_has_no_history_witness:
  "\<exists>e. get_executions_tool folding_env id (demo_history []) ''O1'' ''a1'' \<lparr>eq_automationId = None, eq_page = None, eq_pageSize = None\<rparr> demo_backend =
     (demo_backend, Inl e)"
proof -
  have g: "assertOwnership folding_env (Some ''a1'') (Some ''O1'') demo_backend = Inr (demo_vault ''v1'' ''A1'' ''O1'')"
    by (simp add: assertOwnership_def folding_env_def demo_backend_def vault_at_def demo_vault_def)
  have f: "find_vault ''a1'' (demo_history []) = None" by (simp add: find_vault_def demo_history_def)
  have "''a1'' \<noteq> []" by simp
  from other_spelling_has_no_history [OF g this f] show ?thesis by blast
qed

section \<open>The catalog\<close>

text \<open>\<open>GET /step-types\<close> sends every row of the table; the tools leave out the steps that are not deployed.\<close>

definition deployed_row :: "step_type_row \<Rightarrow> bool" where
  "deployed_row r \<longleftrightarrow> lower (tr_contractAddress r) \<noteq> ZERO_ADDRESS"

definition listStepTypes :: "step_type_row list \<Rightarrow> (nat \<times> string \<times> string \<times> string) list" where
  "listStepTypes rows = map (\<lambda>r. (tr_id r, ce_name (tr_entry r), ce_category (tr_entry r), ce_description (tr_entry r)))
     (filter deployed_row rows)"

text \<open>The fields with a slot widget, by their access.\<close>

definition deriveContextSlots :: "(string \<times> catalog_field) list \<Rightarrow> string list \<times> string list" where
  "deriveContextSlots props =
     (let slots = filter (\<lambda>(k, f). f_widget f = Some ''context-slot'') props in
      (map fst (filter (\<lambda>(k, f). f_slot_access f = Some ''read'') slots),
       map fst (filter (\<lambda>(k, f). f_slot_access f = Some ''write'') slots)))"

definition describeStepType :: "step_type_row list \<Rightarrow> nat \<Rightarrow> (step_type_row \<times> string list \<times> string list) option" where
  "describeStepType rows i = map_option (\<lambda>r. (r, deriveContextSlots (ce_properties (tr_entry r)))) (List.find (\<lambda>r. tr_id r = i) rows)"

definition load_catalog :: "step_type_row list \<Rightarrow> (nat \<rightharpoonup> catalog_step)" where
  "load_catalog rows = fold (\<lambda>r m. m(tr_id r \<mapsto> as_catalog_step (tr_entry r))) (filter deployed_row rows) Map.empty"

text \<open>The tools and the write side agree on the steps there are.\<close>

lemma load_catalog_dom: "dom (load_catalog rows) = set (map fst (listStepTypes rows))"
proof -
  have d: "dom (fold (\<lambda>r m. m(tr_id r \<mapsto> as_catalog_step (tr_entry r))) rs m) = dom m \<union> tr_id ` set rs" for rs m
    by (induction rs arbitrary: m) auto
  show ?thesis unfolding load_catalog_def d by (simp add: listStepTypes_def image_image)
qed

text \<open>A slot that a step both reads and writes is described to the agent as neither read nor written.\<close>

theorem read_write_slots_are_not_described:
  assumes "(k, f) \<in> set props" "distinct (map fst props)" "f_slot_access f = Some ''read-write''"
  shows "k \<notin> set (fst (deriveContextSlots props)) \<and> k \<notin> set (snd (deriveContextSlots props))"
proof -
  have "f' = f" if "(k, f') \<in> set props" for f'
    using assms(1,2) that by (metis map_of_eq_Some_iff option.inject)
  with assms(3) show ?thesis by (auto simp: deriveContextSlots_def Let_def)
qed

text \<open>The time slot of the interval condition (prisma/seed/catalog/core.ts).\<close>

definition time_slot_field :: catalog_field where
  "time_slot_field = \<lparr>f_title = None, f_default = JUndef, f_widget = Some ''context-slot'', f_slot_access = Some ''read-write'',
     f_zero_toggle = JUndef, f_amount_token_field = None, f_target_hf_field = None, f_tick_lower_field = None,
     f_tick_upper_field = None, f_time_slot_field = None, f_role = JUndef, cf_description = None, cf_hidden = True, cf_modes = None\<rparr>"

theorem read_write_slots_are_not_described_witness:
  "''timeSlot'' \<notin> set (fst (deriveContextSlots [(''timeSlot'', time_slot_field)]))"
  using read_write_slots_are_not_described [of "''timeSlot''" time_slot_field "[(''timeSlot'', time_slot_field)]"]
  by (simp add: time_slot_field_def)

section \<open>Token decimals\<close>

record raw_token =
  rt_address :: "string option"
  rt_decimals :: "jsnum option"

text \<open>One endpoint; every failure counts as no tokens.\<close>

definition safe_tokens :: "js_error + raw_token list \<Rightarrow> raw_token list" where
  "safe_tokens r = (case r of Inl e \<Rightarrow> [] | Inr ts \<Rightarrow> ts)"

definition add_token :: "raw_token \<Rightarrow> token_decimals \<Rightarrow> token_decimals" where
  "add_token t m = (case (rt_address t, rt_decimals t) of
      (Some a, Some d) \<Rightarrow> if a \<noteq> [] then m(lower a \<mapsto> d) else m
    | _ \<Rightarrow> m)"

definition token_paths :: "string list" where
  "token_paths = [''/tokens?protocol=aave'', ''/tokens?protocol=pancakeswap'', ''/tokens/accepted'']"

definition loadTokenDecimals :: "(string \<Rightarrow> js_error + raw_token list) \<Rightarrow> token_decimals" where
  "loadTokenDecimals fetch = fold add_token (concat (map (\<lambda>p. safe_tokens (fetch p)) token_paths)) Map.empty"

text \<open>The cache of the server, good for a minute.\<close>

definition getTokenDecimals ::
  "(string \<Rightarrow> js_error + raw_token list) \<Rightarrow> int \<Rightarrow> (token_decimals \<times> int) option \<Rightarrow> (token_decimals \<times> int) option \<times> token_decimals" where
  "getTokenDecimals fetch now cache =
     (case cache of
        Some (m, ts) \<Rightarrow> if now - ts > 60000 then (Some (loadTokenDecimals fetch, now), loadTokenDecimals fetch) else (cache, m)
      | None \<Rightarrow> (Some (loadTokenDecimals fetch, now), loadTokenDecimals fetch))"

lemma fold_add_token_None:
  "(\<And>t. t \<in> set ts \<Longrightarrow> map_option lower (rt_address t) \<noteq> Some a) \<Longrightarrow> fold add_token ts m a = m a"
proof (induction ts arbitrary: m)
  case (Cons t ts)
  then have "add_token t m a = m a" by (auto simp: add_token_def split: option.splits)
  moreover have "fold add_token ts (add_token t m) a = add_token t m a" using Cons.prems by (intro Cons.IH) auto
  ultimately show ?case by simp
qed simp

text \<open>A token list that could not be read once is missing for a minute: until then the money tools refuse its
  tokens, also when the list can be read again.\<close>

theorem unread_tokens_are_refused_for_a_minute:
  assumes "fetch ''/tokens/accepted'' = Inl e"
    and "\<And>p t. p \<in> {''/tokens?protocol=aave'', ''/tokens?protocol=pancakeswap''} \<Longrightarrow> t \<in> set (safe_tokens (fetch p)) \<Longrightarrow>
      map_option lower (rt_address t) \<noteq> Some (lower token)"
    and "getTokenDecimals fetch t0 None = (cache, m)" "t \<le> t0 + 60000"
  shows "tokenDecimalsOf (snd (getTokenDecimals fetch' t cache)) token = Inl (NotCurated token)"
proof -
  have "loadTokenDecimals fetch (lower token) = Map.empty (lower token)"
    unfolding loadTokenDecimals_def
    by (rule fold_add_token_None) (use assms(1,2) in \<open>auto simp: token_paths_def safe_tokens_def\<close>)
  moreover have "cache = Some (loadTokenDecimals fetch, t0)" using assms(3) by (auto simp: getTokenDecimals_def)
  ultimately show ?thesis using assms(4) by (simp add: getTokenDecimals_def tokenDecimalsOf_def)
qed

theorem unread_tokens_are_refused_for_a_minute_witness:
  "tokenDecimalsOf (snd (getTokenDecimals (\<lambda>p. Inr [\<lparr>rt_address = Some ''0xa'', rt_decimals = Some (Fin 18)\<rparr>]) 60000
     (fst (getTokenDecimals (\<lambda>p. Inl (Thrown ''timeout'')) 0 None)))) ''0xa'' = Inl (NotCurated ''0xa'')"
proof -
  let ?f = "\<lambda>p::string. (Inl (Thrown ''timeout'') :: js_error + raw_token list)"
  obtain cache m where c: "getTokenDecimals ?f 0 None = (cache, m)" by fastforce
  have "tokenDecimalsOf (snd (getTokenDecimals (\<lambda>p. Inr [\<lparr>rt_address = Some ''0xa'', rt_decimals = Some (Fin 18)\<rparr>]) 60000 cache)) ''0xa'' =
      Inl (NotCurated ''0xa'')"
    by (rule unread_tokens_are_refused_for_a_minute [OF refl _ c]) (simp_all add: safe_tokens_def)
  with c show ?thesis by simp
qed

section \<open>Configuration\<close>

record mcp_config =
  mf_backendUrl :: string
  mf_frontendUrl :: string
  mf_chainId :: jsnum
  mf_keystorePath :: string
  mf_keychainAccount :: string
  mf_readOnly :: bool
  mf_rpcUrl :: "string option"
  mf_factoryAddress :: "string option"
  mf_pcsFactoryAddress :: string
  mf_auditLogPath :: string
  mf_addressAllowlist :: "string set"
  mf_enabledSensitiveSteps :: "string set"
  mf_maxPerToken :: "string \<rightharpoonup> string"

definition required :: "(string \<rightharpoonup> string) \<Rightarrow> string \<Rightarrow> js_error + string" where
  "required env key = (case env key of
      Some v \<Rightarrow> if js_trim v = [] then Inl (Thrown (''Fehlende Konfiguration: '' @ key)) else Inr v
    | None \<Rightarrow> Inl (Thrown (''Fehlende Konfiguration: '' @ key)))"

definition trimmed :: "string option \<Rightarrow> string option" where
  "trimmed v = (case map_option js_trim v of Some [] \<Rightarrow> None | r \<Rightarrow> r)"

text \<open>A leading \<open>~\<close> that is all of the path or is followed by a separator (92 is the backslash).\<close>

fun expandHome :: "string \<Rightarrow> string \<Rightarrow> string" where
  "expandHome home [] = []"
| "expandHome home (c # r) =
     (if c = CHR ''~'' \<and> (r = [] \<or> hd r = CHR ''/'' \<or> hd r = CHR 92) then home @ r else c # r)"

definition loadConfig :: "string \<Rightarrow> (string \<rightharpoonup> string) \<Rightarrow> js_error + mcp_config" where
  "loadConfig home env =
     rbind (required env ''PECUNITY_BACKEND_URL'') (\<lambda>backendUrl.
     rbind (required env ''PECUNITY_FRONTEND_URL'') (\<lambda>frontendUrl.
     rbind (required env ''PECUNITY_KEYSTORE_PATH'') (\<lambda>keystorePath.
     Inr \<lparr>mf_backendUrl = backendUrl, mf_frontendUrl = frontendUrl,
       mf_chainId = (if env ''PECUNITY_CHAIN_ID'' \<in> {None, Some []} then Fin 56 else num_of_string (the (env ''PECUNITY_CHAIN_ID''))),
       mf_keystorePath = expandHome home keystorePath,
       mf_keychainAccount = or_else (trimmed (env ''PECUNITY_KEYCHAIN_ACCOUNT'')) ''default'',
       mf_readOnly = (env ''PECUNITY_READ_ONLY'' = Some ''true''),
       mf_rpcUrl = trimmed (env ''PECUNITY_RPC_URL''),
       mf_factoryAddress = trimmed (env ''PECUNITY_FACTORY_ADDRESS''),
       mf_pcsFactoryAddress = or_else (trimmed (env ''PECUNITY_PCS_FACTORY_ADDRESS'')) ''0x0BFbCF9fa4f9C56B0F40a671Ad40E0805A091865'',
       mf_auditLogPath = expandHome home (or_else (trimmed (env ''PECUNITY_AUDIT_LOG_PATH'')) ''~/.pecunity/audit.log''),
       mf_addressAllowlist = lower ` set (parseList (env ''PECUNITY_ADDRESS_ALLOWLIST'')),
       mf_enabledSensitiveSteps = set (parseList (env ''PECUNITY_ENABLED_SENSITIVE_STEPS'')),
       mf_maxPerToken = parseTokenAmounts (env ''PECUNITY_MAX_AMOUNT_PER_TOKEN'')\<rparr>)))"

lemma config_missing_iff:
  "(\<exists>e. loadConfig home env = Inl e) \<longleftrightarrow>
     (\<exists>k \<in> {''PECUNITY_BACKEND_URL'', ''PECUNITY_FRONTEND_URL'', ''PECUNITY_KEYSTORE_PATH''}. trimmed (env k) = None)"
proof -
  have "(\<exists>e. required env k = Inl e) \<longleftrightarrow> trimmed (env k) = None" for k
    by (auto simp: required_def trimmed_def split: option.splits list.splits)
  moreover have "(\<exists>e. loadConfig home env = Inl e) \<longleftrightarrow> (\<exists>e. required env ''PECUNITY_BACKEND_URL'' = Inl e) \<or>
      (\<exists>e. required env ''PECUNITY_FRONTEND_URL'' = Inl e) \<or> (\<exists>e. required env ''PECUNITY_KEYSTORE_PATH'' = Inl e)"
    unfolding loadConfig_def
    by (cases "required env ''PECUNITY_BACKEND_URL''"; cases "required env ''PECUNITY_FRONTEND_URL''";
        cases "required env ''PECUNITY_KEYSTORE_PATH''") simp_all
  ultimately show ?thesis by simp
qed

text \<open>The tools the server registers: without an RPC endpoint none that signs.\<close>

definition READ_TOOLS :: "string list" where
  "READ_TOOLS = [''whoami'', ''list_vaults'', ''get_vault'', ''get_portfolio'', ''list_automations'', ''get_executions'', ''get_positions'',
     ''get_performance'', ''get_value_history'', ''list_step_types'', ''describe_step_type'', ''list_recipes'']"

definition registered_tools :: "mcp_config \<Rightarrow> string list" where
  "registered_tools c = READ_TOOLS @ [''propose_automation''] @
     (if mf_rpcUrl c \<noteq> None \<and> mf_factoryAddress c \<noteq> None then [''create_vault''] else []) @
     (if mf_rpcUrl c \<noteq> None then [''deploy_automation'', ''deposit'', ''withdraw'', ''simulate_action'', ''top_up_gas_deposit'',
        ''set_min_fee_deposit'', ''set_automation_active''] else [])"

section \<open>Onboarding\<close>

record keychain_world =
  kw_passwords :: "string \<rightharpoonup> string"
  kw_output :: "string list"

record onboarding_deps =
  ob_account :: string
  ob_keystorePath :: string
  ob_readKeystoreFile :: "js_error + string"
  ob_promptPassword :: string
  ob_writable :: bool

text \<open>\<open>unlock\<close> is \<open>WalletSigner.fromKeystore\<close>; \<open>ob_writable\<close> says whether the keychain takes the password.\<close>

definition performOnboarding ::
  "(string \<Rightarrow> string \<Rightarrow> js_error + client_config) \<Rightarrow> onboarding_deps \<Rightarrow> (keychain_world, js_error, unit) io" where
  "performOnboarding unlock deps w =
     (case ob_readKeystoreFile deps of
        Inl e \<Rightarrow> (w, Inl (Thrown (''Keystore-Datei nicht lesbar: '' @ ob_keystorePath deps)))
      | Inr keystoreJson \<Rightarrow>
          if ob_promptPassword deps = [] then (w, Inl (Thrown ''Abgebrochen: kein Passwort eingegeben.''))
          else (case unlock keystoreJson (ob_promptPassword deps) of
              Inl e \<Rightarrow> (w, Inl (Thrown ''Passwort entschluesselt den Keystore nicht''))
            | Inr signer \<Rightarrow>
                if \<not> ob_writable deps then (w, Inl (Thrown ''Keychain''))
                else (w\<lparr>kw_passwords := (kw_passwords w)(ob_account deps \<mapsto> ob_promptPassword deps),
                        kw_output := kw_output w @ [''Verifiziert: '' @ ob_account deps, ''  Owner-Adresse: '' @ cc_address signer]\<rparr>, Inr ())))"

text \<open>What the server's start reads after it.\<close>

definition session_deps_of :: "(string \<Rightarrow> string \<Rightarrow> js_error + client_config) \<Rightarrow> onboarding_deps \<Rightarrow> keychain_world \<Rightarrow> session_deps" where
  "session_deps_of unlock deps w = \<lparr>sd_readPassword = Inr (kw_passwords w (ob_account deps)), sd_readKeystoreFile = ob_readKeystoreFile deps,
     sd_fromKeystore = unlock\<rparr>"

text \<open>A password enters the keychain only when it opens the keystore: an onboarding that fails leaves the keychain
  and the output as they were, and after one that succeeds the server finds with the stored password the
  signer whose address was shown.\<close>

theorem onboarding_stores_what_opens:
  assumes "performOnboarding unlock deps w = (w', r)"
  shows "case r of
      Inl e \<Rightarrow> w' = w
    | Inr _ \<Rightarrow> \<exists>cfg. load_signer (session_deps_of unlock deps w') path = Inr cfg \<and>
        last (kw_output w') = ''  Owner-Adresse: '' @ cc_address cfg \<and>
        kw_passwords w' = (kw_passwords w)(ob_account deps \<mapsto> ob_promptPassword deps)"
  using assms
  by (auto simp: performOnboarding_def load_signer_def session_deps_of_def split: sum.splits if_splits)

theorem onboarding_stores_what_opens_witness:
  "fst (performOnboarding (\<lambda>j p. Inl (Thrown ''bad'')) \<lparr>ob_account = ''default'', ob_keystorePath = ''k.json'', ob_readKeystoreFile = Inr ''{}'',
      ob_promptPassword = ''pw'', ob_writable = True\<rparr> \<lparr>kw_passwords = Map.empty, kw_output = []\<rparr>) = \<lparr>kw_passwords = Map.empty, kw_output = []\<rparr>"
proof -
  let ?deps = "\<lparr>ob_account = ''default'', ob_keystorePath = ''k.json'', ob_readKeystoreFile = Inr ''{}'', ob_promptPassword = ''pw'', ob_writable = True\<rparr>"
  have run: "performOnboarding (\<lambda>j p. Inl (Thrown ''bad'')) ?deps \<lparr>kw_passwords = Map.empty, kw_output = []\<rparr> =
     (\<lparr>kw_passwords = Map.empty, kw_output = []\<rparr>, Inl (Thrown ''Passwort entschluesselt den Keystore nicht''))"
    by (simp add: performOnboarding_def)
  from onboarding_stores_what_opens [OF run] show ?thesis unfolding run by simp
qed

end
