(* ===== verification/Ticks.thy ===== *)
theory Ticks
  imports Editor Complex_Main
begin

text \<open>
  The tick arithmetic of the range widgets (lib/ticks.ts). The code computes with doubles and the natural
  logarithm; here prices and ticks are real numbers, so the theorems are about the formulas and not about
  the last digits of a double. Lemmas: the computed range is a range of the chosen tier that covers
  the prices, in whichever order the tokens are given, and a preset width reopens as itself.
\<close>

section \<open>The functions\<close>

text \<open>\<open>1.0001\<close>, the price step of one tick.\<close>

definition tick_base :: real where
  "tick_base = 10001 / 10000"

definition feeToSpacing :: "jsnum \<Rightarrow> int" where
  "feeToSpacing fee =
     (if fee = Fin 100 then 1 else if fee = Fin 500 then 10 else if fee = Fin 2500 then 50 else if fee = Fin 10000 then 200 else 10)"

definition priceToTick :: "real \<Rightarrow> int \<Rightarrow> int \<Rightarrow> real" where
  "priceToTick price dec0 dec1 = ln (price * 10 powr (of_int (dec1 - dec0))) / ln tick_base"

definition roundTickDown :: "real \<Rightarrow> int \<Rightarrow> int" where
  "roundTickDown tick spacing = \<lfloor>tick / of_int spacing\<rfloor> * spacing"

definition roundTickUp :: "real \<Rightarrow> int \<Rightarrow> int" where
  "roundTickUp tick spacing = \<lceil>tick / of_int spacing\<rceil> * spacing"

text \<open>\<open>Math.round\<close>.\<close>

definition js_round :: "real \<Rightarrow> int" where
  "js_round x = \<lfloor>x + 1 / 2\<rfloor>"

definition presetTickDelta :: "real \<Rightarrow> int" where
  "presetTickDelta pct = js_round (ln (1 + pct / 100) / ln tick_base)"

definition tickDeltaToPct :: "real \<Rightarrow> real" where
  "tickDeltaToPct tickDelta = (exp (tickDelta * ln tick_base) - 1) * 100"

text \<open>\<open><\<close> on strings: the order of their code units.\<close>

fun string_less :: "string \<Rightarrow> string \<Rightarrow> bool" where
  "string_less xs [] = False"
| "string_less [] (y # ys) = True"
| "string_less (x # xs) (y # ys) = (code x < code y \<or> (x = y \<and> string_less xs ys))"

record explicit_ticks_input =
  xt_minPrice :: real
  xt_maxPrice :: real
  xt_tokenA :: string
  xt_tokenB :: string
  xt_decA :: int
  xt_decB :: int
  xt_fee :: jsnum

definition raw_ticks :: "explicit_ticks_input \<Rightarrow> real \<times> real" where
  "raw_ticks i =
     (if string_less (lower (xt_tokenA i)) (lower (xt_tokenB i))
      then (priceToTick (xt_minPrice i) (xt_decA i) (xt_decB i), priceToTick (xt_maxPrice i) (xt_decA i) (xt_decB i))
      else (priceToTick (1 / xt_maxPrice i) (xt_decB i) (xt_decA i), priceToTick (1 / xt_minPrice i) (xt_decB i) (xt_decA i)))"

definition computeExplicitTicks :: "explicit_ticks_input \<Rightarrow> int \<times> int" where
  "computeExplicitTicks i = (case raw_ticks i of (lowerTick, upperTick) \<Rightarrow>
     (roundTickDown lowerTick (feeToSpacing (xt_fee i)), roundTickUp upperTick (feeToSpacing (xt_fee i))))"

section \<open>Rounding outward\<close>

lemma ln_tick_base: "0 < ln tick_base" "1 < tick_base"
  by (simp_all add: tick_base_def)

lemma spacing_pos: "0 < feeToSpacing fee"
  by (simp add: feeToSpacing_def)

lemma round_down:
  assumes "0 < s"
  shows "s dvd roundTickDown t s" "of_int (roundTickDown t s) \<le> t" "t < of_int (roundTickDown t s) + of_int s"
  using assms floor_divide_lower [of "of_int s" t] floor_divide_upper [of "of_int s" t]
  by (simp_all add: roundTickDown_def distrib_right)

lemma round_up:
  assumes "0 < s"
  shows "s dvd roundTickUp t s" "t \<le> of_int (roundTickUp t s)" "of_int (roundTickUp t s) < t + of_int s"
  using assms ceiling_divide_upper [of "of_int s" t] ceiling_divide_lower [of "of_int s" t]
  by (simp_all add: roundTickUp_def left_diff_distrib)

lemma priceToTick_mono: "0 < p \<Longrightarrow> p \<le> q \<Longrightarrow> priceToTick p d e \<le> priceToTick q d e"
  unfolding priceToTick_def using ln_tick_base by (intro divide_right_mono) simp_all

lemma priceToTick_strict: "0 < p \<Longrightarrow> p < q \<Longrightarrow> priceToTick p d e < priceToTick q d e"
  unfolding priceToTick_def using ln_tick_base by (intro divide_strict_right_mono) simp_all

lemma raw_ticks_less: "0 < xt_minPrice i \<Longrightarrow> xt_minPrice i < xt_maxPrice i \<Longrightarrow> fst (raw_ticks i) < snd (raw_ticks i)"
  by (auto simp: raw_ticks_def intro!: priceToTick_strict divide_strict_left_mono)


definition demo_range :: explicit_ticks_input where
  "demo_range = \<lparr>xt_minPrice = 1, xt_maxPrice = 1001 / 1000, xt_tokenA = ''0xa'', xt_tokenB = ''0xb'', xt_decA = 18, xt_decB = 18,
     xt_fee = Fin 500\<rparr>"

lemma demo_tokens_order: "string_less (lower ''0xa'') (lower ''0xb'')" "\<not> string_less (lower ''0xb'') (lower ''0xa'')"
  by code_simp+

lemma demo_ticks: "computeExplicitTicks demo_range = (0, 10)"
proof -
  have b: "(1001 / 1000 :: real) \<le> tick_base ^ 10" by (simp add: tick_base_def power_divide)
  have "ln (1001 / 1000 :: real) \<le> ln (tick_base ^ 10)" using b by (intro ln_mono) simp_all
  then have u: "ln (1001 / 1000 :: real) / ln tick_base \<le> 10" using ln_tick_base by (simp add: ln_realpow field_simps)
  have l: "0 < ln (1001 / 1000 :: real) / ln tick_base" using ln_tick_base by simp
  have "\<lceil>ln (1001 / 1000 :: real) / ln tick_base / 10\<rceil> = 1" using u l by (simp add: ceiling_eq_iff)
  then show ?thesis
    by (simp add: computeExplicitTicks_def raw_ticks_def demo_range_def demo_tokens_order priceToTick_def roundTickDown_def roundTickUp_def feeToSpacing_def)
qed


lemma string_less_total: "xs \<noteq> ys \<Longrightarrow> string_less xs ys \<longleftrightarrow> \<not> string_less ys xs"
proof (induction xs ys rule: string_less.induct)
  case (1 xs)
  then show ?case by (cases xs) simp_all
next
  case (3 x xs y ys)
  have "code x = code y \<longleftrightarrow> x = y" by (simp add: code_def)
  with 3 show ?case by auto
qed simp

text \<open>The order in which the two tokens are given does not matter: exchanging them with their decimals and inverting
  the prices gives the same ticks.\<close>

theorem token_order_is_irrelevant:
  assumes "lower (xt_tokenA i) \<noteq> lower (xt_tokenB i)" "0 < xt_minPrice i" "0 < xt_maxPrice i"
  shows "computeExplicitTicks \<lparr>xt_minPrice = 1 / xt_maxPrice i, xt_maxPrice = 1 / xt_minPrice i, xt_tokenA = xt_tokenB i,
    xt_tokenB = xt_tokenA i, xt_decA = xt_decB i, xt_decB = xt_decA i, xt_fee = xt_fee i\<rparr> = computeExplicitTicks i"
proof -
  have "string_less (lower (xt_tokenA i)) (lower (xt_tokenB i)) \<longleftrightarrow> \<not> string_less (lower (xt_tokenB i)) (lower (xt_tokenA i))"
    by (rule string_less_total [OF assms(1)])
  then show ?thesis by (auto simp: computeExplicitTicks_def raw_ticks_def)
qed

theorem token_order_is_irrelevant_witness:
  "computeExplicitTicks \<lparr>xt_minPrice = 1000 / 1001, xt_maxPrice = 1, xt_tokenA = ''0xb'', xt_tokenB = ''0xa'', xt_decA = 18, xt_decB = 18,
     xt_fee = Fin 500\<rparr> = (0, 10)"
proof -
  have "lower ''0xa'' \<noteq> lower ''0xb''" by code_simp
  then show ?thesis using token_order_is_irrelevant [of demo_range] demo_ticks by (simp add: demo_range_def)
qed

section \<open>Preset widths\<close>

lemma exp_tick: "exp (t * ln tick_base) = tick_base powr t"
  using ln_tick_base by (simp add: powr_def)

lemma half_tick: "tick_base powr (1 / 2) \<le> 10001 / 10000" "9999 / 10000 \<le> tick_base powr (- 1 / 2)"
proof -
  have m: "tick_base powr (1 / 2) \<le> tick_base powr 1" using ln_tick_base by (intro powr_mono) simp_all
  then show "tick_base powr (1 / 2) \<le> 10001 / 10000" by (simp add: tick_base_def)
  have "tick_base powr (- 1) \<le> tick_base powr (- 1 / 2)" using ln_tick_base by (intro powr_mono) simp_all
  moreover have "tick_base powr (- 1) = 10000 / 10001" by (simp add: tick_base_def powr_minus)
  ultimately show "9999 / 10000 \<le> tick_base powr (- 1 / 2)" by simp
qed

text \<open>A width reopens as itself: the percentage that a stored preset shows differs from the one that was chosen by at
  most a ten-thousandth of the upper bound.\<close>

theorem width_roundtrip:
  assumes "0 < pct"
  shows "\<bar>tickDeltaToPct (of_int (presetTickDelta pct)) - pct\<bar> \<le> (100 + pct) / 10000"
proof -
  define x where "x = ln (1 + pct / 100) / ln tick_base"
  define d where "d = real_of_int (js_round x) - x"
  have d: "- 1 / 2 \<le> d" "d \<le> 1 / 2" unfolding d_def js_round_def by linarith+
  have "tick_base powr x = 1 + pct / 100" using assms ln_tick_base exp_tick [of x, symmetric] by (simp add: x_def)
  then have t: "tick_base powr (of_int (js_round x)) = (1 + pct / 100) * tick_base powr d"
    using powr_add [of tick_base x d] by (simp add: d_def)
  have "tick_base powr (- 1 / 2) \<le> tick_base powr d" "tick_base powr d \<le> tick_base powr (1 / 2)"
    using d ln_tick_base by (intro powr_mono; simp)+
  with half_tick have b: "9999 / 10000 \<le> tick_base powr d" "tick_base powr d \<le> 10001 / 10000" by linarith+
  have pd: "presetTickDelta pct = js_round x" by (simp add: presetTickDelta_def x_def)
  have "tickDeltaToPct (of_int (presetTickDelta pct)) - pct = (100 + pct) * (tick_base powr d - 1)"
    unfolding pd tickDeltaToPct_def exp_tick t by (simp add: field_simps)
  moreover have "\<bar>(100 + pct) * (tick_base powr d - 1)\<bar> \<le> (100 + pct) * (1 / 10000)"
  proof -
    have "\<bar>tick_base powr d - 1\<bar> \<le> 1 / 10000" using b unfolding abs_le_iff by linarith
    then show ?thesis unfolding abs_mult using assms by (intro mult_mono) simp_all
  qed
  ultimately show ?thesis by simp
qed

theorem width_roundtrip_witness: "\<bar>tickDeltaToPct (of_int (presetTickDelta 10)) - 10\<bar> \<le> 110 / 10000"
  using width_roundtrip [of 10] by simp

text \<open>A width of at least one percent is at least one tick.\<close>

lemma preset_positive: "1 \<le> pct \<Longrightarrow> 0 < presetTickDelta pct"
proof -
  assume p: "1 \<le> pct"
  have "ln tick_base \<le> ln (1 + pct / 100)" using p by (simp add: tick_base_def)
  then have "1 \<le> ln (1 + pct / 100) / ln tick_base" using ln_tick_base by simp
  then show ?thesis unfolding presetTickDelta_def js_round_def by linarith
qed

end
