(* ===== verification/Forms.thy ===== *)
theory Forms
  imports Ticks Catalog
begin

text \<open>
  The editor's parameter form (dynamic-form.tsx): which widget a schema field gets, and what each widget
  writes when the user types, picks or ticks. A widget's \<open>useState\<close> is its local state; what it writes
  are changes of the node's parameters, one call of the store's \<open>updateNodeParams\<close> each. Lemmas: a
  widget writes only the fields that its schema names, what the range widget writes passes the shared
  validation, and what its single calls mean for undo and redo.
\<close>

section \<open>Fields and widgets\<close>

record form_field = catalog_field +
  ff_type :: string
  ff_token_source :: "string option"
  ff_amount_field :: "string option"
  ff_slot_field :: "string option"
  ff_token0_field :: "string option"
  ff_token1_field :: "string option"
  ff_fee_field :: "string option"
  ff_tick_delta_field :: "string option"

type_synonym form_schema = "(string \<times> form_field) list"
type_synonym changes = "(string \<times> jsval) list"

definition NO_SLOT_VALUE :: jsval where
  "NO_SLOT_VALUE = JNum (Fin 4294967295)"

datatype field_widget =
    NoWidget
  | ContextOutputWidget
  | ContextInputWidget
  | TokenSelectorWidget
  | AaveAmountModeWidget
  | AccountWidget
  | TickRangeWidget
  | PercentWidget
  | FeeTierWidget
  | RangePercentWidget
  | DurationWidget
  | StartTimeWidget
  | TokenAmountWidget
  | AmountWidget
  | CheckboxWidget
  | TextWidget

definition WIDGET_NAMES :: "string \<rightharpoonup> field_widget" where
  "WIDGET_NAMES = [''token-selector'' \<mapsto> TokenSelectorWidget, ''aave-amount-mode'' \<mapsto> AaveAmountModeWidget, ''account-selector'' \<mapsto> AccountWidget,
     ''tick-range'' \<mapsto> TickRangeWidget, ''percent'' \<mapsto> PercentWidget, ''fee-tier'' \<mapsto> FeeTierWidget, ''range-percent'' \<mapsto> RangePercentWidget,
     ''duration'' \<mapsto> DurationWidget, ''start-time'' \<mapsto> StartTimeWidget, ''token-amount'' \<mapsto> TokenAmountWidget, ''amount'' \<mapsto> AmountWidget]"

definition FormField :: "form_field \<Rightarrow> field_widget" where
  "FormField fs =
     (if cf_hidden fs then NoWidget
      else if f_slot_access fs = Some ''write'' then ContextOutputWidget
      else if f_slot_access fs \<in> {Some ''read'', Some ''read-write''} then ContextInputWidget
      else case Option.bind (f_widget fs) WIDGET_NAMES of
          Some w \<Rightarrow> w
        | None \<Rightarrow> if ff_type fs = ''boolean'' then CheckboxWidget else TextWidget)"

definition resolveTokenList :: "form_field \<Rightarrow> 'a \<Rightarrow> (string \<rightharpoonup> 'a) \<Rightarrow> 'a" where
  "resolveTokenList fs tokens sources = (case named_field (ff_token_source fs) of
      None \<Rightarrow> tokens
    | Some src \<Rightarrow> or_else (sources src) tokens)"

definition useFieldError :: "validation_error list \<Rightarrow> string \<Rightarrow> string \<Rightarrow> error_text option" where
  "useFieldError errors node field = map_option ve_text (List.find (\<lambda>e. ve_nodeId e = Some node \<and> ve_fieldName e = Some field) errors)"

section \<open>Simple widgets\<close>

text \<open>What the user does to a field; a click that only opens a menu changes nothing.\<close>

datatype field_event =
    Typed string
  | Picked string
  | PickedNumber rat
  | Ticked bool
  | Cleared
  | ClickedPreset
  | ClickedExplicit
  | TypedMin string
  | TypedMax string

definition context_output_event :: "string \<Rightarrow> field_event \<Rightarrow> changes" where
  "context_output_event f e = (case e of
      Ticked b \<Rightarrow> [(f, if b then JStr [] else NO_SLOT_VALUE)]
    | Picked name \<Rightarrow> [(f, JStr name)]
    | Cleared \<Rightarrow> [(f, JStr [])]
    | _ \<Rightarrow> [])"

definition context_input_event :: "bool \<Rightarrow> string \<Rightarrow> field_event \<Rightarrow> changes" where
  "context_input_event optional f e = (case e of
      Typed s \<Rightarrow> [(f, JStr s)]
    | Picked name \<Rightarrow> [(f, JStr name)]
    | Cleared \<Rightarrow> [(f, if optional then NO_SLOT_VALUE else JStr [])]
    | _ \<Rightarrow> [])"

definition text_event :: "string \<Rightarrow> field_event \<Rightarrow> changes" where
  "text_event f e = (case e of Typed s \<Rightarrow> [(f, JStr s)] | _ \<Rightarrow> [])"

definition token_event :: "string \<Rightarrow> field_event \<Rightarrow> changes" where
  "token_event f e = (case e of Picked s \<Rightarrow> [(f, JStr s)] | _ \<Rightarrow> [])"

definition checkbox_event :: "string \<Rightarrow> field_event \<Rightarrow> changes" where
  "checkbox_event f e = (case e of Ticked b \<Rightarrow> [(f, JBool b)] | _ \<Rightarrow> [])"

definition percent_event :: "string \<Rightarrow> field_event \<Rightarrow> changes" where
  "percent_event f e = (case e of Typed s \<Rightarrow> [(f, if s = [] then JUndef else JNum (num_of_string s))] | _ \<Rightarrow> [])"

definition FEE_TIERS :: "rat list" where
  "FEE_TIERS = [100, 500, 2500, 10000]"

definition fee_event :: "string \<Rightarrow> field_event \<Rightarrow> changes" where
  "fee_event f e = (case e of PickedNumber n \<Rightarrow> if n \<in> set FEE_TIERS then [(f, JNum (Fin n))] else [] | _ \<Rightarrow> [])"

text \<open>A percentage: one of the buttons, or a text that is a positive number.\<close>

definition delta_value :: "rat \<Rightarrow> jsval" where
  "delta_value pct = JNum (Fin (of_int (presetTickDelta (of_rat pct))))"

definition RANGE_PERCENT_PRESETS :: "rat list" where
  "RANGE_PERCENT_PRESETS = [3, 10, 20]"

definition range_percent_event :: "string \<Rightarrow> field_event \<Rightarrow> changes" where
  "range_percent_event f e = (case e of
      PickedNumber p \<Rightarrow> if p \<in> set RANGE_PERCENT_PRESETS then [(f, delta_value p)] else []
    | Typed s \<Rightarrow> (case num_of_string s of Fin q \<Rightarrow> if 0 < q then [(f, delta_value q)] else [] | _ \<Rightarrow> [])
    | _ \<Rightarrow> [])"

text \<open>\<open>parseDate\<close> is \<open>new Date(s).getTime()\<close>, in the browser's time zone.\<close>

definition start_time_event :: "(string \<Rightarrow> jsnum) \<Rightarrow> string \<Rightarrow> field_event \<Rightarrow> changes" where
  "start_time_event parseDate f e = (case e of
      Typed s \<Rightarrow> [(f, if s = [] then JUndef
          else case parseDate s of Fin ms \<Rightarrow> JNum (Fin (of_int \<lfloor>ms / 1000\<rfloor>)) | _ \<Rightarrow> JUndef)]
    | _ \<Rightarrow> [])"

definition amount_event :: "string \<Rightarrow> form_field \<Rightarrow> params \<Rightarrow> field_event \<Rightarrow> changes" where
  "amount_event f fs ps e = (case e of
      Typed s \<Rightarrow> if getp ps (zeroToggleField f) = JBool True then [] else [(f, JStr s)]
    | Ticked b \<Rightarrow> if hasZeroToggle (field_schema.truncate fs) then [(zeroToggleField f, JBool b)] else []
    | _ \<Rightarrow> [])"

section \<open>Durations\<close>

record duration_local =
  dl_amount :: string
  dl_unit :: jsval

definition asDuration :: "jsval \<Rightarrow> jsnum option \<times> jsval" where
  "asDuration v = (case v of
      JObj m \<Rightarrow>
        (case map_of m ''unit'' of
           None \<Rightarrow> (None, JStr ''days'')
         | Some u \<Rightarrow> ((case map_of m ''value'' of Some (JNum n) \<Rightarrow> Some n | _ \<Rightarrow> None),
             (if u = JUndef \<or> u = JNull then JStr ''days'' else u)))
    | _ \<Rightarrow> (None, JStr ''days''))"

definition duration_initial :: "jsval \<Rightarrow> duration_local" where
  "duration_initial v = (case asDuration v of (n, u) \<Rightarrow> \<lparr>dl_amount = (case n of None \<Rightarrow> [] | Some x \<Rightarrow> num_to_string x), dl_unit = u\<rparr>)"

definition duration_commit :: "string \<Rightarrow> duration_local \<Rightarrow> changes" where
  "duration_commit f l =
     [(f, JObj [(''value'', if js_trim (dl_amount l) = [] then JUndef else JNum (num_of_string (dl_amount l))), (''unit'', dl_unit l)])]"

definition duration_event :: "string \<Rightarrow> field_event \<Rightarrow> duration_local \<Rightarrow> duration_local \<times> changes" where
  "duration_event f e l = (case e of
      Typed s \<Rightarrow> (let l' = l\<lparr>dl_amount := s\<rparr> in (l', duration_commit f l'))
    | Picked u \<Rightarrow> (let l' = l\<lparr>dl_unit := JStr u\<rparr> in (l', duration_commit f l'))
    | _ \<Rightarrow> (l, []))"

section \<open>Amount modes\<close>

definition aave_mode :: "jsval \<Rightarrow> jsnum" where
  "aave_mode v = (if v = JUndef \<or> v = JNull then Fin 0 else to_number v)"

definition modeOptions :: "form_field \<Rightarrow> nat list" where
  "modeOptions fs = (case cf_modes fs of None \<Rightarrow> [0, 1, 2, 3] | Some ms \<Rightarrow> filter (\<lambda>m. m \<in> set ms) [0, 1, 2, 3])"

definition aave_amount_field :: "form_field \<Rightarrow> string" where
  "aave_amount_field fs = or_else (ff_amount_field fs) ''amount''"

definition aave_slot_field :: "form_field \<Rightarrow> string" where
  "aave_slot_field fs = or_else (ff_slot_field fs) ''amountFromSlot''"

definition aave_hf_field :: "form_field \<Rightarrow> string" where
  "aave_hf_field fs = or_else (f_target_hf_field fs) ''targetHealthFactor''"

text \<open>The selector and, below it, the input that the mode reveals.\<close>

definition aave_event :: "form_schema \<Rightarrow> string \<Rightarrow> form_field \<Rightarrow> params \<Rightarrow> field_event \<Rightarrow> changes" where
  "aave_event schema f fs ps e =
     (case e of
        PickedNumber m \<Rightarrow> if m \<in> of_nat ` set (modeOptions fs) then [(f, JNum (Fin m))] else []
      | _ \<Rightarrow>
          (let mode = aave_mode (getp ps f) in
           if mode = Fin 0 then
             (case map_of schema (aave_amount_field fs) of
                Some afs \<Rightarrow> amount_event (aave_amount_field fs) afs ps e
              | None \<Rightarrow> [])
           else if mode = Fin 1 then context_input_event False (aave_slot_field fs) e
           else if mode = Fin 3 then text_event (aave_hf_field fs) e
           else []))"

section \<open>Ranges\<close>

record range_local =
  rl_mode :: jsnum
  rl_minPrice :: string
  rl_maxPrice :: string
  rl_pct :: rat

definition PRESET_WIDTHS :: "rat list" where
  "PRESET_WIDTHS = [5, 10, 20]"

definition token0_of :: "form_field \<Rightarrow> string" where
  "token0_of fs = or_else (ff_token0_field fs) ''tokenA''"

definition token1_of :: "form_field \<Rightarrow> string" where
  "token1_of fs = or_else (ff_token1_field fs) ''tokenB''"

definition fee_of :: "form_field \<Rightarrow> string" where
  "fee_of fs = or_else (ff_fee_field fs) ''fee''"

definition lower_of :: "form_field \<Rightarrow> string" where
  "lower_of fs = or_else (f_tick_lower_field fs) ''tickLower''"

definition upper_of :: "form_field \<Rightarrow> string" where
  "upper_of fs = or_else (f_tick_upper_field fs) ''tickUpper''"

definition delta_of :: "form_field \<Rightarrow> string" where
  "delta_of fs = or_else (ff_tick_delta_field fs) ''tickDelta''"

definition nullish :: "jsval \<Rightarrow> jsval \<Rightarrow> jsval" where
  "nullish v d = (if v = JUndef \<or> v = JNull then d else v)"

definition storedDelta :: "form_field \<Rightarrow> params \<Rightarrow> jsnum" where
  "storedDelta fs ps = to_number (nullish (getp ps (delta_of fs)) (JNum (Fin 0)))"

text \<open>The preset that is nearest to a percentage, the earlier one of two that are equally near.\<close>

definition nearestPreset :: "real \<Rightarrow> rat" where
  "nearestPreset pct = foldl (\<lambda>a b. if \<bar>of_rat b - pct\<bar> < \<bar>of_rat a - pct\<bar> then b else a) (hd PRESET_WIDTHS) PRESET_WIDTHS"

definition shown_width :: "jsnum \<Rightarrow> rat" where
  "shown_width stored = (case stored of
      Fin q \<Rightarrow> if 0 < q then nearestPreset (tickDeltaToPct (of_rat q)) else 10
    | PInf \<Rightarrow> hd PRESET_WIDTHS
    | _ \<Rightarrow> 10)"

definition range_initial :: "form_field \<Rightarrow> jsval \<Rightarrow> params \<Rightarrow> range_local" where
  "range_initial fs v ps = \<lparr>rl_mode = (if v = JUndef \<or> v = JNull then to_number (nullish (f_default fs) (JNum (Fin 1))) else to_number v),
     rl_minPrice = [], rl_maxPrice = [], rl_pct = shown_width (storedDelta fs ps)\<rparr>"

text \<open>Decimals of the store, 18 for a token it does not know.\<close>

definition decimals_or_18 :: "(string \<rightharpoonup> int) \<Rightarrow> string \<Rightarrow> int" where
  "decimals_or_18 tds a = or_else (tds (lower a)) 18"

definition explicit_input :: "(string \<rightharpoonup> int) \<Rightarrow> form_field \<Rightarrow> params \<Rightarrow> string \<Rightarrow> string \<Rightarrow> explicit_ticks_input option" where
  "explicit_input tds fs ps minText maxText =
     (case (num_of_string minText, num_of_string maxText, getp ps (token0_of fs), getp ps (token1_of fs)) of
        (Fin mn, Fin mx, JStr a, JStr b) \<Rightarrow>
          if 0 < mn \<and> 0 < mx \<and> a \<noteq> [] \<and> b \<noteq> []
          then Some \<lparr>xt_minPrice = of_rat mn, xt_maxPrice = of_rat mx, xt_tokenA = a, xt_tokenB = b,
            xt_decA = decimals_or_18 tds a, xt_decB = decimals_or_18 tds b,
            xt_fee = to_number (nullish (getp ps (fee_of fs)) (JNum (Fin 500)))\<rparr>
          else None
      | _ \<Rightarrow> None)"

definition tick_value :: "int \<Rightarrow> jsval" where
  "tick_value t = JNum (Fin (of_int t))"

definition applyExplicit :: "(string \<rightharpoonup> int) \<Rightarrow> string \<Rightarrow> form_field \<Rightarrow> params \<Rightarrow> string \<Rightarrow> string \<Rightarrow> changes" where
  "applyExplicit tds f fs ps minText maxText =
     (f, JNum (Fin 0)) #
     (case explicit_input tds fs ps minText maxText of
        None \<Rightarrow> []
      | Some i \<Rightarrow> (case computeExplicitTicks i of (l, u) \<Rightarrow> [(lower_of fs, tick_value l), (upper_of fs, tick_value u)]))"

definition applyPreset :: "string \<Rightarrow> form_field \<Rightarrow> rat \<Rightarrow> changes" where
  "applyPreset f fs pct = [(f, JNum (Fin 1)), (delta_of fs, delta_value pct)]"

definition range_mount :: "string \<Rightarrow> form_field \<Rightarrow> params \<Rightarrow> range_local \<Rightarrow> changes" where
  "range_mount f fs ps l =
     (if rl_mode l = Fin 1 \<and> \<not> num_less (Fin 0) (storedDelta fs ps) then applyPreset f fs (rl_pct l) else [])"

definition range_event :: "(string \<rightharpoonup> int) \<Rightarrow> string \<Rightarrow> form_field \<Rightarrow> params \<Rightarrow> field_event \<Rightarrow> range_local \<Rightarrow> range_local \<times> changes" where
  "range_event tds f fs ps e l = (case e of
      ClickedPreset \<Rightarrow> (l\<lparr>rl_mode := Fin 1\<rparr>, applyPreset f fs (rl_pct l))
    | ClickedExplicit \<Rightarrow> (l\<lparr>rl_mode := Fin 0\<rparr>, applyExplicit tds f fs ps (rl_minPrice l) (rl_maxPrice l))
    | PickedNumber p \<Rightarrow> if rl_mode l = Fin 1 \<and> p \<in> set PRESET_WIDTHS then (l\<lparr>rl_pct := p\<rparr>, applyPreset f fs p) else (l, [])
    | TypedMin s \<Rightarrow> if rl_mode l = Fin 1 then (l, []) else (l\<lparr>rl_minPrice := s\<rparr>, applyExplicit tds f fs ps s (rl_maxPrice l))
    | TypedMax s \<Rightarrow> if rl_mode l = Fin 1 then (l, []) else (l\<lparr>rl_maxPrice := s\<rparr>, applyExplicit tds f fs ps (rl_minPrice l) s)
    | _ \<Rightarrow> (l, []))"

section \<open>The form\<close>

record form_env =
  fv_decimals :: "string \<rightharpoonup> int"
  fv_parseDate :: "string \<Rightarrow> jsnum"

definition field_step ::
  "form_env \<Rightarrow> form_schema \<Rightarrow> string \<Rightarrow> form_field \<Rightarrow> params \<Rightarrow> field_event \<Rightarrow> duration_local \<times> range_local \<Rightarrow>
   (duration_local \<times> range_local) \<times> changes" where
  "field_step env schema f fs ps e l =
     (case l of (d, r) \<Rightarrow>
      (case FormField fs of
         NoWidget \<Rightarrow> (l, [])
       | ContextOutputWidget \<Rightarrow> (l, context_output_event f e)
       | ContextInputWidget \<Rightarrow> (l, context_input_event (f_default fs = NO_SLOT_VALUE) f e)
       | TokenSelectorWidget \<Rightarrow> (l, token_event f e)
       | AaveAmountModeWidget \<Rightarrow> (l, aave_event schema f fs ps e)
       | TickRangeWidget \<Rightarrow> (case range_event (fv_decimals env) f fs ps e r of (r', cs) \<Rightarrow> ((d, r'), cs))
       | PercentWidget \<Rightarrow> (l, percent_event f e)
       | FeeTierWidget \<Rightarrow> (l, fee_event f e)
       | RangePercentWidget \<Rightarrow> (l, range_percent_event f e)
       | DurationWidget \<Rightarrow> (case duration_event f e d of (d', cs) \<Rightarrow> ((d', r), cs))
       | StartTimeWidget \<Rightarrow> (l, start_time_event (fv_parseDate env) f e)
       | TokenAmountWidget \<Rightarrow> (l, amount_event f fs ps e)
       | CheckboxWidget \<Rightarrow> (l, checkbox_event f e)
       | _ \<Rightarrow> (l, text_event f e)))"

text \<open>The fields that a widget may write, by its schema.\<close>

definition driven :: "string \<Rightarrow> form_field \<Rightarrow> string set" where
  "driven f fs = (case FormField fs of
      NoWidget \<Rightarrow> {}
    | AaveAmountModeWidget \<Rightarrow> {f, aave_amount_field fs, zeroToggleField (aave_amount_field fs), aave_slot_field fs, aave_hf_field fs}
    | TickRangeWidget \<Rightarrow> {f, lower_of fs, upper_of fs, delta_of fs}
    | TokenAmountWidget \<Rightarrow> {f, zeroToggleField f}
    | _ \<Rightarrow> {f})"

text \<open>Every change is one call of the store.\<close>

definition form_edit :: "string \<Rightarrow> changes \<Rightarrow> editor_state \<Rightarrow> editor_state" where
  "form_edit node cs s = fold (\<lambda>(k, v). updateNodeParams node [k \<mapsto> v]) cs s"

definition write_all :: "changes \<Rightarrow> params \<Rightarrow> params" where
  "write_all cs ps = fold (\<lambda>(k, v) p. p(k \<mapsto> v)) cs ps"

lemma write_all_simps [simp]: "write_all [] ps = ps" "write_all ((k, v) # cs) ps = write_all cs (ps(k \<mapsto> v))"
  by (simp_all add: write_all_def)

lemma write_all_other: "k \<notin> fst ` set cs \<Longrightarrow> write_all cs ps k = ps k"
  by (induction cs arbitrary: ps) (auto simp: write_all_def)

lemma update_nodes: "ed_nodes (updateNodeParams i ps s) = map (\<lambda>n. if en_id n = i then n\<lparr>en_params := en_params n ++ ps\<rparr> else n) (ed_nodes s)"
  by (simp add: updateNodeParams_def pushSnapshot_def scheduleValidation_def Let_def)

lemma form_edit_nodes:
  "ed_nodes (form_edit i cs s) = map (\<lambda>n. if en_id n = i then n\<lparr>en_params := write_all cs (en_params n)\<rparr> else n) (ed_nodes s)"
proof (induction cs arbitrary: s)
  case Nil
  then show ?case by (auto simp: form_edit_def intro!: map_idI [symmetric])
next
  case (Cons c cs)
  obtain k v where c: "c = (k, v)" by (cases c) auto
  have "form_edit i (c # cs) s = form_edit i cs (updateNodeParams i [k \<mapsto> v] s)" by (simp add: form_edit_def c)
  then show ?case by (auto simp: Cons.IH update_nodes c)
qed

section \<open>What a widget writes\<close>

lemmas event_defs = context_output_event_def context_input_event_def text_event_def token_event_def checkbox_event_def percent_event_def
  fee_event_def range_percent_event_def start_time_event_def amount_event_def duration_event_def duration_commit_def

lemma amount_writes: "fst ` set (amount_event f fs ps e) \<subseteq> {f, zeroToggleField f}"
  by (auto simp: amount_event_def split: field_event.splits if_splits)

lemma input_writes: "fst ` set (context_input_event opt g e) \<subseteq> {g}" "fst ` set (text_event g e) \<subseteq> {g}"
  by (auto simp: context_input_event_def text_event_def split: field_event.splits)

lemma aave_writes: "fst ` set (aave_event schema f fs ps e) \<subseteq>
    {f, aave_amount_field fs, zeroToggleField (aave_amount_field fs), aave_slot_field fs, aave_hf_field fs}"
  (is "_ \<subseteq> ?A")
proof (cases "\<exists>m. e = PickedNumber m")
  case True
  then show ?thesis by (auto simp: aave_event_def)
next
  case False
  let ?mode = "aave_mode (getp ps f)"
  have "aave_event schema f fs ps e = (if ?mode = Fin 0 then (case map_of schema (aave_amount_field fs) of
        Some afs \<Rightarrow> amount_event (aave_amount_field fs) afs ps e | None \<Rightarrow> [])
      else if ?mode = Fin 1 then context_input_event False (aave_slot_field fs) e
      else if ?mode = Fin 3 then text_event (aave_hf_field fs) e else [])"
    using False by (cases e) (simp_all add: aave_event_def Let_def split: option.split)
  moreover have "fst ` set (amount_event (aave_amount_field fs) afs ps e) \<subseteq> ?A" for afs
    by (rule subset_trans [OF amount_writes]) simp
  moreover have "fst ` set (context_input_event False (aave_slot_field fs) e) \<subseteq> ?A" "fst ` set (text_event (aave_hf_field fs) e) \<subseteq> ?A"
    by (rule subset_trans [OF input_writes(1)], simp, rule subset_trans [OF input_writes(2)], simp)
  ultimately show ?thesis
    by (cases "?mode = Fin 0"; cases "?mode = Fin 1"; cases "?mode = Fin 3"; cases "map_of schema (aave_amount_field fs)") simp_all
qed

lemma range_writes: "fst ` set (applyExplicit tds f fs ps a b) \<subseteq> {f, lower_of fs, upper_of fs}"
  "fst ` set (applyPreset f fs p) \<subseteq> {f, delta_of fs}"
  by (auto simp: applyExplicit_def applyPreset_def split: option.splits prod.splits)

lemma range_event_writes: "fst ` set (snd (range_event tds f fs ps e l)) \<subseteq> {f, lower_of fs, upper_of fs, delta_of fs}"
  (is "_ \<subseteq> ?A")
proof -
  have "fst ` set (applyExplicit tds f fs ps a b) \<subseteq> ?A" for a b by (rule subset_trans [OF range_writes(1)]) blast
  moreover have "fst ` set (applyPreset f fs p) \<subseteq> ?A" for p by (rule subset_trans [OF range_writes(2)]) blast
  ultimately show ?thesis by (cases e) (simp_all add: range_event_def)
qed

lemma step_writes: "field_step env schema f fs ps e l = (l', cs) \<Longrightarrow> fst ` set cs \<subseteq> driven f fs"
proof -
  assume step: "field_step env schema f fs ps e l = (l', cs)"
  obtain d r where l: "l = (d, r)" by (cases l) auto
  show ?thesis
  proof (cases "FormField fs")
    case AaveAmountModeWidget
    with step show ?thesis using aave_writes [of schema f fs ps e] by (auto simp: field_step_def l driven_def)
  next
    case TickRangeWidget
    with step show ?thesis using range_event_writes [of "fv_decimals env" f fs ps e r]
      by (auto simp: field_step_def l driven_def split: prod.splits)
  next
    case TokenAmountWidget
    with step show ?thesis using amount_writes [of f fs ps e] by (auto simp: field_step_def l driven_def)
  next
    case DurationWidget
    with step show ?thesis
      by (cases e) (auto simp: field_step_def l driven_def duration_event_def duration_commit_def Let_def)
  qed (use step in \<open>cases e; auto simp: field_step_def l driven_def event_defs split: if_splits jsnum.splits\<close>)+
qed


definition plain_form_field :: form_field where
  "plain_form_field = \<lparr>f_title = None, f_default = JUndef, f_widget = None, f_slot_access = None, f_zero_toggle = JUndef,
     f_amount_token_field = None, f_target_hf_field = None, f_tick_lower_field = Some ''tickLower'', f_tick_upper_field = Some ''tickUpper'',
     f_time_slot_field = None, f_role = JUndef, cf_description = None, cf_hidden = False, cf_modes = None, ff_type = ''string'',
     ff_token_source = None, ff_amount_field = None, ff_slot_field = None, ff_token0_field = None, ff_token1_field = None,
     ff_fee_field = None, ff_tick_delta_field = None\<rparr>"

definition range_field :: form_field where
  "range_field = plain_form_field\<lparr>f_widget := Some ''tick-range''\<rparr>"

definition fee_field :: form_field where
  "fee_field = plain_form_field\<lparr>f_widget := Some ''fee-tier''\<rparr>"

definition empty_locals :: "duration_local \<times> range_local" where
  "empty_locals = (\<lparr>dl_amount = [], dl_unit = JStr ''days''\<rparr>, \<lparr>rl_mode = Fin 1, rl_minPrice = [], rl_maxPrice = [], rl_pct = 10\<rparr>)"

definition demo_form :: form_env where
  "demo_form = \<lparr>fv_decimals = Map.empty, fv_parseDate = (\<lambda>s. NaN)\<rparr>"


section \<open>What the range widget writes\<close>

lemma lower_upper_named:
  "named_field (f_tick_lower_field fs) = Some g \<Longrightarrow> lower_of fs = g" "named_field (f_tick_upper_field fs) = Some h \<Longrightarrow> upper_of fs = h"
  by (auto simp: named_field_def lower_of_def upper_of_def split: option.splits list.splits)

lemma explicit_input_prices: "explicit_input tds fs ps a b = Some i \<Longrightarrow> 0 < xt_minPrice i \<and> 0 < xt_maxPrice i"
  by (auto simp: explicit_input_def split: jsnum.splits jsval.splits if_splits)

lemma tick_range_ok:
  assumes "l < u" "getp ps (lower_of fs) = tick_value l" "getp ps (upper_of fs) = tick_value u"
  shows "validateTickRange (field_schema.truncate fs) v ps = []"
proof -
  show ?thesis
    using assms by (auto simp: validateTickRange_def Let_def field_schema.defs tick_value_def dest!: lower_upper_named split: option.splits)
qed

text \<open>What the range widget stores is what the shared validation asks for: whenever both prices are read and the lower one is
  below the upper one, the parameters that the edit leaves pass the rule on tick ranges.\<close>

theorem explicit_range_is_valid:
  assumes "explicit_input tds fs ps minText maxText = Some i" "xt_minPrice i < xt_maxPrice i" "lower_of fs \<noteq> upper_of fs"
  shows "validateTickRange (field_schema.truncate fs) v (write_all (applyExplicit tds f fs ps minText maxText) ps) = []"
proof -
  obtain l u where t: "computeExplicitTicks i = (l, u)" by (cases "computeExplicitTicks i") auto
  let ?s = "feeToSpacing (xt_fee i)"
  have "l = roundTickDown (fst (raw_ticks i)) ?s" "u = roundTickUp (snd (raw_ticks i)) ?s"
    using t by (simp_all add: computeExplicitTicks_def split: prod.splits)
  then have "real_of_int l < of_int u"
    using round_down(2) [OF spacing_pos [of "xt_fee i"], of "fst (raw_ticks i)"] round_up(2) [OF spacing_pos [of "xt_fee i"], of "snd (raw_ticks i)"]
      raw_ticks_less [of i] explicit_input_prices [OF assms(1)] assms(2) by linarith
  then have "l < u" by simp
  then show ?thesis by (rule tick_range_ok) (simp_all add: applyExplicit_def assms(1,3) t getp_def)
qed

definition range_params :: params where
  "range_params = [''tokenA'' \<mapsto> JStr ''0xa'', ''tokenB'' \<mapsto> JStr ''0xb'', ''fee'' \<mapsto> JNum (Fin 500)]"

lemma price_texts: "num_of_string ''1'' = Fin 1" "num_of_string ''1.001'' = Fin (1001 / 1000)"
proof -
  have "amount_re (js_trim ''1'')" "parse_decimal (js_trim ''1'') = Some 1" by code_simp+
  from num_of_amount [OF this] show "num_of_string ''1'' = Fin 1" by (simp add: num_fin_def num_limit_def)
  have "amount_re (js_trim ''1.001'')" "parse_decimal (js_trim ''1.001'') = Some (1001 / 1000)" by code_simp+
  from num_of_amount [OF this] show "num_of_string ''1.001'' = Fin (1001 / 1000)" by (simp add: num_fin_def num_limit_def)
qed

lemma demo_input: "explicit_input Map.empty range_field range_params ''1'' ''1.001'' = Some demo_range"
  by (simp add: explicit_input_def price_texts range_params_def getp_def token0_of_def token1_of_def fee_of_def range_field_def plain_form_field_def
    nullish_def demo_range_def decimals_or_18_def of_rat_divide)

theorem explicit_range_is_valid_witness:
  "validateTickRange (field_schema.truncate range_field) (JNum (Fin 0))
     (write_all (applyExplicit Map.empty ''rangeMode'' range_field range_params ''1'' ''1.001'') range_params) = []"
  by (rule explicit_range_is_valid [OF demo_input]) (simp_all add: demo_range_def lower_of_def upper_of_def range_field_def plain_form_field_def)

text \<open>The ticks do not follow the fee tier: after an explicit range has been entered for the 0.05% tier, picking the
  1% tier in its own widget leaves ticks that are no multiples of the new tier's spacing, and the shared validation still
  accepts them.\<close>

theorem ticks_outlive_their_tier:
  "\<exists>ps. ps = write_all (fee_event ''fee'' (PickedNumber 10000))
       (write_all (applyExplicit Map.empty ''rangeMode'' range_field range_params ''1'' ''1.001'') range_params) \<and>
     getp ps ''fee'' = JNum (Fin 10000) \<and> getp ps ''tickUpper'' = tick_value 10 \<and> \<not> feeToSpacing (Fin 10000) dvd 10 \<and>
     validateTickRange (field_schema.truncate range_field) (getp ps ''rangeMode'') ps = []"
proof -
  let ?ps = "write_all (fee_event ''fee'' (PickedNumber 10000))
       (write_all (applyExplicit Map.empty ''rangeMode'' range_field range_params ''1'' ''1.001'') range_params)"
  have n: "lower_of range_field = ''tickLower''" "upper_of range_field = ''tickUpper''"
    by (simp_all add: lower_of_def upper_of_def range_field_def plain_form_field_def)
  have g: "getp ?ps ''fee'' = JNum (Fin 10000)" "getp ?ps ''tickUpper'' = tick_value 10" "getp ?ps ''tickLower'' = tick_value 0"
    by (simp_all add: fee_event_def FEE_TIERS_def applyExplicit_def demo_input demo_ticks n getp_def)
  have "validateTickRange (field_schema.truncate range_field) (getp ?ps ''rangeMode'') ?ps = []"
    by (rule tick_range_ok [of 0 10 _ range_field, unfolded n, OF _ g(3,2)]) simp
  with g show ?thesis by (intro exI [of _ ?ps]) (simp add: feeToSpacing_def)
qed

text \<open>One undo takes back one call of the store, not one edit: after an edit that writes several fields, undo leaves the
  graph of all the calls but the last one.\<close>

theorem undo_takes_back_one_call:
  "current (undo (form_edit node (cs @ [c]) s)) = current (form_edit node cs s)"
proof -
  obtain k v where c: "c = (k, v)" by (cases c) auto
  have "ed_past (form_edit node (cs @ [c]) s) = ed_past (pushSnapshot (form_edit node cs s))"
    by (simp add: form_edit_def c updateNodeParams_def scheduleValidation_def Let_def)
  then show ?thesis by (rule undo_after_push)
qed

lemma preset_width_positive: "w \<in> set PRESET_WIDTHS \<Longrightarrow> 0 < presetTickDelta (of_rat w)"
proof -
  assume "w \<in> set PRESET_WIDTHS"
  then have "1 \<le> (of_rat w :: real)" by (auto simp: PRESET_WIDTHS_def)
  then show ?thesis by (rule preset_positive)
qed

lemma foldl_among: "z \<in> A \<Longrightarrow> set xs \<subseteq> A \<Longrightarrow> foldl (\<lambda>a b. if P a b then b else a) z xs \<in> A"
  by (induction xs arbitrary: z) auto

lemma shown_preset: "shown_width n \<in> set PRESET_WIDTHS"
proof -
  have "nearestPreset p \<in> set PRESET_WIDTHS" for p
    unfolding nearestPreset_def by (rule foldl_among) (simp_all add: PRESET_WIDTHS_def)
  then show ?thesis by (auto simp: shown_width_def PRESET_WIDTHS_def split: jsnum.split)
qed

lemma range_mount_once:
  assumes "rl_pct l \<in> set PRESET_WIDTHS" "f \<noteq> delta_of fs"
  shows "range_mount f fs (write_all (range_mount f fs ps l) ps) l = []"
proof (cases "rl_mode l = Fin 1 \<and> \<not> num_less (Fin 0) (storedDelta fs ps)")
  case True
  have "storedDelta fs (write_all (applyPreset f fs (rl_pct l)) ps) = Fin (of_int (presetTickDelta (of_rat (rl_pct l))))"
    by (simp add: storedDelta_def applyPreset_def getp_def nullish_def delta_value_def)
  with True preset_width_positive [OF assms(1)] show ?thesis by (simp add: range_mount_def)
next
  case False
  then have "range_mount f fs ps l = []" unfolding range_mount_def by (rule if_not_P)
  then show ?thesis by simp
qed

text \<open>Opening a node in preset mode stores the width it shows, and only once: the mount effect of the range widget writes when no width
  is stored yet, and on the parameters it leaves it writes nothing more.\<close>

theorem range_opens_once:
  assumes "f \<noteq> delta_of fs"
  shows "range_mount f fs (write_all (range_mount f fs ps (range_initial fs v ps)) ps) (range_initial fs v ps) = []"
  by (rule range_mount_once [OF _ assms]) (simp add: range_initial_def shown_preset)

theorem range_opens_once_witness:
  "range_mount ''rangeMode'' range_field (write_all (range_mount ''rangeMode'' range_field range_params (range_initial range_field JUndef range_params))
     range_params) (range_initial range_field JUndef range_params) = []"
  by (rule range_opens_once) (simp add: delta_of_def range_field_def plain_form_field_def)

lemma nearest_preset: "w \<in> set PRESET_WIDTHS \<Longrightarrow> \<bar>p - of_rat w\<bar> < 1 \<Longrightarrow> nearestPreset p = w"
  by (auto simp: nearestPreset_def PRESET_WIDTHS_def split: if_splits)

text \<open>A stored preset reopens as itself: of the three widths of the menu, the reopened widget shows the one whose ticks are stored.\<close>

theorem preset_reopens:
  assumes "w \<in> set PRESET_WIDTHS" "f \<noteq> delta_of fs"
  shows "rl_pct (range_initial fs v (write_all (applyPreset f fs w) ps)) = w"
proof -
  have w: "0 < (of_rat w :: real)" "(of_rat w :: real) \<le> 20" using assms(1) by (auto simp: PRESET_WIDTHS_def)
  have "\<bar>tickDeltaToPct (of_int (presetTickDelta (of_rat w))) - of_rat w\<bar> < 1"
    by (rule le_less_trans [OF width_roundtrip [OF w(1)]]) (use w(2) in simp)
  moreover have "storedDelta fs (write_all (applyPreset f fs w) ps) = Fin (of_int (presetTickDelta (of_rat w)))"
    by (simp add: storedDelta_def applyPreset_def getp_def nullish_def delta_value_def)
  ultimately show ?thesis
    using nearest_preset [OF assms(1)] preset_width_positive [OF assms(1)] by (simp add: range_initial_def shown_width_def)
qed

theorem preset_reopens_witness:
  "rl_pct (range_initial range_field JUndef (write_all (applyPreset ''rangeMode'' range_field 5) range_params)) = 5"
  by (rule preset_reopens) (simp_all add: PRESET_WIDTHS_def delta_of_def range_field_def plain_form_field_def)

end
