(* ===== verification/Shipped.thy ===== *)
theory Shipped
  imports Forms Encoding
begin

text \<open>
  The catalog that the backend ships: the step types (prisma/seed/catalog), the curated tokens and the
  recipes (recipe-seed-data.ts), entry by entry. Typographic characters of the texts are written in ASCII.
  Lemmas: the integrity guard and the recipe check accept what is shipped, the form of the editor
  has a widget for every field, and what the conditions of the recipes are encoded to.
\<close>

section \<open>Step types\<close>

record step_type_def =
  sh_name :: string
  sh_description :: string
  sh_category :: string
  sh_contractKey :: string
  sh_selector :: string
  sh_afterExecutionSelector :: "string option"
  sh_components :: "(string \<times> string) list"
  sh_properties :: form_schema
  sh_required :: "string list"

definition CHECK_SELECTOR :: string where
  "CHECK_SELECTOR = ''0xd89f1e36''"

definition EXECUTE_SELECTOR :: string where
  "EXECUTE_SELECTOR = ''0x24856bc3''"

definition AFTER_EXECUTION_SELECTOR :: string where
  "AFTER_EXECUTION_SELECTOR = ''0xb2792168''"

text \<open>A field that says nothing; the entries below set what their literals name.\<close>

definition blank_field :: form_field where
  "blank_field = \<lparr>f_title = None, f_default = JUndef, f_widget = None, f_slot_access = None, f_zero_toggle = JUndef,
     f_amount_token_field = None, f_target_hf_field = None, f_tick_lower_field = None, f_tick_upper_field = None,
     f_time_slot_field = None, f_role = JUndef, cf_description = None, cf_hidden = False, cf_modes = None, ff_type = [],
     ff_token_source = None, ff_amount_field = None, ff_slot_field = None, ff_token0_field = None, ff_token1_field = None,
     ff_fee_field = None, ff_tick_delta_field = None\<rparr>"

definition Token_Balance_Condition :: step_type_def where
  "Token_Balance_Condition = \<lparr>sh_name = ''Token Balance Condition'',
    sh_description = ''Checks whether an account holds at least a specified amount of an ERC-20 token. Can compare above/below a threshold.'',
    sh_category = ''CONDITION'', sh_contractKey = ''TokenBalanceCondition'', sh_selector = CHECK_SELECTOR,
    sh_afterExecutionSelector = None,
    sh_components = [(''token'', ''address''), (''account'', ''address''), (''minBalance'', ''uint256''), (''aboveOrEqual'', ''bool''),
      (''minBalanceFromSlot'', ''uint32'')],
    sh_properties = [
      (''token'', blank_field\<lparr>ff_type := ''string'', f_title := Some ''Token'', cf_description := Some ''The ERC-20 token address to check'', f_widget := Some ''token-selector''\<rparr>),
      (''account'', blank_field\<lparr>ff_type := ''string'', f_title := Some ''Account'', cf_description := Some ''The account whose balance to check'',
        f_widget := Some ''account-selector''\<rparr>),
      (''minBalance'', blank_field\<lparr>ff_type := ''string'', f_title := Some ''Minimum Balance'',
        cf_description := Some ''The threshold amount in human units (e.g. 1.5). Converted to base units using the selected token's decimals.'',
        f_widget := Some ''token-amount'', f_amount_token_field := Some ''token''\<rparr>),
      (''aboveOrEqual'', blank_field\<lparr>ff_type := ''boolean'', f_title := Some ''Above or Equal'',
        cf_description := Some ''If true, condition is met when balance >= threshold. If false, when balance < threshold.'', f_default := JBool True\<rparr>),
      (''minBalanceFromSlot'', blank_field\<lparr>ff_type := ''integer'', f_title := Some ''Balance from Context Slot'',
        cf_description := Some ''Read the threshold from a context slot instead of using the static value. Set to max uint32 to use the static minBalance.'',
        f_widget := Some ''context-slot'', f_slot_access := Some ''read'', f_default := JNum (Fin 4294967295)\<rparr>)],
    sh_required = [''token'', ''account'', ''minBalance'', ''aboveOrEqual'']\<rparr>"

definition Interval_Condition :: step_type_def where
  "Interval_Condition = \<lparr>sh_name = ''Interval Condition'',
    sh_description = ''Time-based trigger that fires at regular intervals. After each execution, the next trigger time advances by the interval (drift-free).'',
    sh_category = ''CONDITION'', sh_contractKey = ''IntervalCondition'', sh_selector = CHECK_SELECTOR,
    sh_afterExecutionSelector = Some AFTER_EXECUTION_SELECTOR,
    sh_components = [(''interval'', ''uint256''), (''timeSlot'', ''uint32'')],
    sh_properties = [
      (''interval'', blank_field\<lparr>ff_type := ''object'', f_title := Some ''Interval'',
        cf_description := Some ''How often the trigger fires. Enter a number and a unit (minutes, hours, days, weeks).'', f_widget := Some ''duration'',
        f_default := JObj [(''value'', JNum (Fin 1)), (''unit'', JStr ''days'')]\<rparr>),
      (''startTime'', blank_field\<lparr>ff_type := ''integer'', f_title := Some ''Start Time'',
        cf_description := Some ''When the trigger first fires (default: now). Friendly-only - written as the initial value of the auto-assigned time slot at deploy.'',
        f_widget := Some ''start-time'', f_time_slot_field := Some ''timeSlot''\<rparr>),
      (''timeSlot'', blank_field\<lparr>ff_type := ''integer'', f_title := Some ''Time Slot'',
        cf_description := Some ''Context slot storing the next trigger timestamp. The slot is automatically advanced after each execution.'',
        f_widget := Some ''context-slot'', f_slot_access := Some ''read-write'', cf_hidden := True\<rparr>)],
    sh_required = [''interval'', ''timeSlot'']\<rparr>"

definition Timer_Condition :: step_type_def where
  "Timer_Condition = \<lparr>sh_name = ''Timer Condition'',
    sh_description = ''One-shot trigger that fires once after a specified delay from a start time stored in a context slot. Resets the slot to 0 after firing.'',
    sh_category = ''CONDITION'', sh_contractKey = ''TimerCondition'', sh_selector = CHECK_SELECTOR,
    sh_afterExecutionSelector = Some AFTER_EXECUTION_SELECTOR,
    sh_components = [(''delta'', ''uint256''), (''timeSlot'', ''uint32'')],
    sh_properties = [
      (''delta'', blank_field\<lparr>ff_type := ''object'', f_title := Some ''Delay'',
        cf_description := Some ''How long after the start time the timer fires once. Enter a number and a unit (minutes, hours, days, weeks).'',
        f_widget := Some ''duration'', f_default := JObj [(''value'', JNum (Fin 30)), (''unit'', JStr ''days'')]\<rparr>),
      (''startTime'', blank_field\<lparr>ff_type := ''integer'', f_title := Some ''Start Time'',
        cf_description := Some ''Anchor the delay counts from (default: now). Friendly-only - written as the initial value of the auto-assigned time slot at deploy.'',
        f_widget := Some ''start-time'', f_time_slot_field := Some ''timeSlot''\<rparr>),
      (''timeSlot'', blank_field\<lparr>ff_type := ''integer'', f_title := Some ''Time Slot'',
        cf_description := Some ''Context slot storing the start timestamp. Set to 0 to stop the timer. Reset to 0 after firing.'',
        f_widget := Some ''context-slot'', f_slot_access := Some ''read-write'', cf_hidden := True\<rparr>)],
    sh_required = [''delta'', ''timeSlot'']\<rparr>"

definition ERC_20_Transfer :: step_type_def where
  "ERC_20_Transfer = \<lparr>sh_name = ''ERC-20 Transfer'',
    sh_description = ''Transfers ERC-20 tokens from the vault to a recipient. Optionally deducts a withdraw fee. Amount can be read from a context slot.'',
    sh_category = ''ACTION'', sh_contractKey = ''ERC20TransferAction'', sh_selector = EXECUTE_SELECTOR,
    sh_afterExecutionSelector = None,
    sh_components = [(''token'', ''address''), (''recipient'', ''address''), (''amount'', ''uint256''), (''amountFromSlot'', ''uint32''), (''amountToSlot'', ''uint32''),
      (''feeRegistry'', ''address'')],
    sh_properties = [
      (''token'', blank_field\<lparr>ff_type := ''string'', f_title := Some ''Token'', cf_description := Some ''The ERC-20 token to transfer'', f_widget := Some ''token-selector''\<rparr>),
      (''recipient'', blank_field\<lparr>ff_type := ''string'', f_title := Some ''Recipient'', cf_description := Some ''The address that will receive the tokens'',
        f_role := JStr ''recipient''\<rparr>),
      (''amount'', blank_field\<lparr>ff_type := ''string'', f_title := Some ''Amount'',
        cf_description := Some ''Amount to transfer in human units (e.g. 1.5). Toggle to send the full vault balance instead.'',
        f_widget := Some ''token-amount'', f_amount_token_field := Some ''token'',
        f_zero_toggle := JObj [(''label'', JStr ''Volles Vault-Guthaben''), (''default'', JBool False)]\<rparr>),
      (''amountFromSlot'', blank_field\<lparr>ff_type := ''integer'', f_title := Some ''Amount from Context Slot'',
        cf_description := Some ''Read the amount from a context slot instead of using the static value. Set to max uint32 to use the static amount.'',
        f_widget := Some ''context-slot'', f_slot_access := Some ''read'', f_default := JNum (Fin 4294967295)\<rparr>),
      (''amountToSlot'', blank_field\<lparr>ff_type := ''integer'', f_title := Some ''Amount to Context Slot'',
        cf_description := Some ''Write the actual transferred amount to a context slot. Set to max uint32 to skip.'', f_widget := Some ''context-slot'',
        f_slot_access := Some ''write'', f_default := JNum (Fin 4294967295)\<rparr>),
      (''feeRegistry'', blank_field\<lparr>ff_type := ''string'', f_title := Some ''Fee Registry'',
        cf_description := Some ''Address of the FeeRegistry contract to deduct withdraw fees. Set to zero address to skip fee deduction.'',
        f_default := JStr ''0x0000000000000000000000000000000000000000''\<rparr>)],
    sh_required = [''token'', ''recipient'', ''amount'']\<rparr>"

definition Fee_Deposit :: step_type_def where
  "Fee_Deposit = \<lparr>sh_name = ''Fee Deposit'',
    sh_description = ''Tops up the vault's gas compensation deposit in the FeeRegistry when the balance falls below the vault's minimum fee deposit target.'',
    sh_category = ''ACTION'', sh_contractKey = ''FeeDepositAction'', sh_selector = EXECUTE_SELECTOR,
    sh_afterExecutionSelector = None,
    sh_components = [(''feeRegistry'', ''address''), (''token'', ''address''), (''topUpAmount'', ''uint256'')],
    sh_properties = [
      (''feeRegistry'', blank_field\<lparr>ff_type := ''string'', f_title := Some ''Fee Registry'', cf_description := Some ''Address of the FeeRegistry contract''\<rparr>),
      (''token'', blank_field\<lparr>ff_type := ''string'', f_title := Some ''Token'', cf_description := Some ''The ERC-20 token used for gas compensation deposits'',
        f_widget := Some ''token-selector''\<rparr>),
      (''topUpAmount'', blank_field\<lparr>ff_type := ''string'', f_title := Some ''Top-up Amount'',
        cf_description := Some ''Amount to deposit in human units. Toggle to fill exactly to the minimum fee deposit target instead.'',
        f_widget := Some ''token-amount'', f_amount_token_field := Some ''token'',
        f_zero_toggle := JObj [(''label'', JStr ''Bis Zielreserve auffuellen''), (''default'', JBool True)]\<rparr>)],
    sh_required = [''feeRegistry'', ''token'', ''topUpAmount'']\<rparr>"

definition Wick_Wait_Rebalance :: step_type_def where
  "Wick_Wait_Rebalance = \<lparr>sh_name = ''Wick & Wait Rebalance'',
    sh_description = ''Fires only when the pool's time-weighted-average price has left the open position's range for the configured window (so short wicks are ignored) and a cooldown since the last rebalance has elapsed. Use it as the trigger of a concentrated-liquidity rebalance automation.'',
    sh_category = ''CONDITION'', sh_contractKey = ''WickWaitRebalanceCondition'', sh_selector = CHECK_SELECTOR,
    sh_afterExecutionSelector = Some AFTER_EXECUTION_SELECTOR,
    sh_components = [(''tokenIdSlot'', ''uint32''), (''twapWindow'', ''uint32''), (''cooldown'', ''uint256''), (''lastRebalanceSlot'', ''uint32'')],
    sh_properties = [
      (''tokenIdSlot'', blank_field\<lparr>ff_type := ''integer'', f_title := Some ''Position Token-Id Slot'',
        cf_description := Some ''Context slot holding the LP position token-id (written by the Mint action). The condition reads the position's range and pool from it.'',
        f_widget := Some ''context-slot'', f_slot_access := Some ''read''\<rparr>),
      (''twapWindow'', blank_field\<lparr>ff_type := ''object'', f_title := Some ''TWAP Window'',
        cf_description := Some ''The averaging window. A move shorter than this (a wick) barely shifts the average and does not trigger a rebalance. Conservative 1h / Balanced 30m / Aggressive 10m.'',
        f_widget := Some ''duration'', f_default := JObj [(''value'', JNum (Fin 30)), (''unit'', JStr ''minutes'')]\<rparr>),
      (''cooldown'', blank_field\<lparr>ff_type := ''object'', f_title := Some ''Rebalance Cooldown'',
        cf_description := Some ''Minimum time between rebalances, so small positions are not rebalanced too often. The trigger stays silent until this has elapsed since the last rebalance.'',
        f_widget := Some ''duration'', f_default := JObj [(''value'', JNum (Fin 3)), (''unit'', JStr ''days'')]\<rparr>),
      (''lastRebalanceSlot'', blank_field\<lparr>ff_type := ''integer'', f_title := Some ''Last-Rebalance Slot'',
        cf_description := Some ''Context slot storing the timestamp of the last rebalance. Advanced automatically after each firing; 0 means never rebalanced.'',
        f_widget := Some ''context-slot'', f_slot_access := Some ''read-write''\<rparr>)],
    sh_required = [''tokenIdSlot'', ''twapWindow'', ''cooldown'', ''lastRebalanceSlot'']\<rparr>"

definition CORE_STEP_TYPES :: "step_type_def list" where
  "CORE_STEP_TYPES = [Token_Balance_Condition, Interval_Condition, Timer_Condition, ERC_20_Transfer, Fee_Deposit, Wick_Wait_Rebalance]"

definition Aave_V3_Supply :: step_type_def where
  "Aave_V3_Supply = \<lparr>sh_name = ''Aave V3 Supply'',
    sh_description = ''Supplies a token from the vault to Aave V3 as collateral. Choose the amount as a fixed value, from a context slot, or the full vault balance.'',
    sh_category = ''ACTION'', sh_contractKey = ''AaveV3SupplyAction'', sh_selector = EXECUTE_SELECTOR,
    sh_afterExecutionSelector = None,
    sh_components = [(''asset'', ''address''), (''mode'', ''uint8''), (''amount'', ''uint256''), (''amountFromSlot'', ''uint32''), (''targetHealthFactor'', ''uint256''),
      (''amountToSlot'', ''uint32'')],
    sh_properties = [
      (''asset'', blank_field\<lparr>ff_type := ''string'', f_title := Some ''Token'', cf_description := Some ''The Aave V3 reserve to supply'', f_widget := Some ''token-selector'',
        ff_token_source := Some ''aave''\<rparr>),
      (''mode'', blank_field\<lparr>ff_type := ''integer'', f_title := Some ''Amount'',
        cf_description := Some ''How the supplied amount is determined: 0 = FIXED (explicit amount), 1 = FROM_SLOT (amount from a previous step), 2 = MAX_AVAILABLE (full vault balance of the token), 3 = TARGET_HF (supply collateral until the position's health factor rises to `targetHealthFactor`).'',
        f_widget := Some ''aave-amount-mode'', ff_amount_field := Some ''amount'', f_amount_token_field := Some ''asset'',
        ff_slot_field := Some ''amountFromSlot'', f_target_hf_field := Some ''targetHealthFactor'', cf_modes := Some [0, 1, 2, 3], f_default := JNum (Fin 0)\<rparr>),
      (''amount'', blank_field\<lparr>ff_type := ''string'', f_title := Some ''Amount'', cf_description := Some ''Amount to supply in human units (e.g. 1.5). Used when mode is FIXED.'',
        f_widget := Some ''token-amount'', f_amount_token_field := Some ''asset'', cf_hidden := True, f_default := JStr ''0''\<rparr>),
      (''amountFromSlot'', blank_field\<lparr>ff_type := ''integer'', f_title := Some ''Amount from Context Slot'',
        cf_description := Some ''Read the amount from a context slot. Used when mode is FROM_SLOT. Max uint32 = unset.'', f_widget := Some ''context-slot'',
        f_slot_access := Some ''read'', cf_hidden := True, f_default := JNum (Fin 4294967295)\<rparr>),
      (''targetHealthFactor'', blank_field\<lparr>ff_type := ''string'', f_title := Some ''Target Health Factor'', f_widget := Some ''health-factor'',
        cf_description := Some ''Target health factor for mode 3 (TARGET_HF), in 1e18 WAD units (e.g. 1.5 -> '1500000000000000000'). The action moves the position toward this HF and is a no-op if the position is already past the target (wrong direction). Must be > 1.05 ('1050000000000000000').'',
        cf_hidden := True, f_default := JStr ''0''\<rparr>),
      (''amountToSlot'', blank_field\<lparr>ff_type := ''integer'', f_title := Some ''Supplied Amount to Context Slot'',
        cf_description := Some ''Write the actual supplied amount to a context slot for later steps. Max uint32 = skip.'', f_widget := Some ''context-slot'',
        f_slot_access := Some ''write'', f_default := JNum (Fin 4294967295)\<rparr>)],
    sh_required = [''asset'', ''mode'']\<rparr>"

definition Aave_V3_Withdraw :: step_type_def where
  "Aave_V3_Withdraw = \<lparr>sh_name = ''Aave V3 Withdraw'',
    sh_description = ''Withdraws a supplied token (collateral) from Aave V3 back into the vault. Choose a fixed amount, an amount from a context slot, or withdraw everything. The actual withdrawn amount can be written to a context slot.'',
    sh_category = ''ACTION'', sh_contractKey = ''AaveV3WithdrawAction'', sh_selector = EXECUTE_SELECTOR,
    sh_afterExecutionSelector = None,
    sh_components = [(''asset'', ''address''), (''mode'', ''uint8''), (''amount'', ''uint256''), (''amountFromSlot'', ''uint32''), (''targetHealthFactor'', ''uint256''),
      (''amountToSlot'', ''uint32'')],
    sh_properties = [
      (''asset'', blank_field\<lparr>ff_type := ''string'', f_title := Some ''Token'', cf_description := Some ''The Aave V3 reserve to withdraw'', f_widget := Some ''token-selector'',
        ff_token_source := Some ''aave''\<rparr>),
      (''mode'', blank_field\<lparr>ff_type := ''integer'', f_title := Some ''Amount'',
        cf_description := Some ''How the withdrawn amount is determined: 0 = FIXED (explicit amount), 1 = FROM_SLOT (amount from a previous step), 2 = MAX_AVAILABLE (your entire supplied balance), 3 = TARGET_HF (withdraw collateral until the position's health factor drops to `targetHealthFactor`).'',
        f_widget := Some ''aave-amount-mode'', ff_amount_field := Some ''amount'', f_amount_token_field := Some ''asset'',
        ff_slot_field := Some ''amountFromSlot'', f_target_hf_field := Some ''targetHealthFactor'', cf_modes := Some [0, 1, 2, 3], f_default := JNum (Fin 0)\<rparr>),
      (''amount'', blank_field\<lparr>ff_type := ''string'', f_title := Some ''Amount'', cf_description := Some ''Amount to withdraw in human units (e.g. 1.5). Used when mode is FIXED.'',
        f_widget := Some ''token-amount'', f_amount_token_field := Some ''asset'', cf_hidden := True, f_default := JStr ''0''\<rparr>),
      (''amountFromSlot'', blank_field\<lparr>ff_type := ''integer'', f_title := Some ''Amount from Context Slot'',
        cf_description := Some ''Read the amount from a context slot. Used when mode is FROM_SLOT. Max uint32 = unset.'', f_widget := Some ''context-slot'',
        f_slot_access := Some ''read'', cf_hidden := True, f_default := JNum (Fin 4294967295)\<rparr>),
      (''targetHealthFactor'', blank_field\<lparr>ff_type := ''string'', f_title := Some ''Target Health Factor'', f_widget := Some ''health-factor'',
        cf_description := Some ''Target health factor for mode 3 (TARGET_HF), in 1e18 WAD units (e.g. 1.5 -> '1500000000000000000'). The action moves the position toward this HF and is a no-op if the position is already past the target (wrong direction). Must be > 1.05 ('1050000000000000000').'',
        cf_hidden := True, f_default := JStr ''0''\<rparr>),
      (''amountToSlot'', blank_field\<lparr>ff_type := ''integer'', f_title := Some ''Actual Withdrawn Amount to Context Slot'',
        cf_description := Some ''Write the actual withdrawn amount (which differs from a 'withdraw everything' request) to a context slot for later steps. Max uint32 = skip.'',
        f_widget := Some ''context-slot'', f_slot_access := Some ''write'', f_default := JNum (Fin 4294967295)\<rparr>)],
    sh_required = [''asset'', ''mode'']\<rparr>"

definition Aave_V3_Borrow :: step_type_def where
  "Aave_V3_Borrow = \<lparr>sh_name = ''Aave V3 Borrow'',
    sh_description = ''Borrows a token from Aave V3 against the vault's collateral (always variable rate). The borrowed amount is written to a context slot so it can feed a later swap or transfer.'',
    sh_category = ''ACTION'', sh_contractKey = ''AaveV3BorrowAction'', sh_selector = EXECUTE_SELECTOR,
    sh_afterExecutionSelector = None,
    sh_components = [(''asset'', ''address''), (''mode'', ''uint8''), (''amount'', ''uint256''), (''amountFromSlot'', ''uint32''), (''targetHealthFactor'', ''uint256''),
      (''amountToSlot'', ''uint32'')],
    sh_properties = [
      (''asset'', blank_field\<lparr>ff_type := ''string'', f_title := Some ''Token'', cf_description := Some ''The Aave V3 reserve to borrow'', f_widget := Some ''token-selector'',
        ff_token_source := Some ''aave''\<rparr>),
      (''mode'', blank_field\<lparr>ff_type := ''integer'', f_title := Some ''Amount'',
        cf_description := Some ''How the borrowed amount is determined: 0 = FIXED (explicit amount), 1 = FROM_SLOT (amount from a previous step), 2 = MAX_AVAILABLE (maximum borrowable against current collateral), 3 = TARGET_HF (borrow until the position's health factor drops to `targetHealthFactor`).'',
        f_widget := Some ''aave-amount-mode'', ff_amount_field := Some ''amount'', f_amount_token_field := Some ''asset'',
        ff_slot_field := Some ''amountFromSlot'', f_target_hf_field := Some ''targetHealthFactor'', cf_modes := Some [0, 1, 2, 3], f_default := JNum (Fin 0)\<rparr>),
      (''amount'', blank_field\<lparr>ff_type := ''string'', f_title := Some ''Amount'', cf_description := Some ''Amount to borrow in human units (e.g. 1.5). Used when mode is FIXED.'',
        f_widget := Some ''token-amount'', f_amount_token_field := Some ''asset'', cf_hidden := True, f_default := JStr ''0''\<rparr>),
      (''amountFromSlot'', blank_field\<lparr>ff_type := ''integer'', f_title := Some ''Amount from Context Slot'',
        cf_description := Some ''Read the amount from a context slot. Used when mode is FROM_SLOT. Max uint32 = unset.'', f_widget := Some ''context-slot'',
        f_slot_access := Some ''read'', cf_hidden := True, f_default := JNum (Fin 4294967295)\<rparr>),
      (''targetHealthFactor'', blank_field\<lparr>ff_type := ''string'', f_title := Some ''Target Health Factor'', f_widget := Some ''health-factor'',
        cf_description := Some ''Target health factor for mode 3 (TARGET_HF), in 1e18 WAD units (e.g. 1.5 -> '1500000000000000000'). The action moves the position toward this HF and is a no-op if the position is already past the target (wrong direction). Must be > 1.05 ('1050000000000000000').'',
        cf_hidden := True, f_default := JStr ''0''\<rparr>),
      (''amountToSlot'', blank_field\<lparr>ff_type := ''integer'', f_title := Some ''Borrowed Amount to Context Slot'',
        cf_description := Some ''Write the borrowed amount to a context slot for later steps (e.g. a swap). Max uint32 = skip.'',
        f_widget := Some ''context-slot'', f_slot_access := Some ''write'', f_default := JNum (Fin 4294967295)\<rparr>)],
    sh_required = [''asset'', ''mode'']\<rparr>"

definition Aave_V3_Repay :: step_type_def where
  "Aave_V3_Repay = \<lparr>sh_name = ''Aave V3 Repay'',
    sh_description = ''Repays an Aave V3 loan from the vault (always variable rate). Repay a fixed amount, an amount from a context slot, or your full debt (capped at your balance). The actual repaid amount is written to a context slot.'',
    sh_category = ''ACTION'', sh_contractKey = ''AaveV3RepayAction'', sh_selector = EXECUTE_SELECTOR,
    sh_afterExecutionSelector = None,
    sh_components = [(''asset'', ''address''), (''mode'', ''uint8''), (''amount'', ''uint256''), (''amountFromSlot'', ''uint32''), (''targetHealthFactor'', ''uint256''),
      (''amountToSlot'', ''uint32'')],
    sh_properties = [
      (''asset'', blank_field\<lparr>ff_type := ''string'', f_title := Some ''Token'', cf_description := Some ''The borrowed Aave V3 reserve to repay'',
        f_widget := Some ''token-selector'', ff_token_source := Some ''aave''\<rparr>),
      (''mode'', blank_field\<lparr>ff_type := ''integer'', f_title := Some ''Amount'',
        cf_description := Some ''How the repaid amount is determined: 0 = FIXED (explicit amount), 1 = FROM_SLOT (amount from a previous step), 2 = MAX_AVAILABLE (full outstanding debt, capped at your balance), 3 = TARGET_HF (repay debt until the position's health factor rises to `targetHealthFactor`).'',
        f_widget := Some ''aave-amount-mode'', ff_amount_field := Some ''amount'', f_amount_token_field := Some ''asset'',
        ff_slot_field := Some ''amountFromSlot'', f_target_hf_field := Some ''targetHealthFactor'', cf_modes := Some [0, 1, 2, 3], f_default := JNum (Fin 0)\<rparr>),
      (''amount'', blank_field\<lparr>ff_type := ''string'', f_title := Some ''Amount'', cf_description := Some ''Amount to repay in human units (e.g. 1.5). Used when mode is FIXED.'',
        f_widget := Some ''token-amount'', f_amount_token_field := Some ''asset'', cf_hidden := True, f_default := JStr ''0''\<rparr>),
      (''amountFromSlot'', blank_field\<lparr>ff_type := ''integer'', f_title := Some ''Amount from Context Slot'',
        cf_description := Some ''Read the amount from a context slot. Used when mode is FROM_SLOT. Max uint32 = unset.'', f_widget := Some ''context-slot'',
        f_slot_access := Some ''read'', cf_hidden := True, f_default := JNum (Fin 4294967295)\<rparr>),
      (''targetHealthFactor'', blank_field\<lparr>ff_type := ''string'', f_title := Some ''Target Health Factor'', f_widget := Some ''health-factor'',
        cf_description := Some ''Target health factor for mode 3 (TARGET_HF), in 1e18 WAD units (e.g. 1.5 -> '1500000000000000000'). The action moves the position toward this HF and is a no-op if the position is already past the target (wrong direction). Must be > 1.05 ('1050000000000000000').'',
        cf_hidden := True, f_default := JStr ''0''\<rparr>),
      (''amountToSlot'', blank_field\<lparr>ff_type := ''integer'', f_title := Some ''Actual Repaid Amount to Context Slot'',
        cf_description := Some ''Write the actual repaid amount (which differs from a 'repay full debt' request) to a context slot. Max uint32 = skip.'',
        f_widget := Some ''context-slot'', f_slot_access := Some ''write'', f_default := JNum (Fin 4294967295)\<rparr>)],
    sh_required = [''asset'', ''mode'']\<rparr>"

definition AAVE_STEP_TYPES :: "step_type_def list" where
  "AAVE_STEP_TYPES = [Aave_V3_Supply, Aave_V3_Withdraw, Aave_V3_Borrow, Aave_V3_Repay]"

definition PancakeSwap_V3_Swap :: step_type_def where
  "PancakeSwap_V3_Swap = \<lparr>sh_name = ''PancakeSwap V3 Swap'',
    sh_description = ''Swaps one token for another via PancakeSwap V3 (single-hop). Ships without on-chain minimum-out (amountOutMinimum = 0) - the step executes rather than reverting on price movement. The output amount is written to a context slot.'',
    sh_category = ''ACTION'', sh_contractKey = ''PancakeSwapV3SwapAction'', sh_selector = EXECUTE_SELECTOR,
    sh_afterExecutionSelector = None,
    sh_components = [(''tokenIn'', ''address''), (''tokenOut'', ''address''), (''fee'', ''uint24''), (''amountIn'', ''uint256''), (''amountInFromSlot'', ''uint32''),
      (''amountOutToSlot'', ''uint32''), (''amountOutMinimum'', ''uint256''), (''minOutFromSlot'', ''uint32'')],
    sh_properties = [
      (''tokenIn'', blank_field\<lparr>ff_type := ''string'', f_title := Some ''From Token'', cf_description := Some ''The token to swap from'', f_widget := Some ''token-selector'',
        ff_token_source := Some ''pancakeswap''\<rparr>),
      (''tokenOut'', blank_field\<lparr>ff_type := ''string'', f_title := Some ''To Token'', cf_description := Some ''The token to swap to'', f_widget := Some ''token-selector'',
        ff_token_source := Some ''pancakeswap''\<rparr>),
      (''fee'', blank_field\<lparr>ff_type := ''integer'', f_title := Some ''Fee Tier'', cf_description := Some ''The PancakeSwap V3 pool fee tier to route through.'',
        f_widget := Some ''fee-tier'', f_default := JNum (Fin 500)\<rparr>),
      (''amountIn'', blank_field\<lparr>ff_type := ''string'', f_title := Some ''Amount In'',
        cf_description := Some ''Amount of the from-token to swap in human units (e.g. 1.5). Toggle to swap the full vault balance instead.'',
        f_widget := Some ''token-amount'', f_amount_token_field := Some ''tokenIn'',
        f_zero_toggle := JObj [(''label'', JStr ''Volles Guthaben tauschen''), (''default'', JBool False)]\<rparr>),
      (''amountInFromSlot'', blank_field\<lparr>ff_type := ''integer'', f_title := Some ''Amount In from Context Slot'',
        cf_description := Some ''Read the input amount from a context slot (e.g. a previous step's output). Max uint32 = unset.'',
        f_widget := Some ''context-slot'', f_slot_access := Some ''read'', f_default := JNum (Fin 4294967295)\<rparr>),
      (''amountOutToSlot'', blank_field\<lparr>ff_type := ''integer'', f_title := Some ''Output Amount to Context Slot'',
        cf_description := Some ''Write the swap output amount to a context slot to chain it into a later step. Max uint32 = skip.'',
        f_widget := Some ''context-slot'', f_slot_access := Some ''write'', f_default := JNum (Fin 4294967295)\<rparr>),
      (''amountOutMinimum'', blank_field\<lparr>ff_type := ''string'', f_title := Some ''Minimum Output'',
        cf_description := Some ''Forward-compat: minimum acceptable output (base units). Hidden - ships at 0 (no slippage protection).'', cf_hidden := True,
        f_default := JStr ''0''\<rparr>),
      (''minOutFromSlot'', blank_field\<lparr>ff_type := ''integer'', f_title := Some ''Minimum Output from Context Slot'',
        cf_description := Some ''Forward-compat: read the minimum output from a slot. Max uint32 = unset.'', f_widget := Some ''context-slot'',
        f_slot_access := Some ''read'', cf_hidden := True, f_default := JNum (Fin 4294967295)\<rparr>)],
    sh_required = [''tokenIn'', ''tokenOut'', ''fee'', ''amountIn'']\<rparr>"

definition PancakeSwap_V3_LP_Mint :: step_type_def where
  "PancakeSwap_V3_LP_Mint = \<lparr>sh_name = ''PancakeSwap V3 LP Mint'',
    sh_description = ''Opens a new PancakeSwap V3 concentrated-liquidity position from the vault. Define the price range as explicit min/max prices or a preset width around the current price. The position NFT token-id is written to a context slot.'',
    sh_category = ''ACTION'', sh_contractKey = ''PancakeSwapV3MintAction'', sh_selector = EXECUTE_SELECTOR,
    sh_afterExecutionSelector = None,
    sh_components = [(''tokenA'', ''address''), (''tokenB'', ''address''), (''fee'', ''uint24''), (''rangeMode'', ''uint8''), (''tickLower'', ''int24''),
      (''tickUpper'', ''int24''), (''tickDelta'', ''int24''), (''amountADesired'', ''uint256''), (''amountBDesired'', ''uint256''),
      (''tokenIdToSlot'', ''uint32'')],
    sh_properties = [
      (''tokenA'', blank_field\<lparr>ff_type := ''string'', f_title := Some ''Token A'', cf_description := Some ''First token of the pair'', f_widget := Some ''token-selector'',
        ff_token_source := Some ''pancakeswap''\<rparr>),
      (''tokenB'', blank_field\<lparr>ff_type := ''string'', f_title := Some ''Token B'', cf_description := Some ''Second token of the pair'', f_widget := Some ''token-selector'',
        ff_token_source := Some ''pancakeswap''\<rparr>),
      (''fee'', blank_field\<lparr>ff_type := ''integer'', f_title := Some ''Fee Tier'', cf_description := Some ''The PancakeSwap V3 pool fee tier.'', f_widget := Some ''fee-tier'',
        f_default := JNum (Fin 500)\<rparr>),
      (''rangeMode'', blank_field\<lparr>ff_type := ''integer'', f_title := Some ''Price Range'',
        cf_description := Some ''Define the position range as explicit min/max prices, or a preset width around the current price.'',
        f_widget := Some ''tick-range'', ff_token0_field := Some ''tokenA'', ff_token1_field := Some ''tokenB'', ff_fee_field := Some ''fee'',
        f_tick_lower_field := Some ''tickLower'', f_tick_upper_field := Some ''tickUpper'', ff_tick_delta_field := Some ''tickDelta'',
        f_default := JNum (Fin 1)\<rparr>),
      (''tickLower'', blank_field\<lparr>ff_type := ''integer'', f_title := Some ''Tick Lower'', cf_hidden := True, f_default := JNum (Fin 0)\<rparr>),
      (''tickUpper'', blank_field\<lparr>ff_type := ''integer'', f_title := Some ''Tick Upper'', cf_hidden := True, f_default := JNum (Fin 0)\<rparr>),
      (''tickDelta'', blank_field\<lparr>ff_type := ''integer'', f_title := Some ''Tick Delta'', cf_hidden := True, f_default := JNum (Fin 0)\<rparr>),
      (''amountADesired'', blank_field\<lparr>ff_type := ''string'', f_title := Some ''Amount A'',
        cf_description := Some ''Amount of Token A to add (human units). Toggle to use the full vault balance.'', f_widget := Some ''token-amount'',
        f_amount_token_field := Some ''tokenA'', f_zero_toggle := JObj [(''label'', JStr ''Volles Guthaben''), (''default'', JBool False)]\<rparr>),
      (''amountBDesired'', blank_field\<lparr>ff_type := ''string'', f_title := Some ''Amount B'',
        cf_description := Some ''Amount of Token B to add (human units). Toggle to use the full vault balance.'', f_widget := Some ''token-amount'',
        f_amount_token_field := Some ''tokenB'', f_zero_toggle := JObj [(''label'', JStr ''Volles Guthaben''), (''default'', JBool False)]\<rparr>),
      (''tokenIdToSlot'', blank_field\<lparr>ff_type := ''integer'', f_title := Some ''Position Token-ID to Context Slot'',
        cf_description := Some ''Write the new position NFT token-id to a context slot so later automations can manage it.'',
        f_widget := Some ''context-slot'', f_slot_access := Some ''write'', f_default := JNum (Fin 4294967295)\<rparr>)],
    sh_required = [''tokenA'', ''tokenB'', ''fee'', ''tokenIdToSlot'']\<rparr>"

definition PancakeSwap_V3_Increase_Liquidity :: step_type_def where
  "PancakeSwap_V3_Increase_Liquidity = \<lparr>sh_name = ''PancakeSwap V3 Increase Liquidity'',
    sh_description = ''Adds liquidity to an existing PancakeSwap V3 position identified by a token-id from a context slot (written by an earlier Mint). Configure the amount of each token to add.'',
    sh_category = ''ACTION'', sh_contractKey = ''PancakeSwapV3IncreaseLiquidityAction'', sh_selector = EXECUTE_SELECTOR,
    sh_afterExecutionSelector = None,
    sh_components = [(''tokenA'', ''address''), (''tokenB'', ''address''), (''tokenIdFromSlot'', ''uint32''), (''amountADesired'', ''uint256''),
      (''amountAFromSlot'', ''uint32''), (''amountBDesired'', ''uint256''), (''amountBFromSlot'', ''uint32'')],
    sh_properties = [
      (''tokenA'', blank_field\<lparr>ff_type := ''string'', f_title := Some ''Token A'', cf_description := Some ''First token of the position pair'', f_widget := Some ''token-selector'',
        ff_token_source := Some ''pancakeswap''\<rparr>),
      (''tokenB'', blank_field\<lparr>ff_type := ''string'', f_title := Some ''Token B'', cf_description := Some ''Second token of the position pair'', f_widget := Some ''token-selector'',
        ff_token_source := Some ''pancakeswap''\<rparr>),
      (''tokenIdFromSlot'', blank_field\<lparr>ff_type := ''integer'', f_title := Some ''Position Token-ID from Context Slot'',
        cf_description := Some ''Read the position NFT token-id from a context slot (written by a Mint step).'', f_widget := Some ''context-slot'',
        f_slot_access := Some ''read'', f_default := JNum (Fin 4294967295)\<rparr>),
      (''amountADesired'', blank_field\<lparr>ff_type := ''string'', f_title := Some ''Amount A'',
        cf_description := Some ''Amount of Token A to add (human units). Toggle to use the full vault balance.'', f_widget := Some ''token-amount'',
        f_amount_token_field := Some ''tokenA'', f_zero_toggle := JObj [(''label'', JStr ''Volles Guthaben''), (''default'', JBool False)]\<rparr>),
      (''amountAFromSlot'', blank_field\<lparr>ff_type := ''integer'', f_title := Some ''Amount A from Context Slot'',
        cf_description := Some ''Read amount A from a context slot. Max uint32 = unset.'', f_widget := Some ''context-slot'', f_slot_access := Some ''read'',
        f_default := JNum (Fin 4294967295)\<rparr>),
      (''amountBDesired'', blank_field\<lparr>ff_type := ''string'', f_title := Some ''Amount B'',
        cf_description := Some ''Amount of Token B to add (human units). Toggle to use the full vault balance.'', f_widget := Some ''token-amount'',
        f_amount_token_field := Some ''tokenB'', f_zero_toggle := JObj [(''label'', JStr ''Volles Guthaben''), (''default'', JBool False)]\<rparr>),
      (''amountBFromSlot'', blank_field\<lparr>ff_type := ''integer'', f_title := Some ''Amount B from Context Slot'',
        cf_description := Some ''Read amount B from a context slot. Max uint32 = unset.'', f_widget := Some ''context-slot'', f_slot_access := Some ''read'',
        f_default := JNum (Fin 4294967295)\<rparr>)],
    sh_required = [''tokenA'', ''tokenB'', ''tokenIdFromSlot'']\<rparr>"

definition PancakeSwap_V3_Decrease_Liquidity :: step_type_def where
  "PancakeSwap_V3_Decrease_Liquidity = \<lparr>sh_name = ''PancakeSwap V3 Decrease Liquidity'',
    sh_description = ''Removes a percentage of liquidity from an existing PancakeSwap V3 position and delivers the freed tokens (plus accrued fees) to the vault in one step (decrease + collect bundled). The position token-id comes from a context slot.'',
    sh_category = ''ACTION'', sh_contractKey = ''PancakeSwapV3DecreaseLiquidityAction'', sh_selector = EXECUTE_SELECTOR,
    sh_afterExecutionSelector = None,
    sh_components = [(''tokenIdFromSlot'', ''uint32''), (''percent'', ''uint16'')],
    sh_properties = [
      (''tokenIdFromSlot'', blank_field\<lparr>ff_type := ''integer'', f_title := Some ''Position Token-ID from Context Slot'',
        cf_description := Some ''Read the position NFT token-id from a context slot (written by a Mint step).'', f_widget := Some ''context-slot'',
        f_slot_access := Some ''read'', f_default := JNum (Fin 4294967295)\<rparr>),
      (''percent'', blank_field\<lparr>ff_type := ''integer'', f_title := Some ''Percentage to Remove'',
        cf_description := Some ''How much of the position liquidity to remove (1-100; 100 = all).'', f_widget := Some ''percent'', f_default := JNum (Fin 100)\<rparr>)],
    sh_required = [''tokenIdFromSlot'', ''percent'']\<rparr>"

definition PancakeSwap_V3_Collect :: step_type_def where
  "PancakeSwap_V3_Collect = \<lparr>sh_name = ''PancakeSwap V3 Collect'',
    sh_description = ''Collects accrued fees (and any owed tokens) from an existing PancakeSwap V3 position into the vault. The position token-id comes from a context slot.'',
    sh_category = ''ACTION'', sh_contractKey = ''PancakeSwapV3CollectAction'', sh_selector = EXECUTE_SELECTOR,
    sh_afterExecutionSelector = None,
    sh_components = [(''tokenIdFromSlot'', ''uint32'')],
    sh_properties = [
      (''tokenIdFromSlot'', blank_field\<lparr>ff_type := ''integer'', f_title := Some ''Position Token-ID from Context Slot'',
        cf_description := Some ''Read the position NFT token-id from a context slot (written by a Mint step).'', f_widget := Some ''context-slot'',
        f_slot_access := Some ''read'', f_default := JNum (Fin 4294967295)\<rparr>)],
    sh_required = [''tokenIdFromSlot'']\<rparr>"

definition PancakeSwap_V3_Swap_to_Range_Ratio :: step_type_def where
  "PancakeSwap_V3_Swap_to_Range_Ratio = \<lparr>sh_name = ''PancakeSwap V3 Swap to Range Ratio'',
    sh_description = ''Sizes a concentrated-liquidity entry at execution time: reads the live pool price, works out the target token0/token1 ratio for the range (tick +- width) and swaps the over-represented token toward it. Pair it before a Mint(full balance). Computed on-chain so it stays correct whenever the automation fires.'',
    sh_category = ''ACTION'', sh_contractKey = ''PancakeSwapV3SwapToRangeRatioAction'', sh_selector = EXECUTE_SELECTOR,
    sh_afterExecutionSelector = None,
    sh_components = [(''tokenA'', ''address''), (''tokenB'', ''address''), (''fee'', ''uint24''), (''tickDelta'', ''int24''), (''amountOutMinimum'', ''uint256'')],
    sh_properties = [
      (''tokenA'', blank_field\<lparr>ff_type := ''string'', f_title := Some ''Token A'', cf_description := Some ''One of the pool tokens (typically the vault deposit token).'',
        f_widget := Some ''token-selector'', ff_token_source := Some ''pancakeswap''\<rparr>),
      (''tokenB'', blank_field\<lparr>ff_type := ''string'', f_title := Some ''Token B'', cf_description := Some ''The other pool token.'', f_widget := Some ''token-selector'',
        ff_token_source := Some ''pancakeswap''\<rparr>),
      (''fee'', blank_field\<lparr>ff_type := ''integer'', f_title := Some ''Fee Tier'', cf_description := Some ''The PancakeSwap V3 pool fee tier.'', f_widget := Some ''fee-tier'',
        f_default := JNum (Fin 500)\<rparr>),
      (''tickDelta'', blank_field\<lparr>ff_type := ''integer'', f_title := Some ''Range Width'',
        cf_description := Some ''The +-% band around the current price. MUST match the following Mint. Pick +-3% / +-10% / +-20% or a custom percent.'',
        f_widget := Some ''range-percent'', f_default := JNum (Fin 1000)\<rparr>),
      (''amountOutMinimum'', blank_field\<lparr>ff_type := ''string'', f_title := Some ''Min Out'', cf_description := Some ''Minimum swap output (slippage guard). 0 in v1.'', cf_hidden := True,
        f_default := JStr ''0''\<rparr>)],
    sh_required = [''tokenA'', ''tokenB'', ''fee'', ''tickDelta'']\<rparr>"

definition PANCAKESWAP_STEP_TYPES :: "step_type_def list" where
  "PANCAKESWAP_STEP_TYPES = [PancakeSwap_V3_Swap, PancakeSwap_V3_LP_Mint, PancakeSwap_V3_Increase_Liquidity, PancakeSwap_V3_Decrease_Liquidity, PancakeSwap_V3_Collect,
    PancakeSwap_V3_Swap_to_Range_Ratio]"

definition STEP_TYPE_CATALOG :: "step_type_def list" where
  "STEP_TYPE_CATALOG = CORE_STEP_TYPES @ AAVE_STEP_TYPES @ PANCAKESWAP_STEP_TYPES"

text \<open>What the guard, the validation and the seed see of an entry.\<close>

definition abi_of :: "step_type_def \<Rightarrow> abi_component list" where
  "abi_of d = map (\<lambda>(n, t). \<lparr>c_name = n, c_type = t\<rparr>) (sh_components d)"

definition entry_of :: "step_type_def \<Rightarrow> catalog_entry" where
  "entry_of d = \<lparr>ce_name = sh_name d, ce_description = sh_description d, ce_category = sh_category d, ce_contractKey = sh_contractKey d,
     ce_selector = sh_selector d, ce_afterExecutionSelector = sh_afterExecutionSelector d,
     ce_properties = map (\<lambda>(k, f). (k, catalog_field.truncate f)) (sh_properties d), ce_components = abi_of d\<rparr>"

definition schema_of :: "step_type_def \<Rightarrow> param_schema" where
  "schema_of d = \<lparr>ps_properties = map (\<lambda>(k, f). (k, field_schema.truncate f)) (sh_properties d), ps_required = sh_required d\<rparr>"

section \<open>Recipes and tokens\<close>

record shipped_recipe =
  sr_key :: string
  sr_name :: string
  sr_description :: string
  sr_category :: string
  sr_nodes :: "(string \<times> string \<times> (string \<times> jsval) list) list"
  sr_edges :: "(string \<times> string \<times> string) list"

definition PANCAKESWAP_BSC_TOKENS :: "(string \<times> string \<times> nat) list" where
  "PANCAKESWAP_BSC_TOKENS = [
     (''0xbb4CdB9CBd36B01bD1cBaEBF2De08d9173bc095c'', ''WBNB'', 18),
     (''0x55d398326f99059fF775485246999027B3197955'', ''USDT'', 18),
     (''0x8AC76a51cc950d9822D68b83fE1Ad97B32Cd580d'', ''USDC'', 18),
     (''0x7130d2A12B9BCbFAe4f2634d864A1Ee1Ce3Ead9c'', ''BTCB'', 18),
     (''0x2170Ed0880ac9A755fd29B2688956BD959F933F8'', ''ETH'', 18),
     (''0x0E09FaBB73Bd3Ade0a17ECC321fD13a19e81cE82'', ''CAKE'', 18)]"

definition AAVE_BSC_TOKENS :: "(string \<times> string \<times> nat) list" where
  "AAVE_BSC_TOKENS = [
     (''0xbb4CdB9CBd36B01bD1cBaEBF2De08d9173bc095c'', ''WBNB'', 18),
     (''0x55d398326f99059fF775485246999027B3197955'', ''USDT'', 18),
     (''0x8AC76a51cc950d9822D68b83fE1Ad97B32Cd580d'', ''USDC'', 18),
     (''0x7130d2A12B9BCbFAe4f2634d864A1Ee1Ce3Ead9c'', ''BTCB'', 18),
     (''0x2170Ed0880ac9A755fd29B2688956BD959F933F8'', ''ETH'', 18),
     (''0x0E09FaBB73Bd3Ade0a17ECC321fD13a19e81cE82'', ''CAKE'', 18),
     (''0xc5f0f7b66764F6ec8C8Dff7BA683102295E16409'', ''FDUSD'', 18),
     (''0x26c5e01524d2E6280A48F2c50fF6De7e52E9611C'', ''wstETH'', 18)]"

definition recipe_dca :: shipped_recipe where
  "recipe_dca = \<lparr>sr_key = ''dca'', sr_name = ''DCA - Dollar-Cost-Averaging'',
    sr_description = ''Kauft in festen Intervallen fuer einen festen Betrag einen Zieltoken (z. B. woechentlich fuer BETRAG TOKEN_IN -> TOKEN_OUT). Interval-Trigger -> Swap.'',
    sr_category = ''accumulation'',
    sr_nodes = [
      (''trigger'', ''Interval Condition'', [(''interval'', JStr ''INTERVALL'')]),
      (''buy'', ''PancakeSwap V3 Swap'', [(''tokenIn'', JStr ''TOKEN_IN''), (''tokenOut'', JStr ''TOKEN_OUT''), (''fee'', JStr ''FEE_TIER''), (''amountIn'', JStr ''BETRAG'')])],
    sr_edges = [(''trigger'', ''buy'', ''out'')]\<rparr>"

definition recipe_interval_aave_supply :: shipped_recipe where
  "recipe_interval_aave_supply = \<lparr>sr_key = ''interval-aave-supply'', sr_name = ''Interval Aave Supply'',
    sr_description = ''Supplied in festen Intervallen einen Betrag eines Assets in Aave V3 (z. B. woechentlich BETRAG TOKEN). Interval-Trigger -> Aave V3 Supply.'',
    sr_category = ''yield'',
    sr_nodes = [
      (''trigger'', ''Interval Condition'', [(''interval'', JStr ''INTERVALL'')]),
      (''supply'', ''Aave V3 Supply'', [(''asset'', JStr ''TOKEN''), (''mode'', JStr ''MODE''), (''amount'', JStr ''BETRAG'')])],
    sr_edges = [(''trigger'', ''supply'', ''out'')]\<rparr>"

definition recipe_pancake_auto_reinvest :: shipped_recipe where
  "recipe_pancake_auto_reinvest = \<lparr>sr_key = ''pancake-auto-reinvest'', sr_name = ''PancakeSwap Auto-Reinvest'',
    sr_description = ''Erntet in festen Intervallen die Gebuehren einer PancakeSwap-V3-LP-Position und reinvestiert sie in dieselbe Position. Interval -> Collect -> Increase Liquidity. Die Position-ID kommt aus einem Kontext-Slot (LP_POSITION_SLOT).'',
    sr_category = ''compounding'',
    sr_nodes = [
      (''trigger'', ''Interval Condition'', [(''interval'', JStr ''INTERVALL'')]),
      (''collect'', ''PancakeSwap V3 Collect'', [(''tokenIdFromSlot'', JStr ''LP_POSITION_SLOT'')]),
      (''reinvest'', ''PancakeSwap V3 Increase Liquidity'', [(''tokenA'', JStr ''TOKEN_A''), (''tokenB'', JStr ''TOKEN_B''), (''tokenIdFromSlot'', JStr ''LP_POSITION_SLOT''),
        (''amountADesired'', JStr ''BETRAG_A''), (''amountBDesired'', JStr ''BETRAG_B'')])],
    sr_edges = [(''trigger'', ''collect'', ''out''), (''collect'', ''reinvest'', ''out'')]\<rparr>"

definition recipe_interval_rebalance :: shipped_recipe where
  "recipe_interval_rebalance = \<lparr>sr_key = ''interval-rebalance'', sr_name = ''Interval Rebalance'',
    sr_description = ''Stellt in festen Intervallen ein Zielverhaeltnis wieder her, indem ein Betrag von einem Token in den anderen getauscht wird. Interval-Trigger -> Swap.'',
    sr_category = ''rebalancing'',
    sr_nodes = [
      (''trigger'', ''Interval Condition'', [(''interval'', JStr ''INTERVALL'')]),
      (''swap'', ''PancakeSwap V3 Swap'', [(''tokenIn'', JStr ''TOKEN_FROM''), (''tokenOut'', JStr ''TOKEN_TO''), (''fee'', JStr ''FEE_TIER''), (''amountIn'', JStr ''BETRAG'')])],
    sr_edges = [(''trigger'', ''swap'', ''out'')]\<rparr>"

definition recipe_wick_wait_entry :: shipped_recipe where
  "recipe_wick_wait_entry = \<lparr>sr_key = ''wick-wait-entry'', sr_name = ''Wick & Wait - Entry'',
    sr_description = ''Oeffnet die Concentrated-Liquidity-Position aus dem Deposit-Token: sized on-chain auf das Ziel-Verhaeltnis (+-RANGE%) und mintet. Einmalig/manuell ausfuehren. Die Position-ID landet im LP_POSITION_SLOT.'',
    sr_category = ''liquidity'',
    sr_nodes = [
      (''size'', ''PancakeSwap V3 Swap to Range Ratio'', [(''tokenA'', JStr ''TOKEN_A''), (''tokenB'', JStr ''TOKEN_B''), (''fee'', JStr ''FEE''), (''tickDelta'', JStr ''RANGE''),
        (''amountOutMinimum'', JStr ''0'')]),
      (''mint'', ''PancakeSwap V3 LP Mint'', [(''tokenA'', JStr ''TOKEN_A''), (''tokenB'', JStr ''TOKEN_B''), (''fee'', JStr ''FEE''), (''rangeMode'', JNum (Fin 1)),
        (''tickDelta'', JStr ''RANGE''), (''amountADesired'', JStr ''0''), (''amountBDesired'', JStr ''0''), (''tokenIdToSlot'', JStr ''LP_POSITION_SLOT'')])],
    sr_edges = [(''size'', ''mint'', ''out'')]\<rparr>"

definition recipe_wick_wait_rebalance :: shipped_recipe where
  "recipe_wick_wait_rebalance = \<lparr>sr_key = ''wick-wait-rebalance'', sr_name = ''Wick & Wait - Rebalance'',
    sr_description = ''Triggert nur bei einem anhaltenden (TWAP-bestaetigten) Range-Bruch + Cooldown - kurze Wicks werden ignoriert. Erntet erst die Fees, schliesst dann die Position, sized die freien Token on-chain neu (+-RANGE%) und oeffnet um den neuen Preis. WickWait-Trigger -> Collect -> Decrease(100%) -> SwapToRangeRatio -> Mint. Decrease buendelt intern bereits ein Collect; der separate Collect davor erntet die Fees, bevor das Prinzipal entnommen wird. Nach dem Schliessen haelt die Vault beide Token; SwapToRangeRatio balanciert, Mint(full balance) providet - ein kleiner Dust-Rest bleibt liegen. Gleiches RANGE wie der Entry verwenden.'',
    sr_category = ''liquidity'',
    sr_nodes = [
      (''trigger'', ''Wick & Wait Rebalance'', [(''tokenIdSlot'', JStr ''LP_POSITION_SLOT''), (''twapWindow'', JStr ''TWAP_WINDOW''), (''cooldown'', JStr ''COOLDOWN''),
        (''lastRebalanceSlot'', JStr ''LAST_REBALANCE_SLOT'')]),
      (''collect'', ''PancakeSwap V3 Collect'', [(''tokenIdFromSlot'', JStr ''LP_POSITION_SLOT'')]),
      (''close'', ''PancakeSwap V3 Decrease Liquidity'', [(''tokenIdFromSlot'', JStr ''LP_POSITION_SLOT''), (''percent'', JNum (Fin 100))]),
      (''size'', ''PancakeSwap V3 Swap to Range Ratio'', [(''tokenA'', JStr ''TOKEN_A''), (''tokenB'', JStr ''TOKEN_B''), (''fee'', JStr ''FEE''), (''tickDelta'', JStr ''RANGE''),
        (''amountOutMinimum'', JStr ''0'')]),
      (''mint'', ''PancakeSwap V3 LP Mint'', [(''tokenA'', JStr ''TOKEN_A''), (''tokenB'', JStr ''TOKEN_B''), (''fee'', JStr ''FEE''), (''rangeMode'', JNum (Fin 1)),
        (''tickDelta'', JStr ''RANGE''), (''amountADesired'', JStr ''0''), (''amountBDesired'', JStr ''0''), (''tokenIdToSlot'', JStr ''LP_POSITION_SLOT'')])],
    sr_edges = [(''trigger'', ''collect'', ''out''), (''collect'', ''close'', ''out''), (''close'', ''size'', ''out''), (''size'', ''mint'', ''out'')]\<rparr>"

definition recipe_wick_wait_compound :: shipped_recipe where
  "recipe_wick_wait_compound = \<lparr>sr_key = ''wick-wait-compound'', sr_name = ''Wick & Wait - Auto-Compound'',
    sr_description = ''Erntet in festen Intervallen die Fees der offenen Position, fuellt die Gas-Reserve auf die Zielreserve auf und legt den Rest wieder nach. Interval -> Collect -> Fee Deposit -> Increase Liquidity. Position-ID aus dem LP_POSITION_SLOT. So bleibt die Vault fuer den Keeper zahlungsfaehig, ohne separate Wartungs-Automation.'',
    sr_category = ''compounding'',
    sr_nodes = [
      (''trigger'', ''Interval Condition'', [(''interval'', JStr ''INTERVALL'')]),
      (''collect'', ''PancakeSwap V3 Collect'', [(''tokenIdFromSlot'', JStr ''LP_POSITION_SLOT'')]),
      (''feeTopUp'', ''Fee Deposit'', [(''feeRegistry'', JStr ''FEE_REGISTRY''), (''token'', JStr ''TOKEN_A''), (''topUpAmount'', JStr ''0'')]),
      (''reinvest'', ''PancakeSwap V3 Increase Liquidity'', [(''tokenA'', JStr ''TOKEN_A''), (''tokenB'', JStr ''TOKEN_B''), (''tokenIdFromSlot'', JStr ''LP_POSITION_SLOT''), (''amountADesired'', JStr ''0''),
        (''amountBDesired'', JStr ''0'')])],
    sr_edges = [(''trigger'', ''collect'', ''out''), (''collect'', ''feeTopUp'', ''out''), (''feeTopUp'', ''reinvest'', ''out'')]\<rparr>"

definition RECIPES :: "shipped_recipe list" where
  "RECIPES = [recipe_dca, recipe_interval_aave_supply, recipe_pancake_auto_reinvest, recipe_interval_rebalance, recipe_wick_wait_entry, recipe_wick_wait_rebalance,
    recipe_wick_wait_compound]"

definition definition_of :: "shipped_recipe \<Rightarrow> recipe_definition" where
  "definition_of r = \<lparr>rd_key = sr_key r, rd_name = sr_name r, rd_description = sr_description r, rd_category = sr_category r,
     rd_shape = \<lparr>rs_nodes = map (\<lambda>(i, st, ps). \<lparr>rn_id = i, rn_stepType = st, rn_params = map fst ps\<rparr>) (sr_nodes r),
       rs_edges = map (\<lambda>(s, t, h). (s, t)) (sr_edges r)\<rparr>\<rparr>"

section \<open>The guard on the shipped catalog\<close>

text \<open>A quick test of a text, without folding its case: no position of it starts one of three words.\<close>

fun ci_starts :: "(char \<times> char) list \<Rightarrow> string \<Rightarrow> bool" where
  "ci_starts [] s = True"
| "ci_starts (p # ps) [] = False"
| "ci_starts ((a, b) # ps) (c # s) = ((c = a \<or> c = b) \<and> ci_starts ps s)"

fun quiet :: "string \<Rightarrow> bool" where
  "quiet [] = True"
| "quiet (c # s) = (\<not> ci_starts (zip ''yet'' ''YET'') (c # s) \<and> \<not> ci_starts (zip ''slice'' ''SLICE'') (c # s) \<and>
     \<not> ci_starts (zip ''reserved'' ''RESERVED'') (c # s) \<and> quiet s)"

lemma lower_char_is:
  assumes "lower_char c = a" "97 \<le> code a" "code a \<le> 122" "code b + 32 = code a"
  shows "c = a \<or> c = b"
proof -
  have lt: "code c < 256" using of_char_of [of "0::nat"] by (simp add: code_def)
  have "code c = code a \<or> code c = code b"
    using assms lt by (auto simp: lower_char_def code_def split: if_splits)
  then show ?thesis by simp
qed

lemma ci_starts_lower:
  assumes "list_all2 (\<lambda>a b. 97 \<le> code a \<and> code a \<le> 122 \<and> code b + 32 = code a) p q" "starts_with p (lower s)"
  shows "ci_starts (zip p q) s"
  using assms
proof (induction p q arbitrary: s rule: list_all2_induct)
  case (Cons a p b q)
  then obtain c r where s: "s = c # r" by (cases s) (auto simp: starts_with_def lower_def)
  with Cons.prems have "lower_char c = a" "starts_with p (lower r)" by (auto simp: starts_with_def lower_def)
  with Cons lower_char_is [of c a b] show ?case by (simp add: s)
qed simp

lemma starts_with_rest: "starts_with p s \<longleftrightarrow> (\<exists>r. s = p @ r)"
proof
  assume "starts_with p s"
  then have "s = p @ drop (length p) s" using append_take_drop_id [of "length p" s] by (simp add: starts_with_def)
  then show "\<exists>r. s = p @ r" by blast
qed (auto simp: starts_with_def)

lemma starts_with_drop: "starts_with (x @ p @ q) s \<Longrightarrow> starts_with p (drop (length x) s)"
  unfolding starts_with_rest by auto

lemma has_part_drop: "has_part p s \<Longrightarrow> \<exists>k. starts_with p (drop k s)"
proof (induction s)
  case Nil
  then have "starts_with p (drop 0 [])" by (simp add: starts_with_def)
  then show ?case by (rule exI [of _ 0])
next
  case (Cons c s)
  then consider "starts_with p (drop 0 (c # s))" | "has_part p s" by auto
  then show ?case
  proof cases
    case 1
    then show ?thesis by blast
  next
    case 2
    with Cons.IH obtain k where "starts_with p (drop k s)" by blast
    then have "starts_with p (drop (Suc k) (c # s))" by simp
    then show ?thesis by blast
  qed
qed

lemma has_word_part: "has_word b w s \<Longrightarrow> has_part w s"
  by (induction b w s rule: has_word.induct) auto

lemma quiet_drop: "quiet s \<Longrightarrow> \<not> ci_starts (zip ''yet'' ''YET'') (drop k s) \<and> \<not> ci_starts (zip ''slice'' ''SLICE'') (drop k s) \<and>
    \<not> ci_starts (zip ''reserved'' ''RESERVED'') (drop k s)"
proof (induction s arbitrary: k)
  case (Cons c s)
  then show ?case by (cases k) simp_all
qed simp

lemma quiet_not_stale:
  assumes "quiet s"
  shows "\<not> is_stale s"
proof
  have cs: "list_all2 (\<lambda>a b. 97 \<le> code a \<and> code a \<le> 122 \<and> code b + 32 = code a) ''yet'' ''YET''"
    "list_all2 (\<lambda>a b. 97 \<le> code a \<and> code a \<le> 122 \<and> code b + 32 = code a) ''slice'' ''SLICE''"
    "list_all2 (\<lambda>a b. 97 \<le> code a \<and> code a \<le> 122 \<and> code b + 32 = code a) ''reserved'' ''RESERVED''"
    by (simp_all add: code_def)
  have low: "drop k (lower s) = lower (drop k s)" for k by (simp add: lower_def drop_map)
  have no: "\<not> starts_with ''yet'' (drop k (lower s))" "\<not> starts_with ''slice'' (drop k (lower s))" "\<not> starts_with ''reserved'' (drop k (lower s))" for k
    unfolding low using quiet_drop [OF assms, of k] cs [THEN ci_starts_lower] by blast+
  assume "is_stale s"
  then consider "has_part (''not '' @ ''yet'' @ '' available'') (lower s)" | "has_part (''later '' @ ''slice'' @ []) (lower s)" | "has_part ''reserved'' (lower s)"
    by (auto simp: is_stale_def dest: has_word_part)
  then show False
  proof cases
    case 1
    then obtain k where "starts_with (''not '' @ ''yet'' @ '' available'') (drop k (lower s))" using has_part_drop by blast
    from starts_with_drop [OF this] no(1) show False by (simp only: drop_drop)
  next
    case 2
    then obtain k where "starts_with (''later '' @ ''slice'' @ []) (drop k (lower s))" using has_part_drop by blast
    from starts_with_drop [OF this] no(2) show False by (simp only: drop_drop)
  next
    case 3
    then show False using has_part_drop no(3) by blast
  qed
qed

definition shipped_ok :: "step_type_def \<Rightarrow> bool" where
  "shipped_ok d \<longleftrightarrow> modes_supported (ACTION_CAPABILITIES (sh_contractKey d)) (entry_of d) \<and> lockstep (entry_of d)"

lemma texts_quiet:
  "list_all (\<lambda>d. list_all (\<lambda>(k, f). quiet (or_else (cf_description f) [])) (sh_properties d)) CORE_STEP_TYPES"
  "list_all (\<lambda>d. list_all (\<lambda>(k, f). quiet (or_else (cf_description f) [])) (sh_properties d)) AAVE_STEP_TYPES"
  "list_all (\<lambda>d. list_all (\<lambda>(k, f). quiet (or_else (cf_description f) [])) (sh_properties d)) PANCAKESWAP_STEP_TYPES"
  by code_simp+

lemma shipped_lockstep: "list_all shipped_ok CORE_STEP_TYPES" "list_all shipped_ok AAVE_STEP_TYPES" "list_all shipped_ok PANCAKESWAP_STEP_TYPES"
  by code_simp+

text \<open>An address whose name is one of those the role check looks for.\<close>

definition TARGET_NAMES :: "(string \<times> string) list" where
  "TARGET_NAMES = [(''recipient'', ''RECIPIENT''), (''to'', ''TO''), (''receiver'', ''RECEIVER''), (''destination'', ''DESTINATION'')]"

definition target_name :: "string \<Rightarrow> bool" where
  "target_name n \<longleftrightarrow> list_ex (\<lambda>(p, q). length n = length p \<and> ci_starts (zip p q) n) TARGET_NAMES"

lemma target_name_lower:
  assumes "lower n \<in> RECIPIENT_FIELD_NAMES"
  shows "target_name n"
proof -
  have cases: "list_all (\<lambda>(p, q). list_all2 (\<lambda>a b. 97 \<le> code a \<and> code a \<le> 122 \<and> code b + 32 = code a) p q) TARGET_NAMES"
    by (simp add: TARGET_NAMES_def code_def)
  have "RECIPIENT_FIELD_NAMES = fst ` set TARGET_NAMES" by (simp add: RECIPIENT_FIELD_NAMES_def TARGET_NAMES_def)
  with assms have "lower n \<in> fst ` set TARGET_NAMES" by (simp only:)
  then obtain q where q: "(lower n, q) \<in> set TARGET_NAMES" by auto
  with cases have "list_all2 (\<lambda>a b. 97 \<le> code a \<and> code a \<le> 122 \<and> code b + 32 = code a) (lower n) q" by (auto simp: list_all_iff)
  then have "ci_starts (zip (lower n) q) n" by (rule ci_starts_lower) (simp add: starts_with_def lower_def)
  moreover have "length n = length (lower n)" by (simp add: lower_def)
  ultimately show ?thesis unfolding target_name_def list_ex_iff using q by (intro bexI [OF _ q]) simp
qed

definition targets_marked :: "step_type_def \<Rightarrow> bool" where
  "targets_marked d \<longleftrightarrow> list_all (\<lambda>(n, t). t = ''address'' \<and> target_name n \<longrightarrow>
     resolveFieldRole (map_of (ps_properties (schema_of d)) n) = Some RecipientRole) (sh_components d)"

lemma shipped_targets: "list_all targets_marked STEP_TYPE_CATALOG"
  by code_simp

lemma targets_marked_gaps:
  assumes "targets_marked d"
  shows "findUnannotatedRecipients [as_catalog_step (entry_of d)] = []"
proof -
  have "map_of (schema_properties (Some (cs_schema (as_catalog_step (entry_of d))))) n = map_of (ps_properties (schema_of d)) n" for n
    by (simp add: as_catalog_step_def entry_of_def schema_of_def schema_properties_def comp_def case_prod_unfold catalog_field.defs field_schema.defs)
  then show ?thesis
    using assms target_name_lower
    by (fastforce simp: findUnannotatedRecipients_def filter_empty_conv is_gap_def targets_marked_def list_all_iff as_catalog_step_def entry_of_def abi_of_def)
qed

lemma findUnannotated_Cons: "findUnannotatedRecipients (st # sts) = findUnannotatedRecipients [st] @ findUnannotatedRecipients sts"
  by (simp add: findUnannotatedRecipients_def)

lemma findUnannotated_all: "list_all (\<lambda>st. findUnannotatedRecipients [st] = []) sts \<Longrightarrow> findUnannotatedRecipients sts = []"
proof (induction sts)
  case (Cons st sts)
  then show ?case by (subst findUnannotated_Cons) simp
qed (simp add: findUnannotatedRecipients_def)


section \<open>The form on the shipped catalog\<close>

definition form_closed :: "step_type_def \<Rightarrow> bool" where
  "form_closed d \<longleftrightarrow> (let ks = map fst (sh_properties d) in
     list_all (\<lambda>(k, f). driven k f \<subseteq> set (ks @ map zeroToggleField ks)) (sh_properties d))"

lemma shipped_forms: "list_all form_closed STEP_TYPE_CATALOG"
  by code_simp

text \<open>What the form writes for a shipped step stays within its schema: whatever the user does in a field of it, every parameter
  that changes is a property of the step, or the toggle of one.\<close>

theorem shipped_edits_stay_in_schema:
  assumes "d \<in> set STEP_TYPE_CATALOG" "(k, f) \<in> set (sh_properties d)"
    and "field_step env (sh_properties d) k f ps e l = (l', cs)"
  shows "fst ` set cs \<subseteq> fst ` set (sh_properties d) \<union> zeroToggleField ` fst ` set (sh_properties d)"
proof -
  have "driven k f \<subseteq> set (map fst (sh_properties d) @ map zeroToggleField (map fst (sh_properties d)))"
    using shipped_forms assms(1,2) by (fastforce simp: list_all_iff form_closed_def Let_def)
  with step_writes [OF assms(3)] show ?thesis by (auto simp: image_image)
qed

theorem shipped_edits_stay_in_schema_witness:
  "\<exists>l cs. field_step demo_form (sh_properties Interval_Condition) ''interval'' (snd (hd (sh_properties Interval_Condition))) Map.empty (Typed ''2'')
     empty_locals = (l, cs) \<and>
     fst ` set cs \<subseteq> fst ` set (sh_properties Interval_Condition) \<union> zeroToggleField ` fst ` set (sh_properties Interval_Condition)"
proof -
  have d: "Interval_Condition \<in> set STEP_TYPE_CATALOG" by (simp add: STEP_TYPE_CATALOG_def CORE_STEP_TYPES_def)
  have f: "(''interval'', snd (hd (sh_properties Interval_Condition))) \<in> set (sh_properties Interval_Condition)"
    by (simp add: Interval_Condition_def)
  obtain l cs where s: "field_step demo_form (sh_properties Interval_Condition) ''interval'' (snd (hd (sh_properties Interval_Condition))) Map.empty
      (Typed ''2'') empty_locals = (l, cs)" by fastforce
  with shipped_edits_stay_in_schema [OF d f s] show ?thesis by blast
qed

section \<open>The recipes\<close>

text \<open>What the check reads of the catalog: names, categories and properties.\<close>

definition step_keys :: "step_type_def \<Rightarrow> string list" where
  "step_keys d = map fst (sh_properties d)"

lemma step_facts:
  "sh_name Token_Balance_Condition = ''Token Balance Condition''" "sh_category Token_Balance_Condition = ''CONDITION''"
  "step_keys Token_Balance_Condition = [''token'', ''account'', ''minBalance'', ''aboveOrEqual'', ''minBalanceFromSlot'']"
  "sh_name Interval_Condition = ''Interval Condition''" "sh_category Interval_Condition = ''CONDITION''"
  "step_keys Interval_Condition = [''interval'', ''startTime'', ''timeSlot'']"
  "sh_name Timer_Condition = ''Timer Condition''" "sh_category Timer_Condition = ''CONDITION''"
  "step_keys Timer_Condition = [''delta'', ''startTime'', ''timeSlot'']"
  "sh_name ERC_20_Transfer = ''ERC-20 Transfer''" "sh_category ERC_20_Transfer = ''ACTION''"
  "step_keys ERC_20_Transfer = [''token'', ''recipient'', ''amount'', ''amountFromSlot'', ''amountToSlot'', ''feeRegistry'']"
  "sh_name Fee_Deposit = ''Fee Deposit''" "sh_category Fee_Deposit = ''ACTION''"
  "step_keys Fee_Deposit = [''feeRegistry'', ''token'', ''topUpAmount'']"
  "sh_name Wick_Wait_Rebalance = ''Wick & Wait Rebalance''" "sh_category Wick_Wait_Rebalance = ''CONDITION''"
  "step_keys Wick_Wait_Rebalance = [''tokenIdSlot'', ''twapWindow'', ''cooldown'', ''lastRebalanceSlot'']"
  "sh_name Aave_V3_Supply = ''Aave V3 Supply''" "sh_category Aave_V3_Supply = ''ACTION''"
  "step_keys Aave_V3_Supply = [''asset'', ''mode'', ''amount'', ''amountFromSlot'', ''targetHealthFactor'', ''amountToSlot'']"
  "sh_name Aave_V3_Withdraw = ''Aave V3 Withdraw''" "sh_category Aave_V3_Withdraw = ''ACTION''"
  "step_keys Aave_V3_Withdraw = [''asset'', ''mode'', ''amount'', ''amountFromSlot'', ''targetHealthFactor'', ''amountToSlot'']"
  "sh_name Aave_V3_Borrow = ''Aave V3 Borrow''" "sh_category Aave_V3_Borrow = ''ACTION''"
  "step_keys Aave_V3_Borrow = [''asset'', ''mode'', ''amount'', ''amountFromSlot'', ''targetHealthFactor'', ''amountToSlot'']"
  "sh_name Aave_V3_Repay = ''Aave V3 Repay''" "sh_category Aave_V3_Repay = ''ACTION''"
  "step_keys Aave_V3_Repay = [''asset'', ''mode'', ''amount'', ''amountFromSlot'', ''targetHealthFactor'', ''amountToSlot'']"
  "sh_name PancakeSwap_V3_Swap = ''PancakeSwap V3 Swap''" "sh_category PancakeSwap_V3_Swap = ''ACTION''"
  "step_keys PancakeSwap_V3_Swap = [''tokenIn'', ''tokenOut'', ''fee'', ''amountIn'', ''amountInFromSlot'', ''amountOutToSlot'', ''amountOutMinimum'', ''minOutFromSlot'']"
  "sh_name PancakeSwap_V3_LP_Mint = ''PancakeSwap V3 LP Mint''" "sh_category PancakeSwap_V3_LP_Mint = ''ACTION''"
  "step_keys PancakeSwap_V3_LP_Mint = [''tokenA'', ''tokenB'', ''fee'', ''rangeMode'', ''tickLower'', ''tickUpper'', ''tickDelta'', ''amountADesired'', ''amountBDesired'', ''tokenIdToSlot'']"
  "sh_name PancakeSwap_V3_Increase_Liquidity = ''PancakeSwap V3 Increase Liquidity''" "sh_category PancakeSwap_V3_Increase_Liquidity = ''ACTION''"
  "step_keys PancakeSwap_V3_Increase_Liquidity = [''tokenA'', ''tokenB'', ''tokenIdFromSlot'', ''amountADesired'', ''amountAFromSlot'', ''amountBDesired'', ''amountBFromSlot'']"
  "sh_name PancakeSwap_V3_Decrease_Liquidity = ''PancakeSwap V3 Decrease Liquidity''" "sh_category PancakeSwap_V3_Decrease_Liquidity = ''ACTION''"
  "step_keys PancakeSwap_V3_Decrease_Liquidity = [''tokenIdFromSlot'', ''percent'']"
  "sh_name PancakeSwap_V3_Collect = ''PancakeSwap V3 Collect''" "sh_category PancakeSwap_V3_Collect = ''ACTION''"
  "step_keys PancakeSwap_V3_Collect = [''tokenIdFromSlot'']"
  "sh_name PancakeSwap_V3_Swap_to_Range_Ratio = ''PancakeSwap V3 Swap to Range Ratio''" "sh_category PancakeSwap_V3_Swap_to_Range_Ratio = ''ACTION''"
  "step_keys PancakeSwap_V3_Swap_to_Range_Ratio = [''tokenA'', ''tokenB'', ''fee'', ''tickDelta'', ''amountOutMinimum'']"
  by (simp_all only: step_keys_def Token_Balance_Condition_def Interval_Condition_def Timer_Condition_def ERC_20_Transfer_def Fee_Deposit_def Wick_Wait_Rebalance_def Aave_V3_Supply_def Aave_V3_Withdraw_def Aave_V3_Borrow_def Aave_V3_Repay_def PancakeSwap_V3_Swap_def PancakeSwap_V3_LP_Mint_def PancakeSwap_V3_Increase_Liquidity_def PancakeSwap_V3_Decrease_Liquidity_def PancakeSwap_V3_Collect_def PancakeSwap_V3_Swap_to_Range_Ratio_def step_type_def.simps list.map fst_conv)

lemmas catalog_defs = STEP_TYPE_CATALOG_def CORE_STEP_TYPES_def AAVE_STEP_TYPES_def PANCAKESWAP_STEP_TYPES_def

lemma shipped_distinct: "distinct (map sh_name STEP_TYPE_CATALOG)"
  by (simp add: catalog_defs step_facts)

definition shipped_step :: "string \<Rightarrow> step_type_def option" where
  "shipped_step name = List.find (\<lambda>d. sh_name d = name) STEP_TYPE_CATALOG"

lemma find_distinct: "distinct (map k ds) \<Longrightarrow> d \<in> set ds \<Longrightarrow> List.find (\<lambda>x. k x = k d) ds = Some d"
  by (induction ds) (auto simp: rev_image_eqI)

lemma shipped_step_at: "d \<in> set STEP_TYPE_CATALOG \<Longrightarrow> sh_name d = name \<Longrightarrow> shipped_step name = Some d"
  unfolding shipped_step_def using find_distinct [OF shipped_distinct, of d] by simp

text \<open>The steps that the recipes name.\<close>

lemma recipe_steps:
  "shipped_step ''Interval Condition'' = Some Interval_Condition"
  "shipped_step ''Wick & Wait Rebalance'' = Some Wick_Wait_Rebalance"
  "shipped_step ''Fee Deposit'' = Some Fee_Deposit"
  "shipped_step ''Aave V3 Supply'' = Some Aave_V3_Supply"
  "shipped_step ''PancakeSwap V3 Swap'' = Some PancakeSwap_V3_Swap"
  "shipped_step ''PancakeSwap V3 LP Mint'' = Some PancakeSwap_V3_LP_Mint"
  "shipped_step ''PancakeSwap V3 Increase Liquidity'' = Some PancakeSwap_V3_Increase_Liquidity"
  "shipped_step ''PancakeSwap V3 Decrease Liquidity'' = Some PancakeSwap_V3_Decrease_Liquidity"
  "shipped_step ''PancakeSwap V3 Collect'' = Some PancakeSwap_V3_Collect"
  "shipped_step ''PancakeSwap V3 Swap to Range Ratio'' = Some PancakeSwap_V3_Swap_to_Range_Ratio"
  by (rule shipped_step_at, simp add: catalog_defs, simp only: step_facts)+

lemma shipped_by_key:
  assumes "shipped_step name = Some d"
  shows "by_key ce_name (map entry_of STEP_TYPE_CATALOG) name = Some (entry_of d)"
proof -
  have d: "d \<in> set STEP_TYPE_CATALOG" "sh_name d = name" using find_Some_in [OF assms [unfolded shipped_step_def]] by simp_all
  have "distinct (map ce_name (map entry_of STEP_TYPE_CATALOG))"
    using shipped_distinct by (simp add: comp_def entry_of_def)
  moreover have "entry_of d \<in> set (map entry_of STEP_TYPE_CATALOG)" using d(1) by simp
  ultimately have "by_key ce_name (map entry_of STEP_TYPE_CATALOG) (ce_name (entry_of d)) = Some (entry_of d)" by (rule by_key_distinct)
  moreover have "ce_name (entry_of d) = name" using d(2) by (simp add: entry_of_def)
  ultimately show ?thesis by simp
qed

definition node_listed :: "string \<times> string \<times> (string \<times> jsval) list \<Rightarrow> bool" where
  "node_listed n = (case n of (i, st, ps) \<Rightarrow>
     (case shipped_step st of None \<Rightarrow> False | Some d \<Rightarrow> list_all (\<lambda>(k, v). k \<in> set (step_keys d)) ps))"

text \<open>The nodes and edges alone, without the texts.\<close>

lemma recipe_shapes:
  "sr_nodes recipe_dca = [(''trigger'', ''Interval Condition'', [(''interval'', JStr ''INTERVALL'')]),
    (''buy'', ''PancakeSwap V3 Swap'', [(''tokenIn'', JStr ''TOKEN_IN''), (''tokenOut'', JStr ''TOKEN_OUT''), (''fee'', JStr ''FEE_TIER''), (''amountIn'', JStr ''BETRAG'')])]"
  "sr_edges recipe_dca = [(''trigger'', ''buy'', ''out'')]"
  "sr_nodes recipe_interval_aave_supply = [(''trigger'', ''Interval Condition'', [(''interval'', JStr ''INTERVALL'')]),
    (''supply'', ''Aave V3 Supply'', [(''asset'', JStr ''TOKEN''), (''mode'', JStr ''MODE''), (''amount'', JStr ''BETRAG'')])]"
  "sr_edges recipe_interval_aave_supply = [(''trigger'', ''supply'', ''out'')]"
  "sr_nodes recipe_pancake_auto_reinvest = [(''trigger'', ''Interval Condition'', [(''interval'', JStr ''INTERVALL'')]),
    (''collect'', ''PancakeSwap V3 Collect'', [(''tokenIdFromSlot'', JStr ''LP_POSITION_SLOT'')]),
    (''reinvest'', ''PancakeSwap V3 Increase Liquidity'', [(''tokenA'', JStr ''TOKEN_A''), (''tokenB'', JStr ''TOKEN_B''), (''tokenIdFromSlot'', JStr ''LP_POSITION_SLOT''),
      (''amountADesired'', JStr ''BETRAG_A''), (''amountBDesired'', JStr ''BETRAG_B'')])]"
  "sr_edges recipe_pancake_auto_reinvest = [(''trigger'', ''collect'', ''out''), (''collect'', ''reinvest'', ''out'')]"
  "sr_nodes recipe_interval_rebalance = [(''trigger'', ''Interval Condition'', [(''interval'', JStr ''INTERVALL'')]),
    (''swap'', ''PancakeSwap V3 Swap'', [(''tokenIn'', JStr ''TOKEN_FROM''), (''tokenOut'', JStr ''TOKEN_TO''), (''fee'', JStr ''FEE_TIER''), (''amountIn'', JStr ''BETRAG'')])]"
  "sr_edges recipe_interval_rebalance = [(''trigger'', ''swap'', ''out'')]"
  "sr_nodes recipe_wick_wait_entry = [(''size'', ''PancakeSwap V3 Swap to Range Ratio'', [(''tokenA'', JStr ''TOKEN_A''), (''tokenB'', JStr ''TOKEN_B''), (''fee'', JStr ''FEE''), (''tickDelta'', JStr ''RANGE''),
      (''amountOutMinimum'', JStr ''0'')]),
    (''mint'', ''PancakeSwap V3 LP Mint'', [(''tokenA'', JStr ''TOKEN_A''), (''tokenB'', JStr ''TOKEN_B''), (''fee'', JStr ''FEE''), (''rangeMode'', JNum (Fin 1)),
      (''tickDelta'', JStr ''RANGE''), (''amountADesired'', JStr ''0''), (''amountBDesired'', JStr ''0''), (''tokenIdToSlot'', JStr ''LP_POSITION_SLOT'')])]"
  "sr_edges recipe_wick_wait_entry = [(''size'', ''mint'', ''out'')]"
  "sr_nodes recipe_wick_wait_rebalance = [(''trigger'', ''Wick & Wait Rebalance'', [(''tokenIdSlot'', JStr ''LP_POSITION_SLOT''), (''twapWindow'', JStr ''TWAP_WINDOW''), (''cooldown'', JStr ''COOLDOWN''),
      (''lastRebalanceSlot'', JStr ''LAST_REBALANCE_SLOT'')]),
    (''collect'', ''PancakeSwap V3 Collect'', [(''tokenIdFromSlot'', JStr ''LP_POSITION_SLOT'')]),
    (''close'', ''PancakeSwap V3 Decrease Liquidity'', [(''tokenIdFromSlot'', JStr ''LP_POSITION_SLOT''), (''percent'', JNum (Fin 100))]),
    (''size'', ''PancakeSwap V3 Swap to Range Ratio'', [(''tokenA'', JStr ''TOKEN_A''), (''tokenB'', JStr ''TOKEN_B''), (''fee'', JStr ''FEE''), (''tickDelta'', JStr ''RANGE''),
      (''amountOutMinimum'', JStr ''0'')]),
    (''mint'', ''PancakeSwap V3 LP Mint'', [(''tokenA'', JStr ''TOKEN_A''), (''tokenB'', JStr ''TOKEN_B''), (''fee'', JStr ''FEE''), (''rangeMode'', JNum (Fin 1)),
      (''tickDelta'', JStr ''RANGE''), (''amountADesired'', JStr ''0''), (''amountBDesired'', JStr ''0''), (''tokenIdToSlot'', JStr ''LP_POSITION_SLOT'')])]"
  "sr_edges recipe_wick_wait_rebalance = [(''trigger'', ''collect'', ''out''), (''collect'', ''close'', ''out''), (''close'', ''size'', ''out''), (''size'', ''mint'', ''out'')]"
  "sr_nodes recipe_wick_wait_compound = [(''trigger'', ''Interval Condition'', [(''interval'', JStr ''INTERVALL'')]),
    (''collect'', ''PancakeSwap V3 Collect'', [(''tokenIdFromSlot'', JStr ''LP_POSITION_SLOT'')]),
    (''feeTopUp'', ''Fee Deposit'', [(''feeRegistry'', JStr ''FEE_REGISTRY''), (''token'', JStr ''TOKEN_A''), (''topUpAmount'', JStr ''0'')]),
    (''reinvest'', ''PancakeSwap V3 Increase Liquidity'', [(''tokenA'', JStr ''TOKEN_A''), (''tokenB'', JStr ''TOKEN_B''), (''tokenIdFromSlot'', JStr ''LP_POSITION_SLOT''), (''amountADesired'', JStr ''0''),
      (''amountBDesired'', JStr ''0'')])]"
  "sr_edges recipe_wick_wait_compound = [(''trigger'', ''collect'', ''out''), (''collect'', ''feeTopUp'', ''out''), (''feeTopUp'', ''reinvest'', ''out'')]"
  by (simp_all only: recipe_dca_def recipe_interval_aave_supply_def recipe_pancake_auto_reinvest_def recipe_interval_rebalance_def recipe_wick_wait_entry_def recipe_wick_wait_rebalance_def recipe_wick_wait_compound_def shipped_recipe.simps)

lemma nodes_listed: "list_all (\<lambda>r. list_all node_listed (sr_nodes r)) RECIPES"
  by (simp add: RECIPES_def recipe_shapes node_listed_def recipe_steps step_facts)

lemma edges_listed: "list_all (\<lambda>r. list_all (\<lambda>(s, t, h). s \<in> set (map fst (sr_nodes r)) \<and> t \<in> set (map fst (sr_nodes r))) (sr_edges r)) RECIPES"
  by (simp add: RECIPES_def recipe_shapes)

text \<open>Every shipped recipe passes the check of the seed: its nodes name shipped steps and parameters of theirs, and its
  edges run between its nodes.\<close>

theorem shipped_recipes_are_valid:
  "list_all (\<lambda>r. validateRecipeShape (rd_shape (definition_of r)) (buildCatalog (map entry_of STEP_TYPE_CATALOG)) = []) RECIPES"
proof -
  have n: "node_errors (buildCatalog (map entry_of STEP_TYPE_CATALOG)) \<lparr>rn_id = i, rn_stepType = st, rn_params = map fst ps\<rparr> = []"
    if listed: "node_listed (i, st, ps)" for i st ps
  proof -
    obtain d where d: "shipped_step st = Some d" and ps: "list_all (\<lambda>(k, v). k \<in> set (step_keys d)) ps"
      using listed by (cases "shipped_step st") (auto simp: node_listed_def)
    have "fst ` set (ce_properties (entry_of d)) = set (step_keys d)" by (force simp: entry_of_def step_keys_def)
    with ps show ?thesis by (auto simp: node_errors_def buildCatalog_at shipped_by_key [OF d] filter_empty_conv list_all_iff)
  qed
  have e: "recipe_edge_errors ids (s, t) = []" if "s \<in> ids" "t \<in> ids" for ids s t using that by (simp add: recipe_edge_errors_def)
  have "validateRecipeShape (rd_shape (definition_of r)) (buildCatalog (map entry_of STEP_TYPE_CATALOG)) = []"
    if nodes: "list_all node_listed (sr_nodes r)"
      and edges: "list_all (\<lambda>(s, t, h). s \<in> set (map fst (sr_nodes r)) \<and> t \<in> set (map fst (sr_nodes r))) (sr_edges r)" for r
  proof -
    have "rn_id ` set (rs_nodes (rd_shape (definition_of r))) = set (map fst (sr_nodes r))" by (force simp: definition_of_def)
    moreover have "recipe_edge_errors (set (map fst (sr_nodes r))) (s, t) = []" if "(s, t, h) \<in> set (sr_edges r)" for s t h
      using edges that unfolding list_all_iff by (intro e) fastforce+
    ultimately have "list_all (\<lambda>x. recipe_edge_errors (rn_id ` set (rs_nodes (rd_shape (definition_of r)))) x = []) (rs_edges (rd_shape (definition_of r)))"
      by (auto simp: definition_of_def list_all_iff)
    moreover have "list_all (\<lambda>x. node_errors (buildCatalog (map entry_of STEP_TYPE_CATALOG)) x = []) (rs_nodes (rd_shape (definition_of r)))"
      using nodes n by (auto simp: definition_of_def list_all_iff)
    ultimately show ?thesis by (simp add: validateRecipeShape_def list_all_iff)
  qed
  with nodes_listed edges_listed show ?thesis by (simp add: list_all_iff)
qed

text \<open>The graph that a recipe spells out: the categories of its steps are those of the catalog, the parameters are left open.\<close>

definition category_of :: "string \<Rightarrow> string" where
  "category_of name = (case shipped_step name of None \<Rightarrow> [] | Some d \<Rightarrow> sh_category d)"

definition recipe_types :: "shipped_recipe \<Rightarrow> (string \<times> string) list" where
  "recipe_types r = map (\<lambda>(i, st, ps). (i, category_of st)) (sr_nodes r)"

definition recipe_edges :: "shipped_recipe \<Rightarrow> gedge list" where
  "recipe_edges r = map (\<lambda>(s, t, h). \<lparr>e_source = s, e_target = t, e_handle = h\<rparr>) (sr_edges r)"

definition built_from :: "raw_graph \<Rightarrow> shipped_recipe \<Rightarrow> bool" where
  "built_from g r \<longleftrightarrow> map (\<lambda>n. (n_id n, n_type n)) (g_nodes g) = recipe_types r \<and> g_edges g = recipe_edges r"

text \<open>The recipe starts with a condition none of whose edges has a handle of a condition.\<close>

definition dead_at :: "(string \<times> string) list \<Rightarrow> gedge list \<Rightarrow> bool" where
  "dead_at types es \<longleftrightarrow> distinct (map fst types) \<and>
     (case List.find (\<lambda>p. is_start (map fst types) es (fst p)) types of
        None \<Rightarrow> False
      | Some (i, c) \<Rightarrow> c = ''CONDITION'' \<and> list_all (\<lambda>e. e_source e = i \<longrightarrow> e_handle e \<noteq> ''true'' \<and> e_handle e \<noteq> ''false'') es)"

definition dead_trigger :: "shipped_recipe \<Rightarrow> bool" where
  "dead_trigger r \<longleftrightarrow> dead_at (recipe_types r) (recipe_edges r)"

lemma dead_triggers: "map dead_trigger RECIPES = [True, True, True, True, False, True, True]"
proof -
  show ?thesis unfolding dead_trigger_def RECIPES_def list.map recipe_types_def recipe_edges_def recipe_shapes category_of_def
    by (simp only: recipe_steps option.case step_facts prod.case) code_simp
qed

lemma run_steps_DONE: "run_steps cond act owner steps budget DONE ctx fired = Inr (ctx, fired)"
  by (cases budget) simp_all

text \<open>A program whose first step is a condition that leads nowhere runs nothing else.\<close>

lemma dead_program:
  assumes "steps \<noteq> []" "s_stepType (hd steps) = STEP_TYPE_CONDITION" "s_nextOnTrue (hd steps) = DONE" "s_nextOnFalse (hd steps) = DONE"
  shows "execute cond act owner ownerOnly steps ctx =
    (case cond ctx (step_call (hd steps)) of
       None \<Rightarrow> Inl (CallReverted 0)
     | Some met \<Rightarrow> if met \<or> owner then Inr (ctx, met) else Inl TriggerNotMet)"
proof -
  obtain budget where b: "MAX_STEPS = Suc budget" by (cases MAX_STEPS) (simp_all add: MAX_STEPS_def)
  have m: "DONE \<noteq> 0" "0 \<noteq> DONE" by (simp_all add: DONE_def)
  have h: "steps ! 0 = hd steps" using assms(1) by (simp add: hd_conv_nth)
  show ?thesis using assms
    by (simp add: execute_def b m h run_steps_DONE Let_def STEP_TYPE_CONDITION_def STEP_TYPE_ACTION_def split: option.split)
qed

lemma find_map: "List.find P (map f xs) = map_option f (List.find (\<lambda>x. P (f x)) xs)"
  by (induction xs) auto

lemma jump_none: "\<forall>e \<in> set outs. e_handle e \<noteq> h \<Longrightarrow> jump idx outs h = DONE"
  by (simp add: jump_def find_None_iff split: option.split) (auto dest: find_Some_in)

lemma dead_compiled:
  assumes "dead_trigger r" "built_from g r" "compileSteps lib stm m g = Inr steps"
  shows "steps \<noteq> [] \<and> s_stepType (hd steps) = STEP_TYPE_CONDITION \<and> s_nextOnTrue (hd steps) = DONE \<and> s_nextOnFalse (hd steps) = DONE"
proof -
  obtain n where n: "startNode g = Some n" and len: "length steps = length (bfs_order (g_edges g) (n_id n))"
    and at: "\<forall>i < length (bfs_order (g_edges g) (n_id n)). compileStep lib stm m g (index_of (bfs_order (g_edges g) (n_id n)))
      (bfs_order (g_edges g) (n_id n) ! i) = Inr (steps ! i)"
    using assms(3) by (rule compileSteps_cases) blast
  have types: "recipe_types r = map (\<lambda>n. (n_id n, n_type n)) (g_nodes g)" and es: "recipe_edges r = g_edges g"
    using assms(2) by (simp_all add: built_from_def)
  have ids: "map fst (recipe_types r) = node_ids g" by (simp add: types node_ids_def comp_def)
  have "List.find (\<lambda>p. is_start (node_ids g) (g_edges g) (fst p)) (recipe_types r) = Some (n_id n, n_type n)"
    using n by (simp add: types find_map startNode_def)
  then have d: "distinct (node_ids g)" "n_type n = ''CONDITION''"
    "\<forall>e \<in> set (g_edges g). e_source e = n_id n \<longrightarrow> e_handle e \<noteq> ''true'' \<and> e_handle e \<noteq> ''false''"
    using assms(1) by (simp_all add: dead_trigger_def dead_at_def ids es list_all_iff)
  have mem: "n \<in> set (g_nodes g)" using find_Some_in [OF n [unfolded startNode_def]] by simp
  have c: "is_condition g (n_id n)" using nodeMap_distinct [OF d(1) mem] d(2) by (simp add: is_condition_def)
  have first: "bfs_order (g_edges g) (n_id n) \<noteq> []" "bfs_order (g_edges g) (n_id n) ! 0 = n_id n"
    using bfs.order_start [of "g_edges g" "n_id n"] by auto
  with at have s: "compileStep lib stm m g (index_of (bfs_order (g_edges g) (n_id n))) (n_id n) = Inr (steps ! 0)" by force
  have "\<forall>e \<in> set (out_edges (g_edges g) (n_id n)). e_handle e \<noteq> ''true'' \<and> e_handle e \<noteq> ''false''"
    using d(3) by (auto simp: out_edges_filter)
  then have "s_stepType (steps ! 0) = STEP_TYPE_CONDITION" "s_nextOnTrue (steps ! 0) = DONE" "s_nextOnFalse (steps ! 0) = DONE"
    using compiled_step_at [OF s] c by (simp_all add: jump_none)
  moreover have "steps \<noteq> []" using len first(1) by auto
  ultimately show ?thesis by (simp add: hd_conv_nth)
qed


text \<open>The first recipe, its steps taken without parameters.\<close>

definition dca_graph :: raw_graph where
  "dca_graph = \<lparr>g_nodes = [\<lparr>n_id = ''trigger'', n_type = ''CONDITION'', n_stepTypeId = ''interval'', n_params = Map.empty\<rparr>,
     \<lparr>n_id = ''buy'', n_type = ''ACTION'', n_stepTypeId = ''swap'', n_params = Map.empty\<rparr>],
     g_edges = [\<lparr>e_source = ''trigger'', e_target = ''buy'', e_handle = ''out''\<rparr>]\<rparr>"

definition any_step :: "string \<Rightarrow> step_row option" where
  "any_step t = Some \<lparr>st_id = t, st_contractAddress = ''0xC'', st_selector = CHECK_SELECTOR, st_components = [], st_paramSchema = None\<rparr>"

lemma dca_built: "built_from dca_graph recipe_dca"
  unfolding built_from_def recipe_types_def recipe_edges_def recipe_shapes category_of_def
  by (simp add: recipe_steps step_facts dca_graph_def)

lemma dca_compiles: "\<exists>steps. compileSteps demo_lib any_step [] dca_graph = Inr steps"
proof -
  have start: "startNode dca_graph = Some (hd (g_nodes dca_graph))"
    by (simp add: startNode_startNodes startNodes_def dca_graph_def is_start_iff node_ids_def)
  have "bfs_order (g_edges dca_graph) ''trigger'' = [''trigger'', ''buy'']"
    by (simp add: bfs_order_def dca_graph_def out_edges_filter)
  then have order: "bfs dca_graph = Inr [''trigger'', ''buy'']" by (simp add: bfs_def start) (simp add: dca_graph_def)
  have nodes: "nodeMap dca_graph = [''trigger'' \<mapsto> hd (g_nodes dca_graph), ''buy'' \<mapsto> hd (tl (g_nodes dca_graph))]"
    by (simp add: nodeMap_def by_key_def dca_graph_def)
  have step: "\<exists>s. compileStep demo_lib any_step [] dca_graph idx x = Inr s" if "x \<in> {''trigger'', ''buy''}" for idx x
    using that unfolding compileStep_def nodes
    by (auto simp: dca_graph_def any_step_def encodeParams_def demo_lib_def Let_def)
  obtain s1 where "compileStep demo_lib any_step [] dca_graph (indexMap [''trigger'', ''buy'']) ''trigger'' = Inr s1"
    using step [of "''trigger''"] by auto
  moreover obtain s2 where "compileStep demo_lib any_step [] dca_graph (indexMap [''trigger'', ''buy'']) ''buy'' = Inr s2"
    using step [of "''buy''"] by auto
  ultimately have "compileSteps demo_lib any_step [] dca_graph = Inr [s1, s2]" by (simp add: compileSteps_def order)
  then show ?thesis by blast
qed


section \<open>A window that is too long\<close>

text \<open>7102 weeks: more seconds than the 32 bits of \<open>twapWindow\<close> hold.\<close>

definition long_window :: jsval where
  "long_window = JObj [(''value'', JNum (Fin 7102)), (''unit'', JStr ''weeks'')]"

lemma whole_duration:
  assumes "as_duration v = Some (JNum (Fin q), JStr (unit_name u))" "q * of_nat (unit_seconds u) = of_nat n" "n < 10 ^ 21"
  shows "mapFieldToRaw field (Some ''duration'') v fs' ps tds = Inr (JStr (show_nat n))"
  using assms by (simp add: mapFieldToRaw_def small_nat_num small_nat_string)

text \<open>The length of a window is checked nowhere before the ABI coder: for the TWAP window of the shipped rebalance condition, which is a
  uint32, a duration of more than \<open>2 ^ 32\<close> seconds passes the friendly validation, is converted, passes the raw validation, and
  is handed to the coder as a number that the type cannot hold.\<close>

theorem long_window_reaches_the_coder:
  "\<exists>f. (''twapWindow'', f) \<in> set (sh_properties Wick_Wait_Rebalance) \<and> (''twapWindow'', ''uint32'') \<in> set (sh_components Wick_Wait_Rebalance) \<and>
     f_widget f = Some ''duration'' \<and>
     validateDuration ''twapWindow'' (field_schema.truncate f) long_window Friendly = [] \<and>
     mapFieldToRaw ''twapWindow'' (f_widget f) long_window fs' ps tds = Inr (JStr (show_nat 4295289600)) \<and>
     validateDuration ''twapWindow'' (field_schema.truncate f) (JStr (show_nat 4295289600)) Raw = [] \<and>
     encodeValue [''twapWindow'' \<mapsto> JStr (show_nat 4295289600)] [] schema \<lparr>c_name = ''twapWindow'', c_type = ''uint32''\<rparr> =
       Inr (JNum (Fin 4295289600)) \<and> (2::rat) ^ 32 < 4295289600"
proof -
  define f where "f = snd (sh_properties Wick_Wait_Rebalance ! 1)"
  have "(''twapWindow'', f) \<in> set (sh_properties Wick_Wait_Rebalance)" "(''twapWindow'', ''uint32'') \<in> set (sh_components Wick_Wait_Rebalance)"
    "f_widget f = Some ''duration''"
    by (simp_all add: f_def Wick_Wait_Rebalance_def)
  moreover have dur: "as_duration long_window = Some (JNum (Fin 7102), JStr (unit_name Weeks))"
    by (simp add: long_window_def)
  then have "validateDuration ''twapWindow'' (field_schema.truncate f) long_window Friendly = []"
    unfolding friendly_duration_Nil by (intro exI [of _ 7102] exI [of _ Weeks]) simp
  moreover have "mapFieldToRaw ''twapWindow'' (Some ''duration'') long_window fs' ps tds = Inr (JStr (show_nat 4295289600))"
    by (rule whole_duration [OF dur]) simp_all
  moreover have n: "to_number (JStr (show_nat 4295289600)) = Fin (of_nat 4295289600)"
    by (simp add: num_fin_def num_limit_def)
  then have "validateDuration ''twapWindow'' (field_schema.truncate f) (JStr (show_nat 4295289600)) Raw = []"
    unfolding raw_duration_Nil by (intro exI [of _ 4295289600]) simp
  moreover have "encodeValue [''twapWindow'' \<mapsto> JStr (show_nat 4295289600)] [] schema \<lparr>c_name = ''twapWindow'', c_type = ''uint32''\<rparr> =
       Inr (JNum (Fin 4295289600))"
    by (simp add: encodeValue_def resolve_slot_def getp_def isEmpty_def convert_value_def Let_def num_fin_def num_limit_def)
  ultimately show ?thesis by (intro exI [of _ f]) simp
qed

end
