(* ===== verification/Spec2Isabelle.thy ===== *)
theory Spec2Isabelle
  imports Deployable Failures Propose Money Gateway Performance Wizard Reads Forms Shipped
begin

text \<open>
  \<^bold>\<open>Strategy Builder: a verification library.\<close>

  The repository builds \<^emph>\<open>automations\<close>: graphs of conditions and actions that a user draws in the web
  editor (src/packages/frontend) or an agent proposes through the MCP server (src/packages/mcp), that
  the backend (src/packages/backend) encodes into a step program, and that a vault contract
  (src/packages/contracts) stores and executes. The package \<open>shared\<close> holds what editor, agent and
  backend must agree on. The backend also indexes what the vaults did, and the MCP server holds a
  key, so everything it signs passes a policy gate. The theories follow these parts; a definition
  has the name of the function it models where HOL allows it.

  \<^bold>\<open>Language.\<close>
  \<^item> \<open>Prelude\<close>: results that may throw (\<open>'e + 'a\<close>), the world-passing functions \<open>io\<close> that stand for
    \<open>async\<close> functions (\<open>ibind\<close> is \<open>await\<close>, \<open>itry\<close> is \<open>try/catch\<close>), frame rules (\<open>keeps\<close>, \<open>always\<close>), and
    lemmas on lists, options and keyed tables.
  \<^item> \<open>JsLib\<close>, \<open>JsValues\<close>: strings, digits, \<open>Number\<close>, \<open>BigInt\<close>, \<open>parseInt\<close>, \<open>String\<close>, \<open>trim\<close>, \<open>split\<close>; values of
    type \<open>unknown\<close>. Finite numbers are exact rationals; the overflow to infinity is modelled, the
    rounding of finite doubles is not.

  \<^bold>\<open>Package shared.\<close>
  \<^item> \<open>Amounts\<close> (amount.ts, duration.ts, timestamp.ts): exactness and round trips of the conversions.
  \<^item> \<open>Validation\<close> (validation.ts): both validation modes; the raw guard lets only structurally safe
    values through, and the friendly one accepts exactly what converts.
  \<^item> \<open>Graphs\<close>: the breadth-first traversal that encoder, editor and MCP server repeat, with the locale
    of what its callers rely on.
  \<^item> \<open>Boundary\<close> (encode-boundary.ts, step-roles.ts): friendly graph to raw graph.

  \<^bold>\<open>Backend: programs.\<close>
  \<^item> \<open>Slots\<close> (context.service.ts): the directory of context slots; histories of allocations stay
    consistent, because indices are never reused.
  \<^item> \<open>Vault\<close> (StrategyBuilderVault.sol, only the creation check and the execution loop): the consumer
    of the programs. Its step budget is \<open>MAX_STEPS = 256\<close>, which is the fuel of the loop.
  \<^item> \<open>Encoding\<close> (encoding.service.ts): the encoder; the refinement theorem says that running the
    encoded program is walking the graph, for every behaviour of the step contracts.

  \<^bold>\<open>Backend: vaults and automations.\<close>
  \<^item> \<open>Triggers\<close> (trigger-status.service.ts): the statuses and their cache.
  \<^item> \<open>Automations\<close> (vault.service.ts, vault-access.service.ts, automation.service.ts, the controllers): the
    tables as a record, one definition per route, the tables' keys as an invariant over any sequence of
    calls, and who may do what.

  \<^bold>\<open>Backend: indexer.\<close>
  \<^item> \<open>Planner\<close> (range-planner.ts, event-mapper.ts, protocol-flow.ts, the recursive \<open>fetchLogs\<close>): the windows
    tile the blocks. \<open>plan_loop\<close> and \<open>fetchLogs\<close> are \<open>function\<close>s whose measures are the blocks left and the
    length of the range, so they end for every input.
  \<^item> \<open>Indexer\<close> (indexer.service.ts, indexer-cursor.store.ts): a pass over the tables in which every call
    may fail; the locale \<open>keyed\<close> of the tables and the invariant of any sequence of passes.
  \<^item> \<open>Failures\<close> (contract-error.service.ts, failure-ingest.service.ts): revert decoding, and the keeper's
    reports as two database steps interleaved with other reports and with the indexer.

  \<^bold>\<open>Backend: sessions and events.\<close>
  \<^item> \<open>Auth\<close> (auth.service.ts, signature.service.ts, user.service.ts, wallet-auth.guard.ts): nonces, sessions and
    renewals as database steps of interleaved requests; every session is justified by a signed message.
  \<^item> \<open>Sessions\<close> (auth-client.ts, session.ts, frontend api.ts): both clients against that backend; the
    handshake succeeds and an expired token is renewed without the caller noticing.
  \<^item> \<open>Gateway\<close> (executions.gateway.ts, keeper-ingest.guard.ts): sockets, rooms and deliveries.

  \<^bold>\<open>Backend: history and cockpit.\<close>
  \<^item> \<open>History\<close> (execution.service.ts): the pages of the history, for any order in which SQL reads equal rows.
  \<^item> \<open>Positions\<close> (protocol-adapter.ts, conformance.ts), \<open>Liquidity\<close> (pancakeswap/), \<open>Lending\<close> (aave/): what an
    adapter reports and the contract it keeps; the tick mathematics is that of the code, on integers.
  \<^item> \<open>Portfolio\<close> (vault-portfolio.service.ts, alchemy.service.ts, price.service.ts, fee.service.ts): balances,
    prices, and the caches above them.
  \<^item> \<open>Cockpit\<close> (valuation.service.ts, concurrency.ts): the valuation of a vault, and the worker pool as a step
    relation whose every schedule ends after at most four steps for each item.
  \<^item> \<open>Performance\<close> (snapshot.service.ts, history.service.ts, performance.service.ts): the tick over the pool and
    the views that read its rows; header, chart and profit agree on the value.

  \<^bold>\<open>Backend: catalog.\<close>
  \<^item> \<open>Catalog\<close> (catalog-integrity.ts, recipe-validation.ts, prisma/seed.ts): the guard, the recipe check and the
    seed as an upsert loop that is proved to leave exactly the deployed catalog.
  \<^item> \<open>Shipped\<close> (prisma/seed/catalog, recipe-seed-data.ts): the shipped step types, tokens and recipes as data. The
    guard and the recipe check accept them, the form keeps to their schemas, and the encoder gives the
    triggers of the recipes no successor.

  \<^bold>\<open>Editor.\<close>
  \<^item> \<open>GraphCheck\<close> (validate-graph.ts, is-valid-connection.ts): the three-colour search; its depth bound is
    the number of nodes, and it is proved that the search never reaches it.
  \<^item> \<open>Editor\<close> (editor-store.ts, auto-layout.ts, pool-validity.ts): every action of the store, undo and redo.
  \<^item> \<open>Deployable\<close> (graph-to-steps.ts, deploy-dialog.tsx): from a validated graph to an accepted program
    that runs within the step budget; the transactions of the deployment dialog.

  \<^item> \<open>Ticks\<close> (lib/ticks.ts): the tick arithmetic over real numbers, so about the formulas and not the last
    digits of a double; its logarithms are the one part of the library that does not compute.
  \<^item> \<open>Forms\<close> (dynamic-form.tsx, context-input-field.tsx, context-output-field.tsx): the widget of a schema
    field, its local state, and the calls of the store that each event makes.

  \<^bold>\<open>MCP server.\<close>
  \<^item> \<open>Gate\<close> (policy-gate.ts, confirmation.ts, audit-log.ts): the gate over any provider of confirmations.
    The locale \<open>confirmation\<close> states what a provider promises; it is interpreted for the elicitation, the
    localhost page (an event machine over requests and timers) and, through \<open>two_providers\<close>, for the
    composite the server uses. No signature without the consent an action needs.
  \<^item> \<open>Drafts\<close> (summary-decoder.ts, intent-check.ts, graph-utils.ts, draft-store.ts), \<open>Deploy\<close>
    (deploy-automation.ts, chain.ts): what is confirmed and what is sent for a stored draft.
  \<^item> \<open>Client\<close> (backend-client.ts): requests with the refresh on 401; the backend of theory \<open>Automations\<close>
    as its server.
  \<^item> \<open>Propose\<close> (propose-automation.ts): the whole tool; the locale \<open>draft_backend\<close> states what it relies on
    in the backend and is interpreted by the modelled one.
  \<^item> \<open>Money\<close> (money-movement.ts, lifecycle.ts, create-vault.ts, token-utils.ts, money-chain.ts,
    vault-guard.ts, config.ts): the tools that move money; what they can have signed.
  \<^item> \<open>Reads\<close> (read-tools.ts, catalog-tools.ts, automation-deps.ts, config.ts, onboarding.ts): what the agent
    can read, from the backend of the theories \<open>Automations\<close>, \<open>History\<close>, \<open>Portfolio\<close> and \<open>Catalog\<close>, and how
    the server gets its configuration and its key.

  \<^bold>\<open>Frontend: money.\<close>
  \<^item> \<open>Wallet\<close> (use-approve-and-deposit.ts, use-withdraw.ts, use-create-vault.ts, wait-for-receipt.ts, the deposit
    and withdrawal forms, the gas reserve card): what the frontend asks the wallet for, in which order, and
    what the user is told. \<open>wait_loop\<close> ends because every round advances the clock by two seconds.
  \<^item> \<open>Wizard\<close> (pages/vault/create.tsx): the page as a step function over its events; the handlers that
    run while the user goes on are split into their beginnings and ends.

  \<^bold>\<open>Parameters.\<close> Code outside src/ enters as arguments: the ABI coder, checksums and log decoder of
  ethers (\<open>encode_lib\<close>, \<open>be_getAddress\<close>, decoded logs), contract reads, receipts, prices, clocks and
  random ids, the HTTP transport, React Flow and dagre. No law is assumed of them beyond what a
  theorem states as a hypothesis; each such theorem has a witness with concrete functions.

  \<^bold>\<open>Not modelled.\<close> The Solidity contracts except the vault's interpreter (another language with its own
  tests); generated code (ethers types, ABI files, the Prisma client); the rendering of
  the React components and the pages that only show what an endpoint answers; deployment scripts and
  configuration; NestJS modules, logging and Swagger metadata; cryptography (keystore, signatures). USD values are doubles in
  the code and exact rationals here: the theorems on them are about the formulas, which rows enter
  them and with which sign, not about the rounding of the last digits.
\<close>

end
